(* ===== verification/Fuse_Prelude.thy ===== *)
theory Fuse_Prelude
  imports Main "HOL-Library.Word" "HOL-Library.Monad_Syntax" "HOL-Library.Signed_Division"
begin

text \<open>
  The prelude of the development: how C code is read as HOL functions, and the lemmas every
  component shares.

  \<^item> A C function that touches global state is a function \<open>s \<Rightarrow> (r \<times> s) option\<close>. \<open>None\<close> stands for
    an execution that does not return a value to its caller: an access outside an array or through
    a dangling or null pointer, a lock taken twice by the same thread, a wait nobody answers, a loop
    that does not end. The \<open>do\<close> notation of the option type threads the state.
  \<^item> \<open>wpo m Q\<close> is the weakest precondition of such an execution: it returns, and \<open>Q\<close> holds of
    what it returns. Component lemmas are rules for \<open>wpo\<close>, collected in \<open>wp\<close>.
  \<^item> The operating system and the iRODS server are the field \<open>world\<close> of the state, of an arbitrary
    type; every call into them is an argument of the definitions that make it.
  \<^item> Locks are part of the state: a plain pthread mutex deadlocks when its holder locks it again.
\<close>

section \<open>Executions that may fail to return\<close>

named_theorems wp "weakest-precondition rules of the operations"
named_theorems wp_simps "equations that evaluate weakest preconditions"

definition wpo :: "'a option \<Rightarrow> ('a \<Rightarrow> bool) \<Rightarrow> bool" where
  "wpo m Q \<longleftrightarrow> (\<exists>x. m = Some x \<and> Q x)"

lemma wpo_Some [simp, wp_simps]: "wpo (Some x) Q = Q x"
  by (simp add: wpo_def)

lemma wpo_None [simp, wp_simps]: "wpo None Q = False"
  by (simp add: wpo_def)

lemma wpo_bind [simp, wp_simps]: "wpo (m \<bind> f) Q = wpo m (\<lambda>x. wpo (f x) Q)"
  by (cases m) (auto simp: wpo_def)

lemma wpo_if [wp_simps]:
  "wpo (if b then m else n) Q = ((b \<longrightarrow> wpo m Q) \<and> (\<not> b \<longrightarrow> wpo n Q))"
  by simp

lemma wpo_mono: "wpo m P \<Longrightarrow> (\<And>x. P x \<Longrightarrow> Q x) \<Longrightarrow> wpo m Q"
  by (auto simp: wpo_def)

lemma wpo_conj: "wpo m P \<Longrightarrow> wpo m Q \<Longrightarrow> wpo m (\<lambda>x. P x \<and> Q x)"
  by (auto simp: wpo_def)

lemma wpo_case_option [wp_simps]:
  "wpo (case v of None \<Rightarrow> m | Some y \<Rightarrow> f y) Q =
     ((v = None \<longrightarrow> wpo m Q) \<and> (\<forall>y. v = Some y \<longrightarrow> wpo (f y) Q))"
  by (cases v) auto

lemma wpo_map_option [simp, wp_simps]: "wpo (map_option f m) Q = wpo m (\<lambda>x. Q (f x))"
  by (cases m) auto

lemma wpo_returns: "wpo m Q \<Longrightarrow> \<exists>x. m = Some x"
  by (auto simp: wpo_def)

lemma wpo_post: "wpo m Q \<Longrightarrow> m = Some x \<Longrightarrow> Q x"
  by (auto simp: wpo_def)

lemma wpoI: "m = Some x \<Longrightarrow> Q x \<Longrightarrow> wpo m Q"
  by (auto simp: wpo_def)

text \<open>\<open>wlpo m Q\<close> is the weakest liberal precondition: if the execution returns, \<open>Q\<close> holds. It serves the
  invariants of operations whose loops the operating system may keep going for ever.\<close>

named_theorems wlp "weakest-liberal-precondition rules of the operations"

definition wlpo :: "'a option \<Rightarrow> ('a \<Rightarrow> bool) \<Rightarrow> bool" where
  "wlpo m Q \<longleftrightarrow> (\<forall>x. m = Some x \<longrightarrow> Q x)"

lemma wlpo_rules [wlp]:
  "Q x \<Longrightarrow> wlpo (Some x) Q" "wlpo None Q"
  "(b \<Longrightarrow> wlpo m Q) \<Longrightarrow> (\<not> b \<Longrightarrow> wlpo n Q) \<Longrightarrow> wlpo (if b then m else n) Q"
  "(v = None \<Longrightarrow> wlpo m Q) \<Longrightarrow> (\<And>y. v = Some y \<Longrightarrow> wlpo (g y) Q) \<Longrightarrow> wlpo (case v of None \<Rightarrow> m | Some y \<Rightarrow> g y) Q"
  by (auto simp: wlpo_def split: option.splits)

lemma wlpo_bind [wlp]: "wlpo m (\<lambda>x. wlpo (f x) Q) \<Longrightarrow> wlpo (m \<bind> f) Q"
  by (auto simp: wlpo_def bind_eq_Some_conv)

lemma wlpo_mono: "wlpo m P \<Longrightarrow> (\<And>x. P x \<Longrightarrow> Q x) \<Longrightarrow> wlpo m Q"
  by (auto simp: wlpo_def)

lemma wpo_wlpo: "wpo m Q \<Longrightarrow> wlpo m Q"
  by (auto simp: wlpo_def wpo_def)

lemma wlpo_post: "wlpo m Q \<Longrightarrow> m = Some x \<Longrightarrow> Q x"
  by (auto simp: wlpo_def)

section \<open>The world and the locks\<close>

datatype lockid =
    DescLock | ConnLock | PathCacheLock | NewlyCreatedOprLock
  | IFuseDescLock int | IFuseConnLock nat
  | PreloadLock | LazyUploadLock

record 'w base =
  world :: 'w
  locks :: "lockid \<Rightarrow> nat"

text \<open>A plain mutex: locking it while it is held never returns to the caller (the model runs one
  thread at a time); unlocking a free mutex leaves it free.\<close>

definition mutex_lock :: "lockid \<Rightarrow> ('w, 'z) base_scheme \<Rightarrow> ('w, 'z) base_scheme option" where
  "mutex_lock l s = (if locks s l = 0 then Some (s\<lparr>locks := (locks s)(l := Suc 0)\<rparr>) else None)"

definition mutex_unlock :: "lockid \<Rightarrow> ('w, 'z) base_scheme \<Rightarrow> ('w, 'z) base_scheme option" where
  "mutex_unlock l s = Some (s\<lparr>locks := (locks s)(l := 0)\<rparr>)"

text \<open>A mutex of type \<open>PTHREAD_MUTEX_RECURSIVE\<close> counts; unlocking it while it is free is refused
  by the library with \<open>EPERM\<close> and changes nothing.\<close>

definition rec_lock :: "lockid \<Rightarrow> ('w, 'z) base_scheme \<Rightarrow> ('w, 'z) base_scheme option" where
  "rec_lock l s = Some (s\<lparr>locks := (locks s)(l := Suc (locks s l))\<rparr>)"

definition rec_unlock :: "lockid \<Rightarrow> ('w, 'z) base_scheme \<Rightarrow> ('w, 'z) base_scheme option" where
  "rec_unlock l s = Some (s\<lparr>locks := (locks s)(l := locks s l - 1)\<rparr>)"

text \<open>A call into the world: a function of the world's state.\<close>

definition sys :: "('w \<Rightarrow> 'a \<times> 'w) \<Rightarrow> ('w, 'z) base_scheme \<Rightarrow> ('a \<times> ('w, 'z) base_scheme) option" where
  "sys f s = (case f (world s) of (r, w) \<Rightarrow> Some (r, s\<lparr>world := w\<rparr>))"

lemma wpo_mutex_lock [wp]:
  "locks s l = 0 \<Longrightarrow> Q (s\<lparr>locks := (locks s)(l := Suc 0)\<rparr>) \<Longrightarrow> wpo (mutex_lock l s) Q"
  by (simp add: mutex_lock_def)

lemma wpo_mutex_unlock [wp_simps]:
  "wpo (mutex_unlock l s) Q = Q (s\<lparr>locks := (locks s)(l := 0)\<rparr>)"
  by (simp add: mutex_unlock_def)

lemma wpo_rec_lock [wp_simps]:
  "wpo (rec_lock l s) Q = Q (s\<lparr>locks := (locks s)(l := Suc (locks s l))\<rparr>)"
  by (simp add: rec_lock_def)

lemma wpo_rec_unlock [wp_simps]:
  "wpo (rec_unlock l s) Q = Q (s\<lparr>locks := (locks s)(l := locks s l - 1)\<rparr>)"
  by (simp add: rec_unlock_def)

lemma wpo_sys [wp]:
  "(\<And>r w. f (world s) = (r, w) \<Longrightarrow> Q (r, s\<lparr>world := w\<rparr>)) \<Longrightarrow> wpo (sys f s) Q"
  by (cases "f (world s)") (simp add: sys_def)

section \<open>Linked lists in a heap\<close>

text \<open>The first and the last address of a chain, as pointers.\<close>

definition hdo :: "'a list \<Rightarrow> 'a option" where
  "hdo xs = (case xs of [] \<Rightarrow> None | x # _ \<Rightarrow> Some x)"

definition lasto :: "'a list \<Rightarrow> 'a option" where
  "lasto xs = (if xs = [] then None else Some (last xs))"

lemma hdo_simps [simp]:
  "hdo [] = None" "hdo (x # xs) = Some x" "hdo xs = None \<longleftrightarrow> xs = []"
  "hdo (xs @ ys) = (if xs = [] then hdo ys else hdo xs)"
  by (auto simp: hdo_def split: list.splits)

lemma lasto_simps [simp]:
  "lasto [] = None" "lasto (xs @ [x]) = Some x" "lasto xs = None \<longleftrightarrow> xs = []"
  "lasto (xs @ ys) = (if ys = [] then lasto xs else lasto ys)"
  "lasto (x # xs) = (if xs = [] then Some x else lasto xs)"
  by (auto simp: lasto_def)

lemma lasto_in_set: "lasto xs = Some x \<Longrightarrow> x \<in> set xs"
  by (auto simp: lasto_def split: if_splits)

lemma hdo_in_set: "hdo xs = Some x \<Longrightarrow> x \<in> set xs"
  by (auto simp: hdo_def split: list.splits)

text \<open>\<open>chain nx p as\<close>: following \<open>nx\<close> from the pointer \<open>p\<close> visits the addresses \<open>as\<close> and ends at
  the null pointer.\<close>

primrec chain :: "('a \<Rightarrow> 'a option option) \<Rightarrow> 'a option \<Rightarrow> 'a list \<Rightarrow> bool" where
  "chain nx p [] \<longleftrightarrow> p = None"
| "chain nx p (a # as) \<longleftrightarrow> p = Some a \<and> (\<exists>q. nx a = Some q \<and> chain nx q as)"

lemma chain_None [simp]: "chain nx None as \<longleftrightarrow> as = []"
  by (cases as) auto

lemma chain_Some: "chain nx (Some a) as \<longleftrightarrow> (\<exists>q bs. as = a # bs \<and> nx a = Some q \<and> chain nx q bs)"
  by (cases as) auto

lemma chain_hdo: "chain nx p as \<Longrightarrow> p = hdo as"
  by (cases as) auto

lemma chain_cong: "(\<And>a. a \<in> set as \<Longrightarrow> nx a = nx' a) \<Longrightarrow> chain nx p as = chain nx' p as"
  by (induction as arbitrary: p) auto

lemma chain_upd [simp]:
  "x \<notin> set as \<Longrightarrow> chain (nx(x := q)) p as = chain nx p as"
  "x \<notin> set as \<Longrightarrow> chain (\<lambda>a. if a = x then q else nx a) p as = chain nx p as"
  by (rule chain_cong; auto)+

lemma chain_transfer:
  "chain nx p as \<Longrightarrow> (\<And>a. a \<in> set as \<Longrightarrow> nx' a = nx a) \<Longrightarrow> chain nx' p as"
  using chain_cong [of as nx' nx] by blast

lemma chain_append:
  "chain nx p (as @ bs) \<Longrightarrow> chain nx (hdo bs) bs"
  by (induction as arbitrary: p) (auto dest: chain_hdo)

lemma chain_nth:
  "chain nx p (as @ a # bs) \<Longrightarrow> nx a = Some (hdo bs)"
  by (induction as arbitrary: p) (auto dest: chain_hdo)

text \<open>A chain is its list of next pointers.\<close>

lemma chain_iff:
  "chain nx p as \<longleftrightarrow> p = hdo as \<and> (\<forall>i < length as. nx (as ! i) = Some (hdo (drop (Suc i) as)))"
proof (induction as arbitrary: p)
  case Nil
  then show ?case by simp
next
  case (Cons a as)
  then show ?case by (auto simp: less_Suc_eq_0_disj)
qed

section \<open>Arrays\<close>

text \<open>An array is the list of its cells; reading or storing outside it does not return.\<close>

definition load :: "'a list \<Rightarrow> nat \<Rightarrow> 'a option" where
  "load buf i = (if i < length buf then Some (buf ! i) else None)"

definition store :: "nat \<Rightarrow> 'a \<Rightarrow> 'a list \<Rightarrow> 'a list option" where
  "store i v buf = (if i < length buf then Some (buf[i := v]) else None)"

lemma load_at: "length xs = n \<Longrightarrow> load (xs @ y # ys) n = Some y"
  by (auto simp: load_def)

lemma store_at: "length xs = n \<Longrightarrow> store n v (xs @ y # ys) = Some (xs @ v # ys)"
  by (auto simp: store_def)

section \<open>Constants of the C headers\<close>

text \<open>\<open>rodsDef.h\<close> and \<open>rodsErrorTable.h\<close>.\<close>

abbreviation (input) MAX_PATH_ALLOWED :: nat where "MAX_PATH_ALLOWED \<equiv> 1024"
abbreviation (input) MAX_NAME_LEN :: nat where "MAX_NAME_LEN \<equiv> 1088"

abbreviation (input) SYS_HEADER_READ_LEN_ERR :: int where "SYS_HEADER_READ_LEN_ERR \<equiv> -4000"
abbreviation (input) SYS_HEADER_WRITE_LEN_ERR :: int where "SYS_HEADER_WRITE_LEN_ERR \<equiv> -5000"
abbreviation (input) SYS_MALLOC_ERR :: int where "SYS_MALLOC_ERR \<equiv> -16000"
abbreviation (input) SYS_OUT_OF_FILE_DESC :: int where "SYS_OUT_OF_FILE_DESC \<equiv> -18000"
abbreviation (input) SYS_FILE_DESC_OUT_OF_RANGE :: int where "SYS_FILE_DESC_OUT_OF_RANGE \<equiv> -19000"
abbreviation (input) SYS_BAD_FILE_DESCRIPTOR :: int where "SYS_BAD_FILE_DESCRIPTOR \<equiv> -23000"
abbreviation (input) SYS_INTERNAL_NULL_INPUT_ERR :: int where "SYS_INTERNAL_NULL_INPUT_ERR \<equiv> -24000"
abbreviation (input) SYS_DEST_SPEC_COLL_SUB_EXIST :: int where "SYS_DEST_SPEC_COLL_SUB_EXIST \<equiv> -58000"
abbreviation (input) SYS_READ_MSG_BODY_LEN_ERR :: int where "SYS_READ_MSG_BODY_LEN_ERR \<equiv> -91000"
abbreviation (input) SYS_INVALID_FILE_PATH :: int where "SYS_INVALID_FILE_PATH \<equiv> -31000"
abbreviation (input) USER_STRLEN_TOOLONG :: int where "USER_STRLEN_TOOLONG \<equiv> -306000"
abbreviation (input) USER_FILE_DOES_NOT_EXIST :: int where "USER_FILE_DOES_NOT_EXIST \<equiv> -310000"
abbreviation (input) USER_NULL_INPUT_ERR :: int where "USER_NULL_INPUT_ERR \<equiv> -316000"
abbreviation (input) USER_INPUT_PATH_ERR :: int where "USER_INPUT_PATH_ERR \<equiv> -317000"
abbreviation (input) USER_PATH_EXCEEDS_MAX :: int where "USER_PATH_EXCEEDS_MAX \<equiv> -346000"
abbreviation (input) CAT_NAME_EXISTS_AS_DATAOBJ :: int where "CAT_NAME_EXISTS_AS_DATAOBJ \<equiv> -834000"

text \<open>\<open>errno.h\<close> of Linux.\<close>

abbreviation (input) ENOENT :: int where "ENOENT \<equiv> 2"
abbreviation (input) EBADF :: int where "EBADF \<equiv> 9"
abbreviation (input) EBUSY :: int where "EBUSY \<equiv> 16"
abbreviation (input) EEXIST :: int where "EEXIST \<equiv> 17"
abbreviation (input) ENOTDIR :: int where "ENOTDIR \<equiv> 20"
abbreviation (input) EMFILE :: int where "EMFILE \<equiv> 24"
abbreviation (input) ENOSPC :: int where "ENOSPC \<equiv> 28"
abbreviation (input) EPIPE :: int where "EPIPE \<equiv> 32"

end
