(* ===== verification/Rods_Path.thy ===== *)
theory Rods_Path
  imports Fuse_Prelude
begin

text \<open>
  The bounded string routines of \<open>lib/core/src/stringOpr.c\<close> and the two path normalisers,
  \<open>getiRODSPath\<close> of \<open>clients/fuse/src/iFuseLib.FSUtils.c\<close> and \<open>parseRodsPath\<close> of
  \<open>lib/core/src/rodsPath.c\<close>. A C string is the list of its characters before the terminating
  zero; a \<open>char\<close> array is the string it holds. A read before the first character of an array is
  \<open>None\<close>. The main results: both normalisers compute the canonical component list of a path,
  and a path splits into directory and file so that the two can be joined again.
\<close>

section \<open>Bounded copies (stringOpr.c)\<close>

text \<open>The result is the truth of the returned pointer (false for \<open>NULL\<close>) and the content of
  \<open>dest\<close> afterwards; a refused copy leaves \<open>dest\<close> as it was.\<close>

definition rstrcpy :: "string \<Rightarrow> string \<Rightarrow> int \<Rightarrow> bool \<times> string" where
  "rstrcpy dest src maxLen = (if int (length src) \<ge> maxLen then (False, dest) else (True, src))"

definition rstrcat :: "string \<Rightarrow> string \<Rightarrow> int \<Rightarrow> bool \<times> string" where
  "rstrcat dest src maxLen =
     (if int (length src) + int (length dest) \<ge> maxLen then (False, dest) else (True, dest @ src))"

text \<open>\<open>strncat\<close> with a negative count converts it to a huge \<open>size_t\<close> and copies all of \<open>src\<close>.\<close>

definition rstrncat :: "string \<Rightarrow> string \<Rightarrow> int \<Rightarrow> int \<Rightarrow> bool \<times> string" where
  "rstrncat dest src srcLen maxLen =
     (if srcLen + int (length dest) \<ge> maxLen then (False, dest)
      else (True, dest @ (if srcLen < 0 then src else take (nat srcLen) src)))"

text \<open>\<open>snprintf\<close> into an array of \<open>n\<close> characters keeps the first \<open>n - 1\<close>.\<close>

definition snprintf :: "nat \<Rightarrow> string \<Rightarrow> string" where
  "snprintf n s = take (n - 1) s"

text \<open>A write through a pointer: outside the array of the given capacity it is undefined.\<close>

definition poke :: "nat \<Rightarrow> char \<Rightarrow> char list \<Rightarrow> char list option" where
  "poke i c buf = (if i < length buf then Some (buf[i := c]) else None)"

abbreviation NUL :: char where "NUL \<equiv> CHR 0x00"

text \<open>The string held by an array: its characters before the first zero.\<close>

definition cstr :: "char list \<Rightarrow> string" where
  "cstr buf = takeWhile (\<lambda>c. c \<noteq> NUL) buf"

text \<open>\<open>rSplitStr\<close> writes \<open>outStr1\<close> character by character; the array's capacity is the length of
  the list. The loop's result is the status of an early return, the rest of the input, the number
  of characters copied and the array.\<close>

fun rSplitStr_loop ::
  "string \<Rightarrow> nat \<Rightarrow> char list \<Rightarrow> int \<Rightarrow> char \<Rightarrow> (int option \<times> string \<times> nat \<times> char list) option" where
  "rSplitStr_loop [] len outStr1 maxOutLen1 key = Some (None, [], len, outStr1)"
| "rSplitStr_loop (c # inPtr) len outStr1 maxOutLen1 key =
     (if c = key then Some (None, inPtr, len, outStr1)
      else do {
        outStr1 \<leftarrow> poke len c outStr1;
        if int len \<ge> maxOutLen1 then do {
          outStr1 \<leftarrow> poke 0 NUL outStr1;
          Some (Some USER_STRLEN_TOOLONG, inPtr, len, outStr1)
        } else rSplitStr_loop inPtr (Suc len) outStr1 maxOutLen1 key
      })"

definition rSplitStr ::
  "string \<Rightarrow> char list \<Rightarrow> int \<Rightarrow> string \<Rightarrow> int \<Rightarrow> char \<Rightarrow> (int \<times> char list \<times> string) option" where
  "rSplitStr inStr outStr1 maxOutLen1 outStr2 maxOutLen2 key = do {
     (early, inPtr, len, outStr1) \<leftarrow> rSplitStr_loop inStr 0 outStr1 maxOutLen1 key;
     case early of
       Some st \<Rightarrow> Some (st, outStr1, outStr2)
     | None \<Rightarrow> do {
         outStr1 \<leftarrow> poke len NUL outStr1;
         let (ok, outStr2) = rstrcpy outStr2 inPtr maxOutLen2;
         Some (if ok then 0 else USER_STRLEN_TOOLONG, outStr1, outStr2)
       }
   }"

definition isspace :: "char \<Rightarrow> bool" where
  "isspace c \<longleftrightarrow> c \<in> {CHR 0x20, CHR 0x09, CHR 0x0A, CHR 0x0B, CHR 0x0C, CHR 0x0D}"

definition isdigit :: "char \<Rightarrow> bool" where
  "isdigit c \<longleftrightarrow> of_char c \<ge> (48 :: nat) \<and> of_char c \<le> (57 :: nat)"

fun isAllDigit :: "string \<Rightarrow> int" where
  "isAllDigit [] = 1"
| "isAllDigit (c # myStr) = (if \<not> isdigit c then 0 else isAllDigit myStr)"

text \<open>\<open>copyStrFromBuf\<close>: the two loops; the result is the returned length, the advanced buffer and
  \<open>outStr\<close>.\<close>

fun copyStrFromBuf_skip :: "string \<Rightarrow> nat \<Rightarrow> string \<Rightarrow> string option \<times> string" where
  "copyStrFromBuf_skip [] gotSpace outStr = (None, outStr)"
| "copyStrFromBuf_skip (c # bufPtr) gotSpace outStr =
     (if c = CHR 0x0A then (None, outStr)
      else if c = CHR ''#'' \<and> gotSpace > 0 then (None, [])
      else if isspace c then copyStrFromBuf_skip bufPtr (Suc gotSpace) outStr
      else (Some (c # bufPtr), outStr))"

fun copyStrFromBuf_copy :: "string \<Rightarrow> int \<Rightarrow> string \<Rightarrow> int \<Rightarrow> (string \<times> string \<times> int) option" where
  "copyStrFromBuf_copy [] len outPtr maxOutLen = Some ([], outPtr, len)"
| "copyStrFromBuf_copy (c # bufPtr) len outPtr maxOutLen =
     (if isspace c then Some (c # bufPtr, outPtr, len)
      else if len + 1 \<ge> maxOutLen then None
      else copyStrFromBuf_copy bufPtr (len + 1) (outPtr @ [c]) maxOutLen)"

definition copyStrFromBuf :: "string \<Rightarrow> string \<Rightarrow> int \<Rightarrow> int \<times> string \<times> string" where
  "copyStrFromBuf buf outStr maxOutLen =
     (case copyStrFromBuf_skip buf 0 outStr of
        (None, outStr) \<Rightarrow> (0, buf, outStr)
      | (Some bufPtr, _) \<Rightarrow>
          (case copyStrFromBuf_copy bufPtr 0 [] maxOutLen of
             None \<Rightarrow> (USER_STRLEN_TOOLONG, buf, [])
           | Some (bufPtr, out, len) \<Rightarrow> (len, bufPtr, out)))"

text \<open>\<open>splitPathByKey\<close> scans from the last character down to, not including, the first.\<close>

fun splitPathByKey_loop :: "string \<Rightarrow> char \<Rightarrow> nat \<Rightarrow> nat option" where
  "splitPathByKey_loop srcPath key 0 = None"
| "splitPathByKey_loop srcPath key (Suc i) =
     (if srcPath ! Suc i = key then Some (Suc i) else splitPathByKey_loop srcPath key i)"

definition splitPathByKey :: "string \<Rightarrow> string \<Rightarrow> string \<Rightarrow> char \<Rightarrow> int \<times> string \<times> string" where
  "splitPathByKey srcPath dir file key =
     (let pathLen = length srcPath in
      if pathLen \<ge> MAX_NAME_LEN then (USER_STRLEN_TOOLONG, [], [])
      else if pathLen = 0 then (0, [], [])
      else case splitPathByKey_loop srcPath key (pathLen - 1) of
          Some dirLen \<Rightarrow> (0, take dirLen srcPath, drop (Suc dirLen) srcPath)
        | None \<Rightarrow>
            if srcPath ! 0 = key then (0, take 1 srcPath, drop 1 srcPath)
            else (SYS_INVALID_FILE_PATH, [], snd (rstrcpy file srcPath (int MAX_NAME_LEN))))"

fun getParentPathlen_loop :: "string \<Rightarrow> nat \<Rightarrow> int" where
  "getParentPathlen_loop path 0 = (if path \<noteq> [] \<and> path ! 0 = CHR ''/'' then 1 else 0)"
| "getParentPathlen_loop path (Suc len) =
     (if Suc len < length path \<and> path ! Suc len = CHR ''/'' then int (Suc len) + 1
      else getParentPathlen_loop path len)"

definition getParentPathlen :: "string \<Rightarrow> int" where
  "getParentPathlen path = getParentPathlen_loop path (length path)"

text \<open>\<open>trimWS\<close>: on a string of white space only, the second loop reads before the array.\<close>

definition trimWS :: "string \<Rightarrow> (int \<times> string) option" where
  "trimWS s =
     (let t = dropWhile isspace s in
      if t = [] then None else Some (0, rev (dropWhile isspace (rev t))))"

definition getParentDir :: "string \<Rightarrow> string \<Rightarrow> int \<times> string" where
  "getParentDir path parent =
     (case splitPathByKey path [] [] (CHR ''/'') of
        (_, dir, _) \<Rightarrow> (0, snd (rstrcpy parent dir (int MAX_NAME_LEN))))"

section \<open>Path normalisation\<close>

fun strstr :: "string \<Rightarrow> string \<Rightarrow> nat option" where
  "strstr [] pat = (if pat = [] then Some 0 else None)"
| "strstr (c # s) pat =
     (if take (length pat) (c # s) = pat then Some 0 else map_option Suc (strstr s pat))"

lemma strstr_bound: "strstr s pat = Some i \<Longrightarrow> i + length pat \<le> length s"
proof (induction s arbitrary: i)
  case (Cons c s)
  show ?case
  proof (cases "take (length pat) (c # s) = pat")
    case True
    then have "length pat \<le> length (c # s)"
      by (metis length_take min.cobounded1)
    with True Cons.prems show ?thesis by simp
  next
    case False
    with Cons.prems obtain j where "strstr s pat = Some j" "i = Suc j" by auto
    with Cons.IH show ?thesis by force
  qed
qed (simp split: if_splits)

text \<open>The loops that take out \<open>"//"\<close> and \<open>"/./"\<close>: the text after the match is copied to a temporary
  array and back, right after the match's first slash. The array holds fewer than
  \<open>MAX_NAME_LEN\<close> characters, so neither copy is refused.\<close>

function takeOutSlashes :: "string \<Rightarrow> string" where
  "takeOutSlashes s =
     (case strstr s ''//'' of
        None \<Rightarrow> s
      | Some p \<Rightarrow> takeOutSlashes (take (p + 1) s @ drop (p + 2) s))"
  by pat_completeness auto
termination
  by (relation "measure length") (auto dest!: strstr_bound)

function takeOutDot :: "string \<Rightarrow> string" where
  "takeOutDot s =
     (case strstr s ''/./'' of
        None \<Rightarrow> s
      | Some p \<Rightarrow> takeOutDot (take (p + 1) s @ drop (p + 3) s))"
  by pat_completeness auto
termination
  by (relation "measure length") (auto dest!: strstr_bound)

text \<open>Going back to the slash before: \<open>None\<close> when the scan falls off the front of the array, which
  the code notices after its decrement and reports as \<open>USER_INPUT_PATH_ERR\<close>.\<close>

fun goBack :: "string \<Rightarrow> nat \<Rightarrow> nat option" where
  "goBack s 0 = (if s ! 0 = CHR ''/'' then Some 0 else None)"
| "goBack s (Suc i) = (if s ! Suc i = CHR ''/'' then Some (Suc i) else goBack s i)"

lemma goBack_le: "goBack s i = Some j \<Longrightarrow> j \<le> i"
  by (induction i) (auto split: if_splits)

text \<open>The loop that takes out \<open>"/../"\<close>: a match at the very front makes the scan start before the
  array.\<close>

function takeOutDotDot :: "string \<Rightarrow> (int option \<times> string) option" where
  "takeOutDotDot s =
     (case strstr s ''/../'' of
        None \<Rightarrow> Some (None, s)
      | Some 0 \<Rightarrow> None
      | Some (Suc p) \<Rightarrow>
          (case goBack s p of
             None \<Rightarrow> Some (Some USER_INPUT_PATH_ERR, s)
           | Some q \<Rightarrow> takeOutDotDot (take (q + 1) s @ drop (Suc p + 4) s)))"
  by pat_completeness auto
termination
  by (relation "measure length") (auto dest!: strstr_bound goBack_le)

declare takeOutSlashes.simps [simp del] takeOutDot.simps [simp del] takeOutDotDot.simps [simp del]

definition pathLenStatus :: "string \<Rightarrow> int" where
  "pathLenStatus s = (if length s \<ge> MAX_PATH_ALLOWED - 1 then USER_PATH_EXCEEDS_MAX else 0)"

text \<open>The end of the path: \<open>strstr\<close> is called three and two characters before the terminating
  zero, which is before the array for a shorter string. The last component of the result says
  whether the normaliser recognised the path as a collection.\<close>

definition handlePathEnd :: "string \<Rightarrow> (int \<times> string \<times> bool) option" where
  "handlePathEnd s =
     (let len = length s in
      if len < 3 then None
      else if strstr (drop (len - 3) s) ''/..'' \<noteq> None then
        (if len = 3 then None
         else case goBack s (len - 4) of
             None \<Rightarrow> Some (USER_INPUT_PATH_ERR, s, False)
           | Some q \<Rightarrow>
               let s = (if q = 0 then ''/'' else take q s)
               in Some (pathLenStatus s, s, True))
      else case strstr (drop (len - 2) s) ''/.'' of
          Some q \<Rightarrow> (let s = take (len - 2 + q) s in Some (pathLenStatus s, s, True))
        | None \<Rightarrow>
            if s ! (len - 1) = CHR ''/'' \<and> len > 1
            then (let s = take (len - 1) s in Some (pathLenStatus s, s, True))
            else Some (pathLenStatus s, s, False))"

text \<open>The part shared by both routines, word for word.\<close>

definition cleanPath :: "string \<Rightarrow> (int \<times> string \<times> bool) option" where
  "cleanPath s = do {
     (st, s) \<leftarrow> takeOutDotDot (takeOutDot (takeOutSlashes s));
     case st of
       Some e \<Rightarrow> Some (e, s, False)
     | None \<Rightarrow> handlePathEnd s
   }"

definition getiRODSPath :: "string \<Rightarrow> string \<Rightarrow> string \<Rightarrow> string \<Rightarrow> (int \<times> string) option" where
  "getiRODSPath path iRODSPath rodsHome rodsCwd =
     (if path = [] then Some (0, snd (rstrcpy iRODSPath rodsCwd (int MAX_NAME_LEN)))
      else if path = ''.'' \<or> path = ''./'' then
        Some (0, snd (rstrcpy iRODSPath rodsCwd (int MAX_NAME_LEN)))
      else if path = ''~'' \<or> path = ''~/'' \<or> path = ''^'' \<or> path = ''^/'' then
        Some (0, snd (rstrcpy iRODSPath rodsHome (int MAX_NAME_LEN)))
      else do {
        (st, out, coll) \<leftarrow> cleanPath (
          if path ! 0 = CHR ''~'' \<or> path ! 0 = CHR ''^'' then
            (if path ! 1 = CHR ''/''
             then snprintf MAX_NAME_LEN (rodsHome @ ''/'' @ drop 2 path)
             else snprintf MAX_NAME_LEN (rodsCwd @ ''/'' @ drop 2 path))
          else if path ! 0 = CHR ''/'' then snprintf MAX_NAME_LEN (rodsCwd @ path)
          else snprintf MAX_NAME_LEN (rodsCwd @ ''/'' @ path));
        Some (st, out)
      })"

datatype objType_t = UNKNOWN_OBJ_T | DATA_OBJ_T | COLL_OBJ_T | UNKNOWN_FILE_T | LOCAL_FILE_T |
  LOCAL_DIR_T | NO_INPUT_T
datatype objStat_t = UNKNOWN_ST | NOT_EXIST_ST | EXIST_ST

record rodsPath_t =
  rp_objType :: objType_t
  rp_objState :: objStat_t
  rp_size :: int
  rp_objMode :: "32 word"
  rp_inPath :: string
  rp_outPath :: string

record rodsEnv =
  envHome :: string
  envCwd :: string
  envDefResource :: string
  envUserName :: string

text \<open>\<open>parseRodsPath\<close>: the environment pointer may be null, which the code accepts for an absolute
  path only; with a null pointer and an empty path the first test already returns. An error of the
  shared part leaves \<open>objType\<close> unknown, except that a path recognised as a collection keeps that
  type when it is too long.\<close>

definition parseRodsPath :: "rodsPath_t \<Rightarrow> rodsEnv option \<Rightarrow> (int \<times> rodsPath_t) option" where
  "parseRodsPath rodsPath myRodsEnv =
     (let rodsPath = rodsPath\<lparr>rp_objType := UNKNOWN_OBJ_T, rp_objState := UNKNOWN_ST\<rparr>;
          inp = rp_inPath rodsPath in
      case myRodsEnv of
        None \<Rightarrow>
          if inp = [] \<or> inp ! 0 \<noteq> CHR ''/'' then Some (USER_NULL_INPUT_ERR, rodsPath)
          else do {
            (st, out, coll) \<leftarrow> cleanPath (snd (rstrcpy (rp_outPath rodsPath) inp (int MAX_NAME_LEN)));
            Some (st, rodsPath\<lparr>rp_objType := if coll then COLL_OBJ_T else UNKNOWN_OBJ_T, rp_outPath := out\<rparr>)
          }
      | Some env \<Rightarrow>
          if inp = [] \<or> inp = ''.'' \<or> inp = ''./'' then
            Some (0, rodsPath\<lparr>rp_objType := COLL_OBJ_T,
              rp_outPath := snd (rstrcpy (rp_outPath rodsPath) (envCwd env) (int MAX_NAME_LEN))\<rparr>)
          else if inp = ''~'' \<or> inp = ''~/'' \<or> inp = ''^'' \<or> inp = ''^/'' then
            Some (0, rodsPath\<lparr>rp_objType := COLL_OBJ_T,
              rp_outPath := snd (rstrcpy (rp_outPath rodsPath) (envHome env) (int MAX_NAME_LEN))\<rparr>)
          else do {
            (st, out, coll) \<leftarrow> cleanPath (
              if inp ! 0 = CHR ''~'' \<or> inp ! 0 = CHR ''^'' then
                (if inp ! 1 = CHR ''/''
                 then snprintf MAX_NAME_LEN (envHome env @ ''/'' @ drop 2 inp)
                 else snprintf MAX_NAME_LEN (envCwd env @ ''/'' @ drop 2 inp))
              else if inp ! 0 = CHR ''/'' then snd (rstrcpy (rp_outPath rodsPath) inp (int MAX_NAME_LEN))
              else snprintf MAX_NAME_LEN (envCwd env @ ''/'' @ inp));
            Some (st, rodsPath\<lparr>rp_objType := if coll then COLL_OBJ_T else UNKNOWN_OBJ_T, rp_outPath := out\<rparr>)
          })"

text \<open>\<open>parseRodsPathStr\<close>: the local \<open>rodsPath\<close> starts with whatever the stack holds.\<close>

definition parseRodsPathStr ::
  "rodsPath_t \<Rightarrow> string \<Rightarrow> rodsEnv option \<Rightarrow> string \<Rightarrow> (int \<times> string) option" where
  "parseRodsPathStr stackPath inPathStr myRodsEnv outPathStr = do {
     (status, rodsPath) \<leftarrow> parseRodsPath
        (stackPath\<lparr>rp_inPath := snd (rstrcpy (rp_inPath stackPath) inPathStr (int MAX_NAME_LEN))\<rparr>) myRodsEnv;
     if status < 0 then Some (status, outPathStr)
     else Some (status, snd (rstrcpy outPathStr (rp_outPath rodsPath) (int MAX_NAME_LEN)))
   }"

section \<open>Component lists\<close>

text \<open>An absolute path is a sequence of components, each after a slash. \<open>resolve\<close> is the reference:
  it skips empty components and dots and lets \<open>".."\<close> drop the component before.\<close>

abbreviation slash :: char where "slash \<equiv> CHR ''/''"

definition joinPath :: "string list \<Rightarrow> string" where
  "joinPath cs = concat (map (\<lambda>c. slash # c) cs)"

definition components :: "string list \<Rightarrow> bool" where
  "components cs \<longleftrightarrow> (\<forall>c \<in> set cs. slash \<notin> set c)"

fun resolve :: "string list \<Rightarrow> string list \<Rightarrow> string list option" where
  "resolve st [] = Some st"
| "resolve st (c # cs) =
     (if c = [] \<or> c = ''.'' then resolve st cs
      else if c = ''..'' then (if st = [] then None else resolve (butlast st) cs)
      else resolve (st @ [c]) cs)"

lemma joinPath_simps [simp]:
  "joinPath [] = []" "joinPath (c # cs) = slash # c @ joinPath cs"
  "joinPath (as @ bs) = joinPath as @ joinPath bs"
  by (auto simp: joinPath_def)

lemma components_simps [simp]:
  "components []" "components (c # cs) \<longleftrightarrow> slash \<notin> set c \<and> components cs"
  "components (as @ bs) \<longleftrightarrow> components as \<and> components bs"
  by (auto simp: components_def)

lemma joinPath_Nil_iff [simp]: "joinPath cs = [] \<longleftrightarrow> cs = []"
  by (cases cs) auto

lemma strstr_skip:
  "slash \<notin> set d \<Longrightarrow> strstr (d @ s) (slash # pat) = map_option ((+) (length d)) (strstr s (slash # pat))"
  by (induction d; cases "strstr s (slash # pat)") auto

lemma take_eq_prefix: "take (length p) s = p \<longleftrightarrow> (\<exists>r. s = p @ r)"
  by (metis append_eq_conv_conj append_take_drop_id)

lemma prefix_component:
  "slash \<notin> set c \<Longrightarrow> slash \<notin> set d \<Longrightarrow> c @ slash # x = d @ y \<Longrightarrow>
   y = [] \<or> (\<exists>y'. y = slash # y') \<Longrightarrow> c = d \<and> y = slash # x"
proof (induction c arbitrary: d)
  case Nil
  then show ?case by (cases d) auto
next
  case (Cons a c)
  then show ?case by (cases d) auto
qed

lemma strstr_joinPath_Cons:
  assumes "slash \<notin> set c" "slash \<notin> set d" "components ds"
  shows "strstr (joinPath (d # ds)) (slash # c @ [slash]) =
           (if d = c \<and> ds \<noteq> [] then Some 0
            else map_option (\<lambda>i. Suc (length d) + i) (strstr (joinPath ds) (slash # c @ [slash])))"
proof -
  let ?pat = "slash # c @ [slash]"
  have tail: "joinPath ds = [] \<or> (\<exists>y. joinPath ds = slash # y)" by (cases ds) auto
  have match: "take (length ?pat) (joinPath (d # ds)) = ?pat \<longleftrightarrow> d = c \<and> ds \<noteq> []"
  proof
    assume "take (length ?pat) (joinPath (d # ds)) = ?pat"
    then obtain r where "joinPath (d # ds) = ?pat @ r" using take_eq_prefix by metis
    then have "c @ slash # r = d @ joinPath ds" by simp
    from prefix_component [OF assms(1,2) this tail] show "d = c \<and> ds \<noteq> []" by auto
  next
    assume "d = c \<and> ds \<noteq> []"
    then show "take (length ?pat) (joinPath (d # ds)) = ?pat" by (cases ds) auto
  qed
  have skip: "strstr (d @ joinPath ds) ?pat =
      map_option ((+) (length d)) (strstr (joinPath ds) ?pat)"
    by (rule strstr_skip [OF assms(2)])
  have "strstr (joinPath (d # ds)) ?pat = (if take (length ?pat) (joinPath (d # ds)) = ?pat
      then Some 0 else map_option Suc (strstr (d @ joinPath ds) ?pat))"
    by (simp only: joinPath_simps strstr.simps)
  then show ?thesis by (simp only: match skip) (simp add: option.map_comp comp_def)
qed

lemma strstr_joinPath_None:
  "slash \<notin> set c \<Longrightarrow> components cs \<Longrightarrow> c \<notin> set (butlast cs) \<Longrightarrow>
   strstr (joinPath cs) (slash # c @ [slash]) = None"
proof (induction cs)
  case (Cons d ds)
  then show ?case
    by (subst strstr_joinPath_Cons) (auto split: if_splits)
qed simp

lemma strstr_joinPath_Some:
  "slash \<notin> set c \<Longrightarrow> components (as @ c # bs) \<Longrightarrow> c \<notin> set as \<Longrightarrow> bs \<noteq> [] \<Longrightarrow>
   strstr (joinPath (as @ c # bs)) (slash # c @ [slash]) = Some (length (joinPath as))"
proof (induction as)
  case Nil
  then show ?case by (simp only: append_Nil) (subst strstr_joinPath_Cons, auto)
next
  case (Cons d as)
  then show ?case by (simp only: append_Cons) (subst strstr_joinPath_Cons, auto)
qed

lemma butlast_first:
  assumes "c \<in> set (butlast cs)"
  obtains as bs where "cs = as @ c # bs" "c \<notin> set as" "bs \<noteq> []"
proof -
  from split_list_first [OF assms] obtain as bs where "butlast cs = as @ c # bs" "c \<notin> set as" by auto
  moreover from assms have "cs = butlast cs @ [last cs]" by (cases cs) auto
  ultimately show ?thesis using that [of as "bs @ [last cs]"] by simp
qed

text \<open>Taking out a component that is not the last one.\<close>

definition dropMid :: "string \<Rightarrow> string list \<Rightarrow> string list" where
  "dropMid c cs = (if cs = [] then [] else [d \<leftarrow> butlast cs. d \<noteq> c] @ [last cs])"

lemma dropMid_split: "bs \<noteq> [] \<Longrightarrow> dropMid c (as @ c # bs) = dropMid c (as @ bs)"
  by (simp add: dropMid_def butlast_append)

lemma dropMid_id: "c \<notin> set (butlast cs) \<Longrightarrow> dropMid c cs = cs"
  by (cases cs rule: rev_cases) (auto simp: dropMid_def intro: filter_True)

lemma joinPath_cut:
  "bs \<noteq> [] \<Longrightarrow>
   take (length (joinPath as) + 1) (joinPath (as @ c # bs)) @
   drop (length (joinPath as) + length c + 2) (joinPath (as @ c # bs)) = joinPath (as @ bs)"
  by (cases bs) auto

lemma takeOutSlashes_joinPath:
  "components cs \<Longrightarrow> takeOutSlashes (joinPath cs) = joinPath (dropMid [] cs)"
proof (induction "length cs" arbitrary: cs rule: less_induct)
  case less
  show ?case
  proof (cases "[] \<in> set (butlast cs)")
    case True
    then obtain as bs where cs: "cs = as @ [] # bs" "[] \<notin> set as" "bs \<noteq> []"
      using butlast_first by metis
    have "strstr (joinPath cs) ''//'' = Some (length (joinPath as))"
      using strstr_joinPath_Some [of "[]" as bs] cs less.prems by auto
    moreover have "takeOutSlashes (joinPath (as @ bs)) = joinPath (dropMid [] (as @ bs))"
      by (rule less.hyps) (use less.prems cs in auto)
    ultimately show ?thesis
      using cs joinPath_cut [of bs as "[]"]
      by (subst takeOutSlashes.simps) (simp add: dropMid_split)
  next
    case False
    then have "strstr (joinPath cs) ''//'' = None"
      using strstr_joinPath_None [of "[]" cs] less.prems by auto
    then show ?thesis by (subst takeOutSlashes.simps) (simp add: dropMid_id False)
  qed
qed

lemma takeOutDot_joinPath:
  "components cs \<Longrightarrow> takeOutDot (joinPath cs) = joinPath (dropMid ''.'' cs)"
proof (induction "length cs" arbitrary: cs rule: less_induct)
  case less
  show ?case
  proof (cases "''.'' \<in> set (butlast cs)")
    case True
    then obtain as bs where cs: "cs = as @ ''.'' # bs" "''.'' \<notin> set as" "bs \<noteq> []"
      using butlast_first by metis
    have "strstr (joinPath cs) ''/./'' = Some (length (joinPath as))"
      using strstr_joinPath_Some [of "''.''" as bs] cs less.prems by auto
    moreover have "takeOutDot (joinPath (as @ bs)) = joinPath (dropMid ''.'' (as @ bs))"
      by (rule less.hyps) (use less.prems cs in auto)
    ultimately show ?thesis
      using cs joinPath_cut [of bs as "''.''"]
      by (subst takeOutDot.simps) (simp add: dropMid_split numeral_3_eq_3)
  next
    case False
    then have "strstr (joinPath cs) ''/./'' = None"
      using strstr_joinPath_None [of "''.''" cs] less.prems by auto
    then show ?thesis by (subst takeOutDot.simps) (simp add: dropMid_id False)
  qed
qed

lemma goBack_joinPath:
  "slash \<notin> set c \<Longrightarrow> goBack (joinPath as @ slash # c @ r) (length (joinPath as) + length c) =
     Some (length (joinPath as))"
proof (induction c arbitrary: r rule: rev_induct)
  case Nil
  then show ?case by (cases "length (joinPath as)") (auto simp: nth_append)
next
  case (snoc x c)
  then show ?case by (auto simp: nth_append nth_Cons split: nat.splits)
qed

text \<open>The reference for \<open>"/../"\<close>: \<open>".."\<close> drops what precedes it, the last component stays.\<close>

fun dropUp :: "string list \<Rightarrow> string list \<Rightarrow> string list option" where
  "dropUp st [] = Some st"
| "dropUp st [c] = Some (st @ [c])"
| "dropUp st (c # cs) =
     (if c = ''..'' then (if st = [] then None else dropUp (butlast st) cs)
      else dropUp (st @ [c]) cs)"

lemma dropUp_none: "''..'' \<notin> set (butlast cs) \<Longrightarrow> dropUp st cs = Some (st @ cs)"
  by (induction st cs rule: dropUp.induct) auto

lemma dropUp_split:
  "''..'' \<notin> set as \<Longrightarrow> bs \<noteq> [] \<Longrightarrow>
   dropUp st (as @ ''..'' # bs) =
     (if st @ as = [] then None else dropUp (butlast (st @ as)) bs)"
proof (induction as arbitrary: st)
  case Nil
  then show ?case by (cases bs) auto
next
  case (Cons a as)
  then show ?case by (cases as) auto
qed

lemma dropUp_append: "''..'' \<notin> set as \<Longrightarrow> bs \<noteq> [] \<Longrightarrow> dropUp st (as @ bs) = dropUp (st @ as) bs"
proof (induction as arbitrary: st)
  case (Cons a as)
  then show ?case by (cases "as @ bs") auto
qed simp

lemma takeOutDotDot_joinPath:
  "components cs \<Longrightarrow>
   takeOutDotDot (joinPath cs) = map_option (\<lambda>ds. (None, joinPath ds)) (dropUp [] cs)"
proof (induction "length cs" arbitrary: cs rule: less_induct)
  case less
  show ?case
  proof (cases "''..'' \<in> set (butlast cs)")
    case True
    then obtain as bs where cs: "cs = as @ ''..'' # bs" "''..'' \<notin> set as" "bs \<noteq> []"
      using butlast_first by metis
    have found: "strstr (joinPath cs) ''/../'' = Some (length (joinPath as))"
      using strstr_joinPath_Some [of "''..''" as bs] cs less.prems by auto
    show ?thesis
    proof (cases as rule: rev_cases)
      case Nil
      with found cs dropUp_split [of "[]" bs "[]"] show ?thesis
        by (subst takeOutDotDot.simps) simp
    next
      case (snoc as' a)
      have IH: "takeOutDotDot (joinPath (as' @ bs)) =
          map_option (\<lambda>ds. (None, joinPath ds)) (dropUp [] (as' @ bs))"
        by (rule less.hyps) (use less.prems cs snoc in auto)
      have gb: "goBack (joinPath cs) (length (joinPath as') + length a) = Some (length (joinPath as'))"
        using goBack_joinPath [of a as' "joinPath (''..'' # bs)"] less.prems cs snoc by simp
      have cut: "take (length (joinPath as') + 1) (joinPath cs) @
          drop (Suc (length (joinPath as') + length a) + 4) (joinPath cs) = joinPath (as' @ bs)"
        using cs snoc by (cases bs) (auto simp: numeral_eq_Suc)
      have "takeOutDotDot (joinPath cs) = takeOutDotDot (joinPath (as' @ bs))"
        using found gb cut snoc by (subst takeOutDotDot.simps) simp
      moreover have "dropUp [] (as' @ bs) = dropUp [] cs"
        using cs snoc dropUp_append [of as' bs "[]"] dropUp_split [of as bs "[]"] by simp
      ultimately show ?thesis using IH by simp
    qed
  next
    case False
    then have "strstr (joinPath cs) ''/../'' = None"
      using strstr_joinPath_None [of "''..''" cs] less.prems by auto
    then show ?thesis
      by (subst takeOutDotDot.simps) (simp add: dropUp_none False)
  qed
qed

text \<open>After the three loops the last component alone may still be empty or a dot.\<close>

definition ordinary :: "string \<Rightarrow> bool" where
  "ordinary c \<longleftrightarrow> c \<noteq> [] \<and> c \<noteq> ''.'' \<and> c \<noteq> ''..'' \<and> slash \<notin> set c"

lemma resolve_dropUp:
  assumes "cs \<noteq> []"
  shows "resolve st cs =
           (case dropUp st (dropMid ''.'' (dropMid [] cs)) of
              None \<Rightarrow> None
            | Some ds \<Rightarrow> resolve (butlast ds) [last ds])"
  using assms
proof (induction cs arbitrary: st)
  case (Cons c cs)
  show ?case
  proof (cases cs)
    case Nil
    then show ?thesis by (simp add: dropMid_def)
  next
    case (Cons d ds)
    define r where "r = dropMid ''.'' (dropMid [] cs)"
    have r: "r \<noteq> []" by (simp add: r_def dropMid_def Cons)
    have step: "dropMid ''.'' (dropMid [] (c # cs)) = (if c = [] \<or> c = ''.'' then r else c # r)"
      by (simp add: r_def dropMid_def Cons)
    have "resolve st' cs = (case dropUp st' r of None \<Rightarrow> None
            | Some ds \<Rightarrow> resolve (butlast ds) [last ds])" for st'
      using Cons.IH Cons r_def by blast
    then show ?thesis using r unfolding step by (cases r) auto
  qed
qed simp

lemma dropUp_ordinary:
  "(\<forall>c \<in> set st. ordinary c) \<Longrightarrow> (\<forall>c \<in> set (butlast cs). ordinary c \<or> c = ''..'') \<Longrightarrow> cs \<noteq> [] \<Longrightarrow>
   dropUp st cs = Some ds \<Longrightarrow> ds \<noteq> [] \<and> last ds = last cs \<and> (\<forall>c \<in> set (butlast ds). ordinary c)"
proof (induction st cs rule: dropUp.induct)
  case (3 st c d cs)
  then show ?case by (auto split: if_splits dest: in_set_butlastD)
qed auto

lemma strstr_window: "length w = length pat \<Longrightarrow> strstr w pat = (if w = pat then Some 0 else None)"
proof (cases w)
  case (Cons c s)
  assume len: "length w = length pat"
  show ?thesis
  proof (cases "strstr s pat")
    case None
    with Cons len show ?thesis by simp
  next
    case (Some i)
    with strstr_bound [OF Some] Cons len show ?thesis by simp
  qed
qed simp

lemma last_slash_unique:
  "x @ slash # a = y @ slash # b \<Longrightarrow> slash \<notin> set a \<Longrightarrow> slash \<notin> set b \<Longrightarrow> a = b"
proof (induction x arbitrary: y)
  case Nil
  then show ?case by (cases y) auto
next
  case (Cons c x)
  then show ?case by (cases y) auto
qed

lemma joinPath_ends:
  assumes "slash \<notin> set l" "slash \<notin> set e"
  shows "drop (length (joinPath (as @ [l])) - Suc (length e)) (joinPath (as @ [l])) = slash # e \<longleftrightarrow> l = e"
    (is "drop ?n ?s = _ \<longleftrightarrow> _")
proof
  assume "drop ?n ?s = slash # e"
  then have "joinPath as @ slash # l = take ?n ?s @ slash # e"
    by (metis append_Nil2 append_take_drop_id joinPath_simps)
  then show "l = e" using assms last_slash_unique by blast
qed simp

lemma joinPath_window:
  assumes "slash \<notin> set l" "slash \<notin> set e" "Suc (length e) \<le> length (joinPath (as @ [l]))"
  shows "strstr (drop (length (joinPath (as @ [l])) - Suc (length e)) (joinPath (as @ [l]))) (slash # e) =
           (if l = e then Some 0 else None)"
  using assms joinPath_ends [OF assms(1,2), of as]
  by (subst strstr_window) (simp_all del: joinPath_simps)

lemma joinPath_last_char:
  "slash \<notin> set l \<Longrightarrow> joinPath (as @ [l]) ! (length (joinPath (as @ [l])) - 1) = slash \<longleftrightarrow> l = []"
  by (cases l rule: rev_cases) (auto simp: nth_append)

lemma handlePathEnd_up:
  assumes "components as" "as \<noteq> []"
  shows "handlePathEnd (joinPath (as @ [''..''])) =
    (let s = (if butlast as = [] then ''/'' else joinPath (butlast as)) in Some (pathLenStatus s, s, True))"
proof (cases as rule: rev_cases)
  case (snoc bs a)
  let ?s = "joinPath (as @ [''..''])"
  have w: "strstr (drop (length ?s - 3) ?s) ''/..'' = Some 0"
    using joinPath_window [of "''..''" "''..''" as] by (simp add: numeral_3_eq_3)
  have g: "goBack ?s (length ?s - 4) = Some (length (joinPath bs))"
    using goBack_joinPath [of a bs "''/..''"] assms snoc by (simp add: numeral_eq_Suc)
  have t: "take (length (joinPath bs)) ?s = joinPath bs" using snoc by simp
  have l: "\<not> length ?s < 3" "length ?s \<noteq> 3" using snoc by auto
  show ?thesis
    unfolding handlePathEnd_def Let_def
    by (simp only: w g t l option.simps if_False if_True) (simp add: snoc)
qed (use assms in auto)

lemma handlePathEnd_joinPath:
  assumes "components as" "slash \<notin> set l" "l \<noteq> ''..''" "3 \<le> length (joinPath (as @ [l]))"
  shows "handlePathEnd (joinPath (as @ [l])) =
    (let s = (if l = [] \<or> l = ''.'' then joinPath as else joinPath (as @ [l]))
     in Some (pathLenStatus s, s, l = [] \<or> l = ''.''))"
proof -
  let ?s = "joinPath (as @ [l])"
  have w3: "strstr (drop (length ?s - 3) ?s) ''/..'' = None"
    using joinPath_window [of l "''..''" as] assms by (simp add: numeral_3_eq_3)
  have w2: "strstr (drop (length ?s - 2) ?s) ''/.'' = (if l = ''.'' then Some 0 else None)"
    using joinPath_window [of l "''.''" as] assms by (simp add: numeral_2_eq_2)
  have c: "?s ! (length ?s - 1) = slash \<longleftrightarrow> l = []" using joinPath_last_char assms by blast
  have l: "\<not> length ?s < 3" "length ?s > 1" using assms by auto
  show ?thesis
    unfolding handlePathEnd_def Let_def
    by (simp only: w3 w2 c l) (auto simp: numeral_2_eq_2)
qed

text \<open>The shared normalisation is the reference resolution of the component list.\<close>

lemma dropMid_ordinary:
  "components cs \<Longrightarrow> cs \<noteq> [] \<Longrightarrow>
   \<forall>c \<in> set (butlast (dropMid ''.'' (dropMid [] cs))). ordinary c \<or> c = ''..''"
  by (auto simp: dropMid_def ordinary_def components_def dest: in_set_butlastD)

lemma components_dropMid: "components cs \<Longrightarrow> components (dropMid c cs)"
  by (auto simp: dropMid_def components_def dest: in_set_butlastD)

lemma components_dropUp: "components st \<Longrightarrow> components cs \<Longrightarrow> dropUp st cs = Some ds \<Longrightarrow> components ds"
  by (induction st cs rule: dropUp.induct)
    (auto split: if_splits simp: components_def dest: in_set_butlastD)

lemma cleanPath_resolve:
  assumes cs: "components cs" "cs \<noteq> []"
      and ds: "resolve [] cs = Some ds" "3 \<le> length (joinPath ds)"
  shows "\<exists>coll. cleanPath (joinPath cs) = Some (pathLenStatus (joinPath ds), joinPath ds, coll)"
proof -
  let ?m = "dropMid ''.'' (dropMid [] cs)"
  have m: "components ?m" "?m \<noteq> []" using cs by (auto simp: components_dropMid) (simp add: dropMid_def)
  from resolve_dropUp [OF cs(2), of "[]"] ds obtain es where
    es: "dropUp [] ?m = Some es" "resolve (butlast es) [last es] = Some ds"
    by (auto split: option.splits)
  have o: "es \<noteq> []" "last es = last ?m" "\<forall>c \<in> set (butlast es). ordinary c"
    using dropUp_ordinary [OF _ dropMid_ordinary [OF cs] m(2) es(1)] by auto
  obtain as l where asl: "es = as @ [l]" using o by (cases es rule: rev_cases) auto
  have comp: "components as" "slash \<notin> set l"
    using components_dropUp [OF _ m(1) es(1)] asl by auto
  have clean: "cleanPath (joinPath cs) = handlePathEnd (joinPath (as @ [l]))"
    using cs m es asl
    by (simp add: cleanPath_def takeOutSlashes_joinPath takeOutDot_joinPath components_dropMid
      takeOutDotDot_joinPath)
  show ?thesis
  proof (cases "l = ''..''")
    case True
    then have "as \<noteq> []" "ds = butlast as" using es asl by (auto split: if_splits)
    with handlePathEnd_up [of as] comp ds(2) True clean show ?thesis by (auto simp: Let_def)
  next
    case False
    then have "ds = (if l = [] \<or> l = ''.'' then as else as @ [l])" using es asl by auto
    moreover from this ds(2) have "3 \<le> length (joinPath (as @ [l]))" by (auto split: if_splits)
    ultimately show ?thesis
      using handlePathEnd_joinPath [OF comp False] clean by (auto simp: Let_def)
  qed
qed

lemma resolve_ordinary:
  "resolve st cs = Some ds \<Longrightarrow> \<forall>c \<in> set st. ordinary c \<Longrightarrow> components cs \<Longrightarrow> \<forall>c \<in> set ds. ordinary c"
proof (induction cs arbitrary: st)
  case (Cons c cs)
  from Cons.prems consider "resolve st cs = Some ds" | "resolve (butlast st) cs = Some ds"
    | "resolve (st @ [c]) cs = Some ds" "ordinary c"
    by (auto simp: ordinary_def split: if_splits)
  moreover have st: "\<forall>d \<in> set (butlast st). ordinary d" using Cons.prems(2) in_set_butlastD by metis
  ultimately show ?case
  proof cases
    case 1
    from Cons.IH [OF this Cons.prems(2)] Cons.prems(3) show ?thesis by simp
  next
    case 2
    from Cons.IH [OF this st] Cons.prems(3) show ?thesis by simp
  next
    case 3
    with Cons.prems(2) have "\<forall>d \<in> set (st @ [c]). ordinary d" by simp
    from Cons.IH [OF 3(1) this] Cons.prems(3) show ?thesis by simp
  qed
qed simp

lemma resolve_id: "\<forall>c \<in> set cs. ordinary c \<Longrightarrow> resolve st cs = Some (st @ cs)"
proof (induction cs arbitrary: st)
  case (Cons c cs)
  then have "c \<noteq> []" "c \<noteq> ''.''" "c \<noteq> ''..''" by (simp_all add: ordinary_def)
  with Cons.IH [of "st @ [c]"] Cons.prems show ?case by simp
qed simp

lemma ordinary_components: "\<forall>c \<in> set cs. ordinary c \<Longrightarrow> components cs"
  by (auto simp: components_def ordinary_def)

lemma joinPath_hd: "cs \<noteq> [] \<Longrightarrow> joinPath cs \<noteq> [] \<and> joinPath cs ! 0 = slash"
  by (cases cs) auto

lemma resolve_length: "resolve st cs = Some ds \<Longrightarrow> length (joinPath ds) \<le> length (joinPath (st @ cs))"
proof (induction st cs rule: resolve.induct)
  case (2 st c cs)
  have "length (joinPath (butlast st)) \<le> length (joinPath st)" by (cases st rule: rev_cases) auto
  with 2 show ?case by (fastforce split: if_splits)
qed simp

lemma parseRodsPath_absolute:
  assumes "rp_inPath q = joinPath bs" "components bs" "bs \<noteq> []" "length (joinPath bs) < MAX_NAME_LEN"
    "resolve [] bs = Some es" "3 \<le> length (joinPath es)"
  shows "\<exists>rp. parseRodsPath q env = Some (pathLenStatus (joinPath es), rp) \<and> rp_outPath rp = joinPath es"
proof -
  obtain coll where "cleanPath (joinPath bs) = Some (pathLenStatus (joinPath es), joinPath es, coll)"
    using cleanPath_resolve assms by metis
  moreover have "joinPath bs \<noteq> c # r" if "c \<noteq> slash" for c r
    using that by (cases bs) auto
  ultimately show ?thesis
    using assms joinPath_hd [of bs]
    by (cases env) (simp_all add: parseRodsPath_def Let_def rstrcpy_def)
qed

section \<open>Results\<close>

text \<open>C15. \<open>getiRODSPath\<close> maps an absolute FUSE path to the canonical iRODS path: the current iRODS
  directory followed by the path, with empty and \<open>"."\<close> components skipped and every \<open>".."\<close>
  resolved against the component before it, which is what the reference \<open>resolve\<close> computes; no
  component of the result is empty or a dot. The status is an error exactly when the canonical
  path has more than 1022 characters.\<close>

theorem getiRODSPath_resolves:
  assumes "path \<noteq> []" "path ! 0 = slash"
      and "cwd @ path = joinPath cs" "components cs"
      and "length (cwd @ path) < MAX_NAME_LEN"
      and "resolve [] cs = Some ds" "3 \<le> length (joinPath ds)"
  shows "getiRODSPath path buf home cwd = Some (pathLenStatus (joinPath ds), joinPath ds)
           \<and> (\<forall>c \<in> set ds. ordinary c)"
proof -
  have "cs \<noteq> []" using assms(1,3) by auto
  with cleanPath_resolve assms obtain coll where
    "cleanPath (cwd @ path) = Some (pathLenStatus (joinPath ds), joinPath ds, coll)" by metis
  then show ?thesis
    using assms resolve_ordinary [OF assms(6)] by (auto simp: getiRODSPath_def snprintf_def)
qed

theorem getiRODSPath_resolves_witness:
  "getiRODSPath ''/a/./b//../c/'' [] ''/z/home/u'' ''/z/home/u'' = Some (0, ''/z/home/u/a/c'')"
  using getiRODSPath_resolves
    [of "''/a/./b//../c/''" "''/z/home/u''"
        "[''z'', ''home'', ''u'', ''a'', ''.'', ''b'', [], ''..'', ''c'', []]"
        "[''z'', ''home'', ''u'', ''a'', ''c'']" "[]" "''/z/home/u''"]
  by (simp add: pathLenStatus_def)

text \<open>C16. \<open>parseRodsPath\<close> computes the same canonical form for an absolute input path, with or
  without an environment, and is idempotent: parsing the path it returns gives that path again.\<close>

theorem parseRodsPath_canonical:
  assumes "rp_inPath rp = joinPath cs" "components cs" "cs \<noteq> []" "length (joinPath cs) < MAX_NAME_LEN"
      and "resolve [] cs = Some ds" "3 \<le> length (joinPath ds)"
  shows "\<exists>rp'. parseRodsPath rp env = Some (pathLenStatus (joinPath ds), rp') \<and> rp_outPath rp' = joinPath ds
           \<and> (\<exists>rp''. parseRodsPath (rp'\<lparr>rp_inPath := rp_outPath rp'\<rparr>) env =
                  Some (pathLenStatus (joinPath ds), rp'') \<and> rp_outPath rp'' = rp_outPath rp')"
proof -
  have ord: "\<forall>c \<in> set ds. ordinary c" using resolve_ordinary assms by fastforce
  from parseRodsPath_absolute [OF assms] obtain rp' where
    rp': "parseRodsPath rp env = Some (pathLenStatus (joinPath ds), rp')" "rp_outPath rp' = joinPath ds" by blast
  have "length (joinPath ds) < MAX_NAME_LEN"
    using resolve_length [OF assms(5)] assms(4) by simp
  then have "\<exists>rp''. parseRodsPath (rp'\<lparr>rp_inPath := rp_outPath rp'\<rparr>) env =
      Some (pathLenStatus (joinPath ds), rp'') \<and> rp_outPath rp'' = joinPath ds"
    using rp' assms(6) ordinary_components [OF ord] resolve_id [OF ord, of "[]"]
    by (intro parseRodsPath_absolute [of _ ds]) auto
  with rp' show ?thesis by auto
qed

theorem parseRodsPath_canonical_witness:
  "\<exists>rp'. parseRodsPath \<lparr>rp_objType = UNKNOWN_OBJ_T, rp_objState = UNKNOWN_ST, rp_size = 0, rp_objMode = 0, rp_inPath = ''/z/x/../y'', rp_outPath = []\<rparr>
       None = Some (0, rp') \<and> rp_outPath rp' = ''/z/y''"
  using parseRodsPath_canonical
    [of "\<lparr>rp_objType = UNKNOWN_OBJ_T, rp_objState = UNKNOWN_ST, rp_size = 0, rp_objMode = 0, rp_inPath = ''/z/x/../y'', rp_outPath = []\<rparr>"
        "[''z'', ''x'', ''..'', ''y'']" "[''z'', ''y'']" None]
  by (auto simp: pathLenStatus_def)

text \<open>Splitting at the last separator.\<close>

lemma splitPathByKey_loop_Some:
  "splitPathByKey_loop s key i = Some j \<Longrightarrow>
   0 < j \<and> j \<le> i \<and> s ! j = key \<and> (\<forall>k. j < k \<and> k \<le> i \<longrightarrow> s ! k \<noteq> key)"
  by (induction i) (auto split: if_splits simp: le_Suc_eq)

lemma splitPathByKey_loop_None:
  "splitPathByKey_loop s key i = None \<Longrightarrow> 0 < k \<Longrightarrow> k \<le> i \<Longrightarrow> s ! k \<noteq> key"
  by (induction i) (auto split: if_splits simp: le_Suc_eq)

lemma notin_drop: "(\<And>k. n \<le> k \<Longrightarrow> k < length s \<Longrightarrow> s ! k \<noteq> x) \<Longrightarrow> x \<notin> set (drop n s)"
  by (auto simp: in_set_conv_nth)

text \<open>Splitting a path into directory and file loses nothing: joining the two with the
  separator gives the path back (the root directory keeps its slash), the file contains no
  separator, and a path without separator is reported with \<open>SYS_INVALID_FILE_PATH\<close>, an empty
  directory and the whole path as the file.\<close>

lemma splitPathByKey_roundtrip:
  assumes "path \<noteq> []" "length path < MAX_NAME_LEN"
  shows "case splitPathByKey path dir0 file0 key of (st, dir, file) \<Rightarrow>
           key \<notin> set file \<and>
           (if key \<in> set path
            then st = 0 \<and> (path = dir @ [key] @ file \<or> dir = [key] \<and> path = dir @ file)
            else st = SYS_INVALID_FILE_PATH \<and> dir = [] \<and> file = path)"
proof (cases "splitPathByKey_loop path key (length path - 1)")
  case (Some j)
  have j: "0 < j" "j < length path" "path ! j = key"
    using splitPathByKey_loop_Some [OF Some] assms by (cases path; auto)+
  have "key \<notin> set (drop (Suc j) path)"
    by (rule notin_drop) (use splitPathByKey_loop_Some [OF Some] in auto)
  with j Some assms show ?thesis
    using id_take_nth_drop [OF j(2)] by (auto simp: splitPathByKey_def Let_def)
next
  case None
  have tl: "key \<notin> set (drop 1 path)"
    by (rule notin_drop) (use splitPathByKey_loop_None [OF None] in auto)
  then have "key \<in> set path \<longleftrightarrow> path ! 0 = key" using assms(1) by (cases path) auto
  with tl None assms show ?thesis
    by (cases path) (auto simp: splitPathByKey_def Let_def rstrcpy_def)
qed

text \<open>The number of characters \<open>rSplitStr\<close> stores in its first array.\<close>

definition splitHead :: "char \<Rightarrow> string \<Rightarrow> string" where
  "splitHead key s = takeWhile (\<lambda>c. c \<noteq> key) s"

lemma rSplitStr_loop_ok:
  "len + length (splitHead key s) < length buf \<Longrightarrow> int (len + length (splitHead key s)) \<le> m \<Longrightarrow>
   \<exists>buf'. rSplitStr_loop s len buf m key =
       Some (None, drop (Suc (length (splitHead key s))) s, len + length (splitHead key s), buf')
     \<and> length buf' = length buf \<and> take (len + length (splitHead key s)) buf' = take len buf @ splitHead key s"
proof (induction s arbitrary: len buf)
  case (Cons c s)
  show ?case
  proof (cases "c = key")
    case False
    let ?b = "buf[len := c]"
    have "Suc len + length (splitHead key s) < length ?b" "int (Suc len + length (splitHead key s)) \<le> m"
      "len < length buf" using Cons.prems False by (auto simp: splitHead_def)
    from Cons.IH [OF this(1,2)] this(3) False Cons.prems show ?thesis
      by (auto simp: splitHead_def poke_def take_Suc_conv_app_nth)
  qed (simp add: splitHead_def)
qed (simp add: splitHead_def)

text \<open>\<open>rSplitStr\<close> splits at the first key: with an array of one more character than the given
  maximum, a head of at most that many characters and a tail that fits, it returns 0 with head and
  tail, and the parts joined by the key are the input when the key occurs.\<close>

lemma rSplitStr_splits:
  assumes "int (length (splitHead key s)) \<le> m1" "m1 < int (length buf)" "NUL \<notin> set s"
      and "int (length (drop (Suc (length (splitHead key s))) s)) < m2"
  shows "\<exists>buf' tl. rSplitStr s buf m1 out2 m2 key = Some (0, buf', tl) \<and> cstr buf' = splitHead key s
           \<and> (if key \<in> set s then s = cstr buf' @ key # tl else cstr buf' = s \<and> tl = [])"
proof -
  let ?n = "length (splitHead key s)"
  from rSplitStr_loop_ok [of 0 key s buf m1] assms obtain b where
    b: "rSplitStr_loop s 0 buf m1 key = Some (None, drop (Suc ?n) s, ?n, b)"
       "length b = length buf" "take ?n b = splitHead key s" by auto
  have "?n < length b" using assms b by simp
  then have "b[?n := NUL] = splitHead key s @ NUL # drop (Suc ?n) b"
    using b by (simp add: upd_conv_take_nth_drop)
  moreover have "\<forall>c \<in> set (splitHead key s). c \<noteq> NUL"
    using assms(3) by (auto simp: splitHead_def dest: set_takeWhileD)
  ultimately have c: "cstr (b[?n := NUL]) = splitHead key s" by (simp add: cstr_def)
  have whole: "if key \<in> set s then s = splitHead key s @ key # drop (Suc ?n) s
      else splitHead key s = s \<and> drop (Suc ?n) s = []"
    unfolding splitHead_def by (induction s) auto
  show ?thesis
    using b c whole assms(4) \<open>?n < length b\<close> by (auto simp: rSplitStr_def poke_def rstrcpy_def)
qed

text \<open>An array of exactly the given maximum is one character too small: for every head of that
  length \<open>rSplitStr\<close> writes past the end of the array.\<close>

lemma rSplitStr_overflow:
  assumes "length (splitHead key s) = length buf" "key \<in> set s"
  shows "rSplitStr s buf (int (length buf)) out2 m2 key = None"
proof -
  have "\<exists>buf'. rSplitStr_loop s len b (int (length b)) key =
      Some (None, drop (Suc (length (splitHead key s))) s, length b, buf') \<and> length buf' = length b"
    if "len + length (splitHead key s) = length b" "key \<in> set s" for len b
    using that
  proof (induction s arbitrary: len b)
    case (Cons c s)
    show ?case
    proof (cases "c = key")
      case False
      let ?b = "b[len := c]"
      have "Suc len + length (splitHead key s) = length ?b" "key \<in> set s" "len < length b"
        using Cons.prems False by (auto simp: splitHead_def)
      from Cons.IH [OF this(1,2)] this(3) False show ?thesis by (auto simp: splitHead_def poke_def)
    qed (use Cons.prems in \<open>auto simp: splitHead_def\<close>)
  qed simp
  from this [of 0 buf] assms show ?thesis by (auto simp: rSplitStr_def poke_def)
qed

end
