(* ===== verification/Key_Val.thy ===== *)
theory Key_Val
  imports Fuse_Prelude
begin

text \<open>
  The keyword-value lists of the iRODS client API (\<open>keyValPair_t\<close>, \<open>lib/core/src/rcMisc.c\<close>), which
  carry the options of every data object request. The two parallel arrays are a list of pairs, the
  \<open>len\<close> used cells, beside the number of cells allocated; a store outside the allocation is \<open>None\<close>.
  The theory shows that the growth policy never leaves the allocation and that the lists behave
  as finite maps, the contract of the locale \<open>keyval_map\<close>.
\<close>

record keyValPair =
  kvPairs :: "(string \<times> string) list"
  kvCap :: nat

abbreviation (input) PTR_ARRAY_MALLOC_LEN :: nat where "PTR_ARRAY_MALLOC_LEN \<equiv> 10"

definition emptyKeyVal :: keyValPair where
  "emptyKeyVal = \<lparr>kvPairs = [], kvCap = 0\<rparr>"

section \<open>Operations\<close>

fun getVal_loop :: "(string \<times> string) list \<Rightarrow> string \<Rightarrow> string option" where
  "getVal_loop [] keyWord = None"
| "getVal_loop ((k, v) # ps) keyWord = (if k = keyWord then Some v else getVal_loop ps keyWord)"

definition getValByKey :: "keyValPair \<Rightarrow> string \<Rightarrow> string option" where
  "getValByKey condInput keyWord = getVal_loop (kvPairs condInput) keyWord"

text \<open>The scan of \<open>addKeyVal\<close>: \<open>Inl i\<close> when cell \<open>i\<close> has the keyword, else \<open>Inr\<close> of the last cell
  seen with an empty keyword.\<close>

fun addKeyVal_scan ::
  "(string \<times> string) list \<Rightarrow> nat \<Rightarrow> nat option \<Rightarrow> string \<Rightarrow> nat + nat option" where
  "addKeyVal_scan [] i emptyInx keyWord = Inr emptyInx"
| "addKeyVal_scan ((k, v) # ps) i emptyInx keyWord =
     (if keyWord = k then Inl i
      else addKeyVal_scan ps (Suc i) (if k = [] then Some i else emptyInx) keyWord)"

definition addKeyVal :: "keyValPair \<Rightarrow> string \<Rightarrow> string \<Rightarrow> (int \<times> keyValPair) option" where
  "addKeyVal condInput keyWord val =
     (let ps = kvPairs condInput in
      case addKeyVal_scan ps 0 None keyWord of
        Inl i \<Rightarrow> Some (0, condInput\<lparr>kvPairs := ps[i := (fst (ps ! i), val)]\<rparr>)
      | Inr (Some emptyInx) \<Rightarrow> Some (0, condInput\<lparr>kvPairs := ps[emptyInx := (keyWord, val)]\<rparr>)
      | Inr None \<Rightarrow>
          let cap = (if length ps mod PTR_ARRAY_MALLOC_LEN = 0
                     then length ps + PTR_ARRAY_MALLOC_LEN else kvCap condInput)
          in if length ps < cap
             then Some (0, condInput\<lparr>kvPairs := ps @ [(keyWord, val)], kvCap := cap\<rparr>)
             else None)"

fun rmKeyVal_loop :: "(string \<times> string) list \<Rightarrow> string \<Rightarrow> (string \<times> string) list" where
  "rmKeyVal_loop [] keyWord = []"
| "rmKeyVal_loop ((k, v) # ps) keyWord = (if k = keyWord then ps else (k, v) # rmKeyVal_loop ps keyWord)"

text \<open>Removing the last pair frees both arrays.\<close>

definition rmKeyVal :: "keyValPair \<Rightarrow> string \<Rightarrow> int \<times> keyValPair" where
  "rmKeyVal condInput keyWord =
     (let ps = rmKeyVal_loop (kvPairs condInput) keyWord
      in (0, condInput\<lparr>kvPairs := ps,
               kvCap := if ps = [] \<and> kvPairs condInput \<noteq> [] then 0 else kvCap condInput\<rparr>))"

fun replKeyVal_loop :: "(string \<times> string) list \<Rightarrow> keyValPair \<Rightarrow> keyValPair option" where
  "replKeyVal_loop [] dest = Some dest"
| "replKeyVal_loop ((k, v) # ps) dest = do { (_, dest) \<leftarrow> addKeyVal dest k v; replKeyVal_loop ps dest }"

definition replKeyVal :: "keyValPair \<Rightarrow> (int \<times> keyValPair) option" where
  "replKeyVal src = do { dest \<leftarrow> replKeyVal_loop (kvPairs src) emptyKeyVal; Some (0, dest) }"

definition clearKeyVal :: "keyValPair \<Rightarrow> int \<times> keyValPair" where
  "clearKeyVal condInput = (if kvPairs condInput = [] then (0, condInput) else (0, emptyKeyVal))"

section \<open>Invariant and contract\<close>

text \<open>Keywords are distinct and not empty, and the allocation covers the length rounded up to the
  allocation step.\<close>

definition kv_inv :: "keyValPair \<Rightarrow> bool" where
  "kv_inv c \<longleftrightarrow> distinct (map fst (kvPairs c)) \<and> [] \<notin> set (map fst (kvPairs c)) \<and>
     PTR_ARRAY_MALLOC_LEN * ((length (kvPairs c) + 9) div PTR_ARRAY_MALLOC_LEN) \<le> kvCap c"

lemma getVal_loop_map_of: "getVal_loop ps k = map_of ps k"
  by (induction ps k rule: getVal_loop.induct) auto

lemma getValByKey_map_of: "getValByKey c k = map_of (kvPairs c) k"
  by (simp add: getValByKey_def getVal_loop_map_of)

lemma addKeyVal_scan_nonempty:
  "[] \<notin> set (map fst ps) \<Longrightarrow> distinct (map fst ps) \<Longrightarrow>
   (case addKeyVal_scan ps i None k of
      Inl j \<Rightarrow> \<exists>n. j = i + n \<and> n < length ps \<and> fst (ps ! n) = k
    | Inr e \<Rightarrow> e = None \<and> k \<notin> set (map fst ps))"
proof (induction ps arbitrary: i)
  case (Cons p ps)
  show ?case
  proof (cases "k = fst p")
    case True
    then show ?thesis by (cases p) auto
  next
    case False
    have "case addKeyVal_scan ps (Suc i) None k of
        Inl j \<Rightarrow> \<exists>n. j = Suc i + n \<and> n < length ps \<and> fst (ps ! n) = k
      | Inr e \<Rightarrow> e = None \<and> k \<notin> set (map fst ps)"
      using Cons by simp
    moreover have "addKeyVal_scan (p # ps) i None k = addKeyVal_scan ps (Suc i) None k"
      using False Cons.prems by (cases p) auto
    ultimately show ?thesis using False
      by (fastforce split: sum.splits)
  qed
qed simp

lemma map_of_update_nth:
  "distinct (map fst ps) \<Longrightarrow> n < length ps \<Longrightarrow> fst (ps ! n) = k \<Longrightarrow>
   map_of (ps[n := (k, v)]) = (map_of ps)(k \<mapsto> v)"
proof (induction ps arbitrary: n)
  case (Cons p ps)
  show ?case
  proof (cases n)
    case 0
    with Cons.prems show ?thesis by (cases p) auto
  next
    case (Suc m)
    then have "k \<in> fst ` set ps" using Cons.prems imageI [OF nth_mem [of m ps], of fst] by simp
    then have "k \<noteq> fst p" using Cons.prems(1) by (intro notI) simp
    with Suc Cons show ?thesis by (cases p) (auto simp: fun_upd_twist)
  qed
qed simp

lemma kv_grow:
  fixes n c :: nat
  assumes "10 * ((n + 9) div 10) \<le> c"
  shows "n < (if n mod 10 = 0 then n + 10 else c)"
    "10 * ((Suc n + 9) div 10) \<le> (if n mod 10 = 0 then n + 10 else c)"
proof -
  obtain q r where n: "n = 10 * q + r" "r < 10"
    by (metis mod_less_divisor mult_div_mod_eq zero_less_numeral)
  have "(n + 9) div 10 = (if r = 0 then q else Suc q)" "(Suc n + 9) div 10 = Suc q" "n mod 10 = r"
    using n by auto
  then show "n < (if n mod 10 = 0 then n + 10 else c)"
    "10 * ((Suc n + 9) div 10) \<le> (if n mod 10 = 0 then n + 10 else c)"
    using n assms by auto
qed

lemma addKeyVal_spec:
  assumes "kv_inv c" "k \<noteq> []"
  shows "wpo (addKeyVal c k v) (\<lambda>(r, c'). r = 0 \<and> kv_inv c' \<and> getValByKey c' = (getValByKey c)(k \<mapsto> v))"
proof -
  let ?ps = "kvPairs c"
  have d: "distinct (map fst ?ps)" "[] \<notin> set (map fst ?ps)" using assms by (auto simp: kv_inv_def)
  note scan = addKeyVal_scan_nonempty [OF d(2,1), of 0 k]
  show ?thesis
  proof (cases "addKeyVal_scan ?ps 0 None k")
    case (Inl j)
    with scan have j: "j < length ?ps" "fst (?ps ! j) = k" by auto
    have keys: "map fst (?ps[j := (k, v)]) = map fst ?ps"
      using j by (metis fst_conv list_update_id map_update nth_map)
    have inv: "kv_inv (c\<lparr>kvPairs := ?ps[j := (k, v)]\<rparr>)"
      using assms(1) by (simp add: kv_inv_def keys)
    show ?thesis
      using Inl j inv map_of_update_nth [OF d(1) j, of v]
      by (simp add: addKeyVal_def Let_def getValByKey_map_of fun_eq_iff)
  next
    case (Inr e)
    with scan have e: "e = None" "k \<notin> set (map fst ?ps)" by auto
    then have m: "map_of ?ps k = None" by (simp add: map_of_eq_None_iff)
    define cap where "cap = (if length ?ps mod PTR_ARRAY_MALLOC_LEN = 0
      then length ?ps + PTR_ARRAY_MALLOC_LEN else kvCap c)"
    have cap: "length ?ps < cap"
        "PTR_ARRAY_MALLOC_LEN * ((Suc (length ?ps) + 9) div PTR_ARRAY_MALLOC_LEN) \<le> cap"
      using assms(1) kv_grow [of "length ?ps" "kvCap c"] by (simp_all add: cap_def kv_inv_def)
    have "kv_inv (c\<lparr>kvPairs := ?ps @ [(k, v)], kvCap := cap\<rparr>)"
      using assms e(2) d cap(2) by (simp add: kv_inv_def)
    moreover have "map_of (?ps @ [(k, v)]) = (map_of ?ps)(k \<mapsto> v)"
      using m by (auto simp: map_of_append map_add_def fun_eq_iff split: option.splits)
    moreover have "addKeyVal c k v = Some (0, c\<lparr>kvPairs := ?ps @ [(k, v)], kvCap := cap\<rparr>)"
      using Inr e(1) cap(1) by (simp add: addKeyVal_def Let_def cap_def)
    ultimately show ?thesis by (simp add: getValByKey_map_of fun_eq_iff)
  qed
qed

lemma rmKeyVal_loop_props:
  "distinct (map fst ps) \<Longrightarrow>
   map_of (rmKeyVal_loop ps k) = (map_of ps)(k := None) \<and>
   distinct (map fst (rmKeyVal_loop ps k)) \<and> set (rmKeyVal_loop ps k) \<subseteq> set ps \<and>
   length (rmKeyVal_loop ps k) \<le> length ps"
proof (induction ps k rule: rmKeyVal_loop.induct)
  case (2 k' v ps k)
  have "map_of ps k' = None" using 2(2) by (simp add: map_of_eq_None_iff)
  with 2 show ?case by (cases "k' = k") (auto simp: fun_eq_iff)
qed simp

lemma rmKeyVal_spec:
  assumes "kv_inv c"
  shows "case rmKeyVal c k of (r, c') \<Rightarrow> r = 0 \<and> kv_inv c' \<and> getValByKey c' = (getValByKey c)(k := None)"
proof -
  let ?ps = "kvPairs c"
  have d: "distinct (map fst ?ps)" using assms by (simp add: kv_inv_def)
  note p = rmKeyVal_loop_props [OF d, of k]
  have "(length (rmKeyVal_loop ?ps k) + 9) div PTR_ARRAY_MALLOC_LEN \<le> (length ?ps + 9) div PTR_ARRAY_MALLOC_LEN"
    using p by (intro div_le_mono) simp
  with assms p show ?thesis
    by (auto simp: rmKeyVal_def Let_def kv_inv_def getValByKey_map_of fun_eq_iff)
qed

lemma kv_inv_empty [simp]: "kv_inv emptyKeyVal" "getValByKey emptyKeyVal = Map.empty"
  by (auto simp: kv_inv_def emptyKeyVal_def getValByKey_map_of fun_eq_iff)

lemma replKeyVal_loop_spec:
  "kv_inv d \<Longrightarrow> [] \<notin> set (map fst ps) \<Longrightarrow> distinct (map fst ps) \<Longrightarrow>
   wpo (replKeyVal_loop ps d) (\<lambda>d'. kv_inv d' \<and> getValByKey d' = getValByKey d ++ map_of ps)"
proof (induction ps arbitrary: d)
  case (Cons p ps)
  obtain k v where p: "p = (k, v)" by (cases p)
  have "map_of ps k = None" using Cons.prems(3) p by (simp add: map_of_eq_None_iff)
  moreover have "k \<noteq> []" using Cons.prems(2) p by auto
  then obtain d' where "addKeyVal d k v = Some (0, d')" "kv_inv d'" "getValByKey d' = (getValByKey d)(k \<mapsto> v)"
    using addKeyVal_spec [OF Cons.prems(1), of k v] by (auto simp: wpo_def)
  moreover from calculation have eq: "getValByKey d' ++ map_of ps = getValByKey d ++ map_of (p # ps)"
    by (auto simp: p map_add_def fun_eq_iff split: option.splits)
  have "wpo (replKeyVal_loop ps d') (\<lambda>x. kv_inv x \<and> getValByKey x = getValByKey d' ++ map_of ps)"
    using Cons.IH [OF \<open>kv_inv d'\<close>] Cons.prems(2,3) by simp
  then have "wpo (replKeyVal_loop (p # ps) d) (\<lambda>x. kv_inv x \<and> getValByKey x = getValByKey d' ++ map_of ps)"
    using \<open>addKeyVal d k v = Some (0, d')\<close> by (simp add: p)
  then show ?case by (simp only: eq)
qed (simp add: fun_eq_iff)

text \<open>A request is built by a sequence of additions (\<open>Some\<close>) and removals (\<open>None\<close>).\<close>

fun kvRun :: "('c \<Rightarrow> string \<Rightarrow> string \<Rightarrow> (int \<times> 'c) option) \<Rightarrow> ('c \<Rightarrow> string \<Rightarrow> int \<times> 'c) \<Rightarrow>
    (string \<times> string option) list \<Rightarrow> 'c \<Rightarrow> 'c option" where
  "kvRun put del [] c = Some c"
| "kvRun put del ((k, Some v) # ops) c = put c k v \<bind> (\<lambda>(_, c). kvRun put del ops c)"
| "kvRun put del ((k, None) # ops) c = kvRun put del ops (snd (del c k))"

text \<open>The contract clients of the lists rely on.\<close>

locale keyval_map =
  fixes kinv :: "'c \<Rightarrow> bool" and kempty :: 'c
    and kget :: "'c \<Rightarrow> string \<Rightarrow> string option"
    and kput :: "'c \<Rightarrow> string \<Rightarrow> string \<Rightarrow> (int \<times> 'c) option"
    and kdel :: "'c \<Rightarrow> string \<Rightarrow> int \<times> 'c"
  assumes kempty_law: "kinv kempty" "kget kempty = Map.empty"
    and kput_law: "kinv c \<Longrightarrow> k \<noteq> [] \<Longrightarrow>
          wpo (kput c k v) (\<lambda>(r, c'). r = 0 \<and> kinv c' \<and> kget c' = (kget c)(k \<mapsto> v))"
    and kdel_law: "kinv c \<Longrightarrow>
          case kdel c k of (r, c') \<Rightarrow> r = 0 \<and> kinv c' \<and> kget c' = (kget c)(k := None)"
begin

lemma run_map:
  "kinv c \<Longrightarrow> \<forall>(k, v) \<in> set ops. k \<noteq> [] \<Longrightarrow>
   wpo (kvRun kput kdel ops c)
     (\<lambda>c'. kinv c' \<and> kget c' = fold (\<lambda>(k, v) m. m(k := v)) ops (kget c))"
proof (induction ops arbitrary: c)
  case (Cons p ops)
  obtain k v where p: "p = (k, v)" by (cases p)
  have k: "k \<noteq> []" and ops: "\<forall>(k, v) \<in> set ops. k \<noteq> []" using Cons.prems p by auto
  show ?case
  proof (cases v)
    case None
    obtain r c' where d: "kdel c k = (r, c')" by (cases "kdel c k")
    then have "kinv c'" "kget c' = (kget c)(k := None)" using kdel_law [of c k] Cons.prems by auto
    with Cons.IH [OF _ ops, of c'] p None d show ?thesis by simp
  next
    case (Some x)
    from kput_law [OF Cons.prems(1) k, of x] obtain c' where
      "kput c k x = Some (0, c')" "kinv c'" "kget c' = (kget c)(k \<mapsto> x)" by (auto simp: wpo_def)
    with Cons.IH [OF _ ops, of c'] p Some show ?thesis by simp
  qed
qed simp

end

interpretation kv: keyval_map kv_inv emptyKeyVal getValByKey addKeyVal rmKeyVal
  by unfold_locales (simp_all add: addKeyVal_spec rmKeyVal_spec)

section \<open>Results\<close>

text \<open>C37. Any sequence of \<open>addKeyVal\<close> (\<open>Some v\<close>) and \<open>rmKeyVal\<close> (\<open>None\<close>) calls on non-empty keywords,
  from the empty list on, stays inside the allocated arrays and leaves the finite map of the same
  updates; copying the result with \<open>replKeyVal\<close> keeps every value.\<close>

theorem keyVal_is_map:
  assumes "\<forall>(k, v) \<in> set ops. k \<noteq> []"
  shows "\<exists>c. kvRun addKeyVal rmKeyVal ops emptyKeyVal = Some c \<and> kv_inv c \<and>
           getValByKey c = fold (\<lambda>(k, v) m. m(k := v)) ops Map.empty \<and>
           (\<exists>d. replKeyVal c = Some (0, d) \<and> getValByKey d = getValByKey c)"
proof -
  from kv.run_map [OF _ assms, of emptyKeyVal] obtain c where
    c: "kvRun addKeyVal rmKeyVal ops emptyKeyVal = Some c" "kv_inv c"
      "getValByKey c = fold (\<lambda>(k, v) m. m(k := v)) ops Map.empty"
    by (auto simp: wpo_def)
  have "wpo (replKeyVal_loop (kvPairs c) emptyKeyVal) (\<lambda>d. kv_inv d \<and> getValByKey d = map_of (kvPairs c))"
    using replKeyVal_loop_spec [of emptyKeyVal "kvPairs c"] c(2) unfolding kv_inv_def [of c] by simp
  then obtain d where "replKeyVal c = Some (0, d)" "getValByKey d = getValByKey c"
    by (auto simp: wpo_def replKeyVal_def getValByKey_map_of fun_eq_iff)
  with c show ?thesis by blast
qed

theorem keyVal_is_map_witness:
  "\<exists>c. kvRun addKeyVal rmKeyVal [(''forceFlag'', Some []), (''dataType'', Some ''generic''), (''forceFlag'', None)]
         emptyKeyVal = Some c \<and>
       getValByKey c ''dataType'' = Some ''generic'' \<and> getValByKey c ''forceFlag'' = None"
  using keyVal_is_map
    [of "[(''forceFlag'', Some []), (''dataType'', Some ''generic''), (''forceFlag'', None)]"]
  by auto

end
