(* ===== verification/Fuse_World.thy ===== *)
theory Fuse_World
  imports Rods_Path Key_Val
begin

text \<open>
  What the FUSE client uses of the operating system (\<open>'w os\<close>) and of the iRODS client API of
  \<open>lib/api\<close> (\<open>'w irods\<close>): each call is a function of the world's state, which nothing constrains
  unless a theorem says so in a hypothesis. \<open>struct stat\<close> and the file mode bits are those of
  Linux; the error helpers are \<open>getErrno\<close> (\<open>lib/core/src/rcMisc.c\<close>) and \<open>isReadMsgError\<close>
  (\<open>lib/core/src/sockComm.c\<close>).
\<close>

unbundle bit_operations_syntax

section \<open>The operating system\<close>

record stat =
  st_mode :: "32 word"
  st_size :: int
  st_blksize :: int
  st_blocks :: int
  st_nlink :: int
  st_ino :: int
  st_ctime :: int
  st_mtime :: int
  st_atime :: int
  st_uid :: int
  st_gid :: int

definition zero_stat :: stat where
  "zero_stat = \<lparr>st_mode = 0, st_size = 0, st_blksize = 0, st_blocks = 0, st_nlink = 0, st_ino = 0,
     st_ctime = 0, st_mtime = 0, st_atime = 0, st_uid = 0, st_gid = 0\<rparr>"

abbreviation (input) S_IFMT :: "32 word" where "S_IFMT \<equiv> 0xF000"
abbreviation (input) S_IFREG :: "32 word" where "S_IFREG \<equiv> 0x8000"
abbreviation (input) S_IFDIR :: "32 word" where "S_IFDIR \<equiv> 0x4000"

definition S_ISDIR :: "32 word \<Rightarrow> bool" where
  "S_ISDIR m \<longleftrightarrow> m AND S_IFMT = S_IFDIR"

definition S_ISREG :: "32 word \<Rightarrow> bool" where
  "S_ISREG m \<longleftrightarrow> m AND S_IFMT = S_IFREG"

abbreviation (input) O_RDONLY :: int where "O_RDONLY \<equiv> 0"
abbreviation (input) O_WRONLY :: int where "O_WRONLY \<equiv> 1"
abbreviation (input) O_RDWR :: int where "O_RDWR \<equiv> 2"
abbreviation (input) O_CREAT :: int where "O_CREAT \<equiv> 64"
abbreviation (input) O_EXCL :: int where "O_EXCL \<equiv> 128"
abbreviation (input) O_TRUNC :: int where "O_TRUNC \<equiv> 512"

text \<open>Results are the C results; \<open>os_read\<close> also gives the bytes stored in the caller's buffer,
  \<open>os_stat\<close> and \<open>os_fstat\<close> the filled structure. \<open>os_errno\<close> reads \<open>errno\<close>. \<open>os_filler\<close> is
  the callback of FUSE that receives directory entries. A directory is opened to a handle and read
  name by name; \<open>os_statfs\<close> gives the result, the block size and the free blocks. \<open>os_stackPath\<close> and \<open>os_malloc\<close> are what
  uninitialised memory holds: a local \<open>rodsPath_t\<close>, and a fresh block of the given length.\<close>

record 'w os =
  os_time :: "'w \<Rightarrow> int \<times> 'w"
  os_errno :: "'w \<Rightarrow> int \<times> 'w"
  os_random :: "'w \<Rightarrow> int \<times> 'w"
  os_getuid :: "'w \<Rightarrow> int \<times> 'w"
  os_getgid :: "'w \<Rightarrow> int \<times> 'w"
  os_open :: "string \<Rightarrow> int \<Rightarrow> int \<Rightarrow> 'w \<Rightarrow> int \<times> 'w"
  os_close :: "int \<Rightarrow> 'w \<Rightarrow> int \<times> 'w"
  os_read :: "int \<Rightarrow> int \<Rightarrow> 'w \<Rightarrow> (int \<times> string) \<times> 'w"
  os_write :: "int \<Rightarrow> string \<Rightarrow> 'w \<Rightarrow> int \<times> 'w"
  os_lseek :: "int \<Rightarrow> int \<Rightarrow> 'w \<Rightarrow> int \<times> 'w"
  os_stat :: "string \<Rightarrow> 'w \<Rightarrow> (int \<times> stat) \<times> 'w"
  os_fstat :: "int \<Rightarrow> 'w \<Rightarrow> (int \<times> stat) \<times> 'w"
  os_fsync :: "int \<Rightarrow> 'w \<Rightarrow> int \<times> 'w"
  os_unlink :: "string \<Rightarrow> 'w \<Rightarrow> int \<times> 'w"
  os_rename :: "string \<Rightarrow> string \<Rightarrow> 'w \<Rightarrow> int \<times> 'w"
  os_truncate :: "string \<Rightarrow> int \<Rightarrow> 'w \<Rightarrow> int \<times> 'w"
  os_mkdir :: "string \<Rightarrow> int \<Rightarrow> 'w \<Rightarrow> int \<times> 'w"
  os_rmdir :: "string \<Rightarrow> 'w \<Rightarrow> int \<times> 'w"
  os_filler :: "string \<Rightarrow> 'w \<Rightarrow> int \<times> 'w"
  os_stackPath :: "'w \<Rightarrow> rodsPath_t \<times> 'w"
  os_malloc :: "int \<Rightarrow> 'w \<Rightarrow> string \<times> 'w"
  os_opendir :: "string \<Rightarrow> 'w \<Rightarrow> int option \<times> 'w"
  os_readdir :: "int \<Rightarrow> 'w \<Rightarrow> string option \<times> 'w"
  os_closedir :: "int \<Rightarrow> 'w \<Rightarrow> int \<times> 'w"
  os_statfs :: "string \<Rightarrow> 'w \<Rightarrow> (int \<times> int \<times> int) \<times> 'w"
  os_utime :: "string \<Rightarrow> int \<Rightarrow> int \<Rightarrow> 'w \<Rightarrow> int \<times> 'w"
  os_pthread_create :: "'w \<Rightarrow> int \<times> 'w"

text \<open>A clock as the world, for concrete runs: every call other than \<open>time\<close> does nothing.\<close>

definition zero_rodsPath :: rodsPath_t where
  "zero_rodsPath = \<lparr>rp_objType = UNKNOWN_OBJ_T, rp_objState = UNKNOWN_ST, rp_size = 0, rp_objMode = 0, rp_inPath = [], rp_outPath = []\<rparr>"

definition clockOS :: "int os" where
  "clockOS = \<lparr>os_time = (\<lambda>w. (w, w)), os_errno = (\<lambda>w. (0, w)), os_random = (\<lambda>w. (0, w)),
     os_getuid = (\<lambda>w. (0, w)), os_getgid = (\<lambda>w. (0, w)), os_open = (\<lambda>_ _ _ w. (3, w)),
     os_close = (\<lambda>_ w. (0, w)), os_read = (\<lambda>_ _ w. ((0, []), w)), os_write = (\<lambda>_ b w. (int (length b), w)),
     os_lseek = (\<lambda>_ o' w. (o', w)), os_stat = (\<lambda>_ w. ((0, zero_stat), w)),
     os_fstat = (\<lambda>_ w. ((0, zero_stat), w)), os_fsync = (\<lambda>_ w. (0, w)), os_unlink = (\<lambda>_ w. (0, w)),
     os_rename = (\<lambda>_ _ w. (0, w)), os_truncate = (\<lambda>_ _ w. (0, w)), os_mkdir = (\<lambda>_ _ w. (0, w)),
     os_rmdir = (\<lambda>_ w. (0, w)), os_filler = (\<lambda>_ w. (0, w)), os_stackPath = (\<lambda>w. (zero_rodsPath, w)),
     os_malloc = (\<lambda>n w. (replicate (nat n) (CHR 0x00), w)),
     os_opendir = (\<lambda>_ w. (None, w)), os_readdir = (\<lambda>_ w. (None, w)), os_closedir = (\<lambda>_ w. (0, w)),
     os_statfs = (\<lambda>_ w. ((0, 4096, 0), w)), os_utime = (\<lambda>_ _ _ w. (0, w)), os_pthread_create = (\<lambda>w. (0, w))\<rparr>"

section \<open>The iRODS client API\<close>

text \<open>A connection is a handle; \<open>None\<close> is the null pointer. Requests on a connection that is not
  there are refused by the library, which is the business of the parameter.\<close>

type_synonym rcComm = int

datatype rodsObjType = RODS_UNKNOWN | RODS_DATA_OBJ | RODS_COLL_OBJ

record rodsObjStat =
  ros_objType :: rodsObjType
  ros_objSize :: int
  ros_dataMode :: "32 word"
  ros_createTime :: string
  ros_modifyTime :: string

text \<open>The fields of \<open>dataObjInp_t\<close> the client sets.\<close>

record dataObjInp =
  di_objPath :: string
  di_createMode :: int
  di_openFlags :: int
  di_dataSize :: int
  di_oprType :: int
  di_condInput :: keyValPair

definition zero_dataObjInp :: dataObjInp where
  "zero_dataObjInp = \<lparr>di_objPath = [], di_createMode = 0, di_openFlags = 0, di_dataSize = 0, di_oprType = 0, di_condInput = emptyKeyVal\<rparr>"

record collEnt =
  ce_objType :: rodsObjType
  ce_collName :: string
  ce_dataName :: string
  ce_dataMode :: "32 word"
  ce_dataSize :: int
  ce_createTime :: string
  ce_modifyTime :: string

text \<open>An open collection is read entry by entry through its handle. \<open>getUtil\<close> and \<open>putUtil\<close> are the
  bulk transfers of the client library, from a source path to a destination path.\<close>

record 'w irods =
  rcConnect :: "'w \<Rightarrow> (rcComm option \<times> int) \<times> 'w"
  clientLogin :: "rcComm \<Rightarrow> 'w \<Rightarrow> int \<times> 'w"
  rcDisconnect :: "rcComm \<Rightarrow> 'w \<Rightarrow> int \<times> 'w"
  rcDataObjOpen :: "rcComm option \<Rightarrow> dataObjInp \<Rightarrow> 'w \<Rightarrow> int \<times> 'w"
  rcDataObjCreate :: "rcComm option \<Rightarrow> dataObjInp \<Rightarrow> 'w \<Rightarrow> int \<times> 'w"
  rcDataObjClose :: "rcComm option \<Rightarrow> int \<Rightarrow> 'w \<Rightarrow> int \<times> 'w"
  rcDataObjRead :: "rcComm option \<Rightarrow> int \<Rightarrow> int \<Rightarrow> 'w \<Rightarrow> (int \<times> string) \<times> 'w"
  rcDataObjWrite :: "rcComm option \<Rightarrow> int \<Rightarrow> string \<Rightarrow> 'w \<Rightarrow> int \<times> 'w"
  rcDataObjLseek :: "rcComm option \<Rightarrow> int \<Rightarrow> int \<Rightarrow> 'w \<Rightarrow> int \<times> 'w"
  rcDataObjPut :: "rcComm option \<Rightarrow> dataObjInp \<Rightarrow> string \<Rightarrow> 'w \<Rightarrow> int \<times> 'w"
  rcDataObjGet :: "rcComm option \<Rightarrow> dataObjInp \<Rightarrow> string \<Rightarrow> 'w \<Rightarrow> int \<times> 'w"
  rcDataObjUnlink :: "rcComm option \<Rightarrow> dataObjInp \<Rightarrow> 'w \<Rightarrow> int \<times> 'w"
  rcDataObjRename :: "rcComm option \<Rightarrow> dataObjInp \<Rightarrow> dataObjInp \<Rightarrow> 'w \<Rightarrow> int \<times> 'w"
  rcDataObjTruncate :: "rcComm option \<Rightarrow> dataObjInp \<Rightarrow> 'w \<Rightarrow> int \<times> 'w"
  rcObjStat :: "rcComm option \<Rightarrow> string \<Rightarrow> 'w \<Rightarrow> (int \<times> rodsObjStat option) \<times> 'w"
  rcCollCreate :: "rcComm option \<Rightarrow> string \<Rightarrow> 'w \<Rightarrow> int \<times> 'w"
  rcRmColl :: "rcComm option \<Rightarrow> string \<Rightarrow> keyValPair \<Rightarrow> 'w \<Rightarrow> int \<times> 'w"
  rcModDataObjMeta :: "rcComm option \<Rightarrow> string \<Rightarrow> keyValPair \<Rightarrow> 'w \<Rightarrow> int \<times> 'w"
  rclOpenCollection :: "rcComm option \<Rightarrow> string \<Rightarrow> 'w \<Rightarrow> (int \<times> int) \<times> 'w"
  rclReadCollection :: "rcComm option \<Rightarrow> int \<Rightarrow> 'w \<Rightarrow> (int \<times> collEnt) \<times> 'w"
  rclCloseCollection :: "int \<Rightarrow> 'w \<Rightarrow> int \<times> 'w"
  getUtil :: "rcComm option \<Rightarrow> rodsPath_t \<Rightarrow> rodsPath_t \<Rightarrow> 'w \<Rightarrow> int \<times> 'w"
  putUtil :: "rcComm option \<Rightarrow> rodsPath_t \<Rightarrow> rodsPath_t \<Rightarrow> 'w \<Rightarrow> int \<times> 'w"

section \<open>Numbers in strings\<close>

text \<open>\<open>atoi\<close> as in the C library: white space, a sign, digits; the value saturates at 64 bits and is
  cut to 32. The time stamps of the catalogue are such strings, passed on as \<open>uint\<close>.\<close>

definition isDigit :: "char \<Rightarrow> bool" where
  "isDigit c \<longleftrightarrow> 48 \<le> (of_char c :: nat) \<and> (of_char c :: nat) \<le> 57"

fun digitsVal :: "string \<Rightarrow> int \<Rightarrow> int" where
  "digitsVal [] n = n"
| "digitsVal (c # cs) n = (if isDigit c then digitsVal cs (10 * n + (of_char c - 48)) else n)"

definition isSpace :: "char \<Rightarrow> bool" where
  "isSpace c \<longleftrightarrow> (of_char c :: nat) = 32 \<or> 9 \<le> (of_char c :: nat) \<and> (of_char c :: nat) \<le> 13"

definition strtol :: "string \<Rightarrow> int" where
  "strtol str =
     (let cs = dropWhile isSpace str in
      if cs \<noteq> [] \<and> hd cs = CHR ''-'' then max (- (2 ^ 63)) (- digitsVal (tl cs) 0)
      else if cs \<noteq> [] \<and> hd cs = CHR ''+'' then min (2 ^ 63 - 1) (digitsVal (tl cs) 0)
      else min (2 ^ 63 - 1) (digitsVal cs 0))"

definition toInt32 :: "int \<Rightarrow> int" where
  "toInt32 n = sint (word_of_int n :: 32 word)"

definition toUint32 :: "int \<Rightarrow> int" where
  "toUint32 n = uint (word_of_int n :: 32 word)"

definition atoi :: "string \<Rightarrow> int" where
  "atoi str = toInt32 (strtol str)"

text \<open>Decimal digits, as \<open>%d\<close> prints them.\<close>

fun showNat :: "nat \<Rightarrow> string" where
  "showNat n = (if n < 10 then [char_of (48 + n)] else showNat (n div 10) @ [char_of (48 + n mod 10)])"

declare showNat.simps [simp del]

definition showInt :: "int \<Rightarrow> string" where
  "showInt n = (if n < 0 then CHR ''-'' # showNat (nat (- n)) else showNat (nat n))"

section \<open>Error helpers\<close>

text \<open>The last three digits of an iRODS error code are a Unix error number; C's division and
  remainder truncate toward zero.\<close>

definition getErrno :: "int \<Rightarrow> int" where
  "getErrno irodError =
     (let unixErrno = irodError smod 1000 in if unixErrno < 0 then -1 * unixErrno else unixErrno)"

definition getIrodsErrno :: "int \<Rightarrow> int" where
  "getIrodsErrno irodError = irodError sdiv 1000 * 1000"

definition isReadMsgError :: "int \<Rightarrow> int" where
  "isReadMsgError status =
     (let irodsErr = getIrodsErrno status in
      if irodsErr = SYS_READ_MSG_BODY_LEN_ERR \<or> irodsErr = SYS_HEADER_READ_LEN_ERR \<or>
         irodsErr = SYS_HEADER_WRITE_LEN_ERR then 1 else 0)"

lemma getErrno_bounds: "0 \<le> getErrno e \<and> getErrno e < 1000"
  by (auto simp: getErrno_def Let_def signed_modulo_int_def signed_divide_int_def sgn_if abs_if
      split: if_splits)

text \<open>An error code of the API is split without loss.\<close>

lemma error_code_split:
  assumes "status < 0"
  shows "getIrodsErrno status - getErrno status = status"
proof -
  have "status smod 1000 \<le> 0" using assms by (simp add: signed_modulo_int_def sgn_if)
  then show ?thesis
    using sdiv_mult_smod_eq [of status 1000] by (auto simp: getErrno_def getIrodsErrno_def Let_def)
qed

end
