(* ===== verification/Path_Cache.thy ===== *)
theory Path_Cache
  imports Fuse_World "HOL-Library.Sublist"
begin

text \<open>
  The path cache of \<open>clients/fuse/src/iFuseLib.c\<close>: two arrays of 201 queues, one of paths known to
  exist with their attributes and one of paths known not to exist. A queue is a doubly linked list
  of heap nodes, oldest first; entries expire after ten minutes. The operations below follow the
  pointers of the code. \<open>pc_rep A s\<close> says that the queues of state \<open>s\<close> are well linked along the
  address lists \<open>A\<close>, disjoint from each other, and that every allocated node is in its queue; each
  operation is shown to act on the queues as list operations act on the address lists.
\<close>

section \<open>State\<close>

datatype readCacheState = NO_FILE_CACHE | HAVE_READ_CACHE | HAVE_NEWLY_CREATED_CACHE

datatype pathArray = NonExistPathArray | PathArray

record pathCache =
  filePath :: string
  locCachePath :: "string option"
  pcStbuf :: stat
  cachedTime :: "32 word"
  pcPrev :: "nat option"
  pcNext :: "nat option"
  pcQuePtr :: "pathArray \<times> nat"
  pcLocCacheState :: readCacheState

record pathCacheQue =
  qTop :: "nat option"
  qBottom :: "nat option"

text \<open>The nodes live in a heap with a counter of fresh addresses; the two arrays are indexed by
  array and slot.\<close>

record 'w pcstate = "'w base" +
  pcHeap :: "nat \<Rightarrow> pathCache option"
  pcFresh :: nat
  pcQue :: "pathArray \<Rightarrow> nat \<Rightarrow> pathCacheQue"

abbreviation (input) NUM_PATH_HASH_SLOT :: int where "NUM_PATH_HASH_SLOT \<equiv> 201"
abbreviation (input) CACHE_EXPIRE_TIME :: "32 word" where "CACHE_EXPIRE_TIME \<equiv> 600"
abbreviation (input) DIR_SZ :: int where "DIR_SZ \<equiv> 4096"
abbreviation (input) FILE_BLOCK_SZ :: int where "FILE_BLOCK_SZ \<equiv> 512"
abbreviation (input) DEF_FILE_MODE :: "32 word" where "DEF_FILE_MODE \<equiv> 0x1B0"
abbreviation (input) DEF_DIR_MODE :: "32 word" where "DEF_DIR_MODE \<equiv> 0x1F8"

section \<open>Operations\<close>

definition SpecialPath :: "(string \<times> nat) list" where
  "SpecialPath =
    [(''/tls'', 4), (''/i686'', 5), (''/sse2'', 5), (''/lib'', 4), (''/librt.so.1'', 11),
     (''/libacl.so.1'', 12), (''/libselinux.so.1'', 16), (''/libc.so.6'', 10),
     (''/libpthread.so.0'', 16), (''/libattr.so.1'', 13)]"

definition isSpecialPath :: "string \<Rightarrow> int" where
  "isSpecialPath inPath =
     (if \<exists>(path, len) \<in> set SpecialPath.
           \<not> length inPath < len \<and> path = drop (length inPath - len) inPath
      then 1 else 0)"

definition emptyQue :: pathCacheQue where
  "emptyQue = \<lparr>qTop = None, qBottom = None\<rparr>"

text \<open>\<open>initPathCache\<close> clears both arrays (and the newly created files, in their own theory).\<close>

definition initPathCache_arrays :: "('w, 'z) pcstate_scheme \<Rightarrow> ('w, 'z) pcstate_scheme" where
  "initPathCache_arrays s = s\<lparr>pcQue := \<lambda>_ _. emptyQue\<rparr>"

text \<open>\<open>char\<close> is signed: a byte above 127 counts negative. The sum wraps at the width of \<open>int\<close>.\<close>

definition schar :: "char \<Rightarrow> int" where
  "schar c = (let n = int (of_char c :: nat) in if n \<ge> 128 then n - 256 else n)"

fun pathSum_loop :: "string \<Rightarrow> 32 word \<Rightarrow> 32 word" where
  "pathSum_loop [] mysum = mysum"
| "pathSum_loop (c # inPath) mysum = pathSum_loop inPath (mysum + word_of_int (schar c))"

definition pathSum :: "string \<Rightarrow> int" where
  "pathSum inPath = sint (pathSum_loop inPath 0)"

definition getHashSlot :: "int \<Rightarrow> int \<Rightarrow> int" where
  "getHashSlot val numHashSlot = val smod numHashSlot"

text \<open>\<open>&pathQueArray[myslot]\<close>: a slot outside the array is a pointer to foreign memory.\<close>

definition queSlot :: "string \<Rightarrow> nat option" where
  "queSlot inPath =
     (let myslot = getHashSlot (pathSum inPath) NUM_PATH_HASH_SLOT in
      if 0 \<le> myslot \<and> myslot < NUM_PATH_HASH_SLOT then Some (nat myslot) else None)"

definition setQue ::
  "pathArray \<Rightarrow> nat \<Rightarrow> pathCacheQue \<Rightarrow> ('w, 'z) pcstate_scheme \<Rightarrow> ('w, 'z) pcstate_scheme" where
  "setQue arr k q s = s\<lparr>pcQue := (pcQue s)(arr := (pcQue s arr)(k := q))\<rparr>"

text \<open>Loads and stores through node pointers.\<close>

definition setNode :: "nat \<Rightarrow> pathCache option \<Rightarrow> ('w, 'z) pcstate_scheme \<Rightarrow> ('w, 'z) pcstate_scheme" where
  "setNode a n s = s\<lparr>pcHeap := (pcHeap s)(a := n)\<rparr>"

definition freeFileCache ::
  "'w os \<Rightarrow> nat \<Rightarrow> ('w, 'z) pcstate_scheme \<Rightarrow> (int \<times> ('w, 'z) pcstate_scheme) option" where
  "freeFileCache OS a s = do {
     n \<leftarrow> pcHeap s a;
     p \<leftarrow> locCachePath n;
     (_, s) \<leftarrow> sys (os_unlink OS p) s;
     Some (0, setNode a (Some (n\<lparr>locCachePath := None, pcLocCacheState := NO_FILE_CACHE\<rparr>)) s)
   }"

definition freePathCache ::
  "'w os \<Rightarrow> nat option \<Rightarrow> ('w, 'z) pcstate_scheme \<Rightarrow> (int \<times> ('w, 'z) pcstate_scheme) option" where
  "freePathCache OS tmpPathCache s =
     (case tmpPathCache of
        None \<Rightarrow> Some (0, s)
      | Some a \<Rightarrow> do {
          n \<leftarrow> pcHeap s a;
          (_, s) \<leftarrow> (if pcLocCacheState n \<noteq> NO_FILE_CACHE \<and> locCachePath n \<noteq> None
                      then freeFileCache OS a s else Some (0, s));
          Some (0, setNode a None s)
        })"

partial_function (option) rmPath_loop ::
  "'w os \<Rightarrow> string \<Rightarrow> pathArray \<Rightarrow> nat \<Rightarrow> nat option \<Rightarrow> ('w, 'z) pcstate_scheme \<Rightarrow>
   (int \<times> ('w, 'z) pcstate_scheme) option" where
  "rmPath_loop OS inPath arr k tmpPathCache s =
     (case tmpPathCache of
        None \<Rightarrow> Some (0, s)
      | Some a \<Rightarrow> do {
          n \<leftarrow> pcHeap s a;
          if filePath n = inPath then do {
            s \<leftarrow> (case pcPrev n of
                    None \<Rightarrow> Some (setQue arr k ((pcQue s arr k)\<lparr>qTop := pcNext n\<rparr>) s)
                  | Some p \<Rightarrow> do { pn \<leftarrow> pcHeap s p; Some (setNode p (Some (pn\<lparr>pcNext := pcNext n\<rparr>)) s) });
            s \<leftarrow> (case pcNext n of
                    None \<Rightarrow> Some (setQue arr k ((pcQue s arr k)\<lparr>qBottom := pcPrev n\<rparr>) s)
                  | Some p \<Rightarrow> do { pn \<leftarrow> pcHeap s p; Some (setNode p (Some (pn\<lparr>pcPrev := pcPrev n\<rparr>)) s) });
            (_, s) \<leftarrow> freePathCache OS (Some a) s;
            Some (1, s)
          } else rmPath_loop OS inPath arr k (pcNext n) s
        })"

definition do_rmPathFromCache ::
  "'w os \<Rightarrow> string \<Rightarrow> pathArray \<Rightarrow> ('w, 'z) pcstate_scheme \<Rightarrow> (int \<times> ('w, 'z) pcstate_scheme) option" where
  "do_rmPathFromCache OS inPath arr s = do {
     k \<leftarrow> queSlot inPath;
     rmPath_loop OS inPath arr k (qTop (pcQue s arr k)) s
   }"

partial_function (option) matchPath_loop ::
  "string \<Rightarrow> nat option \<Rightarrow> ('w, 'z) pcstate_scheme \<Rightarrow> (int \<times> nat option) option" where
  "matchPath_loop inPath tmpPathCache s =
     (case tmpPathCache of
        None \<Rightarrow> Some (0, None)
      | Some a \<Rightarrow> do {
          n \<leftarrow> pcHeap s a;
          if filePath n = inPath then Some (1, Some a) else matchPath_loop inPath (pcNext n) s
        })"

definition matchPathInPathSlot ::
  "pathArray \<Rightarrow> nat \<Rightarrow> string \<Rightarrow> ('w, 'z) pcstate_scheme \<Rightarrow> (int \<times> nat option) option" where
  "matchPathInPathSlot arr k inPath s = matchPath_loop inPath (qTop (pcQue s arr k)) s"

text \<open>Time stamps are 32-bit unsigned: \<open>cachedTime + CACHE_EXPIRE_TIME\<close> wraps.\<close>

definition expired :: "32 word \<Rightarrow> pathCache \<Rightarrow> bool" where
  "expired curTime n \<longleftrightarrow> curTime \<ge> cachedTime n + CACHE_EXPIRE_TIME"

partial_function (option) chkCacheExpire_loop ::
  "'w os \<Rightarrow> pathArray \<Rightarrow> nat \<Rightarrow> 32 word \<Rightarrow> nat option \<Rightarrow> ('w, 'z) pcstate_scheme \<Rightarrow>
   (int \<times> ('w, 'z) pcstate_scheme) option" where
  "chkCacheExpire_loop OS arr k curTime tmpPathCache s =
     (case tmpPathCache of
        None \<Rightarrow> Some (0, s)
      | Some a \<Rightarrow> do {
          n \<leftarrow> pcHeap s a;
          if expired curTime n then do {
            let s = setQue arr k ((pcQue s arr k)\<lparr>qTop := pcNext n\<rparr>) s;
            (_, s) \<leftarrow> freePathCache OS (Some a) s;
            (case qTop (pcQue s arr k) of
               Some b \<Rightarrow> do {
                 bn \<leftarrow> pcHeap s b;
                 chkCacheExpire_loop OS arr k curTime (Some b) (setNode b (Some (bn\<lparr>pcPrev := None\<rparr>)) s)
               }
             | None \<Rightarrow> Some (0, setQue arr k ((pcQue s arr k)\<lparr>qBottom := None\<rparr>) s))
          } else Some (0, s)
        })"

definition chkCacheExpire ::
  "'w os \<Rightarrow> pathArray \<Rightarrow> nat \<Rightarrow> ('w, 'z) pcstate_scheme \<Rightarrow> (int \<times> ('w, 'z) pcstate_scheme) option" where
  "chkCacheExpire OS arr k s = do {
     (t, s) \<leftarrow> sys (os_time OS) s;
     chkCacheExpire_loop OS arr k (word_of_int t) (qTop (pcQue s arr k)) s
   }"

definition do_matchPathInPathCache ::
  "'w os \<Rightarrow> string \<Rightarrow> pathArray \<Rightarrow> ('w, 'z) pcstate_scheme \<Rightarrow>
   ((int \<times> nat option) \<times> ('w, 'z) pcstate_scheme) option" where
  "do_matchPathInPathCache OS inPath arr s = do {
     k \<leftarrow> queSlot inPath;
     (_, s) \<leftarrow> chkCacheExpire OS arr k s;
     r \<leftarrow> matchPathInPathSlot arr k inPath s;
     Some (r, s)
   }"

definition matchPathInPathCache ::
  "'w os \<Rightarrow> string \<Rightarrow> pathArray \<Rightarrow> ('w, 'z) pcstate_scheme \<Rightarrow>
   ((int \<times> nat option) \<times> ('w, 'z) pcstate_scheme) option" where
  "matchPathInPathCache OS inPath arr s = do {
     s \<leftarrow> mutex_lock PathCacheLock s;
     (r, s) \<leftarrow> do_matchPathInPathCache OS inPath arr s;
     s \<leftarrow> mutex_unlock PathCacheLock s;
     Some (r, s)
   }"

text \<open>\<open>addToCacheSlot\<close>: \<open>malloc\<close> is assumed to succeed; the new address is the second component of
  the result.\<close>

definition addToCacheSlot ::
  "'w os \<Rightarrow> string \<Rightarrow> pathArray \<Rightarrow> nat \<Rightarrow> stat option \<Rightarrow> ('w, 'z) pcstate_scheme \<Rightarrow>
   ((int \<times> nat) \<times> ('w, 'z) pcstate_scheme) option" where
  "addToCacheSlot OS inPath arr k stbuf s = do {
     let a = pcFresh s;
     let s = s\<lparr>pcFresh := Suc a\<rparr>;
     (t, s) \<leftarrow> sys (os_time OS) s;
     let n = \<lparr>filePath = inPath, locCachePath = None,
              pcStbuf = (case stbuf of None \<Rightarrow> zero_stat | Some st \<Rightarrow> st),
              cachedTime = word_of_int t, pcPrev = None, pcNext = None, pcQuePtr = (arr, k),
              pcLocCacheState = NO_FILE_CACHE\<rparr>;
     let q = pcQue s arr k;
     (case qTop q of
        None \<Rightarrow> Some ((0, a), setQue arr k \<lparr>qTop = Some a, qBottom = Some a\<rparr> (setNode a (Some n) s))
      | Some _ \<Rightarrow> do {
          b \<leftarrow> qBottom q;
          bn \<leftarrow> pcHeap s b;
          let s = setNode b (Some (bn\<lparr>pcNext := Some a\<rparr>)) s;
          let s = setNode a (Some (n\<lparr>pcPrev := Some b\<rparr>)) s;
          Some ((0, a), setQue arr k (q\<lparr>qBottom := Some a\<rparr>) s)
        })
   }"

definition do_addPathToCache ::
  "'w os \<Rightarrow> string \<Rightarrow> pathArray \<Rightarrow> stat option \<Rightarrow> ('w, 'z) pcstate_scheme \<Rightarrow>
   ((int \<times> nat) \<times> ('w, 'z) pcstate_scheme) option" where
  "do_addPathToCache OS inPath arr stbuf s = do {
     k \<leftarrow> queSlot inPath;
     addToCacheSlot OS inPath arr k stbuf s
   }"

definition addPathToCache ::
  "'w os \<Rightarrow> string \<Rightarrow> pathArray \<Rightarrow> stat option \<Rightarrow> ('w, 'z) pcstate_scheme \<Rightarrow>
   ((int \<times> nat) \<times> ('w, 'z) pcstate_scheme) option" where
  "addPathToCache OS inPath arr stbuf s = do {
     s \<leftarrow> mutex_lock PathCacheLock s;
     (r, s) \<leftarrow> do_addPathToCache OS inPath arr stbuf s;
     s \<leftarrow> mutex_unlock PathCacheLock s;
     Some (r, s)
   }"

definition rmPathFromCache ::
  "'w os \<Rightarrow> string \<Rightarrow> pathArray \<Rightarrow> ('w, 'z) pcstate_scheme \<Rightarrow> (int \<times> ('w, 'z) pcstate_scheme) option" where
  "rmPathFromCache OS inPath arr s = do {
     s \<leftarrow> mutex_lock PathCacheLock s;
     (r, s) \<leftarrow> do_rmPathFromCache OS inPath arr s;
     s \<leftarrow> mutex_unlock PathCacheLock s;
     Some (r, s)
   }"

text \<open>\<open>updatePathCacheStat\<close>: \<open>errno\<close> is read when \<open>stat\<close> fails.\<close>

definition updatePathCacheStat ::
  "'w os \<Rightarrow> nat \<Rightarrow> ('w, 'z) pcstate_scheme \<Rightarrow> (int \<times> ('w, 'z) pcstate_scheme) option" where
  "updatePathCacheStat OS a s = do {
     n \<leftarrow> pcHeap s a;
     (case locCachePath n of
        Some p \<Rightarrow>
          if pcLocCacheState n \<noteq> NO_FILE_CACHE then do {
            ((status, st), s) \<leftarrow> sys (os_stat OS p) s;
            if status < 0 then do {
              (errno, s) \<leftarrow> sys (os_errno OS) s;
              Some (if errno \<noteq> 0 then -1 * errno else -1, s)
            } else Some (0, setNode a (Some (n\<lparr>pcStbuf := (pcStbuf n)\<lparr>st_size := st_size st\<rparr>\<rparr>)) s)
          } else Some (0, s)
      | None \<Rightarrow> Some (0, s))
   }"

definition fillFileStat ::
  "'w os \<Rightarrow> stat \<Rightarrow> 32 word \<Rightarrow> int \<Rightarrow> int \<Rightarrow> int \<Rightarrow> int \<Rightarrow> ('w, 'z) base_scheme \<Rightarrow>
   (stat \<times> ('w, 'z) base_scheme) option" where
  "fillFileStat OS stbuf mode sz ctime mtime atime s = do {
     let stbuf = stbuf\<lparr>st_mode := S_IFREG OR (if mode \<ge> 0x40 then mode else DEF_FILE_MODE),
                       st_size := sz, st_blksize := FILE_BLOCK_SZ,
                       st_blocks := sz sdiv FILE_BLOCK_SZ + 1, st_nlink := 1\<rparr>;
     (r, s) \<leftarrow> sys (os_random OS) s;
     (uid, s) \<leftarrow> sys (os_getuid OS) s;
     (gid, s) \<leftarrow> sys (os_getgid OS) s;
     Some (stbuf\<lparr>st_ino := r, st_ctime := ctime, st_mtime := mtime, st_atime := atime,
                 st_uid := uid, st_gid := gid\<rparr>, s)
   }"

definition fillDirStat ::
  "'w os \<Rightarrow> stat \<Rightarrow> int \<Rightarrow> int \<Rightarrow> int \<Rightarrow> ('w, 'z) base_scheme \<Rightarrow>
   (stat \<times> ('w, 'z) base_scheme) option" where
  "fillDirStat OS stbuf ctime mtime atime s = do {
     let stbuf = stbuf\<lparr>st_mode := S_IFDIR OR DEF_DIR_MODE, st_size := DIR_SZ, st_nlink := 2\<rparr>;
     (r, s) \<leftarrow> sys (os_random OS) s;
     (uid, s) \<leftarrow> sys (os_getuid OS) s;
     (gid, s) \<leftarrow> sys (os_getgid OS) s;
     Some (stbuf\<lparr>st_ino := r, st_ctime := ctime, st_mtime := mtime, st_atime := atime,
                 st_uid := uid, st_gid := gid\<rparr>, s)
   }"

section \<open>Well-linked queues\<close>

text \<open>A queue is well linked along \<open>as\<close> when at every split of \<open>as\<close> the node's pointers are its
  neighbours.\<close>

definition dll :: "(nat \<Rightarrow> pathCache option) \<Rightarrow> pathCacheQue \<Rightarrow> nat list \<Rightarrow> bool" where
  "dll h q as \<longleftrightarrow> qTop q = hdo as \<and> qBottom q = lasto as \<and> distinct as \<and>
     (\<forall>xs a ys. as = xs @ a # ys \<longrightarrow> (\<exists>n. h a = Some n \<and> pcNext n = hdo ys \<and> pcPrev n = lasto xs))"

definition pc_rep :: "(pathArray \<Rightarrow> nat \<Rightarrow> nat list) \<Rightarrow> ('w, 'z) pcstate_scheme \<Rightarrow> bool" where
  "pc_rep A s \<longleftrightarrow>
     (\<forall>arr k. dll (pcHeap s) (pcQue s arr k) (A arr k)) \<and>
     (\<forall>arr k arr' k'. (arr, k) \<noteq> (arr', k') \<longrightarrow> set (A arr k) \<inter> set (A arr' k') = {}) \<and>
     (\<forall>a n. pcHeap s a = Some n \<longrightarrow> a < pcFresh s \<and>
        (\<exists>arr k. a \<in> set (A arr k) \<and> queSlot (filePath n) = Some k))"

text \<open>The content of a node, without its links.\<close>

definition ent :: "pathCache \<Rightarrow> pathCache" where
  "ent n = n\<lparr>pcPrev := None, pcNext := None\<rparr>"

definition ents :: "(nat \<Rightarrow> pathCache option) \<Rightarrow> nat list \<Rightarrow> pathCache list" where
  "ents h as = map (\<lambda>a. ent (the (h a))) as"

lemma ent_simps [simp]:
  "ent (n\<lparr>pcPrev := p\<rparr>) = ent n" "ent (n\<lparr>pcNext := p\<rparr>) = ent n"
  "filePath (ent n) = filePath n" "locCachePath (ent n) = locCachePath n" "pcStbuf (ent n) = pcStbuf n"
  "cachedTime (ent n) = cachedTime n" "pcLocCacheState (ent n) = pcLocCacheState n"
  "expired t (ent n) = expired t n"
  by (simp_all add: ent_def expired_def)

lemma dllD:
  "dll h q (xs @ a # ys) \<Longrightarrow> \<exists>n. h a = Some n \<and> pcNext n = hdo ys \<and> pcPrev n = lasto xs"
  by (auto simp: dll_def)

lemma dll_top: "dll h q as \<Longrightarrow> qTop q = hdo as" "dll h q as \<Longrightarrow> qBottom q = lasto as"
  "dll h q as \<Longrightarrow> distinct as"
  by (auto simp: dll_def)

lemma dll_node: "dll h q as \<Longrightarrow> a \<in> set as \<Longrightarrow> \<exists>n. h a = Some n"
  by (metis dllD in_set_conv_decomp)

lemma dll_cong: "dll h q as \<Longrightarrow> (\<And>a. a \<in> set as \<Longrightarrow> h' a = h a) \<Longrightarrow> dll h' q as"
  unfolding dll_def by (metis in_set_conv_decomp)

text \<open>Changing a node's content and not its links.\<close>

lemma dll_content:
  "dll h q as \<Longrightarrow> h a = Some n \<Longrightarrow> pcNext n' = pcNext n \<Longrightarrow> pcPrev n' = pcPrev n \<Longrightarrow>
   dll (h(a \<mapsto> n')) q as"
  unfolding dll_def by (metis fun_upd_apply option.inject)

text \<open>Taking the first node out.\<close>

lemma dll_pop:
  assumes "dll h q (a # as)" "as = b # bs" "h b = Some bn"
  shows "dll (h(a := None, b \<mapsto> bn\<lparr>pcPrev := None\<rparr>)) (q\<lparr>qTop := Some b\<rparr>) as"
proof -
  have d: "distinct (a # as)" using assms(1) dll_top by blast
  have "\<exists>n. (h(a := None, b \<mapsto> bn\<lparr>pcPrev := None\<rparr>)) c = Some n \<and> pcNext n = hdo ys \<and> pcPrev n = lasto xs"
    if "as = xs @ c # ys" for xs c ys
  proof (cases xs)
    case Nil
    with that dllD [of h q "[a]" c ys] assms show ?thesis by auto
  next
    case (Cons x xs')
    then have "c \<noteq> b" "c \<noteq> a" using that assms(2) d by auto
    then show ?thesis using dllD [of h q "a # xs" c ys] that assms(1) Cons by auto
  qed
  then show ?thesis using d assms dll_top(2) [OF assms(1)] by (auto simp: dll_def)
qed

lemma dll_append:
  assumes "dll h q as" "as \<noteq> []" "lasto as = Some b" "h b = Some bn" "a \<notin> set as"
      and "pcNext n = None" "pcPrev n = Some b"
  shows "dll (h(b \<mapsto> bn\<lparr>pcNext := Some a\<rparr>, a \<mapsto> n)) (q\<lparr>qBottom := Some a\<rparr>) (as @ [a])"
proof -
  have d: "distinct as" using assms(1) dll_top by blast
  have b: "b \<in> set as" using assms lasto_in_set by metis
  have "\<exists>m. (h(b \<mapsto> bn\<lparr>pcNext := Some a\<rparr>, a \<mapsto> n)) c = Some m \<and> pcNext m = hdo ys \<and> pcPrev m = lasto xs"
    if "as @ [a] = xs @ c # ys" for xs c ys
  proof (cases ys rule: rev_cases)
    case Nil
    with that assms show ?thesis by auto
  next
    case (snoc zs z)
    with that have as: "as = xs @ c # zs" by simp
    show ?thesis
    proof (cases zs rule: rev_cases)
      case Nil
      with as assms dllD [of h q xs c zs] snoc that show ?thesis by auto
    next
      case (snoc zs' z')
      then have "c \<noteq> b" using as assms(3) d by auto
      moreover have "c \<noteq> a" using as assms(5) by auto
      ultimately show ?thesis
        using dllD [of h q xs c zs] as assms(1) that \<open>ys = zs @ [z]\<close> snoc by (cases zs) auto
    qed
  qed
  then show ?thesis using d b assms dll_top [OF assms(1)] by (auto simp: dll_def)
qed

lemma dll_single:
  "pcNext n = None \<Longrightarrow> pcPrev n = None \<Longrightarrow> dll (h(a \<mapsto> n)) \<lparr>qTop = Some a, qBottom = Some a\<rparr> [a]"
  by (auto simp: dll_def Cons_eq_append_conv)

text \<open>Unlinking a node: the heap and the queue after the two pointer updates of the code.\<close>

definition unlinkH :: "nat option \<Rightarrow> nat option \<Rightarrow> (nat \<Rightarrow> pathCache option) \<Rightarrow> (nat \<Rightarrow> pathCache option)" where
  "unlinkH p x h =
     (let h = (case p of None \<Rightarrow> h | Some p \<Rightarrow> h(p := map_option (\<lambda>n. n\<lparr>pcNext := x\<rparr>) (h p)))
      in case x of None \<Rightarrow> h | Some x \<Rightarrow> h(x := map_option (\<lambda>n. n\<lparr>pcPrev := p\<rparr>) (h x)))"

definition unlinkQ :: "nat option \<Rightarrow> nat option \<Rightarrow> pathCacheQue \<Rightarrow> pathCacheQue" where
  "unlinkQ p x q =
     (let q = (if p = None then q\<lparr>qTop := x\<rparr> else q) in if x = None then q\<lparr>qBottom := p\<rparr> else q)"

lemma unlinkH_at:
  "distinct (xs @ ys) \<Longrightarrow> h b = Some m \<Longrightarrow>
   unlinkH (lasto xs) (hdo ys) h b =
     Some (if lasto xs = Some b then m\<lparr>pcNext := hdo ys\<rparr>
           else if hdo ys = Some b then m\<lparr>pcPrev := lasto xs\<rparr> else m)"
  by (auto simp: unlinkH_def Let_def split: option.splits dest!: lasto_in_set hdo_in_set)

lemma dll_unlink:
  assumes "dll h q (xs @ a # ys)"
  shows "dll ((unlinkH (lasto xs) (hdo ys) h)(a := None)) (unlinkQ (lasto xs) (hdo ys) q) (xs @ ys)"
proof -
  have d: "distinct (xs @ a # ys)" using assms dll_top by blast
  let ?h = "(unlinkH (lasto xs) (hdo ys) h)(a := None)"
  have "\<exists>m. ?h b = Some m \<and> pcNext m = hdo vs \<and> pcPrev m = lasto us" if *: "xs @ ys = us @ b # vs" for us b vs
  proof -
    have ba: "b \<noteq> a" using * d by (metis Un_iff distinct.simps(2) distinct_append in_set_conv_decomp not_distinct_conv_prefix set_append)
    from * consider ws where "xs = us @ b # ws" "vs = ws @ ys" | ws where "us = xs @ ws" "ys = ws @ b # vs"
      by (auto simp: append_eq_append_conv2 Cons_eq_append_conv append_eq_Cons_conv)
    then show ?thesis
    proof cases
      case 1
      then obtain m where m: "h b = Some m" "pcNext m = hdo (ws @ a # ys)" "pcPrev m = lasto us"
        using dllD [of h q us b "ws @ a # ys"] assms by auto
      have "lasto xs = Some b \<longleftrightarrow> ws = []" using 1 d by (cases ws rule: rev_cases) auto
      moreover have "hdo ys \<noteq> Some b" using 1 d by (auto dest!: hdo_in_set)
      ultimately show ?thesis
        using ba m 1 unlinkH_at [of xs ys h b m] d by (cases ws) auto
    next
      case 2
      then obtain m where m: "h b = Some m" "pcNext m = hdo vs" "pcPrev m = lasto (xs @ a # ws)"
        using dllD [of h q "xs @ a # ws" b vs] assms by auto
      have "hdo ys = Some b \<longleftrightarrow> ws = []" using 2 d by (cases ws) auto
      moreover have "lasto xs \<noteq> Some b" using 2 d by (auto dest!: lasto_in_set)
      ultimately show ?thesis
        using ba m 2 unlinkH_at [of xs ys h b m] d by (cases ws) auto
    qed
  qed
  moreover have "qTop (unlinkQ (lasto xs) (hdo ys) q) = hdo (xs @ ys)"
      "qBottom (unlinkQ (lasto xs) (hdo ys) q) = lasto (xs @ ys)"
    using dll_top [OF assms] by (auto simp: unlinkQ_def Let_def)
  ultimately show ?thesis using d by (auto simp: dll_def)
qed

section \<open>Specifications of the operations\<close>

abbreviation updA :: "(pathArray \<Rightarrow> nat \<Rightarrow> 'a) \<Rightarrow> pathArray \<Rightarrow> nat \<Rightarrow> 'a \<Rightarrow> (pathArray \<Rightarrow> nat \<Rightarrow> 'a)" where
  "updA A arr k x \<equiv> A(arr := (A arr)(k := x))"

text \<open>A normal form for sequences of state updates: world, locks, heap, counter, queues.\<close>

lemma pc_upd_order:
  "s\<lparr>locks := l, world := w\<rparr> = s\<lparr>world := w, locks := l\<rparr>"
  "s\<lparr>pcHeap := h, world := w\<rparr> = s\<lparr>world := w, pcHeap := h\<rparr>"
  "s\<lparr>pcFresh := f, world := w\<rparr> = s\<lparr>world := w, pcFresh := f\<rparr>"
  "s\<lparr>pcQue := q, world := w\<rparr> = s\<lparr>world := w, pcQue := q\<rparr>"
  "s\<lparr>pcHeap := h, locks := l\<rparr> = s\<lparr>locks := l, pcHeap := h\<rparr>"
  "s\<lparr>pcFresh := f, locks := l\<rparr> = s\<lparr>locks := l, pcFresh := f\<rparr>"
  "s\<lparr>pcQue := q, locks := l\<rparr> = s\<lparr>locks := l, pcQue := q\<rparr>"
  "s\<lparr>pcFresh := f, pcHeap := h\<rparr> = s\<lparr>pcHeap := h, pcFresh := f\<rparr>"
  "s\<lparr>pcQue := q, pcHeap := h\<rparr> = s\<lparr>pcHeap := h, pcQue := q\<rparr>"
  "s\<lparr>pcQue := q, pcFresh := f\<rparr> = s\<lparr>pcFresh := f, pcQue := q\<rparr>"
  by (cases s; simp)+

text \<open>What the path cache may change of a state: nothing outside its own fields and the world.\<close>

definition pc_frame :: "('w, 'z) pcstate_scheme \<Rightarrow> ('w, 'z) pcstate_scheme \<Rightarrow> bool" where
  "pc_frame s s' \<longleftrightarrow>
     s'\<lparr>world := world s, pcHeap := pcHeap s, pcFresh := pcFresh s, pcQue := pcQue s\<rparr> = s"

lemma pc_frame_upd [simp]:
  "pc_frame s (t\<lparr>world := w\<rparr>) = pc_frame s t" "pc_frame s (t\<lparr>pcHeap := h\<rparr>) = pc_frame s t"
  "pc_frame s (t\<lparr>pcFresh := f\<rparr>) = pc_frame s t" "pc_frame s (t\<lparr>pcQue := q\<rparr>) = pc_frame s t"
  "pc_frame s s"
  by (simp_all add: pc_frame_def)

lemma pc_frame_eq:
  "pc_frame s s' \<Longrightarrow>
   s' = s\<lparr>world := world s', pcHeap := pcHeap s', pcFresh := pcFresh s', pcQue := pcQue s'\<rparr>"
  unfolding pc_frame_def
  by (drule arg_cong [where f = "\<lambda>x. x\<lparr>world := world s', pcHeap := pcHeap s',
    pcFresh := pcFresh s', pcQue := pcQue s'\<rparr>"]) simp

lemma pc_frame_sym: "pc_frame s t \<Longrightarrow> pc_frame t s"
  by (drule pc_frame_eq) (simp add: pc_frame_def)

lemma pc_frame_left [simp]:
  "pc_frame (s\<lparr>world := w\<rparr>) t = pc_frame s t" "pc_frame (s\<lparr>pcHeap := h\<rparr>) t = pc_frame s t"
  "pc_frame (s\<lparr>pcFresh := f\<rparr>) t = pc_frame s t" "pc_frame (s\<lparr>pcQue := q\<rparr>) t = pc_frame s t"
  by (metis pc_frame_sym pc_frame_upd)+

lemma pc_frame_trans [trans]: "pc_frame s t \<Longrightarrow> pc_frame t u \<Longrightarrow> pc_frame s u"
  unfolding pc_frame_def
  by (drule arg_cong [where f = "\<lambda>x. x\<lparr>world := world s, pcHeap := pcHeap s,
    pcFresh := pcFresh s, pcQue := pcQue s\<rparr>" and x = "u\<lparr>world := world t, pcHeap := pcHeap t,
    pcFresh := pcFresh t, pcQue := pcQue t\<rparr>"]) simp

lemma pc_frame_locks: "pc_frame s s' \<Longrightarrow> locks s' = locks s"
  by (drule pc_frame_eq, drule arg_cong [of _ _ locks]) simp

lemma pc_repD:
  "pc_rep A s \<Longrightarrow> dll (pcHeap s) (pcQue s arr k) (A arr k)"
  "pc_rep A s \<Longrightarrow> (arr, k) \<noteq> (arr', k') \<Longrightarrow> set (A arr k) \<inter> set (A arr' k') = {}"
  "pc_rep A s \<Longrightarrow> pcHeap s a = Some n \<Longrightarrow> a < pcFresh s"
  "pc_rep A s \<Longrightarrow> pcHeap s a = Some n \<Longrightarrow> \<exists>arr k. a \<in> set (A arr k) \<and> queSlot (filePath n) = Some k"
  by (simp_all add: pc_rep_def) blast?

lemma updA_id [simp]: "updA A arr k (A arr k) = A"
  by simp

lemma que_upd [simp]: "q\<lparr>qTop := x, qBottom := y\<rparr> = \<lparr>qTop = x, qBottom = y\<rparr>"
  by (cases q) simp

lemma pc_rep_slot:
  assumes "pc_rep A s" "a \<in> set (A arr k)" "pcHeap s a = Some n"
  shows "queSlot (filePath n) = Some k"
proof -
  from pc_repD(4) [OF assms(1,3)] obtain arr' k' where
    *: "a \<in> set (A arr' k')" "queSlot (filePath n) = Some k'" by blast
  then have "(arr, k) = (arr', k')" using pc_repD(2) [OF assms(1), of arr k arr' k'] assms(2) by auto
  with * show ?thesis by simp
qed

text \<open>One queue changes, the others stay.\<close>

lemma pc_rep_upd:
  assumes A: "pc_rep A s" and q: "dll h q as"
      and frame: "\<And>a. a \<notin> set (A arr k) \<Longrightarrow> a \<notin> set as \<Longrightarrow> h a = pcHeap s a"
      and new: "\<And>a. a \<in> set as \<Longrightarrow> a \<in> set (A arr k) \<or> pcHeap s a = None"
      and node: "\<And>a n. a \<in> set (A arr k) \<union> set as \<Longrightarrow> h a = Some n \<Longrightarrow>
            a \<in> set as \<and> a < f \<and> queSlot (filePath n) = Some k"
      and f: "pcFresh s \<le> f"
  shows "pc_rep (updA A arr k as) (s\<lparr>world := w, pcHeap := h, pcFresh := f, pcQue := updA (pcQue s) arr k q\<rparr>)"
proof -
  have other: "h a = pcHeap s a \<and> a \<notin> set as" if a: "a \<in> set (A arr' k')" "(arr', k') \<noteq> (arr, k)" for a arr' k'
  proof -
    have "a \<notin> set (A arr k)" using pc_repD(2) [OF A a(2)] a(1) by blast
    moreover obtain n where "pcHeap s a = Some n" using dll_node [OF pc_repD(1) [OF A] a(1)] by blast
    ultimately show ?thesis using frame new by fastforce
  qed
  have "dll h (updA (pcQue s) arr k q arr' k') (updA A arr k as arr' k')" for arr' k'
  proof (cases "(arr', k') = (arr, k)")
    case True
    with q show ?thesis by simp
  next
    case False
    then have "dll h (pcQue s arr' k') (A arr' k')"
      using dll_cong [OF pc_repD(1) [OF A, of arr' k'], of h] other by blast
    with False show ?thesis by auto
  qed
  moreover have "set (updA A arr k as arr1 k1) \<inter> set (updA A arr k as arr2 k2) = {}"
    if "(arr1, k1) \<noteq> (arr2, k2)" for arr1 k1 arr2 k2
    using that other [of _ arr1 k1] other [of _ arr2 k2] pc_repD(2) [OF A that]
    by (auto split: if_splits)
  moreover have "a < f \<and> (\<exists>arr' k'. a \<in> set (updA A arr k as arr' k') \<and> queSlot (filePath n) = Some k')"
    if "h a = Some n" for a n
  proof (cases "a \<in> set (A arr k) \<union> set as")
    case True
    then show ?thesis using node [OF True that] by (metis fun_upd_same)
  next
    case False
    then have s: "pcHeap s a = Some n" using frame that by auto
    from pc_repD(4) [OF A s] obtain arr' k' where "a \<in> set (A arr' k')" "queSlot (filePath n) = Some k'" by blast
    moreover from this False have "(arr', k') \<noteq> (arr, k)" by auto
    ultimately have "a \<in> set (updA A arr k as arr' k')" by auto
    then show ?thesis using pc_repD(3) [OF A s] f \<open>queSlot _ = _\<close> by fastforce
  qed
  ultimately show ?thesis by (simp add: pc_rep_def)
qed

lemma ents_simps [simp]: "ents h [] = []" "ents h (a # as) = ent (the (h a)) # ents h as"
  "ents h (as @ bs) = ents h as @ ents h bs"
  by (auto simp: ents_def)

lemma ents_cong: "(\<And>a. a \<in> set as \<Longrightarrow> h' a = h a) \<Longrightarrow> ents h' as = ents h as"
  by (auto simp: ents_def)

text \<open>The world after a node with a local file copy is freed.\<close>

definition freeW :: "'w os \<Rightarrow> pathCache \<Rightarrow> 'w \<Rightarrow> 'w" where
  "freeW OS n w =
     (if pcLocCacheState n \<noteq> NO_FILE_CACHE \<and> locCachePath n \<noteq> None
      then snd (os_unlink OS (the (locCachePath n)) w) else w)"

lemma freeW_ent [simp]: "freeW OS (ent n) = freeW OS n"
  by (simp add: freeW_def fun_eq_iff)

lemma freePathCache_eq:
  "pcHeap s a = Some n \<Longrightarrow>
   freePathCache OS (Some a) s =
     Some (0, s\<lparr>world := freeW OS n (world s), pcHeap := (pcHeap s)(a := None)\<rparr>)"
  by (auto simp: freePathCache_def freeFileCache_def setNode_def freeW_def sys_def split: prod.splits)

lemma freePathCache_None [simp]: "freePathCache OS None s = Some (0, s)"
  by (simp add: freePathCache_def)

text \<open>Expiry drops the oldest entries and unlinks their local copies.\<close>

lemma chkCacheExpire_loop_spec:
  assumes "pc_rep A s"
  shows "wpo (chkCacheExpire_loop OS arr k t (hdo (A arr k)) s) (\<lambda>(r, s'). r = 0 \<and> pc_frame s s' \<and>
      (\<exists>as. pc_rep (updA A arr k as) s' \<and> suffix as (A arr k) \<and>
        ents (pcHeap s') as = dropWhile (expired t) (ents (pcHeap s) (A arr k))) \<and>
      (\<forall>a. a \<notin> set (A arr k) \<longrightarrow> pcHeap s' a = pcHeap s a) \<and>
      world s' = fold (freeW OS) (takeWhile (expired t) (ents (pcHeap s) (A arr k))) (world s))"
  using assms
proof (induction "A arr k" arbitrary: A s)
  case Nil
  then have "updA A arr k [] = A" using updA_id [of A arr k] by simp
  with Nil show ?case by (subst chkCacheExpire_loop.simps) auto
next
  case (Cons a as)
  note rep = Cons.prems
  have q: "dll (pcHeap s) (pcQue s arr k) (a # as)" using pc_repD(1) [OF rep, of arr k] Cons.hyps(2) by simp
  obtain n where n: "pcHeap s a = Some n" "pcNext n = hdo as" using dllD [of _ _ "[]" a as] q by auto
  show ?case
  proof (cases "expired t n")
    case False
    have "updA A arr k (a # as) = A" using updA_id [of A arr k] Cons.hyps(2) by simp
    with False n rep Cons.hyps(2) [symmetric] show ?thesis
      by (subst chkCacheExpire_loop.simps) (auto intro!: exI [of _ "a # as"])
  next
    case True
    note E = Cons.hyps(2) [symmetric]
    show ?thesis
    proof (cases as)
      case Nil
      let ?s = "s\<lparr>world := freeW OS n (world s), pcHeap := (pcHeap s)(a := None), pcFresh := pcFresh s,
        pcQue := updA (pcQue s) arr k emptyQue\<rparr>"
      have d: "dll ((pcHeap s)(a := None)) emptyQue []" by (auto simp: dll_def emptyQue_def)
      have rep': "pc_rep (updA A arr k []) ?s"
        by (rule pc_rep_upd [OF rep d]) (auto simp: E Nil)
      have eq: "chkCacheExpire_loop OS arr k t (hdo (A arr k)) s = Some (0, ?s)"
        using n True Nil E q
        by (subst chkCacheExpire_loop.simps)
          (simp add: freePathCache_eq setQue_def emptyQue_def dll_def)
      show ?thesis
        using rep' n True E Nil unfolding eq
        by (auto intro!: exI [of _ "[]"])
    next
      case (Cons b bs)
      obtain bn where bn: "pcHeap s b = Some bn" using dllD [of _ _ "[a]" b bs] q Cons by auto
      have ab: "a \<noteq> b" "a \<notin> set as" "distinct as" using dll_top(3) [OF q] Cons by auto
      let ?h = "(pcHeap s)(a := None, b \<mapsto> bn\<lparr>pcPrev := None\<rparr>)"
      let ?s = "s\<lparr>world := freeW OS n (world s), pcHeap := ?h, pcFresh := pcFresh s,
        pcQue := updA (pcQue s) arr k ((pcQue s arr k)\<lparr>qTop := Some b\<rparr>)\<rparr>"
      have rep': "pc_rep (updA A arr k as) ?s"
        by (rule pc_rep_upd [OF rep dll_pop [OF q Cons bn]])
          (use rep E Cons bn ab pc_repD(3) [OF rep] pc_rep_slot [OF rep, of _ arr k]
            pc_rep_slot [OF rep _ bn, of arr k] in
            \<open>auto split: if_splits\<close>)
      have eq: "chkCacheExpire_loop OS arr k t (hdo (A arr k)) s = chkCacheExpire_loop OS arr k t (hdo as) ?s"
        using n True Cons E q bn ab
        by (subst chkCacheExpire_loop.simps)
          (simp add: freePathCache_eq setQue_def setNode_def dll_def pc_upd_order)
      have ents: "ents ?h as = ents (pcHeap s) as"
        using ab bn by (auto simp: ents_def)
      have IH: "wpo (chkCacheExpire_loop OS arr k t (hdo as) ?s) (\<lambda>(r, s'). r = 0 \<and> pc_frame ?s s' \<and>
          (\<exists>cs. pc_rep (updA (updA A arr k as) arr k cs) s' \<and> suffix cs as \<and>
            ents (pcHeap s') cs = dropWhile (expired t) (ents ?h as)) \<and>
          (\<forall>a. a \<notin> set as \<longrightarrow> pcHeap s' a = ?h a) \<and>
          world s' = fold (freeW OS) (takeWhile (expired t) (ents ?h as)) (freeW OS n (world s)))"
        using Cons.hyps(1) [of "updA A arr k as" ?s] rep' by simp
      have drop: "dropWhile (expired t) (ents (pcHeap s) (a # as)) = dropWhile (expired t) (ents ?h as)"
          "takeWhile (expired t) (ents (pcHeap s) (a # as)) = ent n # takeWhile (expired t) (ents ?h as)"
        using n True by (simp_all only: ents) simp_all
      have uu: "updA (updA A arr k as) arr k cs = updA A arr k cs" for cs by simp
      obtain s' cs where c: "chkCacheExpire_loop OS arr k t (hdo as) ?s = Some (0, s')"
          "pc_frame s s'" "pc_rep (updA A arr k cs) s'" "suffix cs as"
          "ents (pcHeap s') cs = dropWhile (expired t) (ents ?h as)"
          "\<forall>a. a \<notin> set as \<longrightarrow> pcHeap s' a = ?h a"
          "world s' = fold (freeW OS) (takeWhile (expired t) (ents ?h as)) (freeW OS n (world s))"
        using IH unfolding wpo_def uu pc_frame_left by blast
      have "suffix cs (a # as)" using c(4) by (rule suffix_ConsI)
      moreover have "\<forall>x. x \<notin> set (a # as) \<longrightarrow> pcHeap s' x = pcHeap s x" using c(6) Cons by auto
      ultimately show ?thesis
        unfolding E drop eq [unfolded E] c(1) using c(2,3,5,7) by auto
    qed
  qed
qed

lemma matchPath_loop_eq:
  assumes "dll (pcHeap s) q (xs @ ys)"
  shows "matchPath_loop p (hdo ys) s =
     (case find (\<lambda>a. filePath (the (pcHeap s a)) = p) ys of
        None \<Rightarrow> Some (0, None) | Some a \<Rightarrow> Some (1, Some a))"
  using assms
proof (induction ys arbitrary: xs)
  case Nil
  then show ?case by (subst matchPath_loop.simps) simp
next
  case (Cons a ys)
  from dllD [OF Cons.prems] obtain n where "pcHeap s a = Some n" "pcNext n = hdo ys" by blast
  moreover have "dll (pcHeap s) q ((xs @ [a]) @ ys)" using Cons.prems by simp
  ultimately show ?case using Cons.IH [of "xs @ [a]"] by (subst matchPath_loop.simps) auto
qed

text \<open>The branch of the loop that unlinks and frees a matching node.\<close>

lemma rmPath_loop_hit:
  assumes n: "pcHeap s a = Some n" "filePath n = p"
      and prev: "\<And>b. pcPrev n = Some b \<Longrightarrow> b \<noteq> a \<and> (\<exists>m. pcHeap s b = Some m)"
      and nxt: "\<And>b. pcNext n = Some b \<Longrightarrow> b \<noteq> a \<and> pcPrev n \<noteq> Some b \<and> (\<exists>m. pcHeap s b = Some m)"
  shows "rmPath_loop OS p arr k (Some a) s =
      Some (1, s\<lparr>world := freeW OS n (world s),
        pcHeap := (unlinkH (pcPrev n) (pcNext n) (pcHeap s))(a := None),
        pcQue := updA (pcQue s) arr k (unlinkQ (pcPrev n) (pcNext n) (pcQue s arr k))\<rparr>)"
proof (cases "pcPrev n")
  case None
  show ?thesis
  proof (cases "pcNext n")
    case None
    with n \<open>pcPrev n = None\<close> show ?thesis
      by (subst rmPath_loop.simps)
        (simp add: freePathCache_eq setQue_def setNode_def unlinkH_def unlinkQ_def pc_upd_order)
  next
    case (Some x)
    with nxt obtain m where "x \<noteq> a" "pcHeap s x = Some m" by blast
    with n \<open>pcPrev n = None\<close> Some show ?thesis
      by (subst rmPath_loop.simps)
        (simp add: freePathCache_eq setQue_def setNode_def unlinkH_def unlinkQ_def pc_upd_order)
  qed
next
  case (Some b)
  with prev obtain bm where b: "b \<noteq> a" "pcHeap s b = Some bm" by blast
  show ?thesis
  proof (cases "pcNext n")
    case None
    with n b \<open>pcPrev n = Some b\<close> show ?thesis
      by (subst rmPath_loop.simps)
        (simp add: freePathCache_eq setQue_def setNode_def unlinkH_def unlinkQ_def pc_upd_order)
  next
    case (Some x)
    with nxt \<open>pcPrev n = Some b\<close> obtain m where "x \<noteq> a" "x \<noteq> b" "pcHeap s x = Some m" by blast
    with n b \<open>pcPrev n = Some b\<close> Some show ?thesis
      by (subst rmPath_loop.simps)
        (simp add: freePathCache_eq setQue_def setNode_def unlinkH_def unlinkQ_def pc_upd_order)
  qed
qed

lemma rmPath_loop_eq:
  assumes "dll (pcHeap s) (pcQue s arr k) (xs @ ys)"
  shows "case find (\<lambda>a. filePath (the (pcHeap s a)) = p) ys of
      None \<Rightarrow> rmPath_loop OS p arr k (hdo ys) s = Some (0, s)
    | Some a \<Rightarrow> \<exists>us vs n. ys = us @ a # vs \<and> (\<forall>b \<in> set us. filePath (the (pcHeap s b)) \<noteq> p) \<and>
        pcHeap s a = Some n \<and> filePath n = p \<and>
        rmPath_loop OS p arr k (hdo ys) s =
        Some (1, s\<lparr>world := freeW OS n (world s),
          pcHeap := (unlinkH (lasto (xs @ us)) (hdo vs) (pcHeap s))(a := None),
          pcQue := updA (pcQue s) arr k (unlinkQ (lasto (xs @ us)) (hdo vs) (pcQue s arr k))\<rparr>)"
  using assms
proof (induction ys arbitrary: xs)
  case Nil
  then show ?case by (subst rmPath_loop.simps) simp
next
  case (Cons a ys)
  from dllD [OF Cons.prems] obtain n where
    n: "pcHeap s a = Some n" "pcNext n = hdo ys" "pcPrev n = lasto xs" by blast
  show ?case
  proof (cases "filePath n = p")
    case True
    have d: "distinct (xs @ a # ys)" using dll_top(3) [OF Cons.prems] .
    have nodes: "\<exists>m. pcHeap s b = Some m" if "b \<in> set xs \<union> set ys" for b
      using dll_node [OF Cons.prems] that by auto
    have pa: "\<forall>b. lasto xs = Some b \<longrightarrow> b \<noteq> a \<and> b \<in> set xs" "\<forall>b. hdo ys = Some b \<longrightarrow> b \<noteq> a \<and> b \<in> set ys"
      using d lasto_in_set hdo_in_set by fastforce+
    have "rmPath_loop OS p arr k (Some a) s =
        Some (1, s\<lparr>world := freeW OS n (world s),
          pcHeap := (unlinkH (lasto xs) (hdo ys) (pcHeap s))(a := None),
          pcQue := updA (pcQue s) arr k (unlinkQ (lasto xs) (hdo ys) (pcQue s arr k))\<rparr>)"
      unfolding n(2,3) [symmetric]
      by (rule rmPath_loop_hit [OF n(1) True]) (use n(2,3) pa nodes d in \<open>auto; fastforce\<close>)+
    with True n show ?thesis by (auto intro!: exI [of _ "[]"])
  next
    case False
    have "dll (pcHeap s) (pcQue s arr k) ((xs @ [a]) @ ys)" using Cons.prems by simp
    note IH = Cons.IH [OF this]
    have "rmPath_loop OS p arr k (Some a) s = rmPath_loop OS p arr k (hdo ys) s"
      using n False by (subst rmPath_loop.simps) simp
    moreover have "find (\<lambda>a. filePath (the (pcHeap s a)) = p) (a # ys) =
        find (\<lambda>a. filePath (the (pcHeap s a)) = p) ys" using n False by simp
    moreover have "\<exists>us' vs n. a # ys = us' @ c # vs \<and> (\<forall>b \<in> set us'. filePath (the (pcHeap s b)) \<noteq> p) \<and>
        pcHeap s c = Some n \<and> filePath n = p \<and>
        Z = Some (1, s\<lparr>world := freeW OS n (world s),
          pcHeap := (unlinkH (lasto (xs @ us')) (hdo vs) (pcHeap s))(c := None),
          pcQue := updA (pcQue s) arr k (unlinkQ (lasto (xs @ us')) (hdo vs) (pcQue s arr k))\<rparr>)"
      if "ys = us @ c # vs" "\<forall>b \<in> set us. filePath (the (pcHeap s b)) \<noteq> p"
        "pcHeap s c = Some m" "filePath m = p"
        "Z = Some (1, s\<lparr>world := freeW OS m (world s),
          pcHeap := (unlinkH (lasto ((xs @ [a]) @ us)) (hdo vs) (pcHeap s))(c := None),
          pcQue := updA (pcQue s) arr k (unlinkQ (lasto ((xs @ [a]) @ us)) (hdo vs) (pcQue s arr k))\<rparr>)"
      for c us vs m Z
      using that n False
      by (intro exI [of _ "a # us"] exI [of _ vs] exI [of _ m]) (simp del: lasto_simps)
    ultimately show ?thesis
      using IH by (cases "find (\<lambda>a. filePath (the (pcHeap s a)) = p) ys") (simp, simp only: option.case hdo_simps, blast)
  qed
qed

text \<open>Other operations change the content of a node, never its links or its path.\<close>

lemma pc_rep_content:
  assumes "pc_rep A s" "pcHeap s a = Some n" "pcNext n' = pcNext n" "pcPrev n' = pcPrev n"
    "filePath n' = filePath n"
  shows "pc_rep A (s\<lparr>world := w, pcHeap := (pcHeap s)(a \<mapsto> n')\<rparr>)"
proof -
  have "dll ((pcHeap s)(a \<mapsto> n')) (pcQue s arr k) (A arr k)" for arr k
    by (rule dll_content [OF pc_repD(1) [OF assms(1)] assms(2,3,4)])
  moreover have "b < pcFresh s \<and> (\<exists>arr k. b \<in> set (A arr k) \<and> queSlot (filePath m) = Some k)"
    if "((pcHeap s)(a \<mapsto> n')) b = Some m" for b m
    using that assms(2,5) pc_repD(3,4) [OF assms(1), of b] by (cases "b = a") auto
  ultimately show ?thesis using pc_repD(2) [OF assms(1)] by (simp add: pc_rep_def)
qed

text \<open>The state of the cache as lists of entries.\<close>

definition pc_sim :: "(pathArray \<Rightarrow> nat \<Rightarrow> pathCache list) \<Rightarrow> ('w, 'z) pcstate_scheme \<Rightarrow> bool" where
  "pc_sim Q s \<longleftrightarrow> (\<exists>A. pc_rep A s \<and> Q = (\<lambda>arr k. ents (pcHeap s) (A arr k)))"

definition pc_inv :: "('w, 'z) pcstate_scheme \<Rightarrow> bool" where
  "pc_inv s \<longleftrightarrow> (\<exists>Q. pc_sim Q s)"

text \<open>The first entry of a path, and the queue without it.\<close>

definition findPath :: "string \<Rightarrow> pathCache list \<Rightarrow> pathCache option" where
  "findPath p q = find (\<lambda>e. filePath e = p) q"

fun dropPath :: "string \<Rightarrow> pathCache list \<Rightarrow> pathCache list" where
  "dropPath p [] = []"
| "dropPath p (e # q) = (if filePath e = p then q else e # dropPath p q)"

lemma pc_sim_upd:
  assumes "pc_rep A s" "pc_rep (updA A arr k as) s'"
      and "\<And>a. a \<notin> set (A arr k) \<Longrightarrow> a \<notin> set as \<Longrightarrow> pcHeap s' a = pcHeap s a"
  shows "pc_sim (updA (\<lambda>arr k. ents (pcHeap s) (A arr k)) arr k (ents (pcHeap s') as)) s'"
proof -
  have "ents (pcHeap s') (updA A arr k as arr' k') =
      updA (\<lambda>arr k. ents (pcHeap s) (A arr k)) arr k (ents (pcHeap s') as) arr' k'" for arr' k'
  proof (cases "(arr', k') = (arr, k)")
    case False
    then have "set (A arr' k') \<inter> set (A arr k) = {}" "set (A arr' k') \<inter> set as = {}"
      using pc_repD(2) [OF assms(1) False] pc_repD(2) [OF assms(2) False] by (auto split: if_splits)
    then have "ents (pcHeap s') (A arr' k') = ents (pcHeap s) (A arr' k')"
      by (intro ents_cong assms(3)) auto
    with False show ?thesis by auto
  qed simp
  then show ?thesis unfolding pc_sim_def using assms(2)
    by (intro exI [of _ "updA A arr k as"]) (auto simp: fun_eq_iff)
qed

lemma find_ents:
  "findPath p (ents (pcHeap s) as) =
     map_option (\<lambda>a. ent (the (pcHeap s a))) (find (\<lambda>a. filePath (the (pcHeap s a)) = p) as)"
  unfolding findPath_def ents_def by (induction as) auto

lemma do_matchPathInPathCache_spec:
  assumes "pc_sim Q s" "queSlot p = Some k" "os_time OS (world s) = (t, w)"
  shows "wpo (do_matchPathInPathCache OS p arr s) (\<lambda>((r, out), s'). pc_frame s s' \<and>
     pc_sim (updA Q arr k (dropWhile (expired (word_of_int t)) (Q arr k))) s' \<and>
     world s' = fold (freeW OS) (takeWhile (expired (word_of_int t)) (Q arr k)) w \<and>
     (case findPath p (dropWhile (expired (word_of_int t)) (Q arr k)) of
        None \<Rightarrow> r = 0 \<and> out = None
      | Some e \<Rightarrow> r = 1 \<and> (\<exists>a n. out = Some a \<and> pcHeap s' a = Some n \<and> ent n = e)))"
proof -
  let ?t = "word_of_int t :: 32 word"
  obtain A where A: "pc_rep A s" and Q: "Q = (\<lambda>arr k. ents (pcHeap s) (A arr k))"
    using assms(1) by (auto simp: pc_sim_def)
  let ?s = "s\<lparr>world := w\<rparr>"
  have A': "pc_rep A ?s" using A by (simp add: pc_rep_def)
  obtain s' as where s': "chkCacheExpire_loop OS arr k ?t (hdo (A arr k)) ?s = Some (0, s')"
      "pc_frame s s'" "pc_rep (updA A arr k as) s'" "suffix as (A arr k)"
      "ents (pcHeap s') as = dropWhile (expired ?t) (Q arr k)"
      "\<forall>a. a \<notin> set (A arr k) \<longrightarrow> pcHeap s' a = pcHeap s a"
      "world s' = fold (freeW OS) (takeWhile (expired ?t) (Q arr k)) w"
    using chkCacheExpire_loop_spec [OF A', of OS arr k ?t] unfolding wpo_def Q by auto
  have top: "qTop (pcQue s arr k) = hdo (A arr k)" using dll_top(1) [OF pc_repD(1) [OF A]] .
  have chk: "chkCacheExpire OS arr k s = Some (0, s')"
    using s'(1) top assms(3) by (simp add: chkCacheExpire_def sys_def)
  have q: "dll (pcHeap s') (pcQue s' arr k) ([] @ as)" using pc_repD(1) [OF s'(3), of arr k] by simp
  have sim: "pc_sim (updA Q arr k (dropWhile (expired ?t) (Q arr k))) s'"
    using pc_sim_upd [OF A s'(3)] s'(5,6) unfolding Q by auto
  have match: "matchPathInPathSlot arr k p s' =
      (case find (\<lambda>a. filePath (the (pcHeap s' a)) = p) as of
         None \<Rightarrow> Some (0, None) | Some a \<Rightarrow> Some (1, Some a))"
    using matchPath_loop_eq [OF q] dll_top(1) [OF q] by (simp add: matchPathInPathSlot_def)
  have fnd: "findPath p (dropWhile (expired ?t) (Q arr k)) =
      map_option (\<lambda>a. ent (the (pcHeap s' a))) (find (\<lambda>a. filePath (the (pcHeap s' a)) = p) as)"
    using find_ents [of p s' as] s'(5) by auto
  show ?thesis
  proof (cases "find (\<lambda>a. filePath (the (pcHeap s' a)) = p) as")
    case None
    with fnd match chk sim s'(2,7) assms(2) show ?thesis by (simp add: do_matchPathInPathCache_def)
  next
    case (Some a)
    then have "a \<in> set as" by (auto simp: find_Some_iff)
    then obtain n where "pcHeap s' a = Some n" using dll_node q by fastforce
    with Some fnd match chk sim s'(2,7) assms(2) show ?thesis by (simp add: do_matchPathInPathCache_def)
  qed
qed

lemma dropPath_ents:
  "\<forall>b \<in> set us. filePath (the (h b)) \<noteq> p \<Longrightarrow> filePath (the (h a)) = p \<Longrightarrow>
   dropPath p (ents h (us @ a # vs)) = ents h (us @ vs)"
  by (induction us) auto

lemma dropPath_absent: "findPath p q = None \<Longrightarrow> dropPath p q = q"
  by (induction q) (auto simp: findPath_def split: if_splits)

lemma unlinkH_ent:
  "distinct (xs @ ys) \<Longrightarrow> (\<And>b. b \<in> set (xs @ ys) \<Longrightarrow> h b \<noteq> None) \<Longrightarrow> a \<notin> set (xs @ ys) \<Longrightarrow>
   ents ((unlinkH (lasto xs) (hdo ys) h)(a := None)) (xs @ ys) = ents h (xs @ ys)"
proof -
  assume a: "distinct (xs @ ys)" "\<And>b. b \<in> set (xs @ ys) \<Longrightarrow> h b \<noteq> None" "a \<notin> set (xs @ ys)"
  have "ent (the (((unlinkH (lasto xs) (hdo ys) h)(a := None)) b)) = ent (the (h b))"
    if "b \<in> set (xs @ ys)" for b
    using a that unlinkH_at [OF a(1), of h b "the (h b)"] by auto
  then show ?thesis unfolding ents_def by (auto simp del: fun_upd_apply)
qed

lemma unlinkH_other:
  "b \<notin> set xs \<Longrightarrow> b \<notin> set ys \<Longrightarrow> unlinkH (lasto xs) (hdo ys) h b = h b"
  by (auto simp: unlinkH_def Let_def split: option.splits dest!: lasto_in_set hdo_in_set)

lemma do_rmPathFromCache_spec:
  assumes "pc_sim Q s" "queSlot p = Some k"
  shows "wpo (do_rmPathFromCache OS p arr s) (\<lambda>(r, s'). pc_frame s s' \<and>
     pc_sim (updA Q arr k (dropPath p (Q arr k))) s' \<and>
     (case findPath p (Q arr k) of
        None \<Rightarrow> r = 0 \<and> world s' = world s
      | Some e \<Rightarrow> r = 1 \<and> world s' = freeW OS e (world s)))"
proof -
  obtain A where A: "pc_rep A s" and Q: "Q = (\<lambda>arr k. ents (pcHeap s) (A arr k))"
    using assms(1) by (auto simp: pc_sim_def)
  have q: "dll (pcHeap s) (pcQue s arr k) ([] @ A arr k)" using pc_repD(1) [OF A] by simp
  note loop = rmPath_loop_eq [OF q, where p = p and OS = OS]
  have run: "do_rmPathFromCache OS p arr s = rmPath_loop OS p arr k (hdo (A arr k)) s"
    using dll_top(1) [OF q] assms(2) by (simp add: do_rmPathFromCache_def)
  have fnd: "findPath p (Q arr k) = map_option (\<lambda>a. ent (the (pcHeap s a)))
      (find (\<lambda>a. filePath (the (pcHeap s a)) = p) (A arr k))"
    using find_ents [of p s "A arr k"] Q by simp
  show ?thesis
  proof (cases "find (\<lambda>a. filePath (the (pcHeap s a)) = p) (A arr k)")
    case None
    with fnd have "findPath p (Q arr k) = None" by simp
    with None loop run assms(1) dropPath_absent show ?thesis by simp
  next
    case (Some a)
    with loop obtain us vs n where
      u: "A arr k = us @ a # vs" "\<forall>b \<in> set us. filePath (the (pcHeap s b)) \<noteq> p"
        "pcHeap s a = Some n" "filePath n = p" and
      eq: "rmPath_loop OS p arr k (hdo (A arr k)) s =
        Some (1, s\<lparr>world := freeW OS n (world s),
          pcHeap := (unlinkH (lasto us) (hdo vs) (pcHeap s))(a := None), pcFresh := pcFresh s,
          pcQue := updA (pcQue s) arr k (unlinkQ (lasto us) (hdo vs) (pcQue s arr k))\<rparr>)"
      by (auto simp del: fun_upd_apply)
    let ?h = "(unlinkH (lasto us) (hdo vs) (pcHeap s))(a := None)"
    have q': "dll (pcHeap s) (pcQue s arr k) (us @ a # vs)" using q u by simp
    have d: "distinct (us @ a # vs)" using dll_top(3) [OF q'] .
    have nodes: "pcHeap s b \<noteq> None" if "b \<in> set (us @ vs)" for b
      using dll_node [OF q', of b] that by auto
    have at: "?h b = Some m \<Longrightarrow> b \<in> set (us @ vs) \<and> b < pcFresh s \<and> queSlot (filePath m) = Some k"
      if "b \<in> set (A arr k) \<union> set (us @ vs)" for b m
    proof -
      assume h: "?h b = Some m"
      then have "b \<noteq> a" by auto
      then have b: "b \<in> set (us @ vs)" "b \<in> set (A arr k)" using that u(1) by auto
      then obtain m' where m': "pcHeap s b = Some m'" using nodes by blast
      then have "filePath m = filePath m'"
        using h unlinkH_at [of us vs "pcHeap s" b m'] d \<open>b \<noteq> a\<close> by (auto split: if_splits)
      then show ?thesis using b m' pc_rep_slot [OF A b(2) m'] pc_repD(3) [OF A m'] by simp
    qed
    have rep: "pc_rep (updA A arr k (us @ vs)) (s\<lparr>world := freeW OS n (world s), pcHeap := ?h,
        pcFresh := pcFresh s, pcQue := updA (pcQue s) arr k (unlinkQ (lasto us) (hdo vs) (pcQue s arr k))\<rparr>)"
      by (rule pc_rep_upd [OF A dll_unlink [OF q']]) (use u(1) at unlinkH_other in auto)
    have "pc_sim (updA Q arr k (ents ?h (us @ vs))) (s\<lparr>world := freeW OS n (world s), pcHeap := ?h,
        pcFresh := pcFresh s, pcQue := updA (pcQue s) arr k (unlinkQ (lasto us) (hdo vs) (pcQue s arr k))\<rparr>)"
      using pc_sim_upd [OF A rep] u(1) unlinkH_other unfolding Q by auto
    moreover have "ents ?h (us @ vs) = dropPath p (Q arr k)"
      using unlinkH_ent [of us vs "pcHeap s" a] d nodes dropPath_ents [of us "pcHeap s" p a vs] u Q
      by (simp del: fun_upd_apply)
    moreover have "findPath p (Q arr k) = Some (ent n)" using fnd Some u by simp
    ultimately show ?thesis using run eq by (simp del: fun_upd_apply)
  qed
qed

text \<open>A new entry.\<close>

definition newEntry :: "string \<Rightarrow> pathArray \<times> nat \<Rightarrow> stat option \<Rightarrow> int \<Rightarrow> pathCache" where
  "newEntry p q st t = \<lparr>filePath = p, locCachePath = None,
     pcStbuf = (case st of None \<Rightarrow> zero_stat | Some st \<Rightarrow> st), cachedTime = word_of_int t,
     pcPrev = None, pcNext = None, pcQuePtr = q, pcLocCacheState = NO_FILE_CACHE\<rparr>"

lemma do_addPathToCache_spec:
  assumes "pc_sim Q s" "queSlot p = Some k" "os_time OS (world s) = (t, w)"
  shows "wpo (do_addPathToCache OS p arr st s) (\<lambda>((r, a), s'). r = 0 \<and> pc_frame s s' \<and> world s' = w \<and>
     pc_sim (updA Q arr k (Q arr k @ [newEntry p (arr, k) st t])) s' \<and>
     (\<exists>n. pcHeap s' a = Some n \<and> ent n = newEntry p (arr, k) st t))"
proof -
  obtain A where A: "pc_rep A s" and Q: "Q = (\<lambda>arr k. ents (pcHeap s) (A arr k))"
    using assms(1) by (auto simp: pc_sim_def)
  let ?a = "pcFresh s" and ?n = "newEntry p (arr, k) st t" and ?q = "pcQue s arr k"
  have q: "dll (pcHeap s) ?q (A arr k)" using pc_repD(1) [OF A] .
  have fresh: "pcHeap s ?a = None" using pc_repD(3) [OF A, of ?a] by (cases "pcHeap s ?a") auto
  then have new: "?a \<notin> set (A arr k)" using dll_node [OF q] by force
  have lt: "b < Suc ?a" if "b \<in> set (A arr k)" for b
    using dll_node [OF q that] pc_repD(3) [OF A] by force
  have n: "pcNext ?n = None" "pcPrev ?n = None" "ent ?n = ?n" "filePath ?n = p"
    by (simp_all add: newEntry_def ent_def)
  show ?thesis
  proof (cases "A arr k" rule: rev_cases)
    case Nil
    let ?s = "s\<lparr>world := w, pcHeap := (pcHeap s)(?a \<mapsto> ?n), pcFresh := Suc ?a,
      pcQue := updA (pcQue s) arr k \<lparr>qTop = Some ?a, qBottom = Some ?a\<rparr>\<rparr>"
    have rep: "pc_rep (updA A arr k [?a]) ?s"
      by (rule pc_rep_upd [OF A dll_single]) (use Nil n fresh assms(2) in auto)
    have "pc_sim (updA Q arr k (ents (pcHeap ?s) [?a])) ?s"
      using pc_sim_upd [OF A rep] Nil unfolding Q by auto
    moreover have "do_addPathToCache OS p arr st s = Some ((0, ?a), ?s)"
      using dll_top(1) [OF q] Nil assms(2,3)
      by (simp add: do_addPathToCache_def addToCacheSlot_def sys_def setQue_def setNode_def
        newEntry_def pc_upd_order Let_def)
    ultimately show ?thesis using n Nil Q by simp
  next
    case (snoc bs b)
    obtain bn where bn: "pcHeap s b = Some bn" using dll_node [OF q, of b] snoc by auto
    let ?m = "?n\<lparr>pcPrev := Some b\<rparr>"
    let ?h = "(pcHeap s)(b \<mapsto> bn\<lparr>pcNext := Some ?a\<rparr>, ?a \<mapsto> ?m)"
    let ?s = "s\<lparr>world := w, pcHeap := ?h, pcFresh := Suc ?a,
      pcQue := updA (pcQue s) arr k (?q\<lparr>qBottom := Some ?a\<rparr>)\<rparr>"
    have q': "dll ?h (?q\<lparr>qBottom := Some ?a\<rparr>) (A arr k @ [?a])"
      by (rule dll_append [OF q]) (use snoc bn new n in auto)
    have slots: "queSlot (filePath m) = Some k" if "c \<in> set (A arr k)" "pcHeap s c = Some m" for c m
      using pc_rep_slot [OF A that] .
    have slot_b: "queSlot (filePath bn) = Some k" by (rule slots [OF _ bn]) (simp add: snoc)
    have rep: "pc_rep (updA A arr k (A arr k @ [?a])) ?s"
      by (rule pc_rep_upd [OF A q'])
        (use fresh assms(2) lt bn snoc n in \<open>auto split: if_splits intro: slot_b slots\<close>)
    have "pc_sim (updA Q arr k (ents ?h (A arr k @ [?a]))) ?s"
      using pc_sim_upd [OF A rep] snoc unfolding Q by auto
    moreover have "ents ?h (A arr k @ [?a]) = Q arr k @ [?n]"
      using new bn n snoc unfolding Q ents_def by (auto simp: ent_def)
    moreover have "do_addPathToCache OS p arr st s = Some ((0, ?a), ?s)"
      using dll_top(1,2) [OF q] snoc assms(2,3) bn new
      by (cases bs) (auto simp: do_addPathToCache_def addToCacheSlot_def sys_def setQue_def setNode_def
        newEntry_def pc_upd_order Let_def)
    ultimately show ?thesis using n by simp
  qed
qed

lemma pc_sim_locks [simp]: "pc_sim Q (s\<lparr>locks := l\<rparr>) = pc_sim Q s"
  by (simp add: pc_sim_def pc_rep_def)

lemma pc_unlock:
  assumes "locks s PathCacheLock = 0" "pc_frame (s\<lparr>locks := (locks s)(PathCacheLock := Suc 0)\<rparr>) t"
  shows "pc_frame s (t\<lparr>locks := (locks t)(PathCacheLock := 0)\<rparr>)"
proof -
  have l: "(locks s)(PathCacheLock := Suc 0, PathCacheLock := 0) = locks s" using assms(1) by auto
  have "t\<lparr>world := world s, pcHeap := pcHeap s, pcFresh := pcFresh s, pcQue := pcQue s\<rparr> =
      s\<lparr>locks := (locks s)(PathCacheLock := Suc 0)\<rparr>"
    using assms(2) by (simp add: pc_frame_def)
  from arg_cong [OF this, of "\<lambda>x. x\<lparr>locks := (locks x)(PathCacheLock := 0)\<rparr>"] l
  show ?thesis by (simp add: pc_frame_def pc_upd_order fun_upd_idem)
qed

text \<open>An operation under the cache's mutex.\<close>

lemma with_PathCacheLock:
  assumes "locks s PathCacheLock = 0"
      and "wpo (f (s\<lparr>locks := (locks s)(PathCacheLock := Suc 0)\<rparr>))
             (\<lambda>(r, s'). pc_frame (s\<lparr>locks := (locks s)(PathCacheLock := Suc 0)\<rparr>) s' \<and>
                        P r (s'\<lparr>locks := (locks s')(PathCacheLock := 0)\<rparr>))"
  shows "wpo (mutex_lock PathCacheLock s \<bind> (\<lambda>s. f s \<bind> (\<lambda>(r, s).
           mutex_unlock PathCacheLock s \<bind> (\<lambda>s. Some (r, s)))))
           (\<lambda>(r, s'). pc_frame s s' \<and> P r s')"
  using assms(1)
  by (auto simp: mutex_lock_def wp_simps intro!: wpo_mono [OF assms(2)] pc_unlock)

lemma matchPathInPathCache_sim:
  assumes "pc_sim Q s" "queSlot p = Some k" "os_time OS (world s) = (t, w)" "locks s PathCacheLock = 0"
  shows "wpo (matchPathInPathCache OS p arr s) (\<lambda>((r, out), s'). pc_frame s s' \<and>
     pc_sim (updA Q arr k (dropWhile (expired (word_of_int t)) (Q arr k))) s' \<and>
     world s' = fold (freeW OS) (takeWhile (expired (word_of_int t)) (Q arr k)) w \<and>
     (case findPath p (dropWhile (expired (word_of_int t)) (Q arr k)) of
        None \<Rightarrow> r = 0 \<and> out = None
      | Some e \<Rightarrow> r = 1 \<and> (\<exists>a n. out = Some a \<and> pcHeap s' a = Some n \<and> ent n = e)))"
proof -
  have "pc_sim Q (s\<lparr>locks := (locks s)(PathCacheLock := Suc 0)\<rparr>)"
      "os_time OS (world (s\<lparr>locks := (locks s)(PathCacheLock := Suc 0)\<rparr>)) = (t, w)" using assms by simp_all
  note spec = do_matchPathInPathCache_spec [OF this(1) assms(2) this(2), of arr]
  show ?thesis
    unfolding matchPathInPathCache_def
    by (rule wpo_mono [OF with_PathCacheLock [OF assms(4),
          where P = "\<lambda>(r, out) s'. pc_sim (updA Q arr k (dropWhile (expired (word_of_int t)) (Q arr k))) s' \<and>
             world s' = fold (freeW OS) (takeWhile (expired (word_of_int t)) (Q arr k)) w \<and>
             (case findPath p (dropWhile (expired (word_of_int t)) (Q arr k)) of
                None \<Rightarrow> r = 0 \<and> out = None
              | Some e \<Rightarrow> r = 1 \<and> (\<exists>a n. out = Some a \<and> pcHeap s' a = Some n \<and> ent n = e))"]])
      (auto intro!: wpo_mono [OF spec] split: option.splits)
qed

lemma rmPathFromCache_sim:
  assumes "pc_sim Q s" "queSlot p = Some k" "locks s PathCacheLock = 0"
  shows "wpo (rmPathFromCache OS p arr s) (\<lambda>(r, s'). pc_frame s s' \<and>
     pc_sim (updA Q arr k (dropPath p (Q arr k))) s' \<and>
     (case findPath p (Q arr k) of
        None \<Rightarrow> r = 0 \<and> world s' = world s
      | Some e \<Rightarrow> r = 1 \<and> world s' = freeW OS e (world s)))"
proof -
  have "pc_sim Q (s\<lparr>locks := (locks s)(PathCacheLock := Suc 0)\<rparr>)" using assms by simp
  note spec = do_rmPathFromCache_spec [OF this assms(2), of OS arr]
  show ?thesis
    unfolding rmPathFromCache_def
    by (rule with_PathCacheLock [OF assms(3), where
          P = "\<lambda>r s'. pc_sim (updA Q arr k (dropPath p (Q arr k))) s' \<and> (case findPath p (Q arr k) of
            None \<Rightarrow> r = 0 \<and> world s' = world s | Some e \<Rightarrow> r = 1 \<and> world s' = freeW OS e (world s))"])
      (auto intro!: wpo_mono [OF spec] split: option.splits)
qed

lemma addPathToCache_sim:
  assumes "pc_sim Q s" "queSlot p = Some k" "os_time OS (world s) = (t, w)" "locks s PathCacheLock = 0"
  shows "wpo (addPathToCache OS p arr st s) (\<lambda>((r, a), s'). pc_frame s s' \<and> r = 0 \<and> world s' = w \<and>
     pc_sim (updA Q arr k (Q arr k @ [newEntry p (arr, k) st t])) s' \<and>
     (\<exists>n. pcHeap s' a = Some n \<and> ent n = newEntry p (arr, k) st t))"
proof -
  have "pc_sim Q (s\<lparr>locks := (locks s)(PathCacheLock := Suc 0)\<rparr>)"
      "os_time OS (world (s\<lparr>locks := (locks s)(PathCacheLock := Suc 0)\<rparr>)) = (t, w)" using assms by simp_all
  note spec = do_addPathToCache_spec [OF this(1) assms(2) this(2), of arr st]
  show ?thesis
    unfolding addPathToCache_def
    by (rule wpo_mono [OF with_PathCacheLock [OF assms(4),
          where P = "\<lambda>(r, a) s'. r = 0 \<and> world s' = w \<and>
             pc_sim (updA Q arr k (Q arr k @ [newEntry p (arr, k) st t])) s' \<and>
             (\<exists>n. pcHeap s' a = Some n \<and> ent n = newEntry p (arr, k) st t)"]])
      (auto intro!: wpo_mono [OF spec])
qed

section \<open>The contract for the clients of the cache\<close>

text \<open>Paths whose slot is inside the arrays: every path of plain ASCII characters is one.\<close>

definition asciiPath :: "string \<Rightarrow> bool" where
  "asciiPath p \<longleftrightarrow> length p \<le> 100000 \<and> (\<forall>c \<in> set p. of_char c < (128 :: nat))"

lemma pathSum_loop_sum: "pathSum_loop p acc = acc + word_of_int (sum_list (map schar p))"
  by (induction p acc rule: pathSum_loop.induct) (auto simp: algebra_simps)

lemma pathSum_sum:
  "- (2 ^ 31) \<le> sum_list (map schar p) \<Longrightarrow> sum_list (map schar p) < 2 ^ 31 \<Longrightarrow>
   pathSum p = sum_list (map schar p)"
  unfolding pathSum_def pathSum_loop_sum by (simp add: signed_of_int signed_take_bit_int_eq_self)

lemma ascii_sum:
  "\<forall>c \<in> set p. of_char c < (128 :: nat) \<Longrightarrow>
   0 \<le> sum_list (map schar p) \<and> sum_list (map schar p) \<le> 127 * int (length p)"
  by (induction p) (auto simp: schar_def Let_def)

lemma queSlot_ascii: "asciiPath p \<Longrightarrow> \<exists>k. queSlot p = Some k"
proof -
  assume p: "asciiPath p"
  then have "0 \<le> pathSum p"
    using ascii_sum [of p] pathSum_sum [of p] by (simp add: asciiPath_def)
  then have "0 \<le> pathSum p smod 201 \<and> pathSum p smod 201 < 201"
    by (simp add: signed_modulo_int_def signed_divide_int_def sgn_if abs_if)
  then show ?thesis by (simp add: queSlot_def getHashSlot_def Let_def)
qed

definition pc_ok :: "('w, 'z) pcstate_scheme \<Rightarrow> bool" where
  "pc_ok s \<longleftrightarrow> pc_inv s \<and> locks s PathCacheLock = 0"

definition pcPath :: "('w, 'z) pcstate_scheme \<Rightarrow> nat \<Rightarrow> string option" where
  "pcPath s a = map_option filePath (pcHeap s a)"

lemma findPath_path: "findPath p q = Some e \<Longrightarrow> filePath e = p \<and> e \<in> set q"
  by (auto simp: findPath_def find_Some_iff)

lemma pc_ok_frame: "pc_sim Q s' \<Longrightarrow> pc_frame s s' \<Longrightarrow> locks s PathCacheLock = 0 \<Longrightarrow> pc_ok s'"
  by (auto simp: pc_ok_def pc_inv_def pc_frame_locks)

lemma matchPathInPathCache_ok:
  assumes "pc_ok s" "asciiPath p"
  shows "wpo (matchPathInPathCache OS p arr s) (\<lambda>((r, out), s'). pc_ok s' \<and> pc_frame s s' \<and>
      (case out of None \<Rightarrow> r = 0 | Some a \<Rightarrow> r = 1 \<and> pcPath s' a = Some p))"
proof -
  obtain Q where Q: "pc_sim Q s" and l: "locks s PathCacheLock = 0" using assms(1) by (auto simp: pc_ok_def pc_inv_def)
  obtain k where k: "queSlot p = Some k" using queSlot_ascii [OF assms(2)] by blast
  obtain t w where t: "os_time OS (world s) = (t, w)" by fastforce
  note spec = matchPathInPathCache_sim [OF Q k t l, of arr]
  show ?thesis
  proof (cases "findPath p (dropWhile (expired (word_of_int t)) (Q arr k))")
    case None
    with spec show ?thesis by (auto elim!: wpo_mono intro: pc_ok_frame l)
  next
    case (Some e)
    then have "filePath e = p" using findPath_path by blast
    with Some spec show ?thesis by (auto elim!: wpo_mono intro: pc_ok_frame l simp: pcPath_def)
  qed
qed

lemma addPathToCache_ok:
  assumes "pc_ok s" "asciiPath p"
  shows "wpo (addPathToCache OS p arr st s) (\<lambda>((r, a), s'). r = 0 \<and> pc_ok s' \<and> pc_frame s s' \<and>
      pcPath s' a = Some p)"
proof -
  obtain Q where Q: "pc_sim Q s" and l: "locks s PathCacheLock = 0" using assms(1) by (auto simp: pc_ok_def pc_inv_def)
  obtain k where k: "queSlot p = Some k" using queSlot_ascii [OF assms(2)] by blast
  obtain t w where t: "os_time OS (world s) = (t, w)" by fastforce
  show ?thesis
    by (rule wpo_mono [OF addPathToCache_sim [OF Q k t l, of arr st]])
      (auto simp: pcPath_def newEntry_def ent_def intro: pc_ok_frame l dest!: arg_cong [of _ _ filePath])
qed

lemma rmPathFromCache_ok:
  assumes "pc_ok s" "asciiPath p"
  shows "wpo (rmPathFromCache OS p arr s) (\<lambda>(r, s'). pc_ok s' \<and> pc_frame s s')"
proof -
  obtain Q where Q: "pc_sim Q s" and l: "locks s PathCacheLock = 0" using assms(1) by (auto simp: pc_ok_def pc_inv_def)
  obtain k where k: "queSlot p = Some k" using queSlot_ascii [OF assms(2)] by blast
  show ?thesis
    by (rule wpo_mono [OF rmPathFromCache_sim [OF Q k l, of OS arr]]) (auto intro: pc_ok_frame l)
qed

lemma pc_inv_content:
  assumes "pc_inv s" "pcHeap s a = Some n" "pcNext n' = pcNext n" "pcPrev n' = pcPrev n"
    "filePath n' = filePath n"
  shows "pc_inv (s\<lparr>world := w, pcHeap := (pcHeap s)(a \<mapsto> n')\<rparr>)"
  using assms(1) pc_rep_content [OF _ assms(2-5)] unfolding pc_inv_def pc_sim_def by blast

lemma updatePathCacheStat_ok:
  assumes "pc_ok s" "pcPath s a = Some p"
  shows "wpo (updatePathCacheStat OS a s) (\<lambda>(r, s'). pc_ok s' \<and> pc_frame s s' \<and> pcPath s' a = Some p)"
proof -
  obtain n where n: "pcHeap s a = Some n" "filePath n = p" using assms(2) by (auto simp: pcPath_def)
  have inv: "pc_inv (s\<lparr>world := w\<rparr>)" for w
    using assms(1) by (simp add: pc_ok_def pc_inv_def pc_sim_def pc_rep_def)
  have upd: "pc_inv (s\<lparr>world := w, pcHeap := (pcHeap s)(a \<mapsto> n\<lparr>pcStbuf := b\<rparr>)\<rparr>)" for w b
    by (rule pc_inv_content [OF _ n(1)]) (use assms(1) in \<open>simp_all add: pc_ok_def\<close>)
  show ?thesis
    using n assms inv upd
    by (auto simp: updatePathCacheStat_def sys_def setNode_def pcPath_def pc_ok_def
      split: option.splits prod.splits)
qed

text \<open>What the clients rely on: the cache stays usable, no lock is left behind, nothing else of the
  state changes, and a returned node belongs to the path asked for.\<close>

locale path_cache =
  fixes ok :: "'s \<Rightarrow> bool" and keeps :: "'s \<Rightarrow> 's \<Rightarrow> bool" and path_of :: "'s \<Rightarrow> nat \<Rightarrow> string option"
    and usable :: "string \<Rightarrow> bool"
    and lookup :: "string \<Rightarrow> pathArray \<Rightarrow> 's \<Rightarrow> ((int \<times> nat option) \<times> 's) option"
    and insrt :: "string \<Rightarrow> pathArray \<Rightarrow> stat option \<Rightarrow> 's \<Rightarrow> ((int \<times> nat) \<times> 's) option"
    and remove :: "string \<Rightarrow> pathArray \<Rightarrow> 's \<Rightarrow> (int \<times> 's) option"
  assumes keeps_trans: "keeps s t \<Longrightarrow> keeps t u \<Longrightarrow> keeps s u"
    and lookup_law: "ok s \<Longrightarrow> usable p \<Longrightarrow> wpo (lookup p arr s) (\<lambda>((r, out), s'). ok s' \<and> keeps s s' \<and>
          (case out of None \<Rightarrow> r = 0 | Some a \<Rightarrow> r = 1 \<and> path_of s' a = Some p))"
    and insrt_law: "ok s \<Longrightarrow> usable p \<Longrightarrow> wpo (insrt p arr st s) (\<lambda>((r, a), s'). r = 0 \<and> ok s' \<and>
          keeps s s' \<and> path_of s' a = Some p)"
    and remove_law: "ok s \<Longrightarrow> usable p \<Longrightarrow> wpo (remove p arr s) (\<lambda>(r, s'). ok s' \<and> keeps s s')"
begin

text \<open>The pattern of the handlers that create or delete a name: out of one array, into the other.\<close>

lemma move_ok:
  assumes "ok s" "usable p" "usable q"
  shows "wpo (remove p arr s \<bind> (\<lambda>(_, s). insrt q arr' st s))
     (\<lambda>((r, a), s'). r = 0 \<and> ok s' \<and> keeps s s' \<and> path_of s' a = Some q)"
  using assms
  by (auto intro!: wpo_mono [OF remove_law] wpo_mono [OF insrt_law] intro: keeps_trans)

lemma lookup_or_insert_ok:
  assumes "ok s" "usable p"
  shows "wpo (lookup p arr s \<bind> (\<lambda>((r, out), s).
           case out of Some a \<Rightarrow> Some (a, s) | None \<Rightarrow> insrt p arr st s \<bind> (\<lambda>((_, a), s). Some (a, s))))
     (\<lambda>(a, s'). ok s' \<and> keeps s s' \<and> path_of s' a = Some p)"
  using assms
  by (auto intro!: wpo_mono [OF lookup_law] wpo_mono [OF insrt_law] simp: wpo_case_option)
    (meson keeps_trans)

end

interpretation pc: path_cache pc_ok pc_frame pcPath asciiPath
  "matchPathInPathCache OS" "addPathToCache OS" "rmPathFromCache OS" for OS
  by unfold_locales
    (auto intro: pc_frame_trans matchPathInPathCache_ok addPathToCache_ok rmPathFromCache_ok)

section \<open>Results\<close>

datatype pc_op = Add string pathArray "stat option" | Match string pathArray | Rm string pathArray

fun pc_op_path :: "pc_op \<Rightarrow> string" where
  "pc_op_path (Add p _ _) = p" | "pc_op_path (Match p _) = p" | "pc_op_path (Rm p _) = p"

fun pc_step :: "'w os \<Rightarrow> pc_op \<Rightarrow> ('w, 'z) pcstate_scheme \<Rightarrow> ('w, 'z) pcstate_scheme option" where
  "pc_step OS (Add p arr st) s = map_option snd (addPathToCache OS p arr st s)"
| "pc_step OS (Match p arr) s = map_option snd (matchPathInPathCache OS p arr s)"
| "pc_step OS (Rm p arr) s = map_option snd (rmPathFromCache OS p arr s)"

fun pc_run :: "'w os \<Rightarrow> pc_op list \<Rightarrow> ('w, 'z) pcstate_scheme \<Rightarrow> ('w, 'z) pcstate_scheme option" where
  "pc_run OS [] s = Some s"
| "pc_run OS (x # xs) s = pc_step OS x s \<bind> pc_run OS xs"

text \<open>The reference: queues of entries, oldest first, and the world.\<close>

fun spec_op :: "'w os \<Rightarrow> pc_op \<Rightarrow> (pathArray \<Rightarrow> nat \<Rightarrow> pathCache list) \<times> 'w \<Rightarrow>
    (pathArray \<Rightarrow> nat \<Rightarrow> pathCache list) \<times> 'w" where
  "spec_op OS (Add p arr st) (Q, w) =
     (let k = the (queSlot p); (t, w') = os_time OS w
      in (updA Q arr k (Q arr k @ [newEntry p (arr, k) st t]), w'))"
| "spec_op OS (Match p arr) (Q, w) =
     (let k = the (queSlot p); (t, w') = os_time OS w
      in (updA Q arr k (dropWhile (expired (word_of_int t)) (Q arr k)),
          fold (freeW OS) (takeWhile (expired (word_of_int t)) (Q arr k)) w'))"
| "spec_op OS (Rm p arr) (Q, w) =
     (let k = the (queSlot p)
      in (updA Q arr k (dropPath p (Q arr k)),
          case findPath p (Q arr k) of None \<Rightarrow> w | Some e \<Rightarrow> freeW OS e w))"

lemma pc_step_refines:
  assumes "pc_sim Q s" "locks s PathCacheLock = 0" "asciiPath (pc_op_path x)"
  shows "wpo (pc_step OS x s) (\<lambda>s'. pc_frame s s' \<and>
     (case spec_op OS x (Q, world s) of (Q', w') \<Rightarrow> pc_sim Q' s' \<and> world s' = w'))"
proof -
  obtain k where k: "queSlot (pc_op_path x) = Some k" using queSlot_ascii [OF assms(3)] by blast
  obtain t w where t: "os_time OS (world s) = (t, w)" by fastforce
  show ?thesis
  proof (cases x)
    case (Add p arr st)
    with k have "queSlot p = Some k" by simp
    from addPathToCache_sim [OF assms(1) this t assms(2), of arr st] this Add t show ?thesis
      by (auto elim!: wpo_mono)
  next
    case (Match p arr)
    with k have "queSlot p = Some k" by simp
    from matchPathInPathCache_sim [OF assms(1) this t assms(2), of arr] this Match t show ?thesis
      by (auto elim!: wpo_mono)
  next
    case (Rm p arr)
    with k have "queSlot p = Some k" by simp
    from rmPathFromCache_sim [OF assms(1) this assms(2), of OS arr] this Rm show ?thesis
      by (auto elim!: wpo_mono split: option.splits)
  qed
qed

lemma pc_run_refines:
  assumes "pc_sim Q s" "locks s PathCacheLock = 0" "\<forall>x \<in> set ops. asciiPath (pc_op_path x)"
  shows "wpo (pc_run OS ops s) (\<lambda>s'. pc_frame s s' \<and>
     (case fold (spec_op OS) ops (Q, world s) of (Q', w') \<Rightarrow> pc_sim Q' s' \<and> world s' = w'))"
  using assms
proof (induction ops arbitrary: Q s)
  case (Cons x xs)
  obtain Q' w' where sp: "spec_op OS x (Q, world s) = (Q', w')" by fastforce
  from pc_step_refines [OF Cons.prems(1,2), of x OS] Cons.prems(3) sp obtain s' where
    s': "pc_step OS x s = Some s'" "pc_frame s s'" "pc_sim Q' s'" "world s' = w'" by (auto simp: wpo_def)
  have "locks s' PathCacheLock = 0" using s'(2) Cons.prems(2) pc_frame_locks by metis
  from Cons.IH [OF s'(3) this] Cons.prems(3) s'(1,2,4) sp show ?case
    by (auto elim!: wpo_mono intro: pc_frame_trans)
qed simp

definition pc_start :: "'w \<Rightarrow> 'w pcstate" where
  "pc_start w = \<lparr>world = w, locks = (\<lambda>_. 0), pcHeap = Map.empty, pcFresh = 0, pcQue = (\<lambda>_ _. emptyQue)\<rparr>"

lemma pc_sim_init: "pcHeap s = Map.empty \<Longrightarrow> pc_sim (\<lambda>_ _. []) (initPathCache_arrays s)"
  unfolding pc_sim_def
  by (intro exI [of _ "\<lambda>_ _. []"])
    (auto simp: pc_rep_def dll_def initPathCache_arrays_def emptyQue_def)



lemma ent_sel: "ent n = e \<Longrightarrow> filePath n = filePath e \<and> pcStbuf n = pcStbuf e"
  by (metis ent_simps(3,5))

lemma findPath_fresh:
  assumes "findPath p q = None" "\<not> P e" "filePath e = p"
  shows "findPath p (dropWhile P (q @ [e])) = Some e"
proof -
  have "findPath p (q' @ [e]) = Some e" if "findPath p q' = None" for q'
    using that assms(3) by (induction q') (auto simp: findPath_def split: if_splits)
  with assms show ?thesis by (induction q) (auto simp: findPath_def split: if_splits)
qed

lemma not_expired:
  assumes "0 \<le> t" "t \<le> t'" "t' < t + 600" "t + 600 < 2 ^ 32"
  shows "\<not> expired (word_of_int t') (newEntry p q st t)"
proof -
  have "uint (word_of_int (t + 600) :: 32 word) = t + 600" "uint (word_of_int t' :: 32 word) = t'"
    using assms by (simp_all add: unsigned_of_int take_bit_int_eq_self del: of_int_add)
  moreover have "word_of_int t + 600 = (word_of_int (t + 600) :: 32 word)" by simp
  ultimately show ?thesis
    using assms(3) by (simp add: expired_def newEntry_def not_le word_less_def del: of_int_add)
qed

text \<open>C13. Attributes put into the cache for a path that had no entry are served from it for ten
  minutes: a lookup within 600 seconds finds an entry of that path with those attributes.\<close>

theorem cached_attributes_served:
  assumes "pc_sim Q s" "locks s PathCacheLock = 0" "queSlot p = Some k" "findPath p (Q arr k) = None"
      and "os_time OS (world s) = (t, w)" "os_time OS w = (t', w')"
      and "0 \<le> t" "t \<le> t'" "t' < t + 600" "t + 600 < 2 ^ 32"
  shows "wpo (addPathToCache OS p arr (Some st) s \<bind> (\<lambda>(_, s). matchPathInPathCache OS p arr s))
     (\<lambda>((r, out), s'). r = 1 \<and> (\<exists>a n. out = Some a \<and> pcHeap s' a = Some n \<and> filePath n = p \<and> pcStbuf n = st))"
proof -
  let ?e = "newEntry p (arr, k) (Some st) t"
  obtain a s1 where s1: "addPathToCache OS p arr (Some st) s = Some ((0, a), s1)" "pc_frame s s1"
      "world s1 = w" "pc_sim (updA Q arr k (Q arr k @ [?e])) s1"
    using addPathToCache_sim [OF assms(1,3,5,2), of arr "Some st"] by (auto simp: wpo_def)
  have f: "findPath p (dropWhile (expired (word_of_int t')) (Q arr k @ [?e])) = Some ?e"
    by (intro findPath_fresh [OF assms(4)] not_expired [OF assms(7-10)]) (simp add: newEntry_def)
  have sel: "filePath ?e = p" "pcStbuf ?e = st" by (simp_all add: newEntry_def)
  have "locks s1 PathCacheLock = 0" using s1(2) assms(2) pc_frame_locks by metis
  moreover have "os_time OS (world s1) = (t', w')" using s1(3) assms(6) by simp
  ultimately show ?thesis
    using matchPathInPathCache_sim [OF s1(4) assms(3), of OS t' w' arr] s1(1) f
    by (auto elim!: wpo_mono dest!: ent_sel simp: sel)
qed

theorem cached_attributes_served_witness:
  "wpo (addPathToCache clockOS ''/a'' PathArray (Some (zero_stat\<lparr>st_size := 7\<rparr>)) (initPathCache_arrays (pc_start 100))
        \<bind> (\<lambda>(_, s). matchPathInPathCache clockOS ''/a'' PathArray s))
     (\<lambda>((r, out), s'). r = 1 \<and> (\<exists>a n. out = Some a \<and> pcHeap s' a = Some n \<and> filePath n = ''/a'' \<and>
        pcStbuf n = zero_stat\<lparr>st_size := 7\<rparr>))"
  by (rule cached_attributes_served [OF pc_sim_init, where k = 144 and t = 100 and t' = 100 and w = 100
        and w' = 100])
    (simp_all add: pc_start_def initPathCache_arrays_def queSlot_def pathSum_def getHashSlot_def
      schar_def findPath_def clockOS_def)

lemma sorted_dropWhile_fresh:
  assumes "sorted (map (\<lambda>e. uint (cachedTime e)) q)" "\<forall>e \<in> set q. uint (cachedTime e) + 600 < 2 ^ 32"
      and "e \<in> set (dropWhile (expired t) q)"
  shows "\<not> expired t e"
  using assms
proof (induction q)
  case (Cons d q)
  have le: "expired t e \<longrightarrow> expired t d" if "uint (cachedTime d) \<le> uint (cachedTime e)"
      "uint (cachedTime e) + 600 < 2 ^ 32"
  proof -
    have "uint (cachedTime e + 600) = uint (cachedTime e) + 600" "uint (cachedTime d + 600) = uint (cachedTime d) + 600"
      using that uint_ge_0 [of "cachedTime d"] by (simp_all add: uint_word_ariths)
    then show ?thesis using that(1) by (auto simp: expired_def word_le_def)
  qed
  show ?case
  proof (cases "expired t d")
    case True
    with Cons show ?thesis by simp
  next
    case False
    with Cons.prems have "e = d \<or> e \<in> set q" by simp
    with False le Cons.prems(1,2) show ?thesis by auto
  qed
qed simp



text \<open>C38. A path whose bytes sum to a negative number that 201 does not divide, as many paths with
  characters outside ASCII do, addresses a queue before the array: no lookup, addition or removal
  of it is defined.\<close>

theorem negative_sum_out_of_bounds:
  assumes "pathSum p < 0" "\<not> 201 dvd pathSum p"
  shows "matchPathInPathCache OS p arr s = None \<and> addPathToCache OS p arr st s = None \<and>
         rmPathFromCache OS p arr s = None"
proof -
  have "pathSum p smod 201 < 0"
    using assms by (simp add: signed_modulo_int_def signed_divide_int_def sgn_if abs_if dvd_eq_mod_eq_0)
      (smt (verit) mod_minus_eq pos_mod_sign)
  then have "queSlot p = None" by (simp add: queSlot_def getHashSlot_def Let_def)
  then show ?thesis
    by (simp add: matchPathInPathCache_def addPathToCache_def rmPathFromCache_def
      do_matchPathInPathCache_def do_addPathToCache_def do_rmPathFromCache_def mutex_lock_def)
qed

theorem negative_sum_out_of_bounds_witness:
  "matchPathInPathCache clockOS [CHR ''/'', CHR 0xC3, CHR 0xA9] PathArray (pc_start 0) = None"
  using negative_sum_out_of_bounds [of "[CHR ''/'', CHR 0xC3, CHR 0xA9]" clockOS PathArray "pc_start 0" None]
  by (simp add: pathSum_def schar_def)

end
