(* ===== verification/Desc_Conn.thy ===== *)
theory Desc_Conn
  imports Path_Cache
begin

text \<open>
  The file descriptors and the connection pool of \<open>clients/fuse/src/iFuseLib.c\<close>.

  \<^item> \<open>IFuseDesc\<close> is the table of 512 descriptors (3 to 511 are given out); a descriptor of an open file
    refers to the connection its data object is open on.
  \<^item> Connections are heap nodes; \<open>ConnHead\<close> is the list of their addresses, in the order of the
    \<open>next\<close> pointers. \<open>getIFuseConn\<close> hands out a free connection, makes a new one, or shares an idle one;
    \<open>relIFuseConn\<close> gives it back; \<open>connManager\<close> disconnects what is free for too long or too many.
  \<^item> Waiting for a connection (all ten in use and none idle) is \<open>None\<close>: in the model's single thread
    nobody answers.

  The theory shows that a scan that stops early finds what a full scan finds, and that the pool's
  invariant is kept by every operation: no descriptor ever refers to a connection the manager may
  free, no lock is taken twice, none is left behind.
\<close>

section \<open>State\<close>

record iFuseConn =
  fcConn :: "rcComm option"
  fcActTime :: int
  fcInuseCnt :: int
  fcPendingCnt :: int
  fcStatus :: int

record iFuseDesc =
  fdConn :: "nat option"
  fdInuseFlag :: int
  fdIFd :: int
  fdNewFlag :: int
  fdCreateMode :: int
  fdOffset :: int
  fdBytesWritten :: int
  fdObjPath :: "string option"
  fdLocalPath :: "string option"
  fdLocCacheState :: readCacheState

definition zeroDesc :: iFuseDesc where
  "zeroDesc = \<lparr>fdConn = None, fdInuseFlag = 0, fdIFd = 0, fdNewFlag = 0, fdCreateMode = 0, fdOffset = 0,
     fdBytesWritten = 0, fdObjPath = None, fdLocalPath = None, fdLocCacheState = NO_FILE_CACHE\<rparr>"

definition zeroConn :: iFuseConn where
  "zeroConn = \<lparr>fcConn = None, fcActTime = 0, fcInuseCnt = 0, fcPendingCnt = 0, fcStatus = 0\<rparr>"

text \<open>The waiting requests are numbered; \<open>wokenReqs\<close> are those the manager has signalled.\<close>

record 'w fstate = "'w pcstate" +
  IFuseDesc :: "int \<Rightarrow> iFuseDesc"
  IFuseDescInuseCnt :: int
  connHeap :: "nat \<Rightarrow> iFuseConn option"
  connFresh :: nat
  ConnHead :: "nat list"
  ConnManagerStarted :: int
  connManagerRunning :: bool
  ConnReqWaitQue :: "nat list"
  wokenReqs :: "nat list"
  MyRodsEnv :: rodsEnv

abbreviation (input) MAX_IFUSE_DESC :: int where "MAX_IFUSE_DESC \<equiv> 512"
abbreviation (input) IRODS_FREE :: int where "IRODS_FREE \<equiv> 0"
abbreviation (input) IRODS_INUSE :: int where "IRODS_INUSE \<equiv> 1"
abbreviation (input) MAX_NUM_CONN :: int where "MAX_NUM_CONN \<equiv> 10"
abbreviation (input) HIGH_NUM_CONN :: int where "HIGH_NUM_CONN \<equiv> 5"
abbreviation (input) IFUSE_CONN_TIMEOUT :: int where "IFUSE_CONN_TIMEOUT \<equiv> 120"

text \<open>Accesses to the table and through connection pointers.\<close>

definition getDesc :: "int \<Rightarrow> ('w, 'z) fstate_scheme \<Rightarrow> iFuseDesc option" where
  "getDesc i s = (if 0 \<le> i \<and> i < MAX_IFUSE_DESC then Some (IFuseDesc s i) else None)"

definition setDesc :: "int \<Rightarrow> iFuseDesc \<Rightarrow> ('w, 'z) fstate_scheme \<Rightarrow> ('w, 'z) fstate_scheme" where
  "setDesc i d s = s\<lparr>IFuseDesc := (IFuseDesc s)(i := d)\<rparr>"

definition setConn :: "nat \<Rightarrow> iFuseConn \<Rightarrow> ('w, 'z) fstate_scheme \<Rightarrow> ('w, 'z) fstate_scheme" where
  "setConn a c s = s\<lparr>connHeap := (connHeap s)(a \<mapsto> c)\<rparr>"

section \<open>Descriptors\<close>

text \<open>\<open>initIFuseDesc\<close> initialises the global locks.\<close>

definition initIFuseDesc :: "('w, 'z) fstate_scheme \<Rightarrow> (int \<times> ('w, 'z) fstate_scheme) option" where
  "initIFuseDesc s = Some (0, s\<lparr>locks := (locks s)(DescLock := 0, ConnLock := 0,
     NewlyCreatedOprLock := 0, PathCacheLock := 0)\<rparr>)"

fun allocDesc_loop :: "nat \<Rightarrow> int \<Rightarrow> ('w, 'z) fstate_scheme \<Rightarrow> int option" where
  "allocDesc_loop 0 i s = None"
| "allocDesc_loop (Suc n) i s =
     (if fdInuseFlag (IFuseDesc s i) \<le> IRODS_FREE then Some i else allocDesc_loop n (i + 1) s)"

definition allocIFuseDesc :: "('w, 'z) fstate_scheme \<Rightarrow> (int \<times> ('w, 'z) fstate_scheme) option" where
  "allocIFuseDesc s = do {
     s \<leftarrow> mutex_lock DescLock s;
     (case allocDesc_loop 509 3 s of
        Some i \<Rightarrow> do {
          let s = s\<lparr>locks := (locks s)(IFuseDescLock i := 0)\<rparr>;
          let s = setDesc i ((IFuseDesc s i)\<lparr>fdInuseFlag := IRODS_INUSE\<rparr>) s;
          let s = s\<lparr>IFuseDescInuseCnt := IFuseDescInuseCnt s + 1\<rparr>;
          s \<leftarrow> mutex_unlock DescLock s;
          Some (i, s)
        }
      | None \<Rightarrow> do { s \<leftarrow> mutex_unlock DescLock s; Some (SYS_OUT_OF_FILE_DESC, s) })
   }"

definition lockDesc :: "int \<Rightarrow> ('w, 'z) fstate_scheme \<Rightarrow> (int \<times> ('w, 'z) fstate_scheme) option" where
  "lockDesc descInx s =
     (if descInx < 3 \<or> descInx \<ge> MAX_IFUSE_DESC then Some (SYS_FILE_DESC_OUT_OF_RANGE, s)
      else do { s \<leftarrow> mutex_lock (IFuseDescLock descInx) s; Some (0, s) })"

definition unlockDesc :: "int \<Rightarrow> ('w, 'z) fstate_scheme \<Rightarrow> (int \<times> ('w, 'z) fstate_scheme) option" where
  "unlockDesc descInx s =
     (if descInx < 3 \<or> descInx \<ge> MAX_IFUSE_DESC then Some (SYS_FILE_DESC_OUT_OF_RANGE, s)
      else do { s \<leftarrow> mutex_unlock (IFuseDescLock descInx) s; Some (0, s) })"

text \<open>The scans of the table stop when as many descriptors in use have been seen as there are; they
  return the index of the first that satisfies the test.\<close>

fun scanDesc ::
  "(iFuseDesc \<Rightarrow> bool) \<Rightarrow> nat \<Rightarrow> int \<Rightarrow> int \<Rightarrow> ('w, 'z) fstate_scheme \<Rightarrow> int option" where
  "scanDesc P 0 i inuseCnt s = None"
| "scanDesc P (Suc n) i inuseCnt s =
     (if inuseCnt \<ge> IFuseDescInuseCnt s then None
      else if fdInuseFlag (IFuseDesc s i) = IRODS_INUSE then
        (if P (IFuseDesc s i) then Some i else scanDesc P n (i + 1) (inuseCnt + 1) s)
      else scanDesc P n (i + 1) inuseCnt s)"

definition iFuseConnInuse :: "nat option \<Rightarrow> ('w, 'z) fstate_scheme \<Rightarrow> (int \<times> ('w, 'z) fstate_scheme) option" where
  "iFuseConnInuse iFuseConn s =
     (if iFuseConn = None then Some (0, s)
      else do {
        s \<leftarrow> mutex_lock DescLock s;
        let r = scanDesc (\<lambda>d. fdConn d \<noteq> None \<and> fdConn d = iFuseConn) 509 3 0 s;
        s \<leftarrow> mutex_unlock DescLock s;
        Some (if r = None then 0 else 1, s)
      })"

definition checkFuseDesc :: "int \<Rightarrow> ('w, 'z) fstate_scheme \<Rightarrow> int" where
  "checkFuseDesc descInx s =
     (if descInx < 3 \<or> descInx \<ge> MAX_IFUSE_DESC then SYS_FILE_DESC_OUT_OF_RANGE
      else if fdInuseFlag (IFuseDesc s descInx) \<noteq> IRODS_INUSE then SYS_BAD_FILE_DESCRIPTOR
      else if fdIFd (IFuseDesc s descInx) \<le> 0 then SYS_BAD_FILE_DESCRIPTOR
      else 0)"

definition fillIFuseDesc ::
  "int \<Rightarrow> nat option \<Rightarrow> int \<Rightarrow> string option \<Rightarrow> string option \<Rightarrow> ('w, 'z) fstate_scheme \<Rightarrow>
   (int \<times> ('w, 'z) fstate_scheme) option" where
  "fillIFuseDesc descInx iFuseConn iFd objPath localPath s = do {
     d \<leftarrow> getDesc descInx s;
     let d = d\<lparr>fdConn := iFuseConn, fdIFd := iFd\<rparr>;
     let d = (if objPath \<noteq> None then d\<lparr>fdObjPath := objPath\<rparr> else d);
     let d = (if localPath \<noteq> None then d\<lparr>fdLocalPath := localPath\<rparr> else d);
     Some (0, setDesc descInx d s)
   }"

section \<open>Connections\<close>

text \<open>\<open>do_useIFuseConn\<close> is \<open>_useIFuseConn\<close>, called with \<open>ConnLock\<close> held.\<close>

definition do_useIFuseConn ::
  "'w os \<Rightarrow> nat option \<Rightarrow> ('w, 'z) fstate_scheme \<Rightarrow> (int \<times> ('w, 'z) fstate_scheme) option" where
  "do_useIFuseConn OS iFuseConn s =
     (case iFuseConn of
        None \<Rightarrow> Some (USER_NULL_INPUT_ERR, s)
      | Some a \<Rightarrow> do {
          c \<leftarrow> connHeap s a;
          if fcConn c = None then Some (USER_NULL_INPUT_ERR, s)
          else do {
            (t, s) \<leftarrow> sys (os_time OS) s;
            let s = setConn a (c\<lparr>fcActTime := t, fcStatus := IRODS_INUSE, fcPendingCnt := fcPendingCnt c + 1\<rparr>) s;
            s \<leftarrow> mutex_unlock ConnLock s;
            s \<leftarrow> mutex_lock (IFuseConnLock a) s;
            s \<leftarrow> mutex_lock ConnLock s;
            c \<leftarrow> connHeap s a;
            let s = setConn a (c\<lparr>fcInuseCnt := fcInuseCnt c + 1, fcPendingCnt := fcPendingCnt c - 1\<rparr>) s;
            s \<leftarrow> mutex_unlock ConnLock s;
            Some (0, s)
          }
        })"

definition useIFuseConn ::
  "'w os \<Rightarrow> nat option \<Rightarrow> ('w, 'z) fstate_scheme \<Rightarrow> (int \<times> ('w, 'z) fstate_scheme) option" where
  "useIFuseConn OS iFuseConn s =
     (case iFuseConn of
        None \<Rightarrow> Some (USER_NULL_INPUT_ERR, s)
      | Some a \<Rightarrow> do {
          c \<leftarrow> connHeap s a;
          if fcConn c = None then Some (USER_NULL_INPUT_ERR, s)
          else do { s \<leftarrow> mutex_lock ConnLock s; do_useIFuseConn OS iFuseConn s }
        })"

definition useFreeIFuseConn ::
  "'w os \<Rightarrow> nat \<Rightarrow> ('w, 'z) fstate_scheme \<Rightarrow> (int \<times> ('w, 'z) fstate_scheme) option" where
  "useFreeIFuseConn OS a s = do {
     c \<leftarrow> connHeap s a;
     (t, s) \<leftarrow> sys (os_time OS) s;
     let s = setConn a (c\<lparr>fcActTime := t, fcStatus := IRODS_INUSE, fcInuseCnt := fcInuseCnt c + 1\<rparr>) s;
     s \<leftarrow> mutex_unlock ConnLock s;
     s \<leftarrow> mutex_lock (IFuseConnLock a) s;
     Some (0, s)
   }"

definition unuseIFuseConn ::
  "'w os \<Rightarrow> nat option \<Rightarrow> ('w, 'z) fstate_scheme \<Rightarrow> (int \<times> ('w, 'z) fstate_scheme) option" where
  "unuseIFuseConn OS iFuseConn s =
     (case iFuseConn of
        None \<Rightarrow> Some (USER_NULL_INPUT_ERR, s)
      | Some a \<Rightarrow> do {
          c \<leftarrow> connHeap s a;
          if fcConn c = None then Some (USER_NULL_INPUT_ERR, s)
          else do {
            s \<leftarrow> mutex_lock ConnLock s;
            (t, s) \<leftarrow> sys (os_time OS) s;
            let s = setConn a (c\<lparr>fcActTime := t, fcInuseCnt := fcInuseCnt c - 1\<rparr>) s;
            s \<leftarrow> mutex_unlock ConnLock s;
            s \<leftarrow> mutex_unlock (IFuseConnLock a) s;
            Some (0, s)
          }
        })"

text \<open>\<open>ifuseConnect\<close> tries twice; the status in the error message is part of the failed call's result.\<close>

definition ifuseConnect ::
  "'w irods \<Rightarrow> nat \<Rightarrow> ('w, 'z) fstate_scheme \<Rightarrow> (int \<times> ('w, 'z) fstate_scheme) option" where
  "ifuseConnect API a s = do {
     c \<leftarrow> connHeap s a;
     ((conn, _), s) \<leftarrow> sys (rcConnect API) s;
     ((conn, err), s) \<leftarrow> (case conn of Some _ \<Rightarrow> Some ((conn, 0), s) | None \<Rightarrow> sys (rcConnect API) s);
     (case conn of
        None \<Rightarrow> Some (if err < 0 then err else -1, setConn a (c\<lparr>fcConn := None\<rparr>) s)
      | Some h \<Rightarrow> do {
          (status, s) \<leftarrow> sys (clientLogin API h) s;
          if status \<noteq> 0 then do {
            (_, s) \<leftarrow> sys (rcDisconnect API h) s;
            Some (status, setConn a (c\<lparr>fcConn := None\<rparr>) s)
          } else Some (status, setConn a (c\<lparr>fcConn := Some h\<rparr>) s)
        })
   }"

definition ifuseReconnect ::
  "'w irods \<Rightarrow> nat option \<Rightarrow> ('w, 'z) fstate_scheme \<Rightarrow> (int \<times> ('w, 'z) fstate_scheme) option" where
  "ifuseReconnect API iFuseConn s =
     (case iFuseConn of
        None \<Rightarrow> Some (USER_NULL_INPUT_ERR, s)
      | Some a \<Rightarrow> do {
          c \<leftarrow> connHeap s a;
          (case fcConn c of
             None \<Rightarrow> Some (USER_NULL_INPUT_ERR, s)
           | Some h \<Rightarrow> do {
               (_, s) \<leftarrow> sys (rcDisconnect API h) s;
               ifuseConnect API a (setConn a (c\<lparr>fcConn := None\<rparr>) s)
             })
        })"

text \<open>The first connection of the list that satisfies a test; a dangling pointer is not followed.\<close>

fun findConn :: "(iFuseConn \<Rightarrow> bool) \<Rightarrow> nat list \<Rightarrow> ('w, 'z) fstate_scheme \<Rightarrow> nat option option" where
  "findConn P [] s = Some None"
| "findConn P (a # as) s = do { c \<leftarrow> connHeap s a; if P c then Some (Some a) else findConn P as s }"

definition startConnManager :: "('w, 'z) fstate_scheme \<Rightarrow> ('w, 'z) fstate_scheme" where
  "startConnManager s =
     (if ConnManagerStarted s < HIGH_NUM_CONN then
        (let n = ConnManagerStarted s + 1
         in s\<lparr>ConnManagerStarted := n, connManagerRunning := (n = HIGH_NUM_CONN \<or> connManagerRunning s)\<rparr>)
      else s)"

text \<open>The end of \<open>getIFuseConn\<close>: nothing is free, make one. \<open>malloc\<close> is assumed to succeed.\<close>

definition newIFuseConn ::
  "'w os \<Rightarrow> 'w irods \<Rightarrow> ('w, 'z) fstate_scheme \<Rightarrow> ((int \<times> nat option) \<times> ('w, 'z) fstate_scheme) option" where
  "newIFuseConn OS API s = do {
     let a = connFresh s;
     let s = s\<lparr>connFresh := Suc a, connHeap := (connHeap s)(a \<mapsto> zeroConn),
               locks := (locks s)(IFuseConnLock a := 0)\<rparr>;
     (status, s) \<leftarrow> ifuseConnect API a s;
     if status < 0 then Some ((status, None), s)
     else do {
       (_, s) \<leftarrow> useIFuseConn OS (Some a) s;
       s \<leftarrow> mutex_lock ConnLock s;
       let s = s\<lparr>ConnHead := a # ConnHead s\<rparr>;
       s \<leftarrow> mutex_unlock ConnLock s;
       Some ((0, Some a), startConnManager s)
     }
   }"

definition getIFuseConn ::
  "'w os \<Rightarrow> 'w irods \<Rightarrow> ('w, 'z) fstate_scheme \<Rightarrow> ((int \<times> nat option) \<times> ('w, 'z) fstate_scheme) option" where
  "getIFuseConn OS API s = do {
     s \<leftarrow> mutex_lock ConnLock s;
     free \<leftarrow> findConn (\<lambda>c. fcStatus c = IRODS_FREE \<and> fcConn c \<noteq> None) (ConnHead s) s;
     (case free of
        Some a \<Rightarrow> do { (_, s) \<leftarrow> useFreeIFuseConn OS a s; Some ((0, Some a), s) }
      | None \<Rightarrow>
          if int (length (ConnHead s)) \<ge> MAX_NUM_CONN then do {
            idle \<leftarrow> findConn (\<lambda>c. fcInuseCnt c = 0 \<and> fcPendingCnt c = 0 \<and> fcConn c \<noteq> None) (ConnHead s) s;
            (case idle of
               Some a \<Rightarrow> do { (_, s) \<leftarrow> do_useIFuseConn OS (Some a) s; Some ((0, Some a), s) }
             | None \<Rightarrow> None)
          } else do {
            s \<leftarrow> mutex_unlock ConnLock s;
            newIFuseConn OS API s
          })
   }"

text \<open>\<open>getIFuseConnByPath\<close> prefers the connection of a descriptor open on the same path. A descriptor
  in use whose path is still null would crash \<open>strcmp\<close>.\<close>

fun scanDescPath ::
  "string \<Rightarrow> nat \<Rightarrow> int \<Rightarrow> int \<Rightarrow> ('w, 'z) fstate_scheme \<Rightarrow> nat option option" where
  "scanDescPath localPath 0 i inuseCnt s = Some None"
| "scanDescPath localPath (Suc n) i inuseCnt s =
     (if inuseCnt \<ge> IFuseDescInuseCnt s then Some None
      else if fdInuseFlag (IFuseDesc s i) = IRODS_INUSE then
        (case fdConn (IFuseDesc s i) of
           None \<Rightarrow> scanDescPath localPath n (i + 1) (inuseCnt + 1) s
         | Some a \<Rightarrow> do {
             c \<leftarrow> connHeap s a;
             if fcConn c \<noteq> None then do {
               p \<leftarrow> fdLocalPath (IFuseDesc s i);
               if p = localPath then Some (Some a) else scanDescPath localPath n (i + 1) (inuseCnt + 1) s
             } else scanDescPath localPath n (i + 1) (inuseCnt + 1) s
           })
      else scanDescPath localPath n (i + 1) inuseCnt s)"

definition getIFuseConnByPath ::
  "'w os \<Rightarrow> 'w irods \<Rightarrow> string \<Rightarrow> ('w, 'z) fstate_scheme \<Rightarrow>
   ((int \<times> nat option) \<times> ('w, 'z) fstate_scheme) option" where
  "getIFuseConnByPath OS API localPath s = do {
     s \<leftarrow> mutex_lock DescLock s;
     r \<leftarrow> scanDescPath localPath 509 3 0 s;
     (case r of
        Some a \<Rightarrow> do {
          s \<leftarrow> mutex_lock ConnLock s;
          s \<leftarrow> mutex_unlock DescLock s;
          (_, s) \<leftarrow> do_useIFuseConn OS (Some a) s;
          Some ((0, Some a), s)
        }
      | None \<Rightarrow> do { s \<leftarrow> mutex_unlock DescLock s; getIFuseConn OS API s })
   }"

definition getNumConn :: "('w, 'z) fstate_scheme \<Rightarrow> int" where
  "getNumConn s = int (length (ConnHead s))"

text \<open>\<open>signalConnManager\<close> only takes and releases the lock; the signal is not part of the state.\<close>

definition signalConnManager :: "('w, 'z) fstate_scheme \<Rightarrow> (int \<times> ('w, 'z) fstate_scheme) option" where
  "signalConnManager s = do {
     s \<leftarrow> mutex_lock ConnLock s;
     s \<leftarrow> mutex_unlock ConnLock s;
     Some (0, s)
   }"

definition freeIfUnreferenced :: "nat \<Rightarrow> ('w, 'z) fstate_scheme \<Rightarrow> ('w, 'z) fstate_scheme option" where
  "freeIfUnreferenced a s = do {
     s \<leftarrow> mutex_unlock ConnLock s;
     (used, s) \<leftarrow> iFuseConnInuse (Some a) s;
     if used = 0 then do {
       s \<leftarrow> mutex_lock ConnLock s;
       c \<leftarrow> connHeap s a;
       let s = setConn a (c\<lparr>fcStatus := IRODS_FREE\<rparr>) s;
       mutex_unlock ConnLock s
     } else Some s
   }"

definition do_relIFuseConn ::
  "'w os \<Rightarrow> nat option \<Rightarrow> ('w, 'z) fstate_scheme \<Rightarrow> (int \<times> ('w, 'z) fstate_scheme) option" where
  "do_relIFuseConn OS iFuseConn s =
     (case iFuseConn of
        None \<Rightarrow> Some (USER_NULL_INPUT_ERR, s)
      | Some a \<Rightarrow> do {
          s \<leftarrow> mutex_lock ConnLock s;
          c \<leftarrow> connHeap s a;
          (t, s) \<leftarrow> sys (os_time OS) s;
          let s = setConn a (c\<lparr>fcActTime := t\<rparr>) s;
          s \<leftarrow> (if fcConn c = None then freeIfUnreferenced a s
               else if fcPendingCnt c + fcInuseCnt c \<le> 0 then freeIfUnreferenced a s
               else mutex_unlock ConnLock s);
          (_, s) \<leftarrow> signalConnManager s;
          Some (0, s)
        })"

definition relIFuseConn ::
  "'w os \<Rightarrow> nat option \<Rightarrow> ('w, 'z) fstate_scheme \<Rightarrow> (int \<times> ('w, 'z) fstate_scheme) option" where
  "relIFuseConn OS iFuseConn s =
     (if iFuseConn = None then Some (USER_NULL_INPUT_ERR, s)
      else do {
        (_, s) \<leftarrow> unuseIFuseConn OS iFuseConn s;
        do_relIFuseConn OS iFuseConn s
      })"

definition freeIFuseDesc ::
  "'w os \<Rightarrow> int \<Rightarrow> ('w, 'z) fstate_scheme \<Rightarrow> (int \<times> ('w, 'z) fstate_scheme) option" where
  "freeIFuseDesc OS descInx s =
     (if descInx < 3 \<or> descInx \<ge> MAX_IFUSE_DESC then Some (SYS_FILE_DESC_OUT_OF_RANGE, s)
      else do {
        s \<leftarrow> mutex_lock DescLock s;
        let s = s\<lparr>locks := (locks s)(IFuseDescLock descInx := 0)\<rparr>;
        let tmpIFuseConn = fdConn (IFuseDesc s descInx);
        let s = setDesc descInx zeroDesc s;
        let s = s\<lparr>IFuseDescInuseCnt := IFuseDescInuseCnt s - 1\<rparr>;
        s \<leftarrow> mutex_unlock DescLock s;
        (_, s) \<leftarrow> (if tmpIFuseConn \<noteq> None then do_relIFuseConn OS tmpIFuseConn s else Some (0, s));
        Some (0, s)
      })"

text \<open>\<open>disconnectAll\<close> takes \<open>ConnLock\<close> and keeps it.\<close>

fun disconnectAll_loop ::
  "'w irods \<Rightarrow> nat list \<Rightarrow> ('w, 'z) fstate_scheme \<Rightarrow> ('w, 'z) fstate_scheme option" where
  "disconnectAll_loop API [] s = Some s"
| "disconnectAll_loop API (a # as) s = do {
     c \<leftarrow> connHeap s a;
     s \<leftarrow> (case fcConn c of
             None \<Rightarrow> Some s
           | Some h \<Rightarrow> do { (_, s) \<leftarrow> sys (rcDisconnect API h) s; Some (setConn a (c\<lparr>fcConn := None\<rparr>) s) });
     disconnectAll_loop API as s
   }"

definition disconnectAll :: "'w irods \<Rightarrow> ('w, 'z) fstate_scheme \<Rightarrow> (int \<times> ('w, 'z) fstate_scheme) option" where
  "disconnectAll API s = do {
     s \<leftarrow> mutex_lock ConnLock s;
     s \<leftarrow> disconnectAll_loop API (ConnHead s) s;
     Some (0, s)
   }"

section \<open>The connection manager\<close>

text \<open>Disconnecting and freeing one connection: its lock is released and destroyed.\<close>

definition freeConn :: "'w irods \<Rightarrow> nat \<Rightarrow> ('w, 'z) fstate_scheme \<Rightarrow> ('w, 'z) fstate_scheme option" where
  "freeConn API a s = do {
     c \<leftarrow> connHeap s a;
     s \<leftarrow> (case fcConn c of None \<Rightarrow> Some s | Some h \<Rightarrow> do { (_, s) \<leftarrow> sys (rcDisconnect API h) s; Some s });
     Some (s\<lparr>locks := (locks s)(IFuseConnLock a := 0), connHeap := (connHeap s)(a := None)\<rparr>)
   }"

text \<open>The first pass: connections free for more than two minutes go; the result is the list that
  stays and the count of free ones seen.\<close>

fun connTimeout_loop ::
  "'w irods \<Rightarrow> int \<Rightarrow> nat list \<Rightarrow> int \<Rightarrow> ('w, 'z) fstate_scheme \<Rightarrow>
   ((nat list \<times> int) \<times> ('w, 'z) fstate_scheme) option" where
  "connTimeout_loop API curTime [] freeCnt s = Some (([], freeCnt), s)"
| "connTimeout_loop API curTime (a # as) freeCnt s = do {
     c \<leftarrow> connHeap s a;
     let freeCnt = (if fcStatus c = IRODS_FREE then freeCnt + 1 else freeCnt);
     if curTime - fcActTime c > IFUSE_CONN_TIMEOUT \<and> fcStatus c = IRODS_FREE then do {
       s \<leftarrow> freeConn API a s;
       connTimeout_loop API curTime as freeCnt s
     } else do {
       ((as', freeCnt), s) \<leftarrow> connTimeout_loop API curTime as freeCnt s;
       Some ((a # as', freeCnt), s)
     }
   }"

text \<open>The second pass: free connections go from the front while there are more than five.\<close>

fun connHighWater_loop ::
  "'w irods \<Rightarrow> nat list \<Rightarrow> int \<Rightarrow> ('w, 'z) fstate_scheme \<Rightarrow> (nat list \<times> ('w, 'z) fstate_scheme) option" where
  "connHighWater_loop API [] connCnt s = Some ([], s)"
| "connHighWater_loop API (a # as) connCnt s =
     (if connCnt > HIGH_NUM_CONN then do {
        c \<leftarrow> connHeap s a;
        if fcStatus c = IRODS_FREE then do {
          s \<leftarrow> freeConn API a s;
          connHighWater_loop API as (connCnt - 1) s
        } else do {
          (as', s) \<leftarrow> connHighWater_loop API as connCnt s;
          Some (a # as', s)
        }
      } else Some (a # as, s))"

text \<open>The third part wakes waiting requests; it gives \<open>ConnLock\<close> up around every signal.\<close>

fun wakeReqs_loop :: "nat \<Rightarrow> ('w, 'z) fstate_scheme \<Rightarrow> (nat \<times> ('w, 'z) fstate_scheme) option" where
  "wakeReqs_loop 0 s = Some (0, s)"
| "wakeReqs_loop (Suc freeCnt) s =
     (case ConnReqWaitQue s of
        [] \<Rightarrow> Some (Suc freeCnt, s)
      | r # rs \<Rightarrow> do {
          let s = s\<lparr>ConnReqWaitQue := rs, wokenReqs := wokenReqs s @ [r]\<rparr>;
          s \<leftarrow> mutex_unlock ConnLock s;
          s \<leftarrow> mutex_lock ConnLock s;
          wakeReqs_loop freeCnt s
        })"

text \<open>The two passes over the list, under \<open>ConnLock\<close>: the count of free connections and the new list.\<close>

definition connManager_passes ::
  "'w irods \<Rightarrow> int \<Rightarrow> int \<Rightarrow> ('w, 'z) fstate_scheme \<Rightarrow> (int \<times> ('w, 'z) fstate_scheme) option" where
  "connManager_passes API curTime freeCnt s = do {
     ((as, freeCnt), s) \<leftarrow> connTimeout_loop API curTime (ConnHead s) freeCnt s;
     let s = s\<lparr>ConnHead := as\<rparr>;
     let connCnt = int (length as);
     let freeCnt = (if MAX_NUM_CONN - connCnt > freeCnt then MAX_NUM_CONN - connCnt else freeCnt);
     s \<leftarrow> (if connCnt > HIGH_NUM_CONN then do {
            (as, s) \<leftarrow> connHighWater_loop API as connCnt s;
            Some (s\<lparr>ConnHead := as\<rparr>)
          } else Some s);
     Some (freeCnt, s)
   }"

text \<open>One round of the manager's endless loop, from the clock to the sleep; \<open>freeCnt\<close> is carried to
  the next round.\<close>

definition connManager_round ::
  "'w os \<Rightarrow> 'w irods \<Rightarrow> int \<Rightarrow> ('w, 'z) fstate_scheme \<Rightarrow> (int \<times> ('w, 'z) fstate_scheme) option" where
  "connManager_round OS API freeCnt s = do {
     (curTime, s) \<leftarrow> sys (os_time OS) s;
     s \<leftarrow> mutex_lock ConnLock s;
     (freeCnt, s) \<leftarrow> connManager_passes API curTime freeCnt s;
     (left, s) \<leftarrow> wakeReqs_loop (nat freeCnt) s;
     s \<leftarrow> mutex_unlock ConnLock s;
     Some (if freeCnt > 0 then int left else freeCnt, s)
   }"

section \<open>Scans of the descriptor table\<close>

definition inuse :: "('w, 'z) fstate_scheme \<Rightarrow> int \<Rightarrow> bool" where
  "inuse s i \<longleftrightarrow> 3 \<le> i \<and> i < MAX_IFUSE_DESC \<and> fdInuseFlag (IFuseDesc s i) = IRODS_INUSE"

definition cnt_ok :: "('w, 'z) fstate_scheme \<Rightarrow> bool" where
  "cnt_ok s \<longleftrightarrow> IFuseDescInuseCnt s = int (card {i. inuse s i})"

lemma finite_inuse [simp]: "finite {i. inuse s i \<and> P i}" "finite {i. inuse s i}"
  by (rule finite_subset [of _ "{3..<512}"]; auto simp: inuse_def)+

lemma inuse_below_Suc:
  "int (card {j. inuse s j \<and> j < i + 1}) = int (card {j. inuse s j \<and> j < i}) + (if inuse s i then 1 else 0)"
proof -
  have "{j. inuse s j \<and> j < i + 1} =
      (if inuse s i then insert i {j. inuse s j \<and> j < i} else {j. inuse s j \<and> j < i})"
    by (auto simp: order.strict_iff_order)
  then show ?thesis by simp
qed

lemma all_ge_step: "(\<forall>j. i \<le> (j :: int) \<longrightarrow> Q j) \<longleftrightarrow> Q i \<and> (\<forall>j. i + 1 \<le> j \<longrightarrow> Q j)"
  by (metis add1_zle_eq order.order_iff_strict order_refl)

text \<open>An early exit misses nothing: all descriptors in use are below the current index.\<close>

lemma scan_exit:
  assumes "cnt_ok s" "int (card {j. inuse s j \<and> j < i}) \<ge> IFuseDescInuseCnt s" "inuse s j"
  shows "j < i"
proof -
  have "{j. inuse s j \<and> j < i} = {j. inuse s j}"
    by (rule card_seteq) (use assms in \<open>auto simp: cnt_ok_def\<close>)
  with assms(3) show ?thesis by blast
qed

lemma scanDesc_spec:
  assumes "cnt_ok s" "cnt = int (card {j. inuse s j \<and> j < i})" "i + int n = MAX_IFUSE_DESC" "3 \<le> i"
  shows "case scanDesc P n i cnt s of
      None \<Rightarrow> \<forall>j. i \<le> j \<longrightarrow> inuse s j \<longrightarrow> \<not> P (IFuseDesc s j)
    | Some j \<Rightarrow> i \<le> j \<and> inuse s j \<and> P (IFuseDesc s j)"
  using assms
proof (induction n arbitrary: i cnt)
  case 0
  then show ?case by (auto simp: inuse_def)
next
  case (Suc n)
  show ?case
  proof (cases "cnt \<ge> IFuseDescInuseCnt s")
    case True
    with Suc.prems scan_exit [of s i] show ?thesis by force
  next
    case False
    have in_i: "inuse s i \<longleftrightarrow> fdInuseFlag (IFuseDesc s i) = 1" using Suc.prems by (auto simp: inuse_def)
    have next_cnt: "int (card {j. inuse s j \<and> j < i + 1}) = (if inuse s i then cnt + 1 else cnt)"
      using Suc.prems(2) by (simp only: inuse_below_Suc) simp
    show ?thesis
    proof (cases "inuse s i \<and> P (IFuseDesc s i)")
      case True
      with False in_i show ?thesis by simp
    next
      case not_i: False
      note IH = Suc.IH [OF Suc.prems(1), of "if inuse s i then cnt + 1 else cnt" "i + 1"]
      have step: "scanDesc P (Suc n) i cnt s = scanDesc P n (i + 1) (if inuse s i then cnt + 1 else cnt) s"
        using False not_i in_i by simp
      have "case scanDesc P n (i + 1) (if inuse s i then cnt + 1 else cnt) s of
          None \<Rightarrow> \<forall>j. i + 1 \<le> j \<longrightarrow> inuse s j \<longrightarrow> \<not> P (IFuseDesc s j)
        | Some j \<Rightarrow> i + 1 \<le> j \<and> inuse s j \<and> P (IFuseDesc s j)"
        by (rule IH) (use next_cnt Suc.prems(3,4) in simp_all)
      then show ?thesis
        unfolding step all_ge_step [of i] using not_i
        by (cases "scanDesc P n (i + 1) (if inuse s i then cnt + 1 else cnt) s") auto
    qed
  qed
qed

lemma scanDesc_full:
  assumes "cnt_ok s"
  shows "scanDesc P 509 3 0 s \<noteq> None \<longleftrightarrow> (\<exists>j. inuse s j \<and> P (IFuseDesc s j))"
proof -
  have "{j. inuse s j \<and> j < 3} = {}" by (auto simp: inuse_def)
  then have "case scanDesc P 509 3 0 s of
      None \<Rightarrow> \<forall>j. 3 \<le> j \<longrightarrow> inuse s j \<longrightarrow> \<not> P (IFuseDesc s j)
    | Some j \<Rightarrow> 3 \<le> j \<and> inuse s j \<and> P (IFuseDesc s j)"
    using scanDesc_spec [OF assms, of 0 3 509 P] by simp
  then show ?thesis by (auto simp: inuse_def split: option.splits)
qed

lemma scanDescPath_spec:
  assumes "cnt_ok s" "cnt = int (card {j. inuse s j \<and> j < i})" "i + int n = MAX_IFUSE_DESC" "3 \<le> i"
      and refs: "\<And>j a. inuse s j \<Longrightarrow> fdConn (IFuseDesc s j) = Some a \<Longrightarrow>
            (\<exists>c. connHeap s a = Some c) \<and> fdLocalPath (IFuseDesc s j) \<noteq> None"
  shows "case scanDescPath p n i cnt s of
      None \<Rightarrow> False
    | Some None \<Rightarrow> \<forall>j. i \<le> j \<longrightarrow> (\<forall>a c. inuse s j \<longrightarrow> fdConn (IFuseDesc s j) = Some a \<longrightarrow>
        connHeap s a = Some c \<longrightarrow> fcConn c \<noteq> None \<longrightarrow> fdLocalPath (IFuseDesc s j) \<noteq> Some p)
    | Some (Some a) \<Rightarrow> \<exists>j c. inuse s j \<and> fdConn (IFuseDesc s j) = Some a \<and>
        connHeap s a = Some c \<and> fcConn c \<noteq> None \<and> fdLocalPath (IFuseDesc s j) = Some p"
  using assms(1-4)
proof (induction n arbitrary: i cnt)
  case 0
  then show ?case by (auto simp: inuse_def)
next
  case (Suc n)
  show ?case
  proof (cases "cnt \<ge> IFuseDescInuseCnt s")
    case True
    with Suc.prems scan_exit [of s i] show ?thesis by force
  next
    case False
    let ?d = "IFuseDesc s i"
    let ?hit = "\<exists>a c. fdConn ?d = Some a \<and> connHeap s a = Some c \<and> fcConn c \<noteq> None \<and> fdLocalPath ?d = Some p"
    have in_i: "inuse s i \<longleftrightarrow> fdInuseFlag ?d = 1" using Suc.prems by (auto simp: inuse_def)
    have next_cnt: "int (card {j. inuse s j \<and> j < i + 1}) = (if inuse s i then cnt + 1 else cnt)"
      using Suc.prems(2) by (simp only: inuse_below_Suc) simp
    show ?thesis
    proof (cases "inuse s i \<and> ?hit")
      case True
      with False in_i have "\<exists>a. scanDescPath p (Suc n) i cnt s = Some (Some a) \<and> fdConn ?d = Some a" by auto
      with True show ?thesis by auto
    next
      case not_i: False
      note IH = Suc.IH [OF Suc.prems(1), of "if inuse s i then cnt + 1 else cnt" "i + 1"]
      have step: "scanDescPath p (Suc n) i cnt s = scanDescPath p n (i + 1) (if inuse s i then cnt + 1 else cnt) s"
        using False not_i in_i refs [of i] by (auto split: option.splits)
      have "case scanDescPath p n (i + 1) (if inuse s i then cnt + 1 else cnt) s of
          None \<Rightarrow> False
        | Some None \<Rightarrow> \<forall>j. i + 1 \<le> j \<longrightarrow> (\<forall>a c. inuse s j \<longrightarrow> fdConn (IFuseDesc s j) = Some a \<longrightarrow>
            connHeap s a = Some c \<longrightarrow> fcConn c \<noteq> None \<longrightarrow> fdLocalPath (IFuseDesc s j) \<noteq> Some p)
        | Some (Some a) \<Rightarrow> \<exists>j c. inuse s j \<and> fdConn (IFuseDesc s j) = Some a \<and>
            connHeap s a = Some c \<and> fcConn c \<noteq> None \<and> fdLocalPath (IFuseDesc s j) = Some p"
        using IH next_cnt Suc.prems(3,4) by (simp cong: option.case_cong)
      then show ?thesis
        unfolding step all_ge_step [of i] using not_i
        by (cases "scanDescPath p n (i + 1) (if inuse s i then cnt + 1 else cnt) s")
          (auto split: option.splits)
    qed
  qed
qed

lemma allocDesc_loop_spec:
  "i + int n = MAX_IFUSE_DESC \<Longrightarrow> 3 \<le> i \<Longrightarrow>
   case allocDesc_loop n i s of
      None \<Rightarrow> \<forall>j. i \<le> j \<and> j < MAX_IFUSE_DESC \<longrightarrow> fdInuseFlag (IFuseDesc s j) > 0
    | Some j \<Rightarrow> i \<le> j \<and> j < MAX_IFUSE_DESC \<and> fdInuseFlag (IFuseDesc s j) \<le> 0 \<and>
        (\<forall>k. i \<le> k \<and> k < j \<longrightarrow> fdInuseFlag (IFuseDesc s k) > 0)"
proof (induction n arbitrary: i)
  case (Suc n)
  have "i \<le> j \<and> j \<noteq> i \<Longrightarrow> i + 1 \<le> j" for j by simp
  with Suc.IH [of "i + 1"] Suc.prems show ?case
    by (auto split: option.splits) (smt (verit))+
qed simp

section \<open>The invariant\<close>

text \<open>\<open>H\<close> is the set of connections the running handler holds. A connection with a live handle is
  locked and counted exactly when it is held; a held connection is marked in use. (A connection
  whose reconnection failed keeps its lock until the manager frees it: nobody can lock it again,
  because every user tests the handle first.)\<close>

definition conn_inv ::
  "nat set \<Rightarrow> (lockid \<Rightarrow> nat) \<Rightarrow> (nat \<Rightarrow> iFuseConn option) \<Rightarrow> nat \<Rightarrow> nat list \<Rightarrow> bool" where
  "conn_inv H lk hp fr cl \<longleftrightarrow> distinct cl \<and> (\<forall>a \<in> set cl. hp a \<noteq> None) \<and> H \<subseteq> set cl \<and> length cl \<le> 10 \<and>
     (\<forall>a c. hp a = Some c \<longrightarrow> a < fr \<and> fcPendingCnt c = 0 \<and> (fcStatus c = 0 \<or> fcStatus c = 1) \<and>
        (fcConn c \<noteq> None \<longrightarrow> lk (IFuseConnLock a) = (if a \<in> H then 1 else 0) \<and>
           fcInuseCnt c = (if a \<in> H then 1 else 0)) \<and>
        (a \<in> H \<longrightarrow> fcStatus c = 1))"

text \<open>The count of the descriptors in use is right, free descriptors are clear, and the connection of
  a descriptor in use is in the pool and marked in use.\<close>

definition desc_inv ::
  "(int \<Rightarrow> iFuseDesc) \<Rightarrow> int \<Rightarrow> (nat \<Rightarrow> iFuseConn option) \<Rightarrow> nat list \<Rightarrow> bool" where
  "desc_inv D n hp cl \<longleftrightarrow>
     n = int (card {i. 3 \<le> i \<and> i < MAX_IFUSE_DESC \<and> fdInuseFlag (D i) = IRODS_INUSE}) \<and>
     (\<forall>i. 3 \<le> i \<and> i < MAX_IFUSE_DESC \<longrightarrow> fdInuseFlag (D i) = 1 \<or> D i = zeroDesc) \<and>
     (\<forall>i a. 3 \<le> i \<and> i < MAX_IFUSE_DESC \<and> fdConn (D i) = Some a \<longrightarrow>
        a \<in> set cl \<and> (\<exists>c. hp a = Some c \<and> fcStatus c = 1) \<and> fdLocalPath (D i) \<noteq> None)"

definition fs_inv :: "nat set \<Rightarrow> ('w, 'z) fstate_scheme \<Rightarrow> bool" where
  "fs_inv H s \<longleftrightarrow> pc_inv s \<and> conn_inv H (locks s) (connHeap s) (connFresh s) (ConnHead s) \<and>
     desc_inv (IFuseDesc s) (IFuseDescInuseCnt s) (connHeap s) (ConnHead s) \<and>
     locks s PathCacheLock = 0 \<and> locks s DescLock = 0 \<and> locks s ConnLock = 0"

lemma pc_inv_upd [simp]:
  "pc_inv (s\<lparr>world := w\<rparr>) = pc_inv s" "pc_inv (s\<lparr>locks := l\<rparr>) = pc_inv s"
  "pc_inv (t\<lparr>IFuseDesc := x1\<rparr>) = pc_inv t" "pc_inv (t\<lparr>IFuseDescInuseCnt := x2\<rparr>) = pc_inv t"
  "pc_inv (t\<lparr>connHeap := x3\<rparr>) = pc_inv t" "pc_inv (t\<lparr>connFresh := x4\<rparr>) = pc_inv t"
  "pc_inv (t\<lparr>ConnHead := x5\<rparr>) = pc_inv t" "pc_inv (t\<lparr>ConnManagerStarted := x6\<rparr>) = pc_inv t"
  "pc_inv (t\<lparr>connManagerRunning := x7\<rparr>) = pc_inv t" "pc_inv (t\<lparr>ConnReqWaitQue := x8\<rparr>) = pc_inv t"
  "pc_inv (t\<lparr>wokenReqs := x9\<rparr>) = pc_inv t"
  by (simp_all add: pc_inv_def pc_sim_def pc_rep_def)

text \<open>What an operation on connections may change: the world, the pool, and no lock but those of
  connections.\<close>

definition conn_frame :: "('w, 'z) fstate_scheme \<Rightarrow> ('w, 'z) fstate_scheme \<Rightarrow> bool" where
  "conn_frame s s' \<longleftrightarrow>
     s'\<lparr>world := world s, locks := locks s, connHeap := connHeap s, connFresh := connFresh s,
        ConnHead := ConnHead s, ConnManagerStarted := ConnManagerStarted s,
        connManagerRunning := connManagerRunning s\<rparr> = s \<and>
     (\<forall>l. (\<forall>a. l \<noteq> IFuseConnLock a) \<longrightarrow> locks s' l = locks s l)"

lemma conn_frame_refl [simp]: "conn_frame s s"
  by (simp add: conn_frame_def)

lemma conn_frame_upd [simp]:
  "conn_frame s (t\<lparr>world := w\<rparr>) = conn_frame s t"
  "conn_frame s (t\<lparr>connHeap := h\<rparr>) = conn_frame s t"
  "conn_frame s (t\<lparr>connFresh := f\<rparr>) = conn_frame s t"
  "conn_frame s (t\<lparr>ConnHead := cl\<rparr>) = conn_frame s t"
  "conn_frame s (t\<lparr>ConnManagerStarted := m\<rparr>) = conn_frame s t"
  "conn_frame s (t\<lparr>connManagerRunning := r\<rparr>) = conn_frame s t"
  by (simp_all add: conn_frame_def)

lemma conn_frame_locks:
  "conn_frame s t \<Longrightarrow> (\<And>l. (\<forall>a. l \<noteq> IFuseConnLock a) \<Longrightarrow> lk l = locks t l) \<Longrightarrow> conn_frame s (t\<lparr>locks := lk\<rparr>)"
  by (simp add: conn_frame_def)

lemma conn_frame_trans [trans]: "conn_frame s t \<Longrightarrow> conn_frame t u \<Longrightarrow> conn_frame s u"
  unfolding conn_frame_def
  by (elim conjE, drule arg_cong [where f = "\<lambda>x. x\<lparr>world := world s, locks := locks s,
        connHeap := connHeap s, connFresh := connFresh s, ConnHead := ConnHead s,
        ConnManagerStarted := ConnManagerStarted s, connManagerRunning := connManagerRunning s\<rparr>"
      and x = "u\<lparr>world := world t, locks := locks t, connHeap := connHeap t, connFresh := connFresh t,
        ConnHead := ConnHead t, ConnManagerStarted := ConnManagerStarted t,
        connManagerRunning := connManagerRunning t\<rparr>"]) simp

lemma conn_frame_sel:
  assumes "conn_frame s s'"
  shows "IFuseDesc s' = IFuseDesc s" "IFuseDescInuseCnt s' = IFuseDescInuseCnt s"
    "pcHeap s' = pcHeap s" "pcFresh s' = pcFresh s" "pcQue s' = pcQue s" "MyRodsEnv s' = MyRodsEnv s"
    "\<And>i. locks s' (IFuseDescLock i) = locks s (IFuseDescLock i)"
    "locks s' NewlyCreatedOprLock = locks s NewlyCreatedOprLock"
proof -
  let ?u = "s'\<lparr>world := world s, locks := locks s, connHeap := connHeap s, connFresh := connFresh s,
        ConnHead := ConnHead s, ConnManagerStarted := ConnManagerStarted s,
        connManagerRunning := connManagerRunning s\<rparr>"
  have u: "?u = s" using assms by (simp add: conn_frame_def)
  show "IFuseDesc s' = IFuseDesc s" using arg_cong [OF u, of IFuseDesc] by simp
  show "IFuseDescInuseCnt s' = IFuseDescInuseCnt s" using arg_cong [OF u, of IFuseDescInuseCnt] by simp
  show "pcHeap s' = pcHeap s" using arg_cong [OF u, of pcHeap] by simp
  show "pcFresh s' = pcFresh s" using arg_cong [OF u, of pcFresh] by simp
  show "pcQue s' = pcQue s" using arg_cong [OF u, of pcQue] by simp
  show "MyRodsEnv s' = MyRodsEnv s" using arg_cong [OF u, of MyRodsEnv] by simp
qed (use assms in \<open>simp_all add: conn_frame_def\<close>)

lemma conn_invD:
  assumes "conn_inv H lk hp fr cl" "hp a = Some c"
  shows "a < fr" "fcPendingCnt c = 0" "fcStatus c = 0 \<or> fcStatus c = 1"
    "fcConn c \<noteq> None \<Longrightarrow> lk (IFuseConnLock a) = (if a \<in> H then 1 else 0)"
    "fcConn c \<noteq> None \<Longrightarrow> fcInuseCnt c = (if a \<in> H then 1 else 0)"
    "a \<in> H \<Longrightarrow> fcStatus c = 1"
  using assms unfolding conn_inv_def by auto

text \<open>One connection changes.\<close>

lemma conn_inv_upd:
  assumes "conn_inv H lk hp fr cl" "hp a = Some c"
      and "fcPendingCnt c' = 0" "fcStatus c' = 0 \<or> fcStatus c' = 1"
      and "fcConn c' \<noteq> None \<longrightarrow> lk' (IFuseConnLock a) = (if a \<in> H' then 1 else 0) \<and>
             fcInuseCnt c' = (if a \<in> H' then 1 else 0)"
      and "a \<in> H' \<longrightarrow> fcStatus c' = 1 \<and> a \<in> set cl"
      and "\<And>b. b \<noteq> a \<Longrightarrow> (b \<in> H' \<longleftrightarrow> b \<in> H) \<and> lk' (IFuseConnLock b) = lk (IFuseConnLock b)"
  shows "conn_inv H' lk' (hp(a \<mapsto> c')) fr cl"
proof -
  have "b < fr \<and> fcPendingCnt d = 0 \<and> (fcStatus d = 0 \<or> fcStatus d = 1) \<and>
      (fcConn d \<noteq> None \<longrightarrow> lk' (IFuseConnLock b) = (if b \<in> H' then 1 else 0) \<and>
         fcInuseCnt d = (if b \<in> H' then 1 else 0)) \<and> (b \<in> H' \<longrightarrow> fcStatus d = 1)"
    if "(hp(a \<mapsto> c')) b = Some d" for b d
  proof (cases "b = a")
    case True
    with that assms conn_invD(1) [OF assms(1,2)] show ?thesis by auto
  next
    case False
    with that have "hp b = Some d" by simp
    from conn_invD [OF assms(1) this] assms(7) [OF False] show ?thesis by simp
  qed
  moreover have "H' \<subseteq> set cl"
  proof
    fix b assume b: "b \<in> H'"
    have "H \<subseteq> set cl" using assms(1) by (simp add: conn_inv_def)
    with b assms(6) assms(7) [of b] show "b \<in> set cl" by (cases "b = a") auto
  qed
  moreover have "\<forall>b \<in> set cl. (hp(a \<mapsto> c')) b \<noteq> None" "distinct cl" "length cl \<le> 10"
    using assms(1) by (auto simp: conn_inv_def)
  ultimately show ?thesis unfolding conn_inv_def by simp
qed

lemma desc_inv_upd:
  assumes "desc_inv D n hp cl" "hp a = Some c"
      and "fcStatus c' = 1 \<or> (\<forall>i. 3 \<le> i \<and> i < MAX_IFUSE_DESC \<longrightarrow> fdConn (D i) \<noteq> Some a)"
  shows "desc_inv D n (hp(a \<mapsto> c')) cl"
  using assms unfolding desc_inv_def by (auto; metis)

section \<open>The operations keep the invariant\<close>

lemma wpo_prod_sys [wp_simps]:
  "wpo (sys f s) Q = Q (fst (f (world s)), s\<lparr>world := snd (f (world s))\<rparr>)"
  by (simp add: sys_def case_prod_beta)

lemmas op_simps = wp_simps mutex_lock_def setConn_def setDesc_def Let_def

text \<open>The connections and their handles are the same.\<close>

definition same_handle :: "('w, 'z) fstate_scheme \<Rightarrow> ('w, 'z) fstate_scheme \<Rightarrow> bool" where
  "same_handle s s' \<longleftrightarrow>
     (\<forall>a. map_option fcConn (connHeap s' a) = map_option fcConn (connHeap s a)) \<and> ConnHead s' = ConnHead s"

definition live :: "nat \<Rightarrow> ('w, 'z) fstate_scheme \<Rightarrow> bool" where
  "live a s \<longleftrightarrow> (\<exists>c. connHeap s a = Some c \<and> fcConn c \<noteq> None)"

definition pool_live :: "('w, 'z) fstate_scheme \<Rightarrow> bool" where
  "pool_live s \<longleftrightarrow> (\<forall>a \<in> set (ConnHead s). live a s)"

lemma live_same [dest]: "live a s \<Longrightarrow> same_handle s s' \<Longrightarrow> live a s'"
  unfolding live_def same_handle_def by (metis map_option_eq_Some)

lemma pool_live_same [dest]: "pool_live s \<Longrightarrow> same_handle s s' \<Longrightarrow> pool_live s'"
  unfolding pool_live_def by (metis live_same same_handle_def)

lemma do_useIFuseConn_ok:
  assumes "fs_inv H s" "connHeap s a = Some c" "a \<in> set (ConnHead s)" "a \<notin> H" "fcConn c \<noteq> None"
  shows "wpo (do_useIFuseConn OS (Some a) (s\<lparr>locks := (locks s)(ConnLock := Suc 0)\<rparr>))
     (\<lambda>(r, s'). r = 0 \<and> fs_inv (insert a H) s' \<and> conn_frame s s' \<and> same_handle s s')"
proof -
  have inv: "conn_inv H (locks s) (connHeap s) (connFresh s) (ConnHead s)"
    "desc_inv (IFuseDesc s) (IFuseDescInuseCnt s) (connHeap s) (ConnHead s)"
    using assms(1) by (simp_all add: fs_inv_def)
  note c = conn_invD [OF inv(1) assms(2)]
  have l: "locks s (IFuseConnLock a) = 0" "locks s ConnLock = 0" "fcInuseCnt c = 0"
    using c(4,5) assms by (auto simp: fs_inv_def)
  show ?thesis
    using assms l c(2)
    by (auto simp: do_useIFuseConn_def op_simps fs_inv_def same_handle_def
      intro!: conn_inv_upd [OF inv(1) assms(2)] desc_inv_upd [OF inv(2) assms(2)] conn_frame_locks)
qed

lemma useIFuseConn_ok:
  assumes "fs_inv H s" "connHeap s a = Some c" "a \<in> set (ConnHead s)" "a \<notin> H" "fcConn c \<noteq> None"
  shows "wpo (useIFuseConn OS (Some a) s)
     (\<lambda>(r, s'). r = 0 \<and> fs_inv (insert a H) s' \<and> conn_frame s s' \<and> same_handle s s')"
  using do_useIFuseConn_ok [OF assms, of OS] assms
  by (simp add: useIFuseConn_def op_simps fs_inv_def)

lemma unuseIFuseConn_ok:
  assumes "fs_inv H s" "connHeap s a = Some c" "a \<in> H"
  shows "wpo (unuseIFuseConn OS (Some a) s)
     (\<lambda>(r, s'). fs_inv (H - {a}) s' \<and> conn_frame s s' \<and> same_handle s s' \<and>
        (\<exists>c'. connHeap s' a = Some c' \<and> fcStatus c' = 1))"
proof -
  have inv: "conn_inv H (locks s) (connHeap s) (connFresh s) (ConnHead s)"
    "desc_inv (IFuseDesc s) (IFuseDescInuseCnt s) (connHeap s) (ConnHead s)"
    using assms(1) by (simp_all add: fs_inv_def)
  note c = conn_invD [OF inv(1) assms(2)]
  have st: "fcStatus c = 1" "locks s ConnLock = 0" using c(6) assms by (auto simp: fs_inv_def)
  show ?thesis
  proof (cases "fcConn c")
    case None
    have "conn_inv (H - {a}) (locks s) ((connHeap s)(a \<mapsto> c)) (connFresh s) (ConnHead s)"
      by (rule conn_inv_upd [OF inv(1) assms(2)]) (use c st None in auto)
    moreover have "(connHeap s)(a \<mapsto> c) = connHeap s" using assms(2) by auto
    ultimately show ?thesis
      using assms None st by (auto simp: unuseIFuseConn_def fs_inv_def same_handle_def)
  next
    case (Some h)
    then show ?thesis
      using assms st c(2,5)
      by (auto simp: unuseIFuseConn_def op_simps fs_inv_def same_handle_def
        intro!: conn_inv_upd [OF inv(1) assms(2)] desc_inv_upd [OF inv(2) assms(2)] conn_frame_locks)
  qed
qed

lemma cnt_ok_fs: "fs_inv H s \<Longrightarrow> cnt_ok (s\<lparr>locks := l\<rparr>)"
  by (simp add: fs_inv_def desc_inv_def cnt_ok_def inuse_def)

text \<open>The scan that stops early answers for the whole table.\<close>

lemma iFuseConnInuse_eq:
  assumes "cnt_ok s" "locks s DescLock = 0"
  shows "wpo (iFuseConnInuse (Some a) s)
     (\<lambda>(r, s'). s' = s \<and> r = (if \<exists>j. inuse s j \<and> fdConn (IFuseDesc s j) = Some a then 1 else 0))"
proof -
  let ?s = "s\<lparr>locks := (locks s)(DescLock := Suc 0)\<rparr>"
  have "cnt_ok ?s" "inuse ?s = inuse s" using assms(1) by (simp_all add: cnt_ok_def inuse_def fun_eq_iff)
  then have "scanDesc (\<lambda>d. fdConn d \<noteq> None \<and> fdConn d = Some a) 509 3 0 ?s = None \<longleftrightarrow>
      \<not> (\<exists>j. inuse s j \<and> fdConn (IFuseDesc s j) = Some a)"
    using scanDesc_full [of ?s "\<lambda>d. fdConn d \<noteq> None \<and> fdConn d = Some a"] by auto
  moreover have "(locks s)(DescLock := Suc 0, DescLock := 0) = locks s" using assms(2) by auto
  ultimately show ?thesis
    using assms(2) by (simp add: iFuseConnInuse_def op_simps fun_upd_idem)
qed

lemma inuse_fdConn:
  "fs_inv H s \<Longrightarrow> 3 \<le> i \<Longrightarrow> i < MAX_IFUSE_DESC \<Longrightarrow> fdConn (IFuseDesc s i) = Some a \<Longrightarrow> inuse s i"
  by (auto simp: fs_inv_def desc_inv_def inuse_def zeroDesc_def)

lemma freeIfUnreferenced_ok:
  assumes "fs_inv H s" "connHeap s a = Some c" "a \<notin> H"
  shows "wpo (freeIfUnreferenced a (s\<lparr>locks := (locks s)(ConnLock := Suc 0)\<rparr>))
     (\<lambda>s'. fs_inv H s' \<and> conn_frame s s' \<and> same_handle s s')"
proof -
  have inv: "conn_inv H (locks s) (connHeap s) (connFresh s) (ConnHead s)"
    "desc_inv (IFuseDesc s) (IFuseDescInuseCnt s) (connHeap s) (ConnHead s)"
    and l: "locks s ConnLock = 0" "locks s DescLock = 0"
    using assms(1) by (simp_all add: fs_inv_def)
  note c = conn_invD [OF inv(1) assms(2)]
  have id: "(locks s)(ConnLock := Suc 0, ConnLock := 0) = locks s" using l by auto
  have "cnt_ok s" using cnt_ok_fs [OF assms(1), of "locks s"] by simp
  note use = iFuseConnInuse_eq [OF this l(2), of a]
  have ref: "\<forall>i. 3 \<le> i \<and> i < MAX_IFUSE_DESC \<longrightarrow> fdConn (IFuseDesc s i) \<noteq> Some a"
    if "\<not> (\<exists>j. inuse s j \<and> fdConn (IFuseDesc s j) = Some a)"
    using that inuse_fdConn [OF assms(1)] by blast
  show ?thesis
    unfolding freeIfUnreferenced_def
    using assms l c id ref
    by (auto simp: op_simps fun_upd_idem fs_inv_def same_handle_def
      intro!: wpo_mono [OF use] conn_inv_upd [OF inv(1) assms(2)] desc_inv_upd [OF inv(2) assms(2)]
        conn_frame_locks)
qed

lemma fs_inv_conn_upd:
  assumes "fs_inv H s" "connHeap s a = Some c"
      and "fcPendingCnt c' = 0" "fcStatus c' = 0 \<or> fcStatus c' = 1"
      and "fcConn c' \<noteq> None \<longrightarrow> locks s (IFuseConnLock a) = (if a \<in> H then 1 else 0) \<and>
             fcInuseCnt c' = (if a \<in> H then 1 else 0)"
      and "a \<in> H \<longrightarrow> fcStatus c' = 1"
      and "fcStatus c' = 1 \<or> (\<forall>i. 3 \<le> i \<and> i < MAX_IFUSE_DESC \<longrightarrow> fdConn (IFuseDesc s i) \<noteq> Some a)"
  shows "fs_inv H (s\<lparr>world := w, connHeap := (connHeap s)(a \<mapsto> c')\<rparr>)"
proof -
  have inv: "conn_inv H (locks s) (connHeap s) (connFresh s) (ConnHead s)"
    "desc_inv (IFuseDesc s) (IFuseDescInuseCnt s) (connHeap s) (ConnHead s)"
    using assms(1) by (simp_all add: fs_inv_def)
  have "a \<in> H \<longrightarrow> a \<in> set (ConnHead s)" using inv(1) by (auto simp: conn_inv_def)
  then have "conn_inv H (locks s) ((connHeap s)(a \<mapsto> c')) (connFresh s) (ConnHead s)"
    by (intro conn_inv_upd [OF inv(1) assms(2)]) (use assms in auto)
  with desc_inv_upd [OF inv(2) assms(2,7)] assms(1) show ?thesis by (simp add: fs_inv_def)
qed

lemma desc_invD:
  assumes "desc_inv D n hp cl" "3 \<le> i" "i < MAX_IFUSE_DESC"
  shows "fdInuseFlag (D i) = 1 \<or> D i = zeroDesc"
    "fdConn (D i) = Some a \<Longrightarrow> a \<in> set cl" "fdConn (D i) = Some a \<Longrightarrow> \<exists>c. hp a = Some c \<and> fcStatus c = 1"
    "fdConn (D i) = Some a \<Longrightarrow> fdLocalPath (D i) \<noteq> None"
  using assms unfolding desc_inv_def by blast+

lemma fs_inv_status:
  "fs_inv H s \<Longrightarrow> connHeap s a = Some c \<Longrightarrow>
   fcStatus c = 1 \<or> (\<forall>i. 3 \<le> i \<and> i < MAX_IFUSE_DESC \<longrightarrow> fdConn (IFuseDesc s i) \<noteq> Some a)"
  by (auto simp: fs_inv_def desc_inv_def) (metis option.inject)

lemma same_handle_trans: "same_handle s t \<Longrightarrow> same_handle t u \<Longrightarrow> same_handle s u"
  by (simp add: same_handle_def)

lemma signalConnManager_eq: "locks s ConnLock = 0 \<Longrightarrow> signalConnManager s = Some (0, s)"
proof -
  assume "locks s ConnLock = 0"
  then have "(locks s)(ConnLock := Suc 0, ConnLock := 0) = locks s" by auto
  with \<open>locks s ConnLock = 0\<close> show ?thesis
    by (simp add: signalConnManager_def mutex_lock_def mutex_unlock_def fun_upd_idem)
qed

lemma do_relIFuseConn_ok:
  assumes "fs_inv H s" "connHeap s a = Some c" "a \<notin> H"
  shows "wpo (do_relIFuseConn OS (Some a) s)
     (\<lambda>(r, s'). r = 0 \<and> fs_inv H s' \<and> conn_frame s s' \<and> same_handle s s')"
proof -
  have inv: "conn_inv H (locks s) (connHeap s) (connFresh s) (ConnHead s)"
    and l: "locks s ConnLock = 0"
    using assms(1) by (simp_all add: fs_inv_def)
  note c = conn_invD [OF inv assms(2)]
  obtain t w where t: "os_time OS (world s) = (t, w)" by fastforce
  let ?s = "s\<lparr>world := w, connHeap := (connHeap s)(a \<mapsto> c\<lparr>fcActTime := t\<rparr>)\<rparr>"
  have inv': "fs_inv H ?s"
    by (rule fs_inv_conn_upd [OF assms(1,2)]) (use c assms fs_inv_status [OF assms(1,2)] in auto)
  have "connHeap ?s a = Some (c\<lparr>fcActTime := t\<rparr>)" by simp
  note free = freeIfUnreferenced_ok [OF inv' this assms(3)]
  have f: "conn_frame s ?s" "same_handle s ?s" using assms(2) by (simp_all add: same_handle_def)
  have cnt: "fcPendingCnt c + fcInuseCnt c \<le> 0" if "fcConn c \<noteq> None" using c(2,5) that assms(3) by simp
  have order: "s\<lparr>locks := lk, world := w, connHeap := h\<rparr> = s\<lparr>world := w, connHeap := h, locks := lk\<rparr>" for lk h
    by (cases s) simp
  have sig: "signalConnManager s' = Some (0, s')" if "fs_inv H s'" for s' :: "('a, 'b) fstate_scheme"
    using that signalConnManager_eq by (auto simp: fs_inv_def)
  have "wpo (freeIfUnreferenced a (s\<lparr>locks := (locks s)(ConnLock := Suc 0), world := w,
         connHeap := (connHeap s)(a \<mapsto> c\<lparr>fcActTime := t\<rparr>)\<rparr>))
      (\<lambda>s'. fs_inv H s' \<and> conn_frame ?s s' \<and> same_handle ?s s')"
    using free by (simp add: order)
  then have "wpo (freeIfUnreferenced a (s\<lparr>locks := (locks s)(ConnLock := Suc 0), world := w,
         connHeap := (connHeap s)(a \<mapsto> c\<lparr>fcActTime := t\<rparr>)\<rparr>))
      (\<lambda>s'. wpo (signalConnManager s' \<bind> (\<lambda>(_, s). Some (0, s)))
        (\<lambda>(r, s'). r = 0 \<and> fs_inv H s' \<and> conn_frame s s' \<and> same_handle s s'))"
    by (rule wpo_mono) (use f(2) in \<open>auto simp: sig intro: conn_frame_trans [OF f(1)] same_handle_trans\<close>)
  then show ?thesis
    using assms(2) l t cnt by (cases "fcConn c") (simp_all add: do_relIFuseConn_def op_simps)
qed

lemma relIFuseConn_ok:
  assumes "fs_inv H s" "connHeap s a = Some c" "a \<in> H"
  shows "wpo (relIFuseConn OS (Some a) s)
     (\<lambda>(r, s'). r = 0 \<and> fs_inv (H - {a}) s' \<and> conn_frame s s' \<and> same_handle s s')"
  unfolding relIFuseConn_def
  by (auto simp: op_simps intro!: wpo_mono [OF unuseIFuseConn_ok [OF assms]]
      wpo_mono [OF do_relIFuseConn_ok] intro: conn_frame_trans same_handle_trans)

lemma relIFuseConn_None [simp]: "relIFuseConn OS None s = Some (USER_NULL_INPUT_ERR, s)"
  by (simp add: relIFuseConn_def)

text \<open>Reconnecting keeps the connection held, whether or not it gets a new handle.\<close>

definition server_up :: "'w irods \<Rightarrow> bool" where
  "server_up API \<longleftrightarrow> (\<forall>w. fst (fst (rcConnect API w)) \<noteq> None) \<and> (\<forall>h w. fst (clientLogin API h w) = 0)"

lemma server_upD [dest]:
  "server_up API \<Longrightarrow> rcConnect API w = ((None, e), w') \<Longrightarrow> False"
  "server_up API \<Longrightarrow> clientLogin API h w = (r, w') \<Longrightarrow> r = 0"
  unfolding server_up_def by (metis fst_conv)+

lemma ifuseConnect_ok:
  assumes "connHeap s a = Some c"
  shows "wpo (ifuseConnect API a s) (\<lambda>(r, s'). \<exists>w h. s' = s\<lparr>world := w, connHeap := (connHeap s)(a \<mapsto> c\<lparr>fcConn := h\<rparr>)\<rparr> \<and>
     (r = 0 \<longleftrightarrow> h \<noteq> None) \<and> (server_up API \<longrightarrow> r = 0))"
  using assms
  by (auto simp: ifuseConnect_def sys_def setConn_def split: option.splits prod.splits dest: server_upD)

lemma ifuseReconnect_ok:
  assumes "fs_inv H s" "connHeap s a = Some c" "a \<in> H"
  shows "wpo (ifuseReconnect API (Some a) s) (\<lambda>(r, s'). fs_inv H s' \<and> conn_frame s s' \<and> ConnHead s' = ConnHead s \<and>
     connHeap s' a \<noteq> None \<and> (\<forall>b. b \<noteq> a \<longrightarrow> connHeap s' b = connHeap s b) \<and> (server_up API \<longrightarrow> live a s \<longrightarrow> live a s'))"
proof (cases "fcConn c")
  case None
  with assms show ?thesis by (auto simp: ifuseReconnect_def live_def)
next
  case (Some h)
  have inv: "conn_inv H (locks s) (connHeap s) (connFresh s) (ConnHead s)"
    using assms(1) by (simp add: fs_inv_def)
  note c = conn_invD [OF inv assms(2)]
  have "fs_inv H (s\<lparr>world := w, connHeap := (connHeap s)(a \<mapsto> c\<lparr>fcConn := h'\<rparr>)\<rparr>)" for w h'
    by (rule fs_inv_conn_upd [OF assms(1,2)]) (use c assms(3) Some in auto)
  then show ?thesis
    using assms(2) Some
    by (auto simp: ifuseReconnect_def op_simps live_def intro!: wpo_mono [OF ifuseConnect_ok])
qed

text \<open>A descriptor is given out clear; freeing it releases its connection.\<close>

lemma card_inuse_insert:
  assumes "3 \<le> i" "i < MAX_IFUSE_DESC" "fdInuseFlag (D i) \<noteq> 1" "fdInuseFlag d = 1"
  shows "int (card {j. 3 \<le> j \<and> j < MAX_IFUSE_DESC \<and> fdInuseFlag ((D(i := d)) j) = 1}) =
     int (card {j. 3 \<le> j \<and> j < MAX_IFUSE_DESC \<and> fdInuseFlag (D j) = 1}) + 1"
proof -
  have "{j. 3 \<le> j \<and> j < MAX_IFUSE_DESC \<and> fdInuseFlag ((D(i := d)) j) = 1} =
      insert i {j. 3 \<le> j \<and> j < MAX_IFUSE_DESC \<and> fdInuseFlag (D j) = 1}" using assms by auto
  moreover have "finite {j. 3 \<le> j \<and> j < MAX_IFUSE_DESC \<and> fdInuseFlag (D j) = 1}"
    by (rule finite_subset [of _ "{3..<512}"]) auto
  ultimately show ?thesis using assms by simp
qed

lemma card_inuse_remove:
  assumes "3 \<le> i" "i < MAX_IFUSE_DESC" "fdInuseFlag (D i) = 1" "fdInuseFlag d \<noteq> 1"
  shows "int (card {j. 3 \<le> j \<and> j < MAX_IFUSE_DESC \<and> fdInuseFlag ((D(i := d)) j) = 1}) =
     int (card {j. 3 \<le> j \<and> j < MAX_IFUSE_DESC \<and> fdInuseFlag (D j) = 1}) - 1"
  using card_inuse_insert [OF assms(1,2), of "D(i := d)" "D i"] assms(3,4) by simp

lemma allocIFuseDesc_ok:
  assumes "fs_inv H s"
  shows "wpo (allocIFuseDesc s) (\<lambda>(r, s').
     if r < 0 then s' = s \<and> r = SYS_OUT_OF_FILE_DESC \<and> (\<forall>i. 3 \<le> i \<and> i < MAX_IFUSE_DESC \<longrightarrow> inuse s i)
     else fs_inv H s' \<and> 3 \<le> r \<and> r < MAX_IFUSE_DESC \<and> \<not> inuse s r \<and> inuse s' r \<and>
       s' = s\<lparr>locks := (locks s)(IFuseDescLock r := 0),
              IFuseDesc := (IFuseDesc s)(r := zeroDesc\<lparr>fdInuseFlag := IRODS_INUSE\<rparr>),
              IFuseDescInuseCnt := IFuseDescInuseCnt s + 1\<rparr>)"
proof -
  let ?s = "s\<lparr>locks := (locks s)(DescLock := Suc 0)\<rparr>"
  have inv: "conn_inv H (locks s) (connHeap s) (connFresh s) (ConnHead s)"
    "desc_inv (IFuseDesc s) (IFuseDescInuseCnt s) (connHeap s) (ConnHead s)"
    and l: "locks s DescLock = 0" "locks s ConnLock = 0" "locks s PathCacheLock = 0" "pc_inv s"
    using assms by (simp_all add: fs_inv_def)
  note loop = allocDesc_loop_spec [of 3 509 ?s]
  show ?thesis
  proof (cases "allocDesc_loop 509 3 ?s")
    case None
    with loop have pos: "\<forall>j. 3 \<le> j \<and> j < MAX_IFUSE_DESC \<longrightarrow> fdInuseFlag (IFuseDesc s j) > 0" by simp
    have "inuse s i" if "3 \<le> i" "i < 512" for i
    proof -
      have "fdInuseFlag (IFuseDesc s i) > 0" using pos that by blast
      with desc_invD(1) [OF inv(2) that] that show ?thesis by (auto simp: inuse_def zeroDesc_def)
    qed
    moreover have "(locks s)(DescLock := Suc 0, DescLock := 0) = locks s" using l by auto
    ultimately show ?thesis
      using None l by (simp add: allocIFuseDesc_def op_simps fun_upd_idem)
  next
    case (Some i)
    with loop have i: "3 \<le> i" "i < 512" "fdInuseFlag (IFuseDesc s i) \<le> 0" by auto
    with inv(2) have z: "IFuseDesc s i = zeroDesc" by (auto simp: desc_inv_def)
    let ?d = "zeroDesc\<lparr>fdInuseFlag := 1\<rparr>"
    have "desc_inv ((IFuseDesc s)(i := ?d)) (IFuseDescInuseCnt s + 1) (connHeap s) (ConnHead s)"
      using inv(2) card_inuse_insert [OF i(1,2), of "IFuseDesc s" ?d] z
      by (auto simp: desc_inv_def zeroDesc_def)
    moreover have "conn_inv H ((locks s)(IFuseDescLock i := 0)) (connHeap s) (connFresh s) (ConnHead s)"
      using inv(1) by (simp add: conn_inv_def)
    moreover have "(locks s)(DescLock := Suc 0, IFuseDescLock i := 0, DescLock := 0) = (locks s)(IFuseDescLock i := 0)"
      using l by auto
    ultimately show ?thesis
      using Some i z l by (simp add: allocIFuseDesc_def op_simps fs_inv_def inuse_def zeroDesc_def
        fun_upd_idem)
  qed
qed

lemma freeIFuseDesc_ok:
  assumes "fs_inv H s" "inuse s i" "\<And>a. fdConn (IFuseDesc s i) = Some a \<Longrightarrow> a \<notin> H"
  shows "wpo (freeIFuseDesc OS i s) (\<lambda>(r, s'). r = 0 \<and> fs_inv H s' \<and> IFuseDesc s' i = zeroDesc \<and>
     conn_frame (s\<lparr>locks := (locks s)(IFuseDescLock i := 0), IFuseDesc := (IFuseDesc s)(i := zeroDesc),
       IFuseDescInuseCnt := IFuseDescInuseCnt s - 1\<rparr>) s' \<and> same_handle s s')"
proof -
  have inv: "conn_inv H (locks s) (connHeap s) (connFresh s) (ConnHead s)"
    "desc_inv (IFuseDesc s) (IFuseDescInuseCnt s) (connHeap s) (ConnHead s)"
    and l: "locks s DescLock = 0" "locks s ConnLock = 0" "locks s PathCacheLock = 0" "pc_inv s"
    using assms(1) by (simp_all add: fs_inv_def)
  have i: "3 \<le> i" "i < 512" "fdInuseFlag (IFuseDesc s i) = 1" using assms(2) by (auto simp: inuse_def)
  let ?t = "s\<lparr>locks := (locks s)(IFuseDescLock i := 0), IFuseDesc := (IFuseDesc s)(i := zeroDesc),
       IFuseDescInuseCnt := IFuseDescInuseCnt s - 1\<rparr>"
  have "desc_inv ((IFuseDesc s)(i := zeroDesc)) (IFuseDescInuseCnt s - 1) (connHeap s) (ConnHead s)"
    using inv(2) card_inuse_remove [of i "IFuseDesc s" zeroDesc] i
    by (auto simp: desc_inv_def zeroDesc_def)
  moreover have "conn_inv H ((locks s)(IFuseDescLock i := 0)) (connHeap s) (connFresh s) (ConnHead s)"
    using inv(1) by (simp add: conn_inv_def)
  ultimately have inv': "fs_inv H ?t" using l by (simp add: fs_inv_def)
  have lk: "(locks s)(DescLock := Suc 0, IFuseDescLock i := 0, DescLock := 0) = (locks s)(IFuseDescLock i := 0)"
    using l by auto
  have order: "s\<lparr>IFuseDesc := D, locks := x, IFuseDescInuseCnt := n\<rparr> = s\<lparr>locks := x, IFuseDesc := D, IFuseDescInuseCnt := n\<rparr>"
     "s\<lparr>IFuseDesc := D, IFuseDescInuseCnt := n, locks := x\<rparr> = s\<lparr>locks := x, IFuseDesc := D, IFuseDescInuseCnt := n\<rparr>" for D x n
    by (cases s; simp)+
  show ?thesis
  proof (cases "fdConn (IFuseDesc s i)")
    case None
    with inv' i l show ?thesis by (simp add: freeIFuseDesc_def op_simps lk order same_handle_def)
  next
    case (Some a)
    then obtain c where c: "connHeap s a = Some c" using desc_invD(3) [OF inv(2) i(1,2)] by blast
    then have "connHeap ?t a = Some c" by simp
    note rel = do_relIFuseConn_ok [OF inv' this assms(3) [OF Some], of OS]
    show ?thesis
      using Some i l
      by (auto simp: freeIFuseDesc_def op_simps lk order same_handle_def conn_frame_sel(1)
        intro!: wpo_mono [OF rel])
  qed
qed

text \<open>Filling a descriptor with a connection that is marked in use.\<close>

lemma fillIFuseDesc_ok:
  assumes "fs_inv H s" "inuse s i"
      and "\<And>a. conn = Some a \<Longrightarrow> a \<in> set (ConnHead s) \<and> (\<exists>c. connHeap s a = Some c \<and> fcStatus c = 1) \<and>
             (lp \<noteq> None \<or> fdLocalPath (IFuseDesc s i) \<noteq> None)"
  shows "wpo (fillIFuseDesc i conn fd obj lp s) (\<lambda>(r, s'). r = 0 \<and> fs_inv H s' \<and> inuse s' i \<and>
     (\<exists>d. s' = s\<lparr>IFuseDesc := (IFuseDesc s)(i := d)\<rparr> \<and> fdConn d = conn \<and> fdIFd d = fd \<and>
        fdLocCacheState d = fdLocCacheState (IFuseDesc s i) \<and> fdOffset d = fdOffset (IFuseDesc s i)))"
proof -
  have inv: "conn_inv H (locks s) (connHeap s) (connFresh s) (ConnHead s)"
    "desc_inv (IFuseDesc s) (IFuseDescInuseCnt s) (connHeap s) (ConnHead s)"
    using assms(1) by (simp_all add: fs_inv_def)
  have i: "3 \<le> i" "i < 512" "fdInuseFlag (IFuseDesc s i) = 1" using assms(2) by (auto simp: inuse_def)
  have upd: "desc_inv ((IFuseDesc s)(i := d)) (IFuseDescInuseCnt s) (connHeap s) (ConnHead s)"
    if d: "fdInuseFlag d = 1" "fdConn d = conn" "conn \<noteq> None \<longrightarrow> fdLocalPath d \<noteq> None" for d
  proof -
    have e1: "{j. 3 \<le> j \<and> j < 512 \<and> fdInuseFlag (((IFuseDesc s)(i := d)) j) = 1} =
        {j. 3 \<le> j \<and> j < 512 \<and> fdInuseFlag (IFuseDesc s j) = 1}" using d i by auto
    have e2: "fdInuseFlag (((IFuseDesc s)(i := d)) j) = 1 \<or> ((IFuseDesc s)(i := d)) j = zeroDesc"
      if "3 \<le> j \<and> j < 512" for j using desc_invD(1) [OF inv(2), of j] that \<open>fdInuseFlag d = 1\<close> by simp
    have e3: "a \<in> set (ConnHead s) \<and> (\<exists>c. connHeap s a = Some c \<and> fcStatus c = 1) \<and>
        fdLocalPath (((IFuseDesc s)(i := d)) j) \<noteq> None"
      if j: "3 \<le> j \<and> j < 512 \<and> fdConn (((IFuseDesc s)(i := d)) j) = Some a" for j a
    proof (cases "j = i")
      case True
      with j d assms(3) [of a] show ?thesis by auto
    next
      case False
      with j desc_invD(2,3,4) [OF inv(2), of j a] show ?thesis by auto
    qed
    have "IFuseDescInuseCnt s = int (card {j. 3 \<le> j \<and> j < 512 \<and> fdInuseFlag (IFuseDesc s j) = 1})"
      using inv(2) by (simp add: desc_inv_def)
    then show ?thesis
      unfolding desc_inv_def e1 by (intro conjI allI impI) (assumption | erule e2 | drule e3, blast)+
  qed
  show ?thesis
    using i assms(1,3)
    by (auto simp: fillIFuseDesc_def getDesc_def op_simps fs_inv_def inuse_def intro!: upd)
qed

end
