(* ===== verification/Conn_Pool.thy ===== *)
theory Conn_Pool
  imports Desc_Conn
begin

text \<open>
  The pool in use: getting a connection (a free one, a new one, a shared one, or the one of a
  descriptor open on the same path), the manager's rounds, and the contract the handlers rely on as
  the locale \<open>conn_pool\<close>. \<open>pool_step\<close> is the state machine of a handler's steps interleaved with
  rounds of the manager; its invariant says that no descriptor refers to a freed connection.
\<close>

text \<open>Assumptions about the API: logging in never returns a positive status.\<close>

definition login_ok :: "'w irods \<Rightarrow> bool" where
  "login_ok API \<longleftrightarrow> (\<forall>h w. fst (clientLogin API h w) \<le> 0)"

text \<open>A connection can be had without waiting.\<close>

definition conn_avail :: "('w, 'z) fstate_scheme \<Rightarrow> bool" where
  "conn_avail s \<longleftrightarrow> length (ConnHead s) < 10 \<or> (\<exists>a c. a \<in> set (ConnHead s) \<and> connHeap s a = Some c \<and> fcConn c \<noteq> None)"

lemma connect_nonpos:
  "login_ok API \<Longrightarrow> ifuseConnect API a s = Some (r, s') \<Longrightarrow> r \<le> 0"
  unfolding ifuseConnect_def login_ok_def sys_def
  by (auto split: option.splits prod.splits if_splits bind_splits) (metis fst_conv)+

lemma findConn_spec:
  "\<forall>a \<in> set as. connHeap s a \<noteq> None \<Longrightarrow>
   case findConn P as s of
     None \<Rightarrow> False
   | Some None \<Rightarrow> \<forall>a c. a \<in> set as \<longrightarrow> connHeap s a = Some c \<longrightarrow> \<not> P c
   | Some (Some a) \<Rightarrow> a \<in> set as \<and> (\<exists>c. connHeap s a = Some c \<and> P c)"
proof (induction as)
  case (Cons a as)
  then obtain c where "connHeap s a = Some c" by auto
  with Cons show ?case by (cases "P c"; cases "findConn P as s") (auto split: option.splits)
qed simp

lemma useIFuseConn_eq:
  assumes "connHeap s a = Some c" "fcConn c \<noteq> None" "locks s ConnLock = 0" "locks s (IFuseConnLock a) = 0"
    "os_time OS (world s) = (t, w)"
  shows "useIFuseConn OS (Some a) s = Some (0, s\<lparr>world := w, locks := (locks s)(IFuseConnLock a := 1),
     connHeap := (connHeap s)(a \<mapsto> c\<lparr>fcActTime := t, fcStatus := 1, fcInuseCnt := fcInuseCnt c + 1\<rparr>)\<rparr>)"
proof -
  have "(locks s)(IFuseConnLock a := Suc 0, ConnLock := 0) = (locks s)(IFuseConnLock a := Suc 0)"
    using assms(3) by auto
  moreover have "s\<lparr>locks := x, world := w, connHeap := h, locks := y\<rparr> = s\<lparr>world := w, locks := y, connHeap := h\<rparr>" for x y h
    by (cases s) simp
  ultimately show ?thesis
    using assms
    by (auto simp: useIFuseConn_def do_useIFuseConn_def mutex_lock_def mutex_unlock_def setConn_def sys_def
      Let_def fun_upd_idem fun_upd_twist)
qed

lemma conn_inv_new:
  assumes "conn_inv {} lk hp fr cl" "length cl < 10"
      and "fcPendingCnt c = 0" "fcStatus c = 1" "fcInuseCnt c = 1" "lk' (IFuseConnLock fr) = 1"
      and "\<And>b. b \<noteq> fr \<Longrightarrow> lk' (IFuseConnLock b) = lk (IFuseConnLock b)"
  shows "conn_inv {fr} lk' (hp(fr \<mapsto> c)) (Suc fr) (fr # cl)"
proof -
  have fresh: "fr \<notin> set cl" using assms(1) unfolding conn_inv_def by (metis less_irrefl not_None_eq)
  have old: "b < fr" if "hp b = Some d" for b d using conn_invD(1) [OF assms(1) that] .
  show ?thesis
    unfolding conn_inv_def
    using assms fresh conn_invD [OF assms(1)]
    by (auto simp: conn_inv_def less_Suc_eq dest: old)
qed

lemma desc_inv_new:
  assumes "desc_inv D n hp cl" "hp a = None"
  shows "desc_inv D n (hp(a \<mapsto> c)) (a # cl)" "desc_inv D n (hp(a \<mapsto> c)) cl"
  using assms unfolding desc_inv_def by (auto; metis option.distinct(1))+

text \<open>What getting a connection promises.\<close>

definition get_post ::
  "'w irods \<Rightarrow> ('w, 'z) fstate_scheme \<Rightarrow> (int \<times> nat option) \<times> ('w, 'z) fstate_scheme \<Rightarrow> bool" where
  "get_post API s = (\<lambda>((r, out), s'). conn_frame s s' \<and> (pool_live s \<longrightarrow> pool_live s') \<and>
     (case out of
        None \<Rightarrow> r < 0 \<and> fs_inv {} s' \<and> \<not> server_up API
      | Some a \<Rightarrow> r = 0 \<and> fs_inv {a} s' \<and> live a s'))"

lemma get_postI:
  "conn_frame s s' \<Longrightarrow> fs_inv {a} s' \<Longrightarrow> live a s' \<Longrightarrow> (pool_live s \<Longrightarrow> pool_live s') \<Longrightarrow>
   get_post API s ((0, Some a), s')"
  by (simp add: get_post_def)

lemma newIFuseConn_ok:
  assumes "fs_inv {} s" "length (ConnHead s) < 10" "login_ok API"
  shows "wpo (newIFuseConn OS API s) (get_post API s)"
proof -
  have inv: "conn_inv {} (locks s) (connHeap s) (connFresh s) (ConnHead s)"
    "desc_inv (IFuseDesc s) (IFuseDescInuseCnt s) (connHeap s) (ConnHead s)"
    and l: "locks s DescLock = 0" "locks s ConnLock = 0" "locks s PathCacheLock = 0" "pc_inv s"
    using assms(1) by (simp_all add: fs_inv_def)
  let ?a = "connFresh s"
  have fresh: "connHeap s ?a = None"
    using conn_invD(1) [OF inv(1), of ?a] by (cases "connHeap s ?a") auto
  let ?t = "s\<lparr>connFresh := Suc ?a, connHeap := (connHeap s)(?a \<mapsto> zeroConn),
      locks := (locks s)(IFuseConnLock ?a := 0)\<rparr>"
  have f: "conn_frame s ?t" by (rule conn_frame_locks) auto
  obtain r w h where con: "ifuseConnect API ?a ?t = Some (r, ?t\<lparr>world := w, connHeap :=
      (connHeap s)(?a \<mapsto> zeroConn\<lparr>fcConn := h\<rparr>)\<rparr>)" "r = 0 \<longleftrightarrow> h \<noteq> None" "r \<le> 0" "server_up API \<longrightarrow> r = 0"
    using ifuseConnect_ok [of ?t ?a zeroConn API] connect_nonpos [OF assms(3), of ?a ?t]
    by (auto simp: wpo_def)
  show ?thesis
  proof (cases "r < 0")
    case True
    have "conn_inv {} ((locks s)(IFuseConnLock ?a := 0)) ((connHeap s)(?a \<mapsto> zeroConn\<lparr>fcConn := h\<rparr>)) (Suc ?a) (ConnHead s)"
      using inv(1) fresh True con(2) conn_invD [OF inv(1)]
      by (auto simp: conn_inv_def zeroConn_def less_Suc_eq)
    with True con f l fresh desc_inv_new(2) [OF inv(2) fresh] show ?thesis
      by (auto simp: newIFuseConn_def fs_inv_def get_post_def Let_def pool_live_def live_def intro!: conn_frame_locks)
  next
    case False
    with con have h: "h \<noteq> None" by auto
    let ?u = "?t\<lparr>world := w, connHeap := (connHeap s)(?a \<mapsto> zeroConn\<lparr>fcConn := h\<rparr>)\<rparr>"
    obtain t w' where t: "os_time OS (world ?u) = (t, w')" by fastforce
    note use = useIFuseConn_eq [of ?u ?a "zeroConn\<lparr>fcConn := h\<rparr>", OF _ _ _ _ t]
    have "conn_inv {?a} ((locks s)(IFuseConnLock ?a := Suc 0, ConnLock := 0))
        ((connHeap s)(?a \<mapsto> c)) (Suc ?a) (?a # ConnHead s)"
      if "fcPendingCnt c = 0" "fcStatus c = 1" "fcInuseCnt c = 1" for c
      by (rule conn_inv_new [OF inv(1) assms(2)]) (use that in auto)
    with False con f l h use desc_inv_new(1) [OF inv(2) fresh] show ?thesis
      by (auto simp: newIFuseConn_def fs_inv_def Let_def mutex_lock_def mutex_unlock_def zeroConn_def
        startConnManager_def get_post_def live_def pool_live_def intro!: conn_frame_locks)
  qed
qed

lemma getIFuseConn_ok:
  assumes "fs_inv {} s" "conn_avail s" "login_ok API"
  shows "wpo (getIFuseConn OS API s) (get_post API s)"
proof -
  have inv: "conn_inv {} (locks s) (connHeap s) (connFresh s) (ConnHead s)"
    "desc_inv (IFuseDesc s) (IFuseDescInuseCnt s) (connHeap s) (ConnHead s)"
    and l: "locks s DescLock = 0" "locks s ConnLock = 0" "locks s PathCacheLock = 0" "pc_inv s"
    using assms(1) by (simp_all add: fs_inv_def)
  let ?s = "s\<lparr>locks := (locks s)(ConnLock := Suc 0)\<rparr>"
  have heap: "\<forall>a \<in> set (ConnHead s). connHeap ?s a \<noteq> None" using inv(1) by (auto simp: conn_inv_def)
  note f1 = findConn_spec [OF heap, of "\<lambda>c. fcStatus c = 0 \<and> fcConn c \<noteq> None"]
  obtain t w where t: "os_time OS (world s) = (t, w)" by fastforce
  have lk: "locks s (IFuseConnLock a) = 0" "fcInuseCnt c = 0" "fcPendingCnt c = 0"
    if "connHeap s a = Some c" "fcConn c \<noteq> None" for a c
    using conn_invD [OF inv(1) that(1)] that(2) by auto
  show ?thesis
  proof (cases "findConn (\<lambda>c. fcStatus c = 0 \<and> fcConn c \<noteq> None) (ConnHead s) ?s")
    case None
    with f1 show ?thesis by simp
  next
    case (Some free)
    show ?thesis
    proof (cases free)
      case (Some a)
      with f1 \<open>findConn _ _ _ = _\<close> obtain c where c: "a \<in> set (ConnHead s)" "connHeap s a = Some c"
        "fcStatus c = 0" "fcConn c \<noteq> None" by auto
      have "conn_inv {a} ((locks s)(ConnLock := 0, IFuseConnLock a := Suc 0))
          ((connHeap s)(a \<mapsto> c\<lparr>fcActTime := t, fcStatus := 1, fcInuseCnt := fcInuseCnt c + 1\<rparr>))
          (connFresh s) (ConnHead s)"
        by (rule conn_inv_upd [OF inv(1) c(2)]) (use c lk [OF c(2,4)] in auto)
      moreover have "desc_inv (IFuseDesc s) (IFuseDescInuseCnt s)
          ((connHeap s)(a \<mapsto> c\<lparr>fcActTime := t, fcStatus := 1, fcInuseCnt := fcInuseCnt c + 1\<rparr>)) (ConnHead s)"
        by (rule desc_inv_upd [OF inv(2) c(2)]) simp
      ultimately show ?thesis
        using c Some \<open>findConn _ _ _ = _\<close> l lk [OF c(2,4)] t
        by (auto simp: getIFuseConn_def useFreeIFuseConn_def op_simps fs_inv_def get_post_def
          live_def pool_live_def intro!: conn_frame_locks)
    next
      case None
      note nofree = \<open>findConn _ _ _ = _\<close> [unfolded None]
      show ?thesis
      proof (cases "length (ConnHead s) < 10")
        case False
        note f2 = findConn_spec [OF heap, of "\<lambda>c. fcInuseCnt c = 0 \<and> fcPendingCnt c = 0 \<and> fcConn c \<noteq> None"]
        obtain b d where "b \<in> set (ConnHead s)" "connHeap s b = Some d" "fcConn d \<noteq> None"
          using assms(2) False by (auto simp: conn_avail_def)
        with f2 lk [of b d] obtain a c where
          a: "findConn (\<lambda>c. fcInuseCnt c = 0 \<and> fcPendingCnt c = 0 \<and> fcConn c \<noteq> None) (ConnHead s) ?s = Some (Some a)"
            "a \<in> set (ConnHead s)" "connHeap s a = Some c" "fcConn c \<noteq> None"
          by (auto split: option.splits)
        have aliv: "live a s" using a by (auto simp: live_def)
        note use = do_useIFuseConn_ok [OF assms(1) a(3,2) _ a(4), of OS]
        show ?thesis
          using nofree a l False
          by (auto simp: getIFuseConn_def op_simps intro!: wpo_mono [OF use] get_postI dest: live_same [OF aliv])
      next
        case True
        have "(locks s)(ConnLock := Suc 0, ConnLock := 0) = locks s" using l by auto
        with nofree l True show ?thesis
          using newIFuseConn_ok [OF assms(1) True assms(3), of OS]
          by (simp add: getIFuseConn_def op_simps fun_upd_idem)
      qed
    qed
  qed
qed

lemma inuse_locks [simp]: "inuse (s\<lparr>locks := l\<rparr>) = inuse s"
  by (simp add: inuse_def fun_eq_iff)

lemma getIFuseConnByPath_ok:
  assumes "fs_inv {} s" "conn_avail s" "login_ok API"
  shows "wpo (getIFuseConnByPath OS API p s) (get_post API s)"
proof -
  let ?s = "s\<lparr>locks := (locks s)(DescLock := Suc 0)\<rparr>"
  have inv: "desc_inv (IFuseDesc s) (IFuseDescInuseCnt s) (connHeap s) (ConnHead s)"
    and l: "locks s DescLock = 0" "locks s ConnLock = 0" using assms(1) by (simp_all add: fs_inv_def)
  have refs: "(\<exists>c. connHeap ?s a = Some c) \<and> fdLocalPath (IFuseDesc ?s j) \<noteq> None"
    if "inuse ?s j" "fdConn (IFuseDesc ?s j) = Some a" for j a
    using that desc_invD(3,4) [OF inv, of j a] by (auto simp: inuse_def)
  have "{j. inuse s j \<and> j < 3} = {}" by (auto simp: inuse_def)
  then have "case scanDescPath p 509 3 0 ?s of
      None \<Rightarrow> False
    | Some None \<Rightarrow> \<forall>j. 3 \<le> j \<longrightarrow> (\<forall>a c. inuse ?s j \<longrightarrow> fdConn (IFuseDesc ?s j) = Some a \<longrightarrow>
        connHeap ?s a = Some c \<longrightarrow> fcConn c \<noteq> None \<longrightarrow> fdLocalPath (IFuseDesc ?s j) \<noteq> Some p)
    | Some (Some a) \<Rightarrow> \<exists>j c. inuse ?s j \<and> fdConn (IFuseDesc ?s j) = Some a \<and>
        connHeap ?s a = Some c \<and> fcConn c \<noteq> None \<and> fdLocalPath (IFuseDesc ?s j) = Some p"
    by (intro scanDescPath_spec cnt_ok_fs [OF assms(1)] refs) simp_all
  then have scan: "case scanDescPath p 509 3 0 ?s of
      None \<Rightarrow> False
    | Some None \<Rightarrow> True
    | Some (Some a) \<Rightarrow> \<exists>j c. inuse s j \<and> fdConn (IFuseDesc s j) = Some a \<and>
        connHeap s a = Some c \<and> fcConn c \<noteq> None"
    by (auto split: option.splits)
  show ?thesis
  proof (cases "scanDescPath p 509 3 0 ?s")
    case None
    with scan show ?thesis by simp
  next
    case (Some r)
    show ?thesis
    proof (cases r)
      case None
      have "(locks s)(DescLock := Suc 0, DescLock := 0) = locks s" using l by auto
      with Some None l getIFuseConn_ok [OF assms, of OS] show ?thesis
        by (simp add: getIFuseConnByPath_def op_simps fun_upd_idem)
    next
      case (Some a)
      with scan \<open>scanDescPath _ _ _ _ _ = _\<close> obtain j c where
        j: "inuse s j" "fdConn (IFuseDesc s j) = Some a" "connHeap s a = Some c" "fcConn c \<noteq> None" by auto
      then have al: "a \<in> set (ConnHead s)" using desc_invD(2) [OF inv] by (auto simp: inuse_def)
      have aliv: "live a s" using j by (auto simp: live_def)
      note use = do_useIFuseConn_ok [OF assms(1) j(3) al _ j(4), of OS]
      have lk: "(locks s)(DescLock := Suc 0, ConnLock := Suc 0, DescLock := 0) = (locks s)(ConnLock := Suc 0)"
        using l by auto
      show ?thesis
        using Some \<open>scanDescPath _ _ _ _ _ = _\<close> l j(3,4)
        by (auto simp: getIFuseConnByPath_def op_simps lk intro!: wpo_mono [OF use] get_postI dest: live_same [OF aliv])
    qed
  qed
qed

section \<open>The manager keeps the invariant\<close>

text \<open>The connections \<open>R\<close> are gone, with their locks; nothing else of the state changed but the world.\<close>

definition dropConns :: "nat set \<Rightarrow> ('w, 'z) fstate_scheme \<Rightarrow> ('w, 'z) fstate_scheme \<Rightarrow> bool" where
  "dropConns R s s' \<longleftrightarrow> (\<exists>w lk.
     s' = s\<lparr>world := w, locks := lk, connHeap := (\<lambda>a. if a \<in> R then None else connHeap s a)\<rparr> \<and>
     (\<forall>l. (\<forall>a \<in> R. l \<noteq> IFuseConnLock a) \<longrightarrow> lk l = locks s l))"

lemma dropConns_empty [simp]: "dropConns {} s s"
  unfolding dropConns_def by (intro exI [of _ "world s"] exI [of _ "locks s"]) simp

lemma dropConns_trans:
  assumes "dropConns R s t" "dropConns R' t u"
  shows "dropConns (R \<union> R') s u"
proof -
  obtain w lk where t: "t = s\<lparr>world := w, locks := lk, connHeap := (\<lambda>a. if a \<in> R then None else connHeap s a)\<rparr>"
    and lk: "\<forall>l. (\<forall>a \<in> R. l \<noteq> IFuseConnLock a) \<longrightarrow> lk l = locks s l"
    using assms(1) by (auto simp: dropConns_def)
  obtain w' lk' where u: "u = t\<lparr>world := w', locks := lk', connHeap := (\<lambda>a. if a \<in> R' then None else connHeap t a)\<rparr>"
    and lk': "\<forall>l. (\<forall>a \<in> R'. l \<noteq> IFuseConnLock a) \<longrightarrow> lk' l = locks t l"
    using assms(2) by (auto simp: dropConns_def)
  have fn: "(\<lambda>a. if a \<in> R' then None else if a \<in> R then None else connHeap s a) =
      (\<lambda>a. if a \<in> R \<union> R' then None else connHeap s a)" by auto
  have "u = s\<lparr>world := w', locks := lk', connHeap := (\<lambda>a. if a \<in> R \<union> R' then None else connHeap s a)\<rparr>"
  proof -
    have "connHeap t = (\<lambda>a. if a \<in> R then None else connHeap s a)" by (simp add: t)
    moreover have "u = s\<lparr>world := w', locks := lk', connHeap := (\<lambda>a. if a \<in> R' then None else connHeap t a)\<rparr>"
      using u t by simp
    ultimately show ?thesis by (simp only: fn)
  qed
  moreover have "\<forall>l. (\<forall>a \<in> R \<union> R'. l \<noteq> IFuseConnLock a) \<longrightarrow> lk' l = locks s l" using lk lk' t by auto
  ultimately show ?thesis unfolding dropConns_def by blast
qed

lemma freeConn_ok: "connHeap s a = Some c \<Longrightarrow> wpo (freeConn API a s) (dropConns {a} s)"
proof -
  assume c: "connHeap s a = Some c"
  have "dropConns {a} s (s\<lparr>world := w, locks := (locks s)(IFuseConnLock a := 0), connHeap := (connHeap s)(a := None)\<rparr>)" for w
    unfolding dropConns_def by (intro exI [of _ w] exI [of _ "(locks s)(IFuseConnLock a := 0)"]) (auto simp: fun_upd_def)
  from this this [of "world s"] c show ?thesis
    by (auto simp: freeConn_def sys_def split: option.splits prod.splits)
qed

definition stale :: "int \<Rightarrow> iFuseConn \<Rightarrow> bool" where
  "stale t c \<longleftrightarrow> t - fcActTime c > IFUSE_CONN_TIMEOUT \<and> fcStatus c = IRODS_FREE"

lemma dropConns_heap: "dropConns R s s' \<Longrightarrow> connHeap s' a = (if a \<in> R then None else connHeap s a)"
  by (auto simp: dropConns_def)

lemma connTimeout_loop_spec:
  "\<forall>a \<in> set as. connHeap s a \<noteq> None \<Longrightarrow> distinct as \<Longrightarrow>
   wpo (connTimeout_loop API t as n s) (\<lambda>((as', n'), s').
     as' = filter (\<lambda>a. \<not> stale t (the (connHeap s a))) as \<and>
     dropConns {a \<in> set as. stale t (the (connHeap s a))} s s' \<and>
     n' = n + int (length (filter (\<lambda>a. fcStatus (the (connHeap s a)) = 0) as)))"
proof (induction as arbitrary: n s)
  case (Cons a as)
  obtain c where c: "connHeap s a = Some c" using Cons.prems by auto
  let ?n = "if fcStatus c = 0 then n + 1 else n"
  have step: "connTimeout_loop API t (a # as) n s =
      (if stale t c then freeConn API a s \<bind> connTimeout_loop API t as ?n
       else connTimeout_loop API t as ?n s \<bind> (\<lambda>((as', n), s). Some ((a # as', n), s)))"
    using c by (simp add: stale_def Let_def)
  show ?case
  proof (cases "stale t c")
    case False
    have "{b \<in> set (a # as). stale t (the (connHeap s b))} = {b \<in> set as. stale t (the (connHeap s b))}"
      using False c by auto
    with Cons.IH [of s ?n] Cons.prems c False step show ?thesis by (auto elim!: wpo_mono)
  next
    case True
    from freeConn_ok [OF c, of API] obtain s1 where s1: "freeConn API a s = Some s1" "dropConns {a} s s1"
      by (auto simp: wpo_def)
    have h: "connHeap s1 b = connHeap s b" if "b \<in> set as" for b
      using dropConns_heap [OF s1(2), of b] that Cons.prems(2) by auto
    have eq: "filter (\<lambda>a. P (the (connHeap s1 a))) as = filter (\<lambda>a. P (the (connHeap s a))) as"
      "{a \<in> set as. P (the (connHeap s1 a))} = {a \<in> set as. P (the (connHeap s a))}" for P
      using h by (auto intro: filter_cong)
    have "wpo (connTimeout_loop API t as ?n s1) (\<lambda>((as', n'), s').
       as' = filter (\<lambda>a. \<not> stale t (the (connHeap s a))) as \<and>
       dropConns {a \<in> set as. stale t (the (connHeap s a))} s1 s' \<and>
       n' = ?n + int (length (filter (\<lambda>a. fcStatus (the (connHeap s a)) = 0) as)))"
      using Cons.IH [of s1 ?n] Cons.prems h
      unfolding eq(1) [of "\<lambda>c. \<not> stale t c"] eq(1) [of "\<lambda>c. fcStatus c = 0"] eq(2) [of "stale t"] by simp
    moreover have "{b \<in> set (a # as). stale t (the (connHeap s b))} =
        {a} \<union> {b \<in> set as. stale t (the (connHeap s b))}" using True c by auto
    ultimately show ?thesis
      using c True s1 step dropConns_trans [OF s1(2)] by (auto simp: stale_def elim!: wpo_mono)
  qed
qed simp

lemma connHighWater_loop_spec:
  "\<forall>a \<in> set as. connHeap s a \<noteq> None \<Longrightarrow> distinct as \<Longrightarrow>
   wpo (connHighWater_loop API as n s) (\<lambda>(as', s'). \<exists>R. R \<subseteq> set as \<and>
     (\<forall>a \<in> R. fcStatus (the (connHeap s a)) = 0) \<and> as' = filter (\<lambda>a. a \<notin> R) as \<and> dropConns R s s' \<and>
     (n - int (length as - length as') \<le> 5 \<or> (\<forall>a \<in> set as'. fcStatus (the (connHeap s a)) \<noteq> 0)))"
proof (induction as arbitrary: n s)
  case (Cons a as)
  obtain c where c: "connHeap s a = Some c" using Cons.prems by auto
  show ?case
  proof (cases "n > 5")
    case False
    then show ?thesis by (auto intro!: exI [of _ "{}"])
  next
    case True
    show ?thesis
    proof (cases "fcStatus c = 0")
      case False
      have "wpo (connHighWater_loop API as n s) (\<lambda>(as', s'). \<exists>R. R \<subseteq> set (a # as) \<and>
         (\<forall>a \<in> R. fcStatus (the (connHeap s a)) = 0) \<and> a # as' = filter (\<lambda>a. a \<notin> R) (a # as) \<and> dropConns R s s' \<and>
         (n - int (length (a # as) - length (a # as')) \<le> 5 \<or> (\<forall>a \<in> set (a # as'). fcStatus (the (connHeap s a)) \<noteq> 0)))"
      proof (rule wpo_mono [OF Cons.IH], goal_cases)
        case 1 then show ?case using Cons.prems by simp
      next
        case 2 then show ?case using Cons.prems by simp
      next
        case (3 x)
        then obtain R as' s' where R: "x = (as', s')" "R \<subseteq> set as" "\<forall>a \<in> R. fcStatus (the (connHeap s a)) = 0"
          "as' = filter (\<lambda>a. a \<notin> R) as" "dropConns R s s'"
          "n - int (length as - length as') \<le> 5 \<or> (\<forall>a \<in> set as'. fcStatus (the (connHeap s a)) \<noteq> 0)"
          by auto
        moreover have "a \<notin> R" using R(2) Cons.prems(2) by auto
        ultimately show ?case
          unfolding R(1) prod.case using c False by (intro exI [of _ R] conjI) auto
      qed
      moreover have "connHighWater_loop API (a # as) n s =
          connHighWater_loop API as n s \<bind> (\<lambda>(as', s). Some (a # as', s))" using True c False by simp
      ultimately show ?thesis by (simp only: wpo_bind) (simp only: case_prod_unfold wpo_Some fst_conv snd_conv)
    next
      case freec: True
      from freeConn_ok [OF c, of API] obtain s1 where s1: "freeConn API a s = Some s1" "dropConns {a} s s1"
        by (auto simp: wpo_def)
      have h: "connHeap s1 b = connHeap s b" if "b \<in> set as" for b
        using dropConns_heap [OF s1(2), of b] that Cons.prems(2) by auto
      have "wpo (connHighWater_loop API as (n - 1) s1) (\<lambda>(as', s'). \<exists>R. R \<subseteq> set (a # as) \<and>
         (\<forall>a \<in> R. fcStatus (the (connHeap s a)) = 0) \<and> as' = filter (\<lambda>a. a \<notin> R) (a # as) \<and> dropConns R s s' \<and>
         (n - int (length (a # as) - length as') \<le> 5 \<or> (\<forall>a \<in> set as'. fcStatus (the (connHeap s a)) \<noteq> 0)))"
      proof (rule wpo_mono [OF Cons.IH], goal_cases)
        case 1 then show ?case using h Cons.prems by auto
      next
        case 2 then show ?case using Cons.prems by simp
      next
        case (3 x)
        then obtain R as' s' where R: "x = (as', s')" "R \<subseteq> set as" "\<forall>a \<in> R. fcStatus (the (connHeap s1 a)) = 0"
          "as' = filter (\<lambda>a. a \<notin> R) as" "dropConns R s1 s'"
          "n - 1 - int (length as - length as') \<le> 5 \<or> (\<forall>a \<in> set as'. fcStatus (the (connHeap s1 a)) \<noteq> 0)"
          by auto
        have len: "length as' \<le> length as" using R(4) by simp
        have 1: "insert a R \<subseteq> set (a # as)" using R(2) by auto
        have 2: "\<forall>b \<in> insert a R. fcStatus (the (connHeap s b)) = 0"
        proof
          fix b assume "b \<in> insert a R"
          then show "fcStatus (the (connHeap s b)) = 0"
          proof
            assume "b = a" with c freec show ?thesis by simp
          next
            assume b: "b \<in> R"
            then have "b \<in> set as" using R(2) by auto
            from h [OF this] R(3) b show ?thesis by auto
          qed
        qed
        have "filter (\<lambda>b. b \<notin> insert a R) as = filter (\<lambda>b. b \<notin> R) as"
          by (rule filter_cong) (use Cons.prems(2) in auto)
        then have 3: "as' = filter (\<lambda>b. b \<notin> insert a R) (a # as)" using R(4) by simp
        have 4: "dropConns (insert a R) s s'" using dropConns_trans [OF s1(2) R(5)] by simp
        have "n - int (length (a # as) - length as') = n - 1 - int (length as - length as')"
          using len by (simp add: of_nat_diff)
        moreover have "fcStatus (the (connHeap s b)) \<noteq> 0"
          if "\<forall>a \<in> set as'. fcStatus (the (connHeap s1 a)) \<noteq> 0" "b \<in> set as'" for b
          using that h [of b] R(4) by auto
        ultimately have 5: "n - int (length (a # as) - length as') \<le> 5 \<or>
            (\<forall>b \<in> set as'. fcStatus (the (connHeap s b)) \<noteq> 0)"
          using R(6) by auto
        show ?case unfolding R(1) prod.case by (intro exI [of _ "insert a R"] conjI 1 2 3 4 5)
      qed
      moreover have "connHighWater_loop API (a # as) n s = connHighWater_loop API as (n - 1) s1"
        using True c freec s1(1) by simp
      ultimately show ?thesis by (simp only:)
    qed
  qed
qed (auto intro!: exI [of _ "{}"])

lemma wakeReqs_loop_spec:
  assumes "locks s ConnLock = Suc 0"
  shows "wakeReqs_loop n s = Some (n - min n (length (ConnReqWaitQue s)),
     s\<lparr>ConnReqWaitQue := drop n (ConnReqWaitQue s), wokenReqs := wokenReqs s @ take n (ConnReqWaitQue s)\<rparr>)"
  using assms
proof (induction n arbitrary: s)
  case (Suc n)
  show ?case
  proof (cases "ConnReqWaitQue s")
    case Nil
    then show ?thesis by simp
  next
    case (Cons r rs)
    let ?s = "s\<lparr>ConnReqWaitQue := rs, wokenReqs := wokenReqs s @ [r]\<rparr>"
    have "(locks s)(ConnLock := 0, ConnLock := Suc 0) = locks s" using Suc.prems by auto
    moreover have "t\<lparr>locks := locks t\<rparr> = t" for t :: "('a, 'b) fstate_scheme" by simp
    ultimately have "wakeReqs_loop (Suc n) s = wakeReqs_loop n ?s"
      using Cons Suc.prems by (simp add: mutex_lock_def mutex_unlock_def Let_def fun_upd_idem)
    also have "\<dots> = Some (n - min n (length rs), ?s\<lparr>ConnReqWaitQue := drop n rs, wokenReqs := (wokenReqs s @ [r]) @ take n rs\<rparr>)"
      using Suc.IH [of ?s] Suc.prems by simp
    finally show ?thesis using Cons by (simp add: min_def)
  qed
qed simp

lemma conn_inv_drop:
  assumes "conn_inv H lk hp fr cl" "\<And>a. a \<in> R \<Longrightarrow> a \<in> set cl \<and> fcStatus (the (hp a)) = 0"
      and "\<And>a. a \<notin> R \<Longrightarrow> lk' (IFuseConnLock a) = lk (IFuseConnLock a)"
  shows "conn_inv H lk' (\<lambda>a. if a \<in> R then None else hp a) fr (filter (\<lambda>a. a \<notin> R) cl)"
proof -
  have "a \<notin> R" if "a \<in> H" for a
  proof
    assume "a \<in> R"
    have "hp a \<noteq> None" using assms(1) that by (auto simp: conn_inv_def)
    with assms(2) [OF \<open>a \<in> R\<close>] conn_invD(6) [OF assms(1) _ that] show False by auto
  qed
  then have "H \<subseteq> set (filter (\<lambda>a. a \<notin> R) cl)" using assms(1) by (auto simp: conn_inv_def)
  moreover have "length (filter (\<lambda>a. a \<notin> R) cl) \<le> 10"
    by (rule order_trans [OF length_filter_le]) (use assms(1) in \<open>simp add: conn_inv_def\<close>)
  moreover have "b < fr \<and> fcPendingCnt c = 0 \<and> (fcStatus c = 0 \<or> fcStatus c = 1) \<and>
      (fcConn c \<noteq> None \<longrightarrow> lk' (IFuseConnLock b) = (if b \<in> H then 1 else 0) \<and>
         fcInuseCnt c = (if b \<in> H then 1 else 0)) \<and> (b \<in> H \<longrightarrow> fcStatus c = 1)"
    if "(if b \<in> R then None else hp b) = Some c" for b c
  proof -
    from that have "b \<notin> R" "hp b = Some c" by (auto split: if_splits)
    with conn_invD [OF assms(1)] assms(3) show ?thesis by simp
  qed
  moreover have "distinct (filter (\<lambda>a. a \<notin> R) cl)"
    "\<forall>a \<in> set (filter (\<lambda>a. a \<notin> R) cl). (if a \<in> R then None else hp a) \<noteq> None"
    using assms(1) by (auto simp: conn_inv_def)
  ultimately show ?thesis unfolding conn_inv_def by blast
qed

lemma desc_inv_drop:
  assumes "desc_inv D n hp cl" "\<And>a. a \<in> R \<Longrightarrow> fcStatus (the (hp a)) = 0"
  shows "desc_inv D n (\<lambda>a. if a \<in> R then None else hp a) (filter (\<lambda>a. a \<notin> R) cl)"
proof -
  have "a \<notin> R" if "3 \<le> i" "i < MAX_IFUSE_DESC" "fdConn (D i) = Some a" for i a
    using desc_invD(3) [OF assms(1) that] assms(2) [of a] by auto
  then have "\<forall>i a. 3 \<le> i \<and> i < MAX_IFUSE_DESC \<and> fdConn (D i) = Some a \<longrightarrow> a \<notin> R" by blast
  with assms(1) show ?thesis unfolding desc_inv_def by simp
qed

lemma dropConns_head:
  assumes "dropConns R (s\<lparr>ConnHead := as\<rparr>) s'"
  shows "\<exists>u. dropConns R s u \<and> s' = u\<lparr>ConnHead := as\<rparr>"
proof -
  obtain w lk where s': "s' = s\<lparr>ConnHead := as, world := w, locks := lk,
        connHeap := (\<lambda>a. if a \<in> R then None else connHeap (s\<lparr>ConnHead := as\<rparr>) a)\<rparr>"
    and lk: "\<forall>l. (\<forall>a \<in> R. l \<noteq> IFuseConnLock a) \<longrightarrow> lk l = locks (s\<lparr>ConnHead := as\<rparr>) l"
    using assms unfolding dropConns_def by blast
  let ?u = "s\<lparr>world := w, locks := lk, connHeap := (\<lambda>a. if a \<in> R then None else connHeap s a)\<rparr>"
  have "dropConns R s ?u" using lk unfolding dropConns_def by (intro exI conjI) auto
  moreover have "s' = ?u\<lparr>ConnHead := as\<rparr>" using s' by (cases s) (simp cong: if_cong)
  ultimately show ?thesis by blast
qed

text \<open>The two passes together remove a set \<open>R\<close> of free connections.\<close>

lemma manager_passes:
  assumes "\<forall>a \<in> set (ConnHead s). connHeap s a \<noteq> None" "distinct (ConnHead s)"
  shows "wpo (connManager_passes API t n s) (\<lambda>(n', s'). \<exists>R. R \<subseteq> set (ConnHead s) \<and> (\<forall>a \<in> R. fcStatus (the (connHeap s a)) = 0) \<and>
        (\<exists>u. dropConns R s u \<and> s' = u\<lparr>ConnHead := filter (\<lambda>a. a \<notin> R) (ConnHead s)\<rparr>) \<and>
        (length (ConnHead s') \<le> 5 \<or> (\<forall>a \<in> set (ConnHead s'). fcStatus (the (connHeap s a)) \<noteq> 0)) \<and>
        (\<forall>a \<in> set (ConnHead s'). \<not> stale t (the (connHeap s a))))"
proof -
  let ?R = "{a \<in> set (ConnHead s). stale t (the (connHeap s a))}"
  let ?as = "filter (\<lambda>a. \<not> stale t (the (connHeap s a))) (ConnHead s)"
  from connTimeout_loop_spec [OF assms, of API t n] obtain n' s1 where
    s1: "connTimeout_loop API t (ConnHead s) n s = Some ((?as, n'), s1)" "dropConns ?R s s1"
    by (auto simp: wpo_def)
  have as: "?as = filter (\<lambda>a. a \<notin> ?R) (ConnHead s)" by (auto intro: filter_cong)
  have free1: "\<forall>a \<in> ?R. fcStatus (the (connHeap s a)) = 0" by (simp add: stale_def)
  show ?thesis
  proof (cases "int (length ?as) > 5")
    case False
    then have "length ?as \<le> 5" by simp
    with False s1 free1 as show ?thesis
      by (simp add: connManager_passes_def Let_def) (intro exI [of _ ?R] conjI exI [of _ s1]; simp)
  next
    case True
    let ?s1 = "s1\<lparr>ConnHead := ?as\<rparr>"
    have h: "connHeap ?s1 a = connHeap s a" if "a \<in> set ?as" for a
      using dropConns_heap [OF s1(2), of a] that by simp
    have "\<forall>a \<in> set ?as. connHeap ?s1 a \<noteq> None" "distinct ?as" using assms h by simp_all
    from connHighWater_loop_spec [OF this, of API "int (length ?as)"] obtain R as' s2 where
      R: "connHighWater_loop API ?as (int (length ?as)) ?s1 = Some (as', s2)" "R \<subseteq> set ?as"
      "\<forall>a \<in> R. fcStatus (the (connHeap ?s1 a)) = 0" "as' = filter (\<lambda>a. a \<notin> R) ?as" "dropConns R ?s1 s2"
      "int (length ?as) - int (length ?as - length as') \<le> 5 \<or> (\<forall>a \<in> set as'. fcStatus (the (connHeap ?s1 a)) \<noteq> 0)"
      by (auto simp: wpo_def)
    obtain u where u: "dropConns R s1 u" "s2 = u\<lparr>ConnHead := ?as\<rparr>" using dropConns_head [OF R(5)] by blast
    have as': "as' = filter (\<lambda>a. a \<notin> ?R \<union> R) (ConnHead s)" using R(4) as by (simp cong: conj_cong)
    have len: "length as' \<le> length ?as" unfolding R(4) by (rule length_filter_le)
    have 1: "?R \<union> R \<subseteq> set (ConnHead s)" using R(2) by auto
    have 2: "\<forall>a \<in> ?R \<union> R. fcStatus (the (connHeap s a)) = 0"
    proof
      fix b assume "b \<in> ?R \<union> R"
      then show "fcStatus (the (connHeap s b)) = 0"
      proof
        assume "b \<in> ?R" with free1 show ?thesis by blast
      next
        assume b: "b \<in> R"
        then have "b \<in> set ?as" using R(2) by blast
        from h [OF this] R(3) b show ?thesis by auto
      qed
    qed
    have 3: "\<exists>u. dropConns (?R \<union> R) s u \<and> s2\<lparr>ConnHead := as'\<rparr> = u\<lparr>ConnHead := filter (\<lambda>a. a \<notin> ?R \<union> R) (ConnHead s)\<rparr>"
      by (intro exI [of _ u] conjI dropConns_trans [OF s1(2) u(1)]) (simp add: u(2) as')
    have stay: "b \<in> set ?as" if "b \<in> set as'" for b using that R(4) by simp
    have "fcStatus (the (connHeap s b)) \<noteq> 0"
      if "\<forall>a \<in> set as'. fcStatus (the (connHeap ?s1 a)) \<noteq> 0" "b \<in> set as'" for b
      using that h [OF stay [OF that(2)]] by auto
    moreover have "int (length ?as) - int (length ?as - length as') = int (length as')" using len by (simp add: of_nat_diff)
    ultimately have 4: "length as' \<le> 5 \<or> (\<forall>a \<in> set as'. fcStatus (the (connHeap s a)) \<noteq> 0)" using R(6) by auto
    have 5: "\<forall>a \<in> set as'. \<not> stale t (the (connHeap s a))" using stay by auto
    show ?thesis
      using s1(1) True R(1) 1 2 3 4 5
      by (simp add: connManager_passes_def Let_def del: Un_iff Un_subset_iff) (intro exI [of _ "?R \<union> R"] conjI; simp)
  qed
qed

text \<open>A round of the manager: \<open>R\<close> is the set of the connections it frees.\<close>

definition managed :: "int \<Rightarrow> nat set \<Rightarrow> ('w, 'z) fstate_scheme \<Rightarrow> ('w, 'z) fstate_scheme \<Rightarrow> bool" where
  "managed t R s s' \<longleftrightarrow> R \<subseteq> {a \<in> set (ConnHead s). fcStatus (the (connHeap s a)) = IRODS_FREE} \<and>
     connHeap s' = (\<lambda>a. if a \<in> R then None else connHeap s a) \<and>
     ConnHead s' = filter (\<lambda>a. a \<notin> R) (ConnHead s) \<and>
     (length (ConnHead s') \<le> 5 \<or> (\<forall>a \<in> set (ConnHead s'). fcStatus (the (connHeap s' a)) \<noteq> IRODS_FREE)) \<and>
     (\<forall>a \<in> set (ConnHead s'). \<not> stale t (the (connHeap s' a))) \<and>
     (\<exists>k. ConnReqWaitQue s' = drop k (ConnReqWaitQue s) \<and>
          wokenReqs s' = wokenReqs s @ take k (ConnReqWaitQue s)) \<and>
     (\<exists>w lk. (\<forall>l. (\<forall>a. l \<noteq> IFuseConnLock a) \<longrightarrow> lk l = locks s l) \<and>
        s' = s\<lparr>world := w, locks := lk, connHeap := connHeap s', ConnHead := ConnHead s',
                ConnReqWaitQue := ConnReqWaitQue s', wokenReqs := wokenReqs s'\<rparr>)"

lemma connManager_round_ok:
  assumes "fs_inv H s"
  shows "wpo (connManager_round OS API n s)
     (\<lambda>(n', s'). fs_inv H s' \<and> (\<exists>R. managed (fst (os_time OS (world s))) R s s'))"
proof -
  obtain t w where t: "os_time OS (world s) = (t, w)" by fastforce
  have inv: "conn_inv H (locks s) (connHeap s) (connFresh s) (ConnHead s)"
    "desc_inv (IFuseDesc s) (IFuseDescInuseCnt s) (connHeap s) (ConnHead s)"
    and l: "locks s DescLock = 0" "locks s ConnLock = 0" "locks s PathCacheLock = 0" and pc: "pc_inv s"
    using assms by (simp_all add: fs_inv_def)
  let ?s = "s\<lparr>world := w, locks := (locks s)(ConnLock := Suc 0)\<rparr>"
  have "\<forall>a \<in> set (ConnHead ?s). connHeap ?s a \<noteq> None" "distinct (ConnHead ?s)"
    using inv(1) by (auto simp: conn_inv_def)
  from manager_passes [OF this, of API t n] obtain n1 s1 R u where
    s1: "connManager_passes API t n ?s = Some (n1, s1)" "R \<subseteq> set (ConnHead s)"
    "\<forall>a \<in> R. fcStatus (the (connHeap s a)) = 0" "dropConns R ?s u"
    "s1 = u\<lparr>ConnHead := filter (\<lambda>a. a \<notin> R) (ConnHead s)\<rparr>"
    "length (ConnHead s1) \<le> 5 \<or> (\<forall>a \<in> set (ConnHead s1). fcStatus (the (connHeap s a)) \<noteq> 0)"
    "\<forall>a \<in> set (ConnHead s1). \<not> stale t (the (connHeap s a))"
    by (auto simp: wpo_def)
  obtain w' lk where u: "u = ?s\<lparr>world := w', locks := lk, connHeap := (\<lambda>a. if a \<in> R then None else connHeap ?s a)\<rparr>"
    and lk: "\<forall>l. (\<forall>a \<in> R. l \<noteq> IFuseConnLock a) \<longrightarrow> lk l = locks ?s l"
    using s1(4) unfolding dropConns_def by blast
  have hp: "connHeap s1 = (\<lambda>a. if a \<in> R then None else connHeap s a)" using s1(5) u by (simp cong: if_cong)
  have sel: "locks s1 = lk" "IFuseDesc s1 = IFuseDesc s" "IFuseDescInuseCnt s1 = IFuseDescInuseCnt s"
    "connFresh s1 = connFresh s" "ConnReqWaitQue s1 = ConnReqWaitQue s" "wokenReqs s1 = wokenReqs s"
    "ConnHead s1 = filter (\<lambda>a. a \<notin> R) (ConnHead s)" "pc_inv s1" using s1(5) u pc by simp_all
  have lks: "lk ConnLock = Suc 0" "lk DescLock = 0" "lk PathCacheLock = 0" using lk l by auto
  define k where "k = nat n1"
  let ?s2 = "s1\<lparr>ConnReqWaitQue := drop k (ConnReqWaitQue s1), wokenReqs := wokenReqs s1 @ take k (ConnReqWaitQue s1)\<rparr>"
  let ?s3 = "?s2\<lparr>locks := lk(ConnLock := 0)\<rparr>"
  have run: "connManager_round OS API n s = Some (if n1 > 0 then int (k - min k (length (ConnReqWaitQue s1))) else n1, ?s3)"
    using s1(1) t l(2) wakeReqs_loop_spec [of s1 k] lks sel(1)
    by (simp add: connManager_round_def sys_def mutex_lock_def mutex_unlock_def k_def)
  have c: "conn_inv H (lk(ConnLock := 0)) (\<lambda>a. if a \<in> R then None else connHeap s a) (connFresh s)
      (filter (\<lambda>a. a \<notin> R) (ConnHead s))"
    by (rule conn_inv_drop [OF inv(1)]) (use s1(2,3) lk in auto)
  have d: "desc_inv (IFuseDesc s) (IFuseDescInuseCnt s) (\<lambda>a. if a \<in> R then None else connHeap s a)
      (filter (\<lambda>a. a \<notin> R) (ConnHead s))"
    by (rule desc_inv_drop [OF inv(2)]) (use s1(3) in auto)
  have "fs_inv H ?s3" using c d lks sel hp unfolding fs_inv_def by simp
  moreover have "managed t R s ?s3"
  proof -
    have "?s3 = s\<lparr>world := w', locks := lk(ConnLock := 0), connHeap := connHeap ?s3, ConnHead := ConnHead ?s3,
        ConnReqWaitQue := ConnReqWaitQue ?s3, wokenReqs := wokenReqs ?s3\<rparr>"
      using s1(5) u by simp
    moreover have "(lk(ConnLock := 0)) l = locks s l" if "\<forall>a. l \<noteq> IFuseConnLock a" for l using that lk l(2) by auto
    ultimately have f: "\<exists>w lk. (\<forall>l. (\<forall>a. l \<noteq> IFuseConnLock a) \<longrightarrow> lk l = locks s l) \<and>
        ?s3 = s\<lparr>world := w, locks := lk, connHeap := connHeap ?s3, ConnHead := ConnHead ?s3,
                ConnReqWaitQue := ConnReqWaitQue ?s3, wokenReqs := wokenReqs ?s3\<rparr>" by blast
    show ?thesis
      unfolding managed_def using s1(2,3,6,7) sel hp by (intro conjI f) (auto cong: if_cong)
  qed
  ultimately show ?thesis using run t by auto
qed

section \<open>The interface of the connection pool\<close>

text \<open>What a handler may change while it holds a connection: the world, the path cache, the pool, and
  no lock but those of connections.\<close>

definition hframe :: "('w, 'z) fstate_scheme \<Rightarrow> ('w, 'z) fstate_scheme \<Rightarrow> bool" where
  "hframe s s' \<longleftrightarrow>
     s'\<lparr>world := world s, locks := locks s, pcHeap := pcHeap s, pcFresh := pcFresh s, pcQue := pcQue s,
        connHeap := connHeap s, connFresh := connFresh s, ConnHead := ConnHead s,
        ConnManagerStarted := ConnManagerStarted s, connManagerRunning := connManagerRunning s\<rparr> = s \<and>
     (\<forall>l. (\<forall>a. l \<noteq> IFuseConnLock a) \<longrightarrow> locks s' l = locks s l)"

lemma hframe_refl [simp]: "hframe s s"
  by (simp add: hframe_def)

lemma hframe_upd [simp]:
  "hframe s (t\<lparr>world := w\<rparr>) = hframe s t" "hframe s (t\<lparr>pcHeap := ph\<rparr>) = hframe s t"
  "hframe s (t\<lparr>pcFresh := pf\<rparr>) = hframe s t" "hframe s (t\<lparr>pcQue := pq\<rparr>) = hframe s t"
  "hframe s (t\<lparr>connHeap := h\<rparr>) = hframe s t" "hframe s (t\<lparr>connFresh := f\<rparr>) = hframe s t"
  "hframe s (t\<lparr>ConnHead := cl\<rparr>) = hframe s t" "hframe s (t\<lparr>ConnManagerStarted := m\<rparr>) = hframe s t"
  "hframe s (t\<lparr>connManagerRunning := r\<rparr>) = hframe s t"
  by (simp_all add: hframe_def)

lemma hframe_trans [trans]: "hframe s t \<Longrightarrow> hframe t u \<Longrightarrow> hframe s u"
  unfolding hframe_def
  by (elim conjE, drule arg_cong [where f = "\<lambda>x. x\<lparr>world := world s, locks := locks s,
        pcHeap := pcHeap s, pcFresh := pcFresh s, pcQue := pcQue s,
        connHeap := connHeap s, connFresh := connFresh s, ConnHead := ConnHead s,
        ConnManagerStarted := ConnManagerStarted s, connManagerRunning := connManagerRunning s\<rparr>"
      and x = "u\<lparr>world := world t, locks := locks t, pcHeap := pcHeap t, pcFresh := pcFresh t,
        pcQue := pcQue t, connHeap := connHeap t, connFresh := connFresh t,
        ConnHead := ConnHead t, ConnManagerStarted := ConnManagerStarted t,
        connManagerRunning := connManagerRunning t\<rparr>"]) simp

lemma hframe_order:
  "t\<lparr>world := w, locks := l, pcHeap := ph, pcFresh := pf, pcQue := pq, connHeap := h, connFresh := f,
     ConnHead := cl, ConnManagerStarted := m, connManagerRunning := r\<rparr> =
   t\<lparr>world := w, locks := l, connHeap := h, connFresh := f, ConnHead := cl, ConnManagerStarted := m,
     connManagerRunning := r, pcHeap := ph, pcFresh := pf, pcQue := pq\<rparr>"
  by (cases t) simp

lemma hframe_conn: "conn_frame s s' \<Longrightarrow> hframe s s'"
  unfolding hframe_def conn_frame_def hframe_order by auto

lemma hframe_pc: "pc_frame s s' \<Longrightarrow> hframe s s'"
  by (drule pc_frame_eq, erule ssubst, simp)

lemma hframe_sel:
  assumes "hframe s s'"
  shows "IFuseDesc s' = IFuseDesc s" "IFuseDescInuseCnt s' = IFuseDescInuseCnt s" "MyRodsEnv s' = MyRodsEnv s"
    "ConnReqWaitQue s' = ConnReqWaitQue s" "wokenReqs s' = wokenReqs s"
    "fstate.more s' = fstate.more s"
    "\<And>l. (\<forall>a. l \<noteq> IFuseConnLock a) \<Longrightarrow> locks s' l = locks s l"
proof -
  let ?u = "s'\<lparr>world := world s, locks := locks s, pcHeap := pcHeap s, pcFresh := pcFresh s, pcQue := pcQue s,
        connHeap := connHeap s, connFresh := connFresh s, ConnHead := ConnHead s,
        ConnManagerStarted := ConnManagerStarted s, connManagerRunning := connManagerRunning s\<rparr>"
  have u: "?u = s" using assms by (simp add: hframe_def)
  show "IFuseDesc s' = IFuseDesc s" using arg_cong [OF u, of IFuseDesc] by simp
  show "IFuseDescInuseCnt s' = IFuseDescInuseCnt s" using arg_cong [OF u, of IFuseDescInuseCnt] by simp
  show "MyRodsEnv s' = MyRodsEnv s" using arg_cong [OF u, of MyRodsEnv] by simp
  show "ConnReqWaitQue s' = ConnReqWaitQue s" using arg_cong [OF u, of ConnReqWaitQue] by simp
  show "wokenReqs s' = wokenReqs s" using arg_cong [OF u, of wokenReqs] by simp
  show "fstate.more s' = fstate.more s" using arg_cong [OF u, of fstate.more] by simp
qed (use assms in \<open>simp_all add: hframe_def\<close>)

text \<open>The state between two handlers: the invariant, and every pooled connection has its handle.\<close>

definition ifuse_ok :: "nat set \<Rightarrow> ('w, 'z) fstate_scheme \<Rightarrow> bool" where
  "ifuse_ok H s \<longleftrightarrow> fs_inv H s \<and> pool_live s"

lemma fs_inv_avail: "fs_inv H s \<Longrightarrow> pool_live s \<Longrightarrow> conn_avail s"
  by (cases "ConnHead s") (auto simp: conn_avail_def pool_live_def live_def)

lemma server_up_login: "server_up API \<Longrightarrow> login_ok API"
  by (simp add: server_up_def login_ok_def)

lemma fs_inv_held: "fs_inv H s \<Longrightarrow> a \<in> H \<Longrightarrow> \<exists>c. connHeap s a = Some c"
  by (auto simp: fs_inv_def conn_inv_def)

lemma ifuse_ok_live: "ifuse_ok H s \<Longrightarrow> a \<in> H \<Longrightarrow> live a s"
  by (auto simp: ifuse_ok_def fs_inv_def conn_inv_def pool_live_def)

lemma getIFuseConn_up:
  assumes "server_up API" "ifuse_ok {} s"
  shows "wpo (getIFuseConn OS API s) (\<lambda>((r, out), s'). r = 0 \<and> hframe s s' \<and> (\<exists>a. out = Some a \<and> ifuse_ok {a} s'))"
proof -
  have "wpo (getIFuseConn OS API s) (get_post API s)"
    using assms by (intro getIFuseConn_ok fs_inv_avail server_up_login) (auto simp: ifuse_ok_def)
  then show ?thesis
    by (rule wpo_mono) (use assms in \<open>auto simp: get_post_def ifuse_ok_def hframe_conn split: option.splits\<close>)
qed

lemma getIFuseConnByPath_up:
  assumes "server_up API" "ifuse_ok {} s"
  shows "wpo (getIFuseConnByPath OS API p s) (\<lambda>((r, out), s'). r = 0 \<and> hframe s s' \<and> (\<exists>a. out = Some a \<and> ifuse_ok {a} s'))"
proof -
  have "wpo (getIFuseConnByPath OS API p s) (get_post API s)"
    using assms by (intro getIFuseConnByPath_ok fs_inv_avail server_up_login) (auto simp: ifuse_ok_def)
  then show ?thesis
    by (rule wpo_mono) (use assms in \<open>auto simp: get_post_def ifuse_ok_def hframe_conn split: option.splits\<close>)
qed

lemma relIFuseConn_up:
  assumes "ifuse_ok {a} s"
  shows "wpo (relIFuseConn OS (Some a) s) (\<lambda>(r, s'). r = 0 \<and> hframe s s' \<and> ifuse_ok {} s')"
proof -
  have inv: "fs_inv {a} s" "pool_live s" using assms by (simp_all add: ifuse_ok_def)
  obtain c where c: "connHeap s a = Some c" using fs_inv_held [OF inv(1)] by auto
  show ?thesis
    by (rule wpo_mono [OF relIFuseConn_ok [OF inv(1) c]])
      (use inv(2) in \<open>auto simp: ifuse_ok_def intro: hframe_conn pool_live_same\<close>)
qed

lemma pool_live_one:
  assumes "pool_live s" "ConnHead s' = ConnHead s" "\<forall>b. b \<noteq> a \<longrightarrow> connHeap s' b = connHeap s b" "live a s'"
  shows "pool_live s'"
  unfolding pool_live_def
proof
  fix b assume "b \<in> set (ConnHead s')"
  then show "live b s'" using assms by (cases "b = a") (auto simp: pool_live_def live_def)
qed

lemma ifuseReconnect_up:
  assumes "server_up API" "ifuse_ok {a} s"
  shows "wpo (ifuseReconnect API (Some a) s) (\<lambda>(r, s'). hframe s s' \<and> ifuse_ok {a} s')"
proof -
  have inv: "fs_inv {a} s" "pool_live s" using assms(2) by (simp_all add: ifuse_ok_def)
  obtain c where c: "connHeap s a = Some c" using fs_inv_held [OF inv(1)] by auto
  have "live a s" using ifuse_ok_live [OF assms(2)] by simp
  then show ?thesis
    by (intro wpo_mono [OF ifuseReconnect_ok [OF inv(1) c]])
      (use inv(2) assms(1) in \<open>auto simp: ifuse_ok_def intro: hframe_conn pool_live_one\<close>)
qed

text \<open>The contract the handlers rely on. The laws hold while the server answers (\<open>up\<close>).\<close>

locale conn_pool =
  fixes up :: bool and ok :: "nat set \<Rightarrow> 's \<Rightarrow> bool" and keeps :: "'s \<Rightarrow> 's \<Rightarrow> bool"
    and get :: "'s \<Rightarrow> ((int \<times> nat option) \<times> 's) option"
    and rel :: "nat option \<Rightarrow> 's \<Rightarrow> (int \<times> 's) option"
    and reconnect :: "nat option \<Rightarrow> 's \<Rightarrow> (int \<times> 's) option"
  assumes keeps_trans: "keeps s t \<Longrightarrow> keeps t u \<Longrightarrow> keeps s u"
    and get_law: "up \<Longrightarrow> ok {} s \<Longrightarrow>
          wpo (get s) (\<lambda>((r, out), s'). r = 0 \<and> keeps s s' \<and> (\<exists>a. out = Some a \<and> ok {a} s'))"
    and rel_law: "ok {a} s \<Longrightarrow> wpo (rel (Some a) s) (\<lambda>(r, s'). r = 0 \<and> keeps s s' \<and> ok {} s')"
    and reconnect_law: "up \<Longrightarrow> ok {a} s \<Longrightarrow> wpo (reconnect (Some a) s) (\<lambda>(r, s'). keeps s s' \<and> ok {a} s')"
begin

text \<open>A request that is repeated once after a lost connection.\<close>

lemma retry_ok:
  assumes "up" "ok {a} s" "\<And>s. ok {a} s \<Longrightarrow> wpo (req s) (\<lambda>(r, s'). keeps s s' \<and> ok {a} s')"
  shows "wpo (req s \<bind> (\<lambda>(r, s1). if P r then reconnect (Some a) s1 \<bind> (\<lambda>(_, s). req s) else Some (r, s1)))
    (\<lambda>(r, s'). keeps s s' \<and> ok {a} s')"
  using assms(1,2)
  by (auto intro!: wpo_mono [OF assms(3)] wpo_mono [OF reconnect_law]) (meson keeps_trans)

text \<open>A handler that takes a connection, works with it and gives it back.\<close>

lemma bracket_ok:
  assumes "up" "ok {} s" "\<And>a s. ok {a} s \<Longrightarrow> wpo (body a s) (\<lambda>(r, s'). keeps s s' \<and> ok {a} s')"
  shows "wpo (get s \<bind> (\<lambda>((_, out), s). out \<bind> (\<lambda>a. body a s \<bind> (\<lambda>(r, s). rel out s \<bind> (\<lambda>(_, s). Some (r, s))))))
    (\<lambda>(r, s'). keeps s s' \<and> ok {} s')"
  using assms(1,2)
  by (auto intro!: wpo_mono [OF get_law] wpo_mono [OF assms(3)] wpo_mono [OF rel_law]) (meson keeps_trans)

end

interpretation cp: conn_pool "server_up API" ifuse_ok hframe "getIFuseConn OS API" "relIFuseConn OS"
  "ifuseReconnect API" for OS API
  by unfold_locales
    (auto intro: hframe_trans getIFuseConn_up relIFuseConn_up ifuseReconnect_up)

interpretation cpp: conn_pool "server_up API" ifuse_ok hframe "getIFuseConnByPath OS API p" "relIFuseConn OS"
  "ifuseReconnect API" for OS API p
  by unfold_locales
    (auto intro: hframe_trans getIFuseConnByPath_up relIFuseConn_up ifuseReconnect_up)

section \<open>The pool as a state machine\<close>

text \<open>The steps of a handler that holds the connections \<open>H\<close>, interleaved with rounds of the manager.\<close>

inductive pool_step ::
  "'w os \<Rightarrow> 'w irods \<Rightarrow> nat set \<times> ('w, 'z) fstate_scheme \<Rightarrow> nat set \<times> ('w, 'z) fstate_scheme \<Rightarrow> bool"
  for OS API where
  get: "getIFuseConn OS API s = Some ((r, out), s') \<Longrightarrow> conn_avail s \<Longrightarrow> pool_step OS API ({}, s) (set_option out, s')"
| get_by_path: "getIFuseConnByPath OS API p s = Some ((r, out), s') \<Longrightarrow> conn_avail s \<Longrightarrow>
    pool_step OS API ({}, s) (set_option out, s')"
| rel: "a \<in> H \<Longrightarrow> relIFuseConn OS (Some a) s = Some (r, s') \<Longrightarrow> pool_step OS API (H, s) (H - {a}, s')"
| reconnect: "a \<in> H \<Longrightarrow> ifuseReconnect API (Some a) s = Some (r, s') \<Longrightarrow> pool_step OS API (H, s) (H, s')"
| alloc: "allocIFuseDesc s = Some (i, s') \<Longrightarrow> pool_step OS API (H, s) (H, s')"
| fill: "inuse s i \<Longrightarrow> a \<in> H \<Longrightarrow> fillIFuseDesc i (Some a) fd obj (Some p) s = Some (r, s') \<Longrightarrow>
    pool_step OS API (H, s) (H, s')"
| free: "inuse s i \<Longrightarrow> set_option (fdConn (IFuseDesc s i)) \<inter> H = {} \<Longrightarrow> freeIFuseDesc OS i s = Some (r, s') \<Longrightarrow>
    pool_step OS API (H, s) (H, s')"
| manager: "connManager_round OS API n s = Some (n', s') \<Longrightarrow> pool_step OS API (H, s) (H, s')"

inductive_cases pool_stepE: "pool_step OS API (H, s) (H', s')"

lemma get_post_inv: "get_post API s ((r, out), s') \<Longrightarrow> fs_inv (set_option out) s'"
  by (auto simp: get_post_def split: option.splits)

lemma fs_inv_held': "fs_inv H s \<Longrightarrow> a \<in> H \<Longrightarrow> a \<in> set (ConnHead s) \<and> (\<exists>c. connHeap s a = Some c \<and> fcStatus c = 1)"
  unfolding fs_inv_def conn_inv_def by blast

lemma pool_step_inv:
  assumes "login_ok API" "pool_step OS API x y" "fs_inv (fst x) (snd x)"
  shows "fs_inv (fst y) (snd y)"
  using assms(2,3)
proof (induction rule: pool_step.induct)
  case (get s r out s')
  then show ?case using getIFuseConn_ok [of s API OS] assms(1) get_post_inv by simp
next
  case (get_by_path p s r out s')
  then show ?case using getIFuseConnByPath_ok [of s API OS p] assms(1) get_post_inv by simp
next
  case (rel a H s r s')
  then show ?case using fs_inv_held [of H s a] relIFuseConn_ok [of H s a _ OS] by fastforce
next
  case (reconnect a H s r s')
  then show ?case using fs_inv_held [of H s a] ifuseReconnect_ok [of H s a _ API] by fastforce
next
  case (alloc s i s' H)
  then show ?case using allocIFuseDesc_ok [of H s] by (auto simp del: not_less split: if_splits)
next
  case (fill s i a H fd obj p r s')
  then show ?case
    using fillIFuseDesc_ok [of H s i "Some a" "Some p" fd obj] fs_inv_held' [of H s a] by simp
next
  case (free s i H r s')
  then show ?case using freeIFuseDesc_ok [of H s i OS] by (auto simp: disjoint_iff)
next
  case (manager n s n' s' H)
  then show ?case using connManager_round_ok [of H s OS API n] by simp
qed

lemma pool_steps_inv:
  "(pool_step OS API)\<^sup>*\<^sup>* x y \<Longrightarrow> login_ok API \<Longrightarrow> fs_inv (fst x) (snd x) \<Longrightarrow> fs_inv (fst y) (snd y)"
  by (induction rule: rtranclp_induct) (auto intro: pool_step_inv)

section \<open>Results\<close>

definition upAPI :: "'w irods" where
  "upAPI = \<lparr>rcConnect = (\<lambda>w. ((Some 7, 0), w)), clientLogin = (\<lambda>_ w. (0, w)), rcDisconnect = (\<lambda>_ w. (0, w)),
     rcDataObjOpen = (\<lambda>_ _ w. (5, w)), rcDataObjCreate = (\<lambda>_ _ w. (5, w)), rcDataObjClose = (\<lambda>_ _ w. (0, w)),
     rcDataObjRead = (\<lambda>_ _ _ w. ((0, []), w)), rcDataObjWrite = (\<lambda>_ _ b w. (int (length b), w)),
     rcDataObjLseek = (\<lambda>_ _ _ w. (0, w)), rcDataObjPut = (\<lambda>_ _ _ w. (0, w)), rcDataObjGet = (\<lambda>_ _ _ w. (0, w)),
     rcDataObjUnlink = (\<lambda>_ _ w. (0, w)), rcDataObjRename = (\<lambda>_ _ _ w. (0, w)),
     rcDataObjTruncate = (\<lambda>_ _ w. (0, w)), rcObjStat = (\<lambda>_ _ w. ((-310000, None), w)),
     rcCollCreate = (\<lambda>_ _ w. (0, w)), rcRmColl = (\<lambda>_ _ _ w. (0, w)), rcModDataObjMeta = (\<lambda>_ _ _ w. (0, w)),
     rclOpenCollection = (\<lambda>_ _ w. ((0, 1), w)),
     rclReadCollection = (\<lambda>_ _ w. ((-1, \<lparr>ce_objType = RODS_UNKNOWN, ce_collName = [], ce_dataName = [],
       ce_dataMode = 0, ce_dataSize = 0, ce_createTime = [], ce_modifyTime = []\<rparr>), w)),
     rclCloseCollection = (\<lambda>_ w. (0, w)), getUtil = (\<lambda>_ _ _ w. (0, w)), putUtil = (\<lambda>_ _ _ w. (0, w))\<rparr>"

definition fs_start :: "'w \<Rightarrow> 'w fstate" where
  "fs_start w = \<lparr>world = w, locks = (\<lambda>_. 0), pcHeap = Map.empty, pcFresh = 0, pcQue = (\<lambda>_ _. emptyQue),
     IFuseDesc = (\<lambda>_. zeroDesc), IFuseDescInuseCnt = 0, connHeap = Map.empty, connFresh = 0, ConnHead = [],
     ConnManagerStarted = 0, connManagerRunning = False, ConnReqWaitQue = [], wokenReqs = [],
     MyRodsEnv = \<lparr>envHome = ''/z/home/u'', envCwd = ''/z/home/u'', envDefResource = [], envUserName = ''u''\<rparr>\<rparr>"

lemma upAPI_up [simp]: "server_up upAPI" "login_ok upAPI"
  by (simp_all add: server_up_def login_ok_def upAPI_def)

lemma fs_start_ok [simp]: "fs_inv {} (fs_start w)" "pool_live (fs_start w)"
proof -
  have "pc_sim (\<lambda>_ _. []) (initPathCache_arrays (fs_start w))" by (rule pc_sim_init) (simp add: fs_start_def)
  then have "pc_inv (fs_start w)"
    unfolding pc_inv_def by (simp add: initPathCache_arrays_def fs_start_def) blast
  then show "fs_inv {} (fs_start w)"
    by (simp add: fs_inv_def conn_inv_def desc_inv_def fs_start_def zeroDesc_def)
  show "pool_live (fs_start w)" by (simp add: pool_live_def fs_start_def)
qed





text \<open>\<open>iFuseConnInuse\<close> stops its scan of the table as soon as it has seen as many descriptors as are
  in use; its answer is nevertheless that of a scan of the whole table.\<close>

lemma iFuseConnInuse_scans_all:
  assumes "fs_inv H s"
  shows "iFuseConnInuse (Some a) s =
     Some (if \<exists>i. 3 \<le> i \<and> i < MAX_IFUSE_DESC \<and> fdInuseFlag (IFuseDesc s i) = IRODS_INUSE \<and>
                  fdConn (IFuseDesc s i) = Some a then 1 else 0, s)"
proof -
  have "cnt_ok s" "locks s DescLock = 0" using cnt_ok_fs [OF assms, of "locks s"] assms by (simp_all add: fs_inv_def)
  from iFuseConnInuse_eq [OF this, of a] show ?thesis by (auto simp: wpo_def inuse_def)
qed

text \<open>Descriptors: allocation gives a clear descriptor between 3 and 511 that was not in use, and
  fails only when all are in use; freeing it at once gives the table back as it was.\<close>

lemma alloc_free_descriptor:
  assumes "fs_inv H s"
  shows "wpo (allocIFuseDesc s) (\<lambda>(i, s1).
     if i < 0 then s1 = s \<and> i = SYS_OUT_OF_FILE_DESC \<and> (\<forall>j. 3 \<le> j \<and> j < MAX_IFUSE_DESC \<longrightarrow> inuse s j)
     else 3 \<le> i \<and> i < MAX_IFUSE_DESC \<and> \<not> inuse s i \<and> fs_inv H s1 \<and>
       IFuseDesc s1 i = zeroDesc\<lparr>fdInuseFlag := IRODS_INUSE\<rparr> \<and>
       wpo (freeIFuseDesc OS i s1) (\<lambda>(r, s2). r = 0 \<and> fs_inv H s2 \<and> IFuseDesc s2 = IFuseDesc s \<and>
         IFuseDescInuseCnt s2 = IFuseDescInuseCnt s))"
proof (rule wpo_mono [OF allocIFuseDesc_ok [OF assms]], clarify)
  fix i s1
  assume p: "if i < 0 then s1 = s \<and> i = SYS_OUT_OF_FILE_DESC \<and> (\<forall>j. 3 \<le> j \<and> j < MAX_IFUSE_DESC \<longrightarrow> inuse s j)
     else fs_inv H s1 \<and> 3 \<le> i \<and> i < MAX_IFUSE_DESC \<and> \<not> inuse s i \<and> inuse s1 i \<and>
       s1 = s\<lparr>locks := (locks s)(IFuseDescLock i := 0),
              IFuseDesc := (IFuseDesc s)(i := zeroDesc\<lparr>fdInuseFlag := IRODS_INUSE\<rparr>),
              IFuseDescInuseCnt := IFuseDescInuseCnt s + 1\<rparr>"
  show "if i < 0 then s1 = s \<and> i = SYS_OUT_OF_FILE_DESC \<and> (\<forall>j. 3 \<le> j \<and> j < MAX_IFUSE_DESC \<longrightarrow> inuse s j)
     else 3 \<le> i \<and> i < MAX_IFUSE_DESC \<and> \<not> inuse s i \<and> fs_inv H s1 \<and>
       IFuseDesc s1 i = zeroDesc\<lparr>fdInuseFlag := IRODS_INUSE\<rparr> \<and>
       wpo (freeIFuseDesc OS i s1) (\<lambda>(r, s2). r = 0 \<and> fs_inv H s2 \<and> IFuseDesc s2 = IFuseDesc s \<and>
         IFuseDescInuseCnt s2 = IFuseDescInuseCnt s)"
  proof (cases "i < 0")
    case True
    with p show ?thesis by simp
  next
    case False
    note p' = p [unfolded if_not_P [OF False]]
    then have i: "fs_inv H s1" "3 \<le> i" "i < 512" "\<not> inuse s i" "inuse s1 i"
      by blast+
    from p' have tabs: "IFuseDesc s1 = (IFuseDesc s)(i := zeroDesc\<lparr>fdInuseFlag := 1\<rparr>)"
      "IFuseDescInuseCnt s1 = IFuseDescInuseCnt s + 1" by auto
    have "IFuseDesc s i = zeroDesc"
      using assms i(2-4) by (auto simp: fs_inv_def desc_inv_def inuse_def)
    then have tab: "(IFuseDesc s1)(i := zeroDesc) = IFuseDesc s" using tabs by auto
    have "fdConn (IFuseDesc s1 i) = None" using tabs by (simp add: zeroDesc_def)
    then have "wpo (freeIFuseDesc OS i s1) (\<lambda>(r, s2). r = 0 \<and> fs_inv H s2 \<and> IFuseDesc s2 = IFuseDesc s \<and>
         IFuseDescInuseCnt s2 = IFuseDescInuseCnt s)"
      using tab tabs(2) by (intro wpo_mono [OF freeIFuseDesc_ok [OF i(1,5)]]) (auto simp: conn_frame_sel(1,2))
    with False i tabs show ?thesis by simp
  qed
qed

lemma disconnectAll_loop_ok:
  "\<forall>a \<in> set as. connHeap s a \<noteq> None \<Longrightarrow>
   wpo (disconnectAll_loop API as s) (\<lambda>s'. locks s' = locks s \<and> ConnHead s' = ConnHead s \<and>
     (\<forall>a. (a \<in> set as \<longrightarrow> \<not> live a s') \<and> (\<not> live a s \<longrightarrow> \<not> live a s')))"
proof (induction as arbitrary: s)
  case (Cons a as)
  obtain c where c: "connHeap s a = Some c" using Cons.prems by auto
  show ?case
  proof (cases "fcConn c")
    case None
    then have "\<not> live a s" using c by (simp add: live_def)
    with None c show ?thesis using Cons.prems by (auto intro!: wpo_mono [OF Cons.IH])
  next
    case (Some h)
    let ?s = "\<lambda>w. setConn a (c\<lparr>fcConn := None\<rparr>) (s\<lparr>world := w\<rparr>)"
    have l: "\<not> live a (?s w)" "\<not> live b s \<Longrightarrow> \<not> live b (?s w)" for w b by (auto simp: live_def setConn_def)
    have "wpo (disconnectAll_loop API as (?s w)) (\<lambda>s'. locks s' = locks s \<and> ConnHead s' = ConnHead s \<and>
     (\<forall>b. (b \<in> set (a # as) \<longrightarrow> \<not> live b s') \<and> (\<not> live b s \<longrightarrow> \<not> live b s')))" for w
    proof (rule wpo_mono [OF Cons.IH])
      show "\<forall>b \<in> set as. connHeap (?s w) b \<noteq> None" using Cons.prems by (simp add: setConn_def)
    next
      fix s' assume s': "locks s' = locks (?s w) \<and> ConnHead s' = ConnHead (?s w) \<and>
        (\<forall>b. (b \<in> set as \<longrightarrow> \<not> live b s') \<and> (\<not> live b (?s w) \<longrightarrow> \<not> live b s'))"
      then have "\<not> live a s'" "\<not> live b s \<Longrightarrow> \<not> live b s'" for b using l by blast+
      with s' show "locks s' = locks s \<and> ConnHead s' = ConnHead s \<and>
        (\<forall>b. (b \<in> set (a # as) \<longrightarrow> \<not> live b s') \<and> (\<not> live b s \<longrightarrow> \<not> live b s'))"
        by (auto simp: setConn_def)
    qed
    with c Some show ?thesis by (simp add: sys_def case_prod_beta)
  qed
qed simp

text \<open>\<open>disconnectAll\<close> closes every connection of the list but never releases \<open>ConnLock\<close>: whoever
  asks for a connection, gives one back or signals the manager afterwards is blocked.\<close>

lemma disconnectAll_keeps_lock:
  assumes "fs_inv {} s"
  shows "\<exists>s'. disconnectAll API s = Some (0, s') \<and> (\<forall>a \<in> set (ConnHead s'). \<not> live a s') \<and>
     locks s' ConnLock = 1 \<and> getIFuseConn OS API s' = None \<and> signalConnManager s' = None"
proof -
  let ?s = "s\<lparr>locks := (locks s)(ConnLock := Suc 0)\<rparr>"
  have "\<forall>a \<in> set (ConnHead s). connHeap ?s a \<noteq> None" "locks s ConnLock = 0"
    using assms by (auto simp: fs_inv_def conn_inv_def)
  with disconnectAll_loop_ok [of "ConnHead s" ?s API] obtain s' where
    s': "disconnectAll_loop API (ConnHead s) ?s = Some s'" "locks s' = (locks s)(ConnLock := Suc 0)"
    "\<forall>a \<in> set (ConnHead s'). \<not> live a s'" "locks s ConnLock = 0" by (auto simp: wpo_def)
  then show ?thesis
    by (intro exI [of _ s']) (simp add: disconnectAll_def mutex_lock_def getIFuseConn_def signalConnManager_def)
qed

end
