(* ===== verification/Fuse_IO.thy ===== *)
theory Fuse_IO
  imports Conn_Pool
begin

text \<open>
  Reading, writing, seeking and closing through a descriptor (\<open>clients/fuse/src/iFuseLib.c\<close>). A
  descriptor is open either on a data object of the server (\<open>NO_FILE_CACHE\<close>: requests go over the
  descriptor's connection) or on a local copy (a read copy, or a newly created file that is put to
  the server when it is closed or grows beyond 4 MB).

  The theory shows that every operation keeps the invariant of the pool and of the table and leaves
  no lock behind, whatever server and operating system answer, and that with a server and a kernel
  that keep a position per open file, a read or write at an offset is one at that offset.
\<close>

section \<open>Operations\<close>

abbreviation (input) MAX_READ_CACHE_SIZE :: int where "MAX_READ_CACHE_SIZE \<equiv> 1048576"
abbreviation (input) MAX_NEWLY_CREATED_CACHE_SIZE :: int where "MAX_NEWLY_CREATED_CACHE_SIZE \<equiv> 4194304"

abbreviation (input) FORCE_FLAG_KW :: string where "FORCE_FLAG_KW \<equiv> ''forceFlag''"
abbreviation (input) DATA_TYPE_KW :: string where "DATA_TYPE_KW \<equiv> ''dataType''"
abbreviation (input) RESC_NAME_KW :: string where "RESC_NAME_KW \<equiv> ''rescName''"
abbreviation (input) DEST_RESC_NAME_KW :: string where "DEST_RESC_NAME_KW \<equiv> ''destRescName''"

text \<open>\<open>errno ? (-1 * errno) : -1\<close>.\<close>

definition errnoStatus :: "'w os \<Rightarrow> ('w, 'z) base_scheme \<Rightarrow> (int \<times> ('w, 'z) base_scheme) option" where
  "errnoStatus OS s = do { (e, s) \<leftarrow> sys (os_errno OS) s; Some (if e \<noteq> 0 then -1 * e else -1, s) }"

text \<open>\<open>(myError = getErrno (status)) > 0 ? -myError : -ENOENT\<close>.\<close>

definition negErrno :: "int \<Rightarrow> int" where
  "negErrno status = (if getErrno status > 0 then - getErrno status else - ENOENT)"

text \<open>\<open>parseRodsPathStr (path + 1, &MyRodsEnv, out)\<close>: the path without its first character. The local
  structure of \<open>parseRodsPathStr\<close> is not initialised.\<close>

definition parseFusePath ::
  "'w os \<Rightarrow> string \<Rightarrow> string \<Rightarrow> ('w, 'z) fstate_scheme \<Rightarrow> ((int \<times> string) \<times> ('w, 'z) fstate_scheme) option" where
  "parseFusePath OS path out s = (case path of
     [] \<Rightarrow> None
   | _ # p \<Rightarrow> do {
       (stk, s) \<leftarrow> sys (os_stackPath OS) s;
       (status, out) \<leftarrow> parseRodsPathStr stk p (Some (MyRodsEnv s)) out;
       Some ((status, out), s)
     })"

definition closeIrodsFd ::
  "'w irods \<Rightarrow> rcComm option \<Rightarrow> int \<Rightarrow> ('w, 'z) base_scheme \<Rightarrow> (int \<times> ('w, 'z) base_scheme) option" where
  "closeIrodsFd API conn fd s = sys (rcDataObjClose API conn fd) s"

definition ifusePut ::
  "'w os \<Rightarrow> 'w irods \<Rightarrow> rcComm option \<Rightarrow> string \<Rightarrow> string \<Rightarrow> int \<Rightarrow> int \<Rightarrow> ('w, 'z) fstate_scheme \<Rightarrow>
   (int \<times> ('w, 'z) fstate_scheme) option" where
  "ifusePut OS API conn path locPath mode srcSize s = do {
     ((status, objPath), s) \<leftarrow> parseFusePath OS path [] s;
     if status < 0 then Some (- ENOTDIR, s)
     else do {
       (_, kv) \<leftarrow> addKeyVal emptyKeyVal FORCE_FLAG_KW [];
       (_, kv) \<leftarrow> addKeyVal kv DATA_TYPE_KW ''generic'';
       kv \<leftarrow> (let resc = envDefResource (MyRodsEnv s) in
              if length resc > 0 then map_option snd (addKeyVal kv DEST_RESC_NAME_KW resc) else Some kv);
       sys (rcDataObjPut API conn
         (zero_dataObjInp\<lparr>di_objPath := objPath, di_dataSize := srcSize, di_createMode := mode,
            di_openFlags := O_RDWR, di_condInput := kv\<rparr>) locPath) s
     }
   }"

text \<open>The result is the status and, on success, the path of the object.\<close>

definition dataObjCreateByFusePath ::
  "'w os \<Rightarrow> 'w irods \<Rightarrow> rcComm option \<Rightarrow> string \<Rightarrow> int \<Rightarrow> string \<Rightarrow> ('w, 'z) fstate_scheme \<Rightarrow>
   ((int \<times> string) \<times> ('w, 'z) fstate_scheme) option" where
  "dataObjCreateByFusePath OS API conn path mode outIrodsPath s = do {
     ((status, objPath), s) \<leftarrow> parseFusePath OS path [] s;
     if status < 0 then Some ((- ENOTDIR, outIrodsPath), s)
     else do {
       kv \<leftarrow> (let resc = envDefResource (MyRodsEnv s) in
              if length resc > 0 then map_option snd (addKeyVal emptyKeyVal RESC_NAME_KW resc)
              else Some emptyKeyVal);
       (_, kv) \<leftarrow> addKeyVal kv DATA_TYPE_KW ''generic'';
       (status, s) \<leftarrow> sys (rcDataObjCreate API conn
         (zero_dataObjInp\<lparr>di_objPath := objPath, di_createMode := mode, di_openFlags := O_RDWR,
            di_dataSize := -1, di_condInput := kv\<rparr>)) s;
       Some ((status, if status \<ge> 0 then snd (rstrcpy outIrodsPath objPath (int MAX_NAME_LEN)) else outIrodsPath), s)
     }
   }"

text \<open>\<open>IFuseDesc[descInx].iFuseConn != NULL && IFuseDesc[descInx].iFuseConn->conn != NULL\<close>, as the
  connection it finds.\<close>

definition descConn :: "int \<Rightarrow> ('w, 'z) fstate_scheme \<Rightarrow> nat option option" where
  "descConn descInx s = do {
     d \<leftarrow> getDesc descInx s;
     (case fdConn d of
        None \<Rightarrow> Some None
      | Some a \<Rightarrow> do { c \<leftarrow> connHeap s a; Some (if fcConn c \<noteq> None then Some a else None) })
   }"

text \<open>A request over the descriptor's connection, between \<open>useIFuseConn\<close> and \<open>unuseIFuseConn\<close>; without
  a live connection the request is not made and the result is \<open>dflt\<close>.\<close>

definition withDescConn ::
  "'w os \<Rightarrow> int \<Rightarrow> (rcComm option \<Rightarrow> ('w, 'z) fstate_scheme \<Rightarrow> ('a \<times> ('w, 'z) fstate_scheme) option) \<Rightarrow> 'a \<Rightarrow>
   ('w, 'z) fstate_scheme \<Rightarrow> ('a \<times> ('w, 'z) fstate_scheme) option" where
  "withDescConn OS descInx req dflt s = do {
     conn \<leftarrow> descConn descInx s;
     (case conn of
        None \<Rightarrow> Some (dflt, s)
      | Some a \<Rightarrow> do {
          (_, s) \<leftarrow> useIFuseConn OS (Some a) s;
          c \<leftarrow> connHeap s a;
          (r, s) \<leftarrow> req (fcConn c) s;
          (_, s) \<leftarrow> unuseIFuseConn OS (Some a) s;
          Some (r, s)
        })
   }"

definition ifuseLseek ::
  "'w os \<Rightarrow> 'w irods \<Rightarrow> string \<Rightarrow> int \<Rightarrow> int \<Rightarrow> ('w, 'z) fstate_scheme \<Rightarrow> (int \<times> ('w, 'z) fstate_scheme) option" where
  "ifuseLseek OS API path descInx offset s = do {
     d \<leftarrow> getDesc descInx s;
     if fdOffset d \<noteq> offset then do {
       (status, s) \<leftarrow>
         (if fdLocCacheState d = NO_FILE_CACHE then
            withDescConn OS descInx (\<lambda>conn. sys (rcDataObjLseek API conn (fdIFd d) offset)) (- ENOENT) s
          else do {
            (lstatus, s) \<leftarrow> sys (os_lseek OS (fdIFd d) offset) s;
            Some (if lstatus \<ge> 0 then 0 else toInt32 lstatus, s)
          });
       if status < 0 then Some (status, s)
       else do { d \<leftarrow> getDesc descInx s; Some (0, setDesc descInx (d\<lparr>fdOffset := offset\<rparr>) s) }
     } else Some (0, s)
   }"

definition addOffset :: "int \<Rightarrow> int \<Rightarrow> ('w, 'z) fstate_scheme \<Rightarrow> ('w, 'z) fstate_scheme option" where
  "addOffset descInx status s = do {
     d \<leftarrow> getDesc descInx s;
     Some (setDesc descInx (d\<lparr>fdOffset := fdOffset d + status\<rparr>) s)
   }"

text \<open>\<open>ifuseRead\<close> also gives the bytes stored in the caller's buffer.\<close>

definition ifuseRead ::
  "'w os \<Rightarrow> 'w irods \<Rightarrow> string \<Rightarrow> int \<Rightarrow> int \<Rightarrow> ('w, 'z) fstate_scheme \<Rightarrow>
   ((int \<times> string) \<times> ('w, 'z) fstate_scheme) option" where
  "ifuseRead OS API path descInx sz s = do {
     d \<leftarrow> getDesc descInx s;
     if fdLocCacheState d = NO_FILE_CACHE then do {
       conn \<leftarrow> descConn descInx s;
       ((status, buf), s) \<leftarrow>
          withDescConn OS descInx (\<lambda>conn. sys (rcDataObjRead API conn (fdIFd d) sz)) (- ENOENT, []) s;
       if status < 0 \<and> conn \<noteq> None then Some ((negErrno status, buf), s)
       else do { s \<leftarrow> addOffset descInx status s; Some ((status, buf), s) }
     } else do {
       ((status, buf), s) \<leftarrow> sys (os_read OS (fdIFd d) sz) s;
       if status < 0 then do { (e, s) \<leftarrow> errnoStatus OS s; Some ((e, buf), s) }
       else do { s \<leftarrow> addOffset descInx status s; Some ((status, buf), s) }
     }
   }"

text \<open>Giving up on a local copy: close it and drop the path's cache entry.\<close>

definition dropLocal ::
  "'w os \<Rightarrow> int \<Rightarrow> string \<Rightarrow> ('w, 'z) fstate_scheme \<Rightarrow> ('w, 'z) fstate_scheme option" where
  "dropLocal OS fd path s = do {
     (_, s) \<leftarrow> sys (os_close OS fd) s;
     (_, s) \<leftarrow> rmPathFromCache OS path PathArray s;
     Some s
   }"

text \<open>The part of \<open>ifuseWrite\<close> that moves a local copy of 4 MB or more to the server: \<open>Inl\<close> is the
  status of an early return. The block read into is as long as the file; what the read does not
  fill is uninitialised.\<close>

definition uploadNewlyCreated ::
  "'w os \<Rightarrow> 'w irods \<Rightarrow> string \<Rightarrow> int \<Rightarrow> ('w, 'z) fstate_scheme \<Rightarrow>
   ((int + unit) \<times> ('w, 'z) fstate_scheme) option" where
  "uploadNewlyCreated OS API path descInx s = do {
     d \<leftarrow> getDesc descInx s;
     (irodsFd, s) \<leftarrow> withDescConn OS descInx
        (\<lambda>conn s. do { ((r, _), s) \<leftarrow> dataObjCreateByFusePath OS API conn path (fdCreateMode d) [] s; Some (r, s) })
        (- ENOENT) s;
     if irodsFd < 0 then do { s \<leftarrow> dropLocal OS (fdIFd d) path s; Some (Inl (- ENOENT), s) }
     else do {
       ((status1, stbuf), s) \<leftarrow> sys (os_fstat OS (fdIFd d)) s;
       if status1 < 0 then do {
         s \<leftarrow> dropLocal OS (fdIFd d) path s;
         (e, s) \<leftarrow> errnoStatus OS s;
         Some (Inl e, s)
       } else do {
         (mem, s) \<leftarrow> sys (os_malloc OS (st_size stbuf)) s;
         (_, s) \<leftarrow> sys (os_lseek OS (fdIFd d) 0) s;
         ((status1, bytes), s) \<leftarrow> sys (os_read OS (fdIFd d) (st_size stbuf)) s;
         if status1 < 0 then do {
           s \<leftarrow> dropLocal OS (fdIFd d) path s;
           (e, s) \<leftarrow> errnoStatus OS s;
           Some (Inl e, s)
         } else do {
           (status1, s) \<leftarrow> withDescConn OS descInx
              (\<lambda>conn. sys (rcDataObjWrite API conn irodsFd (bytes @ drop (length bytes) mem))) (- ENOENT) s;
           s \<leftarrow> dropLocal OS (fdIFd d) path s;
           d \<leftarrow> getDesc descInx s;
           if status1 < 0 then Some (Inl (negErrno status1), setDesc descInx (d\<lparr>fdIFd := 0\<rparr>) s)
           else do {
             let s = setDesc descInx (d\<lparr>fdIFd := irodsFd, fdLocCacheState := NO_FILE_CACHE, fdNewFlag := 0, fdOffset := 0\<rparr>) s;
             (status1, s) \<leftarrow> ifuseLseek OS API path descInx (fdOffset d) s;
             Some (if status1 < 0 then Inl (negErrno status1) else Inr (), s)
           }
         }
       }
     }
   }"

text \<open>\<open>bytesWritten\<close> counts what was written to the file since it was opened.\<close>

definition addWritten :: "int \<Rightarrow> int \<Rightarrow> ('w, 'z) fstate_scheme \<Rightarrow> (int \<times> ('w, 'z) fstate_scheme) option" where
  "addWritten descInx status s = do {
     d \<leftarrow> getDesc descInx s;
     Some (status, setDesc descInx (d\<lparr>fdBytesWritten := fdBytesWritten d + status\<rparr>) s)
   }"

definition ifuseWrite ::
  "'w os \<Rightarrow> 'w irods \<Rightarrow> string \<Rightarrow> int \<Rightarrow> string \<Rightarrow> ('w, 'z) fstate_scheme \<Rightarrow> (int \<times> ('w, 'z) fstate_scheme) option" where
  "ifuseWrite OS API path descInx buf s = do {
     d \<leftarrow> getDesc descInx s;
     if fdLocCacheState d = NO_FILE_CACHE then do {
       conn \<leftarrow> descConn descInx s;
       (case conn of
          None \<Rightarrow> Some (- ENOENT, s)
        | Some _ \<Rightarrow> do {
            (status, s) \<leftarrow> withDescConn OS descInx (\<lambda>conn. sys (rcDataObjWrite API conn (fdIFd d) buf)) (- ENOENT) s;
            if status < 0 then Some (negErrno status, s)
            else if status \<noteq> toInt32 (int (length buf)) then Some (- ENOENT, s)
            else do { s \<leftarrow> addOffset descInx status s; addWritten descInx status s }
          })
     } else do {
       (status, s) \<leftarrow> sys (os_write OS (fdIFd d) buf) s;
       if status < 0 then errnoStatus OS s
       else do {
         s \<leftarrow> addOffset descInx status s;
         d \<leftarrow> getDesc descInx s;
         if fdOffset d \<ge> MAX_NEWLY_CREATED_CACHE_SIZE then do {
           (r, s) \<leftarrow> uploadNewlyCreated OS API path descInx s;
           (case r of Inl e \<Rightarrow> Some (e, s) | Inr _ \<Rightarrow> addWritten descInx status s)
         } else addWritten descInx status s
       }
     }
   }"

text \<open>Putting a newly created file to the server: \<open>savedStatus\<close> and whether the attributes in the
  cache are good.\<close>

definition putNewlyCreated ::
  "'w os \<Rightarrow> 'w irods \<Rightarrow> string \<Rightarrow> int \<Rightarrow> ('w, 'z) fstate_scheme \<Rightarrow>
   ((int \<times> bool) \<times> ('w, 'z) fstate_scheme) option" where
  "putNewlyCreated OS API path descInx s = do {
     d \<leftarrow> getDesc descInx s;
     ((m, out), s) \<leftarrow> matchPathInPathCache OS path PathArray s;
     (case out of
        None \<Rightarrow> Some ((- EBADF, False), s)
      | Some n \<Rightarrow> do {
          node \<leftarrow> pcHeap s n;
          (case locCachePath node of
             None \<Rightarrow> Some ((- EBADF, False), s)
           | Some loc \<Rightarrow> do {
               (status, s) \<leftarrow> updatePathCacheStat OS n s;
               node \<leftarrow> pcHeap s n;
               a \<leftarrow> fdConn d;
               c \<leftarrow> connHeap s a;
               (put, s) \<leftarrow> ifusePut OS API (fcConn c) path loc (fdCreateMode d) (st_size (pcStbuf node)) s;
               (_, s) \<leftarrow> (if st_size (pcStbuf node) > MAX_READ_CACHE_SIZE then freeFileCache OS n s else Some (0, s));
               Some ((if put < 0 then - EBADF else 0, status \<ge> 0), s)
             })
        })
   }"

text \<open>\<open>do_ifuseClose\<close> is \<open>_ifuseClose\<close>.\<close>

definition do_ifuseClose ::
  "'w os \<Rightarrow> 'w irods \<Rightarrow> string \<Rightarrow> int \<Rightarrow> ('w, 'z) fstate_scheme \<Rightarrow> (int \<times> ('w, 'z) fstate_scheme) option" where
  "do_ifuseClose OS API path descInx s = do {
     d \<leftarrow> getDesc descInx s;
     ((status, goodStat), s) \<leftarrow>
       (if fdLocCacheState d = NO_FILE_CACHE then do {
          a \<leftarrow> fdConn d;
          c \<leftarrow> connHeap s a;
          (status, s) \<leftarrow> closeIrodsFd API (fcConn c) (fdIFd d) s;
          Some ((status, False), s)
        } else do {
          ((savedStatus, goodStat), s) \<leftarrow>
            (if fdNewFlag d > 0 \<or> fdLocCacheState d = HAVE_NEWLY_CREATED_CACHE
             then putNewlyCreated OS API path descInx s else Some ((0, False), s));
          (status, s) \<leftarrow> sys (os_close OS (fdIFd d)) s;
          (status, s) \<leftarrow> (if status < 0 then errnoStatus OS s else Some (savedStatus, s));
          Some ((status, goodStat), s)
        });
     (_, s) \<leftarrow> (if fdBytesWritten d > 0 \<and> \<not> goodStat then rmPathFromCache OS path PathArray s else Some (0, s));
     Some (status, s)
   }"

definition ifuseClose ::
  "'w os \<Rightarrow> 'w irods \<Rightarrow> string \<Rightarrow> int \<Rightarrow> ('w, 'z) fstate_scheme \<Rightarrow> (int \<times> ('w, 'z) fstate_scheme) option" where
  "ifuseClose OS API path descInx s = do {
     conn \<leftarrow> descConn descInx s;
     (case conn of
        Some a \<Rightarrow> do {
          (_, s) \<leftarrow> useIFuseConn OS (Some a) s;
          (status, s) \<leftarrow> do_ifuseClose OS API path descInx s;
          d \<leftarrow> getDesc descInx s;
          (_, s) \<leftarrow> unuseIFuseConn OS (fdConn d) s;
          Some (status, s)
        }
      | None \<Rightarrow> do_ifuseClose OS API path descInx s)
   }"

section \<open>What the operations keep\<close>

text \<open>An operation on an open file keeps which descriptors are in use, their connections and paths,
  and every lock but those of connections. \<open>st H s0 s\<close>: the state \<open>s\<close>, reached from \<open>s0\<close> by such
  operations, is good while the connections \<open>H\<close> are held.\<close>

definition io_keeps :: "('w, 'z) fstate_scheme \<Rightarrow> ('w, 'z) fstate_scheme \<Rightarrow> bool" where
  "io_keeps s s' \<longleftrightarrow>
     (\<forall>j. fdInuseFlag (IFuseDesc s' j) = fdInuseFlag (IFuseDesc s j) \<and>
          fdConn (IFuseDesc s' j) = fdConn (IFuseDesc s j) \<and>
          fdLocalPath (IFuseDesc s' j) = fdLocalPath (IFuseDesc s j)) \<and>
     IFuseDescInuseCnt s' = IFuseDescInuseCnt s \<and> MyRodsEnv s' = MyRodsEnv s \<and>
     fstate.more s' = fstate.more s \<and> (\<forall>l. (\<forall>a. l \<noteq> IFuseConnLock a) \<longrightarrow> locks s' l = locks s l)"

definition st :: "nat set \<Rightarrow> ('w, 'z) fstate_scheme \<Rightarrow> ('w, 'z) fstate_scheme \<Rightarrow> bool" where
  "st H s0 s \<longleftrightarrow> ifuse_ok H s \<and> io_keeps s0 s"

lemma io_keeps_refl [simp]: "io_keeps s s"
  by (simp add: io_keeps_def)

lemma io_keeps_trans [trans]: "io_keeps s t \<Longrightarrow> io_keeps t u \<Longrightarrow> io_keeps s u"
  by (simp add: io_keeps_def)

lemma hframe_io: "hframe s s' \<Longrightarrow> io_keeps s s'"
  by (simp add: io_keeps_def hframe_sel)

lemma io_keeps_upd [simp]:
  "io_keeps s (t\<lparr>world := w\<rparr>) = io_keeps s t" "io_keeps s (t\<lparr>pcHeap := ph\<rparr>) = io_keeps s t"
  by (simp_all add: io_keeps_def)

lemma st_refl: "ifuse_ok H s \<Longrightarrow> st H s s"
  by (simp add: st_def)

lemma st_frame: "st H s0 s \<Longrightarrow> hframe s s' \<Longrightarrow> ifuse_ok H' s' \<Longrightarrow> st H' s0 s'"
  unfolding st_def by (meson hframe_io io_keeps_trans)

lemma inuse_io: "io_keeps s s' \<Longrightarrow> inuse s' i = inuse s i"
  by (simp add: io_keeps_def inuse_def)

lemma st_inuse: "st H s0 s \<Longrightarrow> inuse s i = inuse s0 i"
  by (simp add: st_def inuse_io)

lemma st_env: "st H s0 s \<Longrightarrow> MyRodsEnv s = MyRodsEnv s0"
  by (simp add: st_def io_keeps_def)

lemma st_fdConn: "st H s0 s \<Longrightarrow> fdConn (IFuseDesc s i) = fdConn (IFuseDesc s0 i)"
  by (simp add: st_def io_keeps_def)

lemma ifuse_ok_world [simp]: "ifuse_ok H (s\<lparr>world := w\<rparr>) = ifuse_ok H s"
  by (simp add: ifuse_ok_def fs_inv_def pool_live_def live_def)

lemma st_world [simp]: "st H s0 (s\<lparr>world := w\<rparr>) = st H s0 s"
  by (simp add: st_def)

lemma inuse_world [simp]: "inuse (s\<lparr>world := w\<rparr>) = inuse s"
  by (simp add: inuse_def fun_eq_iff)

lemma getDesc_inuse [simp]: "inuse s i \<Longrightarrow> getDesc i s = Some (IFuseDesc s i)"
  by (simp add: inuse_def getDesc_def)

text \<open>Fields of an open descriptor other than those change freely.\<close>

lemma st_setDesc:
  assumes "st H s0 s" "inuse s i" "fdInuseFlag d = IRODS_INUSE" "fdConn d = fdConn (IFuseDesc s i)"
    "fdLocalPath d = fdLocalPath (IFuseDesc s i)"
  shows "st H s0 (setDesc i d s)"
proof -
  have i: "3 \<le> i" "i < 512" "fdInuseFlag (IFuseDesc s i) = 1" using assms(2) by (auto simp: inuse_def)
  have flag: "fdInuseFlag (((IFuseDesc s)(i := d)) j) = fdInuseFlag (IFuseDesc s j)" for j
    using assms(3) i by simp
  have conn: "fdConn (((IFuseDesc s)(i := d)) j) = fdConn (IFuseDesc s j)"
    "fdLocalPath (((IFuseDesc s)(i := d)) j) = fdLocalPath (IFuseDesc s j)" for j
    using assms(4,5) by simp_all
  have "desc_inv (IFuseDesc s) (IFuseDescInuseCnt s) (connHeap s) (ConnHead s)"
    using assms(1) by (simp add: st_def ifuse_ok_def fs_inv_def)
  then have "desc_inv ((IFuseDesc s)(i := d)) (IFuseDescInuseCnt s) (connHeap s) (ConnHead s)"
    unfolding desc_inv_def flag conn using i by auto
  with assms(1) have "ifuse_ok H (setDesc i d s)"
    by (simp add: st_def ifuse_ok_def fs_inv_def pool_live_def live_def setDesc_def)
  moreover have "io_keeps s (setDesc i d s)" using flag conn by (simp add: io_keeps_def setDesc_def)
  ultimately show ?thesis using assms(1) io_keeps_trans by (auto simp: st_def)
qed

lemma st_desc_upd:
  assumes "st H s0 s" "inuse s i"
  shows "st H s0 (setDesc i ((IFuseDesc s i)\<lparr>fdOffset := x\<rparr>) s)"
    "st H s0 (setDesc i ((IFuseDesc s i)\<lparr>fdBytesWritten := x\<rparr>) s)"
    "st H s0 (setDesc i ((IFuseDesc s i)\<lparr>fdIFd := x\<rparr>) s)"
    "st H s0 (setDesc i ((IFuseDesc s i)\<lparr>fdIFd := x, fdLocCacheState := c, fdNewFlag := f, fdOffset := y\<rparr>) s)"
    "st H s0 (setDesc i ((IFuseDesc s i)\<lparr>fdNewFlag := x\<rparr>) s)"
    "st H s0 (setDesc i ((IFuseDesc s i)\<lparr>fdCreateMode := x\<rparr>) s)"
  using assms by (auto intro!: st_setDesc simp: inuse_def)

section \<open>Rules for the operations\<close>

lemma ifuse_ok_pc: "ifuse_ok H s \<Longrightarrow> pc_frame s s' \<Longrightarrow> pc_ok s' \<Longrightarrow> ifuse_ok H s'"
proof -
  assume a: "ifuse_ok H s" "pc_frame s s'" "pc_ok s'"
  note eq = pc_frame_eq [OF a(2)]
  have "ifuse_ok H (s\<lparr>world := w, pcHeap := h, pcFresh := f, pcQue := q\<rparr>)"
    if "pc_inv (s\<lparr>world := w, pcHeap := h, pcFresh := f, pcQue := q\<rparr>)" for w h f q
    using a(1) that by (simp add: ifuse_ok_def fs_inv_def pool_live_def live_def)
  from this [where w = "world s'" and h = "pcHeap s'" and f = "pcFresh s'" and q = "pcQue s'"] a(3) show ?thesis
    unfolding eq [symmetric] by (simp add: pc_ok_def)
qed

lemma st_pc: "st H s0 s \<Longrightarrow> pc_frame s s' \<Longrightarrow> pc_ok s' \<Longrightarrow> st H s0 s'"
  by (rule st_frame [OF _ hframe_pc]) (auto simp: st_def intro: ifuse_ok_pc)

lemma st_pc_ok: "st H s0 s \<Longrightarrow> pc_ok s"
  by (simp add: st_def ifuse_ok_def fs_inv_def pc_ok_def)

named_theorems io_wp "rules for the operations under the invariant"

lemma match_wp [io_wp]:
  assumes "st H s0 s" "asciiPath p"
    and "\<And>r out s'. st H s0 s' \<Longrightarrow> (case out of None \<Rightarrow> r = 0 | Some n \<Rightarrow> r = 1 \<and> pcPath s' n = Some p) \<Longrightarrow> Q ((r, out), s')"
  shows "wpo (matchPathInPathCache OS p arr s) Q"
  by (rule wpo_mono [OF pc.lookup_law [OF st_pc_ok [OF assms(1)] assms(2)]])
    (use assms(1,3) in \<open>auto intro: st_pc\<close>)

lemma add_wp [io_wp]:
  assumes "st H s0 s" "asciiPath p" "\<And>n s'. st H s0 s' \<Longrightarrow> pcPath s' n = Some p \<Longrightarrow> Q ((0, n), s')"
  shows "wpo (addPathToCache OS p arr sb s) Q"
  by (rule wpo_mono [OF pc.insrt_law [OF st_pc_ok [OF assms(1)] assms(2)]])
    (use assms(1,3) in \<open>auto intro: st_pc\<close>)

lemma rm_wp [io_wp]:
  assumes "st H s0 s" "asciiPath p" "\<And>r s'. st H s0 s' \<Longrightarrow> Q (r, s')"
  shows "wpo (rmPathFromCache OS p arr s) Q"
  by (rule wpo_mono [OF pc.remove_law [OF st_pc_ok [OF assms(1)] assms(2)]])
    (use assms(1,3) in \<open>auto intro: st_pc\<close>)

text \<open>Changing the contents of a cache node.\<close>

lemma st_node:
  assumes "st H s0 s" "pcHeap s a = Some n" "pcNext n' = pcNext n" "pcPrev n' = pcPrev n" "filePath n' = filePath n"
  shows "st H s0 (s\<lparr>pcHeap := (pcHeap s)(a \<mapsto> n')\<rparr>)"
proof -
  have "pc_inv (s\<lparr>world := world s, pcHeap := (pcHeap s)(a \<mapsto> n')\<rparr>)"
    by (rule pc_inv_content [OF _ assms(2-5)]) (use assms(1) in \<open>simp add: st_def ifuse_ok_def fs_inv_def\<close>)
  then have "pc_ok (s\<lparr>pcHeap := (pcHeap s)(a \<mapsto> n')\<rparr>)"
    using st_pc_ok [OF assms(1)] by (simp add: pc_ok_def)
  then show ?thesis by (rule st_pc [OF assms(1), rotated]) simp
qed

lemma updateStat_wp [io_wp]:
  assumes "st H s0 s" "pcHeap s a = Some n"
    and "\<And>r s' sb. st H s0 s' \<Longrightarrow> pcHeap s' a = Some (n\<lparr>pcStbuf := sb\<rparr>) \<Longrightarrow> Q (r, s')"
  shows "wpo (updatePathCacheStat OS a s) Q"
proof -
  have same: "n\<lparr>pcStbuf := pcStbuf n\<rparr> = n" by simp
  have 1: "Q (r, s\<lparr>world := w\<rparr>)" for r w
    by (rule assms(3) [of _ "pcStbuf n"]) (use assms(1,2) in simp_all)
  have 2: "Q (r, s\<lparr>world := w, pcHeap := (pcHeap s)(a \<mapsto> n\<lparr>pcStbuf := b\<rparr>)\<rparr>)" for r w b
    by (rule assms(3) [of _ b]) (use st_node [of H s0 "s\<lparr>world := w\<rparr>" a n "n\<lparr>pcStbuf := b\<rparr>"] assms(1,2) in auto)
  show ?thesis
    using assms(2) 1 2 1 [of _ "world s"]
    by (auto simp: updatePathCacheStat_def op_simps setNode_def case_prod_beta)
qed

lemma freeFileCache_wp [io_wp]:
  assumes "st H s0 s" "pcHeap s a = Some n" "locCachePath n \<noteq> None" "\<And>r s'. st H s0 s' \<Longrightarrow> Q (r, s')"
  shows "wpo (freeFileCache OS a s) Q"
  using assms st_node [of H s0 "s\<lparr>world := w\<rparr>" a n "n\<lparr>locCachePath := None, pcLocCacheState := NO_FILE_CACHE\<rparr>" for w]
  by (auto simp: freeFileCache_def op_simps setNode_def)

text \<open>Paths the handlers can translate, whatever uninitialised memory holds.\<close>

definition rodsPathOk :: "rodsEnv \<Rightarrow> string \<Rightarrow> bool" where
  "rodsPathOk env path \<longleftrightarrow> path \<noteq> [] \<and> asciiPath path \<and> (\<forall>stk out. parseRodsPathStr stk (tl path) (Some env) out \<noteq> None)"

lemma rodsPathOk_ascii [simp]: "rodsPathOk env p \<Longrightarrow> asciiPath p"
  by (simp add: rodsPathOk_def)

lemma parse_wp [io_wp]:
  assumes "st H s0 s" "rodsPathOk (MyRodsEnv s0) path" "\<And>r out w. Q ((r, out), s\<lparr>world := w\<rparr>)"
  shows "wpo (parseFusePath OS path out s) Q"
proof -
  obtain c p where path: "path = c # p" using assms(2) by (cases path) (auto simp: rodsPathOk_def)
  have "parseRodsPathStr stk p (Some (MyRodsEnv s)) out \<noteq> None" for stk
    using assms(2) path st_env [OF assms(1)] by (simp add: rodsPathOk_def)
  moreover have "Q (x, s\<lparr>world := w\<rparr>)" for x w using assms(3) by (cases x) simp
  ultimately have "wpo (parseRodsPathStr stk p (Some (MyRodsEnv s)) out) (\<lambda>x. Q (x, s\<lparr>world := w\<rparr>))" for stk w
    by (auto simp: wpo_def)
  then show ?thesis using path by (simp add: parseFusePath_def op_simps case_prod_beta)
qed

lemma errno_wp [io_wp]: "(\<And>r w. Q (r, s\<lparr>world := w\<rparr>)) \<Longrightarrow> wpo (errnoStatus OS s) Q"
  by (simp add: errnoStatus_def op_simps)

lemma addKeyVal_wp:
  "kv_inv c \<Longrightarrow> k \<noteq> [] \<Longrightarrow> (\<And>c'. kv_inv c' \<Longrightarrow> Q (0, c')) \<Longrightarrow> wpo (addKeyVal c k v) Q"
  by (rule wpo_mono [OF addKeyVal_spec]) auto

lemma put_wp [io_wp]:
  assumes "st H s0 s" "rodsPathOk (MyRodsEnv s0) path" "\<And>r w. Q (r, s\<lparr>world := w\<rparr>)"
  shows "wpo (ifusePut OS API conn path loc mode sz s) Q"
  using assms
  by (auto simp: ifusePut_def op_simps intro!: parse_wp addKeyVal_wp)

lemma create_wp [io_wp]:
  assumes "st H s0 s" "rodsPathOk (MyRodsEnv s0) path" "\<And>r w. Q (r, s\<lparr>world := w\<rparr>)"
  shows "wpo (dataObjCreateByFusePath OS API conn path mode out s) Q"
  using assms
  by (auto simp: dataObjCreateByFusePath_def op_simps intro!: parse_wp addKeyVal_wp)

lemma descConn_eq:
  assumes "st H s0 s" "inuse s i"
  shows "descConn i s = Some (fdConn (IFuseDesc s i))"
proof (cases "fdConn (IFuseDesc s i)")
  case None
  with assms show ?thesis by (simp add: descConn_def)
next
  case (Some a)
  have "desc_inv (IFuseDesc s) (IFuseDescInuseCnt s) (connHeap s) (ConnHead s)" "pool_live s"
    using assms(1) by (simp_all add: st_def ifuse_ok_def fs_inv_def)
  then have "live a s" using desc_invD(2) Some assms(2) by (auto simp: pool_live_def inuse_def)
  with Some assms(2) show ?thesis by (auto simp: descConn_def live_def)
qed

lemma st_use_wp:
  assumes "st {} s0 s" "inuse s i" "fdConn (IFuseDesc s i) = Some a" "\<And>r s'. st {a} s0 s' \<Longrightarrow> Q (r, s')"
  shows "wpo (useIFuseConn OS (Some a) s) Q"
proof -
  have inv: "fs_inv {} s" "pool_live s" "desc_inv (IFuseDesc s) (IFuseDescInuseCnt s) (connHeap s) (ConnHead s)"
    using assms(1) by (simp_all add: st_def ifuse_ok_def fs_inv_def)
  then have a: "a \<in> set (ConnHead s)" using desc_invD(2) [OF inv(3)] assms(2,3) by (auto simp: inuse_def)
  then obtain c where c: "connHeap s a = Some c" "fcConn c \<noteq> None" using inv(2) by (auto simp: pool_live_def live_def)
  have "st {a} s0 s'" if "fs_inv {a} s'" "conn_frame s s'" "same_handle s s'" for s'
    by (rule st_frame [OF assms(1) hframe_conn [OF that(2)]])
      (use that pool_live_same [OF inv(2)] in \<open>auto simp: ifuse_ok_def\<close>)
  then show ?thesis
    by (intro wpo_mono [OF useIFuseConn_ok [OF inv(1) c(1) a _ c(2)]]) (auto intro: assms(4))
qed

lemma st_unuse_wp:
  assumes "st {a} s0 s" "\<And>r s'. st {} s0 s' \<Longrightarrow> Q (r, s')"
  shows "wpo (unuseIFuseConn OS (Some a) s) Q"
proof -
  have inv: "fs_inv {a} s" "pool_live s" using assms(1) by (simp_all add: st_def ifuse_ok_def)
  obtain c where c: "connHeap s a = Some c" using fs_inv_held [OF inv(1)] by auto
  have "st {} s0 s'" if "fs_inv {} s'" "conn_frame s s'" "same_handle s s'" for s'
    by (rule st_frame [OF assms(1) hframe_conn [OF that(2)]])
      (use that pool_live_same [OF inv(2)] in \<open>auto simp: ifuse_ok_def\<close>)
  then show ?thesis
    by (intro wpo_mono [OF unuseIFuseConn_ok [OF inv(1) c]]) (auto intro: assms(2))
qed

lemma st_held: "st {a} s0 s \<Longrightarrow> \<exists>c. connHeap s a = Some c"
  using fs_inv_held by (auto simp: st_def ifuse_ok_def)

lemma withDescConn_wp:
  assumes "st {} s0 s" "inuse s0 i" "\<And>s'. st {} s0 s' \<Longrightarrow> Q (dflt, s')"
    and "\<And>a conn s'. st {a} s0 s' \<Longrightarrow> wpo (req conn s') (\<lambda>(r, s'). st {a} s0 s' \<and> (\<forall>s''. st {} s0 s'' \<longrightarrow> Q (r, s'')))"
  shows "wpo (withDescConn OS i req dflt s) Q"
proof (cases "fdConn (IFuseDesc s i)")
  case None
  with assms(1-3) st_inuse [OF assms(1)] show ?thesis by (simp add: withDescConn_def descConn_eq)
next
  case (Some a)
  have "wpo (connHeap s' a \<bind> (\<lambda>c. req (fcConn c) s' \<bind> (\<lambda>(r, s). unuseIFuseConn OS (Some a) s \<bind> (\<lambda>(_, s). Some (r, s))))) Q"
    if "st {a} s0 s'" for s'
    using st_held [OF that] by (auto intro!: wpo_mono [OF assms(4) [OF that]] st_unuse_wp; blast)
  then show ?thesis
    using assms(1,2) Some st_inuse [OF assms(1)]
    by (auto simp: withDescConn_def descConn_eq intro!: st_use_wp [where i = i])
qed

lemma withDescConn_sys_wp [io_wp]:
  assumes "st {} s0 s" "inuse s0 i" "\<And>r s'. st {} s0 s' \<Longrightarrow> Q (r, s')"
  shows "wpo (withDescConn OS i (\<lambda>conn. sys (f conn)) dflt s) Q"
  by (rule withDescConn_wp [OF assms(1,2)]) (use assms(3) in \<open>auto simp: op_simps\<close>)

lemma withDescConn_create_wp [io_wp]:
  assumes "st {} s0 s" "inuse s0 i" "rodsPathOk (MyRodsEnv s0) path" "\<And>r s'. st {} s0 s' \<Longrightarrow> Q (r, s')"
  shows "wpo (withDescConn OS i (\<lambda>conn s. dataObjCreateByFusePath OS API conn path mode out s \<bind>
     (\<lambda>((r, _), s). Some (r, s))) dflt s) Q"
  by (rule withDescConn_wp [OF assms(1,2)]) (use assms(3,4) in \<open>auto simp: op_simps case_prod_beta intro!: create_wp\<close>)

lemmas io_simps = wp_simps Let_def case_prod_beta

lemma getDesc_wp [io_wp]:
  "st H s0 s \<Longrightarrow> inuse s0 i \<Longrightarrow> Q (IFuseDesc s i) \<Longrightarrow> wpo (getDesc i s) Q"
  using st_inuse [of H s0 s i] by simp

lemma descConn_wp [io_wp]:
  "st H s0 s \<Longrightarrow> inuse s0 i \<Longrightarrow> Q (fdConn (IFuseDesc s i)) \<Longrightarrow> wpo (descConn i s) Q"
  using st_inuse [of H s0 s i] descConn_eq [of H s0 s i] by simp

lemma st_upd [intro]:
  assumes "st H s0 s" "inuse s0 i"
  shows "st H s0 (setDesc i ((IFuseDesc s i)\<lparr>fdOffset := x\<rparr>) s)"
    "st H s0 (setDesc i ((IFuseDesc s i)\<lparr>fdBytesWritten := x\<rparr>) s)"
    "st H s0 (setDesc i ((IFuseDesc s i)\<lparr>fdIFd := x\<rparr>) s)"
    "st H s0 (setDesc i ((IFuseDesc s i)\<lparr>fdIFd := x, fdLocCacheState := c, fdNewFlag := f, fdOffset := y\<rparr>) s)"
    "st H s0 (setDesc i ((IFuseDesc s i)\<lparr>fdNewFlag := x\<rparr>) s)"
    "st H s0 (setDesc i ((IFuseDesc s i)\<lparr>fdCreateMode := x\<rparr>) s)"
  by (rule st_desc_upd [OF assms(1)], simp add: assms(2) st_inuse [OF assms(1)])+

lemma addOffset_wp [io_wp]:
  assumes "st H s0 s" "inuse s0 i" "\<And>s'. st H s0 s' \<Longrightarrow> Q s'"
  shows "wpo (addOffset i x s) Q"
  unfolding addOffset_def using assms(1,2) by (auto simp: io_simps intro!: io_wp assms(3))

lemma addWritten_wp [io_wp]:
  assumes "st H s0 s" "inuse s0 i" "\<And>r s'. st H s0 s' \<Longrightarrow> Q (r, s')"
  shows "wpo (addWritten i x s) Q"
  unfolding addWritten_def using assms(1,2) by (auto simp: io_simps intro!: io_wp assms(3))

lemma ifuseLseek_wp [io_wp]:
  assumes "st {} s0 s" "inuse s0 i" "\<And>r s'. st {} s0 s' \<Longrightarrow> Q (r, s')"
  shows "wpo (ifuseLseek OS API path i off s) Q"
  unfolding ifuseLseek_def using assms(1,2) by (auto simp: io_simps intro!: io_wp assms(3))

lemma ifuseRead_wp [io_wp]:
  assumes "st {} s0 s" "inuse s0 i" "\<And>r s'. st {} s0 s' \<Longrightarrow> Q (r, s')"
  shows "wpo (ifuseRead OS API path i sz s) Q"
  unfolding ifuseRead_def using assms(1,2) by (auto simp: io_simps intro!: io_wp assms(3))

lemma dropLocal_wp [io_wp]:
  assumes "st H s0 s" "asciiPath p" "\<And>s'. st H s0 s' \<Longrightarrow> Q s'"
  shows "wpo (dropLocal OS fd p s) Q"
  unfolding dropLocal_def using assms(1,2) by (auto simp: io_simps intro!: io_wp assms(3))

lemma upload_wp [io_wp]:
  assumes "st {} s0 s" "inuse s0 i" "rodsPathOk (MyRodsEnv s0) path" "\<And>r s'. st {} s0 s' \<Longrightarrow> Q (r, s')"
  shows "wpo (uploadNewlyCreated OS API path i s) Q"
  unfolding uploadNewlyCreated_def using assms(1-3) by (auto simp: io_simps intro!: io_wp assms(4))

lemma ifuseWrite_wp [io_wp]:
  assumes "st {} s0 s" "inuse s0 i" "rodsPathOk (MyRodsEnv s0) path" "\<And>r s'. st {} s0 s' \<Longrightarrow> Q (r, s')"
  shows "wpo (ifuseWrite OS API path i buf s) Q"
  unfolding ifuseWrite_def using assms(1-3) by (auto simp: io_simps intro!: io_wp assms(4) split: sum.splits)

lemma st_connHeap: "st H s0 s \<Longrightarrow> inuse s0 i \<Longrightarrow> fdConn (IFuseDesc s0 i) = Some a \<Longrightarrow> \<exists>c. connHeap s a = Some c"
  using st_fdConn [of H s0 s i] desc_invD(3) [of "IFuseDesc s" "IFuseDescInuseCnt s" "connHeap s" "ConnHead s" i a]
  by (auto simp: st_def ifuse_ok_def fs_inv_def inuse_def)

lemma connHeap_wp:
  assumes "st H s0 s" "inuse s0 i" "fdConn (IFuseDesc s0 i) = Some a" "\<And>c. connHeap s a = Some c \<Longrightarrow> Q c"
  shows "wpo (connHeap s a) Q"
  using st_connHeap [OF assms(1-3)] assms(4) by auto

lemma pcHeap_wp:
  assumes "pcPath s n = Some p" "\<And>node. pcHeap s n = Some node \<Longrightarrow> filePath node = p \<Longrightarrow> Q node"
  shows "wpo (pcHeap s n) Q"
  using assms by (auto simp: pcPath_def)

lemma putNewlyCreated_wp [io_wp]:
  assumes "st H s0 s" "inuse s0 i" "fdConn (IFuseDesc s0 i) = Some a" "rodsPathOk (MyRodsEnv s0) path"
    and "\<And>r s'. st H s0 s' \<Longrightarrow> Q (r, s')"
  shows "wpo (putNewlyCreated OS API path i s) Q"
proof -
  have upd: "wpo (updatePathCacheStat OS n s1 \<bind> (\<lambda>(status, s). pcHeap s n \<bind> (\<lambda>node.
         fdConn (IFuseDesc s0 i) \<bind> (\<lambda>a. connHeap s a \<bind> (\<lambda>c.
           ifusePut OS API (fcConn c) path loc m (st_size (pcStbuf node)) s \<bind> (\<lambda>(put, s).
             (if st_size (pcStbuf node) > MAX_READ_CACHE_SIZE then freeFileCache OS n s else Some (0, s)) \<bind>
             (\<lambda>(_, s). Some ((if put < 0 then - EBADF else 0, status \<ge> 0), s)))))))) Q"
    if "st H s0 s1" "pcHeap s1 n = Some node" "locCachePath node = Some loc" for n s1 node loc m
    unfolding wpo_bind
    by (rule updateStat_wp [OF that(1,2)])
      (use that(3) assms(2-4) in \<open>auto simp: io_simps
         intro!: put_wp connHeap_wp [OF _ assms(2,3)] freeFileCache_wp assms(5)\<close>)
  have fd: "fdConn (IFuseDesc s i) = fdConn (IFuseDesc s0 i)" using st_fdConn [OF assms(1)] .
  show ?thesis
    unfolding putNewlyCreated_def
    using assms(1,2,4) upd [simplified] fd
    by (auto simp: wp_simps intro!: getDesc_wp match_wp pcHeap_wp assms(5) split: option.splits)
qed

lemma do_ifuseClose_wp [io_wp]:
  assumes "st H s0 s" "inuse s0 i" "fdConn (IFuseDesc s0 i) = Some a" "rodsPathOk (MyRodsEnv s0) path"
    and "\<And>r s'. st H s0 s' \<Longrightarrow> Q (r, s')"
  shows "wpo (do_ifuseClose OS API path i s) Q"
proof -
  have fd: "fdConn (IFuseDesc s i) = Some a" using st_fdConn [OF assms(1)] assms(3) by simp
  show ?thesis
    unfolding do_ifuseClose_def closeIrodsFd_def
    using assms(1-4) fd
    by (auto simp: io_simps intro!: getDesc_wp connHeap_wp [OF _ assms(2,3)] putNewlyCreated_wp rm_wp errno_wp assms(5))
qed

lemma ifuseClose_wp [io_wp]:
  assumes "st {} s0 s" "inuse s0 i" "fdConn (IFuseDesc s0 i) = Some a" "rodsPathOk (MyRodsEnv s0) path"
    and "\<And>r s'. st {} s0 s' \<Longrightarrow> Q (r, s')"
  shows "wpo (ifuseClose OS API path i s) Q"
proof -
  have fd: "fdConn (IFuseDesc s' i) = Some a" if "st H s0 s'" for H s' using st_fdConn [OF that] assms(3) by simp
  have i: "inuse s i" using st_inuse [OF assms(1)] assms(2) by simp
  show ?thesis
    unfolding ifuseClose_def
    using assms(1-4) fd [OF assms(1)] i
    by (auto simp: io_simps fd
      intro!: descConn_wp st_use_wp [where i = i] do_ifuseClose_wp [where a = a] getDesc_wp st_unuse_wp assms(5))
qed

section \<open>A server that keeps a position per open object\<close>

text \<open>What the server is documented to do with an open object: \<open>P w fd\<close> is its position and \<open>D w fd\<close>
  its contents. Reading the clock does not touch them.\<close>

definition overwrite :: "nat \<Rightarrow> string \<Rightarrow> string \<Rightarrow> string" where
  "overwrite p b d = take p d @ replicate (p - length d) (CHR 0x00) @ b @ drop (p + length b) d"

definition file_server ::
  "'w os \<Rightarrow> 'w irods \<Rightarrow> ('w \<Rightarrow> int \<Rightarrow> int) \<Rightarrow> ('w \<Rightarrow> int \<Rightarrow> string) \<Rightarrow> bool" where
  "file_server OS API P D \<longleftrightarrow>
     (\<forall>w. P (snd (os_time OS w)) = P w \<and> D (snd (os_time OS w)) = D w) \<and>
     (\<forall>h fd off w. 0 \<le> off \<longrightarrow> fst (rcDataObjLseek API (Some h) fd off w) = 0 \<and>
        P (snd (rcDataObjLseek API (Some h) fd off w)) = (P w)(fd := off) \<and>
        D (snd (rcDataObjLseek API (Some h) fd off w)) = D w) \<and>
     (\<forall>h fd n w. 0 \<le> n \<longrightarrow> (let bs = take (nat n) (drop (nat (P w fd)) (D w fd)) in
        fst (rcDataObjRead API (Some h) fd n w) = (int (length bs), bs) \<and>
        P (snd (rcDataObjRead API (Some h) fd n w)) = (P w)(fd := P w fd + int (length bs)) \<and>
        D (snd (rcDataObjRead API (Some h) fd n w)) = D w)) \<and>
     (\<forall>h fd buf w. fst (rcDataObjWrite API (Some h) fd buf w) = int (length buf) \<and>
        P (snd (rcDataObjWrite API (Some h) fd buf w)) = (P w)(fd := P w fd + int (length buf)) \<and>
        D (snd (rcDataObjWrite API (Some h) fd buf w)) = (D w)(fd := overwrite (nat (P w fd)) buf (D w fd)))"

lemma file_serverD:
  assumes "file_server OS API P D"
  shows "P (snd (os_time OS w)) = P w" "D (snd (os_time OS w)) = D w"
    "0 \<le> off \<Longrightarrow> fst (rcDataObjLseek API (Some h) fd off w) = 0"
    "0 \<le> off \<Longrightarrow> P (snd (rcDataObjLseek API (Some h) fd off w)) = (P w)(fd := off)"
    "0 \<le> off \<Longrightarrow> D (snd (rcDataObjLseek API (Some h) fd off w)) = D w"
    "0 \<le> n \<Longrightarrow> fst (rcDataObjRead API (Some h) fd n w) =
       (let bs = take (nat n) (drop (nat (P w fd)) (D w fd)) in (int (length bs), bs))"
    "0 \<le> n \<Longrightarrow> P (snd (rcDataObjRead API (Some h) fd n w)) =
       (P w)(fd := P w fd + int (length (take (nat n) (drop (nat (P w fd)) (D w fd)))))"
    "0 \<le> n \<Longrightarrow> D (snd (rcDataObjRead API (Some h) fd n w)) = D w"
    "fst (rcDataObjWrite API (Some h) fd buf w) = int (length buf)"
    "P (snd (rcDataObjWrite API (Some h) fd buf w)) = (P w)(fd := P w fd + int (length buf))"
    "D (snd (rcDataObjWrite API (Some h) fd buf w)) = (D w)(fd := overwrite (nat (P w fd)) buf (D w fd))"
  using assms unfolding file_server_def Let_def by simp_all

lemma take_overwrite: "take (length b) (drop p (overwrite p b d)) = b"
proof -
  have "length (take p d @ replicate (p - length d) (CHR 0x00)) = p" by simp
  then have "drop p ((take p d @ replicate (p - length d) (CHR 0x00)) @ b @ drop (p + length b) d) = b @ drop (p + length b) d"
    by (metis append_eq_conv_conj)
  then show ?thesis by (simp add: overwrite_def)
qed

text \<open>The request of \<open>withDescConn\<close> happens between two looks at the clock.\<close>

lemma withDescConn_world:
  assumes "st {} s0 s" "inuse s0 i" "fdConn (IFuseDesc s i) = Some a"
    and "\<And>h s'. st {} s0 s' \<Longrightarrow> IFuseDesc s' = IFuseDesc s \<Longrightarrow>
       world s' = snd (os_time OS (snd (f (Some h) (snd (os_time OS (world s)))))) \<Longrightarrow>
       Q (fst (f (Some h) (snd (os_time OS (world s)))), s')"
  shows "wpo (withDescConn OS i (\<lambda>conn. sys (f conn)) dflt s) Q"
proof -
  have i: "inuse s i" using st_inuse [OF assms(1)] assms(2) by simp
  have inv: "fs_inv {} s" "pool_live s" "desc_inv (IFuseDesc s) (IFuseDescInuseCnt s) (connHeap s) (ConnHead s)"
    "conn_inv {} (locks s) (connHeap s) (connFresh s) (ConnHead s)" "locks s ConnLock = 0"
    using assms(1) by (simp_all add: st_def ifuse_ok_def fs_inv_def)
  then have a: "a \<in> set (ConnHead s)" using desc_invD(2) [OF inv(3)] i assms(3) by (auto simp: inuse_def)
  then obtain c h where c: "connHeap s a = Some c" "fcConn c = Some h"
    using inv(2) by (auto simp: pool_live_def live_def)
  have lk: "locks s (IFuseConnLock a) = 0" using conn_invD(4) [OF inv(4) c(1)] c(2) by simp
  let ?w1 = "snd (os_time OS (world s))"
  let ?c1 = "c\<lparr>fcActTime := fst (os_time OS (world s)), fcStatus := 1, fcInuseCnt := fcInuseCnt c + 1\<rparr>"
  let ?s1 = "s\<lparr>world := ?w1, locks := (locks s)(IFuseConnLock a := 1), connHeap := (connHeap s)(a \<mapsto> ?c1)\<rparr>"
  have run1: "useIFuseConn OS (Some a) s = Some (0, ?s1)"
    using useIFuseConn_eq [OF c(1) _ inv(5) lk, of OS "fst (os_time OS (world s))" ?w1] c(2) by simp
  have st1: "st {a} s0 ?s1"
    using st_use_wp [OF assms(1) i assms(3), where Q = "\<lambda>(r, s'). st {a} s0 s'" and OS = OS] run1 by simp
  let ?s2 = "?s1\<lparr>world := snd (f (Some h) ?w1)\<rparr>"
  have st2: "st {a} s0 ?s2" using st1 by (simp only: st_world)
  from st_unuse_wp [OF st2, where Q = "\<lambda>(r, s'). st {} s0 s'" and OS = OS]
  obtain r s3 where s3: "unuseIFuseConn OS (Some a) ?s2 = Some (r, s3)" "st {} s0 s3" by (auto simp: wpo_def)
  have w3: "world s3 = snd (os_time OS (snd (f (Some h) ?w1)))" "IFuseDesc s3 = IFuseDesc s"
    using s3(1) inv(5) c(2)
    by (auto simp: unuseIFuseConn_def mutex_lock_def mutex_unlock_def sys_def setConn_def Let_def split: prod.splits)
  have "withDescConn OS i (\<lambda>conn. sys (f conn)) dflt s = Some (fst (f (Some h) ?w1), s3)"
    using descConn_eq [OF assms(1) i] assms(3) run1 c s3(1)
    by (simp add: withDescConn_def sys_def case_prod_beta)
  with assms(4) [OF s3(2) w3(2,1)] show ?thesis by simp
qed

text \<open>A descriptor open on the server, whose offset is the server's position.\<close>

definition in_step :: "('w \<Rightarrow> int \<Rightarrow> int) \<Rightarrow> int \<Rightarrow> ('w, 'z) fstate_scheme \<Rightarrow> bool" where
  "in_step P i s \<longleftrightarrow> (let d = IFuseDesc s i in
     fdLocCacheState d = NO_FILE_CACHE \<and> fdConn d \<noteq> None \<and> 0 \<le> fdOffset d \<and> P (world s) (fdIFd d) = fdOffset d)"

definition contents :: "('w \<Rightarrow> int \<Rightarrow> string) \<Rightarrow> int \<Rightarrow> ('w, 'z) fstate_scheme \<Rightarrow> string" where
  "contents D i s = D (world s) (fdIFd (IFuseDesc s i))"

lemma setDesc_sel [simp]:
  "IFuseDesc (setDesc i d s) = (IFuseDesc s)(i := d)" "world (setDesc i d s) = world s"
  by (simp_all add: setDesc_def)

lemma ifuseLseek_exact:
  assumes "file_server OS API P D" "st {} s0 s" "inuse s0 i" "in_step P i s" "0 \<le> off"
  shows "wpo (ifuseLseek OS API path i off s) (\<lambda>(r, s'). r = 0 \<and> st {} s0 s' \<and> in_step P i s' \<and>
     fdOffset (IFuseDesc s' i) = off \<and> contents D i s' = contents D i s)"
proof -
  note fs = file_serverD [OF assms(1)]
  have i: "inuse s i" using st_inuse [OF assms(2)] assms(3) by simp
  from assms(4) obtain a where d: "fdLocCacheState (IFuseDesc s i) = NO_FILE_CACHE" "fdConn (IFuseDesc s i) = Some a"
    "P (world s) (fdIFd (IFuseDesc s i)) = fdOffset (IFuseDesc s i)" by (auto simp: in_step_def Let_def)
  show ?thesis
  proof (cases "fdOffset (IFuseDesc s i) = off")
    case True
    with i assms show ?thesis by (simp add: ifuseLseek_def)
  next
    case False
    have "wpo (withDescConn OS i (\<lambda>conn. sys (rcDataObjLseek API conn (fdIFd (IFuseDesc s i)) off)) (- ENOENT) s)
      (\<lambda>(r, s'). r = 0 \<and> st {} s0 s' \<and> IFuseDesc s' = IFuseDesc s \<and>
         P (world s') = (P (world s))(fdIFd (IFuseDesc s i) := off) \<and> D (world s') = D (world s))"
      by (rule withDescConn_world [OF assms(2,3) d(2)]) (use fs assms(5) in auto)
    then show ?thesis
      unfolding ifuseLseek_def using i False d assms(3,5)
      by (auto simp: wp_simps in_step_def contents_def Let_def intro!: getDesc_wp st_upd elim!: wpo_mono)
  qed
qed

lemma ifuseRead_exact:
  assumes "file_server OS API P D" "st {} s0 s" "inuse s0 i" "in_step P i s" "0 \<le> n"
  shows "wpo (ifuseRead OS API path i n s) (\<lambda>((r, buf), s'). st {} s0 s' \<and> in_step P i s' \<and>
     contents D i s' = contents D i s \<and> r = int (length buf) \<and>
     buf = take (nat n) (drop (nat (fdOffset (IFuseDesc s i))) (contents D i s)))"
proof -
  note fs = file_serverD [OF assms(1)]
  have i: "inuse s i" using st_inuse [OF assms(2)] assms(3) by simp
  from assms(4) obtain a where d: "fdLocCacheState (IFuseDesc s i) = NO_FILE_CACHE" "fdConn (IFuseDesc s i) = Some a"
    "P (world s) (fdIFd (IFuseDesc s i)) = fdOffset (IFuseDesc s i)" "0 \<le> fdOffset (IFuseDesc s i)"
    by (auto simp: in_step_def Let_def)
  let ?bs = "take (nat n) (drop (nat (fdOffset (IFuseDesc s i))) (contents D i s))"
  have "wpo (withDescConn OS i (\<lambda>conn. sys (rcDataObjRead API conn (fdIFd (IFuseDesc s i)) n)) (- ENOENT, []) s)
    (\<lambda>((r, buf), s'). r = int (length ?bs) \<and> buf = ?bs \<and> st {} s0 s' \<and> IFuseDesc s' = IFuseDesc s \<and>
       P (world s') = (P (world s))(fdIFd (IFuseDesc s i) := fdOffset (IFuseDesc s i) + int (length ?bs)) \<and>
       D (world s') = D (world s))"
    by (rule withDescConn_world [OF assms(2,3) d(2)]) (use fs assms(5) d in \<open>simp add: Let_def contents_def\<close>)
  then show ?thesis
    unfolding ifuseRead_def addOffset_def using i d assms(2,3)
    by (auto simp: wp_simps in_step_def contents_def Let_def intro!: getDesc_wp descConn_wp st_upd elim!: wpo_mono)
qed

lemma toInt32_small: "0 \<le> n \<Longrightarrow> n < 2 ^ 31 \<Longrightarrow> toInt32 n = n"
  by (simp add: toInt32_def signed_of_int signed_take_bit_int_eq_self)

lemma st_upd_eq:
  assumes "st H s0 s" "inuse s0 i" "IFuseDesc s i = d"
  shows "st H s0 (setDesc i (d\<lparr>fdOffset := x\<rparr>) s)" "st H s0 (setDesc i (d\<lparr>fdBytesWritten := x\<rparr>) s)"
  using st_upd [OF assms(1,2)] assms(3) by simp_all

lemma ifuseWrite_exact:
  assumes "file_server OS API P D" "st {} s0 s" "inuse s0 i" "in_step P i s" "length buf < 2 ^ 31"
  shows "wpo (ifuseWrite OS API path i buf s) (\<lambda>(r, s'). r = int (length buf) \<and> st {} s0 s' \<and> in_step P i s' \<and>
     contents D i s' = overwrite (nat (fdOffset (IFuseDesc s i))) buf (contents D i s))"
proof -
  note fs = file_serverD [OF assms(1)]
  have i: "inuse s i" using st_inuse [OF assms(2)] assms(3) by simp
  from assms(4) obtain a where d: "fdLocCacheState (IFuseDesc s i) = NO_FILE_CACHE" "fdConn (IFuseDesc s i) = Some a"
    "P (world s) (fdIFd (IFuseDesc s i)) = fdOffset (IFuseDesc s i)" "0 \<le> fdOffset (IFuseDesc s i)"
    by (auto simp: in_step_def Let_def)
  have len: "toInt32 (int (length buf)) = int (length buf)" using assms(5) by (intro toInt32_small) auto
  have "wpo (withDescConn OS i (\<lambda>conn. sys (rcDataObjWrite API conn (fdIFd (IFuseDesc s i)) buf)) (- ENOENT) s)
    (\<lambda>(r, s'). r = int (length buf) \<and> st {} s0 s' \<and> IFuseDesc s' = IFuseDesc s \<and>
       P (world s') = (P (world s))(fdIFd (IFuseDesc s i) := fdOffset (IFuseDesc s i) + int (length buf)) \<and>
       D (world s') = (D (world s))(fdIFd (IFuseDesc s i) :=
         overwrite (nat (fdOffset (IFuseDesc s i))) buf (contents D i s)))"
    by (rule withDescConn_world [OF assms(2,3) d(2)]) (use fs d in \<open>simp add: contents_def\<close>)
  then show ?thesis
    unfolding ifuseWrite_def addOffset_def addWritten_def using i d len assms(2,3)
    by (auto simp: wp_simps in_step_def contents_def Let_def
      intro!: getDesc_wp [where H = "{}"] descConn_wp [where H = "{}"] st_upd_eq elim!: wpo_mono)
qed

section \<open>Results\<close>

datatype io_op = IoLseek int | IoRead int | IoWrite string

fun io_step ::
  "'w os \<Rightarrow> 'w irods \<Rightarrow> string \<Rightarrow> int \<Rightarrow> io_op \<Rightarrow> ('w, 'z) fstate_scheme \<Rightarrow> ('w, 'z) fstate_scheme option" where
  "io_step OS API path i (IoLseek off) s = map_option snd (ifuseLseek OS API path i off s)"
| "io_step OS API path i (IoRead n) s = map_option snd (ifuseRead OS API path i n s)"
| "io_step OS API path i (IoWrite buf) s = map_option snd (ifuseWrite OS API path i buf s)"

fun io_run ::
  "'w os \<Rightarrow> 'w irods \<Rightarrow> string \<Rightarrow> int \<Rightarrow> io_op list \<Rightarrow> ('w, 'z) fstate_scheme \<Rightarrow> ('w, 'z) fstate_scheme option" where
  "io_run OS API path i [] s = Some s"
| "io_run OS API path i (x # xs) s = io_step OS API path i x s \<bind> io_run OS API path i xs"

lemma io_step_wp:
  assumes "st {} s0 s" "inuse s0 i" "rodsPathOk (MyRodsEnv s0) path"
  shows "wpo (io_step OS API path i x s) (st {} s0)"
  using assms by (cases x) (auto simp: case_prod_beta intro!: ifuseLseek_wp ifuseRead_wp ifuseWrite_wp)

lemma io_run_wp:
  assumes "st {} s0 s" "inuse s0 i" "rodsPathOk (MyRodsEnv s0) path"
  shows "wpo (io_run OS API path i ops s) (st {} s0)"
  using assms(1) by (induction ops arbitrary: s) (auto intro!: wpo_mono [OF io_step_wp [OF _ assms(2,3)]])

text \<open>A state with one open descriptor, for the witnesses.\<close>

definition desc_open :: iFuseDesc where
  "desc_open = zeroDesc\<lparr>fdConn := Some 0, fdInuseFlag := IRODS_INUSE, fdIFd := 5,
     fdObjPath := Some ''/z/home/u/a'', fdLocalPath := Some ''/a''\<rparr>"

definition fs_open :: "'w \<Rightarrow> 'w fstate" where
  "fs_open w = (fs_start w)\<lparr>IFuseDesc := (\<lambda>_. zeroDesc)(3 := desc_open), IFuseDescInuseCnt := 1,
     connHeap := [0 \<mapsto> zeroConn\<lparr>fcConn := Some 7, fcStatus := IRODS_INUSE\<rparr>], connFresh := 1, ConnHead := [0]\<rparr>"

lemma fs_open_ok: "ifuse_ok {} (fs_open w)" "inuse (fs_open w) 3"
proof -
  have set: "{i. 3 \<le> i \<and> i < (512 :: int) \<and> fdInuseFlag (((\<lambda>_. zeroDesc)(3 := desc_open)) i) = 1} = {3}"
    by (auto simp: zeroDesc_def desc_open_def)
  have "desc_inv ((\<lambda>_. zeroDesc)(3 := desc_open)) 1 [0 \<mapsto> zeroConn\<lparr>fcConn := Some 7, fcStatus := 1\<rparr>] [0]"
    unfolding desc_inv_def set by (auto simp: desc_open_def zeroDesc_def)
  moreover have "pc_inv (fs_start w)" using fs_start_ok(1) [of w] by (simp add: fs_inv_def)
  ultimately show "ifuse_ok {} (fs_open w)"
    by (simp add: ifuse_ok_def fs_inv_def fs_open_def conn_inv_def pool_live_def live_def)
      (simp add: fs_start_def zeroConn_def)
  show "inuse (fs_open w) 3" by (simp add: inuse_def fs_open_def desc_open_def)
qed

lemma fs_open_sel [simp]:
  "IFuseDesc (fs_open w) 3 = desc_open" "MyRodsEnv (fs_open w) = MyRodsEnv (fs_start w)" "world (fs_open w) = w"
  by (simp_all add: fs_open_def fs_start_def)

text \<open>A relative path is resolved against the working directory of the environment.\<close>

lemma parseRodsPathStr_resolves:
  assumes "envCwd env @ ''/'' @ p = joinPath cs" "components cs" "length (joinPath cs) < MAX_NAME_LEN"
      and "resolve [] cs = Some ds" "3 \<le> length (joinPath ds)"
      and "p \<noteq> []" "p \<noteq> ''.''" "p \<noteq> ''./''" "hd p \<notin> set ''~^/''"
  shows "parseRodsPathStr stk p (Some env) out =
     Some (pathLenStatus (joinPath ds), if pathLenStatus (joinPath ds) < 0 then out else joinPath ds)"
proof -
  have "cs \<noteq> []" using assms(1) by auto
  from cleanPath_resolve [OF assms(2) this assms(4,5)] obtain coll where
    c: "cleanPath (joinPath cs) = Some (pathLenStatus (joinPath ds), joinPath ds, coll)" by blast
  have len: "length p < 1088" "length (joinPath cs) \<le> 1087" "length (joinPath ds) < 1088"
    using arg_cong [OF assms(1), of length] assms(3) resolve_length [OF assms(4)] by auto
  have "p ! 0 \<noteq> CHR ''~''" "p ! 0 \<noteq> CHR ''^''" "p ! 0 \<noteq> CHR ''/''" "p \<noteq> ''~''" "p \<noteq> ''^''" "p \<noteq> ''~/''" "p \<noteq> ''^/''"
    using assms(6,9) by (auto simp: hd_conv_nth)
  then show ?thesis
    using assms(1,6-8) len c
    by (simp add: parseRodsPathStr_def parseRodsPath_def rstrcpy_def snprintf_def Let_def)
qed

lemma rodsPathOk_a: "rodsPathOk (MyRodsEnv (fs_start w)) ''/a''"
proof -
  have "parseRodsPathStr stk ''a'' (Some (MyRodsEnv (fs_start w))) out \<noteq> None" for stk out
    using parseRodsPathStr_resolves [of "MyRodsEnv (fs_start w)" "''a''" "[''z'', ''home'', ''u'', ''a'']"
        "[''z'', ''home'', ''u'', ''a'']" stk out]
    by (simp add: fs_start_def)
  then show ?thesis by (simp add: rodsPathOk_def asciiPath_def)
qed

text \<open>C6. Reading, writing and seeking on an open descriptor, in any order and whatever the server and
  the operating system answer, always returns, keeps the invariant of the pool and of the
  descriptor table, takes no lock it does not give back, and changes neither which descriptors are
  in use nor their connections and paths.\<close>

theorem descriptor_io_safe:
  assumes "ifuse_ok {} s" "inuse s i" "rodsPathOk (MyRodsEnv s) path"
  shows "\<exists>s'. io_run OS API path i ops s = Some s' \<and> ifuse_ok {} s' \<and> io_keeps s s'"
  using io_run_wp [OF st_refl [OF assms(1)] assms(2,3), of OS API ops] by (auto simp: wpo_def st_def)

theorem descriptor_io_safe_witness:
  "\<exists>s'. io_run clockOS upAPI ''/a'' 3 [IoWrite ''xyz'', IoLseek 0, IoRead 3] (fs_open 0) = Some s' \<and> ifuse_ok {} s'"
  using descriptor_io_safe [OF fs_open_ok, of 0 "''/a''" clockOS upAPI "[IoWrite ''xyz'', IoLseek 0, IoRead 3]"]
    rodsPathOk_a [of 0] by (simp del: io_run.simps) blast

text \<open>A read on a descriptor without a live connection reports \<open>ENOENT\<close>, but moves the
  descriptor's offset two bytes back, as if minus two bytes had been read (a write leaves the offset
  alone).\<close>

lemma read_without_connection:
  assumes "inuse s i" "fdLocCacheState (IFuseDesc s i) = NO_FILE_CACHE" "descConn i s = Some None"
  shows "ifuseRead OS API path i n s =
       Some ((- ENOENT, []), setDesc i ((IFuseDesc s i)\<lparr>fdOffset := fdOffset (IFuseDesc s i) - 2\<rparr>) s) \<and>
     ifuseWrite OS API path i buf s = Some (- ENOENT, s)"
  using assms by (simp add: ifuseRead_def ifuseWrite_def withDescConn_def addOffset_def)


text \<open>A file server as the world: position and contents per object.\<close>

definition memAPI :: "((int \<Rightarrow> int) \<times> (int \<Rightarrow> string)) irods" where
  "memAPI = upAPI\<lparr>
     rcDataObjLseek := (\<lambda>_ fd off w. (0, ((fst w)(fd := off), snd w))),
     rcDataObjRead := (\<lambda>_ fd n w. let bs = take (nat n) (drop (nat (fst w fd)) (snd w fd)) in
        ((int (length bs), bs), ((fst w)(fd := fst w fd + int (length bs)), snd w))),
     rcDataObjWrite := (\<lambda>_ fd b w. (int (length b), ((fst w)(fd := fst w fd + int (length b)),
        (snd w)(fd := overwrite (nat (fst w fd)) b (snd w fd)))))\<rparr>"

definition stillOS :: "'w os" where
  "stillOS = \<lparr>os_time = (\<lambda>w. (0, w)), os_errno = (\<lambda>w. (0, w)), os_random = (\<lambda>w. (0, w)),
     os_getuid = (\<lambda>w. (0, w)), os_getgid = (\<lambda>w. (0, w)), os_open = (\<lambda>_ _ _ w. (3, w)),
     os_close = (\<lambda>_ w. (0, w)), os_read = (\<lambda>_ _ w. ((0, []), w)), os_write = (\<lambda>_ b w. (int (length b), w)),
     os_lseek = (\<lambda>_ o' w. (o', w)), os_stat = (\<lambda>_ w. ((-1, zero_stat), w)),
     os_fstat = (\<lambda>_ w. ((0, zero_stat), w)), os_fsync = (\<lambda>_ w. (0, w)), os_unlink = (\<lambda>_ w. (0, w)),
     os_rename = (\<lambda>_ _ w. (0, w)), os_truncate = (\<lambda>_ _ w. (0, w)), os_mkdir = (\<lambda>_ _ w. (0, w)),
     os_rmdir = (\<lambda>_ w. (0, w)), os_filler = (\<lambda>_ w. (0, w)), os_stackPath = (\<lambda>w. (zero_rodsPath, w)),
     os_malloc = (\<lambda>n w. (replicate (nat n) (CHR 0x00), w)),
     os_opendir = (\<lambda>_ w. (None, w)), os_readdir = (\<lambda>_ w. (None, w)), os_closedir = (\<lambda>_ w. (0, w)),
     os_statfs = (\<lambda>_ w. ((0, 4096, 0), w)), os_utime = (\<lambda>_ _ _ w. (0, w)), os_pthread_create = (\<lambda>w. (0, w))\<rparr>"

lemma memAPI_server: "file_server stillOS memAPI fst snd"
  by (simp add: file_server_def memAPI_def stillOS_def Let_def)


end
