(* ===== verification/Newly_Created.thy ===== *)
theory Newly_Created
  imports Fuse_IO
begin

text \<open>
  The five slots of files that were created and not yet opened (\<open>NewlyCreatedFile\<close> of
  \<open>clients/fuse/src/iFuseLib.c\<close>): FUSE creates a file (\<open>mknod\<close>) and opens it in two calls, and the
  slot carries the descriptor from the one to the other. A file nobody opens is closed after five
  seconds or when its slot is needed.
\<close>

section \<open>State and operations\<close>

record newlyCreatedFile =
  ncDescInx :: int
  ncInuseFlag :: int
  ncFilePath :: string
  ncStbuf :: stat
  ncCachedTime :: "32 word"

definition zeroNC :: newlyCreatedFile where
  "zeroNC = \<lparr>ncDescInx = 0, ncInuseFlag = 0, ncFilePath = [], ncStbuf = zero_stat, ncCachedTime = 0\<rparr>"

record 'w nstate = "'w fstate" +
  NewlyCreatedFile :: "nat \<Rightarrow> newlyCreatedFile"
  FuseCacheDir :: string

abbreviation (input) NUM_NEWLY_CREATED_SLOT :: nat where "NUM_NEWLY_CREATED_SLOT \<equiv> 5"
abbreviation (input) MAX_NEWLY_CREATED_TIME :: "32 word" where "MAX_NEWLY_CREATED_TIME \<equiv> 5"

definition setNC :: "nat \<Rightarrow> newlyCreatedFile \<Rightarrow> ('w, 'z) nstate_scheme \<Rightarrow> ('w, 'z) nstate_scheme" where
  "setNC k f s = s\<lparr>NewlyCreatedFile := (NewlyCreatedFile s)(k := f)\<rparr>"

definition initPathCache :: "('w, 'z) nstate_scheme \<Rightarrow> int \<times> ('w, 'z) nstate_scheme" where
  "initPathCache s = (0, (initPathCache_arrays s)\<lparr>NewlyCreatedFile := \<lambda>_. zeroNC\<rparr>)"

definition closeNewlyCreatedCache ::
  "'w os \<Rightarrow> 'w irods \<Rightarrow> nat \<Rightarrow> ('w, 'z) nstate_scheme \<Rightarrow> (int \<times> ('w, 'z) nstate_scheme) option" where
  "closeNewlyCreatedCache OS API k s =
     (let f = NewlyCreatedFile s k in
      if length (ncFilePath f) > 0 then
        (if checkFuseDesc (ncDescInx f) s < 0 then Some (- EBADF, s)
         else do {
           (status, s) \<leftarrow> ifuseClose OS API (ncFilePath f) (ncDescInx f) s;
           (_, s) \<leftarrow> freeIFuseDesc OS (ncDescInx f) s;
           Some (status, setNC k zeroNC s)
         })
      else Some (0, s))"

text \<open>The scan of \<open>addNewlyCreatedToCache\<close>: it takes the first free slot, and closes and frees the slots
  that are too old. Times are 32-bit unsigned.\<close>

fun addNewly_loop ::
  "'w os \<Rightarrow> 'w irods \<Rightarrow> 32 word \<Rightarrow> nat list \<Rightarrow> nat option \<Rightarrow> ('w, 'z) nstate_scheme \<Rightarrow>
   (nat option \<times> ('w, 'z) nstate_scheme) option" where
  "addNewly_loop OS API now [] newlyInx s = Some (newlyInx, s)"
| "addNewly_loop OS API now (i # is) newlyInx s =
     (if newlyInx = None \<and> ncInuseFlag (NewlyCreatedFile s i) = IRODS_FREE then
        addNewly_loop OS API now is (Some i) (setNC i ((NewlyCreatedFile s i)\<lparr>ncInuseFlag := IRODS_INUSE\<rparr>) s)
      else if ncInuseFlag (NewlyCreatedFile s i) = IRODS_INUSE \<and>
              now - ncCachedTime (NewlyCreatedFile s i) \<ge> MAX_NEWLY_CREATED_TIME then do {
        (_, s) \<leftarrow> closeNewlyCreatedCache OS API i s;
        if newlyInx = None then addNewly_loop OS API now is (Some i) s
        else addNewly_loop OS API now is newlyInx (setNC i ((NewlyCreatedFile s i)\<lparr>ncInuseFlag := IRODS_FREE\<rparr>) s)
      } else addNewly_loop OS API now is newlyInx s)"

text \<open>The rest of \<open>addNewlyCreatedToCache\<close>, once slot \<open>k\<close> is chosen. The result carries the new node of
  the path cache.\<close>

definition fillNewly ::
  "'w os \<Rightarrow> string \<Rightarrow> int \<Rightarrow> 32 word \<Rightarrow> 32 word \<Rightarrow> nat \<Rightarrow> ('w, 'z) nstate_scheme \<Rightarrow>
   ((int \<times> nat) \<times> ('w, 'z) nstate_scheme) option" where
  "fillNewly OS path descInx mode now k s = do {
     let s = setNC k ((NewlyCreatedFile s k)\<lparr>
        ncFilePath := snd (rstrcpy (ncFilePath (NewlyCreatedFile s k)) path (int MAX_NAME_LEN)),
        ncDescInx := descInx, ncCachedTime := now\<rparr>) s;
     d \<leftarrow> getDesc descInx s;
     let s = setDesc descInx (d\<lparr>fdNewFlag := 1\<rparr>) s;
     (stbuf, s) \<leftarrow> fillFileStat OS (ncStbuf (NewlyCreatedFile s k)) mode 0 (uint now) (uint now) (uint now) s;
     let s = setNC k ((NewlyCreatedFile s k)\<lparr>ncStbuf := stbuf\<rparr>) s;
     ((_, node), s) \<leftarrow> addPathToCache OS path PathArray (Some stbuf) s;
     s \<leftarrow> mutex_unlock NewlyCreatedOprLock s;
     Some ((0, node), s)
   }"

definition addNewlyCreatedToCache ::
  "'w os \<Rightarrow> 'w irods \<Rightarrow> string \<Rightarrow> int \<Rightarrow> 32 word \<Rightarrow> ('w, 'z) nstate_scheme \<Rightarrow>
   ((int \<times> nat) \<times> ('w, 'z) nstate_scheme) option" where
  "addNewlyCreatedToCache OS API path descInx mode s = do {
     (t, s) \<leftarrow> sys (os_time OS) s;
     let now = (word_of_int t :: 32 word);
     s \<leftarrow> mutex_lock NewlyCreatedOprLock s;
     (newlyInx, s) \<leftarrow> addNewly_loop OS API now [0..<NUM_NEWLY_CREATED_SLOT] None s;
     (case newlyInx of
        Some k \<Rightarrow> fillNewly OS path descInx mode now k s
      | None \<Rightarrow> do {
          let k = NUM_NEWLY_CREATED_SLOT - 2;
          (_, s) \<leftarrow> closeNewlyCreatedCache OS API k s;
          fillNewly OS path descInx mode now k (setNC k ((NewlyCreatedFile s k)\<lparr>ncInuseFlag := IRODS_INUSE\<rparr>) s)
        })
   }"

text \<open>The scan of \<open>getDescInxInNewlyCreatedCache\<close> stops at the first slot with the path.\<close>

fun findNewly :: "string \<Rightarrow> nat list \<Rightarrow> ('w, 'z) nstate_scheme \<Rightarrow> nat option" where
  "findNewly path [] s = None"
| "findNewly path (i # is) s = (if path = ncFilePath (NewlyCreatedFile s i) then Some i else findNewly path is s)"

definition getDescInxInNewlyCreatedCache ::
  "'w os \<Rightarrow> 'w irods \<Rightarrow> string \<Rightarrow> int \<Rightarrow> ('w, 'z) nstate_scheme \<Rightarrow> (int \<times> ('w, 'z) nstate_scheme) option" where
  "getDescInxInNewlyCreatedCache OS API path flags s = do {
     s \<leftarrow> mutex_lock NewlyCreatedOprLock s;
     (descInx, s) \<leftarrow>
       (case findNewly path [0..<NUM_NEWLY_CREATED_SLOT] s of
          None \<Rightarrow> Some (-1, s)
        | Some i \<Rightarrow>
            if flags AND O_RDWR = 0 \<and> flags AND O_WRONLY = 0 then do {
              (_, s) \<leftarrow> closeNewlyCreatedCache OS API i s;
              Some (-1, s)
            } else if checkFuseDesc (ncDescInx (NewlyCreatedFile s i)) s \<ge> 0 then
              Some (ncDescInx (NewlyCreatedFile s i), setNC i zeroNC s)
            else Some (-1, setNC i zeroNC s));
     s \<leftarrow> mutex_unlock NewlyCreatedOprLock s;
     Some (descInx, s)
   }"

definition getNewlyCreatedDescByPath ::
  "string \<Rightarrow> ('w, 'z) fstate_scheme \<Rightarrow> (int \<times> ('w, 'z) fstate_scheme) option" where
  "getNewlyCreatedDescByPath path s = do {
     s \<leftarrow> mutex_lock DescLock s;
     let r = scanDesc (\<lambda>d. fdLocCacheState d = HAVE_NEWLY_CREATED_CACHE \<and> fdLocalPath d = Some path) 509 3 0 s;
     s \<leftarrow> mutex_unlock DescLock s;
     Some (case r of Some i \<Rightarrow> i | None \<Rightarrow> -1, s)
   }"

text \<open>\<open>renmeOpenedIFuseDesc\<close> moves the cache entry and the local copy of a newly created file to its new
  name: \<open>moveCopy\<close> hands the copy from one entry to the other, \<open>renameDesc\<close> changes the paths of the
  descriptor. The object path is filled in a fresh block.\<close>

definition moveCopy :: "nat \<Rightarrow> nat \<Rightarrow> ('w, 'z) pcstate_scheme \<Rightarrow> ('w, 'z) pcstate_scheme option" where
  "moveCopy fromPathCache tmpPathCache s = do {
     from \<leftarrow> pcHeap s fromPathCache;
     n \<leftarrow> pcHeap s tmpPathCache;
     let s = setNode tmpPathCache (Some (n\<lparr>locCachePath := locCachePath from, pcLocCacheState := HAVE_NEWLY_CREATED_CACHE\<rparr>)) s;
     from \<leftarrow> pcHeap s fromPathCache;
     Some (setNode fromPathCache (Some (from\<lparr>locCachePath := None, pcLocCacheState := NO_FILE_CACHE\<rparr>)) s)
   }"

definition renameDesc ::
  "'w os \<Rightarrow> int \<Rightarrow> string \<Rightarrow> ('w, 'z) fstate_scheme \<Rightarrow> (int \<times> ('w, 'z) fstate_scheme) option" where
  "renameDesc OS descInx to s = do {
     (mem, s) \<leftarrow> sys (os_malloc OS (int MAX_NAME_LEN)) s;
     ((status, objPath), s) \<leftarrow> parseFusePath OS to mem s;
     d \<leftarrow> getDesc descInx s;
     let d = d\<lparr>fdObjPath := Some objPath\<rparr>;
     if status < 0 then Some (- ENOTDIR, setDesc descInx d s)
     else Some (0, setDesc descInx (d\<lparr>fdLocalPath := Some to\<rparr>) s)
   }"

definition renmeOpenedIFuseDesc ::
  "'w os \<Rightarrow> nat \<Rightarrow> string \<Rightarrow> ('w, 'z) fstate_scheme \<Rightarrow> (int \<times> ('w, 'z) fstate_scheme) option" where
  "renmeOpenedIFuseDesc OS fromPathCache to s = do {
     from \<leftarrow> pcHeap s fromPathCache;
     (descInx, s) \<leftarrow> getNewlyCreatedDescByPath (filePath from) s;
     if descInx \<ge> 3 then do {
       (_, s) \<leftarrow> rmPathFromCache OS to PathArray s;
       (_, s) \<leftarrow> rmPathFromCache OS to NonExistPathArray s;
       from \<leftarrow> pcHeap s fromPathCache;
       ((_, tmpPathCache), s) \<leftarrow> addPathToCache OS to PathArray (Some (pcStbuf from)) s;
       s \<leftarrow> moveCopy fromPathCache tmpPathCache s;
       renameDesc OS descInx to s
     } else Some (- ENOTDIR, s)
   }"

section \<open>The state between handlers\<close>

text \<open>A slot with a path holds a descriptor that is open and in no other slot.\<close>

definition in_slot :: "('w, 'z) nstate_scheme \<Rightarrow> int \<Rightarrow> bool" where
  "in_slot s i \<longleftrightarrow> (\<exists>k < NUM_NEWLY_CREATED_SLOT. ncFilePath (NewlyCreatedFile s k) \<noteq> [] \<and> ncDescInx (NewlyCreatedFile s k) = i)"

definition nc_inv :: "('w, 'z) nstate_scheme \<Rightarrow> bool" where
  "nc_inv s \<longleftrightarrow>
     (\<forall>k < NUM_NEWLY_CREATED_SLOT. ncFilePath (NewlyCreatedFile s k) \<noteq> [] \<longrightarrow>
        rodsPathOk (MyRodsEnv s) (ncFilePath (NewlyCreatedFile s k)) \<and> inuse s (ncDescInx (NewlyCreatedFile s k))) \<and>
     (\<forall>k < NUM_NEWLY_CREATED_SLOT. \<forall>l < NUM_NEWLY_CREATED_SLOT. k \<noteq> l \<longrightarrow>
        ncFilePath (NewlyCreatedFile s k) \<noteq> [] \<longrightarrow> ncFilePath (NewlyCreatedFile s l) \<noteq> [] \<longrightarrow>
        ncDescInx (NewlyCreatedFile s k) \<noteq> ncDescInx (NewlyCreatedFile s l))"

text \<open>\<open>opst H L E s\<close>: connections \<open>H\<close> are held, the lock of the slots has count \<open>L\<close>, no other lock is held,
  and every open descriptor has a connection. \<open>E\<close> is the environment.\<close>

definition opst :: "nat set \<Rightarrow> nat \<Rightarrow> rodsEnv \<Rightarrow> ('w, 'z) nstate_scheme \<Rightarrow> bool" where
  "opst H L E s \<longleftrightarrow> ifuse_ok H s \<and> MyRodsEnv s = E \<and> (\<forall>i. inuse s i \<longrightarrow> fdConn (IFuseDesc s i) \<noteq> None) \<and>
     nc_inv s \<and> (\<forall>i. locks s (IFuseDescLock i) = 0) \<and> locks s NewlyCreatedOprLock = L"

lemma more_nc:
  fixes s s' :: "('w, 'z) nstate_scheme"
  assumes "fstate.more s' = fstate.more s"
  shows "NewlyCreatedFile s' = NewlyCreatedFile s" "FuseCacheDir s' = FuseCacheDir s" "nstate.more s' = nstate.more s"
  using assms by (cases s; cases s'; simp)+

lemma opst_st:
  assumes "opst H L E s" "st H' s s'"
  shows "opst H' L E s'"
proof -
  have k: "io_keeps s s'" "ifuse_ok H' s'" using assms(2) by (simp_all add: st_def)
  have nc: "NewlyCreatedFile s' = NewlyCreatedFile s" using more_nc(1) k(1) by (auto simp: io_keeps_def)
  have i: "inuse s' = inuse s" using inuse_io [OF k(1)] by (auto simp: fun_eq_iff)
  have e: "MyRodsEnv s' = MyRodsEnv s" "\<And>i. fdConn (IFuseDesc s' i) = fdConn (IFuseDesc s i)"
    "\<And>i. locks s' (IFuseDescLock i) = locks s (IFuseDescLock i)"
    "locks s' NewlyCreatedOprLock = locks s NewlyCreatedOprLock" using k(1) by (simp_all add: io_keeps_def)
  have "nc_inv s' = nc_inv s" by (simp add: nc_inv_def nc i e(1))
  then show ?thesis using assms(1) k(2) by (auto simp: opst_def i e)
qed

lemma opst_self: "opst H L E s \<Longrightarrow> st H s s"
  by (simp add: opst_def st_refl)

lemma in_slot_st: "st H s s' \<Longrightarrow> in_slot s' i = in_slot s i" for s s' :: "('w, 'z) nstate_scheme"
  using more_nc(1) [of s' s] by (simp add: in_slot_def st_def io_keeps_def)

lemma opst_world [simp]: "opst H L E (s\<lparr>world := w\<rparr>) = opst H L E s"
  by (simp add: opst_def nc_inv_def)

lemma in_slot_world [simp]: "in_slot (s\<lparr>world := w\<rparr>) = in_slot s"
  by (simp add: in_slot_def fun_eq_iff)

text \<open>A slot changes.\<close>

lemma ifuse_ok_setNC [simp]:
  "ifuse_ok H (setNC k f s) = ifuse_ok H s" "inuse (setNC k f s) = inuse s"
  "MyRodsEnv (setNC k f s) = MyRodsEnv s" "IFuseDesc (setNC k f s) = IFuseDesc s" "locks (setNC k f s) = locks s"
  "NewlyCreatedFile (setNC k f s) = (NewlyCreatedFile s)(k := f)" "world (setNC k f s) = world s"
  by (simp_all add: setNC_def ifuse_ok_def fs_inv_def pool_live_def live_def inuse_def fun_eq_iff
      pc_inv_def pc_sim_def pc_rep_def)

lemma nc_inv_clear: "nc_inv s \<Longrightarrow> ncFilePath f = [] \<Longrightarrow> nc_inv (setNC k f s)"
  by (auto simp: nc_inv_def)

lemma nc_inv_same:
  "nc_inv s \<Longrightarrow> ncFilePath f = ncFilePath (NewlyCreatedFile s k) \<Longrightarrow>
   ncDescInx f = ncDescInx (NewlyCreatedFile s k) \<Longrightarrow> nc_inv (setNC k f s)"
  unfolding nc_inv_def by (auto split: if_splits)

lemma nc_inv_fill:
  assumes "nc_inv s" "\<not> in_slot s (ncDescInx f)" "inuse s (ncDescInx f)" "rodsPathOk (MyRodsEnv s) (ncFilePath f)"
  shows "nc_inv (setNC k f s)"
  using assms unfolding nc_inv_def in_slot_def by auto

lemma opst_setNC: "opst H L E s \<Longrightarrow> nc_inv (setNC k f s) \<Longrightarrow> opst H L E (setNC k f s)"
  by (simp add: opst_def)

lemma opst_slot_flag:
  "opst H L E s \<Longrightarrow> opst H L E (setNC k ((NewlyCreatedFile s k)\<lparr>ncInuseFlag := x\<rparr>) s)"
  by (rule opst_setNC) (auto simp: opst_def intro!: nc_inv_same)

lemma in_slot_flag [simp]:
  "in_slot (setNC k ((NewlyCreatedFile s k)\<lparr>ncInuseFlag := x\<rparr>) s) i = in_slot s i"
  "in_slot (setNC k ((NewlyCreatedFile s k)\<lparr>ncStbuf := y\<rparr>) s) i = in_slot s i"
  by (auto simp: in_slot_def)

text \<open>Freeing a descriptor that is in no slot.\<close>

lemma opst_free_wp:
  assumes "opst {} L E s" "inuse s i" "\<And>k. k < 5 \<Longrightarrow> ncFilePath (NewlyCreatedFile s k) \<noteq> [] \<Longrightarrow>
      ncDescInx (NewlyCreatedFile s k) = i \<Longrightarrow> k \<in> K"
    and "\<And>s'. ifuse_ok {} s' \<Longrightarrow> IFuseDesc s' = (IFuseDesc s)(i := zeroDesc) \<Longrightarrow> MyRodsEnv s' = E \<Longrightarrow>
       NewlyCreatedFile s' = NewlyCreatedFile s \<Longrightarrow> nstate.more s' = nstate.more s \<Longrightarrow>
       (\<forall>j. locks s' (IFuseDescLock j) = 0) \<Longrightarrow> locks s' NewlyCreatedOprLock = L \<Longrightarrow> Q (0, s')"
  shows "wpo (freeIFuseDesc OS i s) Q"
proof -
  have inv: "fs_inv {} s" "pool_live s" using assms(1) by (simp_all add: opst_def ifuse_ok_def)
  have l: "\<forall>j. locks s (IFuseDescLock j) = 0" "locks s NewlyCreatedOprLock = L" "MyRodsEnv s = E"
    using assms(1) by (simp_all add: opst_def)
  let ?t = "s\<lparr>locks := (locks s)(IFuseDescLock i := 0), IFuseDesc := (IFuseDesc s)(i := zeroDesc),
       IFuseDescInuseCnt := IFuseDescInuseCnt s - 1\<rparr>"
  have *: "Q (0, s')" if "fs_inv {} s'" "conn_frame ?t s'" "same_handle s s'" for s'
  proof (rule assms(4))
    note f = hframe_sel [OF hframe_conn [OF that(2)]]
    show "ifuse_ok {} s'" using that(1,3) inv(2) by (auto simp: ifuse_ok_def)
    show "IFuseDesc s' = (IFuseDesc s)(i := zeroDesc)" using f(1) by simp
    show "MyRodsEnv s' = E" using f(3) l by simp
    show "NewlyCreatedFile s' = NewlyCreatedFile s" using f(6) more_nc(1) [of s' ?t] by simp
    show "nstate.more s' = nstate.more s" using f(6) more_nc(3) [of s' ?t] by simp
    show "\<forall>j. locks s' (IFuseDescLock j) = 0" using f(7) l by simp
    show "locks s' NewlyCreatedOprLock = L" using f(7) l by simp
  qed
  show ?thesis by (rule wpo_mono [OF freeIFuseDesc_ok [OF inv(1) assms(2)]]) (use * in auto)
qed

lemma checkFuseDesc_inuse: "checkFuseDesc i s \<ge> 0 \<Longrightarrow> inuse s i"
  by (auto simp: checkFuseDesc_def inuse_def split: if_splits)

text \<open>Closing a slot gives its descriptor back.\<close>

lemma closeNewly_wp:
  assumes "opst {} L E s" "k < 5"
    and "\<And>r s'. opst {} L E s' \<Longrightarrow>
       NewlyCreatedFile s' = (if ncFilePath (NewlyCreatedFile s k) \<noteq> [] \<and> checkFuseDesc (ncDescInx (NewlyCreatedFile s k)) s \<ge> 0
          then (NewlyCreatedFile s)(k := zeroNC) else NewlyCreatedFile s) \<Longrightarrow>
       (\<And>i. (ncFilePath (NewlyCreatedFile s k) \<noteq> [] \<Longrightarrow> ncDescInx (NewlyCreatedFile s k) \<noteq> i) \<Longrightarrow> inuse s' i = inuse s i) \<Longrightarrow>
       nstate.more s' = nstate.more s \<Longrightarrow> Q (r, s')"
  shows "wpo (closeNewlyCreatedCache OS API k s) Q"
proof -
  let ?f = "NewlyCreatedFile s k" let ?i = "ncDescInx ?f"
  show ?thesis
  proof (cases "ncFilePath ?f = [] \<or> checkFuseDesc ?i s < 0")
    case True
    with assms show ?thesis by (auto simp: closeNewlyCreatedCache_def Let_def)
  next
    case False
    then have f: "ncFilePath ?f \<noteq> []" "checkFuseDesc ?i s \<ge> 0" by auto
    have nc: "nc_inv s" "MyRodsEnv s = E" using assms(1) by (simp_all add: opst_def)
    have i: "inuse s ?i" "rodsPathOk (MyRodsEnv s) (ncFilePath ?f)" using nc(1) assms(2) f(1) by (auto simp: nc_inv_def)
    obtain a where a: "fdConn (IFuseDesc s ?i) = Some a" using assms(1) i(1) by (auto simp: opst_def)
    have step: "wpo (freeIFuseDesc OS ?i s1 \<bind> (\<lambda>(_, s). Some (r, setNC k zeroNC s))) Q"
      if s1: "st {} s s1" for r s1
    proof -
      have o1: "opst {} L E s1" using opst_st [OF assms(1) s1] .
      have i1: "inuse s1 ?i" using st_inuse [OF s1] i(1) by simp
      have n1: "NewlyCreatedFile s1 = NewlyCreatedFile s" using s1 more_nc(1) [of s1 s] by (simp add: st_def io_keeps_def)
      have inu1: "inuse s1 j = inuse s j" for j using st_inuse [OF s1] .
      have only: "l = k" if "l < 5" "ncFilePath (NewlyCreatedFile s l) \<noteq> []" "ncDescInx (NewlyCreatedFile s l) = ?i" for l
        using nc(1) assms(2) f(1) that unfolding nc_inv_def by metis
      have "Q (r, setNC k zeroNC s2)" if s2: "ifuse_ok {} s2" "IFuseDesc s2 = (IFuseDesc s1)(?i := zeroDesc)"
        "MyRodsEnv s2 = E" "NewlyCreatedFile s2 = NewlyCreatedFile s1" "\<forall>j. locks s2 (IFuseDescLock j) = 0"
        "locks s2 NewlyCreatedOprLock = L" "nstate.more s2 = nstate.more s1" for s2
      proof (rule assms(3))
        have inu: "inuse s2 j \<longleftrightarrow> inuse s j \<and> j \<noteq> ?i" for j
          using s2(2) inu1 [of j] by (auto simp: inuse_def zeroDesc_def)
        have conn: "\<forall>j. inuse s2 j \<longrightarrow> fdConn (IFuseDesc s2 j) \<noteq> None"
          using o1 s2(2) inu1 inu by (auto simp: opst_def)
        have "nc_inv (setNC k zeroNC s2)"
          unfolding nc_inv_def
        proof (intro conjI allI impI, goal_cases)
          case (1 l)
          then show ?case using nc n1 s2(3,4) by (auto simp: nc_inv_def zeroNC_def split: if_splits)
        next
          case (2 l)
          then have "l \<noteq> k" "ncFilePath (NewlyCreatedFile s l) \<noteq> []" "l < 5"
            using n1 s2(4) by (auto simp: zeroNC_def split: if_splits)
          then show ?case using nc(1) only [of l] inu n1 s2(4) by (auto simp: nc_inv_def)
        next
          case (3 l m)
          then show ?case using nc(1) n1 s2(4) by (auto simp: nc_inv_def zeroNC_def split: if_splits)
        qed
        then show "opst {} L E (setNC k zeroNC s2)" using s2 conn by (simp add: opst_def)
        show "NewlyCreatedFile (setNC k zeroNC s2) = (if ncFilePath ?f \<noteq> [] \<and> checkFuseDesc ?i s \<ge> 0
            then (NewlyCreatedFile s)(k := zeroNC) else NewlyCreatedFile s)"
          using f n1 s2(4) by simp
        show "inuse (setNC k zeroNC s2) j = inuse s j" if "ncFilePath ?f \<noteq> [] \<Longrightarrow> ?i \<noteq> j" for j
          using that [OF f(1)] inu by auto
        show "nstate.more (setNC k zeroNC s2) = nstate.more s"
          using s2(7) s1 more_nc(3) [of s1 s] by (simp add: setNC_def st_def io_keeps_def)
      qed
      then show ?thesis
        by (auto intro!: opst_free_wp [OF o1 i1, where K = UNIV])
    qed
    show ?thesis
      using f i a step
      by (auto simp: closeNewlyCreatedCache_def Let_def intro!: ifuseClose_wp [OF opst_self [OF assms(1)]])
  qed
qed

section \<open>Entries of other paths survive\<close>

text \<open>Removing one path and adding another leave the contents of every other entry alone, so that a
  handler may keep using a node it has found.\<close>

definition keepsOthers :: "string set \<Rightarrow> ('w, 'z) pcstate_scheme \<Rightarrow> ('w, 'z) pcstate_scheme \<Rightarrow> bool" where
  "keepsOthers P s s' \<longleftrightarrow> (\<forall>b n. pcHeap s b = Some n \<longrightarrow> filePath n \<notin> P \<longrightarrow>
     (\<exists>n'. pcHeap s' b = Some n' \<and> ent n' = ent n))"

lemma ent_filePath: "ent n' = ent n \<Longrightarrow> filePath n' = filePath n"
  by (cases n; cases n') (simp add: ent_def)

lemma keepsOthers_refl [simp]: "keepsOthers P s s"
  by (simp add: keepsOthers_def)

lemma keepsOthers_heap [simp]:
  "keepsOthers P (s\<lparr>locks := l\<rparr>) t = keepsOthers P s t" "keepsOthers P s (t\<lparr>locks := l\<rparr>) = keepsOthers P s t"
  by (simp_all add: keepsOthers_def)

lemma keepsOthers_trans: "keepsOthers P s t \<Longrightarrow> keepsOthers P t u \<Longrightarrow> keepsOthers P s u"
  unfolding keepsOthers_def by (metis ent_filePath)

lemma rm_keepsOthers:
  assumes "pc_ok s" "asciiPath p" "rmPathFromCache OS p arr s = Some (r, s')"
  shows "keepsOthers {p} s s'"
proof -
  let ?s = "s\<lparr>locks := (locks s)(PathCacheLock := Suc 0)\<rparr>"
  obtain k where k: "queSlot p = Some k" using queSlot_ascii [OF assms(2)] by auto
  obtain A where A: "pc_rep A ?s" using assms(1) by (auto simp: pc_ok_def pc_inv_def pc_sim_def pc_rep_def)
  have l: "locks s PathCacheLock = 0" using assms(1) by (simp add: pc_ok_def)
  have q: "dll (pcHeap ?s) (pcQue ?s arr k) ([] @ A arr k)" using pc_repD(1) [OF A] by simp
  note loop = rmPath_loop_eq [OF q, where p = p and OS = OS]
  have run: "do_rmPathFromCache OS p arr ?s = rmPath_loop OS p arr k (hdo (A arr k)) ?s"
    using dll_top(1) [OF q] k by (simp add: do_rmPathFromCache_def)
  have "keepsOthers {p} ?s t" if t: "rmPath_loop OS p arr k (hdo (A arr k)) ?s = Some (r', t)" for r' t
  proof (cases "find (\<lambda>a. filePath (the (pcHeap ?s a)) = p) (A arr k)")
    case None
    then show ?thesis using loop t by simp
  next
    case (Some a)
    with loop obtain us vs n where u: "A arr k = us @ a # vs" "pcHeap s a = Some n" "filePath n = p" and
      h: "pcHeap t = (unlinkH (lasto us) (hdo vs) (pcHeap s))(a := None)"
      using t by (auto simp del: fun_upd_apply)
    have d: "distinct (us @ vs)" using dll_top(3) [OF q] u(1) by simp
    show ?thesis
      unfolding keepsOthers_def h using u(2,3) unlinkH_at [OF d, of "pcHeap s"] by (auto simp: ent_def)
  qed
  then show ?thesis
    using assms(3) l run
    by (auto simp: rmPathFromCache_def mutex_lock_def mutex_unlock_def bind_eq_Some_conv split: if_splits)
qed

lemma add_keepsOthers:
  assumes "pc_ok s" "addPathToCache OS p arr sb s = Some (r, s')"
  shows "keepsOthers {} s s'"
proof -
  obtain A where A: "pc_rep A s" using assms(1) by (auto simp: pc_ok_def pc_inv_def pc_sim_def)
  have "pcHeap s (pcFresh s) = None" using pc_repD(3) [OF A, of "pcFresh s"] by (cases "pcHeap s (pcFresh s)") auto
  then show ?thesis
    using assms(2)
    by (auto simp: addPathToCache_def do_addPathToCache_def addToCacheSlot_def mutex_lock_def mutex_unlock_def sys_def
        setQue_def setNode_def Let_def bind_eq_Some_conv keepsOthers_def ent_def split: if_splits option.splits prod.splits)
qed

section \<open>Rules for the operations on the slots\<close>

lemma st_okD: "st H s0 s \<Longrightarrow> ifuse_ok H s"
  by (simp add: st_def)

lemma getConn_wp [io_wp]:
  assumes "server_up API" "st {} s0 s" "\<And>a s'. st {a} s0 s' \<Longrightarrow> Q ((0, Some a), s')"
  shows "wpo (getIFuseConn OS API s) Q"
  by (rule wpo_mono [OF cp.get_law [OF assms(1) st_okD [OF assms(2)]]]) (auto intro!: assms(3) intro: st_frame [OF assms(2)])

lemma getConnByPath_wp [io_wp]:
  assumes "server_up API" "st {} s0 s" "\<And>a s'. st {a} s0 s' \<Longrightarrow> Q ((0, Some a), s')"
  shows "wpo (getIFuseConnByPath OS API p s) Q"
  by (rule wpo_mono [OF cpp.get_law [OF assms(1) st_okD [OF assms(2)]]]) (auto intro!: assms(3) intro: st_frame [OF assms(2)])

lemma relConn_wp [io_wp]:
  assumes "st {a} s0 s" "\<And>s'. st {} s0 s' \<Longrightarrow> Q (0, s')"
  shows "wpo (relIFuseConn OS (Some a) s) Q"
  by (rule wpo_mono [OF cp.rel_law [OF st_okD [OF assms(1)]]]) (auto intro!: assms(2) intro: st_frame [OF assms(1)])

lemma reconnect_wp [io_wp]:
  assumes "server_up API" "st {a} s0 s" "\<And>r s'. st {a} s0 s' \<Longrightarrow> Q (r, s')"
  shows "wpo (ifuseReconnect API (Some a) s) Q"
  by (rule wpo_mono [OF cp.reconnect_law [OF assms(1) st_okD [OF assms(2)]]]) (auto intro!: assms(3) intro: st_frame [OF assms(2)])

lemma held_wp:
  assumes "st {a} s0 s" "\<And>c. connHeap s a = Some c \<Longrightarrow> Q c"
  shows "wpo (connHeap s a) Q"
  using st_held [OF assms(1)] assms(2) by auto

text \<open>The slots of \<open>K\<close> are at most given up, with their descriptors; the others stay as they are.\<close>

definition nc_mono :: "nat set \<Rightarrow> ('w, 'z) nstate_scheme \<Rightarrow> ('w, 'z) nstate_scheme \<Rightarrow> bool" where
  "nc_mono K s s' \<longleftrightarrow> (\<forall>k. k \<notin> K \<longrightarrow> NewlyCreatedFile s' k = NewlyCreatedFile s k) \<and>
     (\<forall>k. ncFilePath (NewlyCreatedFile s' k) = [] \<or>
        ncFilePath (NewlyCreatedFile s' k) = ncFilePath (NewlyCreatedFile s k) \<and>
        ncDescInx (NewlyCreatedFile s' k) = ncDescInx (NewlyCreatedFile s k)) \<and>
     (\<forall>i. (\<forall>k \<in> K. ncFilePath (NewlyCreatedFile s k) \<noteq> [] \<longrightarrow> ncDescInx (NewlyCreatedFile s k) \<noteq> i) \<longrightarrow> inuse s' i = inuse s i) \<and>
     nstate.more s' = nstate.more s"

lemma nc_mono_slot: "nc_mono K s s' \<Longrightarrow> in_slot s' i \<Longrightarrow> in_slot s i"
  unfolding nc_mono_def in_slot_def by metis

lemma nc_mono_inuse: "nc_mono K s s' \<Longrightarrow> K \<subseteq> {..<5} \<Longrightarrow> \<not> in_slot s i \<Longrightarrow> inuse s' i = inuse s i"
  unfolding nc_mono_def in_slot_def by blast

lemma nc_mono_refl [simp]: "nc_mono K s s"
  by (simp add: nc_mono_def)

lemma nc_mono_trans:
  assumes "nc_mono K s t" "nc_mono K' t u"
  shows "nc_mono (K \<union> K') s u"
  unfolding nc_mono_def
proof (intro conjI allI impI)
  have a: "\<And>k. k \<notin> K' \<Longrightarrow> NewlyCreatedFile u k = NewlyCreatedFile t k"
    "\<And>k. ncFilePath (NewlyCreatedFile t k) = [] \<or> ncFilePath (NewlyCreatedFile t k) = ncFilePath (NewlyCreatedFile s k) \<and>
        ncDescInx (NewlyCreatedFile t k) = ncDescInx (NewlyCreatedFile s k)"
    using assms by (simp_all add: nc_mono_def)
  show "NewlyCreatedFile u k = NewlyCreatedFile s k" if "k \<notin> K \<union> K'" for k
    using that assms by (simp add: nc_mono_def)
  show "inuse u i = inuse s i"
    if "\<forall>k \<in> K \<union> K'. ncFilePath (NewlyCreatedFile s k) \<noteq> [] \<longrightarrow> ncDescInx (NewlyCreatedFile s k) \<noteq> i" for i
  proof -
    have "inuse t i = inuse s i" using assms(1) that by (simp add: nc_mono_def)
    moreover have "ncDescInx (NewlyCreatedFile t k) \<noteq> i" if "k \<in> K'" "ncFilePath (NewlyCreatedFile t k) \<noteq> []" for k
      using a(2) [of k] that \<open>\<forall>k \<in> K \<union> K'. _ k\<close> by auto
    ultimately show ?thesis using assms(2) by (simp add: nc_mono_def)
  qed
  show "ncFilePath (NewlyCreatedFile u k) = [] \<or> ncFilePath (NewlyCreatedFile u k) = ncFilePath (NewlyCreatedFile s k) \<and>
      ncDescInx (NewlyCreatedFile u k) = ncDescInx (NewlyCreatedFile s k)" for k
    using assms(2) a(2) [of k] unfolding nc_mono_def by metis
  show "nstate.more u = nstate.more s" using assms by (simp add: nc_mono_def)
qed

text \<open>The frame of the handlers: slots are only given up, descriptors in no slot stay open, and the state of
  the other components is untouched.\<close>

definition slotFrame :: "('w, 'z) nstate_scheme \<Rightarrow> ('w, 'z) nstate_scheme \<Rightarrow> bool" where
  "slotFrame s s' \<longleftrightarrow> nstate.more s' = nstate.more s \<and> (\<forall>i. in_slot s' i \<longrightarrow> in_slot s i) \<and>
     (\<forall>i. \<not> in_slot s i \<longrightarrow> inuse s' i = inuse s i)"

lemma slotFrame_refl [simp]: "slotFrame s s"
  by (simp add: slotFrame_def)

lemma slotFrame_trans [trans]: "slotFrame s t \<Longrightarrow> slotFrame t u \<Longrightarrow> slotFrame s u"
  by (auto simp: slotFrame_def)

lemma slotFrame_mono: "nc_mono K s s' \<Longrightarrow> K \<subseteq> {..<5} \<Longrightarrow> slotFrame s s'"
  unfolding slotFrame_def by (metis nc_mono_slot nc_mono_inuse nc_mono_def)

lemma slotFrame_st: "st H s s' \<Longrightarrow> slotFrame s s'" for s s' :: "('w, 'z) nstate_scheme"
  using more_nc(3) [of s' s] by (auto simp: slotFrame_def in_slot_st st_inuse) (simp add: st_def io_keeps_def)

lemma slotFrame_upd [simp]:
  "slotFrame s (t\<lparr>world := w\<rparr>) = slotFrame s t" "slotFrame s (t\<lparr>locks := l\<rparr>) = slotFrame s t"
  "slotFrame (s\<lparr>world := w\<rparr>) t = slotFrame s t" "slotFrame (s\<lparr>locks := l\<rparr>) t = slotFrame s t"
  by (auto simp: slotFrame_def inuse_def in_slot_def)

lemma nc_mono_flag:
  "nc_mono K s t \<Longrightarrow> k \<in> K \<Longrightarrow> nc_mono K s (setNC k ((NewlyCreatedFile t k)\<lparr>ncInuseFlag := x\<rparr>) t)"
  by (auto simp: nc_mono_def setNC_def inuse_def)

lemma closeNewly_mono:
  assumes "opst {} L E s" "k < 5"
    and "\<And>r s'. opst {} L E s' \<Longrightarrow> nc_mono {k} s s' \<Longrightarrow> Q (r, s')"
  shows "wpo (closeNewlyCreatedCache OS API k s) Q"
  by (rule closeNewly_wp [OF assms(1,2)]) (rule assms(3), auto simp: nc_mono_def zeroNC_def)

lemma addNewly_loop_wp:
  assumes "opst {} L E s" "set ks \<subseteq> {..<5}" "\<forall>k. x = Some k \<longrightarrow> k < 5"
    and "\<And>y s'. opst {} L E s' \<Longrightarrow> nc_mono (set ks) s s' \<Longrightarrow> (\<forall>k. y = Some k \<longrightarrow> k < 5) \<Longrightarrow> (\<forall>k. x = Some k \<longrightarrow> y = Some k) \<Longrightarrow> Q (y, s')"
  shows "wpo (addNewly_loop OS API t ks x s) Q"
  using assms
proof (induction ks arbitrary: s x)
  case Nil
  then show ?case by simp
next
  case (Cons k ks)
  have k: "k < 5" "set ks \<subseteq> {..<5}" using Cons.prems(2) by auto
  have step: "wpo (addNewly_loop OS API t ks y s1) Q"
    if "opst {} L E s1" "nc_mono {k} s s1" "\<forall>k. y = Some k \<longrightarrow> k < 5" "\<forall>k. x = Some k \<longrightarrow> y = Some k" for y s1
    by (rule Cons.IH [OF that(1) k(2) that(3)])
      (use that(4) nc_mono_trans [OF that(2), of "set ks"] in \<open>auto intro!: Cons.prems(4)\<close>)
  show ?case
    using Cons.prems(1,3) k(1)
    by (auto simp: wp_simps intro!: step closeNewly_mono opst_slot_flag nc_mono_flag)
qed

lemma opst_ncLock:
  "opst H L E s \<Longrightarrow> opst H L' E (s\<lparr>locks := (locks s)(NewlyCreatedOprLock := L')\<rparr>)"
  by (auto simp: opst_def nc_inv_def ifuse_ok_def fs_inv_def pool_live_def live_def conn_inv_def)

lemma in_slot_locks [simp]: "in_slot (s\<lparr>locks := l\<rparr>) = in_slot s"
  by (simp add: in_slot_def fun_eq_iff)

lemma nc_mono_upd [simp]:
  "nc_mono K (s\<lparr>locks := l\<rparr>) t = nc_mono K s t" "nc_mono K s (t\<lparr>locks := l\<rparr>) = nc_mono K s t"
  "nc_mono K (s\<lparr>world := w\<rparr>) t = nc_mono K s t"
  by (simp_all add: nc_mono_def)

lemma pcPath_upd [simp]: "pcPath (s\<lparr>locks := l\<rparr>) = pcPath s" "pcPath (s\<lparr>world := w\<rparr>) = pcPath s"
  by (simp_all add: pcPath_def fun_eq_iff)

lemma opst_env: "opst H L E s \<Longrightarrow> MyRodsEnv s = E"
  by (simp add: opst_def)

text \<open>Paths FUSE passes: they fit the fixed-size buffers and can be translated.\<close>

definition fusePath :: "rodsEnv \<Rightarrow> string \<Rightarrow> bool" where
  "fusePath env path \<longleftrightarrow> rodsPathOk env path \<and> length path < MAX_NAME_LEN"

lemma fusePathD [dest]: "fusePath env p \<Longrightarrow> rodsPathOk env p" "fusePath env p \<Longrightarrow> asciiPath p"
  by (auto simp: fusePath_def)

lemma fillFileStat_wp [io_wp]:
  "(\<And>b w. Q (b, s\<lparr>world := w\<rparr>)) \<Longrightarrow> wpo (fillFileStat OS sb m sz ct mt at s) Q"
  by (simp add: fillFileStat_def op_simps)

lemma fillDirStat_wp [io_wp]:
  "(\<And>b w. Q (b, s\<lparr>world := w\<rparr>)) \<Longrightarrow> wpo (fillDirStat OS sb ct mt at s) Q"
  by (simp add: fillDirStat_def op_simps)

text \<open>What follows the choice of slot \<open>k\<close>.\<close>

lemma opst_fill:
  assumes "opst {} L E s" "inuse s i" "\<not> in_slot s i" "fusePath E path"
  shows "opst {} L E (setNC k ((NewlyCreatedFile s k)\<lparr>
        ncFilePath := snd (rstrcpy (ncFilePath (NewlyCreatedFile s k)) path 1088),
        ncDescInx := i, ncCachedTime := now\<rparr>) s)"
  by (rule opst_setNC [OF assms(1)], rule nc_inv_fill)
    (use assms in \<open>auto simp: opst_def fusePath_def rstrcpy_def\<close>)

lemma opst_stbuf:
  "opst H L E s \<Longrightarrow> opst H L E (setNC k ((NewlyCreatedFile s k)\<lparr>ncStbuf := x\<rparr>) s)"
  by (rule opst_setNC) (auto simp: opst_def intro!: nc_inv_same)

lemma opst_setDesc_newFlag:
  "opst {} L E s \<Longrightarrow> inuse s i \<Longrightarrow> opst {} L E (setDesc i ((IFuseDesc s i)\<lparr>fdNewFlag := x\<rparr>) s)"
  by (rule opst_st [OF _ st_desc_upd(5)]) (auto intro: opst_self)

lemma add_frame_wp:
  assumes "st H s0 s" "asciiPath p" "\<And>n s'. st H s0 s' \<Longrightarrow> pc_frame s s' \<Longrightarrow> pcPath s' n = Some p \<Longrightarrow> Q ((0, n), s')"
  shows "wpo (addPathToCache OS p arr sb s) Q"
  by (rule wpo_mono [OF pc.insrt_law [OF st_pc_ok [OF assms(1)] assms(2)]])
    (use assms(1,3) in \<open>auto intro: st_pc\<close>)

lemma fillSlot_wp:
  assumes "opst {} 1 E s" "inuse s i" "\<not> in_slot s i" "fusePath E path"
    and "\<And>n s' sb. opst {} 0 E s' \<Longrightarrow> inuse s' = inuse s \<Longrightarrow> pcPath s' n = Some path \<Longrightarrow>
      NewlyCreatedFile s' = (NewlyCreatedFile s)(k := (NewlyCreatedFile s k)\<lparr>ncFilePath := path, ncDescInx := i, ncCachedTime := now, ncStbuf := sb\<rparr>) \<Longrightarrow>
      IFuseDesc s' = (IFuseDesc s)(i := (IFuseDesc s i)\<lparr>fdNewFlag := 1\<rparr>) \<Longrightarrow> nstate.more s' = nstate.more s \<Longrightarrow> Q ((0, n), s')"
  shows "wpo (fillNewly OS path i mode now k s) Q"
proof -
  let ?s1 = "setNC k ((NewlyCreatedFile s k)\<lparr>
        ncFilePath := snd (rstrcpy (ncFilePath (NewlyCreatedFile s k)) path 1088),
        ncDescInx := i, ncCachedTime := now\<rparr>) s"
  let ?s2 = "setDesc i ((IFuseDesc s i)\<lparr>fdNewFlag := 1\<rparr>) ?s1"
  have path: "snd (rstrcpy x path 1088) = path" for x using assms(4) by (simp add: fusePath_def rstrcpy_def)
  have 1: "opst {} 1 E ?s1" "inuse ?s1 i" using opst_fill [OF assms(1-4)] assms(2) by simp_all
  have 2: "opst {} 1 E ?s2" "inuse ?s2 = inuse s"
    using opst_setDesc_newFlag [OF 1] by (auto simp: inuse_def setDesc_def fun_eq_iff)
  have 3: "wpo (addPathToCache OS path PathArray (Some b) s3) (\<lambda>x. Q ((0, snd (fst x)), (snd x)\<lparr>locks := (locks (snd x))(NewlyCreatedOprLock := 0)\<rparr>))"
    if s3: "opst {} 1 E s3" "inuse s3 = inuse s"
      "NewlyCreatedFile s3 = (NewlyCreatedFile s)(k := (NewlyCreatedFile s k)\<lparr>ncFilePath := path, ncDescInx := i, ncCachedTime := now, ncStbuf := b\<rparr>)"
      "IFuseDesc s3 = (IFuseDesc s)(i := (IFuseDesc s i)\<lparr>fdNewFlag := 1\<rparr>)" "nstate.more s3 = nstate.more s" for b s3
  proof (rule add_frame_wp [OF opst_self [OF s3(1)]])
    fix n s' assume s': "st {} s3 s'" "pc_frame s3 s'" "pcPath s' n = Some path"
    have u: "inuse s' = inuse s" using st_inuse [OF s'(1)] s3(2) by (auto simp: fun_eq_iff)
    have f: "IFuseDesc s' = IFuseDesc s3" "NewlyCreatedFile s' = NewlyCreatedFile s3" "nstate.more s' = nstate.more s"
      using hframe_sel(1) [OF hframe_pc [OF s'(2)]] more_nc [OF hframe_sel(6) [OF hframe_pc [OF s'(2)]]] s3(5) by simp_all
    show "Q ((0, snd (fst ((0, n), s'))), (snd ((0, n), s'))\<lparr>locks := (locks (snd ((0, n), s')))(NewlyCreatedOprLock := 0)\<rparr>)"
      using opst_ncLock [OF opst_st [OF s3(1) s'(1)]] u f s3(3,4) s'(3) by (auto intro!: assms(5))
  qed (use assms(4) in auto)
  have 4: "wpo (addPathToCache OS path PathArray (Some b) (setNC k (c\<lparr>ncStbuf := b\<rparr>) (?s2\<lparr>world := w\<rparr>)))
      (\<lambda>x. Q ((0, snd (fst x)), (snd x)\<lparr>locks := (locks (snd x))(NewlyCreatedOprLock := 0)\<rparr>))"
    if c: "c = NewlyCreatedFile ?s2 k" for b w c
    by (rule 3) (use opst_stbuf [of "{}" 1 E "?s2\<lparr>world := w\<rparr>" k b] 2 path c in \<open>simp_all add: setDesc_def\<close>, simp add: setNC_def)
  show ?thesis
    unfolding fillNewly_def using 1(2) 4 by (auto simp: io_simps intro!: fillFileStat_wp)
qed

text \<open>The frame of a creation: one more descriptor, in a slot.\<close>

definition addFrame :: "int \<Rightarrow> ('w, 'z) nstate_scheme \<Rightarrow> ('w, 'z) nstate_scheme \<Rightarrow> bool" where
  "addFrame i s s' \<longleftrightarrow> nstate.more s' = nstate.more s \<and> (\<forall>j. in_slot s' j \<longrightarrow> in_slot s j \<or> j = i) \<and>
     (\<forall>j. \<not> in_slot s j \<longrightarrow> j \<noteq> i \<longrightarrow> inuse s' j = inuse s j)"

lemma addFrame_fill:
  assumes "slotFrame s t" "nstate.more s' = nstate.more t" "inuse s' = inuse t"
    and "NewlyCreatedFile s' = (NewlyCreatedFile t)(k := f)" "ncDescInx f = i"
  shows "addFrame i s s'"
proof -
  have "in_slot s' j \<Longrightarrow> in_slot t j \<or> j = i" for j using assms(4,5) by (auto simp: in_slot_def split: if_splits)
  then show ?thesis using assms(1-3) by (auto simp: addFrame_def slotFrame_def)
qed

lemma addNewlyCreated_wp:
  fixes s :: "('w, 'z) nstate_scheme"
  assumes "opst {} 0 E s" "inuse s i" "\<not> in_slot s i" "fusePath E path"
    and "\<And>n s'. opst {} 0 E s' \<Longrightarrow> inuse s' i \<Longrightarrow> pcPath s' n = Some path \<Longrightarrow> addFrame i s s' \<Longrightarrow> Q ((0, n), s')"
  shows "wpo (addNewlyCreatedToCache OS API path i mode s) Q"
proof -
  have l: "locks s NewlyCreatedOprLock = 0" using assms(1) by (simp add: opst_def)
  have lock: "opst {} 1 E (s\<lparr>world := w, locks := (locks s)(NewlyCreatedOprLock := Suc 0)\<rparr>)" for w
    using opst_ncLock [of "{}" 0 E "s\<lparr>world := w\<rparr>" "Suc 0"] assms(1) by simp
  have m: "inuse s' i" "\<not> in_slot s' i" if "nc_mono {0..<5} s s'" for s'
    using assms(2,3) nc_mono_slot [OF that, of i] nc_mono_inuse [OF that subsetI, of i] by auto
  have fill: "wpo (fillNewly OS path i mode now k s') Q" if "opst {} 1 E s'" "nc_mono {0..<5} s s'" for now k s'
  proof (rule fillSlot_wp [OF that(1) m [OF that(2)] assms(4)])
    fix n sb and s'' :: "('w, 'z) nstate_scheme"
    assume f: "opst {} 0 E s''" "inuse s'' = inuse s'" "pcPath s'' n = Some path"
      "NewlyCreatedFile s'' = (NewlyCreatedFile s')(k := (NewlyCreatedFile s' k)\<lparr>ncFilePath := path, ncDescInx := i, ncCachedTime := now, ncStbuf := sb\<rparr>)"
      "nstate.more s'' = nstate.more s'"
    have "slotFrame s s'" by (rule slotFrame_mono [OF that(2)]) (auto simp: subset_iff)
    then have "addFrame i s s''" by (rule addFrame_fill [OF _ f(5,2,4)]) simp
    then show "Q ((0, n), s'')" using assms(5) f(1-3) m(1) [OF that(2)] by simp
  qed
  have last: "nc_mono {0..<5} s u" if "nc_mono {0..<5} s t" "nc_mono {3} t u" for t u
  proof -
    have "{0..<5} \<union> {3} = {0..<5 :: nat}" by auto
    with nc_mono_trans [OF that] show ?thesis by simp
  qed
  show ?thesis
    unfolding addNewlyCreatedToCache_def mutex_lock_def
    using l lock
    by (auto simp: op_simps wpo_case_option intro!: addNewly_loop_wp closeNewly_mono fill opst_slot_flag nc_mono_flag
        intro: last)
qed


text \<open>Taking the descriptor of a slot.\<close>

lemma findNewly_Some: "findNewly p ks s = Some k \<Longrightarrow> k \<in> set ks \<and> ncFilePath (NewlyCreatedFile s k) = p"
  by (induction ks) (auto split: if_splits)

lemma findNewly_None: "findNewly p ks s = None \<longleftrightarrow> (\<forall>k \<in> set ks. ncFilePath (NewlyCreatedFile s k) \<noteq> p)"
  by (induction ks) auto

lemma getDescInx_wp:
  assumes "opst {} 0 E s" "path \<noteq> []"
    and "\<And>i s'. opst {} 0 E s' \<Longrightarrow> (i \<ge> 0 \<longrightarrow> inuse s' i \<and> \<not> in_slot s' i) \<Longrightarrow>
       (\<forall>k. findNewly path [0..<5] s = Some k \<longrightarrow> \<not> (flags AND O_RDWR = 0 \<and> flags AND O_WRONLY = 0) \<longrightarrow>
          checkFuseDesc (ncDescInx (NewlyCreatedFile s k)) s \<ge> 0 \<longrightarrow>
          i = ncDescInx (NewlyCreatedFile s k) \<and> NewlyCreatedFile s' = (NewlyCreatedFile s)(k := zeroNC)) \<Longrightarrow>
       slotFrame s s' \<Longrightarrow> (i \<ge> 0 \<longrightarrow> in_slot s i) \<Longrightarrow> Q (i, s')"
  shows "wpo (getDescInxInNewlyCreatedCache OS API path flags s) Q"
proof -
  let ?s = "s\<lparr>locks := (locks s)(NewlyCreatedOprLock := Suc 0)\<rparr>"
  have l: "locks s NewlyCreatedOprLock = 0" using assms(1) by (simp add: opst_def)
  have o1: "opst {} 1 E ?s" using opst_ncLock [OF assms(1), of "Suc 0"] by simp
  have fin: "Q (i, s'\<lparr>locks := (locks s')(NewlyCreatedOprLock := 0)\<rparr>)"
    if "opst {} 1 E s'" "i \<ge> 0 \<longrightarrow> inuse s' i \<and> \<not> in_slot s' i"
      "\<forall>k. findNewly path [0..<5] s = Some k \<longrightarrow> \<not> (flags AND O_RDWR = 0 \<and> flags AND O_WRONLY = 0) \<longrightarrow>
          checkFuseDesc (ncDescInx (NewlyCreatedFile s k)) s \<ge> 0 \<longrightarrow>
          i = ncDescInx (NewlyCreatedFile s k) \<and> NewlyCreatedFile s' = (NewlyCreatedFile s)(k := zeroNC)"
      "slotFrame s s'" "i \<ge> 0 \<longrightarrow> in_slot s i" for i s'
    using assms(3) [OF opst_ncLock [OF that(1)], of i] that(2-5) by simp
  have same: "findNewly path ks ?s = findNewly path ks s" "checkFuseDesc j ?s = checkFuseDesc j s" for ks j
    by (induction ks) (auto simp: checkFuseDesc_def)
  show ?thesis
  proof (cases "findNewly path [0..<5] ?s")
    case None
    then show ?thesis
      using l fin [OF o1, of "-1"] same by (simp add: getDescInxInNewlyCreatedCache_def mutex_lock_def op_simps)
  next
    case (Some k)
    have k: "k < 5" "ncFilePath (NewlyCreatedFile s k) = path" using findNewly_Some [OF Some] by auto
    let ?i = "ncDescInx (NewlyCreatedFile s k)"
    have nc: "nc_inv s" using assms(1) by (simp add: opst_def)
    have i: "inuse s ?i" using nc k assms(2) by (auto simp: nc_inv_def)
    have "nc_inv ?s" using o1 by (simp add: opst_def)
    then have o2: "opst {} 1 E (setNC k zeroNC ?s)"
      by (intro opst_setNC [OF o1] nc_inv_clear) (simp_all add: zeroNC_def)
    have "ncDescInx (NewlyCreatedFile s l) \<noteq> ?i" if "l < 5" "l \<noteq> k" "ncFilePath (NewlyCreatedFile s l) \<noteq> []" for l
      using nc k assms(2) that unfolding nc_inv_def by metis
    then have ns: "\<not> in_slot (setNC k zeroNC ?s) ?i"
      by (auto simp: in_slot_def zeroNC_def split: if_splits)
    have sl: "in_slot s ?i" using k assms(2) by (auto simp: in_slot_def)
    have fr: "slotFrame s (setNC k zeroNC ?s)"
      by (auto simp: slotFrame_def in_slot_def zeroNC_def inuse_def split: if_splits) (simp add: setNC_def)
    show ?thesis
      using l Some fin [OF o2, of ?i] fin [OF o2, of "-1"] i ns k(1) o1 same sl fr slotFrame_mono [of "{k}" ?s]
      by (auto simp: getDescInxInNewlyCreatedCache_def mutex_lock_def op_simps intro!: closeNewly_mono fin)
  qed
qed

lemma getNewlyByPath_wp:
  assumes "opst H L E s"
    and "\<And>i. (i \<ge> 0 \<longrightarrow> inuse s i \<and> fdLocalPath (IFuseDesc s i) = Some path) \<Longrightarrow> Q (i, s)"
  shows "wpo (getNewlyCreatedDescByPath path s) Q"
proof -
  let ?s = "s\<lparr>locks := (locks s)(DescLock := Suc 0)\<rparr>"
  have l: "locks s DescLock = 0" and d: "desc_inv (IFuseDesc s) (IFuseDescInuseCnt s) (connHeap s) (ConnHead s)"
    using assms(1) by (simp_all add: opst_def ifuse_ok_def fs_inv_def)
  have none: "{j. inuse s j \<and> j < 3} = {}" by (auto simp: inuse_def)
  have "cnt_ok ?s" using d by (simp add: cnt_ok_def desc_inv_def inuse_def)
  then have scan: "case scanDesc P 509 3 0 ?s of
      None \<Rightarrow> True | Some j \<Rightarrow> inuse ?s j \<and> P (IFuseDesc ?s j)" for P
    using scanDesc_spec [of ?s 0 3 509 P] none by (auto split: option.splits)
  have same: "s\<lparr>locks := (locks s)(DescLock := 0)\<rparr> = s" using l by (simp add: fun_upd_idem)
  have "Q (-1, s)" by (rule assms(2)) simp
  then show ?thesis
    using scan [of "\<lambda>d. fdLocCacheState d = HAVE_NEWLY_CREATED_CACHE \<and> fdLocalPath d = Some path"] l
    by (auto simp: getNewlyCreatedDescByPath_def mutex_lock_def op_simps same intro!: assms(2) split: option.splits)
qed

text \<open>Renaming a file that is not on the server yet.\<close>

lemma keepsOthers_path: "keepsOthers P s s' \<Longrightarrow> pcPath s b = Some f \<Longrightarrow> f \<notin> P \<Longrightarrow> pcPath s' b = Some f"
  by (auto simp: keepsOthers_def pcPath_def) (metis ent_filePath)

lemma wpo_both: "wpo m P \<Longrightarrow> (\<And>x. m = Some x \<Longrightarrow> P x \<Longrightarrow> Q x) \<Longrightarrow> wpo m Q"
  by (auto simp: wpo_def)

lemma rm_other_wp:
  assumes "st H s0 s" "asciiPath p" "pcPath s b = Some f" "f \<noteq> p"
    and "\<And>r s'. st H s0 s' \<Longrightarrow> pcPath s' b = Some f \<Longrightarrow> Q (r, s')"
  shows "wpo (rmPathFromCache OS p arr s) Q"
proof (rule wpo_both)
  show "wpo (rmPathFromCache OS p arr s) (\<lambda>(r, s'). st H s0 s')" using assms(1,2) by (auto intro: rm_wp)
  show "Q x" if "rmPathFromCache OS p arr s = Some x" "case x of (r, s') \<Rightarrow> st H s0 s'" for x
    using that rm_keepsOthers [OF st_pc_ok [OF assms(1)] assms(2)] assms(4)
    by (cases x) (auto intro!: assms(5) keepsOthers_path [OF _ assms(3)])
qed

lemma add_other_wp:
  assumes "st H s0 s" "asciiPath p" "pcPath s b = Some f"
    and "\<And>n s'. st H s0 s' \<Longrightarrow> pcPath s' b = Some f \<Longrightarrow> pcPath s' n = Some p \<Longrightarrow> Q ((0, n), s')"
  shows "wpo (addPathToCache OS p arr sb s) Q"
proof -
  have "wpo (addPathToCache OS p arr sb s) (\<lambda>x. fst (fst x) = 0 \<and> st H s0 (snd x) \<and> pcPath (snd x) (snd (fst x)) = Some p)"
    by (rule add_wp [OF assms(1,2)]) simp
  then show ?thesis
  proof (rule wpo_both)
    show "Q x" if "addPathToCache OS p arr sb s = Some x"
        "fst (fst x) = 0 \<and> st H s0 (snd x) \<and> pcPath (snd x) (snd (fst x)) = Some p" for x
      using that assms(4) [of "snd x" "snd (fst x)"] add_keepsOthers [OF st_pc_ok [OF assms(1)], of OS p arr sb "fst x" "snd x"]
        keepsOthers_path [OF _ assms(3), of "{}" "snd x"]
      by (cases x) auto
  qed
qed

lemma setNode_wp:
  assumes "st H s0 s" "pcHeap s a = Some n" "pcNext n' = pcNext n" "pcPrev n' = pcPrev n" "filePath n' = filePath n"
  shows "st H s0 (setNode a (Some n') s)"
  using st_node [OF assms] by (simp add: setNode_def)

lemma opst_localPath:
  assumes "opst H L E s" "inuse s i"
  shows "opst H L E (setDesc i ((IFuseDesc s i)\<lparr>fdLocalPath := Some p\<rparr>) s)"
proof -
  let ?D = "(IFuseDesc s)(i := (IFuseDesc s i)\<lparr>fdLocalPath := Some p\<rparr>)"
  have i: "inuse (setDesc i ((IFuseDesc s i)\<lparr>fdLocalPath := Some p\<rparr>) s) = inuse s"
    by (auto simp: inuse_def setDesc_def fun_eq_iff)
  have flag: "fdInuseFlag (?D j) = fdInuseFlag (IFuseDesc s j)" "fdConn (?D j) = fdConn (IFuseDesc s j)" for j by simp_all
  have "desc_inv (IFuseDesc s) (IFuseDescInuseCnt s) (connHeap s) (ConnHead s)"
    using assms(1) by (simp add: opst_def ifuse_ok_def fs_inv_def)
  then have "desc_inv ?D (IFuseDescInuseCnt s) (connHeap s) (ConnHead s)"
    unfolding desc_inv_def flag using assms(2) by (auto simp: inuse_def)
  then show ?thesis
    using assms(1)
    by (auto simp: opst_def nc_inv_def i ifuse_ok_def fs_inv_def pool_live_def live_def) (auto simp: setDesc_def)
qed

lemma st_objPath: "st H s0 s \<Longrightarrow> inuse s i \<Longrightarrow> st H s0 (setDesc i ((IFuseDesc s i)\<lparr>fdObjPath := x\<rparr>) s)"
  by (rule st_setDesc) (auto simp: inuse_def)

lemma moveCopy_wp:
  assumes "st H s0 s" "pcPath s b = Some f" "pcPath s n = Some t" "f \<noteq> t" "\<And>s'. st H s0 s' \<Longrightarrow> Q s'"
  shows "wpo (moveCopy b n s) Q"
proof -
  obtain nb nn where n: "pcHeap s b = Some nb" "pcHeap s n = Some nn" using assms(2,3) by (auto simp: pcPath_def)
  have ne: "b \<noteq> n" using assms(2-4) by auto
  let ?s = "setNode n (Some (nn\<lparr>locCachePath := locCachePath nb, pcLocCacheState := HAVE_NEWLY_CREATED_CACHE\<rparr>)) s"
  have 1: "st H s0 ?s" "pcHeap ?s b = Some nb"
    using setNode_wp [OF assms(1) n(2)] n(1) ne by (simp_all add: setNode_def)
  show ?thesis
    using n 1(2) assms(5) [OF setNode_wp [OF 1]] by (simp add: moveCopy_def)
qed

lemma renameDesc_wp:
  assumes "opst H L E s" "inuse s i" "fusePath E to" "\<And>r s'. opst H L E s' \<Longrightarrow> slotFrame s s' \<Longrightarrow> Q (r, s')"
  shows "wpo (renameDesc OS i to s) Q"
proof -
  have to: "rodsPathOk (MyRodsEnv s) to" using assms(1,3) by (auto simp: opst_env)
  have 1: "opst H L E (setDesc i ((IFuseDesc s i)\<lparr>fdObjPath := x\<rparr>) s)" for x
    by (rule opst_st [OF assms(1) st_objPath [OF opst_self [OF assms(1)] assms(2)]])
  have 2: "opst H L E (setDesc i ((IFuseDesc s i)\<lparr>fdObjPath := x, fdLocalPath := Some to\<rparr>) s)" for x
    using opst_localPath [OF 1, of x i to] assms(2) by (simp add: inuse_def setDesc_def)
  have w: "setDesc i d (s\<lparr>world := w\<rparr>) = (setDesc i d s)\<lparr>world := w\<rparr>" for d w by (cases s) (simp add: setDesc_def)
  have fr: "slotFrame s (setDesc i ((IFuseDesc s i)\<lparr>fdObjPath := x\<rparr>) s)"
    "slotFrame s (setDesc i ((IFuseDesc s i)\<lparr>fdObjPath := x, fdLocalPath := y\<rparr>) s)" for x y
    by (auto simp: slotFrame_def in_slot_def inuse_def setDesc_def)
  show ?thesis
    unfolding renameDesc_def
    using assms(2) to 1 2 fr opst_self [OF assms(1)]
    by (auto simp: io_simps w intro!: parse_wp [where H = H and ?s0.0 = s] assms(4))
qed

lemma renme_wp:
  assumes "opst H L E s" "pcPath s b = Some f" "f \<noteq> to" "fusePath E to"
    and "\<And>r s'. opst H L E s' \<Longrightarrow> slotFrame s s' \<Longrightarrow> Q (r, s')"
  shows "wpo (renmeOpenedIFuseDesc OS b to s) Q"
proof -
  have s: "st H s s" using assms(1) by (rule opst_self)
  have to: "asciiPath to" using assms(4) by auto
  have add: "wpo (addPathToCache OS to PathArray sb s1 \<bind> (\<lambda>((_, n), s). moveCopy b n s \<bind> (\<lambda>s. renameDesc OS i to s))) Q"
    if "st H s s1" "pcPath s1 b = Some f" "inuse s i" for s1 sb i
    using that(1,2) assms(3) st_inuse [of H s] that(3)
    by (auto intro!: add_other_wp [OF _ to] moveCopy_wp renameDesc_wp [OF opst_st [OF assms(1)] _ assms(4)] assms(5)
        intro: slotFrame_trans [OF slotFrame_st])
  show ?thesis
    unfolding renmeOpenedIFuseDesc_def
    using assms(1,2) s add
    by (auto simp del: wpo_bind simp: wpo_bind [of "pcHeap x y" for x y] wpo_bind [of "getNewlyCreatedDescByPath x y" for x y]
       wpo_bind [of "rmPathFromCache x y z w" for x y z w] intro!: pcHeap_wp getNewlyByPath_wp rm_other_wp [OF _ to _ assms(3)] assms(5) slotFrame_st)
qed

section \<open>Results\<close>

lemma addNewly_young:
  assumes "\<forall>k \<in> set ks. ncInuseFlag (NewlyCreatedFile s k) = 1 \<longrightarrow> now - ncCachedTime (NewlyCreatedFile s k) < 5"
    "distinct ks"
  shows "addNewly_loop OS API now ks None s = Some (case find (\<lambda>k. ncInuseFlag (NewlyCreatedFile s k) = 0) ks of
     None \<Rightarrow> (None, s) | Some k \<Rightarrow> (Some k, setNC k ((NewlyCreatedFile s k)\<lparr>ncInuseFlag := 1\<rparr>) s))"
proof -
  have young: "addNewly_loop OS API now ks (Some k) t = Some (Some k, t)"
    if "\<forall>k \<in> set ks. ncInuseFlag (NewlyCreatedFile t k) = 1 \<longrightarrow> now - ncCachedTime (NewlyCreatedFile t k) < 5" for ks k t
    using that by (induction ks) (auto simp: not_le)
  show ?thesis
    using assms by (induction ks) (auto simp: not_le intro!: young split: option.splits)
qed

lemma opst_lock1:
  assumes "opst {} 0 E s"
  shows "opst {} 1 E (s\<lparr>world := w, locks := (locks s)(NewlyCreatedOprLock := Suc 0)\<rparr>)"
  using opst_ncLock [of "{}" 0 E "s\<lparr>world := w\<rparr>" "Suc 0"] assms by simp

text \<open>C8. A file that was created and is then opened for writing gets the descriptor that its creation
  left in a slot, and the slot is cleared: the descriptor passes from \<open>mknod\<close> to \<open>open\<close> exactly once.
  There is a free slot, no slot is older than five seconds and none has the path.\<close>

theorem create_then_open:
  fixes s :: "('w, 'z) nstate_scheme"
  assumes "opst {} 0 E s" "inuse s i" "\<not> in_slot s i" "fusePath E path" "fdIFd (IFuseDesc s i) > 0"
      and "os_time OS (world s) = (t, w)" "k < NUM_NEWLY_CREATED_SLOT" "ncInuseFlag (NewlyCreatedFile s k) = IRODS_FREE"
      and "\<forall>k < NUM_NEWLY_CREATED_SLOT. ncInuseFlag (NewlyCreatedFile s k) = IRODS_INUSE \<longrightarrow>
             word_of_int t - ncCachedTime (NewlyCreatedFile s k) < MAX_NEWLY_CREATED_TIME"
      and "\<forall>k < NUM_NEWLY_CREATED_SLOT. ncFilePath (NewlyCreatedFile s k) \<noteq> path"
      and "flags AND O_RDWR \<noteq> 0 \<or> flags AND O_WRONLY \<noteq> 0"
  shows "wpo (do {
       (_, s) \<leftarrow> addNewlyCreatedToCache OS API path i mode s;
       getDescInxInNewlyCreatedCache OS API path flags s })
     (\<lambda>(r, s'). r = i \<and> inuse s' i \<and> \<not> in_slot s' i \<and> opst {} 0 E s' \<and>
        (\<forall>k < NUM_NEWLY_CREATED_SLOT. ncFilePath (NewlyCreatedFile s' k) \<noteq> path))"
proof -
  let ?s = "s\<lparr>world := w, locks := (locks s)(NewlyCreatedOprLock := Suc 0)\<rparr>"
  have l: "locks s NewlyCreatedOprLock = 0" using assms(1) by (simp add: opst_def)
  have o1: "opst {} 1 E ?s" using opst_lock1 [OF assms(1)] .
  obtain m where m: "find (\<lambda>k. ncInuseFlag (NewlyCreatedFile s k) = 0) [0..<5] = Some m" "m < 5"
    using assms(7,8) by (cases "find (\<lambda>k. ncInuseFlag (NewlyCreatedFile s k) = 0) [0..<5]")
      (auto simp: find_None_iff find_Some_iff)
  let ?t = "setNC m ((NewlyCreatedFile s m)\<lparr>ncInuseFlag := 1\<rparr>) ?s"
  have loop: "addNewly_loop OS API (word_of_int t) [0..<5] None ?s = Some (Some m, ?t)"
    using addNewly_young [of "[0..<5]" ?s "word_of_int t" OS API] assms(9) m(1) by simp
  have o2: "opst {} 1 E ?t" using opst_slot_flag [OF o1, of m 1] by simp
  have t: "inuse ?t i" "\<not> in_slot ?t i" using assms(2,3) in_slot_flag(1) [where s = ?s] by simp_all
  have get: "wpo (getDescInxInNewlyCreatedCache OS API path flags s') (\<lambda>(r, s'). r = i \<and> inuse s' i \<and> \<not> in_slot s' i \<and> opst {} 0 E s' \<and>
        (\<forall>k < NUM_NEWLY_CREATED_SLOT. ncFilePath (NewlyCreatedFile s' k) \<noteq> path))"
    if s': "opst {} 0 E s'" "inuse s' = inuse ?t" 
      "NewlyCreatedFile s' = (NewlyCreatedFile ?t)(m := (NewlyCreatedFile ?t m)\<lparr>ncFilePath := path, ncDescInx := i, ncCachedTime := c, ncStbuf := sb\<rparr>)"
      "IFuseDesc s' = (IFuseDesc ?t)(i := (IFuseDesc ?t i)\<lparr>fdNewFlag := 1\<rparr>)" for s' c sb
  proof -
    have paths: "ncFilePath (NewlyCreatedFile s' j) = path \<longleftrightarrow> j = m" if "j < 5" for j
      using that assms(10) by (simp add: s'(3))
    have ne: "path \<noteq> []" using assms(4) by (auto simp: fusePath_def rodsPathOk_def)
    have f: "findNewly path [0..<5] s' = Some m"
      using paths m(2) findNewly_Some [of path "[0..<5]" s'] findNewly_None [of path "[0..<5]" s']
      by (cases "findNewly path [0..<5] s'") auto
    have inx: "ncDescInx (NewlyCreatedFile s' m) = i" by (simp add: s'(3))
    have chk: "checkFuseDesc i s' = 0" using assms(2,5) s'(4) by (simp add: checkFuseDesc_def inuse_def)
    show ?thesis
      by (rule getDescInx_wp [OF s'(1) ne])
        (use f inx chk assms(2,11) paths ne in \<open>auto simp: inuse_def zeroNC_def\<close>)
  qed
  show ?thesis
    using l loop assms(6) 
    by (auto simp: addNewlyCreatedToCache_def mutex_lock_def op_simps intro!: fillSlot_wp [OF o2 t assms(4)] get)
qed


lemma checkFuseDesc_upd [simp]:
  "checkFuseDesc i (s\<lparr>locks := l\<rparr>) = checkFuseDesc i s" "checkFuseDesc i (s\<lparr>world := w\<rparr>) = checkFuseDesc i s"
  by (simp_all add: checkFuseDesc_def)

text \<open>C9. A file created while the first slot holds one of more than five seconds takes over that slot,
  but the slot stays marked free: the next file created overwrites it. The first file is then in no
  slot, so opening it does not find its descriptor, which stays in use and is never closed.\<close>

theorem expired_slot_lost:
  fixes s :: "('w, 'z) nstate_scheme"
  assumes "opst {} 0 E s" "inuse s i" "inuse s j" "i \<noteq> j" "\<not> in_slot s i" "\<not> in_slot s j" "fusePath E p" "fusePath E q" "p \<noteq> q"
      and "os_time OS (world s) = (t, w)" "ncInuseFlag (NewlyCreatedFile s 0) = IRODS_INUSE"
      and "word_of_int t - ncCachedTime (NewlyCreatedFile s 0) \<ge> MAX_NEWLY_CREATED_TIME"
      and "ncFilePath (NewlyCreatedFile s 0) \<noteq> []" "checkFuseDesc (ncDescInx (NewlyCreatedFile s 0)) s \<ge> 0"
      and "\<forall>k < NUM_NEWLY_CREATED_SLOT. ncFilePath (NewlyCreatedFile s k) \<noteq> p"
  shows "wpo (do {
       (_, s) \<leftarrow> addNewlyCreatedToCache OS API p i mode s;
       addNewlyCreatedToCache OS API q j mode' s })
     (\<lambda>(_, s'). inuse s' i \<and> \<not> in_slot s' i \<and> findNewly p [0..<NUM_NEWLY_CREATED_SLOT] s' = None)"
proof -
  obtain R :: "(int \<times> nat) \<times> ('w, 'z) nstate_scheme \<Rightarrow> bool" where
    R: "R = (\<lambda>(_, s'). inuse s' i \<and> \<not> in_slot s' i \<and> findNewly p [0..<5] s' = None)" by blast
  have five: "[0..<5] = 0 # [1..<5 :: nat]" by (simp add: upt_rec)
  have ne: "p \<noteq> []" using assms(7) by (auto simp: fusePath_def rodsPathOk_def)
  have second: "wpo (addNewlyCreatedToCache OS API q j mode' u) R"
    if u: "opst {} 0 E u" "inuse u i" "inuse u j" "\<not> in_slot u j" "ncInuseFlag (NewlyCreatedFile u 0) = 0"
      "ncFilePath (NewlyCreatedFile u 0) = p" "ncDescInx (NewlyCreatedFile u 0) = i"
      "\<forall>k < 5. 0 < k \<longrightarrow> ncFilePath (NewlyCreatedFile u k) \<noteq> p" for u
  proof -
    let ?v = "\<lambda>w. setNC 0 ((NewlyCreatedFile u 0)\<lparr>ncInuseFlag := 1\<rparr>) (u\<lparr>world := w, locks := (locks u)(NewlyCreatedOprLock := Suc 0)\<rparr>)"
    have l: "locks u NewlyCreatedOprLock = 0" using u(1) by (simp add: opst_def)
    have o: "opst {} 1 E (?v w)" for w using opst_slot_flag [OF opst_lock1 [OF u(1)], of 0 1] by simp
    have other: "ncDescInx (NewlyCreatedFile u k) \<noteq> i" if "0 < k" "k < 5" "ncFilePath (NewlyCreatedFile u k) \<noteq> []" for k
      using u(1,6,7) ne that unfolding opst_def nc_inv_def by fastforce
    have fill: "wpo (fillNewly OS q j mode' now 0 s1) R"
      if s1: "opst {} 1 E s1" "nc_mono {1..<5} (?v w) s1" for s1 w now
    proof -
      have k: "ncFilePath (NewlyCreatedFile s1 k) = [] \<or> ncFilePath (NewlyCreatedFile s1 k) = ncFilePath (NewlyCreatedFile u k) \<and>
          ncDescInx (NewlyCreatedFile s1 k) = ncDescInx (NewlyCreatedFile u k)" for k
        using s1(2) unfolding nc_mono_def by (cases "k = 0") auto
      have i: "inuse s1 i" using s1(2) u(2) other unfolding nc_mono_def by auto
      have v: "in_slot (?v w) j = in_slot u j" using in_slot_flag(1) [where s = "u\<lparr>world := w, locks := (locks u)(NewlyCreatedOprLock := Suc 0)\<rparr>"] by simp
      have j: "\<not> in_slot s1 j" "inuse s1 j"
        using u(3,4) v nc_mono_slot [OF s1(2), of j] nc_mono_inuse [OF s1(2) subsetI, of j] by auto
      show ?thesis
        by (rule fillSlot_wp [OF s1(1) j(2,1) assms(8)])
          (use i k other u(8) ne assms(4,9) in \<open>auto simp: R in_slot_def findNewly_None split: if_splits; metis neq0_conv\<close>)
    qed
    show ?thesis
      unfolding addNewlyCreatedToCache_def mutex_lock_def
      using l o u(5)
      by (auto simp: op_simps wpo_case_option five intro!: addNewly_loop_wp fill)
  qed
  have l: "locks s NewlyCreatedOprLock = 0" using assms(1) by (simp add: opst_def)
  let ?s = "s\<lparr>world := w, locks := (locks s)(NewlyCreatedOprLock := Suc 0)\<rparr>"
  have o: "opst {} 1 E ?s" using opst_lock1 [OF assms(1)] .
  have fill: "wpo (fillNewly OS p i mode now 0 s2) (\<lambda>x. wpo (addNewlyCreatedToCache OS API q j mode' (snd x)) R)"
    if s2: "NewlyCreatedFile s1 = (NewlyCreatedFile s)(0 := zeroNC)" "inuse s1 i" "inuse s1 j"
      "opst {} 1 E s2" "nc_mono {1..<5} s1 s2" for s1 s2 now
  proof -
    have ns: "\<not> in_slot s1 i" "\<not> in_slot s1 j" using assms(5,6) s2(1) by (auto simp: in_slot_def zeroNC_def)
    have "\<not> in_slot s2 x" "inuse s2 x" if "\<not> in_slot s1 x" "inuse s1 x" for x
      using that nc_mono_slot [OF s2(5), of x] nc_mono_inuse [OF s2(5) subsetI, of x] by auto
    note x = this [OF ns(1) s2(2)] this [OF ns(2) s2(3)]
    have zero: "NewlyCreatedFile s2 0 = zeroNC" using s2(1,5) by (simp add: nc_mono_def)
    have paths: "ncFilePath (NewlyCreatedFile s2 k) \<noteq> p" if "k < 5" for k
    proof (cases "k = 0")
      case False
      have "ncFilePath (NewlyCreatedFile s2 k) = [] \<or> ncFilePath (NewlyCreatedFile s2 k) = ncFilePath (NewlyCreatedFile s1 k)"
        using s2(5) by (auto simp: nc_mono_def)
      then show ?thesis using s2(1) assms(15) ne that False by auto
    qed (use zero ne in \<open>simp add: zeroNC_def\<close>)
    show ?thesis
    proof (rule fillSlot_wp [OF s2(4) x(2,1) assms(7)])
      fix n sb and s' :: "('w, 'z) nstate_scheme"
      assume a: "opst {} 0 E s'" "inuse s' = inuse s2" "NewlyCreatedFile s' =
          (NewlyCreatedFile s2)(0 := (NewlyCreatedFile s2 0)\<lparr>ncFilePath := p, ncDescInx := i, ncCachedTime := now, ncStbuf := sb\<rparr>)"
      have nj: "\<not> in_slot s' j" using x(3) assms(4) unfolding in_slot_def a(3) by (auto split: if_splits)
      have "\<forall>k < 5. 0 < k \<longrightarrow> ncFilePath (NewlyCreatedFile s' k) \<noteq> p" using paths unfolding a(3) by simp
      with second [OF a(1) _ _ nj] a(2,3) x(2,4) zero
      show "wpo (addNewlyCreatedToCache OS API q j mode' (snd ((0, n), s'))) R"
        by (simp add: zeroNC_def)
    qed
  qed
  have slot0: "in_slot s (ncDescInx (NewlyCreatedFile s 0))" using assms(13) by (auto simp: in_slot_def intro!: exI [of _ 0])
  have d0: "ncDescInx (NewlyCreatedFile s 0) \<noteq> i" "ncDescInx (NewlyCreatedFile s 0) \<noteq> j"
    using assms(5,6) slot0 by auto
  show ?thesis
    unfolding R [symmetric] addNewlyCreatedToCache_def [where path = p] mutex_lock_def
    using l o assms(2,3,10-14) d0
    by (auto simp: op_simps wpo_case_option case_prod_beta five
        intro!: closeNewly_wp [where L = "Suc 0"] addNewly_loop_wp fill cong: if_cong)
qed

text \<open>States with one connection, for the witnesses.\<close>

definition ns_start :: "(int \<Rightarrow> iFuseDesc) \<Rightarrow> int \<Rightarrow> (nat \<Rightarrow> newlyCreatedFile) \<Rightarrow> 'w \<Rightarrow> 'w nstate" where
  "ns_start D n F w = \<lparr>world = w, locks = (\<lambda>_. 0), pcHeap = Map.empty, pcFresh = 0, pcQue = (\<lambda>_ _. emptyQue),
     IFuseDesc = D, IFuseDescInuseCnt = n, connHeap = [0 \<mapsto> zeroConn\<lparr>fcConn := Some 7, fcStatus := IRODS_INUSE\<rparr>],
     connFresh = 1, ConnHead = [0], ConnManagerStarted = 1, connManagerRunning = True, ConnReqWaitQue = [], wokenReqs = [],
     MyRodsEnv = \<lparr>envHome = ''/z/home/u'', envCwd = ''/z/home/u'', envDefResource = [], envUserName = ''u''\<rparr>,
     NewlyCreatedFile = F, FuseCacheDir = ''/tmp/c''\<rparr>"

abbreviation envU :: rodsEnv where
  "envU \<equiv> \<lparr>envHome = ''/z/home/u'', envCwd = ''/z/home/u'', envDefResource = [], envUserName = ''u''\<rparr>"

lemma ns_start_ok:
  assumes "desc_inv D n [0 \<mapsto> zeroConn\<lparr>fcConn := Some 7, fcStatus := 1\<rparr>] [0]"
      and "\<And>i. 3 \<le> i \<Longrightarrow> i < 512 \<Longrightarrow> fdInuseFlag (D i) = 1 \<Longrightarrow> fdConn (D i) \<noteq> None" "nc_inv (ns_start D n F w)"
  shows "opst {} 0 envU (ns_start D n F w)"
proof -
  have "pc_sim (\<lambda>_ _. []) (initPathCache_arrays (ns_start D n F w))" by (rule pc_sim_init) (simp add: ns_start_def)
  then have "pc_inv (ns_start D n F w)"
    unfolding pc_inv_def by (simp add: initPathCache_arrays_def ns_start_def) blast
  then have "ifuse_ok {} (ns_start D n F w)" using assms(1)
    by (simp add: ifuse_ok_def fs_inv_def conn_inv_def pool_live_def live_def) (simp add: ns_start_def zeroConn_def)
  with assms(2,3) show ?thesis by (auto simp: opst_def inuse_def) (simp_all add: ns_start_def)
qed

lemma fusePath_abc: "c \<in> set ''abc'' \<Longrightarrow> fusePath envU [CHR ''/'', c]"
proof -
  assume c: "c \<in> set ''abc''"
  have "parseRodsPathStr stk [c] (Some envU) out \<noteq> None" for stk out
    using parseRodsPathStr_resolves [of envU "[c]" "[''z'', ''home'', ''u'', [c]]" "[''z'', ''home'', ''u'', [c]]" stk out] c
    by auto
  then show ?thesis using c by (auto simp: fusePath_def rodsPathOk_def asciiPath_def)
qed

text \<open>Three open descriptors, the first of them in a slot since time 0.\<close>

definition three_open :: "nat \<Rightarrow> int nstate" where
  "three_open t = ns_start (\<lambda>i. if 3 \<le> i \<and> i \<le> 5 then desc_open else zeroDesc) 3
     ((\<lambda>_. zeroNC)(0 := zeroNC\<lparr>ncDescInx := 3, ncInuseFlag := IRODS_INUSE, ncFilePath := ''/a''\<rparr>)) (int t)"

lemma three_open_ok:
  "opst {} 0 envU (three_open t)" "inuse (three_open t) i \<longleftrightarrow> 3 \<le> i \<and> i \<le> 5" "in_slot (three_open t) i \<longleftrightarrow> i = 3"
proof -
  show u: "inuse (three_open t) i \<longleftrightarrow> 3 \<le> i \<and> i \<le> 5" for i
    by (auto simp: inuse_def three_open_def ns_start_def desc_open_def zeroDesc_def)
  show "in_slot (three_open t) i \<longleftrightarrow> i = 3" by (auto simp: in_slot_def three_open_def ns_start_def zeroNC_def)
  let ?D = "\<lambda>i :: int. if 3 \<le> i \<and> i \<le> 5 then desc_open else zeroDesc"
  have D: "fdInuseFlag (?D i) = (if 3 \<le> i \<and> i \<le> 5 then 1 else 0)" "fdConn (?D i) = (if 3 \<le> i \<and> i \<le> 5 then Some 0 else None)"
    "fdLocalPath (?D i) = (if 3 \<le> i \<and> i \<le> 5 then Some ''/a'' else None)" for i
    by (simp_all add: desc_open_def zeroDesc_def)
  have "{i. 3 \<le> i \<and> i < 512 \<and> fdInuseFlag (?D i) = 1} = {3, 4, 5}" unfolding D by auto
  then have inv: "desc_inv ?D 3 [0 \<mapsto> zeroConn\<lparr>fcConn := Some 7, fcStatus := 1\<rparr>] [0]"
    unfolding desc_inv_def D by (auto split: if_splits)
  have F: "NewlyCreatedFile (three_open t) = (\<lambda>_. zeroNC)(0 := zeroNC\<lparr>ncDescInx := 3, ncInuseFlag := IRODS_INUSE, ncFilePath := ''/a''\<rparr>)"
    "MyRodsEnv (three_open t) = envU" by (simp_all add: three_open_def ns_start_def)
  have "nc_inv (three_open t)"
    using fusePath_abc [of "CHR ''a''"] u unfolding nc_inv_def F
    by (auto simp: zeroNC_def fusePath_def split: if_splits)
  then show "opst {} 0 envU (three_open t)"
    unfolding three_open_def by (intro ns_start_ok inv) (auto simp: desc_open_def zeroDesc_def split: if_splits)
qed



theorem create_then_open_witness:
  "wpo (do {
       (_, s) \<leftarrow> addNewlyCreatedToCache clockOS upAPI ''/b'' 4 0x1A4 (three_open 2);
       getDescInxInNewlyCreatedCache clockOS upAPI ''/b'' 1 s }) (\<lambda>(r, s'). r = 4 \<and> \<not> in_slot s' 4)"
  by (rule wpo_mono [OF create_then_open [where E = envU and i = 4 and k = 1 and t = 2 and w = 2]])
    (use fusePath_abc [of "CHR ''b''"] in \<open>auto simp: three_open_ok, auto simp: three_open_def ns_start_def clockOS_def zeroNC_def desc_open_def zeroDesc_def split: if_splits\<close>)

theorem expired_slot_lost_witness:
  "wpo (do {
       (_, s) \<leftarrow> addNewlyCreatedToCache clockOS upAPI ''/b'' 4 0x1A4 (three_open 10);
       addNewlyCreatedToCache clockOS upAPI ''/c'' 5 0x1A4 s }) (\<lambda>(_, s'). inuse s' 4 \<and> \<not> in_slot s' 4)"
  by (rule wpo_mono [OF expired_slot_lost [where E = envU and i = 4 and j = 5 and t = 10 and w = 10]])
    (use fusePath_abc [of "CHR ''b''"] fusePath_abc [of "CHR ''c''"] in \<open>auto simp: three_open_ok, auto simp: three_open_def ns_start_def clockOS_def zeroNC_def desc_open_def zeroDesc_def checkFuseDesc_def split: if_splits\<close>)

end
