(* ===== verification/FS_Utils.thy ===== *)
theory FS_Utils
  imports Fuse_World
begin

text \<open>
  The helpers of \<open>clients/fuse/src/iFuseLib.FSUtils.c\<close> on local directories, used by the preload cache
  and the upload buffer: making a directory with its parents, removing and emptying a directory
  tree, and measuring it. A directory is read name by name through a handle, and nothing bounds the
  recursion but the depth of the tree, so the loops are partial functions.

  The theory shows, for an operating system that keeps a set of directories, that \<open>makeDirs\<close> returns
  and creates the directory with all its parents; and for one that keeps a finite tree, that
  measuring a directory returns and gives the sum of the sizes of its files.
\<close>

section \<open>Operations\<close>

abbreviation (input) S_IRWXU :: int where "S_IRWXU \<equiv> 0x1C0"
abbreviation (input) S_IRWXG :: int where "S_IRWXG \<equiv> 0x38"
abbreviation (input) S_IROTH :: int where "S_IROTH \<equiv> 4"
abbreviation (input) S_IXOTH :: int where "S_IXOTH \<equiv> 1"

definition isDirectory :: "'w os \<Rightarrow> string \<Rightarrow> ('w, 'z) base_scheme \<Rightarrow> (int \<times> ('w, 'z) base_scheme) option" where
  "isDirectory OS path s = do {
     ((status, stbuf), s) \<leftarrow> sys (os_stat OS path) s;
     Some (if status = 0 \<and> S_ISDIR (st_mode stbuf) then 0 else -1, s)
   }"

text \<open>\<open>mkdir\<close> reports its errors as -1, with the reason in \<open>errno\<close>.\<close>

partial_function (option) makeDirs ::
  "'w os \<Rightarrow> string \<Rightarrow> ('w, 'z) base_scheme \<Rightarrow> (int \<times> ('w, 'z) base_scheme) option" where
  "makeDirs OS path s =
     (if length path = 0 then Some (0, s)
      else case splitPathByKey path [] [] slash of (_, dir, file) \<Rightarrow>
        if length dir = 0 then Some (0, s)
        else do {
          (d, s) \<leftarrow> isDirectory OS dir s;
          (status, s) \<leftarrow> (if d < 0 then makeDirs OS dir s else Some (0, s));
          if d < 0 \<and> status < 0 then Some (status, s)
          else do {
            (status, s) \<leftarrow> sys (os_mkdir OS path (S_IRWXU OR S_IRWXG OR S_IROTH OR S_IXOTH)) s;
            Some (if status = - EEXIST then 0 else status, s)
          }
        })"

definition makeParentDirs :: "'w os \<Rightarrow> string \<Rightarrow> ('w, 'z) base_scheme \<Rightarrow> (int \<times> ('w, 'z) base_scheme) option" where
  "makeParentDirs OS path s = (case splitPathByKey path [] [] slash of (_, dir, file) \<Rightarrow> makeDirs OS dir s)"

text \<open>\<open>opendir\<close>, the body of the function with the directory's handle, and \<open>closedir\<close>; a directory that
  cannot be opened has no entries.\<close>

definition withDir ::
  "'w os \<Rightarrow> string \<Rightarrow> 'a \<Rightarrow> (int \<Rightarrow> ('w, 'z) base_scheme \<Rightarrow> ('a \<times> ('w, 'z) base_scheme) option) \<Rightarrow>
   ('w, 'z) base_scheme \<Rightarrow> ('a \<times> ('w, 'z) base_scheme) option" where
  "withDir OS path dflt body s = do {
     (dir, s) \<leftarrow> sys (os_opendir OS path) s;
     (case dir of
        None \<Rightarrow> Some (dflt, s)
      | Some h \<Rightarrow> do {
          (r, s) \<leftarrow> body h s;
          (_, s) \<leftarrow> sys (os_closedir OS h) s;
          Some (r, s)
        })
   }"

lemma withDir_mono [partial_function_mono]:
  assumes "\<And>h s. mono_option (\<lambda>f. body f h s)"
  shows "mono_option (\<lambda>f. withDir OS path dflt (body f) s)"
proof -
  have "mono_option (\<lambda>f. case d of None \<Rightarrow> Some (dflt, s)
     | Some h \<Rightarrow> body f h s \<bind> (\<lambda>x. sys (os_closedir OS h) (snd x) \<bind> (\<lambda>y. Some (fst x, snd y))))" for d s
    by (cases d) (auto intro!: partial_function_mono assms)
  then show ?thesis unfolding withDir_def case_prod_beta by (intro partial_function_mono)
qed

definition isDot :: "string \<Rightarrow> bool" where
  "isDot name \<longleftrightarrow> name = ''.'' \<or> name = ''..''"

definition childPath :: "string \<Rightarrow> string \<Rightarrow> string" where
  "childPath path name = snprintf MAX_NAME_LEN (path @ ''/'' @ name)"

text \<open>\<open>!statusFailed ? rmdir (path) : statusFailed\<close>, the end of \<open>removeDirRecursive\<close>.\<close>

definition removeSelf :: "'w os \<Rightarrow> string \<Rightarrow> int \<Rightarrow> ('w, 'z) base_scheme \<Rightarrow> (int \<times> ('w, 'z) base_scheme) option" where
  "removeSelf OS path statusFailed s =
     (if statusFailed = 0 then sys (os_rmdir OS path) s else Some (statusFailed, s))"

partial_function (option) removeDir_loop ::
  "'w os \<Rightarrow> string \<Rightarrow> int \<Rightarrow> int \<Rightarrow> ('w, 'z) base_scheme \<Rightarrow> (int \<times> ('w, 'z) base_scheme) option" where
  "removeDir_loop OS path dir statusFailed s = do {
     (entry, s) \<leftarrow> sys (os_readdir OS dir) s;
     (case entry of
        None \<Rightarrow> Some (statusFailed, s)
      | Some name \<Rightarrow>
          if isDot name then removeDir_loop OS path dir statusFailed s
          else do {
            let filepath = childPath path name;
            ((r, statbuf), s) \<leftarrow> sys (os_stat OS filepath) s;
            if r \<noteq> 0 then removeDir_loop OS path dir statusFailed s
            else do {
              (status, s) \<leftarrow>
                (if S_ISDIR (st_mode statbuf) then do {
                   (sf, s) \<leftarrow> withDir OS filepath 0 (\<lambda>h. removeDir_loop OS filepath h 0) s;
                   removeSelf OS filepath sf s
                 } else sys (os_unlink OS filepath) s);
              removeDir_loop OS path dir (if status < 0 then status else statusFailed) s
            }
          })
   }"

definition removeDirRecursive :: "'w os \<Rightarrow> string \<Rightarrow> ('w, 'z) base_scheme \<Rightarrow> (int \<times> ('w, 'z) base_scheme) option" where
  "removeDirRecursive OS path s = do {
     (statusFailed, s) \<leftarrow> withDir OS path 0 (\<lambda>h. removeDir_loop OS path h 0) s;
     removeSelf OS path statusFailed s
   }"

partial_function (option) isEmptyDir_loop ::
  "'w os \<Rightarrow> int \<Rightarrow> int \<Rightarrow> ('w, 'z) base_scheme \<Rightarrow> (int \<times> ('w, 'z) base_scheme) option" where
  "isEmptyDir_loop OS dir entryCount s = do {
     (entry, s) \<leftarrow> sys (os_readdir OS dir) s;
     (case entry of
        None \<Rightarrow> Some (entryCount, s)
      | Some name \<Rightarrow> isEmptyDir_loop OS dir (if isDot name then entryCount else entryCount + 1) s)
   }"

definition isEmptyDir :: "'w os \<Rightarrow> string \<Rightarrow> ('w, 'z) base_scheme \<Rightarrow> (int \<times> ('w, 'z) base_scheme) option" where
  "isEmptyDir OS path s = withDir OS path 0 (\<lambda>h. isEmptyDir_loop OS h 0) s"

partial_function (option) emptyDir_loop ::
  "'w os \<Rightarrow> string \<Rightarrow> int \<Rightarrow> int \<Rightarrow> ('w, 'z) base_scheme \<Rightarrow> (int \<times> ('w, 'z) base_scheme) option" where
  "emptyDir_loop OS path dir statusFailed s = do {
     (entry, s) \<leftarrow> sys (os_readdir OS dir) s;
     (case entry of
        None \<Rightarrow> Some (statusFailed, s)
      | Some name \<Rightarrow>
          if isDot name then emptyDir_loop OS path dir statusFailed s
          else do {
            let filepath = childPath path name;
            ((r, statbuf), s) \<leftarrow> sys (os_stat OS filepath) s;
            if r \<noteq> 0 then emptyDir_loop OS path dir statusFailed s
            else do {
              (status, s) \<leftarrow> (if S_ISDIR (st_mode statbuf) then removeDirRecursive OS filepath s
                              else sys (os_unlink OS filepath) s);
              emptyDir_loop OS path dir (if status < 0 then status else statusFailed) s
            }
          })
   }"

definition emptyDir :: "'w os \<Rightarrow> string \<Rightarrow> ('w, 'z) base_scheme \<Rightarrow> (int \<times> ('w, 'z) base_scheme) option" where
  "emptyDir OS path s = withDir OS path 0 (\<lambda>h. emptyDir_loop OS path h 0) s"

text \<open>The loop that \<open>getFileSizeRecursive\<close> shares with the search for the oldest cached file: \<open>w_file\<close>
  takes a file into account, \<open>w_dir\<close> the result of a subdirectory, which starts from \<open>w_init\<close>.\<close>

record 'a walker =
  w_init :: 'a
  w_file :: "string \<Rightarrow> stat \<Rightarrow> 'a \<Rightarrow> 'a"
  w_dir :: "'a \<Rightarrow> 'a \<Rightarrow> 'a"

partial_function (option) walkDir_loop ::
  "'w os \<Rightarrow> 'a walker \<Rightarrow> string \<Rightarrow> int \<Rightarrow> 'a \<Rightarrow> ('w, 'z) base_scheme \<Rightarrow> ('a \<times> ('w, 'z) base_scheme) option" where
  "walkDir_loop OS W path dir acc s = do {
     (entry, s) \<leftarrow> sys (os_readdir OS dir) s;
     (case entry of
        None \<Rightarrow> Some (acc, s)
      | Some name \<Rightarrow>
          if isDot name then walkDir_loop OS W path dir acc s
          else do {
            let filepath = childPath path name;
            ((r, statbuf), s) \<leftarrow> sys (os_stat OS filepath) s;
            if r \<noteq> 0 then walkDir_loop OS W path dir acc s
            else if S_ISDIR (st_mode statbuf) then do {
              (sub, s) \<leftarrow> withDir OS filepath (w_init W) (\<lambda>h. walkDir_loop OS W filepath h (w_init W)) s;
              walkDir_loop OS W path dir (w_dir W sub acc) s
            } else walkDir_loop OS W path dir (w_file W filepath statbuf acc) s
          })
   }"

definition walkDir :: "'w os \<Rightarrow> 'a walker \<Rightarrow> string \<Rightarrow> ('w, 'z) base_scheme \<Rightarrow> ('a \<times> ('w, 'z) base_scheme) option" where
  "walkDir OS W path s = withDir OS path (w_init W) (\<lambda>h. walkDir_loop OS W path h (w_init W)) s"

definition addSize :: "int \<Rightarrow> int \<Rightarrow> int" where
  "addSize localSize accumulatedSize = (if localSize > 0 then accumulatedSize + localSize else accumulatedSize)"

definition sizeWalker :: "int walker" where
  "sizeWalker = \<lparr>w_init = 0, w_file = (\<lambda>_ statbuf. addSize (st_size statbuf)), w_dir = addSize\<rparr>"

definition getFileSizeRecursive :: "'w os \<Rightarrow> string \<Rightarrow> ('w, 'z) base_scheme \<Rightarrow> (int \<times> ('w, 'z) base_scheme) option" where
  "getFileSizeRecursive OS path s = walkDir OS sizeWalker path s"

definition getEmptySpace :: "'w os \<Rightarrow> string \<Rightarrow> ('w, 'z) base_scheme \<Rightarrow> (int \<times> ('w, 'z) base_scheme) option" where
  "getEmptySpace OS path s = do {
     ((rc, bsize, bavail), s) \<leftarrow> sys (os_statfs OS path) s;
     Some (if rc = 0 then bsize * bavail else 0, s)
   }"

text \<open>\<open>convTime (getCurrentTime ())\<close>: the seconds of the clock.\<close>

definition currentSeconds :: "'w os \<Rightarrow> ('w, 'z) base_scheme \<Rightarrow> (int \<times> ('w, 'z) base_scheme) option" where
  "currentSeconds OS s = sys (os_time OS) s"

section \<open>Local paths\<close>

text \<open>\<open>getFileType\<close> and \<open>parseLocalPath\<close> of \<open>lib/core/src/rodsPath.c\<close>: a path is taken as it is, and its
  type is looked up. The result is the state of a path that does not exist, or its type.\<close>

fun objTypeVal :: "objType_t \<Rightarrow> int" where
  "objTypeVal UNKNOWN_OBJ_T = 0" | "objTypeVal DATA_OBJ_T = 1" | "objTypeVal COLL_OBJ_T = 2"
| "objTypeVal UNKNOWN_FILE_T = 3" | "objTypeVal LOCAL_FILE_T = 4" | "objTypeVal LOCAL_DIR_T = 5"
| "objTypeVal NO_INPUT_T = 6"

definition getFileType ::
  "'w os \<Rightarrow> rodsPath_t \<Rightarrow> ('w, 'z) base_scheme \<Rightarrow> ((int \<times> rodsPath_t) \<times> ('w, 'z) base_scheme) option" where
  "getFileType OS rodsPath s = do {
     ((status, statbuf), s) \<leftarrow> sys (os_stat OS (rp_outPath rodsPath)) s;
     if status < 0 then Some ((1, rodsPath\<lparr>rp_objType := UNKNOWN_FILE_T, rp_objState := NOT_EXIST_ST\<rparr>), s)
     else let rodsPath = rodsPath\<lparr>rp_objMode := st_mode statbuf\<rparr>; rodsPath =
       (if st_mode statbuf AND S_IFREG \<noteq> 0 then rodsPath\<lparr>rp_objType := LOCAL_FILE_T, rp_objState := EXIST_ST, rp_size := st_size statbuf\<rparr>
        else if st_mode statbuf AND S_IFDIR \<noteq> 0 then rodsPath\<lparr>rp_objType := LOCAL_DIR_T, rp_objState := EXIST_ST\<rparr>
        else rodsPath)
     in Some ((objTypeVal (rp_objType rodsPath), rodsPath), s)
   }"

definition parseLocalPath ::
  "'w os \<Rightarrow> rodsPath_t \<Rightarrow> ('w, 'z) base_scheme \<Rightarrow> ((int \<times> rodsPath_t) \<times> ('w, 'z) base_scheme) option" where
  "parseLocalPath OS rodsPath s =
     getFileType OS (rodsPath\<lparr>rp_outPath := snd (rstrcpy (rp_outPath rodsPath)
        (if length (rp_inPath rodsPath) = 0 then ''.'' else rp_inPath rodsPath) (int MAX_NAME_LEN))\<rparr>) s"

section \<open>Making directories\<close>

text \<open>What \<open>stat\<close> and \<open>mkdir\<close> are documented to do: \<open>D w\<close> is the set of directories. A directory whose
  parent is there can be made; making one that exists fails with -1.\<close>

definition parentOf :: "string list \<Rightarrow> string" where
  "parentOf cs = (if cs = [] then ''/'' else joinPath cs)"

definition dir_os :: "'w os \<Rightarrow> ('w \<Rightarrow> string set) \<Rightarrow> bool" where
  "dir_os OS D \<longleftrightarrow>
     (\<forall>p w. D (snd (os_stat OS p w)) = D w \<and>
        (fst (fst (os_stat OS p w)) = 0 \<and> S_ISDIR (st_mode (snd (fst (os_stat OS p w)))) \<longleftrightarrow> p \<in> D w)) \<and>
     (\<forall>cs c m w. components (cs @ [c]) \<longrightarrow> (if joinPath (cs @ [c]) \<in> D w \<or> parentOf cs \<notin> D w
        then fst (os_mkdir OS (joinPath (cs @ [c])) m w) = -1 \<and> D (snd (os_mkdir OS (joinPath (cs @ [c])) m w)) = D w
        else fst (os_mkdir OS (joinPath (cs @ [c])) m w) = 0 \<and>
             D (snd (os_mkdir OS (joinPath (cs @ [c])) m w)) = insert (joinPath (cs @ [c])) (D w)))"

lemma splitPath_join:
  assumes "components (cs @ [c])" "length (joinPath (cs @ [c])) < MAX_NAME_LEN"
  shows "splitPathByKey (joinPath (cs @ [c])) [] [] slash = (0, parentOf cs, c)"
proof -
  let ?p = "joinPath (cs @ [c])"
  have p: "?p = joinPath cs @ slash # c" and c: "slash \<notin> set c" using assms(1) by (simp_all add: components_def)
  show ?thesis
  proof (cases "cs = []")
    case True
    have "splitPathByKey_loop ?p slash (length ?p - 1) = None"
    proof (rule ccontr)
      assume "splitPathByKey_loop ?p slash (length ?p - 1) \<noteq> None"
      then obtain j where "splitPathByKey_loop ?p slash (length ?p - 1) = Some j" by auto
      from splitPathByKey_loop_Some [OF this] have j: "0 < j" "j \<le> length c" "(slash # c) ! j = slash"
        using p True by auto
      then have "c ! (j - 1) = slash" by (simp add: nth_Cons')
      moreover have "j - 1 < length c" using j by simp
      ultimately show False using c nth_mem by metis
    qed
    with True assms(2) show ?thesis by (simp add: splitPathByKey_def parentOf_def)
  next
    case False
    let ?n = "length (joinPath cs)"
    have n: "0 < ?n" "?p ! ?n = slash" using False p by (simp_all add: nth_append)
    obtain j where j: "splitPathByKey_loop ?p slash (length ?p - 1) = Some j"
      using splitPathByKey_loop_None [of ?p slash "length ?p - 1" ?n] n p by (cases "splitPathByKey_loop ?p slash (length ?p - 1)") auto
    note s = splitPathByKey_loop_Some [OF j]
    have "\<not> j < ?n" using s n p by auto
    moreover have "\<not> ?n < j"
    proof
      assume a: "?n < j"
      then have "?p ! j = c ! (j - ?n - 1)" using p by (simp add: nth_append nth_Cons')
      with s a c p nth_mem [of "j - ?n - 1" c] show False by auto
    qed
    ultimately have "j = ?n" by simp
    with j assms(2) p False show ?thesis by (simp add: splitPathByKey_def parentOf_def)
  qed
qed

text \<open>A set of directories that has, with a directory, its parents.\<close>

definition dirs_closed :: "string set \<Rightarrow> bool" where
  "dirs_closed S \<longleftrightarrow> ''/'' \<in> S \<and> (\<forall>ds d. components (ds @ [d]) \<longrightarrow> joinPath (ds @ [d]) \<in> S \<longrightarrow> parentOf ds \<in> S)"

definition ancestors :: "string list \<Rightarrow> string set" where
  "ancestors cs = (\<lambda>k. joinPath (take k cs)) ` {1..length cs}"

lemma ancestors_snoc: "ancestors (cs @ [c]) = insert (joinPath (cs @ [c])) (ancestors cs)"
proof -
  have "{1..length (cs @ [c])} = insert (length (cs @ [c])) {1..length cs}" by auto
  then show ?thesis by (auto simp: ancestors_def image_iff)
qed

lemma ancestors_Nil [simp]: "ancestors [] = {}"
  by (simp add: ancestors_def)

lemma ancestors_single [simp]: "ancestors [c] = {joinPath [c]}"
  using ancestors_snoc [of "[]" c] by simp

lemma closed_ancestors: "dirs_closed S \<Longrightarrow> components cs \<Longrightarrow> joinPath cs \<in> S \<Longrightarrow> ancestors cs \<subseteq> S"
proof (induction cs rule: rev_induct)
  case (snoc c cs)
  then have "parentOf cs \<in> S" "components cs" by (auto simp: dirs_closed_def components_def simp del: joinPath_simps)
  with snoc show ?case by (cases "cs = []") (auto simp: ancestors_snoc parentOf_def simp del: joinPath_simps)
qed simp

lemma isDirectory_dir:
  "dir_os OS D \<Longrightarrow> \<exists>w. isDirectory OS p s = Some (if p \<in> D (world s) then 0 else -1, s\<lparr>world := w\<rparr>) \<and> D w = D (world s)"
proof -
  assume a: "dir_os OS D"
  obtain r sb w where w: "os_stat OS p (world s) = ((r, sb), w)" by (metis surj_pair)
  have "D (snd (os_stat OS p (world s))) = D (world s) \<and>
      (fst (fst (os_stat OS p (world s))) = 0 \<and> S_ISDIR (st_mode (snd (fst (os_stat OS p (world s))))) \<longleftrightarrow> p \<in> D (world s))"
    using a unfolding dir_os_def by blast
  then show ?thesis unfolding w isDirectory_def sys_def by (auto intro!: exI [of _ w])
qed

lemma mkdir_dir:
  assumes "dir_os OS D" "components (cs @ [c])"
  shows "\<exists>w. sys (os_mkdir OS (joinPath (cs @ [c])) m) s =
       Some (if joinPath (cs @ [c]) \<in> D (world s) \<or> parentOf cs \<notin> D (world s) then -1 else 0, s\<lparr>world := w\<rparr>) \<and>
     D w = (if joinPath (cs @ [c]) \<in> D (world s) \<or> parentOf cs \<notin> D (world s) then D (world s)
            else insert (joinPath (cs @ [c])) (D (world s)))"
proof -
  obtain r w where rw: "os_mkdir OS (joinPath (cs @ [c])) m (world s) = (r, w)" by fastforce
  have "if joinPath (cs @ [c]) \<in> D (world s) \<or> parentOf cs \<notin> D (world s)
        then fst (os_mkdir OS (joinPath (cs @ [c])) m (world s)) = -1 \<and> D (snd (os_mkdir OS (joinPath (cs @ [c])) m (world s))) = D (world s)
        else fst (os_mkdir OS (joinPath (cs @ [c])) m (world s)) = 0 \<and>
             D (snd (os_mkdir OS (joinPath (cs @ [c])) m (world s))) = insert (joinPath (cs @ [c])) (D (world s))"
    using assms unfolding dir_os_def by blast
  then show ?thesis unfolding rw sys_def by (auto simp del: joinPath_simps)
qed

lemma makeDirs_wp:
  assumes "dir_os OS D" "components cs" "length (joinPath cs) < MAX_NAME_LEN" "cs \<noteq> []" "dirs_closed (D (world s))"
  shows "\<exists>w. makeDirs OS (joinPath cs) s = Some (if joinPath cs \<in> D (world s) then -1 else 0, s\<lparr>world := w\<rparr>) \<and>
     D w = D (world s) \<union> ancestors cs"
  using assms(2-5)
proof (induction cs arbitrary: s rule: rev_induct)
  case Nil
  then show ?case by simp
next
  case (snoc c cs)
  let ?P = "joinPath (cs @ [c])"
  note split = splitPath_join [OF snoc.prems(1,2)]
  have ne: "length (parentOf cs) \<noteq> 0" "length ?P \<noteq> 0" by (auto simp: parentOf_def)
  obtain w1 where w1: "isDirectory OS (parentOf cs) s = Some (if parentOf cs \<in> D (world s) then 0 else -1, s\<lparr>world := w1\<rparr>)"
      "D w1 = D (world s)" using isDirectory_dir [OF assms(1)] by blast
  have run: "makeDirs OS ?P s = do {
      (status, s) \<leftarrow> (if parentOf cs \<notin> D (world s) then makeDirs OS (parentOf cs) (s\<lparr>world := w1\<rparr>) else Some (0, s\<lparr>world := w1\<rparr>));
      if parentOf cs \<notin> D (world s') \<and> status < 0 then Some (status, s)
      else do {
            (status, s) \<leftarrow> sys (os_mkdir OS ?P (S_IRWXU OR S_IRWXG OR S_IROTH OR S_IXOTH)) s;
            Some (if status = - EEXIST then 0 else status, s) } }" if "s' = s" for s'
    by (subst makeDirs.simps) (use split ne w1 that in \<open>simp del: joinPath_simps\<close>)
  show ?case
  proof (cases "parentOf cs \<in> D (world s)")
    case True
    have "ancestors cs \<subseteq> D (world s)"
      using True closed_ancestors [OF snoc.prems(4), of cs] snoc.prems(1) by (cases "cs = []") (auto simp: parentOf_def components_def)
    moreover obtain w3 where "sys (os_mkdir OS ?P 509) (s\<lparr>world := w1\<rparr>) = Some (if ?P \<in> D (world s) then -1 else 0, s\<lparr>world := w3\<rparr>)"
        "D w3 = (if ?P \<in> D (world s) then D (world s) else insert ?P (D (world s)))"
      using mkdir_dir [OF assms(1) snoc.prems(1), of 509 "s\<lparr>world := w1\<rparr>"] True w1(2) by (auto simp del: joinPath_simps)
    ultimately show ?thesis
      using True run [OF refl] by (intro exI [of _ w3]) (auto simp: ancestors_snoc simp del: joinPath_simps)
  next
    case False
    then have cs: "cs \<noteq> []" "parentOf cs = joinPath cs" using snoc.prems(4) by (auto simp: parentOf_def dirs_closed_def)
    have "components cs" "length (joinPath cs) < MAX_NAME_LEN" using snoc.prems(1,2) by (auto simp: components_def)
    from snoc.IH [OF this cs(1), of "s\<lparr>world := w1\<rparr>"] snoc.prems(4) w1(2) False cs(2) obtain w2 where
      w2: "makeDirs OS (parentOf cs) (s\<lparr>world := w1\<rparr>) = Some (0, s\<lparr>world := w2\<rparr>)" "D w2 = D (world s) \<union> ancestors cs"
      by auto
    have "length ?P > length (joinPath (take k cs))" for k
    proof -
      have "joinPath cs = joinPath (take k cs) @ joinPath (drop k cs)"
        by (simp flip: joinPath_simps(3))
      then have "length (joinPath (take k cs)) \<le> length (joinPath cs)" by simp
      then show ?thesis by simp
    qed
    then have "?P \<notin> ancestors cs" by (auto simp: ancestors_def simp del: joinPath_simps) (metis less_irrefl)
    moreover have "?P \<notin> D (world s)" using False snoc.prems(1,4) by (auto simp: dirs_closed_def simp del: joinPath_simps)
    moreover have "parentOf cs \<in> ancestors cs" using cs by (auto simp: ancestors_def image_iff intro!: bexI [of _ "length cs"] Suc_leI)
    ultimately show ?thesis
      using run [OF refl] False w2 mkdir_dir [OF assms(1) snoc.prems(1), of 509 "s\<lparr>world := w2\<rparr>"]
      by (auto simp: ancestors_snoc simp del: joinPath_simps)
  qed
qed

section \<open>Walking a tree\<close>

text \<open>A local file system as a tree, and what the calls are documented to do: \<open>L w\<close> gives the node at a
  path, \<open>S w\<close> the names still to be read from an open directory. The two dot entries may come
  anywhere in between.\<close>

datatype fnode = FFile stat | FDir "(string \<times> fnode) list"

definition tree_os :: "'w os \<Rightarrow> ('w \<Rightarrow> string \<Rightarrow> fnode option) \<Rightarrow> ('w \<Rightarrow> int \<Rightarrow> string list option) \<Rightarrow> bool" where
  "tree_os OS L S \<longleftrightarrow>
     (\<forall>p w r sb w'. os_stat OS p w = ((r, sb), w') \<longrightarrow> L w' = L w \<and> S w' = S w \<and>
        (case L w p of None \<Rightarrow> r < 0 | Some (FFile st) \<Rightarrow> r = 0 \<and> sb = st | Some (FDir _) \<Rightarrow> r = 0 \<and> S_ISDIR (st_mode sb))) \<and>
     (\<forall>p w d w' es. os_opendir OS p w = (d, w') \<longrightarrow> L w p = Some (FDir es) \<longrightarrow> L w' = L w \<and>
        (\<exists>h ns. d = Some h \<and> S w h = None \<and> S w' = (S w)(h \<mapsto> ns) \<and> filter (\<lambda>n. \<not> isDot n) ns = filter (\<lambda>n. \<not> isDot n) (map fst es))) \<and>
     (\<forall>h w e w' ns. os_readdir OS h w = (e, w') \<longrightarrow> S w h = Some ns \<longrightarrow> L w' = L w \<and> e = hdo ns \<and> S w' = (S w)(h \<mapsto> tl ns)) \<and>
     (\<forall>h w r w'. os_closedir OS h w = (r, w') \<longrightarrow> L w' = L w \<and> S w' = (S w)(h := None))"

text \<open>A tree is at a path, with no name that the fixed-size buffers would cut.\<close>

fun treeAt :: "(string \<Rightarrow> fnode option) \<Rightarrow> string \<Rightarrow> fnode \<Rightarrow> bool" where
  "treeAt l p (FFile st) \<longleftrightarrow> l p = Some (FFile st) \<and> \<not> S_ISDIR (st_mode st) \<and> length p < MAX_NAME_LEN"
| "treeAt l p (FDir es) \<longleftrightarrow> l p = Some (FDir es) \<and> length p < MAX_NAME_LEN \<and>
     (\<forall>(n, t) \<in> set es. \<not> isDot n \<and> treeAt l (p @ ''/'' @ n) t)"

text \<open>The files of a tree with their paths, in the order of the walk.\<close>

fun filesOf :: "string \<Rightarrow> fnode \<Rightarrow> (string \<times> stat) list" where
  "filesOf p (FFile sb) = [(p, sb)]"
| "filesOf p (FDir es) = concat (map (\<lambda>(n, t). filesOf (p @ ''/'' @ n) t) es)"

abbreviation isFile :: "fnode \<Rightarrow> bool" where
  "isFile t \<equiv> (case t of FFile _ \<Rightarrow> True | FDir _ \<Rightarrow> False)"

fun removeFile :: "string \<Rightarrow> string \<Rightarrow> fnode \<Rightarrow> fnode" where
  "removeFile p q (FFile sb) = FFile sb"
| "removeFile p q (FDir es) =
     FDir (map (\<lambda>(n, t). (n, removeFile (p @ ''/'' @ n) q t)) (filter (\<lambda>(n, t). \<not> (isFile t \<and> p @ ''/'' @ n = q)) es))"

text \<open>What \<open>unlink\<close> is documented to do: a file leaves every tree it is in.\<close>

definition unlink_os :: "'w os \<Rightarrow> ('w \<Rightarrow> string \<Rightarrow> fnode option) \<Rightarrow> ('w \<Rightarrow> int \<Rightarrow> string list option) \<Rightarrow> bool" where
  "unlink_os OS L S \<longleftrightarrow> (\<forall>q w sb. L w q = Some (FFile sb) \<longrightarrow>
     fst (os_unlink OS q w) = 0 \<and> S (snd (os_unlink OS q w)) = S w \<and>
     (\<forall>p es. treeAt (L w) p (FDir es) \<longrightarrow> treeAt (L (snd (os_unlink OS q w))) p (removeFile p q (FDir es))))"

text \<open>The walk as a fold over the tree.\<close>

fun walkTree :: "'a walker \<Rightarrow> string \<Rightarrow> fnode \<Rightarrow> 'a \<Rightarrow> 'a" where
  "walkTree W p (FFile st) acc = w_file W p st acc"
| "walkTree W p (FDir es) acc = w_dir W (fold (\<lambda>(n, t). walkTree W (p @ ''/'' @ n) t) es (w_init W)) acc"

abbreviation walkEntries :: "'a walker \<Rightarrow> string \<Rightarrow> (string \<times> fnode) list \<Rightarrow> 'a \<Rightarrow> 'a" where
  "walkEntries W p es \<equiv> fold (\<lambda>(n, t). walkTree W (p @ ''/'' @ n) t) es"

lemma treeAt_length: "treeAt l p t \<Longrightarrow> length p < MAX_NAME_LEN"
  by (cases t) auto

lemma childPath_eq: "length (p @ ''/'' @ n) < MAX_NAME_LEN \<Longrightarrow> childPath p n = p @ ''/'' @ n"
  by (simp add: childPath_def snprintf_def)

lemma tree_stat:
  assumes "tree_os OS L S" "treeAt (L (world s)) p t"
  shows "\<exists>sb w. sys (os_stat OS p) s = Some ((0, sb), s\<lparr>world := w\<rparr>) \<and> L w = L (world s) \<and> S w = S (world s) \<and>
     (case t of FFile st \<Rightarrow> sb = st \<and> \<not> S_ISDIR (st_mode sb) | FDir _ \<Rightarrow> S_ISDIR (st_mode sb))"
proof -
  obtain r sb w where w: "os_stat OS p (world s) = ((r, sb), w)" by (metis surj_pair)
  with assms show ?thesis
    unfolding tree_os_def by (cases t) (fastforce simp: sys_def)+
qed

lemma tree_read:
  assumes "tree_os OS L S" "S (world s) h = Some ns"
  shows "\<exists>w. sys (os_readdir OS h) s = Some (hdo ns, s\<lparr>world := w\<rparr>) \<and> L w = L (world s) \<and> S w = (S (world s))(h \<mapsto> tl ns)"
proof -
  obtain e w where "os_readdir OS h (world s) = (e, w)" by fastforce
  with assms show ?thesis unfolding tree_os_def by (auto simp: sys_def intro!: exI [of _ w])
qed

lemma tree_open:
  assumes "tree_os OS L S" "treeAt (L (world s)) p (FDir es)"
  shows "\<exists>h ns w. sys (os_opendir OS p) s = Some (Some h, s\<lparr>world := w\<rparr>) \<and> L w = L (world s) \<and> S (world s) h = None \<and>
     S w = (S (world s))(h \<mapsto> ns) \<and> filter (\<lambda>n. \<not> isDot n) ns = map fst es"
proof -
  obtain d w where w: "os_opendir OS p (world s) = (d, w)" by fastforce
  have f: "filter (\<lambda>n. \<not> isDot n) (map fst es) = map fst es" using assms(2) by (auto simp: filter_id_conv)
  have "L (world s) p = Some (FDir es)" using assms(2) by simp
  note conjunct1 [OF conjunct2 [OF assms(1) [unfolded tree_os_def]], rule_format, OF w this, unfolded f]
  then show ?thesis unfolding sys_def w by auto
qed

lemma tree_close:
  assumes "tree_os OS L S"
  shows "\<exists>r w. sys (os_closedir OS h) s = Some (r, s\<lparr>world := w\<rparr>) \<and> L w = L (world s) \<and> S w = (S (world s))(h := None)"
proof -
  obtain r w where w: "os_closedir OS h (world s) = (r, w)" by fastforce
  note conjunct2 [OF conjunct2 [OF conjunct2 [OF assms(1) [unfolded tree_os_def]]], rule_format, OF w]
  then show ?thesis unfolding sys_def w by auto
qed

text \<open>Reading a directory whose entries are known to behave.\<close>

lemma walkDir_loop_tree:
  fixes s :: "('w, 'z) base_scheme"
  assumes T: "tree_os OS L S"
    and sub: "\<And>n t (s :: ('w, 'z) base_scheme). (n, t) \<in> set es \<Longrightarrow> treeAt (L (world s)) (p @ ''/'' @ n) t \<Longrightarrow> (\<forall>es'. t = FDir es' \<longrightarrow>
       (\<exists>w. walkDir OS W (p @ ''/'' @ n) s = Some (walkEntries W (p @ ''/'' @ n) es' (w_init W), s\<lparr>world := w\<rparr>) \<and>
          L w = L (world s) \<and> S w = S (world s)))"
    and at: "\<forall>(n, t) \<in> set es. \<not> isDot n \<and> treeAt (L (world s)) (p @ ''/'' @ n) t"
    and open': "S (world s) h = Some ns" "filter (\<lambda>n. \<not> isDot n) ns = map fst es"
  shows "\<exists>w. walkDir_loop OS W p h acc s = Some (walkEntries W p es acc, s\<lparr>world := w\<rparr>) \<and>
     L w = L (world s) \<and> S w = (S (world s))(h \<mapsto> [])"
  using sub at open'
proof (induction ns arbitrary: es acc s)
  case Nil
  from tree_read [OF T Nil.prems(3)] obtain w where
    w: "sys (os_readdir OS h) s = Some (None, s\<lparr>world := w\<rparr>)" "L w = L (world s)" "S w = (S (world s))(h \<mapsto> [])" by auto
  show ?case using Nil.prems(4) w by (subst walkDir_loop.simps) auto
next
  case (Cons n ns)
  from tree_read [OF T Cons.prems(3)] obtain w where
    w: "sys (os_readdir OS h) s = Some (Some n, s\<lparr>world := w\<rparr>)" "L w = L (world s)" "S w = (S (world s))(h \<mapsto> ns)" by auto
  show ?case
  proof (cases "isDot n")
    case True
    have "\<exists>w'. walkDir_loop OS W p h acc (s\<lparr>world := w\<rparr>) = Some (walkEntries W p es acc, (s\<lparr>world := w\<rparr>)\<lparr>world := w'\<rparr>) \<and>
       L w' = L (world (s\<lparr>world := w\<rparr>)) \<and> S w' = (S (world (s\<lparr>world := w\<rparr>)))(h \<mapsto> [])"
      by (rule Cons.IH [OF Cons.prems(1)]) (use Cons.prems(2,4) True w in auto)
    with True w show ?thesis by (subst walkDir_loop.simps) auto
  next
    case False
    then obtain t es' where es: "es = (n, t) # es'" "filter (\<lambda>n. \<not> isDot n) ns = map fst es'"
      using Cons.prems(4) by (cases es) auto
    have at: "treeAt (L w) (p @ ''/'' @ n) t" using Cons.prems(2) es w(2) by auto
    then have cp: "childPath p n = p @ ''/'' @ n" by (intro childPath_eq treeAt_length)
    obtain sb w1 where w1: "sys (os_stat OS (p @ ''/'' @ n)) (s\<lparr>world := w\<rparr>) = Some ((0, sb), s\<lparr>world := w1\<rparr>)" "L w1 = L w" "S w1 = S w"
      "case t of FFile st \<Rightarrow> sb = st \<and> \<not> S_ISDIR (st_mode sb) | FDir _ \<Rightarrow> S_ISDIR (st_mode sb)"
      using tree_stat [OF T, of "s\<lparr>world := w\<rparr>" "p @ ''/'' @ n" t] at by auto
    have rest: "\<exists>w'. walkDir_loop OS W p h a (s\<lparr>world := u\<rparr>) = Some (walkEntries W p es' a, s\<lparr>world := w'\<rparr>) \<and>
       L w' = L (world s) \<and> S w' = (S (world s))(h \<mapsto> [])" if u: "L u = L w" "S u = S w" for u a
    proof -
      have "\<exists>w'. walkDir_loop OS W p h a (s\<lparr>world := u\<rparr>) = Some (walkEntries W p es' a, (s\<lparr>world := u\<rparr>)\<lparr>world := w'\<rparr>) \<and>
         L w' = L (world (s\<lparr>world := u\<rparr>)) \<and> S w' = (S (world (s\<lparr>world := u\<rparr>)))(h \<mapsto> [])"
      proof (rule Cons.IH)
        show "\<forall>ez. t' = FDir ez \<longrightarrow> (\<exists>w. walkDir OS W (p @ ''/'' @ n') s = Some (walkEntries W (p @ ''/'' @ n') ez (w_init W), s\<lparr>world := w\<rparr>) \<and>
            L w = L (world s) \<and> S w = S (world s))" if "(n', t') \<in> set es'" "treeAt (L (world s)) (p @ ''/'' @ n') t'" for n' t' and s :: "('w, 'z) base_scheme"
          by (rule Cons.prems(1) [OF _ that(2)]) (use that(1) es(1) in simp)
      qed (use Cons.prems(2) es w u in auto)
      then show ?thesis using u w(2,3) by simp
    qed
    show ?thesis
    proof (cases t)
      case (FFile st)
      with w1(4) rest [OF w1(2,3), of "w_file W (p @ ''/'' @ n) sb acc"] False w(1) w1(1) cp es show ?thesis
        by (subst walkDir_loop.simps) auto
    next
      case (FDir es2)
      obtain w2 where w2: "walkDir OS W (p @ ''/'' @ n) (s\<lparr>world := w1\<rparr>) =
          Some (walkEntries W (p @ ''/'' @ n) es2 (w_init W), s\<lparr>world := w2\<rparr>)" "L w2 = L w" "S w2 = S w"
        using Cons.prems(1) [of n t "s\<lparr>world := w1\<rparr>"] es at w1(2,3) FDir by auto
      from FDir w1(4) rest [OF w2(2,3)] False w(1) w1(1) w2(1) cp es show ?thesis
        by (subst walkDir_loop.simps) (auto simp: walkDir_def)
    qed
  qed
qed

lemma walkDir_tree:
  fixes s :: "('w, 'z) base_scheme"
  assumes "tree_os OS L S" "treeAt (L (world s)) p (FDir es)"
  shows "\<exists>w. walkDir OS W p s = Some (walkEntries W p es (w_init W), s\<lparr>world := w\<rparr>) \<and> L w = L (world s) \<and> S w = S (world s)"
  using assms(2)
proof (induction es arbitrary: p s rule: measure_induct_rule [of "\<lambda>es. size (FDir es)"])
  case (less es)
  obtain h ns w1 where
    w1: "sys (os_opendir OS p) s = Some (Some h, s\<lparr>world := w1\<rparr>)" "L w1 = L (world s)" "S (world s) h = None"
      "S w1 = (S (world s))(h \<mapsto> ns)" "filter (\<lambda>n. \<not> isDot n) ns = map fst es"
    using tree_open [OF assms(1) less.prems] by auto
  have "\<exists>w. walkDir_loop OS W p h (w_init W) (s\<lparr>world := w1\<rparr>) = Some (walkEntries W p es (w_init W), (s\<lparr>world := w1\<rparr>)\<lparr>world := w\<rparr>) \<and>
     L w = L (world (s\<lparr>world := w1\<rparr>)) \<and> S w = (S (world (s\<lparr>world := w1\<rparr>)))(h \<mapsto> [])"
  proof (rule walkDir_loop_tree [OF assms(1)])
    fix n t and s :: "('w, 'z) base_scheme" assume nt: "(n, t) \<in> set es" "treeAt (L (world s)) (p @ ''/'' @ n) t"
    have "size t < size (FDir es)" using nt(1) by (induction es) auto
    then show "\<forall>es'. t = FDir es' \<longrightarrow> (\<exists>w. walkDir OS W (p @ ''/'' @ n) s =
        Some (walkEntries W (p @ ''/'' @ n) es' (w_init W), s\<lparr>world := w\<rparr>) \<and> L w = L (world s) \<and> S w = S (world s))"
      using less.IH nt(2) by blast
  qed (use less.prems w1 in auto)
  then obtain w2 where w2: "walkDir_loop OS W p h (w_init W) (s\<lparr>world := w1\<rparr>) = Some (walkEntries W p es (w_init W), s\<lparr>world := w2\<rparr>)"
     "L w2 = L (world s)" "S w2 = (S (world s))(h \<mapsto> [])" using w1 by auto
  obtain r w3 where "sys (os_closedir OS h) (s\<lparr>world := w2\<rparr>) = Some (r, s\<lparr>world := w3\<rparr>)" "L w3 = L (world s)" "S w3 = S (world s)"
    using tree_close [OF assms(1), of h "s\<lparr>world := w2\<rparr>"] w2(2,3) w1(3) by (auto simp: fun_upd_idem)
  then show ?case using w1(1) w2(1) by (auto simp: walkDir_def withDir_def)
qed

text \<open>The size of a tree.\<close>

fun treeSize :: "fnode \<Rightarrow> int" where
  "treeSize (FFile st) = max 0 (st_size st)"
| "treeSize (FDir es) = sum_list (map (\<lambda>(n, t). treeSize t) es)"

lemma treeSize_nonneg: "0 \<le> treeSize t"
  by (induction t rule: treeSize.induct) (auto intro!: sum_list_nonneg)

lemma walk_size: "walkTree sizeWalker p t acc = acc + treeSize t"
  and walkEntries_size: "walkEntries sizeWalker p es (w_init sizeWalker) = treeSize (FDir es)"
proof -
  have entries: "walkEntries sizeWalker p es acc = acc + treeSize (FDir es)"
    if "\<And>n t q a. (n, t) \<in> set es \<Longrightarrow> walkTree sizeWalker q t a = a + treeSize t" for es p acc
    using that
  proof (induction es arbitrary: acc)
    case (Cons e es)
    obtain n t where e: "e = (n, t)" by (cases e)
    have "walkEntries sizeWalker p es a = a + treeSize (FDir es)" for a
      using Cons.prems by (intro Cons.IH) (meson list.set_intros(2))
    with Cons.prems [of n t] e show ?case by simp
  qed simp
  have tree: "walkTree sizeWalker p t acc = acc + treeSize t" for t p acc
  proof (induction t arbitrary: p acc rule: treeSize.induct)
    case (2 es)
    from entries [of es p 0] 2 have "walkEntries sizeWalker p es 0 = treeSize (FDir es)" by fastforce
    then show ?case
      using treeSize_nonneg [of "FDir es"] by (simp add: sizeWalker_def addSize_def)
  qed (simp add: sizeWalker_def addSize_def)
  show "walkTree sizeWalker p t acc = acc + treeSize t" by (rule tree)
  show "walkEntries sizeWalker p es (w_init sizeWalker) = treeSize (FDir es)"
    using entries [OF tree, where es = es and p = p and acc = 0] by (simp add: sizeWalker_def)
qed

section \<open>Properties\<close>

text \<open>An operating system that does nothing, and on it one that keeps a list of directories, and one that
  keeps a map of nodes and the names still to be read of each directory ever opened.\<close>

definition idleOS :: "'w os" where
  "idleOS = \<lparr>os_time = (\<lambda>w. (0, w)), os_errno = (\<lambda>w. (0, w)), os_random = (\<lambda>w. (0, w)),
     os_getuid = (\<lambda>w. (0, w)), os_getgid = (\<lambda>w. (0, w)), os_open = (\<lambda>_ _ _ w. (3, w)),
     os_close = (\<lambda>_ w. (0, w)), os_read = (\<lambda>_ _ w. ((0, []), w)), os_write = (\<lambda>_ b w. (int (length b), w)),
     os_lseek = (\<lambda>_ o' w. (o', w)), os_stat = (\<lambda>_ w. ((-1, zero_stat), w)),
     os_fstat = (\<lambda>_ w. ((-1, zero_stat), w)), os_fsync = (\<lambda>_ w. (0, w)), os_unlink = (\<lambda>_ w. (0, w)),
     os_rename = (\<lambda>_ _ w. (0, w)), os_truncate = (\<lambda>_ _ w. (0, w)), os_mkdir = (\<lambda>_ _ w. (0, w)),
     os_rmdir = (\<lambda>_ w. (0, w)), os_filler = (\<lambda>_ w. (0, w)), os_stackPath = (\<lambda>w. (zero_rodsPath, w)),
     os_malloc = (\<lambda>n w. (replicate (nat n) (CHR 0x00), w)),
     os_opendir = (\<lambda>_ w. (None, w)), os_readdir = (\<lambda>_ w. (None, w)), os_closedir = (\<lambda>_ w. (0, w)),
     os_statfs = (\<lambda>_ w. ((0, 4096, 0), w)), os_utime = (\<lambda>_ _ _ w. (0, w)), os_pthread_create = (\<lambda>w. (0, w))\<rparr>"

definition dirStat :: stat where
  "dirStat = zero_stat\<lparr>st_mode := 0x4000\<rparr>"

definition dirname :: "string \<Rightarrow> string" where
  "dirname p = (let d = rev (tl (dropWhile (\<lambda>c. c \<noteq> slash) (rev p))) in if d = [] then ''/'' else d)"

definition dirsOS :: "string set os" where
  "dirsOS = idleOS\<lparr>os_stat := (\<lambda>p w. (if p \<in> w then (0, dirStat) else (-1, zero_stat), w)),
     os_mkdir := (\<lambda>p _ w. if p \<in> w \<or> dirname p \<notin> w then (-1, w) else (0, insert p w))\<rparr>"

lemma dirname_join: "components (cs @ [c]) \<Longrightarrow> dirname (joinPath (cs @ [c])) = parentOf cs"
proof -
  assume "components (cs @ [c])"
  then have "slash \<notin> set (rev c)" by (simp add: components_def)
  then have "dropWhile (\<lambda>c. c \<noteq> slash) (rev c @ [slash] @ rev (joinPath cs)) = slash # rev (joinPath cs)"
    by (induction "rev c" arbitrary: c) (auto simp: dropWhile_append)
  then show ?thesis by (simp add: dirname_def parentOf_def)
qed

lemma dirsOS_ok: "dir_os dirsOS id"
  unfolding dir_os_def using dirname_join
  by (auto simp: dirsOS_def dirStat_def S_ISDIR_def zero_stat_def simp del: joinPath_simps)

text \<open>A tree with a file of 3 bytes and a subdirectory with a file of 4.\<close>

definition file_of :: "int \<Rightarrow> fnode" where
  "file_of n = FFile (zero_stat\<lparr>st_mode := 0x8000, st_size := n\<rparr>)"

definition sampleTree :: "string \<Rightarrow> fnode option" where
  "sampleTree = [''/c'' \<mapsto> FDir [(''a'', file_of 3), (''d'', FDir [(''b'', file_of 4)])],
     ''/c/a'' \<mapsto> file_of 3, ''/c/d'' \<mapsto> FDir [(''b'', file_of 4)], ''/c/d/b'' \<mapsto> file_of 4]"

definition nodeStat :: "fnode option \<Rightarrow> int \<times> stat" where
  "nodeStat t = (case t of None \<Rightarrow> (-1, zero_stat) | Some (FFile st) \<Rightarrow> (0, st) | Some (FDir _) \<Rightarrow> (0, dirStat))"

definition handleNames :: "string list option list \<Rightarrow> int \<Rightarrow> string list option" where
  "handleNames w h = (if 0 \<le> h \<and> h < int (length w) then w ! nat h else None)"

definition unlinkNode :: "string \<Rightarrow> (string \<Rightarrow> fnode option) \<Rightarrow> string \<Rightarrow> fnode option" where
  "unlinkNode q l p = (if p = q then None else map_option (removeFile p q) (l p))"

definition treeOS :: "((string \<Rightarrow> fnode option) \<times> string list option list) os" where
  "treeOS = idleOS\<lparr>os_stat := (\<lambda>p w. (nodeStat (fst w p), w)),
     os_opendir := (\<lambda>p w. case fst w p of Some (FDir es) \<Rightarrow>
        (Some (int (length (snd w))), (fst w, snd w @ [Some ([''.'', ''..''] @ map fst es)])) | _ \<Rightarrow> (None, w)),
     os_readdir := (\<lambda>h w. case handleNames (snd w) h of Some ns \<Rightarrow> (hdo ns, (fst w, (snd w)[nat h := Some (tl ns)])) | None \<Rightarrow> (None, w)),
     os_closedir := (\<lambda>h w. if 0 \<le> h then (0, (fst w, (snd w)[nat h := None])) else (-1, w)),
     os_unlink := (\<lambda>q w. case fst w q of Some (FFile _) \<Rightarrow> (0, (unlinkNode q (fst w), snd w)) | _ \<Rightarrow> (-1, w))\<rparr>"

lemma handleNames_simps:
  "handleNames (w @ [x]) = (handleNames w)(int (length w) := x)"
  "0 \<le> h \<Longrightarrow> handleNames (w[nat h := x]) = (if h < int (length w) then (handleNames w)(h := x) else handleNames w)"
  by (auto simp: handleNames_def fun_eq_iff nth_append nth_list_update not_less)

lemma treeOS_ok: "tree_os treeOS fst (handleNames \<circ> snd)"
proof -
  have n: "handleNames w h = None" if "\<not> (0 \<le> h \<and> h < int (length w))" for w h using that unfolding handleNames_def by (meson)
  have dots: "isDot ''.''" "isDot ''..''" by (simp_all add: isDot_def)
  show ?thesis
    unfolding tree_os_def
  proof (intro conjI allI impI)
    fix h e w' ns and w :: "(string \<Rightarrow> fnode option) \<times> string list option list"
    assume a: "os_readdir treeOS h w = (e, w')" "(handleNames \<circ> snd) w h = Some ns"
    then have h: "0 \<le> h" "h < int (length (snd w))" using n [of h "snd w"] by auto
    show "e = hdo ns" "(handleNames \<circ> snd) w' = ((handleNames \<circ> snd) w)(h \<mapsto> tl ns)" "fst w' = fst w"
      using a h by (auto simp: treeOS_def handleNames_simps)
  next
    fix p d w' es and w :: "(string \<Rightarrow> fnode option) \<times> string list option list"
    assume a: "os_opendir treeOS p w = (d, w')" "fst w p = Some (FDir es)"
    then show "\<exists>h ns. d = Some h \<and> (handleNames \<circ> snd) w h = None \<and> (handleNames \<circ> snd) w' = ((handleNames \<circ> snd) w)(h \<mapsto> ns) \<and>
        filter (\<lambda>n. \<not> isDot n) ns = filter (\<lambda>n. \<not> isDot n) (map fst es)" "fst w' = fst w"
      using n [of "int (length (snd w))" "snd w"]
      by (auto simp: treeOS_def handleNames_simps dots intro!: exI [of _ "[''.'', ''..''] @ map fst es"])
  next
    fix h r w' and w :: "(string \<Rightarrow> fnode option) \<times> string list option list"
    assume a: "os_closedir treeOS h w = (r, w')"
    then show "(handleNames \<circ> snd) w' = ((handleNames \<circ> snd) w)(h := None)" "fst w' = fst w"
      using n [of h "snd w"] by (auto simp: treeOS_def handleNames_simps fun_upd_idem split: if_splits)
  qed (auto simp: treeOS_def nodeStat_def S_ISDIR_def dirStat_def split: option.splits fnode.splits)
qed

lemma treeAt_unlink:
  "treeAt l p t \<Longrightarrow> p \<noteq> q \<Longrightarrow> l q = Some (FFile sb) \<Longrightarrow> treeAt (unlinkNode q l) p (removeFile p q t)"
proof (induction l p t rule: treeAt.induct)
  case (2 l p es)
  have "treeAt (unlinkNode q l) (p @ ''/'' @ n) (removeFile (p @ ''/'' @ n) q t)"
    if "(n, t) \<in> set es" "\<not> (isFile t \<and> p @ ''/'' @ n = q)" for n t
  proof -
    have at: "treeAt l (p @ ''/'' @ n) t" using 2(2) that(1) by auto
    then have "p @ ''/'' @ n \<noteq> q" using that(2) 2(4) by (cases t) auto
    then show ?thesis using 2(1) [OF that(1) refl] at 2(4) by simp
  qed
  then have "\<forall>(n, t) \<in> set (filter (\<lambda>(n, t). \<not> (isFile t \<and> p @ ''/'' @ n = q)) es).
      \<not> isDot n \<and> treeAt (unlinkNode q l) (p @ ''/'' @ n) (removeFile (p @ ''/'' @ n) q t)"
    using 2(2) by fastforce
  moreover have "unlinkNode q l p = Some (removeFile p q (FDir es))" using 2(2,3) by (simp add: unlinkNode_def)
  ultimately show ?case using 2(2) by (auto simp del: append_Cons)
qed (simp add: unlinkNode_def)

lemma treeOS_unlink: "unlink_os treeOS fst (handleNames \<circ> snd)"
  unfolding unlink_os_def
proof (intro allI impI conjI)
  fix q sb and w :: "(string \<Rightarrow> fnode option) \<times> string list option list" assume f: "fst w q = Some (FFile sb)"
  then show "fst (os_unlink treeOS q w) = 0" "(handleNames \<circ> snd) (snd (os_unlink treeOS q w)) = (handleNames \<circ> snd) w"
    by (simp_all add: treeOS_def)
  fix p es assume at: "treeAt (fst w) p (FDir es)"
  then have "p \<noteq> q" using f by auto
  from treeAt_unlink [OF at this f] f show "treeAt (fst (snd (os_unlink treeOS q w))) p (removeFile p q (FDir es))"
    by (simp add: treeOS_def del: removeFile.simps treeAt.simps)
qed



text \<open>C27. For a directory at the root of a finite tree of files, \<open>getFileSizeRecursive\<close> returns: it gives
  the sum of the sizes of all files below, files of negative size counting as empty, closes every
  directory it opened and leaves the tree alone.\<close>

theorem getFileSizeRecursive_sums:
  assumes "tree_os OS L S" "treeAt (L (world s)) p (FDir es)"
  shows "\<exists>w. getFileSizeRecursive OS p s = Some (treeSize (FDir es), s\<lparr>world := w\<rparr>) \<and> L w = L (world s) \<and> S w = S (world s)"
  using walkDir_tree [OF assms, of sizeWalker] by (simp only: getFileSizeRecursive_def walkEntries_size)

theorem getFileSizeRecursive_sums_witness:
  "\<exists>w. getFileSizeRecursive treeOS ''/c'' \<lparr>world = (sampleTree, []), locks = (\<lambda>_. 0)\<rparr> =
     Some (7, \<lparr>world = w, locks = (\<lambda>_. 0)\<rparr>)"
  using getFileSizeRecursive_sums [OF treeOS_ok, where p = "''/c''" and s = "\<lparr>world = (sampleTree, []), locks = (\<lambda>_. 0)\<rparr>"
      and es = "[(''a'', file_of 3), (''d'', FDir [(''b'', file_of 4)])]"]
  by (auto simp: sampleTree_def file_of_def isDot_def S_ISDIR_def zero_stat_def)

section \<open>What the helpers leave alone\<close>

text \<open>Whatever a helper returns, only the world has changed: \<open>worldOnly m s\<close> says so of an execution \<open>m\<close>,
  relative to a start \<open>s\<close>. The loops are covered by fixed-point induction, so nothing is assumed of
  the operating system.\<close>

named_theorems world_only "executions that change the world alone"

definition sameButWorld :: "('w, 'z) base_scheme \<Rightarrow> ('w, 'z) base_scheme \<Rightarrow> bool" where
  "sameButWorld s s' \<longleftrightarrow> (\<exists>w. s' = s\<lparr>world := w\<rparr>)"

definition worldOnly :: "('a \<times> ('w, 'z) base_scheme) option \<Rightarrow> ('w, 'z) base_scheme \<Rightarrow> bool" where
  "worldOnly m s \<longleftrightarrow> (\<forall>r s'. m = Some (r, s') \<longrightarrow> sameButWorld s s')"

lemma sameButWorld_refl [simp]: "sameButWorld s s"
  by (auto simp: sameButWorld_def intro!: exI [of _ "world s"])

lemma sameButWorld_upd [simp]: "sameButWorld s (s\<lparr>world := w\<rparr>)"
  by (auto simp: sameButWorld_def)

lemma worldOnly_dest: "m = Some (r, s') \<Longrightarrow> worldOnly m s \<Longrightarrow> sameButWorld s s'"
  by (auto simp: worldOnly_def)

lemma worldOnly_from: "(\<And>r s'. m = Some (r, s') \<Longrightarrow> sameButWorld s s') \<Longrightarrow> sameButWorld s0 s \<Longrightarrow> worldOnly m s0"
  by (auto simp: worldOnly_def sameButWorld_def)

lemma worldOnly_Some [world_only]: "sameButWorld s s' \<Longrightarrow> worldOnly (Some (r, s')) s"
  by (simp add: worldOnly_def)

lemma worldOnly_bind [world_only]:
  "worldOnly m s \<Longrightarrow> (\<And>r s'. sameButWorld s s' \<Longrightarrow> worldOnly (g (r, s')) s) \<Longrightarrow> worldOnly (m \<bind> g) s"
  by (auto simp: worldOnly_def bind_eq_Some_conv)

lemma worldOnly_prod [world_only]: "(\<And>a b. x = (a, b) \<Longrightarrow> worldOnly (f a b) s) \<Longrightarrow> worldOnly (case x of (a, b) \<Rightarrow> f a b) s"
  by (cases x) simp

lemma worldOnly_if [world_only]: "(b \<Longrightarrow> worldOnly m s) \<Longrightarrow> (\<not> b \<Longrightarrow> worldOnly n s) \<Longrightarrow> worldOnly (if b then m else n) s"
  by simp

lemma worldOnly_option [world_only]:
  "(v = None \<Longrightarrow> worldOnly m s) \<Longrightarrow> (\<And>y. v = Some y \<Longrightarrow> worldOnly (f y) s) \<Longrightarrow>
     worldOnly (case v of None \<Rightarrow> m | Some y \<Rightarrow> f y) s"
  by (cases v) auto

lemma worldOnly_let [world_only]: "worldOnly (f v) s \<Longrightarrow> worldOnly (Let v f) s"
  by simp

lemma sys_world [world_only]: "sameButWorld s0 s \<Longrightarrow> worldOnly (sys f s) s0"
  by (auto simp: sys_def sameButWorld_def worldOnly_def split: prod.splits)

lemma withDir_world [world_only]:
  assumes "sameButWorld s0 s" "\<And>h s. sameButWorld s0 s \<Longrightarrow> worldOnly (body h s) s0"
  shows "worldOnly (withDir OS p d body s) s0"
  unfolding withDir_def by (auto intro!: world_only assms split: prod.splits)

lemma isDirectory_world [world_only]: "sameButWorld s0 s \<Longrightarrow> worldOnly (isDirectory OS p s) s0"
  unfolding isDirectory_def by (auto intro!: world_only split: prod.splits)

lemma removeSelf_world [world_only]: "sameButWorld s0 s \<Longrightarrow> worldOnly (removeSelf OS p f s) s0"
  unfolding removeSelf_def by (auto intro!: world_only split: prod.splits)

lemma makeDirs_world [world_only]:
  assumes "sameButWorld s0 s"
  shows "worldOnly (makeDirs OS p s) s0"
proof (rule worldOnly_from [OF _ assms])
  fix r s' assume "makeDirs OS p s = Some (r, s')"
  then have "sameButWorld s (snd (r, s'))"
  proof (rule makeDirs.raw_induct [where P = "\<lambda>_ _ s y. sameButWorld s (snd y)", rotated], goal_cases)
    case (1 f OS p s y)
    have sub: "sameButWorld s0 s \<Longrightarrow> worldOnly (f OS p s) s0" for p s s0
      by (rule worldOnly_from) (use 1(1) in fastforce)
    have "worldOnly (Some y) s"
      unfolding 1(2) [symmetric] by (auto intro!: world_only sub split: prod.splits)
    then show ?case by (cases y) (simp add: worldOnly_def)
  qed
  then show "sameButWorld s s'" by simp
qed

lemma isEmptyDir_loop_world [world_only]:
  assumes "sameButWorld s0 s"
  shows "worldOnly (isEmptyDir_loop OS dir n s) s0"
proof (rule worldOnly_from [OF _ assms])
  fix r s' assume "isEmptyDir_loop OS dir n s = Some (r, s')"
  then have "sameButWorld s (snd (r, s'))"
  proof (rule isEmptyDir_loop.raw_induct [where P = "\<lambda>_ _ _ s y. sameButWorld s (snd y)", rotated], goal_cases)
    case (1 f OS dir n s y)
    have sub: "sameButWorld s0 s \<Longrightarrow> worldOnly (f OS dir n s) s0" for n s s0
      by (rule worldOnly_from) (use 1(1) in fastforce)
    have "worldOnly (Some y) s"
      unfolding 1(2) [symmetric] by (auto intro!: world_only sub split: prod.splits)
    then show ?case by (cases y) (simp add: worldOnly_def)
  qed
  then show "sameButWorld s s'" by simp
qed

lemma removeDir_loop_world [world_only]:
  assumes "sameButWorld s0 s"
  shows "worldOnly (removeDir_loop OS p dir st s) s0"
proof (rule worldOnly_from [OF _ assms])
  fix r s' assume "removeDir_loop OS p dir st s = Some (r, s')"
  then have "sameButWorld s (snd (r, s'))"
  proof (rule removeDir_loop.raw_induct [where P = "\<lambda>_ _ _ _ s y. sameButWorld s (snd y)", rotated], goal_cases)
    case (1 f OS p dir st s y)
    have sub: "sameButWorld s0 s \<Longrightarrow> worldOnly (f OS p dir st s) s0" for p dir st s s0
      by (rule worldOnly_from) (use 1(1) in fastforce)
    have "worldOnly (Some y) s"
      unfolding 1(2) [symmetric] by (auto intro!: world_only sub split: prod.splits)
    then show ?case by (cases y) (simp add: worldOnly_def)
  qed
  then show "sameButWorld s s'" by simp
qed

lemma removeDirRecursive_world [world_only]: "sameButWorld s0 s \<Longrightarrow> worldOnly (removeDirRecursive OS p s) s0"
  unfolding removeDirRecursive_def by (auto intro!: world_only split: prod.splits)

lemma emptyDir_loop_world [world_only]:
  assumes "sameButWorld s0 s"
  shows "worldOnly (emptyDir_loop OS p dir st s) s0"
proof (rule worldOnly_from [OF _ assms])
  fix r s' assume "emptyDir_loop OS p dir st s = Some (r, s')"
  then have "sameButWorld s (snd (r, s'))"
  proof (rule emptyDir_loop.raw_induct [where P = "\<lambda>_ _ _ _ s y. sameButWorld s (snd y)", rotated], goal_cases)
    case (1 f OS p dir st s y)
    have sub: "sameButWorld s0 s \<Longrightarrow> worldOnly (f OS p dir st s) s0" for st s s0
      by (rule worldOnly_from) (use 1(1) in fastforce)
    have "worldOnly (Some y) s"
      unfolding 1(2) [symmetric] by (auto intro!: world_only sub split: prod.splits)
    then show ?case by (cases y) (simp add: worldOnly_def)
  qed
  then show "sameButWorld s s'" by simp
qed

lemma walkDir_loop_world [world_only]:
  assumes "sameButWorld s0 s"
  shows "worldOnly (walkDir_loop OS W p dir acc s) s0"
proof (rule worldOnly_from [OF _ assms])
  fix r s' assume "walkDir_loop OS W p dir acc s = Some (r, s')"
  then have "sameButWorld s (snd (r, s'))"
  proof (rule walkDir_loop.raw_induct [where P = "\<lambda>_ _ _ _ _ s y. sameButWorld s (snd y)", rotated], goal_cases)
    case (1 f OS W p dir acc s y)
    have sub: "sameButWorld s0 s \<Longrightarrow> worldOnly (f OS W p dir acc s) s0" for p dir acc s s0
      by (rule worldOnly_from) (use 1(1) in fastforce)
    have "worldOnly (Some y) s"
      unfolding 1(2) [symmetric] by (auto intro!: world_only sub split: prod.splits)
    then show ?case by (cases y) (simp add: worldOnly_def)
  qed
  then show "sameButWorld s s'" by simp
qed

lemma fs_helpers_world [world_only]:
  assumes "sameButWorld s0 s"
  shows "worldOnly (isEmptyDir OS p s) s0" "worldOnly (emptyDir OS p s) s0" "worldOnly (walkDir OS W p s) s0"
    "worldOnly (getEmptySpace OS p s) s0" "worldOnly (makeParentDirs OS p s) s0"
    "worldOnly (currentSeconds OS s) s0" "worldOnly (parseLocalPath OS rp s) s0"
  unfolding isEmptyDir_def emptyDir_def walkDir_def getEmptySpace_def makeParentDirs_def
    currentSeconds_def parseLocalPath_def getFileType_def by (auto intro!: world_only assms split: prod.splits)

lemma getFileSizeRecursive_world [world_only]: "sameButWorld s0 s \<Longrightarrow> worldOnly (getFileSizeRecursive OS p s) s0"
  unfolding getFileSizeRecursive_def by (auto intro!: world_only split: prod.splits)

end
