(* ===== verification/Fl_Hashtable.thy ===== *)
theory Fl_Hashtable
  imports Fuse_Prelude
begin

text \<open>
  The string-keyed hash table of \<open>iFuseLib.Hashtable.c\<close>, in which the preload and the lazy-upload
  components keep their per-file records. A bucket chain (\<open>struct fl_bucket\<close> linked by \<open>next\<close>) is a
  list of key/value pairs in chain order; a pointer to a bucket is the suffix of the chain that
  starts there. A key may occur several times: the table is a multimap with values in insertion
  order, which the locale \<open>fl_multimap\<close> states as the contract of its operations.
\<close>

unbundle bit_operations_syntax

type_synonym 'v fl_bucket = "(string \<times> 'v) list"

record 'v fl_Hashtable =
  buckets :: "'v fl_bucket list"
  hsize :: nat
  hlen :: int
  dynamic :: bool

abbreviation (input) FL_HASH_BASE :: "64 word" where "FL_HASH_BASE \<equiv> 5381"

section \<open>Operations\<close>

text \<open>The Bernstein hash over unsigned 64-bit words.\<close>

fun fl_B_hash_loop :: "64 word \<Rightarrow> string \<Rightarrow> 64 word" where
  "fl_B_hash_loop hash [] = hash"
| "fl_B_hash_loop hash (c # str) = fl_B_hash_loop ((push_bit 5 hash + hash) + of_char c) str"

definition fl_B_hash :: "string \<Rightarrow> 64 word" where
  "fl_B_hash str = fl_B_hash_loop FL_HASH_BASE str"

definition fl_newBucket :: "bool \<Rightarrow> string \<Rightarrow> 'v \<Rightarrow> 'v fl_bucket option" where
  "fl_newBucket mem key value = (if \<not> mem then None else Some [(key, value)])"

definition fl_newHashTable :: "bool \<Rightarrow> nat \<Rightarrow> 'v fl_Hashtable option" where
  "fl_newHashTable mem sz =
     (if \<not> mem then None
      else Some \<lparr>buckets = replicate sz [], hsize = sz, hlen = 0, dynamic = False\<rparr>)"

text \<open>The slot of a key, and the chain in it (an index outside the bucket array does not return).\<close>

definition fl_index :: "'v fl_Hashtable \<Rightarrow> string \<Rightarrow> nat" where
  "fl_index h key = unat (fl_B_hash key mod of_nat (hsize h))"

definition fl_chain :: "'v fl_Hashtable \<Rightarrow> nat \<Rightarrow> 'v fl_bucket option" where
  "fl_chain h index = (if index < length (buckets h) then Some (buckets h ! index) else None)"

text \<open>The non-dynamic branch of the insertion, which is also the tail of the dynamic one: append a
  new bucket at the end of the chain. The result 0 says out of memory.\<close>

definition fl_appendBucket :: "bool \<Rightarrow> 'v fl_Hashtable \<Rightarrow> string \<Rightarrow> 'v \<Rightarrow> (int \<times> 'v fl_Hashtable) option" where
  "fl_appendBucket mem h key value =
     (case fl_newBucket mem key value of
        None \<Rightarrow> Some (0, h)
      | Some b \<Rightarrow> do {
          chain \<leftarrow> fl_chain h (fl_index h key);
          Some (1, h\<lparr>buckets := (buckets h)[fl_index h key := chain @ b], hlen := hlen h + 1\<rparr>)
        })"

text \<open>The loop that re-inserts every bucket into the table of twice the size. The new table is not
  dynamic, so each recursive call of the C function takes its non-dynamic branch.\<close>

fun fl_rehash :: "bool \<Rightarrow> 'v fl_Hashtable \<Rightarrow> (string \<times> 'v) list \<Rightarrow> 'v fl_Hashtable option" where
  "fl_rehash mem h2 [] = Some h2"
| "fl_rehash mem h2 ((k, v) # bs) = do {
     (_, h2) \<leftarrow> fl_appendBucket mem h2 k v;
     fl_rehash mem h2 bs
   }"

definition fl_insertIntoHashTable :: "bool \<Rightarrow> 'v fl_Hashtable \<Rightarrow> string \<Rightarrow> 'v \<Rightarrow> (int \<times> 'v fl_Hashtable) option" where
  "fl_insertIntoHashTable mem h key value =
     (if dynamic h then do {
        h \<leftarrow> (if hlen h \<ge> int (hsize h)
              then do {
                h2 \<leftarrow> fl_newHashTable mem (hsize h * 2);
                fl_rehash mem h2 (concat (buckets h))
              }
              else Some h);
        fl_appendBucket mem h key value
      }
      else fl_appendBucket mem h key value)"

text \<open>Walking a chain to the first bucket of a key.\<close>

fun fl_findBucket :: "string \<Rightarrow> 'v fl_bucket \<Rightarrow> 'v fl_bucket" where
  "fl_findBucket key [] = []"
| "fl_findBucket key ((k, v) # b) = (if k = key then (k, v) # b else fl_findBucket key b)"

definition fl_lookupBucketFromHashTable :: "'v fl_Hashtable \<Rightarrow> string \<Rightarrow> 'v fl_bucket option" where
  "fl_lookupBucketFromHashTable h key = do {
     chain \<leftarrow> fl_chain h (fl_index h key);
     Some (fl_findBucket key chain)
   }"

definition fl_nextBucket :: "'v fl_bucket \<Rightarrow> string \<Rightarrow> 'v fl_bucket" where
  "fl_nextBucket b0 key = fl_findBucket key (tl b0)"

text \<open>The value of the first bucket; \<open>None\<close> inside is the null pointer of a key that is not there.\<close>

definition fl_lookupFromHashTable :: "'v fl_Hashtable \<Rightarrow> string \<Rightarrow> 'v option option" where
  "fl_lookupFromHashTable h key = do {
     chain \<leftarrow> fl_chain h (fl_index h key);
     Some (case fl_findBucket key chain of [] \<Rightarrow> None | (_, v) # _ \<Rightarrow> Some v)
   }"

fun fl_updateChain :: "string \<Rightarrow> 'v \<Rightarrow> 'v fl_bucket \<Rightarrow> 'v option \<times> 'v fl_bucket" where
  "fl_updateChain key value [] = (None, [])"
| "fl_updateChain key value ((k, v) # b) =
     (if k = key then (Some v, (k, value) # b)
      else (case fl_updateChain key value b of (tmp, b') \<Rightarrow> (tmp, (k, v) # b')))"

definition fl_updateInHashTable :: "'v fl_Hashtable \<Rightarrow> string \<Rightarrow> 'v \<Rightarrow> ('v option \<times> 'v fl_Hashtable) option" where
  "fl_updateInHashTable h key value = do {
     chain \<leftarrow> fl_chain h (fl_index h key);
     case fl_updateChain key value chain of
       (tmp, chain') \<Rightarrow> Some (tmp, h\<lparr>buckets := (buckets h)[fl_index h key := chain']\<rparr>)
   }"

fun fl_deleteChain :: "string \<Rightarrow> 'v fl_bucket \<Rightarrow> 'v option \<times> 'v fl_bucket" where
  "fl_deleteChain key [] = (None, [])"
| "fl_deleteChain key ((k, v) # b) =
     (if k = key then (Some v, b)
      else (case fl_deleteChain key b of (tmp, b') \<Rightarrow> (tmp, (k, v) # b')))"

definition fl_deleteFromHashTable :: "'v fl_Hashtable \<Rightarrow> string \<Rightarrow> ('v option \<times> 'v fl_Hashtable) option" where
  "fl_deleteFromHashTable h key = do {
     chain \<leftarrow> fl_chain h (fl_index h key);
     case fl_deleteChain key chain of
       (tmp, chain') \<Rightarrow>
         Some (tmp, h\<lparr>buckets := (buckets h)[fl_index h key := chain'],
                      hlen := (if tmp = None then hlen h else hlen h - 1)\<rparr>)
   }"

text \<open>Deleting a chain calls the destructor on the values from the last bucket to the first; the
  result is the order of the calls.\<close>

fun fl_deleteBucket :: "'v fl_bucket \<Rightarrow> 'v list" where
  "fl_deleteBucket [] = []"
| "fl_deleteBucket ((k, v) # b) = fl_deleteBucket b @ [v]"

definition fl_deleteHashTable :: "'v fl_Hashtable \<Rightarrow> 'v list" where
  "fl_deleteHashTable h = (if dynamic h then [] else concat (map fl_deleteBucket (buckets h)))"

section \<open>Abstraction and invariant\<close>

text \<open>The values stored under a key, in the order of their insertion.\<close>

definition chain_vals :: "'v fl_bucket \<Rightarrow> string \<Rightarrow> 'v list" where
  "chain_vals b key = map snd (filter (\<lambda>(k, v). k = key) b)"

definition fl_vals :: "'v fl_Hashtable \<Rightarrow> string \<Rightarrow> 'v list" where
  "fl_vals h key = chain_vals (buckets h ! fl_index h key) key"

definition fl_inv :: "'v fl_Hashtable \<Rightarrow> bool" where
  "fl_inv h \<longleftrightarrow>
     0 < hsize h \<and> hsize h < 2 ^ 64 \<and> length (buckets h) = hsize h \<and>
     (\<forall>i < hsize h. \<forall>(k, v) \<in> set (buckets h ! i). fl_index h k = i) \<and>
     hlen h = int (length (concat (buckets h)))"

lemma chain_vals_Nil [simp]: "chain_vals [] key = []"
  by (simp add: chain_vals_def)

lemma chain_vals_Cons [simp]:
  "chain_vals ((k, v) # b) key = (if k = key then v # chain_vals b key else chain_vals b key)"
  by (simp add: chain_vals_def)

lemma chain_vals_append [simp]: "chain_vals (a @ b) key = chain_vals a key @ chain_vals b key"
  by (simp add: chain_vals_def)

lemma fl_index_upd [simp]:
  "fl_index (h\<lparr>buckets := b\<rparr>) key = fl_index h key"
  "fl_index (h\<lparr>hlen := n\<rparr>) key = fl_index h key"
  by (simp_all add: fl_index_def)

lemma fl_index_bound:
  assumes "0 < hsize h" and "hsize h < 2 ^ 64"
  shows "fl_index h key < hsize h"
proof -
  have "unat (of_nat (hsize h) :: 64 word) = hsize h"
    using assms(2) by (simp add: unat_of_nat take_bit_nat_eq_self)
  then show ?thesis
    using assms(1) by (simp add: fl_index_def unat_mod)
qed

lemma fl_inv_index: "fl_inv h \<Longrightarrow> fl_index h key < length (buckets h)"
  by (simp add: fl_inv_def fl_index_bound)

lemma fl_inv_chain: "fl_inv h \<Longrightarrow> fl_chain h (fl_index h key) = Some (buckets h ! fl_index h key)"
  by (simp add: fl_chain_def fl_inv_index)

text \<open>Replacing one chain by a chain with keys of the same slot keeps the invariant.\<close>

lemma length_concat_update:
  "i < length xs \<Longrightarrow>
     int (length (concat (xs[i := c]))) =
     int (length (concat xs)) - int (length (xs ! i)) + int (length c)"
proof (induction xs arbitrary: i)
  case Nil
  then show ?case by simp
next
  case (Cons x xs)
  then show ?case by (cases i) auto
qed

lemma fl_inv_set_chain:
  assumes "fl_inv h" and "i = fl_index h key"
    and "\<forall>(k, v) \<in> set c. k = key \<or> k \<in> fst ` set (buckets h ! i)"
    and "n = hlen h - int (length (buckets h ! i)) + int (length c)"
  shows "fl_inv (h\<lparr>buckets := (buckets h)[i := c], hlen := n\<rparr>)"
proof -
  have i: "i < length (buckets h)"
    using assms(1,2) by (simp add: fl_inv_index)
  have old: "\<forall>j < hsize h. \<forall>(k, v) \<in> set (buckets h ! j). fl_index h k = j"
    and len: "length (buckets h) = hsize h" "hlen h = int (length (concat (buckets h)))"
    and sz: "0 < hsize h" "hsize h < 2 ^ 64"
    using assms(1) by (simp_all add: fl_inv_def)
  have "fl_index h k = i" if "(k, v) \<in> set c" for k v
    using that assms(2,3) old i len by fastforce
  then have "\<forall>j < hsize h. \<forall>(k, v) \<in> set ((buckets h)[i := c] ! j). fl_index h k = j"
    using old i len by (auto simp: nth_list_update)
  then show ?thesis
    using sz len i assms(4) by (simp add: fl_inv_def length_concat_update del: length_concat)
qed

lemma fl_vals_set_chain:
  assumes "fl_inv h"
  shows "fl_vals (h\<lparr>buckets := (buckets h)[fl_index h key := c], hlen := n\<rparr>) k =
     (if fl_index h k = fl_index h key then chain_vals c k else fl_vals h k)"
    and "fl_vals (h\<lparr>buckets := (buckets h)[fl_index h key := c]\<rparr>) k =
     (if fl_index h k = fl_index h key then chain_vals c k else fl_vals h k)"
  using fl_inv_index [OF assms] by (auto simp: fl_vals_def nth_list_update)

lemma fl_findBucket_vals:
  "(case fl_findBucket key b of [] \<Rightarrow> None | (_, v) # _ \<Rightarrow> Some v) =
     (case chain_vals b key of [] \<Rightarrow> None | v # _ \<Rightarrow> Some v)"
  by (induction key b rule: fl_findBucket.induct) auto

lemma fl_deleteChain_vals:
  assumes "fl_deleteChain key b = (tmp, b')"
  shows "tmp = (case chain_vals b key of [] \<Rightarrow> None | v # _ \<Rightarrow> Some v)"
    and "chain_vals b' k = (if k = key then tl (chain_vals b key) else chain_vals b k)"
    and "length b = length b' + (if tmp = None then 0 else 1)"
    and "set b' \<subseteq> set b"
  using assms
  by (induction key b arbitrary: tmp b' rule: fl_deleteChain.induct)
    (auto split: prod.splits if_splits)

lemma fl_updateChain_vals:
  assumes "fl_updateChain key u b = (tmp, b')"
  shows "tmp = (case chain_vals b key of [] \<Rightarrow> None | v # _ \<Rightarrow> Some v)"
    and "chain_vals b' k = (if k = key then (case chain_vals b key of [] \<Rightarrow> [] | _ # vs \<Rightarrow> u # vs)
                            else chain_vals b k)"
    and "length b' = length b"
    and "fst ` set b' = fst ` set b"
  using assms
  by (induction key u b arbitrary: tmp b' rule: fl_updateChain.induct)
    (auto split: prod.splits if_splits list.splits)

section \<open>The operations against the abstraction\<close>

lemma fl_new_inv:
  assumes "0 < n" and "n < 2 ^ 64"
  shows "wpo (fl_newHashTable True n) (\<lambda>h. fl_inv h \<and> \<not> dynamic h \<and> hsize h = n \<and> fl_vals h = (\<lambda>_. []))"
proof -
  define h :: "'a fl_Hashtable" where
    "h = \<lparr>buckets = replicate n [], hsize = n, hlen = 0, dynamic = False\<rparr>"
  have inv: "fl_inv h"
    using assms by (simp add: h_def fl_inv_def del: length_concat)
  then have "fl_index h k < n" for k
    using fl_inv_index [of h k] by (simp add: h_def)
  then have "fl_vals h k = []" for k
    by (simp add: fl_vals_def h_def)
  with inv show ?thesis by (auto simp: fl_newHashTable_def h_def)
qed

lemma fl_appendBucket_spec:
  assumes inv: "fl_inv h"
  shows "wpo (fl_appendBucket True h key u)
     (\<lambda>(r, h'). r = 1 \<and> fl_inv h' \<and> hsize h' = hsize h \<and> dynamic h' = dynamic h \<and>
                fl_vals h' = (fl_vals h)(key := fl_vals h key @ [u]))"
proof -
  let ?i = "fl_index h key"
  let ?h = "h\<lparr>buckets := (buckets h)[?i := buckets h ! ?i @ [(key, u)]], hlen := hlen h + 1\<rparr>"
  have "fl_inv ?h"
    by (rule fl_inv_set_chain [OF inv refl]) (auto simp: image_iff, force?)
  moreover have "fl_vals ?h = (fl_vals h)(key := fl_vals h key @ [u])"
    by (rule ext) (auto simp: fl_vals_set_chain [OF inv], auto simp: fl_vals_def)
  ultimately show ?thesis
    by (simp add: fl_appendBucket_def fl_newBucket_def fl_inv_chain [OF inv])
qed

lemma fl_rehash_spec:
  "fl_inv h2 \<Longrightarrow>
   wpo (fl_rehash True h2 bs)
     (\<lambda>h'. fl_inv h' \<and> hsize h' = hsize h2 \<and> dynamic h' = dynamic h2 \<and>
           (\<forall>k. fl_vals h' k = fl_vals h2 k @ chain_vals bs k))"
proof (induction bs arbitrary: h2)
  case Nil
  then show ?case by simp
next
  case (Cons b bs)
  obtain k v where b: "b = (k, v)" by (cases b)
  show ?case
    unfolding b fl_rehash.simps wpo_bind
  proof (rule wpo_mono [OF fl_appendBucket_spec [OF Cons.prems, of k v]])
    fix x
    assume x: "case x of (r, h') \<Rightarrow> r = 1 \<and> fl_inv h' \<and> hsize h' = hsize h2 \<and>
      dynamic h' = dynamic h2 \<and> fl_vals h' = (fl_vals h2)(k := fl_vals h2 k @ [v])"
    obtain r h' where "x = (r, h')" by (cases x)
    with x show "wpo (case x of (_, h') \<Rightarrow> fl_rehash True h' bs)
      (\<lambda>h'. fl_inv h' \<and> hsize h' = hsize h2 \<and> dynamic h' = dynamic h2 \<and>
        (\<forall>ka. fl_vals h' ka = fl_vals h2 ka @ chain_vals ((k, v) # bs) ka))"
      by (auto intro!: wpo_mono [OF Cons.IH])
  qed
qed

text \<open>All entries of a key sit in the key's slot, so the whole table lists a key's values in order.\<close>

lemma chain_vals_concat_other:
  "(\<And>b. b \<in> set bs \<Longrightarrow> chain_vals b k = []) \<Longrightarrow> chain_vals (concat bs) k = []"
  by (induction bs) auto

lemma chain_vals_concat:
  assumes "fl_inv h"
  shows "chain_vals (concat (buckets h)) k = fl_vals h k"
proof -
  let ?i = "fl_index h k"
  have i: "?i < length (buckets h)" by (rule fl_inv_index [OF assms])
  have other: "chain_vals (buckets h ! j) k = []" if "j < length (buckets h)" "j \<noteq> ?i" for j
    using assms that by (fastforce simp: fl_inv_def chain_vals_def filter_empty_conv)
  have "concat (buckets h) =
      concat (take ?i (buckets h)) @ buckets h ! ?i @ concat (drop (Suc ?i) (buckets h))"
    using arg_cong [OF id_take_nth_drop [OF i], of concat] by simp
  moreover have "chain_vals (concat (take ?i (buckets h))) k = []"
    by (rule chain_vals_concat_other) (use i other in \<open>auto simp: in_set_conv_nth\<close>)
  moreover have "chain_vals (concat (drop (Suc ?i) (buckets h))) k = []"
    by (rule chain_vals_concat_other) (use i other in \<open>auto simp: in_set_conv_nth\<close>)
  ultimately show ?thesis by (simp add: fl_vals_def)
qed

lemma fl_insert_spec:
  assumes inv: "fl_inv h" and room: "dynamic h \<Longrightarrow> hsize h * 2 < 2 ^ 64"
  shows "wpo (fl_insertIntoHashTable True h key u)
     (\<lambda>(r, h'). r = 1 \<and> fl_inv h' \<and> (\<not> dynamic h \<longrightarrow> \<not> dynamic h') \<and>
                fl_vals h' = (fl_vals h)(key := fl_vals h key @ [u]))"
proof (cases "dynamic h \<and> hlen h \<ge> int (hsize h)")
  case True
  with inv room have sz: "0 < hsize h * 2" "hsize h * 2 < 2 ^ 64"
    by (simp_all add: fl_inv_def)
  have grow: "wpo (fl_newHashTable True (hsize h * 2))
      (\<lambda>h2. wpo (fl_rehash True h2 (concat (buckets h)))
         (\<lambda>h'. fl_inv h' \<and> fl_vals h' = fl_vals h))"
  proof (rule wpo_mono [OF fl_new_inv [OF sz]])
    fix h2 :: "'a fl_Hashtable"
    assume h2: "fl_inv h2 \<and> \<not> dynamic h2 \<and> hsize h2 = hsize h * 2 \<and> fl_vals h2 = (\<lambda>_. [])"
    then have "fl_inv h2" by simp
    from fl_rehash_spec [OF this, of "concat (buckets h)"] h2
    show "wpo (fl_rehash True h2 (concat (buckets h))) (\<lambda>h'. fl_inv h' \<and> fl_vals h' = fl_vals h)"
      by (auto elim!: wpo_mono simp: chain_vals_concat [OF inv] fun_eq_iff)
  qed
  show ?thesis
    using True by (auto simp: fl_insertIntoHashTable_def
        intro!: wpo_mono [OF grow] elim!: wpo_mono intro: wpo_mono [OF fl_appendBucket_spec])
next
  case False
  then show ?thesis
    using fl_appendBucket_spec [OF inv, of key u]
    by (auto simp: fl_insertIntoHashTable_def elim!: wpo_mono)
qed

lemma fl_lookup_spec:
  "fl_inv h \<Longrightarrow> fl_lookupFromHashTable h key =
     Some (case fl_vals h key of [] \<Rightarrow> None | v # _ \<Rightarrow> Some v)"
  by (simp add: fl_lookupFromHashTable_def fl_inv_chain fl_findBucket_vals fl_vals_def)

lemma fl_delete_spec:
  assumes inv: "fl_inv h"
  shows "wpo (fl_deleteFromHashTable h key)
     (\<lambda>(r, h'). r = (case fl_vals h key of [] \<Rightarrow> None | v # _ \<Rightarrow> Some v) \<and> fl_inv h' \<and>
                dynamic h' = dynamic h \<and> fl_vals h' = (fl_vals h)(key := tl (fl_vals h key)))"
proof -
  let ?i = "fl_index h key"
  obtain tmp c where c: "fl_deleteChain key (buckets h ! ?i) = (tmp, c)"
    by (cases "fl_deleteChain key (buckets h ! ?i)")
  note dc = fl_deleteChain_vals [OF c]
  let ?h = "h\<lparr>buckets := (buckets h)[?i := c], hlen := (if tmp = None then hlen h else hlen h - 1)\<rparr>"
  have "fl_inv ?h"
    by (rule fl_inv_set_chain [OF inv refl]) (use dc(3,4) in \<open>force+\<close>)
  moreover have "fl_vals ?h = (fl_vals h)(key := tl (fl_vals h key))"
    by (rule ext) (auto simp: fl_vals_set_chain [OF inv] dc(2), auto simp: fl_vals_def)
  ultimately show ?thesis
    using dc(1) by (simp add: fl_deleteFromHashTable_def fl_inv_chain [OF inv] c fl_vals_def)
qed

lemma fl_update_spec:
  assumes inv: "fl_inv h"
  shows "wpo (fl_updateInHashTable h key u)
     (\<lambda>(r, h'). r = (case fl_vals h key of [] \<Rightarrow> None | v # _ \<Rightarrow> Some v) \<and> fl_inv h' \<and>
        fl_vals h' = (fl_vals h)(key := (case fl_vals h key of [] \<Rightarrow> [] | _ # vs \<Rightarrow> u # vs)))"
proof -
  let ?i = "fl_index h key"
  obtain tmp c where c: "fl_updateChain key u (buckets h ! ?i) = (tmp, c)"
    by (cases "fl_updateChain key u (buckets h ! ?i)")
  note uc = fl_updateChain_vals [OF c]
  let ?h = "h\<lparr>buckets := (buckets h)[?i := c], hlen := hlen h\<rparr>"
  have "fl_inv ?h"
    by (rule fl_inv_set_chain [OF inv refl]) (use uc(3,4) in \<open>force+\<close>)
  moreover have "fl_vals ?h = (fl_vals h)(key := (case fl_vals h key of [] \<Rightarrow> [] | _ # vs \<Rightarrow> u # vs))"
    by (rule ext) (auto simp: fl_vals_set_chain [OF inv] uc(2), auto simp: fl_vals_def)
  ultimately show ?thesis
    using uc(1) by (simp add: fl_updateInHashTable_def fl_inv_chain [OF inv] c fl_vals_def)
qed

section \<open>The contract of the table\<close>

text \<open>What the clients of the table rely on: it is a multimap. The client lemmas are proved from the
  contract alone.\<close>

locale fl_multimap =
  fixes tinsert :: "'h \<Rightarrow> string \<Rightarrow> 'v \<Rightarrow> (int \<times> 'h) option"
    and tlookup :: "'h \<Rightarrow> string \<Rightarrow> 'v option option"
    and tdelete :: "'h \<Rightarrow> string \<Rightarrow> ('v option \<times> 'h) option"
    and tvals :: "'h \<Rightarrow> string \<Rightarrow> 'v list"
    and tinv :: "'h \<Rightarrow> bool"
  assumes insert_law: "tinv h \<Longrightarrow> wpo (tinsert h k v)
      (\<lambda>(r, h'). r = 1 \<and> tinv h' \<and> tvals h' = (tvals h)(k := tvals h k @ [v]))"
    and lookup_law: "tinv h \<Longrightarrow> tlookup h k = Some (case tvals h k of [] \<Rightarrow> None | v # _ \<Rightarrow> Some v)"
    and delete_law: "tinv h \<Longrightarrow> wpo (tdelete h k)
      (\<lambda>(r, h'). r = (case tvals h k of [] \<Rightarrow> None | v # _ \<Rightarrow> Some v) \<and> tinv h' \<and>
                 tvals h' = (tvals h)(k := tl (tvals h k)))"
begin

lemma insert_lookup:
  assumes "tinv h" and "tlookup h k = Some None"
  shows "wpo (tinsert h k v) (\<lambda>(r, h'). tinv h' \<and> tlookup h' k = Some (Some v) \<and>
           (\<forall>k'. k' \<noteq> k \<longrightarrow> tlookup h' k' = tlookup h k'))"
proof -
  from assms have "tvals h k = []"
    by (auto simp: lookup_law split: list.splits)
  with assms(1) show ?thesis
    by (auto intro!: wpo_mono [OF insert_law] simp: lookup_law)
qed

lemma insert_delete:
  assumes "tinv h" and "tlookup h k = Some None"
  shows "wpo (tinsert h k v \<bind> (\<lambda>(_, h1). tdelete h1 k))
           (\<lambda>(r, h'). r = Some v \<and> tinv h' \<and> tvals h' = tvals h)"
proof -
  from assms have "tvals h k = []"
    by (auto simp: lookup_law split: list.splits)
  with assms(1) show ?thesis
    by (auto intro!: wpo_mono [OF insert_law] wpo_mono [OF delete_law])
qed

text \<open>A key that is inserted only when it is absent has at most one value.\<close>

lemma insert_single:
  assumes "tinv h" and "\<forall>k. length (tvals h k) \<le> 1" and "tlookup h k = Some None"
  shows "wpo (tinsert h k v) (\<lambda>(r, h'). tinv h' \<and> (\<forall>k. length (tvals h' k) \<le> 1))"
proof -
  from assms have "tvals h k = []"
    by (auto simp: lookup_law split: list.splits)
  with assms(1,2) show ?thesis
    by (auto intro!: wpo_mono [OF insert_law])
qed

lemma delete_single:
  assumes "tinv h" and "\<forall>k. length (tvals h k) \<le> 1"
  shows "wpo (tdelete h k) (\<lambda>(r, h'). tinv h' \<and> tlookup h' k = Some None \<and>
           (\<forall>k. length (tvals h' k) \<le> 1) \<and> (\<forall>k'. k' \<noteq> k \<longrightarrow> tlookup h' k' = tlookup h k'))"
proof -
  have "tl (tvals h k) = []"
    using assms(2) by (cases "tvals h k") (auto dest: spec [of _ k])
  with assms show ?thesis
    by (auto intro!: wpo_mono [OF delete_law] simp: lookup_law)
qed

end

text \<open>The tables the program makes are not dynamic (\<open>fl_newHashTable\<close> clears the flag).\<close>

definition fl_table :: "'v fl_Hashtable \<Rightarrow> bool" where
  "fl_table h \<longleftrightarrow> fl_inv h \<and> \<not> dynamic h"

interpretation fl: fl_multimap "fl_insertIntoHashTable True" fl_lookupFromHashTable
  fl_deleteFromHashTable fl_vals fl_table
proof unfold_locales
  fix h :: "'a fl_Hashtable" and k v
  assume h: "fl_table h"
  show "wpo (fl_insertIntoHashTable True h k v)
      (\<lambda>(r, h'). r = 1 \<and> fl_table h' \<and> fl_vals h' = (fl_vals h)(k := fl_vals h k @ [v]))"
    using h by (auto simp: fl_table_def intro!: wpo_mono [OF fl_insert_spec])
  show "fl_lookupFromHashTable h k = Some (case fl_vals h k of [] \<Rightarrow> None | v # _ \<Rightarrow> Some v)"
    using h by (simp add: fl_table_def fl_lookup_spec)
  show "wpo (fl_deleteFromHashTable h k)
      (\<lambda>(r, h'). r = (case fl_vals h k of [] \<Rightarrow> None | v # _ \<Rightarrow> Some v) \<and> fl_table h' \<and>
                 fl_vals h' = (fl_vals h)(k := tl (fl_vals h k)))"
    using h by (auto simp: fl_table_def intro!: wpo_mono [OF fl_delete_spec])
qed

section \<open>Properties\<close>

text \<open>Sequences of operations, on the table and on the abstract multimap.\<close>

datatype 'v fl_op = Ins string 'v | Upd string 'v | Del string

fun fl_step :: "'v fl_op \<Rightarrow> 'v fl_Hashtable \<Rightarrow> 'v fl_Hashtable option" where
  "fl_step (Ins k v) h = map_option snd (fl_insertIntoHashTable True h k v)"
| "fl_step (Upd k v) h = map_option snd (fl_updateInHashTable h k v)"
| "fl_step (Del k) h = map_option snd (fl_deleteFromHashTable h k)"

fun fl_run :: "'v fl_op list \<Rightarrow> 'v fl_Hashtable \<Rightarrow> 'v fl_Hashtable option" where
  "fl_run [] h = Some h"
| "fl_run (x # xs) h = fl_step x h \<bind> fl_run xs"

fun spec_step :: "'v fl_op \<Rightarrow> (string \<Rightarrow> 'v list) \<Rightarrow> (string \<Rightarrow> 'v list)" where
  "spec_step (Ins k v) m = m(k := m k @ [v])"
| "spec_step (Upd k v) m = m(k := (case m k of [] \<Rightarrow> [] | _ # vs \<Rightarrow> v # vs))"
| "spec_step (Del k) m = m(k := tl (m k))"

lemma fl_step_refines:
  "fl_inv h \<Longrightarrow> \<not> dynamic h \<Longrightarrow>
     wpo (fl_step x h) (\<lambda>h'. fl_inv h' \<and> \<not> dynamic h' \<and> fl_vals h' = spec_step x (fl_vals h))"
proof (cases x)
  case (Upd k v)
  assume h: "fl_inv h" "\<not> dynamic h"
  have "wpo (fl_updateInHashTable h k v) (\<lambda>(r, h'). dynamic h' = dynamic h)"
    using h(1) by (auto simp: fl_updateInHashTable_def fl_inv_chain split: prod.splits)
  from wpo_conj [OF this fl_update_spec [OF h(1), of k v]] Upd h show ?thesis
    by (auto elim!: wpo_mono)
qed (auto intro!: wpo_mono [OF fl_insert_spec] wpo_mono [OF fl_delete_spec])

lemma fl_run_refines:
  "fl_inv h \<Longrightarrow> \<not> dynamic h \<Longrightarrow>
     wpo (fl_run xs h) (\<lambda>h'. fl_inv h' \<and> \<not> dynamic h' \<and> fl_vals h' = fold spec_step xs (fl_vals h))"
proof (induction xs arbitrary: h)
  case Nil
  then show ?case by simp
next
  case (Cons x xs)
  from Cons.prems show ?case
    by (auto intro!: wpo_mono [OF fl_step_refines] dest: Cons.IH)
qed

text \<open>C39. Whatever sequence of insertions, updates and deletions is run on a new hash table, the
  table keeps its representation invariant and every lookup returns the first value an abstract
  multimap holds for the key after the same operations (null for a key with no value).\<close>

theorem fl_hashtable_refines_multimap:
  assumes "0 < n" and "n < 2 ^ 64"
  shows "wpo (fl_newHashTable True n \<bind> fl_run xs)
     (\<lambda>h. fl_inv h \<and>
          (\<forall>k. fl_lookupFromHashTable h k =
             Some (case fold spec_step xs (\<lambda>_. []) k of [] \<Rightarrow> None | v # _ \<Rightarrow> Some v)))"
  unfolding wpo_bind
  by (rule wpo_mono [OF fl_new_inv [OF assms]])
    (auto intro!: wpo_mono [OF fl_run_refines] simp: fl_lookup_spec)

theorem fl_hashtable_refines_multimap_witness:
  "wpo (fl_newHashTable True 3 \<bind> fl_run [Ins ''a'' (1::nat), Ins ''b'' 2, Ins ''a'' 3, Del ''a''])
     (\<lambda>h. fl_inv h \<and> fl_lookupFromHashTable h ''a'' = Some (Some 3) \<and>
          fl_lookupFromHashTable h ''b'' = Some (Some 2) \<and>
          fl_lookupFromHashTable h ''c'' = Some None)"
  by (rule wpo_mono [OF fl_hashtable_refines_multimap]) auto

text \<open>Inserting keeps every stored value also when a dynamic table grows: the rehash into the
  table of twice the size loses and reorders nothing, and the new value comes last for its key.\<close>

lemma fl_insert_keeps_values:
  assumes "fl_inv h" and "dynamic h \<Longrightarrow> hsize h * 2 < 2 ^ 64"
  shows "wpo (fl_insertIntoHashTable True h key u)
     (\<lambda>(r, h'). r = 1 \<and> fl_inv h' \<and> fl_vals h' key = fl_vals h key @ [u] \<and>
                (\<forall>k. k \<noteq> key \<longrightarrow> fl_vals h' k = fl_vals h k))"
  by (rule wpo_mono [OF fl_insert_spec [OF assms]]) auto


end
