(* ===== verification/Fl_List.thy ===== *)
theory Fl_List
  imports Fuse_Prelude
begin

text \<open>
  The singly linked list of \<open>iFuseLib.List.c\<close>, pointer by pointer: nodes live in a heap of their own
  (\<open>lnodes\<close>), \<open>lhead\<close> and \<open>ltail\<close> are addresses, freeing a node removes it from the heap, and reading
  a freed node does not return. \<open>fl_list_rep l xs\<close> relates a list structure to the HOL list of its
  values; each operation is proved to implement the corresponding list operation, and the locale
  \<open>fl_sequence\<close> is the contract the preload and lazy-upload components use. The concurrent wrappers
  of the source only add the list's own mutex around one operation each.
\<close>

record 'v fl_ListNode =
  lnext :: "nat option"
  lvalue :: 'v

record 'v fl_List =
  lsize :: int
  lhead :: "nat option"
  ltail :: "nat option"
  lnodes :: "nat \<Rightarrow> 'v fl_ListNode option"
  lfresh :: nat

section \<open>Operations\<close>

definition fl_newList :: "'v fl_List" where
  "fl_newList = \<lparr>lsize = 0, lhead = None, ltail = None, lnodes = Map.empty, lfresh = 0\<rparr>"

definition fl_newListNode :: "'v fl_List \<Rightarrow> 'v \<Rightarrow> nat \<times> 'v fl_List" where
  "fl_newListNode l v =
     (lfresh l, l\<lparr>lnodes := (lnodes l)(lfresh l \<mapsto> \<lparr>lnext = None, lvalue = v\<rparr>), lfresh := Suc (lfresh l)\<rparr>)"

text \<open>The loop of \<open>fl_listRemove\<close>; it returns the value of \<open>prev\<close> after the loop.\<close>

partial_function (option) fl_listRemove_loop ::
  "'v fl_List \<Rightarrow> nat \<Rightarrow> nat option \<Rightarrow> nat option \<Rightarrow> (nat option \<times> 'v fl_List) option" where
  "fl_listRemove_loop l node prev cur =
     (case cur of
        None \<Rightarrow> Some (prev, l)
      | Some c \<Rightarrow>
          if c = node then do {
            n \<leftarrow> lnodes l node;
            l \<leftarrow> (case prev of
                    None \<Rightarrow> Some (l\<lparr>lhead := lnext n\<rparr>)
                  | Some p \<Rightarrow> do {
                      pn \<leftarrow> lnodes l p;
                      Some (l\<lparr>lnodes := (lnodes l)(p \<mapsto> pn\<lparr>lnext := lnext n\<rparr>)\<rparr>)
                    });
            Some (prev, l\<lparr>lnodes := (lnodes l)(node := None)\<rparr>)
          }
          else do {
            cn \<leftarrow> lnodes l c;
            fl_listRemove_loop l node (Some c) (lnext cn)
          })"

definition fl_listRemove :: "'v fl_List \<Rightarrow> nat \<Rightarrow> 'v fl_List option" where
  "fl_listRemove l node = do {
     (prev, l) \<leftarrow> fl_listRemove_loop l node None (lhead l);
     let l = (if ltail l = Some node then l\<lparr>ltail := prev\<rparr> else l) in
     Some (l\<lparr>lsize := lsize l - 1\<rparr>)
   }"

partial_function (option) fl_listRemove2_loop :: "'v fl_List \<Rightarrow> 'v \<Rightarrow> nat option \<Rightarrow> 'v fl_List option" where
  "fl_listRemove2_loop l v node =
     (case node of
        None \<Rightarrow> Some l
      | Some a \<Rightarrow> do {
          n \<leftarrow> lnodes l a;
          if lvalue n = v then fl_listRemove l a else fl_listRemove2_loop l v (lnext n)
        })"

definition fl_listRemove2 :: "'v fl_List \<Rightarrow> 'v \<Rightarrow> 'v fl_List option" where
  "fl_listRemove2 l v = fl_listRemove2_loop l v (lhead l)"

definition fl_listAppend :: "'v fl_List \<Rightarrow> 'v \<Rightarrow> 'v fl_List option" where
  "fl_listAppend l v =
     (case fl_newListNode l v of (ln, l) \<Rightarrow> do {
        l \<leftarrow> (if lhead l \<noteq> None then do {
                t \<leftarrow> ltail l;
                tn \<leftarrow> lnodes l t;
                Some (l\<lparr>lnodes := (lnodes l)(t \<mapsto> tn\<lparr>lnext := Some ln\<rparr>), ltail := Some ln\<rparr>)
              }
              else Some (l\<lparr>lhead := Some ln, ltail := Some ln\<rparr>));
        Some (l\<lparr>lsize := lsize l + 1\<rparr>)
      })"

partial_function (option) fl_clearList :: "'v fl_List \<Rightarrow> 'v fl_List option" where
  "fl_clearList l =
     (case lhead l of None \<Rightarrow> Some l | Some a \<Rightarrow> do { l \<leftarrow> fl_listRemove l a; fl_clearList l })"

definition fl_removeFirstElementOfConcurrentList :: "'v fl_List \<Rightarrow> ('v option \<times> 'v fl_List) option" where
  "fl_removeFirstElementOfConcurrentList l =
     (case lhead l of
        None \<Rightarrow> Some (None, l)
      | Some a \<Rightarrow> do {
          n \<leftarrow> lnodes l a;
          l \<leftarrow> fl_listRemove l a;
          Some (Some (lvalue n), l)
        })"

definition fl_removeLastElementOfConcurrentList :: "'v fl_List \<Rightarrow> ('v option \<times> 'v fl_List) option" where
  "fl_removeLastElementOfConcurrentList l =
     (case lhead l of
        None \<Rightarrow> Some (None, l)
      | Some _ \<Rightarrow> do {
          t \<leftarrow> ltail l;
          n \<leftarrow> lnodes l t;
          l \<leftarrow> fl_listRemove l t;
          Some (Some (lvalue n), l)
        })"

definition fl_listSize :: "'v fl_List \<Rightarrow> int" where
  "fl_listSize l = lsize l"

section \<open>Representation\<close>

abbreviation lnx :: "'v fl_List \<Rightarrow> nat \<Rightarrow> nat option option" where
  "lnx l a \<equiv> map_option lnext (lnodes l a)"

definition fl_nodes_rep :: "'v fl_List \<Rightarrow> nat list \<Rightarrow> bool" where
  "fl_nodes_rep l as \<longleftrightarrow>
     chain (lnx l) (lhead l) as \<and> distinct as \<and> ltail l = lasto as \<and> dom (lnodes l) = set as \<and>
     lsize l = int (length as) \<and> (\<forall>a \<in> set as. a < lfresh l)"

definition node_values :: "'v fl_List \<Rightarrow> nat list \<Rightarrow> 'v list" where
  "node_values l as = map (\<lambda>a. lvalue (the (lnodes l a))) as"

definition fl_list_rep :: "'v fl_List \<Rightarrow> 'v list \<Rightarrow> bool" where
  "fl_list_rep l xs \<longleftrightarrow> (\<exists>as. fl_nodes_rep l as \<and> node_values l as = xs)"

lemma fl_newList_rep: "fl_list_rep fl_newList []"
  by (auto simp: fl_list_rep_def fl_nodes_rep_def fl_newList_def node_values_def)

text \<open>Unlinking an address from a chain.\<close>

lemma chain_unlink:
  assumes "chain nx p (xs @ a # ys)" and "distinct (xs @ a # ys)" and "xs \<noteq> []"
  shows "chain (nx(last xs \<mapsto> hdo ys)) p (xs @ ys)"
  using assms
proof (induction xs arbitrary: p)
  case Nil
  then show ?case by simp
next
  case (Cons x xs)
  show ?case
  proof (cases "xs = []")
    case True
    with Cons.prems show ?thesis using chain_hdo [of nx _ ys] by auto
  next
    case False
    with Cons.prems have "last xs \<in> set xs" and "x \<notin> set xs" by auto
    then have "last xs \<noteq> x" by metis
    with Cons False show ?thesis by auto
  qed
qed

lemma fl_listRemove_loop_spec:
  assumes "chain (lnx l) (hdo (mid @ a # ys)) (mid @ a # ys)" and "distinct (mid @ a # ys)"
    and "\<forall>p. prev = Some p \<longrightarrow> lnodes l p \<noteq> None"
    and "prev' = (if mid = [] then prev else lasto mid)"
  shows "fl_listRemove_loop l a prev (hdo (mid @ a # ys)) =
     Some (prev',
       (case prev' of
          None \<Rightarrow> l\<lparr>lhead := hdo ys, lnodes := (lnodes l)(a := None)\<rparr>
        | Some p \<Rightarrow> l\<lparr>lnodes := (lnodes l)(p \<mapsto> (the (lnodes l p))\<lparr>lnext := hdo ys\<rparr>, a := None)\<rparr>))"
  using assms
proof (induction mid arbitrary: prev)
  case Nil
  then obtain n where "lnodes l a = Some n" "lnext n = hdo ys"
    by (auto dest: chain_hdo)
  with Nil show ?case
    by (subst fl_listRemove_loop.simps) (auto split: option.splits)
next
  case (Cons m mid)
  then obtain n where n: "lnodes l m = Some n" "lnext n = hdo (mid @ a # ys)"
    by (auto dest: chain_hdo)
  have "m \<noteq> a" using Cons.prems by auto
  then have "fl_listRemove_loop l a prev (hdo ((m # mid) @ a # ys)) =
      fl_listRemove_loop l a (Some m) (hdo (mid @ a # ys))"
    using n by (subst fl_listRemove_loop.simps) simp
  also have "\<dots> = Some (prev',
       (case prev' of
          None \<Rightarrow> l\<lparr>lhead := hdo ys, lnodes := (lnodes l)(a := None)\<rparr>
        | Some p \<Rightarrow> l\<lparr>lnodes := (lnodes l)(p \<mapsto> (the (lnodes l p))\<lparr>lnext := hdo ys\<rparr>, a := None)\<rparr>))"
    by (rule Cons.IH) (use Cons.prems n in \<open>auto dest: chain_hdo\<close>)
  finally show ?case .
qed

lemma fl_listRemove_spec:
  assumes rep: "fl_nodes_rep l (xs @ a # ys)"
  shows "wpo (fl_listRemove l a)
     (\<lambda>l'. fl_nodes_rep l' (xs @ ys) \<and> node_values l' (xs @ ys) = node_values l (xs @ ys))"
proof -
  note r = rep [unfolded fl_nodes_rep_def]
  have ch: "chain (lnx l) (hdo (xs @ a # ys)) (xs @ a # ys)"
    using r chain_hdo [of "lnx l" "lhead l" "xs @ a # ys"] by simp
  have hd: "lhead l = hdo (xs @ a # ys)"
    using r chain_hdo by blast
  have loop: "fl_listRemove_loop l a None (hdo (xs @ a # ys)) =
     Some (lasto xs,
       (case lasto xs of
          None \<Rightarrow> l\<lparr>lhead := hdo ys, lnodes := (lnodes l)(a := None)\<rparr>
        | Some p \<Rightarrow> l\<lparr>lnodes := (lnodes l)(p \<mapsto> (the (lnodes l p))\<lparr>lnext := hdo ys\<rparr>, a := None)\<rparr>))"
    by (rule fl_listRemove_loop_spec) (use ch r in auto)
  have tail: "(if ltail l = Some a then lasto xs else ltail l) = lasto (xs @ ys)"
    using r by (cases ys rule: rev_cases) (auto simp: lasto_def)
  show ?thesis
  proof (cases "xs = []")
    case True
    then have "chain (lnx l) (hdo ys) ys"
      using ch chain_append [of "lnx l" _ "[a]" ys] by auto
    moreover have "a \<notin> set ys" using r True by simp
    ultimately have "chain (\<lambda>x. map_option lnext (((lnodes l)(a := None)) x)) (hdo ys) ys"
      by (auto elim!: chain_transfer)
    then show ?thesis
      using True r loop hd tail
      by (auto simp: fl_listRemove_def fl_nodes_rep_def node_values_def Let_def)
  next
    case False
    define p where "p = last xs"
    obtain n where n: "lnodes l p = Some n"
      using r False by (auto simp: p_def dom_def set_eq_iff) (metis last_in_set)
    have px: "lasto xs = Some p" "p \<in> set xs" "p \<noteq> a"
      using False r by (auto simp: p_def lasto_def)
    define H where "H = (lnodes l)(p \<mapsto> n\<lparr>lnext := hdo ys\<rparr>, a := None)"
    let ?l = "l\<lparr>lnodes := H, ltail := lasto (xs @ ys), lsize := lsize l - 1\<rparr>"
    have "chain ((lnx l)(p \<mapsto> hdo ys)) (hdo (xs @ a # ys)) (xs @ ys)"
      unfolding p_def by (rule chain_unlink [OF ch]) (use r False in auto)
    then have "chain (\<lambda>x. map_option lnext (H x)) (hdo (xs @ a # ys)) (xs @ ys)"
      by (rule chain_transfer) (use r n in \<open>auto simp: H_def\<close>)
    moreover have "dom H = set (xs @ ys)"
      using r px by (auto simp: H_def)
    ultimately have "fl_nodes_rep ?l (xs @ ys)"
      using r hd by (simp add: fl_nodes_rep_def)
    moreover have "node_values ?l (xs @ ys) = node_values l (xs @ ys)"
      using r n by (auto simp: node_values_def H_def)
    moreover have "fl_listRemove l a = Some ?l"
      using loop hd tail px n by (auto simp: fl_listRemove_def H_def Let_def)
    ultimately show ?thesis by simp
  qed
qed

lemma fl_listRemove2_loop_spec:
  assumes "fl_nodes_rep l (pre @ as)"
  shows "wpo (fl_listRemove2_loop l v (hdo as))
     (\<lambda>l'. fl_list_rep l' (node_values l pre @ remove1 v (node_values l as)))"
  using assms
proof (induction as arbitrary: pre)
  case Nil
  then show ?case
    by (subst fl_listRemove2_loop.simps) (auto simp: fl_list_rep_def node_values_def)
next
  case (Cons a as)
  then have nxa: "lnx l a = Some (hdo as)"
    by (auto simp: fl_nodes_rep_def dest: chain_nth)
  then obtain n where n: "lnodes l a = Some n" "lnext n = hdo as" by auto
  show ?case
  proof (cases "lvalue n = v")
    case True
    then have "fl_listRemove2_loop l v (hdo (a # as)) = fl_listRemove l a"
      using n by (subst fl_listRemove2_loop.simps) simp
    moreover have "node_values l pre @ remove1 v (node_values l (a # as)) = node_values l (pre @ as)"
      using True n by (simp add: node_values_def)
    moreover have "wpo (fl_listRemove l a) (\<lambda>l'. fl_list_rep l' (node_values l (pre @ as)))"
      by (rule wpo_mono [OF fl_listRemove_spec [OF Cons.prems]]) (auto simp: fl_list_rep_def)
    ultimately show ?thesis by simp
  next
    case False
    then have "fl_listRemove2_loop l v (hdo (a # as)) = fl_listRemove2_loop l v (hdo as)"
      using n by (subst fl_listRemove2_loop.simps) simp
    then show ?thesis
      using Cons.IH [of "pre @ [a]"] Cons.prems False n by (auto simp: node_values_def)
  qed
qed

lemma fl_listRemove2_spec:
  assumes "fl_list_rep l xs"
  shows "wpo (fl_listRemove2 l v) (\<lambda>l'. fl_list_rep l' (remove1 v xs))"
proof -
  from assms obtain as where as: "fl_nodes_rep l as" "node_values l as = xs"
    by (auto simp: fl_list_rep_def)
  then have "lhead l = hdo as"
    by (auto simp: fl_nodes_rep_def dest: chain_hdo)
  with fl_listRemove2_loop_spec [of l "[]" as v] as show ?thesis
    by (simp add: fl_listRemove2_def node_values_def)
qed

lemma chain_extend:
  assumes "chain nx p as" and "as \<noteq> []" and "distinct as" and "b \<notin> set as"
  shows "chain (nx(b \<mapsto> None, last as \<mapsto> Some b)) p (as @ [b])"
  using assms
proof (induction as arbitrary: p)
  case Nil
  then show ?case by simp
next
  case (Cons a as)
  show ?case
  proof (cases "as = []")
    case True
    with Cons.prems show ?thesis by auto
  next
    case False
    with Cons.prems have "last as \<noteq> a" by (metis distinct.simps(2) last_in_set)
    with Cons False show ?thesis by auto
  qed
qed

lemma fl_listAppend_spec:
  assumes "fl_list_rep l xs"
  shows "wpo (fl_listAppend l v) (\<lambda>l'. fl_list_rep l' (xs @ [v]))"
proof -
  from assms obtain as where rep: "fl_nodes_rep l as" and vals: "node_values l as = xs"
    by (auto simp: fl_list_rep_def)
  note r = rep [unfolded fl_nodes_rep_def]
  let ?b = "lfresh l"
  have b: "?b \<notin> set as" using r by auto
  show ?thesis
  proof (cases "as = []")
    case True
    then have "fl_nodes_rep (l\<lparr>lnodes := (lnodes l)(?b \<mapsto> \<lparr>lnext = None, lvalue = v\<rparr>),
        lfresh := Suc ?b, lhead := Some ?b, ltail := Some ?b, lsize := lsize l + 1\<rparr>) [?b]"
      using r by (auto simp: fl_nodes_rep_def)
    moreover have "lhead l = None" using r True by simp
    ultimately show ?thesis
      using True vals
      by (auto simp: fl_listAppend_def fl_newListNode_def fl_list_rep_def node_values_def intro!: exI [of _ "[?b]"])
  next
    case False
    define t where "t = last as"
    then have t: "t \<in> set as" "ltail l = Some t"
      using False r by (auto simp: lasto_def)
    with b have tb: "t \<noteq> ?b" by metis
    from t r have "t \<in> dom (lnodes l)" by simp
    then obtain n where n: "lnodes l t = Some n" by auto
    let ?h = "(lnodes l)(?b \<mapsto> \<lparr>lnext = None, lvalue = v\<rparr>, t \<mapsto> n\<lparr>lnext := Some ?b\<rparr>)"
    have "chain ((lnx l)(?b \<mapsto> None, t \<mapsto> Some ?b)) (lhead l) (as @ [?b])"
      unfolding t_def by (rule chain_extend) (use r False b in auto)
    then have "chain (\<lambda>x. map_option lnext (?h x)) (lhead l) (as @ [?b])"
      by (rule chain_transfer) auto
    then have "fl_nodes_rep (l\<lparr>lfresh := Suc ?b, lnodes := ?h, ltail := Some ?b, lsize := lsize l + 1\<rparr>) (as @ [?b])"
      using r b t tb by (auto simp: fl_nodes_rep_def)
    moreover have "lhead l \<noteq> None" using r False chain_hdo [of _ "lhead l" as] by auto
    moreover have "node_values (l\<lparr>lfresh := Suc ?b, lnodes := ?h, ltail := Some ?b, lsize := lsize l + 1\<rparr>) (as @ [?b]) = xs @ [v]"
      using vals b t tb n by (auto simp: node_values_def)
    ultimately show ?thesis
      using t tb n by (auto simp: fl_listAppend_def fl_newListNode_def fl_list_rep_def intro!: exI [of _ "as @ [?b]"])
  qed
qed

lemma fl_removeFirst_spec:
  assumes "fl_list_rep l xs"
  shows "wpo (fl_removeFirstElementOfConcurrentList l) (\<lambda>(r, l'). r = hdo xs \<and> fl_list_rep l' (tl xs))"
proof -
  from assms obtain as where rep: "fl_nodes_rep l as" and vals: "node_values l as = xs"
    by (auto simp: fl_list_rep_def)
  have hd: "lhead l = hdo as"
    using rep by (auto simp: fl_nodes_rep_def dest: chain_hdo)
  show ?thesis
  proof (cases as)
    case Nil
    with hd vals rep show ?thesis
      by (auto simp: fl_removeFirstElementOfConcurrentList_def node_values_def fl_list_rep_def)
  next
    case (Cons a bs)
    then obtain n where "lnodes l a = Some n"
      using rep by (auto simp: fl_nodes_rep_def dom_def set_eq_iff)
    with Cons hd vals show ?thesis
      using fl_listRemove_spec [of l "[]" a bs] rep
      by (auto simp: fl_removeFirstElementOfConcurrentList_def node_values_def fl_list_rep_def elim!: wpo_mono)
  qed
qed

lemma fl_removeLast_spec:
  assumes "fl_list_rep l xs"
  shows "wpo (fl_removeLastElementOfConcurrentList l) (\<lambda>(r, l'). r = lasto xs \<and> fl_list_rep l' (butlast xs))"
proof -
  from assms obtain as where rep: "fl_nodes_rep l as" and vals: "node_values l as = xs"
    by (auto simp: fl_list_rep_def)
  have hd: "lhead l = hdo as" and tl: "ltail l = lasto as"
    using rep by (auto simp: fl_nodes_rep_def dest: chain_hdo)
  show ?thesis
  proof (cases as rule: rev_cases)
    case Nil
    with hd vals rep show ?thesis
      by (auto simp: fl_removeLastElementOfConcurrentList_def node_values_def fl_list_rep_def)
  next
    case (snoc bs a)
    then have "a \<in> dom (lnodes l)"
      using rep by (simp add: fl_nodes_rep_def)
    then obtain n where "lnodes l a = Some n" by auto
    moreover obtain h where "lhead l = Some h" using hd snoc by (cases bs) auto
    ultimately show ?thesis
      using fl_listRemove_spec [of l bs a "[]"] rep snoc tl vals
      by (auto simp: fl_removeLastElementOfConcurrentList_def node_values_def fl_list_rep_def elim!: wpo_mono)
  qed
qed

lemma fl_clearList_spec:
  "fl_list_rep l xs \<Longrightarrow> wpo (fl_clearList l) (\<lambda>l'. fl_list_rep l' [])"
proof (induction xs arbitrary: l)
  case Nil
  then have "lhead l = None"
    by (auto simp: fl_list_rep_def fl_nodes_rep_def node_values_def)
  with Nil show ?case by (subst fl_clearList.simps) simp
next
  case (Cons x xs)
  then obtain a bs where rep: "fl_nodes_rep l (a # bs)" and vals: "node_values l (a # bs) = x # xs"
    by (auto simp: fl_list_rep_def node_values_def Cons_eq_map_conv)
  then have "lhead l = Some a"
    by (auto simp: fl_nodes_rep_def)
  then have "fl_clearList l = fl_listRemove l a \<bind> fl_clearList"
    by (subst fl_clearList.simps) simp
  moreover have "wpo (fl_listRemove l a) (\<lambda>l'. fl_list_rep l' xs)"
    using fl_listRemove_spec [of l "[]" a bs] rep vals
    by (auto simp: fl_list_rep_def node_values_def elim!: wpo_mono)
  ultimately show ?case
    using Cons.IH by (auto elim!: wpo_mono)
qed

section \<open>The contract of the list\<close>

locale fl_sequence =
  fixes sappend :: "'l \<Rightarrow> 'v \<Rightarrow> 'l option"
    and sremove :: "'l \<Rightarrow> 'v \<Rightarrow> 'l option"
    and sfirst :: "'l \<Rightarrow> ('v option \<times> 'l) option"
    and ssize :: "'l \<Rightarrow> int"
    and srep :: "'l \<Rightarrow> 'v list \<Rightarrow> bool"
  assumes append_law: "srep l xs \<Longrightarrow> wpo (sappend l v) (\<lambda>l'. srep l' (xs @ [v]))"
    and remove_law: "srep l xs \<Longrightarrow> wpo (sremove l v) (\<lambda>l'. srep l' (remove1 v xs))"
    and first_law: "srep l xs \<Longrightarrow> wpo (sfirst l) (\<lambda>(r, l'). r = hdo xs \<and> srep l' (tl xs))"
    and size_law: "srep l xs \<Longrightarrow> ssize l = int (length xs)"
begin

text \<open>Registering a record and removing it again leaves the other records in their order.\<close>

lemma append_remove:
  assumes "srep l xs" and "v \<notin> set xs"
  shows "wpo (sappend l v \<bind> (\<lambda>l. sremove l v)) (\<lambda>l'. srep l' xs)"
  unfolding wpo_bind
proof (rule wpo_mono [OF append_law [OF assms(1)]])
  fix l' assume "srep l' (xs @ [v])"
  from remove_law [OF this, of v] assms(2) show "wpo (sremove l' v) (\<lambda>l'. srep l' xs)"
    by (simp add: remove1_append)
qed

text \<open>The shutdown loop: take the first element as often as the size said, and the list is empty.\<close>

fun drain :: "nat \<Rightarrow> 'l \<Rightarrow> ('v list \<times> 'l) option" where
  "drain 0 l = Some ([], l)"
| "drain (Suc n) l = do {
     (r, l) \<leftarrow> sfirst l;
     (vs, l) \<leftarrow> drain n l;
     Some ((case r of None \<Rightarrow> vs | Some v \<Rightarrow> v # vs), l)
   }"

lemma drain_all:
  "srep l xs \<Longrightarrow> wpo (drain (nat (ssize l)) l) (\<lambda>(vs, l'). vs = xs \<and> srep l' [])"
proof -
  have *: "wpo (drain (length xs) l) (\<lambda>(vs, l'). vs = xs \<and> srep l' [])" if "srep l xs" for l xs
    using that
  proof (induction xs arbitrary: l)
    case Nil
    then show ?case by simp
  next
    case (Cons x xs)
    from Cons.prems show ?case
      by (auto intro!: wpo_mono [OF first_law [OF Cons.prems]] dest!: Cons.IH elim!: wpo_mono)
  qed
  assume "srep l xs"
  then show ?thesis by (simp add: size_law *)
qed

end

lemma fl_listSize_spec: "fl_list_rep l xs \<Longrightarrow> fl_listSize l = int (length xs)"
  by (auto simp: fl_listSize_def fl_list_rep_def fl_nodes_rep_def node_values_def)

interpretation fll: fl_sequence fl_listAppend fl_listRemove2 fl_removeFirstElementOfConcurrentList
  fl_listSize fl_list_rep
  by unfold_locales
    (auto intro: fl_listAppend_spec fl_listRemove2_spec fl_removeFirst_spec fl_listSize_spec)

section \<open>Properties\<close>

datatype 'v fll_op = Append 'v | Remove 'v | RemoveFirst | RemoveLast | Clear

fun fll_step :: "'v fll_op \<Rightarrow> 'v fl_List \<Rightarrow> 'v fl_List option" where
  "fll_step (Append v) l = fl_listAppend l v"
| "fll_step (Remove v) l = fl_listRemove2 l v"
| "fll_step RemoveFirst l = map_option snd (fl_removeFirstElementOfConcurrentList l)"
| "fll_step RemoveLast l = map_option snd (fl_removeLastElementOfConcurrentList l)"
| "fll_step Clear l = fl_clearList l"

fun fll_run :: "'v fll_op list \<Rightarrow> 'v fl_List \<Rightarrow> 'v fl_List option" where
  "fll_run [] l = Some l"
| "fll_run (x # xs) l = fll_step x l \<bind> fll_run xs"

fun seq_step :: "'v fll_op \<Rightarrow> 'v list \<Rightarrow> 'v list" where
  "seq_step (Append v) xs = xs @ [v]"
| "seq_step (Remove v) xs = remove1 v xs"
| "seq_step RemoveFirst xs = tl xs"
| "seq_step RemoveLast xs = butlast xs"
| "seq_step Clear xs = []"

lemma fll_step_refines: "fl_list_rep l xs \<Longrightarrow> wpo (fll_step x l) (\<lambda>l'. fl_list_rep l' (seq_step x xs))"
proof (cases x)
  case RemoveFirst
  assume "fl_list_rep l xs"
  from RemoveFirst fl_removeFirst_spec [OF this] show ?thesis by (auto elim!: wpo_mono)
next
  case RemoveLast
  assume "fl_list_rep l xs"
  from RemoveLast fl_removeLast_spec [OF this] show ?thesis by (auto elim!: wpo_mono)
qed (auto intro: fl_listAppend_spec fl_listRemove2_spec fl_clearList_spec)

text \<open>C40. Every sequence of appends, removals by value, removals of the first or last element and
  clears on a new pointer list runs without touching a freed node, and leaves exactly the values the
  same operations leave in a HOL list: links, tail pointer and size agree with it.\<close>

theorem fl_list_refines_sequence:
  "wpo (fll_run ops fl_newList)
     (\<lambda>l. fl_list_rep l (fold seq_step ops []) \<and>
          fl_listSize l = int (length (fold seq_step ops [])))"
proof -
  have "wpo (fll_run ops l) (\<lambda>l'. fl_list_rep l' (fold seq_step ops xs))" if "fl_list_rep l xs" for l xs
    using that
  proof (induction ops arbitrary: l xs)
    case Nil
    then show ?case by simp
  next
    case (Cons x ops)
    from Cons.prems show ?case
      by (auto intro!: wpo_mono [OF fll_step_refines] dest: Cons.IH)
  qed
  from this [OF fl_newList_rep] show ?thesis
    by (auto elim!: wpo_mono simp: fll.size_law)
qed

end
