(* ===== verification/Fl_Registry.thy ===== *)
theory Fl_Registry
  imports Fl_Hashtable Fl_List
begin

text \<open>
  How the preload cache and the upload buffer use the hash table and the list together: a record is
  registered under its path in a table and appended to a list; the table answers whether a path has
  a record, the list serves the shutdown. The lemmas are proved from the two contracts alone, and
  the locale is interpreted on the program's table and list.
\<close>

locale fl_registry =
  tab: fl_multimap tinsert tlookup tdelete tvals tinv +
  lst: fl_sequence sappend sremove sfirst ssize srep
  for tinsert :: "'h \<Rightarrow> string \<Rightarrow> nat \<Rightarrow> (int \<times> 'h) option"
    and tlookup :: "'h \<Rightarrow> string \<Rightarrow> nat option option"
    and tdelete :: "'h \<Rightarrow> string \<Rightarrow> (nat option \<times> 'h) option"
    and tvals :: "'h \<Rightarrow> string \<Rightarrow> nat list"
    and tinv :: "'h \<Rightarrow> bool"
    and sappend :: "'l \<Rightarrow> nat \<Rightarrow> 'l option"
    and sremove :: "'l \<Rightarrow> nat \<Rightarrow> 'l option"
    and sfirst :: "'l \<Rightarrow> (nat option \<times> 'l) option"
    and ssize :: "'l \<Rightarrow> int"
    and srep :: "'l \<Rightarrow> nat list \<Rightarrow> bool"
begin

text \<open>Table \<open>t\<close> and list \<open>l\<close> hold exactly the addresses of \<open>m\<close>, each under its path, one per path.\<close>

definition reg :: "'h \<Rightarrow> 'l \<Rightarrow> (nat \<rightharpoonup> string) \<Rightarrow> bool" where
  "reg t l m \<longleftrightarrow> tinv t \<and> (\<exists>xs. srep l xs \<and> distinct xs \<and> set xs = dom m) \<and>
     (\<forall>k. distinct (tvals t k) \<and> set (tvals t k) = {a. m a = Some k}) \<and>
     (\<forall>a b k. m a = Some k \<longrightarrow> m b = Some k \<longrightarrow> a = b)"

lemma reg_vals:
  assumes "reg t l m"
  shows "k \<notin> ran m \<Longrightarrow> tvals t k = []" "m a = Some k \<Longrightarrow> tvals t k = [a]"
proof -
  have d: "distinct (tvals t k)" "set (tvals t k) = {a. m a = Some k}" using assms by (auto simp: reg_def)
  show "k \<notin> ran m \<Longrightarrow> tvals t k = []" using d(2) by (auto simp: ran_def)
  assume "m a = Some k"
  then have "{a. m a = Some k} = {a}" using assms by (auto simp: reg_def)
  with d have "set (tvals t k) = set [a]" "distinct (tvals t k)" by auto
  then show "tvals t k = [a]" by (cases "tvals t k"; cases "tl (tvals t k)") auto
qed

lemma reg_lookup:
  assumes "reg t l m"
  shows "\<exists>r. tlookup t k = Some r \<and> (r = None \<longleftrightarrow> k \<notin> ran m) \<and> (\<forall>a. r = Some a \<longleftrightarrow> m a = Some k)"
proof (cases "k \<in> ran m")
  case True
  then obtain a where a: "m a = Some k" by (auto simp: ran_def)
  have u: "m b = Some k \<longleftrightarrow> b = a" for b using assms a unfolding reg_def by blast
  have "tlookup t k = Some (Some a)"
    using assms reg_vals(2) [OF assms a] by (simp add: reg_def tab.lookup_law)
  then show ?thesis using True u by auto
next
  case False
  have "tlookup t k = Some None"
    using assms reg_vals(1) [OF assms False] by (simp add: reg_def tab.lookup_law)
  then show ?thesis using False by (auto simp: ran_def)
qed

lemma reg_insert:
  assumes "reg t l m" "k \<notin> ran m" "a \<notin> dom m"
  shows "wpo (sappend l a) (\<lambda>l'. wpo (tinsert t k a) (\<lambda>(_, t'). reg t' l' (m(a \<mapsto> k))))"
proof -
  from assms(1) obtain xs where xs: "srep l xs" "distinct xs" "set xs = dom m" and t: "tinv t" by (auto simp: reg_def)
  have v: "tvals t k = []" by (rule reg_vals(1) [OF assms(1,2)])
  show ?thesis
  proof (rule wpo_mono [OF lst.append_law [OF xs(1)]], rule wpo_mono [OF tab.insert_law [OF t]], clarify)
    fix l' r t' assume l': "srep l' (xs @ [a])" and t': "tinv t'" "tvals t' = (tvals t)(k := tvals t k @ [a])"
    have "distinct (xs @ [a])" "set (xs @ [a]) = dom (m(a \<mapsto> k))" using xs assms(3) by auto
    moreover have "distinct (tvals t' k')" "set (tvals t' k') = {b. (m(a \<mapsto> k)) b = Some k'}" for k'
      using assms v t'(2) by (auto simp: reg_def ran_def)
    moreover have "(m(a \<mapsto> k)) b = Some k' \<Longrightarrow> (m(a \<mapsto> k)) c = Some k' \<Longrightarrow> b = c" for b c k'
      using assms by (auto simp: reg_def ran_def split: if_splits)
    ultimately show "reg t' l' (m(a \<mapsto> k))" using l' t'(1) unfolding reg_def by blast
  qed
qed

lemma reg_delete:
  assumes "reg t l m" "m a = Some k"
  shows "wpo (sremove l a) (\<lambda>l'. wpo (tdelete t k) (\<lambda>(_, t'). reg t' l' (m(a := None))))"
proof -
  from assms(1) obtain xs where xs: "srep l xs" "distinct xs" "set xs = dom m" and t: "tinv t" by (auto simp: reg_def)
  have v: "tvals t k = [a]" by (rule reg_vals(2) [OF assms])
  show ?thesis
  proof (rule wpo_mono [OF lst.remove_law [OF xs(1)]], rule wpo_mono [OF tab.delete_law [OF t]], clarify)
    fix l' r t' assume l': "srep l' (remove1 a xs)" and t': "tinv t'" "tvals t' = (tvals t)(k := tl (tvals t k))"
    have "distinct (remove1 a xs)" "set (remove1 a xs) = dom (m(a := None))" using xs by auto
    moreover have "distinct (tvals t' k')" "set (tvals t' k') = {b. (m(a := None)) b = Some k'}" for k'
      using assms v t'(2) by (auto simp: reg_def)
    moreover have "(m(a := None)) b = Some k' \<Longrightarrow> (m(a := None)) c = Some k' \<Longrightarrow> b = c" for b c k'
      using assms(1) by (auto simp: reg_def split: if_splits)
    ultimately show "reg t' l' (m(a := None))" using l' t'(1) unfolding reg_def by blast
  qed
qed

lemma reg_new:
  assumes "tinv t" "tvals t = (\<lambda>_. [])" "srep l []"
  shows "reg t l Map.empty"
  using assms by (auto simp: reg_def)

end

interpretation freg: fl_registry "fl_insertIntoHashTable True" fl_lookupFromHashTable fl_deleteFromHashTable
  fl_vals fl_table fl_listAppend fl_listRemove2 fl_removeFirstElementOfConcurrentList fl_listSize fl_list_rep
  by unfold_locales

end
