(* ===== verification/Preload.thy ===== *)
theory Preload
  imports Newly_Created FS_Utils Fl_Registry
begin

text \<open>
  The preload cache of \<open>clients/fuse/src/iFuseLib.Preload.c\<close>: local copies of whole data objects
  below \<open>PreloadConfig.cachePath\<close>, fetched by a thread per file, kept within a size limit by removing
  the least recently used copies, and opened in place of the object. The two hash tables and two
  lists are those of \<^theory_text>\<open>Fl_Hashtable\<close> and \<^theory_text>\<open>Fl_List\<close>; they hold addresses of records in two heaps, and
  reading a record that has been freed is a failure of the model. A thread that has been started
  waits in \<open>PreloadThreads\<close> until its body runs. \<open>PreloadLock\<close> is recursive. The mutex inside a
  thread record is only taken while \<open>PreloadLock\<close> is held, and is left out.

  The theory shows that the tables, the lists and the heaps agree after any sequence of the
  operations and thread bodies, that removing old copies returns and frees the space asked for in
  the order of access times, and what goes wrong when a thread cannot be started or is joined.
\<close>

section \<open>State\<close>

record preloadConfig_t =
  pcPreload :: int
  pcClearCache :: int
  pcCachePath :: string
  pcCacheMaxSize :: int
  pcPreloadMinSize :: int

record preloadThreadInfo_t =
  ptPath :: string
  ptRunning :: int

record preloadThreadData_t =
  tdPath :: string
  tdStbuf :: stat
  tdThreadInfo :: nat

record preloadFileHandleInfo_t =
  phPath :: string
  phHandle :: int

record 'w pstate = "'w nstate" +
  PreloadConfig :: preloadConfig_t
  PreloadRodsEnv :: rodsEnv
  PreloadThreadList :: "nat fl_List"
  PreloadFileHandleList :: "nat fl_List"
  PreloadThreadTable :: "nat fl_Hashtable"
  PreloadFileHandleTable :: "nat fl_Hashtable"
  threadHeap :: "nat \<rightharpoonup> preloadThreadInfo_t"
  handleHeap :: "nat \<rightharpoonup> preloadFileHandleInfo_t"
  preloadFresh :: nat
  PreloadThreads :: "preloadThreadData_t list"

abbreviation (input) PRELOAD_THREAD_RUNNING :: int where "PRELOAD_THREAD_RUNNING \<equiv> 1"
abbreviation (input) PRELOAD_THREAD_IDLE :: int where "PRELOAD_THREAD_IDLE \<equiv> 0"
abbreviation (input) NUM_PRELOAD_THREAD_HASH_SLOT :: nat where "NUM_PRELOAD_THREAD_HASH_SLOT \<equiv> 201"
abbreviation (input) NUM_PRELOAD_FILEHANDLE_HASH_SLOT :: nat where "NUM_PRELOAD_FILEHANDLE_HASH_SLOT \<equiv> 201"

definition PRELOAD_FILES_IN_DOWNLOADING_EXT :: string where
  "PRELOAD_FILES_IN_DOWNLOADING_EXT = ''.part''"

definition PUBLIC_USER_NAME :: string where
  "PUBLIC_USER_NAME = ''public''"

definition lockPreload :: "('w, 'z) base_scheme \<Rightarrow> ('w, 'z) base_scheme option" where
  "lockPreload s = rec_lock PreloadLock s"

definition unlockPreload :: "('w, 'z) base_scheme \<Rightarrow> ('w, 'z) base_scheme option" where
  "unlockPreload s = rec_unlock PreloadLock s"

section \<open>Paths of the cache\<close>

text \<open>The array \<open>iRODSPath\<close> is written whenever the result is not negative.\<close>

definition preload_getiRODSPath :: "string \<Rightarrow> ('w, 'z) pstate_scheme \<Rightarrow> (int \<times> string) option" where
  "preload_getiRODSPath path s = getiRODSPath path [] (envHome (PreloadRodsEnv s)) (envCwd (PreloadRodsEnv s))"

definition do_getCachePath :: "string \<Rightarrow> ('w, 'z) pstate_scheme \<Rightarrow> string" where
  "do_getCachePath path s =
     (if length path > 0 \<and> path ! 0 = slash then snprintf MAX_NAME_LEN (pcCachePath (PreloadConfig s) @ path)
      else snprintf MAX_NAME_LEN (pcCachePath (PreloadConfig s) @ ''/'' @ path))"

definition do_getCacheWorkPath :: "string \<Rightarrow> ('w, 'z) pstate_scheme \<Rightarrow> string" where
  "do_getCacheWorkPath path s =
     (if length path > 0 \<and> path ! 0 = slash
      then snprintf MAX_NAME_LEN (pcCachePath (PreloadConfig s) @ path @ PRELOAD_FILES_IN_DOWNLOADING_EXT)
      else snprintf MAX_NAME_LEN (pcCachePath (PreloadConfig s) @ ''/'' @ path @ PRELOAD_FILES_IN_DOWNLOADING_EXT))"

text \<open>\<open>status = _getiRODSPath (path, iRODSPath); if (status < 0) return status;\<close>, the start of every
  public function.\<close>

definition withiRODSPath ::
  "string \<Rightarrow> (string \<Rightarrow> ('w, 'z) pstate_scheme \<Rightarrow> (int \<times> ('w, 'z) pstate_scheme) option) \<Rightarrow>
   ('w, 'z) pstate_scheme \<Rightarrow> (int \<times> ('w, 'z) pstate_scheme) option" where
  "withiRODSPath path body s = do {
     (status, iRODSPath) \<leftarrow> preload_getiRODSPath path s;
     if status < 0 then Some (status, s) else body iRODSPath s
   }"

section \<open>Copies in the cache\<close>

definition do_hasCache :: "'w os \<Rightarrow> string \<Rightarrow> ('w, 'z) pstate_scheme \<Rightarrow> (int \<times> ('w, 'z) pstate_scheme) option" where
  "do_hasCache OS path s = do {
     ((status, _), s) \<leftarrow> sys (os_stat OS (do_getCachePath path s)) s;
     Some (if status < 0 then status else 0, s)
   }"

definition do_hasValidCache ::
  "'w os \<Rightarrow> string \<Rightarrow> stat \<Rightarrow> ('w, 'z) pstate_scheme \<Rightarrow> (int \<times> ('w, 'z) pstate_scheme) option" where
  "do_hasValidCache OS path stbuf s = do {
     ((status, stbufCache), s) \<leftarrow> sys (os_stat OS (do_getCachePath path s)) s;
     Some (if status < 0 then status
           else if st_size stbufCache \<noteq> st_size stbuf then -1
           else if st_mtime stbufCache \<noteq> st_mtime stbuf then -1
           else 0, s)
   }"

definition do_invalidateCache :: "'w os \<Rightarrow> string \<Rightarrow> ('w, 'z) pstate_scheme \<Rightarrow> (int \<times> ('w, 'z) pstate_scheme) option" where
  "do_invalidateCache OS path s = do {
     let cacheWorkPath = do_getCacheWorkPath path s;
     let cachePath = do_getCachePath path s;
     (d, s) \<leftarrow> isDirectory OS cachePath s;
     if d = 0 then removeDirRecursive OS cachePath s
     else do {
       (_, s) \<leftarrow> sys (os_unlink OS cacheWorkPath) s;
       sys (os_unlink OS cachePath) s
     }
   }"

text \<open>The search for the oldest copy: the path found so far, empty at the start, and its attributes.\<close>

definition olderOf :: "string \<times> stat \<Rightarrow> string \<times> stat \<Rightarrow> string \<times> stat" where
  "olderOf cand oldest =
     (if fst oldest = [] then cand
      else if st_atime (snd oldest) > st_atime (snd cand) then cand else oldest)"

definition oldestWalker :: "(string \<times> stat) walker" where
  "oldestWalker = \<lparr>w_init = ([], zero_stat), w_file = (\<lambda>filepath statbuf. olderOf (filepath, statbuf)),
     w_dir = (\<lambda>sub oldest. if fst sub = [] then oldest else olderOf sub oldest)\<rparr>"

definition do_findOldestCache ::
  "'w os \<Rightarrow> string \<Rightarrow> ('w, 'z) base_scheme \<Rightarrow> ((int \<times> string \<times> stat) \<times> ('w, 'z) base_scheme) option" where
  "do_findOldestCache OS path s = do {
     ((oldestCachePath, oldestStatBuf), s) \<leftarrow> walkDir OS oldestWalker path s;
     Some ((if length oldestCachePath = 0 then -1 else 0, oldestCachePath, oldestStatBuf), s)
   }"

partial_function (option) evict_loop ::
  "'w os \<Rightarrow> int \<Rightarrow> int \<Rightarrow> ('w, 'z) pstate_scheme \<Rightarrow> (int \<times> ('w, 'z) pstate_scheme) option" where
  "evict_loop OS sizeNeeded removedCacheSize s =
     (if sizeNeeded > removedCacheSize then do {
        ((status, oldCachePath, statbuf), s) \<leftarrow> do_findOldestCache OS (pcCachePath (PreloadConfig s)) s;
        if status < 0 then Some (status, s)
        else do {
          let cacheSize = (if st_size statbuf > 0 then st_size statbuf else 0);
          (status, s) \<leftarrow> sys (os_unlink OS oldCachePath) s;
          if status < 0 then Some (status, s)
          else evict_loop OS sizeNeeded (removedCacheSize + cacheSize) s
        }
      } else Some (0, s))"

definition do_evictOldCache :: "'w os \<Rightarrow> int \<Rightarrow> ('w, 'z) pstate_scheme \<Rightarrow> (int \<times> ('w, 'z) pstate_scheme) option" where
  "do_evictOldCache OS sizeNeeded s = (if sizeNeeded \<le> 0 then Some (0, s) else evict_loop OS sizeNeeded 0 s)"

definition do_preparePreloadCacheDir :: "'w os \<Rightarrow> string \<Rightarrow> ('w, 'z) pstate_scheme \<Rightarrow> (int \<times> ('w, 'z) pstate_scheme) option" where
  "do_preparePreloadCacheDir OS path s = makeDirs OS path s"

definition do_renameCache :: "'w os \<Rightarrow> string \<Rightarrow> string \<Rightarrow> ('w, 'z) pstate_scheme \<Rightarrow> (int \<times> ('w, 'z) pstate_scheme) option" where
  "do_renameCache OS fromPath toPath s = sys (os_rename OS (do_getCachePath fromPath s) (do_getCachePath toPath s)) s"

definition do_truncateCache :: "'w os \<Rightarrow> string \<Rightarrow> int \<Rightarrow> ('w, 'z) pstate_scheme \<Rightarrow> (int \<times> ('w, 'z) pstate_scheme) option" where
  "do_truncateCache OS path sz s = sys (os_truncate OS (do_getCachePath path s) sz) s"

definition do_removeAllCaches :: "'w os \<Rightarrow> ('w, 'z) pstate_scheme \<Rightarrow> (int \<times> ('w, 'z) pstate_scheme) option" where
  "do_removeAllCaches OS s = do {
     (status, s) \<leftarrow> emptyDir OS (pcCachePath (PreloadConfig s)) s;
     Some (if status < 0 then status else 0, s)
   }"

text \<open>A file name longer than the extension that ends with it.\<close>

definition isIncomplete :: "string \<Rightarrow> bool" where
  "isIncomplete name \<longleftrightarrow> length name > length PRELOAD_FILES_IN_DOWNLOADING_EXT \<and>
     drop (length name - length PRELOAD_FILES_IN_DOWNLOADING_EXT) name = PRELOAD_FILES_IN_DOWNLOADING_EXT"

partial_function (option) removeIncomplete_loop ::
  "'w os \<Rightarrow> string \<Rightarrow> int \<Rightarrow> int \<Rightarrow> ('w, 'z) base_scheme \<Rightarrow> (int \<times> ('w, 'z) base_scheme) option" where
  "removeIncomplete_loop OS path dir statusFailed s = do {
     (entry, s) \<leftarrow> sys (os_readdir OS dir) s;
     (case entry of
        None \<Rightarrow> Some (statusFailed, s)
      | Some name \<Rightarrow>
          if isDot name then removeIncomplete_loop OS path dir statusFailed s
          else do {
            let filepath = childPath path name;
            ((r, statbuf), s) \<leftarrow> sys (os_stat OS filepath) s;
            if r \<noteq> 0 then removeIncomplete_loop OS path dir statusFailed s
            else if S_ISDIR (st_mode statbuf) then do {
              (status, s) \<leftarrow> withDir OS filepath 0 (\<lambda>h. removeIncomplete_loop OS filepath h 0) s;
              let statusFailed = (if status < 0 then status else statusFailed);
              (n, s) \<leftarrow> isEmptyDir OS filepath s;
              (status, s) \<leftarrow> (if n = 0 then sys (os_rmdir OS filepath) s else Some (0, s));
              removeIncomplete_loop OS path dir (if n = 0 \<and> status < 0 then status else statusFailed) s
            } else do {
              (status, s) \<leftarrow> (if isIncomplete name then sys (os_unlink OS filepath) s else Some (0, s));
              removeIncomplete_loop OS path dir (if isIncomplete name \<and> status < 0 then status else statusFailed) s
            }
          })
   }"

definition do_removeIncompleteCaches :: "'w os \<Rightarrow> string \<Rightarrow> ('w, 'z) base_scheme \<Rightarrow> (int \<times> ('w, 'z) base_scheme) option" where
  "do_removeIncompleteCaches OS path s = withDir OS path 0 (\<lambda>h. removeIncomplete_loop OS path h 0) s"

definition do_removeAllIncompleteCaches :: "'w os \<Rightarrow> ('w, 'z) pstate_scheme \<Rightarrow> (int \<times> ('w, 'z) pstate_scheme) option" where
  "do_removeAllIncompleteCaches OS s = do {
     (status, s) \<leftarrow> do_removeIncompleteCaches OS (pcCachePath (PreloadConfig s)) s;
     Some (if status < 0 then status else 0, s)
   }"

section \<open>Threads\<close>

definition do_completeDownload ::
  "'w os \<Rightarrow> string \<Rightarrow> string \<Rightarrow> stat \<Rightarrow> ('w, 'z) base_scheme \<Rightarrow> (int \<times> ('w, 'z) base_scheme) option" where
  "do_completeDownload OS workPath cachePath stbuf s = do {
     (actime, s) \<leftarrow> currentSeconds OS s;
     (status, s) \<leftarrow> sys (os_utime OS workPath actime (st_mtime stbuf)) s;
     if status < 0 then Some (status, s)
     else do {
       (status, s) \<leftarrow> sys (os_rename OS workPath cachePath) s;
       Some (if status < 0 then status else 0, s)
     }
   }"

text \<open>The first source path of a \<open>rodsPathInp_t\<close> that was zeroed.\<close>

definition addSrcInPath :: "string \<Rightarrow> rodsPath_t" where
  "addSrcInPath inPath = zero_rodsPath\<lparr>rp_inPath := snd (rstrcpy [] inPath (int MAX_NAME_LEN))\<rparr>"

text \<open>Connecting and logging in, as \<open>_download\<close> and the upload of the write buffer do it.\<close>

definition connectLogin ::
  "'w irods \<Rightarrow> rodsEnv \<Rightarrow> ('w, 'z) base_scheme \<Rightarrow> ((int \<times> rcComm option) \<times> ('w, 'z) base_scheme) option" where
  "connectLogin API env s = do {
     ((conn, _), s) \<leftarrow> sys (rcConnect API) s;
     (case conn of
        None \<Rightarrow> Some ((- EPIPE, None), s)
      | Some c \<Rightarrow>
          if envUserName env \<noteq> PUBLIC_USER_NAME then do {
            (status, s) \<leftarrow> sys (clientLogin API c) s;
            if status \<noteq> 0 then do {
              (_, s) \<leftarrow> sys (rcDisconnect API c) s;
              Some ((status, None), s)
            } else Some ((0, Some c), s)
          } else Some ((0, Some c), s))
   }"

definition do_download ::
  "'w os \<Rightarrow> 'w irods \<Rightarrow> string \<Rightarrow> stat \<Rightarrow> ('w, 'z) pstate_scheme \<Rightarrow> (int \<times> ('w, 'z) pstate_scheme) option" where
  "do_download OS API path stbufIn s = do {
     let preloadCachePath = do_getCachePath path s;
     let preloadCacheWorkPath = do_getCacheWorkPath path s;
     (status, srcPath) \<leftarrow> parseRodsPath (addSrcInPath path) (Some (PreloadRodsEnv s));
     if status < 0 then Some (status, s)
     else do {
       ((status, destPath), s) \<leftarrow> parseLocalPath OS
          (zero_rodsPath\<lparr>rp_inPath := snd (rstrcpy [] preloadCacheWorkPath (int MAX_NAME_LEN))\<rparr>) s;
       if status < 0 then Some (status, s)
       else do {
         ((status, conn), s) \<leftarrow> connectLogin API (PreloadRodsEnv s) s;
         (case conn of
            None \<Rightarrow> Some (status, s)
          | Some c \<Rightarrow> do {
              (_, s) \<leftarrow> makeParentDirs OS preloadCachePath s;
              (status, s) \<leftarrow> sys (getUtil API (Some c) srcPath destPath) s;
              (_, s) \<leftarrow> sys (rcDisconnect API c) s;
              if status < 0 then Some (status, s)
              else do {
                s \<leftarrow> lockPreload s;
                (status, s) \<leftarrow> do_completeDownload OS preloadCacheWorkPath preloadCachePath stbufIn s;
                s \<leftarrow> unlockPreload s;
                Some (if status < 0 then status else 0, s)
              }
            })
       }
     }
   }"

text \<open>The end of a thread's body: its record leaves list, table and heap.\<close>

definition finishThread :: "preloadThreadData_t \<Rightarrow> ('w, 'z) pstate_scheme \<Rightarrow> ('w, 'z) pstate_scheme option" where
  "finishThread threadData s = do {
     s \<leftarrow> lockPreload s;
     info \<leftarrow> threadHeap s (tdThreadInfo threadData);
     let s = s\<lparr>threadHeap := (threadHeap s)(tdThreadInfo threadData \<mapsto> info\<lparr>ptRunning := PRELOAD_THREAD_IDLE\<rparr>)\<rparr>;
     let s = s\<lparr>PreloadThreads := remove1 threadData (PreloadThreads s)\<rparr>;
     l \<leftarrow> fl_listRemove2 (PreloadThreadList s) (tdThreadInfo threadData);
     let s = s\<lparr>PreloadThreadList := l\<rparr>;
     info \<leftarrow> threadHeap s (tdThreadInfo threadData);
     (_, t) \<leftarrow> fl_deleteFromHashTable (PreloadThreadTable s) (ptPath info);
     let s = s\<lparr>PreloadThreadTable := t, threadHeap := (threadHeap s)(tdThreadInfo threadData := None)\<rparr>;
     unlockPreload s
   }"

definition preloadThread ::
  "'w os \<Rightarrow> 'w irods \<Rightarrow> preloadThreadData_t \<Rightarrow> ('w, 'z) pstate_scheme \<Rightarrow> ('w, 'z) pstate_scheme option" where
  "preloadThread OS API threadData s = do {
     (status, s) \<leftarrow> do_download OS API (tdPath threadData) (tdStbuf threadData) s;
     finishThread threadData s
   }"

section \<open>Public functions\<close>

definition initPreload ::
  "'w os \<Rightarrow> preloadConfig_t \<Rightarrow> rodsEnv \<Rightarrow> ('w, 'z) pstate_scheme \<Rightarrow> (int \<times> ('w, 'z) pstate_scheme) option" where
  "initPreload OS preloadConfig myPreloadRodsEnv s = do {
     (_, s) \<leftarrow> getEmptySpace OS (pcCachePath preloadConfig) s;
     t1 \<leftarrow> fl_newHashTable True NUM_PRELOAD_THREAD_HASH_SLOT;
     t2 \<leftarrow> fl_newHashTable True NUM_PRELOAD_FILEHANDLE_HASH_SLOT;
     let s = s\<lparr>PreloadConfig := preloadConfig, PreloadRodsEnv := myPreloadRodsEnv, PreloadThreadTable := t1,
       PreloadFileHandleTable := t2, PreloadThreadList := fl_newList, PreloadFileHandleList := fl_newList,
       locks := (locks s)(PreloadLock := 0)\<rparr>;
     (_, s) \<leftarrow> do_preparePreloadCacheDir OS (pcCachePath preloadConfig) s;
     (_, s) \<leftarrow> (if pcClearCache preloadConfig \<noteq> 0 then do_removeAllCaches OS s else do_removeAllIncompleteCaches OS s);
     Some (0, s)
   }"

text \<open>\<open>pthread_join\<close>: when the thread has not ended its body runs now.\<close>

definition joinPreload :: "'w os \<Rightarrow> 'w irods \<Rightarrow> nat \<Rightarrow> ('w, 'z) pstate_scheme \<Rightarrow> ('w, 'z) pstate_scheme option" where
  "joinPreload OS API threadInfo s =
     (case find (\<lambda>d. tdThreadInfo d = threadInfo) (PreloadThreads s) of
        None \<Rightarrow> Some s
      | Some threadData \<Rightarrow> preloadThread OS API threadData s)"

fun waitPreload_loop :: "'w os \<Rightarrow> 'w irods \<Rightarrow> nat \<Rightarrow> ('w, 'z) pstate_scheme \<Rightarrow> ('w, 'z) pstate_scheme option" where
  "waitPreload_loop OS API 0 s = Some s"
| "waitPreload_loop OS API (Suc n) s = do {
     s \<leftarrow> lockPreload s;
     (threadInfo, l) \<leftarrow> fl_removeFirstElementOfConcurrentList (PreloadThreadList s);
     let s = s\<lparr>PreloadThreadList := l\<rparr>;
     s \<leftarrow> (case threadInfo of
        None \<Rightarrow> unlockPreload s
      | Some a \<Rightarrow> do {
          _ \<leftarrow> threadHeap s a;
          s \<leftarrow> unlockPreload s;
          s \<leftarrow> joinPreload OS API a s;
          _ \<leftarrow> threadHeap s a;
          Some (s\<lparr>threadHeap := (threadHeap s)(a := None)\<rparr>)
        });
     waitPreload_loop OS API n s
   }"

definition waitPreloadJobs :: "'w os \<Rightarrow> 'w irods \<Rightarrow> ('w, 'z) pstate_scheme \<Rightarrow> (int \<times> ('w, 'z) pstate_scheme) option" where
  "waitPreloadJobs OS API s = do {
     s \<leftarrow> waitPreload_loop OS API (nat (fl_listSize (PreloadThreadList s))) s;
     Some (0, s)
   }"

fun freeHandles_loop :: "nat \<Rightarrow> ('w, 'z) pstate_scheme \<Rightarrow> ('w, 'z) pstate_scheme option" where
  "freeHandles_loop 0 s = Some s"
| "freeHandles_loop (Suc n) s = do {
     (info, l) \<leftarrow> fl_removeFirstElementOfConcurrentList (PreloadFileHandleList s);
     let s = s\<lparr>PreloadFileHandleList := l\<rparr>;
     s \<leftarrow> (case info of
        None \<Rightarrow> Some s
      | Some a \<Rightarrow> do { _ \<leftarrow> handleHeap s a; Some (s\<lparr>handleHeap := (handleHeap s)(a := None)\<rparr>) });
     freeHandles_loop n s
   }"

text \<open>The lists and the tables are deleted with all their nodes; deleting a table frees no value.\<close>

definition uninitPreload :: "'w os \<Rightarrow> preloadConfig_t \<Rightarrow> ('w, 'z) pstate_scheme \<Rightarrow> (int \<times> ('w, 'z) pstate_scheme) option" where
  "uninitPreload OS preloadConfig s = do {
     (_, s) \<leftarrow> (if pcClearCache preloadConfig \<noteq> 0 then do_removeAllCaches OS s else do_removeAllIncompleteCaches OS s);
     s \<leftarrow> freeHandles_loop (nat (fl_listSize (PreloadFileHandleList s))) s;
     l1 \<leftarrow> fl_clearList (PreloadThreadList s);
     l2 \<leftarrow> fl_clearList (PreloadFileHandleList s);
     let s = s\<lparr>PreloadThreadList := l1, PreloadFileHandleList := l2,
       PreloadThreadTable := (PreloadThreadTable s)\<lparr>buckets := [], hsize := 0\<rparr>,
       PreloadFileHandleTable := (PreloadFileHandleTable s)\<lparr>buckets := [], hsize := 0\<rparr>\<rparr>;
     Some (0, s)
   }"

definition isPreloadEnabled :: "('w, 'z) pstate_scheme \<Rightarrow> int" where
  "isPreloadEnabled s = (if pcPreload (PreloadConfig s) = 0 then -1 else 0)"

text \<open>The limits of \<open>preloadFile\<close>: room for the file below the configured maximum, and on the disk.\<close>

definition makeRoomInCache :: "'w os \<Rightarrow> int \<Rightarrow> ('w, 'z) pstate_scheme \<Rightarrow> (int \<times> ('w, 'z) pstate_scheme) option" where
  "makeRoomInCache OS sz s =
     (if pcCacheMaxSize (PreloadConfig s) > 0 then do {
        (cacheSize, s) \<leftarrow> getFileSizeRecursive OS (pcCachePath (PreloadConfig s)) s;
        if cacheSize + sz > pcCacheMaxSize (PreloadConfig s)
        then do_evictOldCache OS (cacheSize + sz - pcCacheMaxSize (PreloadConfig s)) s
        else Some (0, s)
      } else Some (0, s))"

definition makeRoomOnDisk :: "'w os \<Rightarrow> int \<Rightarrow> ('w, 'z) pstate_scheme \<Rightarrow> (int \<times> ('w, 'z) pstate_scheme) option" where
  "makeRoomOnDisk OS sz s = do {
     (freeSize, s) \<leftarrow> getEmptySpace OS (pcCachePath (PreloadConfig s)) s;
     if freeSize < sz then do_evictOldCache OS (sz - freeSize) s else Some (0, s)
   }"

text \<open>A new thread record enters list and table, and the thread is started. When \<open>pthread_create\<close> fails
  there is no thread; list and table keep the record.\<close>

definition startPreload :: "'w os \<Rightarrow> string \<Rightarrow> stat \<Rightarrow> ('w, 'z) pstate_scheme \<Rightarrow> (int \<times> ('w, 'z) pstate_scheme) option" where
  "startPreload OS iRODSPath stbuf s = do {
     let a = preloadFresh s;
     let s = s\<lparr>threadHeap := (threadHeap s)(a \<mapsto> \<lparr>ptPath = iRODSPath, ptRunning = PRELOAD_THREAD_RUNNING\<rparr>), preloadFresh := Suc a\<rparr>;
     l \<leftarrow> fl_listAppend (PreloadThreadList s) a;
     (_, t) \<leftarrow> fl_insertIntoHashTable True (PreloadThreadTable s) iRODSPath a;
     let s = s\<lparr>PreloadThreadList := l, PreloadThreadTable := t\<rparr>;
     (status, s) \<leftarrow> sys (os_pthread_create OS) s;
     Some (status, if status = 0
       then s\<lparr>PreloadThreads := PreloadThreads s @ [\<lparr>tdPath = iRODSPath, tdStbuf = stbuf, tdThreadInfo = a\<rparr>]\<rparr> else s)
   }"

text \<open>The part of \<open>preloadFile\<close> for a path that no thread is fetching; \<open>PreloadLock\<close> is held at its start.
  With a valid copy it unlocks twice.\<close>

definition preloadUnlessCached ::
  "'w os \<Rightarrow> string \<Rightarrow> stat \<Rightarrow> ('w, 'z) pstate_scheme \<Rightarrow> (int \<times> ('w, 'z) pstate_scheme) option" where
  "preloadUnlessCached OS iRODSPath stbuf s = do {
     (valid, s) \<leftarrow> do_hasValidCache OS iRODSPath stbuf s;
     if valid = 0 then do { s \<leftarrow> unlockPreload s; s \<leftarrow> unlockPreload s; Some (0, s) }
     else do {
       (_, s) \<leftarrow> do_invalidateCache OS iRODSPath s;
       if st_size stbuf < pcPreloadMinSize (PreloadConfig s) then do { s \<leftarrow> unlockPreload s; Some (0, s) }
       else if pcCacheMaxSize (PreloadConfig s) > 0 \<and> st_size stbuf > pcCacheMaxSize (PreloadConfig s)
       then do { s \<leftarrow> unlockPreload s; Some (0, s) }
       else do {
         (status, s) \<leftarrow> makeRoomInCache OS (st_size stbuf) s;
         if status < 0 then do { s \<leftarrow> unlockPreload s; Some (status, s) }
         else do {
           (status, s) \<leftarrow> makeRoomOnDisk OS (st_size stbuf) s;
           if status < 0 then do { s \<leftarrow> unlockPreload s; Some (status, s) }
           else do {
             (status, s) \<leftarrow> startPreload OS iRODSPath stbuf s;
             s \<leftarrow> unlockPreload s;
             Some (status, s)
           }
         }
       }
     }
   }"

definition preloadFile :: "'w os \<Rightarrow> string \<Rightarrow> stat \<Rightarrow> ('w, 'z) pstate_scheme \<Rightarrow> (int \<times> ('w, 'z) pstate_scheme) option" where
  "preloadFile OS path stbuf = withiRODSPath path (\<lambda>iRODSPath s. do {
     s \<leftarrow> lockPreload s;
     existing \<leftarrow> fl_lookupFromHashTable (PreloadThreadTable s) iRODSPath;
     if existing \<noteq> None then do { s \<leftarrow> unlockPreload s; Some (0, s) }
     else preloadUnlessCached OS iRODSPath stbuf s
   })"

definition lockedPreload ::
  "(('w, 'z) pstate_scheme \<Rightarrow> (int \<times> ('w, 'z) pstate_scheme) option) \<Rightarrow>
   ('w, 'z) pstate_scheme \<Rightarrow> (int \<times> ('w, 'z) pstate_scheme) option" where
  "lockedPreload f s = do {
     s \<leftarrow> lockPreload s;
     (status, s) \<leftarrow> f s;
     s \<leftarrow> unlockPreload s;
     Some (status, s)
   }"

definition invalidatePreloadedFile :: "'w os \<Rightarrow> string \<Rightarrow> ('w, 'z) pstate_scheme \<Rightarrow> (int \<times> ('w, 'z) pstate_scheme) option" where
  "invalidatePreloadedFile OS path =
     withiRODSPath path (\<lambda>iRODSPath. lockedPreload (do_invalidateCache OS iRODSPath))"

definition renamePreloadedFile :: "'w os \<Rightarrow> string \<Rightarrow> string \<Rightarrow> ('w, 'z) pstate_scheme \<Rightarrow> (int \<times> ('w, 'z) pstate_scheme) option" where
  "renamePreloadedFile OS fromPath toPath =
     withiRODSPath fromPath (\<lambda>fromiRODSPath. withiRODSPath toPath (\<lambda>toiRODSPath.
       lockedPreload (do_renameCache OS fromiRODSPath toiRODSPath)))"

definition truncatePreloadedFile :: "'w os \<Rightarrow> string \<Rightarrow> int \<Rightarrow> ('w, 'z) pstate_scheme \<Rightarrow> (int \<times> ('w, 'z) pstate_scheme) option" where
  "truncatePreloadedFile OS path sz =
     withiRODSPath path (\<lambda>iRODSPath. lockedPreload (do_truncateCache OS iRODSPath sz))"

definition isPreloadedFile :: "'w os \<Rightarrow> string \<Rightarrow> ('w, 'z) pstate_scheme \<Rightarrow> (int \<times> ('w, 'z) pstate_scheme) option" where
  "isPreloadedFile OS path = withiRODSPath path (\<lambda>iRODSPath. lockedPreload (do_hasCache OS iRODSPath))"

definition isFilePreloading :: "string \<Rightarrow> ('w, 'z) pstate_scheme \<Rightarrow> (int \<times> ('w, 'z) pstate_scheme) option" where
  "isFilePreloading path = withiRODSPath path (\<lambda>iRODSPath. lockedPreload (\<lambda>s. do {
     threadInfo \<leftarrow> fl_lookupFromHashTable (PreloadThreadTable s) iRODSPath;
     Some (if threadInfo \<noteq> None then 0 else -1, s)
   }))"

text \<open>Opening the copy of a path, where there is one.\<close>

definition openCache :: "'w os \<Rightarrow> string \<Rightarrow> ('w, 'z) pstate_scheme \<Rightarrow> (int \<times> ('w, 'z) pstate_scheme) option" where
  "openCache OS iRODSPath s = do {
     (st, s) \<leftarrow> do_hasCache OS iRODSPath s;
     if st \<ge> 0 then sys (os_open OS (do_getCachePath iRODSPath s) O_RDONLY 0) s else Some (-1, s)
   }"

definition openPreloadedFile :: "'w os \<Rightarrow> string \<Rightarrow> ('w, 'z) pstate_scheme \<Rightarrow> (int \<times> ('w, 'z) pstate_scheme) option" where
  "openPreloadedFile OS path = withiRODSPath path (\<lambda>iRODSPath. lockedPreload (\<lambda>s. do {
     info \<leftarrow> fl_lookupFromHashTable (PreloadFileHandleTable s) iRODSPath;
     (case info of
        Some a \<Rightarrow> do {
          h \<leftarrow> handleHeap s a;
          if phHandle h > 0 then Some (phHandle h, s)
          else do {
            (desc, s) \<leftarrow> openCache OS iRODSPath s;
            Some (desc, if desc > 0 then s\<lparr>handleHeap := (handleHeap s)(a \<mapsto> h\<lparr>phHandle := desc\<rparr>)\<rparr> else s)
          }
        }
      | None \<Rightarrow> do {
          (desc, s) \<leftarrow> openCache OS iRODSPath s;
          if desc > 0 then do {
            let a = preloadFresh s;
            let s = s\<lparr>handleHeap := (handleHeap s)(a \<mapsto> \<lparr>phPath = iRODSPath, phHandle = desc\<rparr>), preloadFresh := Suc a\<rparr>;
            l \<leftarrow> fl_listAppend (PreloadFileHandleList s) a;
            (_, t) \<leftarrow> fl_insertIntoHashTable True (PreloadFileHandleTable s) iRODSPath a;
            Some (desc, s\<lparr>PreloadFileHandleList := l, PreloadFileHandleTable := t\<rparr>)
          } else Some (desc, s)
        })
   }))"

definition readPreloadedFile ::
  "'w os \<Rightarrow> int \<Rightarrow> int \<Rightarrow> int \<Rightarrow> ('w, 'z) pstate_scheme \<Rightarrow> ((int \<times> string) \<times> ('w, 'z) pstate_scheme) option" where
  "readPreloadedFile OS fileDesc sz offset s = do {
     s \<leftarrow> lockPreload s;
     (seek_status, s) \<leftarrow> sys (os_lseek OS fileDesc offset) s;
     if seek_status \<noteq> offset then do { s \<leftarrow> unlockPreload s; Some ((toInt32 seek_status, []), s) }
     else do {
       (r, s) \<leftarrow> sys (os_read OS fileDesc sz) s;
       s \<leftarrow> unlockPreload s;
       Some (r, s)
     }
   }"

definition closePreloadedFile :: "'w os \<Rightarrow> string \<Rightarrow> ('w, 'z) pstate_scheme \<Rightarrow> (int \<times> ('w, 'z) pstate_scheme) option" where
  "closePreloadedFile OS path s = do {
     (status, iRODSPath) \<leftarrow> preload_getiRODSPath path s;
     if status < 0 then Some (status, s)
     else do {
       s \<leftarrow> lockPreload s;
       info \<leftarrow> fl_lookupFromHashTable (PreloadFileHandleTable s) iRODSPath;
       s \<leftarrow> (case info of
          None \<Rightarrow> Some s
        | Some a \<Rightarrow> do {
            h \<leftarrow> handleHeap s a;
            s \<leftarrow> (if phHandle h > 0 then do {
                     (_, s) \<leftarrow> sys (os_close OS (phHandle h)) s;
                     Some (s\<lparr>handleHeap := (handleHeap s)(a \<mapsto> h\<lparr>phHandle := -1\<rparr>)\<rparr>)
                   } else Some s);
            l \<leftarrow> fl_listRemove2 (PreloadFileHandleList s) a;
            (_, t) \<leftarrow> fl_deleteFromHashTable (PreloadFileHandleTable s) iRODSPath;
            Some (s\<lparr>PreloadFileHandleList := l, PreloadFileHandleTable := t, handleHeap := (handleHeap s)(a := None)\<rparr>)
          });
       s \<leftarrow> unlockPreload s;
       Some (status, s)
     }
   }"

definition moveToPreloadedDir :: "'w os \<Rightarrow> string \<Rightarrow> string \<Rightarrow> ('w, 'z) pstate_scheme \<Rightarrow> (int \<times> ('w, 'z) pstate_scheme) option" where
  "moveToPreloadedDir OS path iRODSPath s = do {
     let preloadCachePath = do_getCachePath iRODSPath s;
     (_, s) \<leftarrow> makeParentDirs OS preloadCachePath s;
     (status, s) \<leftarrow> sys (os_rename OS path preloadCachePath) s;
     if status < 0 then Some (status, s)
     else do {
       (status, s) \<leftarrow> makeRoomInCache OS 0 s;
       Some (if status < 0 then status else 0, s)
     }
   }"

section \<open>The invariant\<close>

text \<open>Both registries hold exactly the records of their heap, one per path, and every thread that has not
  ended still has its record, under its own path.\<close>

definition pre_inv :: "('w, 'z) pstate_scheme \<Rightarrow> bool" where
  "pre_inv s \<longleftrightarrow>
     freg.reg (PreloadThreadTable s) (PreloadThreadList s) (\<lambda>a. map_option ptPath (threadHeap s a)) \<and>
     freg.reg (PreloadFileHandleTable s) (PreloadFileHandleList s) (\<lambda>a. map_option phPath (handleHeap s a)) \<and>
     (\<forall>a. threadHeap s a \<noteq> None \<or> handleHeap s a \<noteq> None \<longrightarrow> a < preloadFresh s) \<and>
     distinct (map tdThreadInfo (PreloadThreads s)) \<and>
     (\<forall>d \<in> set (PreloadThreads s). \<exists>i. threadHeap s (tdThreadInfo d) = Some i \<and> ptPath i = tdPath d)"

lemma pre_inv_upd [simp]:
  "pre_inv (s\<lparr>world := w\<rparr>) = pre_inv s" "pre_inv (s\<lparr>locks := k\<rparr>) = pre_inv s"
  by (simp_all add: pre_inv_def)

lemma pre_inv_same: "sameButWorld s s' \<Longrightarrow> pre_inv s \<Longrightarrow> pre_inv s'"
  by (auto simp: sameButWorld_def)

text \<open>Every operation on the files of the cache changes the world alone.\<close>

lemma evict_loop_world [world_only]:
  assumes "sameButWorld s0 s"
  shows "worldOnly (evict_loop OS need removed s) s0"
proof (rule worldOnly_from [OF _ assms])
  fix r s' assume "evict_loop OS need removed s = Some (r, s')"
  then have "sameButWorld s (snd (r, s'))"
  proof (rule evict_loop.raw_induct [where P = "\<lambda>_ _ _ s y. sameButWorld s (snd y)", rotated], goal_cases)
    case (1 f OS need removed s y)
    have sub: "sameButWorld s0 s \<Longrightarrow> worldOnly (f OS need removed s) s0" for removed s s0
      by (rule worldOnly_from) (use 1(1) in fastforce)
    have "worldOnly (Some y) s"
      unfolding 1(2) [symmetric] do_findOldestCache_def by (auto intro!: world_only sub split: prod.splits)
    then show ?case by (cases y) (simp add: worldOnly_def)
  qed
  then show "sameButWorld s s'" by simp
qed

lemma removeIncomplete_loop_world [world_only]:
  assumes "sameButWorld s0 s"
  shows "worldOnly (removeIncomplete_loop OS p dir sf s) s0"
proof (rule worldOnly_from [OF _ assms])
  fix r s' assume "removeIncomplete_loop OS p dir sf s = Some (r, s')"
  then have "sameButWorld s (snd (r, s'))"
  proof (rule removeIncomplete_loop.raw_induct [where P = "\<lambda>_ _ _ _ s y. sameButWorld s (snd y)", rotated], goal_cases)
    case (1 f OS p dir sf s y)
    have sub: "sameButWorld s0 s \<Longrightarrow> worldOnly (f OS p dir sf s) s0" for p dir sf s s0
      by (rule worldOnly_from) (use 1(1) in fastforce)
    have "worldOnly (Some y) s"
      unfolding 1(2) [symmetric] by (auto intro!: world_only sub split: prod.splits)
    then show ?case by (cases y) (simp add: worldOnly_def)
  qed
  then show "sameButWorld s s'" by simp
qed

lemma cache_files_world [world_only]:
  assumes "sameButWorld s0 s"
  shows "worldOnly (do_hasCache OS p s) s0" "worldOnly (do_hasValidCache OS p sb s) s0"
    "worldOnly (do_invalidateCache OS p s) s0" "worldOnly (do_evictOldCache OS n s) s0"
    "worldOnly (do_preparePreloadCacheDir OS p s) s0" "worldOnly (do_renameCache OS p q s) s0"
    "worldOnly (do_truncateCache OS p n s) s0" "worldOnly (do_removeAllCaches OS s) s0"
    "worldOnly (do_removeAllIncompleteCaches OS s) s0" "worldOnly (do_completeDownload OS p q sb s) s0"
    "worldOnly (connectLogin API E s) s0" "worldOnly (openCache OS p s) s0"
  unfolding do_hasCache_def do_hasValidCache_def do_invalidateCache_def do_evictOldCache_def
    do_preparePreloadCacheDir_def do_renameCache_def do_truncateCache_def do_removeAllCaches_def
    do_removeAllIncompleteCaches_def do_removeIncompleteCaches_def do_completeDownload_def connectLogin_def openCache_def
  using assms by (auto intro!: world_only split: prod.splits)

lemma makeRoom_world [world_only]:
  assumes "sameButWorld s0 s"
  shows "worldOnly (makeRoomInCache OS n s) s0" "worldOnly (makeRoomOnDisk OS n s) s0"
  unfolding makeRoomInCache_def makeRoomOnDisk_def using assms by (auto intro!: world_only split: prod.splits)

lemma worldOnly_wlp:
  "worldOnly m s \<Longrightarrow> pre_inv s \<Longrightarrow> (\<And>r s'. sameButWorld s s' \<Longrightarrow> pre_inv s' \<Longrightarrow> Q (r, s')) \<Longrightarrow> wlpo m Q"
  by (auto simp: wlpo_def worldOnly_def) (metis pre_inv_same)

abbreviation threadPaths :: "('w, 'z) pstate_scheme \<Rightarrow> nat \<rightharpoonup> string" where
  "threadPaths s \<equiv> \<lambda>a. map_option ptPath (threadHeap s a)"

abbreviation handlePaths :: "('w, 'z) pstate_scheme \<Rightarrow> nat \<rightharpoonup> string" where
  "handlePaths s \<equiv> \<lambda>a. map_option phPath (handleHeap s a)"

text \<open>The records leave with their address, and enter at a fresh one.\<close>

lemma map_heap_upd:
  "(\<lambda>a. map_option f ((h(b := None)) a)) = (\<lambda>a. map_option f (h a))(b := None)"
  "(\<lambda>a. map_option f ((h(b \<mapsto> r)) a)) = (\<lambda>a. map_option f (h a))(b \<mapsto> f r)"
  by (auto simp: fun_eq_iff)

lemma pre_invD:
  assumes "pre_inv s"
  shows "freg.reg (PreloadThreadTable s) (PreloadThreadList s) (threadPaths s)"
    "freg.reg (PreloadFileHandleTable s) (PreloadFileHandleList s) (handlePaths s)"
    "threadHeap s (preloadFresh s) = None" "handleHeap s (preloadFresh s) = None"
    "distinct (map tdThreadInfo (PreloadThreads s))"
  using assms unfolding pre_inv_def by fastforce+

lemma pre_inv_order [simp]: "pre_inv (s\<lparr>world := w, PreloadThreads := ts\<rparr>) = pre_inv (s\<lparr>PreloadThreads := ts\<rparr>)"
  by (simp add: pre_inv_def)

lemma threadLookup:
  assumes "pre_inv s"
  shows "\<exists>r. fl_lookupFromHashTable (PreloadThreadTable s) k = Some r \<and> (r = None \<longleftrightarrow> k \<notin> ran (threadPaths s)) \<and>
     (\<forall>a. r = Some a \<longleftrightarrow> threadPaths s a = Some k)"
  by (rule freg.reg_lookup [OF pre_invD(1) [OF assms]])

lemma handleLookup:
  assumes "pre_inv s"
  shows "\<exists>r. fl_lookupFromHashTable (PreloadFileHandleTable s) k = Some r \<and> (r = None \<longleftrightarrow> k \<notin> ran (handlePaths s)) \<and>
     (\<forall>a. r = Some a \<longleftrightarrow> handlePaths s a = Some k)"
  by (rule freg.reg_lookup [OF pre_invD(2) [OF assms]])

lemma startPreload_wp:
  assumes "pre_inv s" "k \<notin> ran (threadPaths s)"
  shows "wpo (startPreload OS k sb s) (\<lambda>(r, s'). pre_inv s' \<and>
     threadPaths s' = (threadPaths s)(preloadFresh s \<mapsto> k) \<and> threadHeap s (preloadFresh s) = None \<and>
     PreloadThreads s' = PreloadThreads s @ (if r = 0 then [\<lparr>tdPath = k, tdStbuf = sb, tdThreadInfo = preloadFresh s\<rparr>] else []) \<and>
     PreloadRodsEnv s' = PreloadRodsEnv s \<and> locks s' = locks s)"
proof -
  let ?a = "preloadFresh s" and ?i = "\<lparr>ptPath = k, ptRunning = PRELOAD_THREAD_RUNNING\<rparr>"
  note fresh = pre_invD(3,4) [OF assms(1)]
  have "?a \<notin> dom (threadPaths s)" using fresh(1) by auto
  from freg.reg_insert [OF pre_invD(1) [OF assms(1)] assms(2) this] obtain l r t where lt: "fl_listAppend (PreloadThreadList s) ?a = Some l"
    "fl_insertIntoHashTable True (PreloadThreadTable s) k ?a = Some (r, t)" "freg.reg t l ((threadPaths s)(?a \<mapsto> k))"
    by (auto simp: wpo_def)
  obtain st w where st: "os_pthread_create OS (world s) = (st, w)" by fastforce
  have reg: "freg.reg t l (\<lambda>a. map_option ptPath (((threadHeap s)(?a \<mapsto> ?i)) a))" using lt(3) by (simp add: map_heap_upd del: fun_upd_apply)
  have old: "\<exists>i. ((threadHeap s)(?a \<mapsto> ?i)) (tdThreadInfo d) = Some i \<and> ptPath i = tdPath d" "tdThreadInfo d \<noteq> ?a"
    if "d \<in> set (PreloadThreads s)" for d
    using assms(1) that fresh(1) unfolding pre_inv_def by fastforce+
  have lt': "a < Suc ?a" if "((threadHeap s)(?a \<mapsto> ?i)) a \<noteq> None \<or> handleHeap s a \<noteq> None" for a
    using assms(1) that unfolding pre_inv_def by (cases "a = ?a") (auto simp: less_Suc_eq)
  note d = pre_invD(5) [OF assms(1)] and hr = pre_invD(2) [OF assms(1)]
  let ?s1 = "s\<lparr>threadHeap := (threadHeap s)(?a \<mapsto> ?i), preloadFresh := Suc ?a, PreloadThreadList := l, PreloadThreadTable := t\<rparr>"
  have i1: "pre_inv ?s1" using reg hr old lt' d by (simp add: pre_inv_def del: fun_upd_apply)
  have i2: "pre_inv (?s1\<lparr>PreloadThreads := PreloadThreads s @ [\<lparr>tdPath = k, tdStbuf = sb, tdThreadInfo = ?a\<rparr>]\<rparr>)"
    unfolding pre_inv_def using reg hr old lt' d by (auto simp del: fun_upd_apply) (auto simp: image_iff)
  show ?thesis
    unfolding startPreload_def using i1 i2 lt(1,2) fresh(1) by (auto simp: sys_def st Let_def)
qed

lemma finishThread_wp:
  assumes "pre_inv s" "d \<in> set (PreloadThreads s)"
  shows "wpo (finishThread d s) (\<lambda>s'. pre_inv s' \<and> threadPaths s' = (threadPaths s)(tdThreadInfo d := None) \<and>
     threadPaths s (tdThreadInfo d) = Some (tdPath d) \<and> threadHeap s' (tdThreadInfo d) = None \<and>
     PreloadThreads s' = remove1 d (PreloadThreads s) \<and> PreloadRodsEnv s' = PreloadRodsEnv s \<and> locks s' = locks s)"
proof -
  let ?a = "tdThreadInfo d"
  from assms obtain i where i: "threadHeap s ?a = Some i" "ptPath i = tdPath d" unfolding pre_inv_def by blast
  note reg = pre_invD(1) [OF assms(1)]
  from freg.reg_delete [OF reg, of ?a "tdPath d"] i obtain l r t where
    lt: "fl_listRemove2 (PreloadThreadList s) ?a = Some l" "fl_deleteFromHashTable (PreloadThreadTable s) (tdPath d) = Some (r, t)"
      "freg.reg t l ((threadPaths s)(?a := None))"
    by (auto simp: wpo_def)
  have reg': "freg.reg t l (\<lambda>a. map_option ptPath (((threadHeap s)(?a := None)) a))" using lt(3) by (simp add: map_heap_upd del: fun_upd_apply)
  have others: "tdThreadInfo e \<noteq> ?a" if "e \<in> set (remove1 d (PreloadThreads s))" for e
  proof
    have "distinct (map tdThreadInfo (PreloadThreads s))" using assms(1) by (simp add: pre_inv_def)
    then have "distinct (PreloadThreads s)" "inj_on tdThreadInfo (set (PreloadThreads s))" by (auto simp: distinct_map)
    moreover assume "tdThreadInfo e = ?a"
    ultimately show False using that assms(2) by (auto simp: inj_on_def)
  qed
  have "distinct (map tdThreadInfo (remove1 d (PreloadThreads s)))"
    using assms(1) by (auto simp: pre_inv_def distinct_map intro: inj_on_subset)
  moreover have "\<exists>i. ((threadHeap s)(?a := None)) (tdThreadInfo e) = Some i \<and> ptPath i = tdPath e"
    if "e \<in> set (remove1 d (PreloadThreads s))" for e
    using others [OF that] assms(1) that notin_set_remove1 [of e "PreloadThreads s" d] unfolding pre_inv_def by auto
  moreover have "((threadHeap s)(?a := None)) a \<noteq> None \<or> handleHeap s a \<noteq> None \<Longrightarrow> a < preloadFresh s" for a
    using assms(1) by (auto simp: pre_inv_def split: if_splits)
  moreover note pre_invD(2) [OF assms(1)]
  ultimately have i1: "pre_inv (s\<lparr>PreloadThreads := remove1 d (PreloadThreads s), PreloadThreadList := l, PreloadThreadTable := t,
      threadHeap := (threadHeap s)(?a := None)\<rparr>)"
    unfolding pre_inv_def using reg' by (simp del: fun_upd_apply)
  show ?thesis
    unfolding finishThread_def lockPreload_def unlockPreload_def
    using i1 lt(1,2) i
    by (simp add: rec_lock_def rec_unlock_def Let_def pre_inv_def del: fun_upd_apply) (auto simp: fun_eq_iff)
qed

section \<open>Opening and closing a copy\<close>

definition openHandle :: "('w, 'z) pstate_scheme \<Rightarrow> string \<Rightarrow> int \<Rightarrow> bool" where
  "openHandle s k fd \<longleftrightarrow> (\<exists>a h. handleHeap s a = Some h \<and> phPath h = k \<and> phHandle h = fd \<and> fd > 0)"

lemma wpo_of_eq: "m = Some x \<Longrightarrow> wpo m Q = Q x"
  by simp

lemma world_run:
  assumes "worldOnly m s" "wpo m (\<lambda>_. True)"
  shows "\<exists>r w. m = Some (r, s\<lparr>world := w\<rparr>)"
  using assms by (auto simp: worldOnly_def sameButWorld_def wpo_def)

lemma openCache_returns: "\<exists>r w. openCache OS k s = Some (r, s\<lparr>world := w\<rparr>)"
  by (rule world_run) (auto intro!: world_only simp: openCache_def do_hasCache_def sys_def split: prod.splits)

text \<open>A record whose path stays is no change to the registry.\<close>

lemma pre_inv_setHandle:
  assumes "pre_inv s" "handleHeap s a = Some h" "phPath h' = phPath h"
  shows "pre_inv (s\<lparr>handleHeap := (handleHeap s)(a \<mapsto> h')\<rparr>)"
proof -
  have "(\<lambda>b. map_option phPath (((handleHeap s)(a \<mapsto> h')) b)) = handlePaths s" using assms(2,3) by (auto simp: fun_eq_iff)
  with assms show ?thesis by (auto simp: pre_inv_def)
qed

lemma pre_inv_addHandle:
  assumes "pre_inv s" "k \<notin> ran (handlePaths s)"
  shows "\<exists>l r t. fl_listAppend (PreloadFileHandleList s) (preloadFresh s) = Some l \<and>
     fl_insertIntoHashTable True (PreloadFileHandleTable s) k (preloadFresh s) = Some (r, t) \<and>
     pre_inv (s\<lparr>handleHeap := (handleHeap s)(preloadFresh s \<mapsto> \<lparr>phPath = k, phHandle = fd\<rparr>), preloadFresh := Suc (preloadFresh s),
       PreloadFileHandleList := l, PreloadFileHandleTable := t\<rparr>)"
proof -
  let ?a = "preloadFresh s" and ?h = "\<lparr>phPath = k, phHandle = fd\<rparr>"
  have "?a \<notin> dom (handlePaths s)" using pre_invD(4) [OF assms(1)] by auto
  from freg.reg_insert [OF pre_invD(2) [OF assms(1)] assms(2) this] obtain l r t where
    lt: "fl_listAppend (PreloadFileHandleList s) ?a = Some l" "fl_insertIntoHashTable True (PreloadFileHandleTable s) k ?a = Some (r, t)"
      "freg.reg t l ((handlePaths s)(?a \<mapsto> k))"
    by (auto simp: wpo_def)
  have reg: "freg.reg t l (\<lambda>a. map_option phPath (((handleHeap s)(?a \<mapsto> ?h)) a))" using lt(3) by (simp add: map_heap_upd del: fun_upd_apply)
  have "threadHeap s a \<noteq> None \<or> ((handleHeap s)(?a \<mapsto> ?h)) a \<noteq> None \<Longrightarrow> a < Suc ?a" for a
    using assms(1) unfolding pre_inv_def by (cases "a = ?a") (auto simp: less_Suc_eq)
  with assms(1) reg show ?thesis using lt(1,2) unfolding pre_inv_def by (auto simp del: fun_upd_apply)
qed

lemma pre_inv_rmHandle:
  assumes "pre_inv s" "handlePaths s a = Some k"
  shows "\<exists>l r t. fl_listRemove2 (PreloadFileHandleList s) a = Some l \<and>
     fl_deleteFromHashTable (PreloadFileHandleTable s) k = Some (r, t) \<and>
     pre_inv (s\<lparr>PreloadFileHandleList := l, PreloadFileHandleTable := t, handleHeap := (handleHeap s)(a := None)\<rparr>)"
proof -
  from freg.reg_delete [OF pre_invD(2) [OF assms(1)] assms(2)] obtain l r t where
    lt: "fl_listRemove2 (PreloadFileHandleList s) a = Some l" "fl_deleteFromHashTable (PreloadFileHandleTable s) k = Some (r, t)"
      "freg.reg t l ((handlePaths s)(a := None))"
    by (auto simp: wpo_def)
  have reg: "freg.reg t l (\<lambda>b. map_option phPath (((handleHeap s)(a := None)) b))" using lt(3) by (simp add: map_heap_upd del: fun_upd_apply)
  have "threadHeap s b \<noteq> None \<or> ((handleHeap s)(a := None)) b \<noteq> None \<Longrightarrow> b < preloadFresh s" for b
    using assms(1) unfolding pre_inv_def by (auto split: if_splits)
  with assms(1) reg show ?thesis using lt(1,2) unfolding pre_inv_def by (auto simp del: fun_upd_apply)
qed

lemma openPreloadedFile_wp:
  assumes "pre_inv s" "preload_getiRODSPath path s = Some (sc, k)" "0 \<le> sc"
  shows "wpo (openPreloadedFile OS path s) (\<lambda>(r, s'). pre_inv s' \<and> (r > 0 \<longrightarrow> openHandle s' k r) \<and>
     (\<forall>fd. openHandle s k fd \<longrightarrow> r = fd \<and> s' = s) \<and>
     locks s' = locks s \<and> PreloadRodsEnv s' = PreloadRodsEnv s \<and> PreloadThreads s' = PreloadThreads s \<and> threadHeap s' = threadHeap s)"
proof -
  let ?s = "s\<lparr>locks := (locks s)(PreloadLock := Suc (locks s PreloadLock))\<rparr>"
  have p: "pre_inv ?s" using assms(1) by simp
  obtain f where f: "fl_lookupFromHashTable (PreloadFileHandleTable s) k = Some f" "f = None \<longleftrightarrow> k \<notin> ran (handlePaths s)"
    "\<And>a. f = Some a \<longleftrightarrow> handlePaths s a = Some k" using handleLookup [OF assms(1)] by blast
  obtain r w where run: "openCache OS k ?s = Some (r, ?s\<lparr>world := w\<rparr>)" using openCache_returns [of OS k ?s] by auto
  show ?thesis
  proof (cases f)
    case None
    then have no: "\<not> openHandle s k fd" for fd using f(2) by (auto simp: openHandle_def ran_def)
    obtain l q t where lt: "fl_listAppend (PreloadFileHandleList s) (preloadFresh s) = Some l"
       "fl_insertIntoHashTable True (PreloadFileHandleTable s) k (preloadFresh s) = Some (q, t)"
       "pre_inv (s\<lparr>handleHeap := (handleHeap s)(preloadFresh s \<mapsto> \<lparr>phPath = k, phHandle = r\<rparr>), preloadFresh := Suc (preloadFresh s),
       PreloadFileHandleList := l, PreloadFileHandleTable := t\<rparr>)"
      using pre_inv_addHandle [OF assms(1), of k r] f(2) None by auto
    show ?thesis
      using assms lt no None f(1) run
      by (simp add: openPreloadedFile_def withiRODSPath_def lockedPreload_def lockPreload_def unlockPreload_def rec_lock_def
          rec_unlock_def Let_def) (auto simp: pre_inv_def openHandle_def)
  next
    case (Some a)
    then obtain h where h: "handleHeap s a = Some h" "phPath h = k" using f(3) by auto
    have u: "b = a" if "handlePaths s b = Some k" for b using f(3) [of a] f(3) [of b] that Some by auto
    have other: "openHandle s k fd \<longleftrightarrow> phHandle h = fd \<and> fd > 0" for fd
    proof
      assume "openHandle s k fd"
      then obtain b g where g: "handleHeap s b = Some g" "phPath g = k" "phHandle g = fd" "fd > 0" by (auto simp: openHandle_def)
      then have "b = a" using u [of b] by simp
      with g h show "phHandle h = fd \<and> fd > 0" by simp
    qed (use h in \<open>auto simp: openHandle_def\<close>)
    note set = pre_inv_setHandle [OF assms(1) h(1), of "h\<lparr>phHandle := r\<rparr>"]
    show ?thesis
      using assms set other Some f(1) run h
      by (simp add: openPreloadedFile_def withiRODSPath_def lockedPreload_def lockPreload_def unlockPreload_def rec_lock_def
          rec_unlock_def Let_def) (auto simp: pre_inv_def openHandle_def)
  qed
qed

lemma closePreloadedFile_wp:
  assumes "pre_inv s" "preload_getiRODSPath path s = Some (sc, k)" "0 \<le> sc"
  shows "wpo (closePreloadedFile OS path s) (\<lambda>(r, s'). r = sc \<and> pre_inv s' \<and> k \<notin> ran (handlePaths s') \<and>
     (\<forall>j. j \<noteq> k \<longrightarrow> openHandle s' j = openHandle s j) \<and>
     locks s' = locks s \<and> PreloadRodsEnv s' = PreloadRodsEnv s \<and> PreloadThreads s' = PreloadThreads s \<and> threadHeap s' = threadHeap s)"
proof -
  obtain f where f: "fl_lookupFromHashTable (PreloadFileHandleTable s) k = Some f" "f = None \<longleftrightarrow> k \<notin> ran (handlePaths s)"
    "\<And>a. f = Some a \<longleftrightarrow> handlePaths s a = Some k" using handleLookup [OF assms(1)] by blast
  show ?thesis
  proof (cases f)
    case None
    then show ?thesis using f(1,2) assms
      by (simp add: closePreloadedFile_def lockPreload_def unlockPreload_def rec_lock_def rec_unlock_def openHandle_def)
  next
    case (Some a)
    then obtain h where h: "handleHeap s a = Some h" "phPath h = k" "handlePaths s a = Some k" using f(3) by auto
    obtain l q t where lt: "fl_listRemove2 (PreloadFileHandleList s) a = Some l"
       "fl_deleteFromHashTable (PreloadFileHandleTable s) k = Some (q, t)"
       "pre_inv (s\<lparr>PreloadFileHandleList := l, PreloadFileHandleTable := t, handleHeap := (handleHeap s)(a := None)\<rparr>)"
      using pre_inv_rmHandle [OF assms(1) h(3)] by auto
    have out: "k \<notin> ran (\<lambda>b. map_option phPath (((handleHeap s)(a := None)) b))"
      using f(3) Some by (auto simp: ran_def split: if_splits) (metis option.inject option.simps(9))
    have "(\<exists>b g. ((handleHeap s)(a := None)) b = Some g \<and> phPath g = j \<and> phHandle g = fd \<and> fd > 0) \<longleftrightarrow>
        (\<exists>b g. handleHeap s b = Some g \<and> phPath g = j \<and> phHandle g = fd \<and> fd > 0)" if "j \<noteq> k" for j fd
      using that h(1,2) by (metis fun_upd_apply option.inject option.simps(3))
    then have other: "openHandle (s'\<lparr>handleHeap := (handleHeap s)(a := None)\<rparr>) j = openHandle s j" if "j \<noteq> k" for j s'
      using that by (simp add: openHandle_def fun_eq_iff del: fun_upd_apply)
    show ?thesis
      using assms lt Some f(1) h out other
      by (simp add: closePreloadedFile_def lockPreload_def unlockPreload_def rec_lock_def rec_unlock_def sys_def Let_def
           split: prod.splits) (auto simp: pre_inv_def openHandle_def)
  qed
qed

section \<open>Sequences of operations\<close>

text \<open>\<open>orphan k s\<close>: the table has a thread record for the path, but no thread will ever remove it.\<close>

definition orphan :: "string \<Rightarrow> ('w, 'z) pstate_scheme \<Rightarrow> bool" where
  "orphan k s \<longleftrightarrow> k \<in> ran (threadPaths s) \<and> (\<forall>d \<in> set (PreloadThreads s). tdPath d \<noteq> k)"

text \<open>\<open>pre_ok D J K E n s\<close>: the invariant, with threads \<open>D\<close> not ended, no thread record for the paths \<open>J\<close>, the
  paths \<open>K\<close> left over, environment \<open>E\<close>, and \<open>PreloadLock\<close> taken \<open>n\<close> times.\<close>

definition pre_ok :: "preloadThreadData_t set \<Rightarrow> string set \<Rightarrow> string set \<Rightarrow> rodsEnv \<Rightarrow> nat \<Rightarrow> ('w, 'z) pstate_scheme \<Rightarrow> bool" where
  "pre_ok D J K E n s \<longleftrightarrow> pre_inv s \<and> D \<subseteq> set (PreloadThreads s) \<and> (\<forall>k \<in> J. k \<notin> ran (threadPaths s)) \<and> (\<forall>k \<in> K. orphan k s) \<and> PreloadRodsEnv s = E \<and> locks s PreloadLock = n"

lemma pre_ok_lock:
  "pre_ok D J K E n s \<Longrightarrow> (\<And>s'. pre_ok D J K E (Suc n) s' \<Longrightarrow> Q s') \<Longrightarrow> wlpo (lockPreload s) Q"
  by (auto simp: wlpo_def lockPreload_def rec_lock_def pre_ok_def orphan_def)

lemma pre_ok_unlock:
  "pre_ok D J K E n s \<Longrightarrow> (\<And>s'. pre_ok D J K E (n - 1) s' \<Longrightarrow> Q s') \<Longrightarrow> wlpo (unlockPreload s) Q"
  by (auto simp: wlpo_def unlockPreload_def rec_unlock_def pre_ok_def orphan_def)

lemma pre_ok_same: "sameButWorld s s' \<Longrightarrow> pre_ok D J K E n s \<Longrightarrow> pre_ok D J K E n s'"
  unfolding sameButWorld_def by (elim exE) (simp add: pre_ok_def orphan_def)

lemma pre_ok_world:
  assumes "worldOnly m s" "pre_ok D J K E n s" "\<And>r s'. pre_ok D J K E n s' \<Longrightarrow> Q (r, s')"
  shows "wlpo m Q"
  using assms(1,2) pre_ok_same assms(3) unfolding wlpo_def worldOnly_def by (metis surj_pair)

lemma pre_ok_lookup:
  assumes "pre_ok D {} K E n s" "\<And>a. Q (Some a)" "pre_ok D {k} K E n s \<Longrightarrow> Q None"
  shows "wlpo (fl_lookupFromHashTable (PreloadThreadTable s) k) Q"
proof -
  obtain r where r: "fl_lookupFromHashTable (PreloadThreadTable s) k = Some r" "r = None \<longleftrightarrow> k \<notin> ran (threadPaths s)"
    using threadLookup [of s k] assms(1) by (auto simp: pre_ok_def)
  have "pre_ok D {k} K E n s" if "r = None" using assms(1) r(2) that by (simp add: pre_ok_def)
  with r(1) assms(2,3) show ?thesis by (cases r) (auto intro: wlp)
qed

lemma pre_ok_start:
  assumes "pre_ok D {k} K E n s"
    and "\<And>r s'. r \<noteq> 0 \<Longrightarrow> pre_ok D {} (insert k K) E n s' \<Longrightarrow> Q (r, s')" "\<And>s'. pre_ok D {} K E n s' \<Longrightarrow> Q (0, s')"
  shows "wlpo (startPreload OS k sb s) Q"
proof (rule wpo_wlpo, rule wpo_mono [OF startPreload_wp], goal_cases)
  case 1
  then show ?case using assms(1) by (simp add: pre_ok_def)
next
  case 2
  then show ?case using assms(1) by (simp add: pre_ok_def)
next
  case (3 x)
  obtain r s' where x: "x = (r, s')" by fastforce
  note post = 3 [unfolded x prod.case]
  have thr: "tdPath d \<noteq> k" if "d \<in> set (PreloadThreads s)" for d
    using assms(1) that unfolding pre_ok_def pre_inv_def ran_def by fastforce
  have ran: "ran (threadPaths s') = insert k (ran (threadPaths s))" using post by (simp add: del: fun_upd_apply)
  have other: "orphan j s'" if "j \<in> K" for j
    using that assms(1) post ran unfolding pre_ok_def orphan_def by auto
  have "D \<subseteq> set (PreloadThreads s')" using assms(1) post by (auto simp: pre_ok_def)
  then have "pre_ok D {} K E n s'" using assms(1) post other by (simp add: pre_ok_def)
  moreover have "orphan k s'" if "r \<noteq> 0" using post ran thr that by (simp add: orphan_def)
  ultimately show ?case using assms(2,3) x by (cases "r = 0") (auto simp: pre_ok_def)
qed

lemma pre_ok_finish:
  assumes "pre_ok {d} {} K E n s" "\<And>s'. pre_ok {} {} K E n s' \<Longrightarrow> Q s'"
  shows "wlpo (finishThread d s) Q"
proof (rule wpo_wlpo, rule wpo_mono [OF finishThread_wp [of s d]], goal_cases)
  case 1
  then show ?case using assms(1) by (simp add: pre_ok_def)
next
  case 2
  then show ?case using assms(1) by (simp add: pre_ok_def)
next
  case (3 s')
  have "orphan j s'" if j: "j \<in> K" for j
  proof -
    have "orphan j s" using assms(1) j by (simp add: pre_ok_def)
    then obtain a where a: "threadPaths s a = Some j" and d: "\<forall>d \<in> set (PreloadThreads s). tdPath d \<noteq> j"
      by (auto simp: orphan_def ran_def)
    have "a \<noteq> tdThreadInfo d" using a d 3 assms(1) by (auto simp: pre_ok_def)
    then have "threadPaths s' a = Some j" using fun_cong [OF conjunct1 [OF conjunct2 [OF 3]], of a] a by simp
    then have "j \<in> ran (threadPaths s')" by (rule ranI)
    then show ?thesis using d 3 set_remove1_subset [of d "PreloadThreads s"] by (auto simp: orphan_def)
  qed
  with 3 assms(1,2) show ?case by (simp add: pre_ok_def)
qed

lemmas ok_files = cache_files_world [OF sameButWorld_refl, THEN pre_ok_world] makeRoom_world [OF sameButWorld_refl, THEN pre_ok_world]
  sys_world [OF sameButWorld_refl, THEN pre_ok_world] fs_helpers_world [OF sameButWorld_refl, THEN pre_ok_world]

lemmas pre_ok_rules = pre_ok_lock pre_ok_unlock pre_ok_lookup pre_ok_start ok_files

lemma pre_ok_weaken:
  "pre_ok D J K E n s \<Longrightarrow> pre_ok {} J K E n s"
  "pre_ok D {k} K E n s \<Longrightarrow> pre_ok D {} K E n s"
  "pre_ok D J (insert k K) E n s \<Longrightarrow> pre_ok D J K E n s" "pre_ok D J (insert k K) E n s \<Longrightarrow> orphan k s"
  by (simp_all add: pre_ok_def)

lemma withiRODSPath_wlp:
  assumes "\<And>st k. preload_getiRODSPath path s = Some (st, k) \<Longrightarrow> st < 0 \<Longrightarrow> Q (st, s)"
    and "\<And>st k. preload_getiRODSPath path s = Some (st, k) \<Longrightarrow> 0 \<le> st \<Longrightarrow> wlpo (body k s) Q"
  shows "wlpo (withiRODSPath path body s) Q"
  using assms unfolding withiRODSPath_def by (cases "preload_getiRODSPath path s") (auto intro!: wlp)

lemma lockedPreload_wlp:
  assumes "pre_ok D J K E n s" "\<And>s'. pre_ok D J K E (Suc n) s' \<Longrightarrow> wlpo (f s') (\<lambda>(r, s'). pre_ok D J K E (Suc n) s')"
  shows "wlpo (lockedPreload f s) (\<lambda>(r, s'). pre_ok D J K E n s')"
  unfolding lockedPreload_def
  using assms(1) by (auto intro!: wlp pre_ok_lock wlpo_mono [OF assms(2)] pre_ok_unlock)

text \<open>The result is positive only when a thread could not be started.\<close>

lemma preloadUnlessCached_wlp:
  assumes "pre_ok D {k} K E (Suc 0) s"
  shows "wlpo (preloadUnlessCached OS k sb s) (\<lambda>(r, s'). pre_ok D {} K E 0 s' \<and> (0 < r \<longrightarrow> orphan k s'))"
  unfolding preloadUnlessCached_def
  using assms by (auto intro!: wlp pre_ok_rules intro: pre_ok_weaken)

lemma preloadFile_wlp:
  fixes s :: "('w, 'z) pstate_scheme"
  assumes "pre_ok D {} K E 0 s"
  shows "wlpo (preloadFile OS path sb s) (\<lambda>(r, s'). pre_ok D {} K E 0 s' \<and>
     (0 < r \<longrightarrow> (\<exists>st k. preload_getiRODSPath path s = Some (st, k) \<and> 0 \<le> st \<and> orphan k s')))"
  unfolding preloadFile_def
  using assms by (auto intro!: withiRODSPath_wlp wlp pre_ok_lock pre_ok_lookup pre_ok_unlock wlpo_mono [OF preloadUnlessCached_wlp])

lemma do_download_wlp:
  assumes "pre_ok D J K E 0 s" "\<And>r s'. pre_ok D J K E 0 s' \<Longrightarrow> Q (r, s')"
  shows "wlpo (do_download OS API path sb s) Q"
proof -
  have p: "wlpo (parseRodsPath x y) (\<lambda>_. True)" for x y by (simp add: wlpo_def)
  show ?thesis
    unfolding do_download_def Let_def
    using assms(1) by (auto intro!: wlp wlpo_mono [OF p] pre_ok_rules assms(2) split: prod.splits)
qed

lemma preloadThread_wlp:
  assumes "pre_ok {d} {} K E 0 s"
  shows "wlpo (preloadThread OS API d s) (pre_ok {} {} K E 0)"
  unfolding preloadThread_def using assms by (auto intro!: wlp do_download_wlp pre_ok_finish)

text \<open>Opening and closing keep the thread records.\<close>

lemma pre_ok_threads:
  assumes "pre_ok D J K E n s" "pre_inv s'" "threadHeap s' = threadHeap s" "PreloadThreads s' = PreloadThreads s"
    "PreloadRodsEnv s' = PreloadRodsEnv s" "locks s' = locks s"
  shows "pre_ok D J K E n s'"
  using assms by (simp add: pre_ok_def orphan_def)

lemma openPreloadedFile_wlp:
  assumes "pre_ok D J K E n s"
  shows "wlpo (openPreloadedFile OS path s) (\<lambda>(r, s'). pre_ok D J K E n s')"
proof -
  have inv: "pre_inv s" using assms by (simp add: pre_ok_def)
  show ?thesis
  proof (cases "preload_getiRODSPath path s")
    case None
    then show ?thesis by (simp add: openPreloadedFile_def withiRODSPath_def wlpo_def)
  next
    case (Some x)
    obtain sc k where x: "x = (sc, k)" by fastforce
    show ?thesis
    proof (cases "sc < 0")
      case True
      then show ?thesis using Some x assms by (simp add: openPreloadedFile_def withiRODSPath_def wlpo_def)
    next
      case False
      then show ?thesis
        using openPreloadedFile_wp [OF inv, of path sc k OS] Some x pre_ok_threads [OF assms]
        by (auto intro!: wpo_wlpo elim!: wpo_mono)
    qed
  qed
qed

lemma closePreloadedFile_wlp:
  assumes "pre_ok D J K E n s"
  shows "wlpo (closePreloadedFile OS path s) (\<lambda>(r, s'). pre_ok D J K E n s')"
proof -
  have inv: "pre_inv s" using assms by (simp add: pre_ok_def)
  show ?thesis
  proof (cases "preload_getiRODSPath path s")
    case None
    then show ?thesis by (simp add: closePreloadedFile_def wlpo_def)
  next
    case (Some x)
    obtain sc k where x: "x = (sc, k)" by fastforce
    show ?thesis
    proof (cases "sc < 0")
      case True
      then show ?thesis using Some x assms by (simp add: closePreloadedFile_def wlpo_def)
    next
      case False
      then show ?thesis
        using closePreloadedFile_wp [OF inv, of path sc k OS] Some x pre_ok_threads [OF assms]
        by (auto intro!: wpo_wlpo elim!: wpo_mono)
    qed
  qed
qed

text \<open>The operations that only touch files of the cache.\<close>

lemma cache_operations_wlp:
  assumes "pre_ok D J K E 0 s"
  shows "wlpo (invalidatePreloadedFile OS path s) (\<lambda>(r, s'). pre_ok D J K E 0 s')"
    "wlpo (renamePreloadedFile OS path path' s) (\<lambda>(r, s'). pre_ok D J K E 0 s')"
    "wlpo (truncatePreloadedFile OS path sz s) (\<lambda>(r, s'). pre_ok D J K E 0 s')"
    "wlpo (isPreloadedFile OS path s) (\<lambda>(r, s'). pre_ok D J K E 0 s')"
    "wlpo (readPreloadedFile OS fd sz off s) (\<lambda>(r, s'). pre_ok D J K E 0 s')"
    "wlpo (moveToPreloadedDir OS path path' s) (\<lambda>(r, s'). pre_ok D J K E 0 s')"
proof -
  show "wlpo (invalidatePreloadedFile OS path s) (\<lambda>(r, s'). pre_ok D J K E 0 s')"
    "wlpo (renamePreloadedFile OS path path' s) (\<lambda>(r, s'). pre_ok D J K E 0 s')"
    "wlpo (truncatePreloadedFile OS path sz s) (\<lambda>(r, s'). pre_ok D J K E 0 s')"
    "wlpo (isPreloadedFile OS path s) (\<lambda>(r, s'). pre_ok D J K E 0 s')"
    unfolding invalidatePreloadedFile_def renamePreloadedFile_def truncatePreloadedFile_def isPreloadedFile_def
    using assms by (auto intro!: withiRODSPath_wlp lockedPreload_wlp ok_files)
  show "wlpo (readPreloadedFile OS fd sz off s) (\<lambda>(r, s'). pre_ok D J K E 0 s')"
    unfolding readPreloadedFile_def using assms by (auto intro!: wlp pre_ok_rules)
  show "wlpo (moveToPreloadedDir OS path path' s) (\<lambda>(r, s'). pre_ok D J K E 0 s')"
    unfolding moveToPreloadedDir_def Let_def using assms by (auto intro!: wlp pre_ok_rules)
qed

lemma isFilePreloading_wp:
  assumes "pre_inv s" "preload_getiRODSPath path s = Some (sc, k)" "0 \<le> sc"
  shows "isFilePreloading path s = Some (if k \<in> ran (threadPaths s) then 0 else -1, s)"
proof -
  obtain r where "fl_lookupFromHashTable (PreloadThreadTable s) k = Some r" "r = None \<longleftrightarrow> k \<notin> ran (threadPaths s)"
    using threadLookup [OF assms(1), of k] by blast
  with assms(2,3) show ?thesis
    by (auto simp: isFilePreloading_def withiRODSPath_def lockedPreload_def lockPreload_def unlockPreload_def rec_lock_def rec_unlock_def)
qed

section \<open>Properties\<close>

text \<open>A step is one call of a public function that returns, or the body of a thread that was started.\<close>

inductive pre_step :: "'w os \<Rightarrow> 'w irods \<Rightarrow> ('w, 'z) pstate_scheme \<Rightarrow> ('w, 'z) pstate_scheme \<Rightarrow> bool" for OS API where
  preload: "preloadFile OS path sb s = Some (r, s') \<Longrightarrow> pre_step OS API s s'"
| body: "d \<in> set (PreloadThreads s) \<Longrightarrow> preloadThread OS API d s = Some s' \<Longrightarrow> pre_step OS API s s'"
| open_copy: "openPreloadedFile OS path s = Some (r, s') \<Longrightarrow> pre_step OS API s s'"
| close_copy: "closePreloadedFile OS path s = Some (r, s') \<Longrightarrow> pre_step OS API s s'"
| read_copy: "readPreloadedFile OS fd sz off s = Some (x, s') \<Longrightarrow> pre_step OS API s s'"
| invalidate: "invalidatePreloadedFile OS path s = Some (r, s') \<Longrightarrow> pre_step OS API s s'"
| rename: "renamePreloadedFile OS path path' s = Some (r, s') \<Longrightarrow> pre_step OS API s s'"
| truncate: "truncatePreloadedFile OS path sz s = Some (r, s') \<Longrightarrow> pre_step OS API s s'"
| is_cached: "isPreloadedFile OS path s = Some (r, s') \<Longrightarrow> pre_step OS API s s'"
| move_in: "moveToPreloadedDir OS path path' s = Some (r, s') \<Longrightarrow> pre_step OS API s s'"

lemma pre_step_ok:
  assumes "pre_step OS API s s'" "pre_ok {} {} K E 0 s"
  shows "pre_ok {} {} K E 0 s'"
  using assms
proof cases
  case (body d)
  then have "pre_ok {d} {} K E 0 s" using assms(2) by (simp add: pre_ok_def)
  from wlpo_post [OF preloadThread_wlp [OF this] body(2)] show ?thesis .
qed (use assms(2) in \<open>auto dest: wlpo_post [OF preloadFile_wlp] wlpo_post [OF openPreloadedFile_wlp] wlpo_post [OF closePreloadedFile_wlp]
    wlpo_post [OF cache_operations_wlp(1)] wlpo_post [OF cache_operations_wlp(2)] wlpo_post [OF cache_operations_wlp(3)]
    wlpo_post [OF cache_operations_wlp(4)] wlpo_post [OF cache_operations_wlp(5)] wlpo_post [OF cache_operations_wlp(6)]\<close>)

lemma pre_steps_ok:
  assumes "(pre_step OS API)\<^sup>*\<^sup>* s s'" "pre_ok {} {} K E 0 s"
  shows "pre_ok {} {} K E 0 s'"
  using assms by (induction rule: rtranclp_induct) (auto intro: pre_step_ok)

lemma initPreload_ok:
  assumes "initPreload OS cfg E s = Some (r, s')" "threadHeap s = Map.empty" "handleHeap s = Map.empty" "PreloadThreads s = []"
  shows "pre_ok {} {} {} E 0 s'"
proof -
  from assms(1) obtain t1 t2 w r2 s2 r3 where
    t: "fl_newHashTable True 201 = Some t1" "fl_newHashTable True 201 = Some t2" and
    run: "do_preparePreloadCacheDir OS (pcCachePath cfg) (s\<lparr>world := w, PreloadConfig := cfg, PreloadRodsEnv := E, PreloadThreadTable := t1,
       PreloadFileHandleTable := t2, PreloadThreadList := fl_newList, PreloadFileHandleList := fl_newList,
       locks := (locks s)(PreloadLock := 0)\<rparr>) = Some (r2, s2)"
      "(if pcClearCache cfg \<noteq> 0 then do_removeAllCaches OS s2 else do_removeAllIncompleteCaches OS s2) = Some (r3, s')"
    unfolding initPreload_def getEmptySpace_def sys_def by (auto simp: bind_eq_Some_conv Let_def split: prod.splits)
  have "fl_table t" "fl_vals t = (\<lambda>_. [])" if "fl_newHashTable True 201 = Some t" for t :: "nat fl_Hashtable"
    using wpo_post [OF fl_new_inv [of 201] that] by (simp_all add: fl_table_def)
  with t have "pre_ok {} {} {} E 0 (s\<lparr>world := w, PreloadConfig := cfg, PreloadRodsEnv := E, PreloadThreadTable := t1,
       PreloadFileHandleTable := t2, PreloadThreadList := fl_newList, PreloadFileHandleList := fl_newList,
       locks := (locks s)(PreloadLock := 0)\<rparr>)"
    using assms(2-4) fl_newList_rep by (auto simp: pre_ok_def pre_inv_def intro!: freg.reg_new)
  with run show ?thesis
    by (auto split: if_splits intro: pre_ok_same dest!: worldOnly_dest [OF _ cache_files_world(5) [OF sameButWorld_refl]]
        worldOnly_dest [OF _ cache_files_world(8) [OF sameButWorld_refl]] worldOnly_dest [OF _ cache_files_world(9) [OF sameButWorld_refl]])
qed

lemma finishThread_clears:
  assumes "pre_inv s" "d \<in> set (PreloadThreads s)"
  shows "wpo (finishThread d s) (\<lambda>s'. threadHeap s' (tdThreadInfo d) = None \<and>
     fl_lookupFromHashTable (PreloadThreadTable s') (tdPath d) = Some None \<and> d \<notin> set (PreloadThreads s') \<and> locks s' = locks s)"
proof (rule wpo_mono [OF finishThread_wp [OF assms]])
  fix s' assume post: "pre_inv s' \<and> threadPaths s' = (threadPaths s)(tdThreadInfo d := None) \<and>
     threadPaths s (tdThreadInfo d) = Some (tdPath d) \<and> threadHeap s' (tdThreadInfo d) = None \<and>
     PreloadThreads s' = remove1 d (PreloadThreads s) \<and> PreloadRodsEnv s' = PreloadRodsEnv s \<and> locks s' = locks s"
  have one: "a = tdThreadInfo d" if "threadPaths s a = Some (tdPath d)" for a
    using pre_invD(1) [OF assms(1)] post that unfolding freg.reg_def by blast
  have "tdPath d \<notin> ran ((threadPaths s)(tdThreadInfo d := None))"
    using one by (auto simp: ran_def split: if_splits)
  then have "fl_lookupFromHashTable (PreloadThreadTable s') (tdPath d) = Some None"
    using threadLookup [of s' "tdPath d"] post by auto
  moreover have "distinct (PreloadThreads s)" using pre_invD(5) [OF assms(1)] by (simp add: distinct_map)
  ultimately show "threadHeap s' (tdThreadInfo d) = None \<and>
     fl_lookupFromHashTable (PreloadThreadTable s') (tdPath d) = Some None \<and> d \<notin> set (PreloadThreads s') \<and> locks s' = locks s"
    using post by simp
qed


text \<open>C19. When \<open>preloadFile\<close> reports that \<open>pthread_create\<close> failed, which is its only positive result, the record
  of the thread that never started stays in the table: whatever is called afterwards, and whatever other
  threads do, \<open>isFilePreloading\<close> answers that the file is being fetched.\<close>

theorem failed_thread_blocks_path:
  assumes "pre_ok {} {} {} E 0 s" "preloadFile OS path sb s = Some (r, s1)" "0 < r" "(pre_step OS API)\<^sup>*\<^sup>* s1 s2"
  shows "isFilePreloading path s2 = Some (0, s2)"
proof -
  from wlpo_post [OF preloadFile_wlp [OF assms(1)] assms(2)] assms(3) obtain sc k where
    k: "preload_getiRODSPath path s = Some (sc, k)" "0 \<le> sc" "orphan k s1" and ok: "pre_ok {} {} {} E 0 s1" by auto
  then have "pre_ok {} {} {k} E 0 s1" by (simp add: pre_ok_def)
  then have 2: "pre_ok {} {} {k} E 0 s2" by (rule pre_steps_ok [OF assms(4)])
  then have "preload_getiRODSPath path s2 = Some (sc, k)"
    using k(1) assms(1) by (simp add: preload_getiRODSPath_def pre_ok_def)
  with 2 k(2) show ?thesis by (simp add: isFilePreloading_wp pre_ok_def orphan_def)
qed

text \<open>C20. Opening a copy twice gives the same handle; the first close closes it and forgets the path, while the
  second opener still holds it.\<close>

theorem second_open_shares_handle:
  assumes "pre_inv s" "preload_getiRODSPath path s = Some (sc, k)" "0 \<le> sc" "openPreloadedFile OS path s = Some (fd, s1)" "0 < fd"
  shows "openPreloadedFile OS path s1 = Some (fd, s1) \<and>
     wpo (closePreloadedFile OS path s1) (\<lambda>(r, s2). r = sc \<and> pre_inv s2 \<and>
        fl_lookupFromHashTable (PreloadFileHandleTable s2) k = Some None)"
proof -
  from wpo_post [OF openPreloadedFile_wp [OF assms(1-3)] assms(4)] assms(5)
  have 1: "pre_inv s1" "openHandle s1 k fd" "PreloadRodsEnv s1 = PreloadRodsEnv s" by auto
  then have p: "preload_getiRODSPath path s1 = Some (sc, k)" using assms(2) by (simp add: preload_getiRODSPath_def)
  obtain fd' s2 where o: "openPreloadedFile OS path s1 = Some (fd', s2)" "fd' = fd" "s2 = s1"
    using openPreloadedFile_wp [OF 1(1) p assms(3), of OS] 1(2) by (auto simp: wpo_def)
  have "wpo (closePreloadedFile OS path s1) (\<lambda>(r, s2). r = sc \<and> pre_inv s2 \<and>
        fl_lookupFromHashTable (PreloadFileHandleTable s2) k = Some None)"
    by (rule wpo_mono [OF closePreloadedFile_wp [OF 1(1) p assms(3)]]) (use handleLookup in fastforce)
  with o show ?thesis by simp
qed

section \<open>Making room\<close>

lemma filesOf_removeFile: "\<not> isFile t \<Longrightarrow> filesOf p (removeFile p q t) = filter (\<lambda>f. fst f \<noteq> q) (filesOf p t)"
proof (induction t arbitrary: p rule: treeSize.induct)
  case (2 es)
  have "filesOf p (removeFile p q (FDir fs)) = filter (\<lambda>f. fst f \<noteq> q) (filesOf p (FDir fs))" if "set fs \<subseteq> set es" for fs
    using that
  proof (induction fs)
    case (Cons e fs)
    obtain n t where e: "e = (n, t)" by fastforce
    have rest: "filesOf p (removeFile p q (FDir fs)) = filter (\<lambda>f. fst f \<noteq> q) (filesOf p (FDir fs))"
      using Cons by simp
    show ?case
    proof (cases t)
      case (FFile sb)
      with rest e show ?thesis by auto
    next
      case (FDir gs)
      have "filesOf (p @ ''/'' @ n) (removeFile (p @ ''/'' @ n) q t) = filter (\<lambda>f. fst f \<noteq> q) (filesOf (p @ ''/'' @ n) t)"
        by (rule 2(1) [of e n t]) (use Cons.prems e FDir in auto)
      with rest e FDir show ?thesis by (simp del: removeFile.simps(2) filesOf.simps(2) add: removeFile.simps(2) [of p] filesOf.simps(2) [of p])
    qed
  qed simp
  then show ?case by blast
qed simp

lemma treeAt_file: "treeAt l p t \<Longrightarrow> f \<in> set (filesOf p t) \<Longrightarrow> l (fst f) = Some (FFile (snd f))"
  by (induction p t rule: filesOf.induct) auto

lemma filesOf_nonempty: "f \<in> set (filesOf p (FDir es)) \<Longrightarrow> fst f \<noteq> []"
proof -
  have "p \<noteq> [] \<Longrightarrow> f \<in> set (filesOf p t) \<Longrightarrow> fst f \<noteq> []" for p t
    by (induction p t rule: filesOf.induct) auto
  then show "f \<in> set (filesOf p (FDir es)) \<Longrightarrow> fst f \<noteq> []" by (auto split: prod.splits)
qed

text \<open>The search is a fold over the files, and gives the first of those accessed longest ago.\<close>

abbreviation noFile :: "string \<times> stat" where
  "noFile \<equiv> ([], zero_stat)"

lemma oldest_min:
  assumes "\<forall>f \<in> set fs. fst f \<noteq> []" "fs \<noteq> []"
  shows "fold olderOf fs noFile \<in> set fs \<and> (\<forall>f \<in> set fs. st_atime (snd (fold olderOf fs noFile)) \<le> st_atime (snd f))"
  using assms
proof (induction fs rule: rev_induct)
  case (snoc f fs)
  show ?case
  proof (cases "fs = []")
    case True
    then show ?thesis by (simp add: olderOf_def)
  next
    case False
    then have m: "fold olderOf fs noFile \<in> set fs" "\<forall>f \<in> set fs. st_atime (snd (fold olderOf fs noFile)) \<le> st_atime (snd f)"
      using snoc by auto
    define g where "g = fold olderOf fs noFile"
    show ?thesis
    proof (cases "st_atime (snd g) > st_atime (snd f)")
      case True
      then have "fold olderOf (fs @ [f]) noFile = f" by (simp add: olderOf_def g_def)
      moreover have "\<forall>h \<in> set (fs @ [f]). st_atime (snd f) \<le> st_atime (snd h)" using True m(2) [folded g_def] by fastforce
      ultimately show ?thesis by simp
    next
      case gf: False
      have "fst g \<noteq> []" using m(1) snoc.prems by (auto simp: g_def)
      with gf have "fold olderOf (fs @ [f]) noFile = g" by (simp add: olderOf_def g_def)
      with gf m show ?thesis by (auto simp flip: g_def)
    qed
  qed
qed simp

lemma oldest_from:
  assumes "\<forall>f \<in> set fs. fst f \<noteq> []"
  shows "fold olderOf fs acc = (if fs = [] then acc else olderOf (fold olderOf fs noFile) acc)"
  using assms
proof (induction fs rule: rev_induct)
  case (snoc f fs)
  show ?case
  proof (cases "fs = []")
    case True
    then show ?thesis by (simp add: olderOf_def)
  next
    case False
    let ?m = "fold olderOf fs noFile"
    have "fst ?m \<noteq> []" using oldest_min [of fs] snoc.prems False by auto
    with snoc False show ?thesis by (auto simp: olderOf_def)
  qed
qed simp

lemma walkEntries_oldest:
  "walkEntries oldestWalker p es acc = fold olderOf (filesOf p (FDir es)) acc"
proof -
  have entries: "walkEntries oldestWalker p es acc = fold olderOf (filesOf p (FDir es)) acc"
    if "\<And>n t q a. (n, t) \<in> set es \<Longrightarrow> q \<noteq> [] \<Longrightarrow> walkTree oldestWalker q t a = fold olderOf (filesOf q t) a" for es p acc
    using that
  proof (induction es arbitrary: acc)
    case (Cons e es)
    obtain n t where e: "e = (n, t)" by (cases e)
    have "walkEntries oldestWalker p es a = fold olderOf (filesOf p (FDir es)) a" for a
      using Cons.prems by (intro Cons.IH) (meson list.set_intros(2))
    with Cons.prems [of n t] e show ?case by simp
  qed simp
  have "q \<noteq> [] \<Longrightarrow> walkTree oldestWalker q t a = fold olderOf (filesOf q t) a" for t q a
  proof (induction t arbitrary: q a rule: treeSize.induct)
    case (1 sb)
    then show ?case by (simp add: oldestWalker_def)
  next
    case (2 es)
    let ?fs = "filesOf q (FDir es)"
    have ne: "\<forall>f \<in> set ?fs. fst f \<noteq> []" using filesOf_nonempty by blast
    have "walkEntries oldestWalker q es noFile = fold olderOf ?fs noFile"
      by (rule entries) (use 2 in fastforce)
    then have "walkTree oldestWalker q (FDir es) a =
        (if fst (fold olderOf ?fs noFile) = [] then a else olderOf (fold olderOf ?fs noFile) a)"
      by (simp add: oldestWalker_def)
    also have "\<dots> = fold olderOf ?fs a"
      using oldest_min [OF ne] oldest_from [OF ne, of a] ne by (cases "?fs = []") (auto simp del: filesOf.simps)
    finally show ?case .
  qed
  then show ?thesis by (intro entries)
qed

text \<open>One round: the oldest file is found and removed.\<close>

lemma findOldest_tree:
  assumes "tree_os OS L S" "treeAt (L (world s)) p (FDir es)"
  shows "\<exists>w. do_findOldestCache OS p s = Some (
       (if filesOf p (FDir es) = [] then -1 else 0, fold olderOf (filesOf p (FDir es)) noFile), s\<lparr>world := w\<rparr>) \<and>
     L w = L (world s) \<and> S w = S (world s)"
proof -
  let ?m = "fold olderOf (filesOf p (FDir es)) noFile"
  obtain w where w: "walkDir OS oldestWalker p s = Some (?m, s\<lparr>world := w\<rparr>)" "L w = L (world s)" "S w = S (world s)"
    using walkDir_tree [OF assms, of oldestWalker] unfolding walkEntries_oldest by (auto simp: oldestWalker_def)
  have "fst ?m = [] \<longleftrightarrow> filesOf p (FDir es) = []"
    using oldest_min [of "filesOf p (FDir es)"] filesOf_nonempty [of _ p es]
    by (cases "filesOf p (FDir es) = []") (auto simp del: filesOf.simps)
  with w show ?thesis by (cases ?m) (auto simp: do_findOldestCache_def simp del: filesOf.simps)
qed

definition sizeOf :: "string \<times> stat \<Rightarrow> int" where
  "sizeOf f = max 0 (st_size (snd f))"

lemma evict_loop_tree:
  fixes s :: "('w, 'z) pstate_scheme"
  assumes OS: "tree_os OS L S" "unlink_os OS L S"
    and "treeAt (L (world s)) p (FDir es)" "filesOf p (FDir es) = fs" "distinct (map fst fs)" "pcCachePath (PreloadConfig s) = p"
  shows "wpo (evict_loop OS need removed s) (\<lambda>(r, s'). \<exists>es' old. treeAt (L (world s')) p (FDir es') \<and>
     filesOf p (FDir es') = filter (\<lambda>f. f \<notin> set old) fs \<and> set old \<subseteq> set fs \<and> distinct old \<and>
     (\<forall>f \<in> set old. \<forall>g \<in> set fs - set old. st_atime (snd f) \<le> st_atime (snd g)) \<and>
     (if need \<le> removed + sum_list (map sizeOf old) then r = 0 else r = -1 \<and> filesOf p (FDir es') = []))"
  using assms(3-6)
proof (induction fs arbitrary: s es removed rule: measure_induct_rule [of length])
  case (less fs)
  show ?case
  proof (cases "need > removed")
    case False
    with less.prems show ?thesis
      by (subst evict_loop.simps) (auto intro!: exI [of _ es] exI [of _ "[]"] simp del: filesOf.simps)
  next
    case True
    let ?m = "fold olderOf fs noFile"
    obtain w where w: "do_findOldestCache OS p s = Some ((if fs = [] then -1 else 0, ?m), s\<lparr>world := w\<rparr>)"
      "L w = L (world s)" "S w = S (world s)"
      using findOldest_tree [OF OS(1), of s p es] less.prems by auto
    show ?thesis
    proof (cases "fs = []")
      case True
      with w \<open>need > removed\<close> less.prems show ?thesis
        by (subst evict_loop.simps) (auto intro!: exI [of _ es] exI [of _ "[]"] simp del: filesOf.simps)
    next
      case False
      have ne: "\<forall>f \<in> set fs. fst f \<noteq> []" using filesOf_nonempty less.prems(2) by blast
      note m = oldest_min [OF ne False]
      have mf: "L w (fst ?m) = Some (FFile (snd ?m))"
        using treeAt_file [OF less.prems(1), of ?m] m w(2) less.prems(2) by (simp del: filesOf.simps)
      obtain st w2 where w2: "os_unlink OS (fst ?m) w = (st, w2)" by fastforce
      have ul: "st = 0" "S w2 = S w" "treeAt (L w2) p (removeFile p (fst ?m) (FDir es))"
        using OS(2) [unfolded unlink_os_def, rule_format, OF mf] w2 less.prems(1) w(2) by auto
      obtain es2 where es2: "removeFile p (fst ?m) (FDir es) = FDir es2" by simp
      let ?fs2 = "filter (\<lambda>f. fst f \<noteq> fst ?m) fs"
      have fs2: "filesOf p (FDir es2) = ?fs2"
        using filesOf_removeFile [of "FDir es" p "fst ?m"] less.prems(2) unfolding es2 by (simp del: filesOf.simps removeFile.simps)
      have same: "fst f = fst ?m \<longleftrightarrow> f = ?m" if "f \<in> set fs" for f
        using less.prems(3) m that by (metis distinct_map inj_on_def)
      have "length ?fs2 < length fs" using m by (intro length_filter_less [of ?m]) auto
      moreover have "distinct (map fst ?fs2)" using less.prems(3) by (simp add: distinct_map_filter)
      ultimately have "wpo (evict_loop OS need (removed + sizeOf ?m) (s\<lparr>world := w2\<rparr>)) (\<lambda>(r, s'). \<exists>es' old. treeAt (L (world s')) p (FDir es') \<and>
         filesOf p (FDir es') = filter (\<lambda>f. f \<notin> set old) ?fs2 \<and> set old \<subseteq> set ?fs2 \<and> distinct old \<and>
         (\<forall>f \<in> set old. \<forall>g \<in> set ?fs2 - set old. st_atime (snd f) \<le> st_atime (snd g)) \<and>
         (if need \<le> removed + sizeOf ?m + sum_list (map sizeOf old) then r = 0 else r = -1 \<and> filesOf p (FDir es') = []))"
        by (intro less.IH) (use ul(3) es2 fs2 less.prems(4) in \<open>simp_all del: filesOf.simps treeAt.simps removeFile.simps\<close>)
      then obtain r s' es' old where inner: "evict_loop OS need (removed + sizeOf ?m) (s\<lparr>world := w2\<rparr>) = Some (r, s')"
        "treeAt (L (world s')) p (FDir es')" "filesOf p (FDir es') = filter (\<lambda>f. f \<notin> set old) ?fs2" "set old \<subseteq> set ?fs2" "distinct old"
        "\<forall>f \<in> set old. \<forall>g \<in> set ?fs2 - set old. st_atime (snd f) \<le> st_atime (snd g)"
        "if need \<le> removed + sizeOf ?m + sum_list (map sizeOf old) then r = 0 else r = -1 \<and> filesOf p (FDir es') = []"
        unfolding wpo_def by auto
      have run: "evict_loop OS need removed s = evict_loop OS need (removed + sizeOf ?m) (s\<lparr>world := w2\<rparr>)"
        using True False w(1) w2 ul(1) less.prems(4)
        by (subst evict_loop.simps) (cases ?m, auto simp: sys_def sizeOf_def max_def Let_def)
      have set2: "set ?fs2 = set fs - {?m}" using same by auto
      have "filesOf p (FDir es') = filter (\<lambda>f. f \<notin> set (?m # old)) fs"
        unfolding inner(3) filter_filter using same by (intro filter_cong) auto
      moreover have "set (?m # old) \<subseteq> set fs" "distinct (?m # old)" using inner(4,5) set2 m by auto
      moreover have "\<forall>f \<in> set (?m # old). \<forall>g \<in> set fs - set (?m # old). st_atime (snd f) \<le> st_atime (snd g)"
        using inner(6) set2 m by auto
      moreover have "if need \<le> removed + sum_list (map sizeOf (?m # old)) then r = 0 else r = -1 \<and> filesOf p (FDir es') = []"
        using inner(7) by (simp add: add.assoc del: filesOf.simps)
      ultimately show ?thesis
        unfolding run inner(1) wpo_Some prod.case using inner(2) by blast
    qed
  qed
qed

text \<open>C18. Over a cache directory that is a finite tree of files, removing old copies returns. It removes files
  accessed no later than every file that stays, and nothing else; when it reports success they free at least
  the space asked for, and it reports -1 only when all files are gone and were together too small.\<close>

theorem evict_oldest_first:
  fixes s :: "('w, 'z) pstate_scheme"
  assumes "tree_os OS L S" "unlink_os OS L S"
    and "treeAt (L (world s)) (pcCachePath (PreloadConfig s)) (FDir es)"
    and "distinct (map fst (filesOf (pcCachePath (PreloadConfig s)) (FDir es)))"
  shows "wpo (do_evictOldCache OS need s) (\<lambda>(r, s'). \<exists>es' old. treeAt (L (world s')) (pcCachePath (PreloadConfig s)) (FDir es') \<and>
     filesOf (pcCachePath (PreloadConfig s)) (FDir es') =
       filter (\<lambda>f. f \<notin> set old) (filesOf (pcCachePath (PreloadConfig s)) (FDir es)) \<and>
     set old \<subseteq> set (filesOf (pcCachePath (PreloadConfig s)) (FDir es)) \<and> distinct old \<and>
     (\<forall>f \<in> set old. \<forall>g \<in> set (filesOf (pcCachePath (PreloadConfig s)) (FDir es)) - set old. st_atime (snd f) \<le> st_atime (snd g)) \<and>
     (if need \<le> sum_list (map sizeOf old) then r = 0
      else r = -1 \<and> filesOf (pcCachePath (PreloadConfig s)) (FDir es') = []))"
proof (cases "need \<le> 0")
  case True
  then have run: "do_evictOldCache OS need s = Some (0, s)" by (simp add: do_evictOldCache_def)
  show ?thesis
    unfolding run wpo_Some prod.case using True assms(3) by (intro exI [of _ es] exI [of _ "[]"]) simp
next
  case False
  then show ?thesis
    using evict_loop_tree [OF assms(1-3) refl assms(4) refl, of need 0] by (simp add: do_evictOldCache_def del: filesOf.simps)
qed

lemma finishThread_freed:
  assumes "finishThread d s = Some s'"
  shows "threadHeap s' (tdThreadInfo d) = None"
proof -
  from assms show ?thesis
    unfolding finishThread_def Let_def bind_eq_Some_conv by (auto simp: unlockPreload_def rec_unlock_def)
qed

text \<open>C21. A preload thread frees its own record, so \<open>waitPreloadJobs\<close>, which joins the thread and then reads and frees
  the record, touches freed memory: while threads are running it never returns.\<close>

theorem wait_reads_freed_record:
  fixes s :: "('w, 'z) pstate_scheme"
  assumes "pre_inv s" "PreloadThreads s \<noteq> []" "\<forall>a. threadHeap s a \<noteq> None \<longrightarrow> (\<exists>d \<in> set (PreloadThreads s). tdThreadInfo d = a)"
  shows "waitPreloadJobs OS API s = None \<and>
     (\<forall>d (t :: ('w, 'z) pstate_scheme). wlpo (preloadThread OS API d t) (\<lambda>t'. threadHeap t' (tdThreadInfo d) = None))"
proof -
  have freed: "wlpo (preloadThread OS API d t) (\<lambda>t'. threadHeap t' (tdThreadInfo d) = None)" for d and t :: "('w, 'z) pstate_scheme"
    unfolding preloadThread_def by (intro wlp) (auto simp: wlpo_def finishThread_freed)
  obtain xs where xs: "fl_list_rep (PreloadThreadList s) xs" "set xs = dom (threadPaths s)"
    using pre_invD(1) [OF assms(1)] unfolding freg.reg_def by blast
  from assms(2) obtain d where "d \<in> set (PreloadThreads s)" by (cases "PreloadThreads s") auto
  then have "threadHeap s (tdThreadInfo d) \<noteq> None" using assms(1) by (auto simp: pre_inv_def)
  then have "tdThreadInfo d \<in> set xs" using xs(2) by auto
  then obtain a ys where a: "xs = a # ys" by (cases xs) auto
  let ?s = "s\<lparr>locks := (locks s)(PreloadLock := Suc (locks s PreloadLock))\<rparr>"
  obtain l where l: "fl_removeFirstElementOfConcurrentList (PreloadThreadList s) = Some (Some a, l)"
    using fl_removeFirst_spec [OF xs(1)] a by (auto simp: wpo_def)
  have "threadHeap s a \<noteq> None" using xs(2) a by (auto simp: dom_def)
  then obtain e where e: "find (\<lambda>d. tdThreadInfo d = a) (PreloadThreads s) = Some e" "tdThreadInfo e = a"
  proof (cases "find (\<lambda>d. tdThreadInfo d = a) (PreloadThreads s)")
    case None
    then show ?thesis using assms(3) \<open>threadHeap s a \<noteq> None\<close> by (auto simp: find_None_iff)
  next
    case (Some e)
    then show ?thesis using that by (auto simp: find_Some_iff)
  qed
  have join: "wlpo (joinPreload OS API a t) (\<lambda>t'. threadHeap t' a = None)" if "PreloadThreads t = PreloadThreads s" for t :: "('w, 'z) pstate_scheme"
    using that e freed [of e t] by (simp add: joinPreload_def)
  have "waitPreload_loop OS API (Suc n) s = None" for n
    using l join [of "s\<lparr>PreloadThreadList := l\<rparr>"] \<open>threadHeap s a \<noteq> None\<close>
    by (cases "joinPreload OS API a (s\<lparr>PreloadThreadList := l\<rparr>)")
      (auto simp: lockPreload_def unlockPreload_def rec_lock_def rec_unlock_def Let_def wlpo_def)
  moreover have "nat (fl_listSize (PreloadThreadList s)) = Suc (length ys)" using fl_listSize_spec [OF xs(1)] a by simp
  ultimately show ?thesis using freed by (simp add: waitPreloadJobs_def)
qed

section \<open>Concrete runs\<close>

definition emptyTable :: "nat fl_Hashtable" where
  "emptyTable = \<lparr>buckets = replicate 201 [], hsize = 201, hlen = 0, dynamic = False\<rparr>"

definition cacheAt :: "string \<Rightarrow> preloadConfig_t" where
  "cacheAt p = \<lparr>pcPreload = 1, pcClearCache = 0, pcCachePath = p, pcCacheMaxSize = 0, pcPreloadMinSize = 0\<rparr>"

definition ps_start :: "string \<Rightarrow> 'w \<Rightarrow> 'w pstate" where
  "ps_start p w = nstate.extend (ns_start (\<lambda>_. zeroDesc) 0 (\<lambda>_. zeroNC) w)
     (pstate.fields (cacheAt p) envU fl_newList fl_newList emptyTable emptyTable Map.empty Map.empty 0 [])"

lemma ps_start_simps [simp]:
  "world (ps_start p w) = w" "locks (ps_start p w) = (\<lambda>_. 0)" "PreloadConfig (ps_start p w) = cacheAt p"
  "PreloadRodsEnv (ps_start p w) = envU" "PreloadThreadList (ps_start p w) = fl_newList" "PreloadFileHandleList (ps_start p w) = fl_newList"
  "PreloadThreadTable (ps_start p w) = emptyTable" "PreloadFileHandleTable (ps_start p w) = emptyTable"
  "threadHeap (ps_start p w) = Map.empty" "handleHeap (ps_start p w) = Map.empty" "preloadFresh (ps_start p w) = 0" "PreloadThreads (ps_start p w) = []"
  by (simp_all add: ps_start_def nstate.extend_def pstate.fields_def ns_start_def)

lemma ps_start_ok: "pre_ok {} {} {} envU 0 (ps_start p w)"
proof -
  have "fl_newHashTable True 201 = Some emptyTable" by (simp add: fl_newHashTable_def emptyTable_def)
  from wpo_post [OF fl_new_inv [of 201] this] have "fl_table emptyTable" "fl_vals emptyTable = (\<lambda>_. [])"
    by (simp_all add: fl_table_def)
  then show ?thesis using fl_newList_rep by (auto simp: pre_ok_def pre_inv_def intro!: freg.reg_new)
qed

lemma path_b: "PreloadRodsEnv s = envU \<Longrightarrow> preload_getiRODSPath ''/b'' s = Some (0, ''/z/home/u/b'')"
proof -
  obtain coll where "cleanPath ''/z/home/u/b'' = Some (0, ''/z/home/u/b'', coll)"
    using cleanPath_resolve [of "[''z'', ''home'', ''u'', ''b'']" "[''z'', ''home'', ''u'', ''b'']"]
    by (auto simp: components_def pathLenStatus_def)
  then show "PreloadRodsEnv s = envU \<Longrightarrow> preload_getiRODSPath ''/b'' s = Some (0, ''/z/home/u/b'')"
    by (simp add: preload_getiRODSPath_def getiRODSPath_def snprintf_def)
qed


text \<open>A system on which threads cannot be started.\<close>

definition fullOS :: "int os" where
  "fullOS = idleOS\<lparr>os_pthread_create := (\<lambda>w. (11, w))\<rparr>"

lemma fullOS_simps [simp]:
  "os_stat fullOS p w = ((-1, zero_stat), w)" "os_unlink fullOS p w = (0, w)" "os_statfs fullOS p w = ((0, 4096, 0), w)"
  "os_pthread_create fullOS w = (11, w)" "st_size zero_stat = 0"
  by (simp_all add: fullOS_def idleOS_def zero_stat_def)

lemma startPreload_result:
  assumes "pre_inv s" "k \<notin> ran (threadPaths s)"
  shows "\<exists>s'. startPreload OS k sb s = Some (fst (os_pthread_create OS (world s)), s') \<and> pre_inv s' \<and>
     threadPaths s' = (threadPaths s)(preloadFresh s \<mapsto> k) \<and>
     PreloadThreads s' = PreloadThreads s @ (if fst (os_pthread_create OS (world s)) = 0
       then [\<lparr>tdPath = k, tdStbuf = sb, tdThreadInfo = preloadFresh s\<rparr>] else [])"
proof -
  obtain r s' where run: "startPreload OS k sb s = Some (r, s')"
    using wpo_returns [OF startPreload_wp [OF assms]] by fastforce
  moreover have "r = fst (os_pthread_create OS (world s))"
    using run by (cases "os_pthread_create OS (world s)") (auto simp: startPreload_def sys_def bind_eq_Some_conv Let_def)
  ultimately show ?thesis using wpo_post [OF startPreload_wp [OF assms] run] by auto
qed

theorem failed_thread_blocks_path_witness:
  "\<exists>s. preloadFile fullOS ''/b'' zero_stat (ps_start [] 0) = Some (11, s) \<and> isFilePreloading ''/b'' s = Some (0, s)"
proof -
  let ?s = "(ps_start [] 0)\<lparr>locks := (\<lambda>_. 0)(PreloadLock := Suc 0), world := 0\<rparr>"
  have inv: "pre_inv ?s" "''/z/home/u/b'' \<notin> ran (threadPaths ?s)"
    using ps_start_ok [of "[]" 0] by (simp_all add: pre_ok_def ran_def)
  obtain s1 where s1: "startPreload fullOS ''/z/home/u/b'' zero_stat ?s = Some (11, s1)"
    using startPreload_result [OF inv, of fullOS zero_stat] by auto
  have "fl_lookupFromHashTable emptyTable ''/z/home/u/b'' = Some None"
    using threadLookup [OF inv(1), of "''/z/home/u/b''"] inv(2) by auto
  then have run: "preloadFile fullOS ''/b'' zero_stat (ps_start [] 0) = Some (11, s1\<lparr>locks := (locks s1)(PreloadLock := locks s1 PreloadLock - 1)\<rparr>)"
    using s1 path_b [of "ps_start [] (0 :: int)"]
    by (simp add: preloadFile_def withiRODSPath_def lockPreload_def rec_lock_def preloadUnlessCached_def do_hasValidCache_def
        sys_def do_invalidateCache_def isDirectory_def makeRoomInCache_def makeRoomOnDisk_def getEmptySpace_def cacheAt_def
        unlockPreload_def rec_unlock_def)
  from failed_thread_blocks_path [OF ps_start_ok run _ rtranclp.rtrancl_refl] run show ?thesis by auto
qed

theorem second_open_shares_handle_witness:
  "\<exists>s. openPreloadedFile clockOS ''/b'' (ps_start ''/c'' (0 :: int)) = Some (3, s) \<and> openPreloadedFile clockOS ''/b'' s = Some (3, s)"
proof -
  have inv: "pre_inv (ps_start ''/c'' (0 :: int))" using ps_start_ok [of "''/c''" 0] by (simp add: pre_ok_def)
  note p = path_b [of "ps_start ''/c'' (0 :: int)", simplified]
  obtain r s where run: "openPreloadedFile clockOS ''/b'' (ps_start ''/c'' (0 :: int)) = Some (r, s)"
    using wpo_returns [OF openPreloadedFile_wp [OF inv p]] by fastforce
  have "fl_lookupFromHashTable emptyTable ''/z/home/u/b'' = Some None"
    using handleLookup [OF inv, of "''/z/home/u/b''"] by (auto simp: ran_def)
  then have "r = 3" using run p
    by (auto simp: openPreloadedFile_def withiRODSPath_def lockedPreload_def lockPreload_def rec_lock_def openCache_def do_hasCache_def
        sys_def clockOS_def bind_eq_Some_conv Let_def split: if_splits)
  with run second_open_shares_handle [OF inv p _ run] show ?thesis by auto
qed

theorem wait_reads_freed_record_witness:
  "\<exists>s. startPreload idleOS ''/a'' zero_stat (ps_start [] (0 :: int)) = Some (0, s) \<and> waitPreloadJobs idleOS upAPI s = None"
proof -
  have inv: "pre_inv (ps_start [] (0 :: int))" "''/a'' \<notin> ran (threadPaths (ps_start [] (0 :: int)))"
    using ps_start_ok [of "[]" 0] by (simp_all add: pre_ok_def ran_def)
  obtain s where s: "startPreload idleOS ''/a'' zero_stat (ps_start [] (0 :: int)) = Some (0, s)" "pre_inv s"
    "threadPaths s = [0 \<mapsto> ''/a'']" "PreloadThreads s = [\<lparr>tdPath = ''/a'', tdStbuf = zero_stat, tdThreadInfo = 0\<rparr>]"
    using startPreload_result [OF inv, of idleOS zero_stat] by (auto simp: idleOS_def)
  have "a = 0" if "threadHeap s a \<noteq> None" for a using fun_cong [OF s(3), of a] that by (auto split: if_splits)
  with wait_reads_freed_record [OF s(2), of idleOS upAPI] s show ?thesis by auto
qed

theorem evict_oldest_first_witness:
  "wpo (do_evictOldCache treeOS 5 (ps_start ''/c'' (sampleTree, []))) (\<lambda>(r, s'). r = 0)"
proof -
  let ?s = "ps_start ''/c'' (sampleTree, [])" and ?es = "[(''a'', file_of 3), (''d'', FDir [(''b'', file_of 4)])]"
  have at: "treeAt (fst (world ?s)) (pcCachePath (PreloadConfig ?s)) (FDir ?es)"
    by (simp add: sampleTree_def file_of_def isDot_def S_ISDIR_def zero_stat_def cacheAt_def)
  have sum: "5 \<le> sum_list (map sizeOf old)" if "distinct old" "set old = set (filesOf ''/c'' (FDir ?es))" for old
  proof -
    have "sum_list (map sizeOf old) = sum sizeOf (set old)" using that(1) by (rule sum_list_distinct_conv_sum_set)
    with that(2) show ?thesis by (simp add: file_of_def sizeOf_def)
  qed
  show ?thesis
  proof (rule wpo_mono [OF evict_oldest_first [OF treeOS_ok treeOS_unlink at]], goal_cases)
    case 1
    then show ?case by (simp add: file_of_def cacheAt_def)
  next
    case (2 x)
    have cp: "pcCachePath (PreloadConfig ?s) = ''/c''" by (simp add: cacheAt_def)
    from 2 [unfolded cp] obtain r s' es' old where x: "x = (r, s')" and e: "filesOf ''/c'' (FDir es') = filter (\<lambda>f. f \<notin> set old) (filesOf ''/c'' (FDir ?es))"
      "set old \<subseteq> set (filesOf ''/c'' (FDir ?es))" "distinct old"
      "if 5 \<le> sum_list (map sizeOf old) then r = 0 else r = -1 \<and> filesOf ''/c'' (FDir es') = []"
      by (cases x) (auto simp del: filesOf.simps treeAt.simps)
    have "set old = set (filesOf ''/c'' (FDir ?es))" if "filesOf ''/c'' (FDir es') = []"
      using e(2) e(1) [symmetric] that by (auto simp: filter_empty_conv simp del: filesOf.simps)
    then have "5 \<le> sum_list (map sizeOf old)" using e(3,4) sum [of old] by argo
    with e(4) show ?case unfolding x by simp
  qed
qed

end
