(* ===== verification/Lazy_Upload.thy ===== *)
theory Lazy_Upload
  imports Preload
begin

text \<open>
  The upload buffer of \<open>clients/fuse/src/iFuseLib.LazyUpload.c\<close>: a file created and opened for writing is
  written to a local buffer file, which is put to the server as a whole on the first commit and
  appended through the descriptor of the handler on later ones. A record is registered under its
  path as created and moves to the opened ones when the file is opened; both registries share one
  heap of records. \<open>LazyUploadLock\<close> is recursive. \<open>fi->fh\<close> of FUSE points to a cell that holds the index of
  the descriptor (\<open>iFuseOper.h\<close>), so the cells are part of the state.
\<close>

section \<open>State\<close>

record lazyUploadConfig_t =
  luLazyUpload :: int
  luBufferPath :: string

record lazyUploadFileInfo_t =
  luPath :: string
  luAccmode :: int
  luLocalHandle :: int
  luCommitCount :: int
  luCurLocalOffsetStart :: int
  luCurOffset :: int

record 'w lstate = "'w pstate" +
  LazyUploadConfig :: lazyUploadConfig_t
  LazyUploadRodsEnv :: rodsEnv
  LazyCreatedList :: "nat fl_List"
  LazyOpenedList :: "nat fl_List"
  LazyCreatedTable :: "nat fl_Hashtable"
  LazyOpenedTable :: "nat fl_Hashtable"
  lazyHeap :: "nat \<rightharpoonup> lazyUploadFileInfo_t"
  lazyFresh :: nat
  fhCells :: "nat \<rightharpoonup> int"
  fhFresh :: nat

abbreviation (input) NUM_LAZYUPLOAD_FILE_HASH_SLOT :: nat where "NUM_LAZYUPLOAD_FILE_HASH_SLOT \<equiv> 201"
abbreviation (input) FUSE_LAZY_UPLOAD_MEM_BUFFER_SIZE :: int where "FUSE_LAZY_UPLOAD_MEM_BUFFER_SIZE \<equiv> 512000"
abbreviation (input) O_APPEND :: int where "O_APPEND \<equiv> 1024"

definition lockLazyUpload :: "('w, 'z) base_scheme \<Rightarrow> ('w, 'z) base_scheme option" where
  "lockLazyUpload s = rec_lock LazyUploadLock s"

definition unlockLazyUpload :: "('w, 'z) base_scheme \<Rightarrow> ('w, 'z) base_scheme option" where
  "unlockLazyUpload s = rec_unlock LazyUploadLock s"

text \<open>\<open>iFuseConn->conn\<close>\<close>

definition connField :: "nat option \<Rightarrow> ('w, 'z) fstate_scheme \<Rightarrow> rcComm option option" where
  "connField iFuseConn s = do { a \<leftarrow> iFuseConn; c \<leftarrow> connHeap s a; Some (fcConn c) }"

definition GET_IFUSE_DESC_INDEX :: "nat \<Rightarrow> ('w, 'z) lstate_scheme \<Rightarrow> int option" where
  "GET_IFUSE_DESC_INDEX fi s = fhCells s fi"

definition SET_IFUSE_DESC_INDEX :: "nat \<Rightarrow> int \<Rightarrow> ('w, 'z) lstate_scheme \<Rightarrow> ('w, 'z) lstate_scheme option" where
  "SET_IFUSE_DESC_INDEX fi i s = do { _ \<leftarrow> fhCells s fi; Some (s\<lparr>fhCells := (fhCells s)(fi \<mapsto> i)\<rparr>) }"

section \<open>Helpers\<close>

definition lazy_getiRODSPath :: "string \<Rightarrow> ('w, 'z) lstate_scheme \<Rightarrow> (int \<times> string) option" where
  "lazy_getiRODSPath path s = getiRODSPath path [] (envHome (LazyUploadRodsEnv s)) (envCwd (LazyUploadRodsEnv s))"

definition do_getBufferPath :: "string \<Rightarrow> ('w, 'z) lstate_scheme \<Rightarrow> string" where
  "do_getBufferPath iRODSPath s =
     (if length iRODSPath > 0 \<and> iRODSPath ! 0 = slash then snprintf MAX_NAME_LEN (luBufferPath (LazyUploadConfig s) @ iRODSPath)
      else snprintf MAX_NAME_LEN (luBufferPath (LazyUploadConfig s) @ ''/'' @ iRODSPath))"

definition withLazyPath ::
  "string \<Rightarrow> (string \<Rightarrow> ('w, 'z) lstate_scheme \<Rightarrow> (int \<times> ('w, 'z) lstate_scheme) option) \<Rightarrow>
   ('w, 'z) lstate_scheme \<Rightarrow> (int \<times> ('w, 'z) lstate_scheme) option" where
  "withLazyPath path body s = do {
     (status, iRODSPath) \<leftarrow> lazy_getiRODSPath path s;
     if status < 0 then Some (status, s) else body iRODSPath s
   }"

definition do_prepareBufferDir :: "'w os \<Rightarrow> string \<Rightarrow> ('w, 'z) lstate_scheme \<Rightarrow> (int \<times> ('w, 'z) lstate_scheme) option" where
  "do_prepareBufferDir OS path s = makeDirs OS path s"

definition do_removeAllBufferedFiles :: "'w os \<Rightarrow> ('w, 'z) lstate_scheme \<Rightarrow> (int \<times> ('w, 'z) lstate_scheme) option" where
  "do_removeAllBufferedFiles OS s = do {
     (status, s) \<leftarrow> emptyDir OS (luBufferPath (LazyUploadConfig s)) s;
     Some (if status < 0 then status else 0, s)
   }"

definition do_clearCache :: "'w os \<Rightarrow> string \<Rightarrow> ('w, 'z) lstate_scheme \<Rightarrow> ('w, 'z) lstate_scheme option" where
  "do_clearCache OS path s = do { (_, s) \<leftarrow> rmPathFromCache OS path PathArray s; Some s }"

definition do_isLazyUploadFile :: "string \<Rightarrow> ('w, 'z) lstate_scheme \<Rightarrow> int option" where
  "do_isLazyUploadFile iRODSPath s = do {
     info \<leftarrow> fl_lookupFromHashTable (LazyOpenedTable s) iRODSPath;
     Some (if info = None then -1 else 0)
   }"

text \<open>The buffer file is put into the collection of the object, under the name of the buffer file.\<close>

definition do_upload :: "'w os \<Rightarrow> 'w irods \<Rightarrow> string \<Rightarrow> ('w, 'z) lstate_scheme \<Rightarrow> (int \<times> ('w, 'z) lstate_scheme) option" where
  "do_upload OS API iRODSPath s =
     (case getParentDir iRODSPath [] of (status, destiRODSDir) \<Rightarrow>
      if status < 0 then Some (status, s)
      else do {
        let bufferPath = do_getBufferPath iRODSPath s;
        ((status, srcPath), s) \<leftarrow> parseLocalPath OS (addSrcInPath bufferPath) s;
        if status < 0 then Some (status, s)
        else do {
          (status, destPath) \<leftarrow> parseRodsPath
             (zero_rodsPath\<lparr>rp_inPath := snd (rstrcpy [] destiRODSDir (int MAX_NAME_LEN))\<rparr>) (Some (LazyUploadRodsEnv s));
          if status < 0 then Some (status, s)
          else do {
            ((status, conn), s) \<leftarrow> connectLogin API (LazyUploadRodsEnv s) s;
            (case conn of
               None \<Rightarrow> Some (status, s)
             | Some c \<Rightarrow> do {
                 (status, s) \<leftarrow> sys (putUtil API (Some c) srcPath destPath) s;
                 (_, s) \<leftarrow> sys (rcDisconnect API c) s;
                 Some (if status < 0 then status else 0, s)
               })
          }
        }
      })"

section \<open>Committing the buffer\<close>

text \<open>The first commit: the descriptor of the handler is closed and freed, the buffer is put, and the
  object is opened again into a new descriptor, whose index goes into the cell of \<open>fi\<close>.\<close>

definition reopenObject ::
  "'w os \<Rightarrow> 'w irods \<Rightarrow> string \<Rightarrow> string \<Rightarrow> string \<Rightarrow> nat \<Rightarrow> ('w, 'z) lstate_scheme \<Rightarrow> (int \<times> ('w, 'z) lstate_scheme) option" where
  "reopenObject OS API path iRODSPath objPath fi s = do {
     let dataObjInp = zero_dataObjInp\<lparr>di_openFlags := O_RDWR OR O_APPEND, di_objPath := snd (rstrcpy [] objPath (int MAX_NAME_LEN))\<rparr>;
     ((_, iFuseConn), s) \<leftarrow> getIFuseConnByPath OS API path s;
     conn \<leftarrow> connField iFuseConn s;
     (fd, s) \<leftarrow> sys (rcDataObjOpen API conn dataObjInp) s;
     (fd, s) \<leftarrow>
       (if fd < 0 then do {
          (fd, s) \<leftarrow> (if isReadMsgError fd \<noteq> 0 then do {
             (_, s) \<leftarrow> ifuseReconnect API iFuseConn s;
             conn \<leftarrow> connField iFuseConn s;
             sys (rcDataObjOpen API conn dataObjInp) s
           } else Some (fd, s));
          (_, s) \<leftarrow> relIFuseConn OS iFuseConn s;
          Some (fd, s)
        } else Some (fd, s));
     if fd < 0 then Some (- ENOENT, s)
     else do {
       (descInx, s) \<leftarrow> allocIFuseDesc s;
       if descInx < 0 then do {
         (_, s) \<leftarrow> relIFuseConn OS iFuseConn s;
         Some (- ENOENT, s)
       } else do {
         (_, s) \<leftarrow> fillIFuseDesc descInx iFuseConn fd (Some (di_objPath dataObjInp)) (Some iRODSPath) s;
         (_, s) \<leftarrow> relIFuseConn OS iFuseConn s;
         s \<leftarrow> SET_IFUSE_DESC_INDEX fi descInx s;
         Some (0, s)
       }
     }
   }"

definition putBuffer ::
  "'w os \<Rightarrow> 'w irods \<Rightarrow> string \<Rightarrow> string \<Rightarrow> nat \<Rightarrow> ('w, 'z) lstate_scheme \<Rightarrow> (int \<times> ('w, 'z) lstate_scheme) option" where
  "putBuffer OS API path iRODSPath fi s = do {
     descInx \<leftarrow> GET_IFUSE_DESC_INDEX fi s;
     if checkFuseDesc descInx s < 0 then Some (- EBADF, s)
     else do {
       (status, s) \<leftarrow> ifuseClose OS API path descInx s;
       (_, s) \<leftarrow> freeIFuseDesc OS descInx s;
       if status < 0 then Some (negErrno status, s)
       else do {
         (status, s) \<leftarrow> do_upload OS API iRODSPath s;
         if status \<noteq> 0 then Some (status, s)
         else do {
           s \<leftarrow> do_clearCache OS path s;
           (stk, s) \<leftarrow> sys (os_stackPath OS) s;
           (status, objPath) \<leftarrow> parseRodsPathStr stk (drop 1 path) (Some (LazyUploadRodsEnv s)) [];
           if status < 0 then Some (- ENOTDIR, s)
           else reopenObject OS API path iRODSPath objPath fi s
         }
       }
     }
   }"

text \<open>Later commits: the buffer is read in blocks of 512000 bytes, each written to the descriptor.\<close>

partial_function (option) readBlock ::
  "'w os \<Rightarrow> int \<Rightarrow> int \<times> string \<times> int \<Rightarrow> ('w, 'z) base_scheme \<Rightarrow> ((int \<times> string \<times> int) \<times> ('w, 'z) base_scheme) option" where
  "readBlock OS localDesc x s = (case x of (totalReadLen, buffer, status) \<Rightarrow>
     if totalReadLen < FUSE_LAZY_UPLOAD_MEM_BUFFER_SIZE then do {
       ((readLen, bytes), s) \<leftarrow> sys (os_read OS localDesc (FUSE_LAZY_UPLOAD_MEM_BUFFER_SIZE - totalReadLen)) s;
       if readLen > 0 then readBlock OS localDesc (totalReadLen + readLen, buffer @ bytes, status) s
       else if readLen = 0 then Some ((totalReadLen, buffer, status), s)
       else Some ((totalReadLen, buffer, getErrno readLen), s)
     } else Some ((totalReadLen, buffer, status), s))"

record appendJob =
  aj_path :: string
  aj_descInx :: int
  aj_base :: int
  aj_localDesc :: int
  aj_curOffset :: int

text \<open>\<open>Inl r\<close> is the return of the whole function with \<open>r\<close>, \<open>Inr\<close> the variable \<open>status\<close> after the loop.\<close>

partial_function (option) writeBlock ::
  "'w os \<Rightarrow> 'w irods \<Rightarrow> appendJob \<Rightarrow> string \<Rightarrow> int \<times> int \<times> int \<Rightarrow> ('w, 'z) lstate_scheme \<Rightarrow> ((int + int) \<times> ('w, 'z) lstate_scheme) option" where
  "writeBlock OS API J buffer x s = (case x of (totalReadLen, totalWriteLen, status) \<Rightarrow>
     if totalWriteLen < totalReadLen then do {
       (status, s) \<leftarrow> ifuseLseek OS API (aj_path J) (aj_descInx J) (aj_base J + totalWriteLen) s;
       if status < 0 then do {
         (_, s) \<leftarrow> unlockDesc (aj_descInx J) s;
         Some (Inl (negErrno status), s)
       } else do {
         (writeLen, s) \<leftarrow> ifuseWrite OS API (aj_path J) (aj_descInx J)
            (take (nat (totalReadLen - totalWriteLen)) (drop (nat totalWriteLen) buffer)) s;
         if writeLen > 0 then writeBlock OS API J buffer (totalReadLen, totalWriteLen + writeLen, status) s
         else if writeLen = 0 then Some (Inr status, s)
         else Some (Inr (getErrno writeLen), s)
       }
     } else Some (Inr status, s))"

partial_function (option) append_loop ::
  "'w os \<Rightarrow> 'w irods \<Rightarrow> appendJob \<Rightarrow> int \<times> int \<Rightarrow> ('w, 'z) lstate_scheme \<Rightarrow> ((int + int) \<times> ('w, 'z) lstate_scheme) option" where
  "append_loop OS API J x s = (case x of (grandTotalReadLen, status) \<Rightarrow>
     if grandTotalReadLen < aj_curOffset J then do {
       ((totalReadLen, buffer, status), s) \<leftarrow> readBlock OS (aj_localDesc J) (0, [], status) s;
       (r, s) \<leftarrow> (if status \<ge> 0 then writeBlock OS API J buffer (totalReadLen, 0, status) s else Some (Inr status, s));
       (case r of
          Inl ret \<Rightarrow> Some (Inl ret, s)
        | Inr status \<Rightarrow> append_loop OS API J (toInt32 (grandTotalReadLen + totalReadLen), status) s)
     } else Some (Inr status, s))"

definition appendBuffer ::
  "'w os \<Rightarrow> 'w irods \<Rightarrow> string \<Rightarrow> string \<Rightarrow> nat \<Rightarrow> lazyUploadFileInfo_t \<Rightarrow> ('w, 'z) lstate_scheme \<Rightarrow> (int \<times> ('w, 'z) lstate_scheme) option" where
  "appendBuffer OS API path bufferPath fi info s = do {
     (localDesc, s) \<leftarrow> sys (os_open OS bufferPath O_RDONLY 0x1ED) s;
     if localDesc < 0 then Some (- ENOENT, s)
     else do {
       descInx \<leftarrow> GET_IFUSE_DESC_INDEX fi s;
       if checkFuseDesc descInx s < 0 then Some (- EBADF, s)
       else do {
         (_, s) \<leftarrow> lockDesc descInx s;
         (r, s) \<leftarrow> append_loop OS API \<lparr>aj_path = path, aj_descInx = descInx, aj_base = luCurLocalOffsetStart info,
            aj_localDesc = localDesc, aj_curOffset = luCurOffset info\<rparr> (0, 0) s;
         (case r of
            Inl ret \<Rightarrow> Some (ret, s)
          | Inr _ \<Rightarrow> do {
              (_, s) \<leftarrow> unlockDesc descInx s;
              (_, s) \<leftarrow> sys (os_close OS localDesc) s;
              Some (0, s)
            })
       }
     }
   }"

definition setInfo :: "nat \<Rightarrow> lazyUploadFileInfo_t \<Rightarrow> ('w, 'z) lstate_scheme \<Rightarrow> ('w, 'z) lstate_scheme" where
  "setInfo a info s = s\<lparr>lazyHeap := (lazyHeap s)(a \<mapsto> info)\<rparr>"

definition do_commitLocalBuffer ::
  "'w os \<Rightarrow> 'w irods \<Rightarrow> string \<Rightarrow> nat \<Rightarrow> nat \<Rightarrow> ('w, 'z) lstate_scheme \<Rightarrow> (int \<times> ('w, 'z) lstate_scheme) option" where
  "do_commitLocalBuffer OS API path fi a = withLazyPath path (\<lambda>iRODSPath s. do {
     let bufferPath = do_getBufferPath iRODSPath s;
     info \<leftarrow> lazyHeap s a;
     if luLocalHandle info < 0 then Some (- EBADF, s)
     else if luCurOffset info = 0 then Some (0, s)
     else do {
       (_, s) \<leftarrow> sys (os_fsync OS (luLocalHandle info)) s;
       (_, s) \<leftarrow> sys (os_close OS (luLocalHandle info)) s;
       let info = info\<lparr>luLocalHandle := -1\<rparr>;
       let s = setInfo a info s;
       (status, s) \<leftarrow> (if luCommitCount info = 0 then putBuffer OS API path iRODSPath fi s
                       else appendBuffer OS API path bufferPath fi info s);
       if status < 0 \<or> luCommitCount info = 0 \<and> status \<noteq> 0 then Some (status, s)
       else do {
         (desc, s) \<leftarrow> sys (os_open OS bufferPath (O_RDWR OR O_CREAT OR O_TRUNC) 0x1ED) s;
         Some (0, setInfo a (info\<lparr>luLocalHandle := desc, luCommitCount := luCommitCount info + 1,
           luCurLocalOffsetStart := luCurLocalOffsetStart info + luCurOffset info, luCurOffset := 0\<rparr>) s)
       }
     }
   })"

section \<open>Public functions\<close>

definition initLazyUpload ::
  "'w os \<Rightarrow> lazyUploadConfig_t \<Rightarrow> rodsEnv \<Rightarrow> ('w, 'z) lstate_scheme \<Rightarrow> (int \<times> ('w, 'z) lstate_scheme) option" where
  "initLazyUpload OS lazyUploadConfig myLazyUploadRodsEnv s = do {
     (_, s) \<leftarrow> getEmptySpace OS (luBufferPath lazyUploadConfig) s;
     t1 \<leftarrow> fl_newHashTable True NUM_LAZYUPLOAD_FILE_HASH_SLOT;
     t2 \<leftarrow> fl_newHashTable True NUM_LAZYUPLOAD_FILE_HASH_SLOT;
     let s = s\<lparr>LazyUploadConfig := lazyUploadConfig, LazyUploadRodsEnv := myLazyUploadRodsEnv, LazyCreatedTable := t1,
       LazyOpenedTable := t2, LazyCreatedList := fl_newList, LazyOpenedList := fl_newList,
       locks := (locks s)(LazyUploadLock := 0)\<rparr>;
     (_, s) \<leftarrow> do_prepareBufferDir OS (luBufferPath lazyUploadConfig) s;
     (_, s) \<leftarrow> do_removeAllBufferedFiles OS s;
     Some (0, s)
   }"

fun freeInfos_loop :: "nat \<Rightarrow> nat fl_List \<Rightarrow> ('w, 'z) lstate_scheme \<Rightarrow> (nat fl_List \<times> ('w, 'z) lstate_scheme) option" where
  "freeInfos_loop 0 l s = Some (l, s)"
| "freeInfos_loop (Suc n) l s = do {
     (info, l) \<leftarrow> fl_removeFirstElementOfConcurrentList l;
     s \<leftarrow> (case info of
        None \<Rightarrow> Some s
      | Some a \<Rightarrow> do { _ \<leftarrow> lazyHeap s a; Some (s\<lparr>lazyHeap := (lazyHeap s)(a := None)\<rparr>) });
     freeInfos_loop n l s
   }"

definition uninitLazyUpload :: "'w os \<Rightarrow> ('w, 'z) lstate_scheme \<Rightarrow> (int \<times> ('w, 'z) lstate_scheme) option" where
  "uninitLazyUpload OS s = do {
     (_, s) \<leftarrow> do_removeAllBufferedFiles OS s;
     (l, s) \<leftarrow> freeInfos_loop (nat (fl_listSize (LazyCreatedList s))) (LazyCreatedList s) s;
     let s = s\<lparr>LazyCreatedList := l\<rparr>;
     (l, s) \<leftarrow> freeInfos_loop (nat (fl_listSize (LazyOpenedList s))) (LazyOpenedList s) s;
     let s = s\<lparr>LazyOpenedList := l\<rparr>;
     l1 \<leftarrow> fl_clearList (LazyCreatedList s);
     l2 \<leftarrow> fl_clearList (LazyOpenedList s);
     let s = s\<lparr>LazyCreatedList := l1, LazyOpenedList := l2,
       LazyCreatedTable := (LazyCreatedTable s)\<lparr>buckets := [], hsize := 0\<rparr>,
       LazyOpenedTable := (LazyOpenedTable s)\<lparr>buckets := [], hsize := 0\<rparr>\<rparr>;
     Some (0, s)
   }"

definition isLazyUploadEnabled :: "('w, 'z) lstate_scheme \<Rightarrow> int" where
  "isLazyUploadEnabled s = (if luLazyUpload (LazyUploadConfig s) = 0 then -1 else 0)"

definition isFileLazyUploading :: "string \<Rightarrow> ('w, 'z) lstate_scheme \<Rightarrow> (int \<times> ('w, 'z) lstate_scheme) option" where
  "isFileLazyUploading path = withLazyPath path (\<lambda>iRODSPath s. do {
     s \<leftarrow> lockLazyUpload s;
     status \<leftarrow> do_isLazyUploadFile iRODSPath s;
     s \<leftarrow> unlockLazyUpload s;
     Some (status, s)
   })"

definition mknodLazyUploadBufferedFile :: "'w os \<Rightarrow> string \<Rightarrow> ('w, 'z) lstate_scheme \<Rightarrow> (int \<times> ('w, 'z) lstate_scheme) option" where
  "mknodLazyUploadBufferedFile OS path s = do {
     (status, iRODSPath) \<leftarrow> lazy_getiRODSPath path s;
     if status < 0 then Some (status, s)
     else do {
       let bufferPath = do_getBufferPath iRODSPath s;
       s \<leftarrow> lockLazyUpload s;
       (_, s) \<leftarrow> makeParentDirs OS bufferPath s;
       (desc, s) \<leftarrow> sys (os_open OS bufferPath (O_RDWR OR O_CREAT OR O_TRUNC) 0x1ED) s;
       (_, s) \<leftarrow> sys (os_close OS desc) s;
       let a = lazyFresh s;
       let s = s\<lparr>lazyHeap := (lazyHeap s)(a \<mapsto> \<lparr>luPath = iRODSPath, luAccmode = 0, luLocalHandle = -1, luCommitCount = 0,
           luCurLocalOffsetStart = 0, luCurOffset = 0\<rparr>), lazyFresh := Suc a\<rparr>;
       l \<leftarrow> fl_listAppend (LazyCreatedList s) a;
       (_, t) \<leftarrow> fl_insertIntoHashTable True (LazyCreatedTable s) iRODSPath a;
       s \<leftarrow> unlockLazyUpload (s\<lparr>LazyCreatedList := l, LazyCreatedTable := t\<rparr>);
       Some (0, s)
     }
   }"

text \<open>A record moves from the created files to the opened ones.\<close>

definition moveToOpened :: "nat \<Rightarrow> string \<Rightarrow> ('w, 'z) lstate_scheme \<Rightarrow> ('w, 'z) lstate_scheme option" where
  "moveToOpened a iRODSPath s = do {
     l \<leftarrow> fl_listRemove2 (LazyCreatedList s) a;
     (_, t) \<leftarrow> fl_deleteFromHashTable (LazyCreatedTable s) iRODSPath;
     l' \<leftarrow> fl_listAppend (LazyOpenedList s) a;
     (_, t') \<leftarrow> fl_insertIntoHashTable True (LazyOpenedTable s) iRODSPath a;
     Some (s\<lparr>LazyCreatedList := l, LazyCreatedTable := t, LazyOpenedList := l', LazyOpenedTable := t'\<rparr>)
   }"

definition openLazyUploadBufferedFile ::
  "'w os \<Rightarrow> string \<Rightarrow> int \<Rightarrow> ('w, 'z) lstate_scheme \<Rightarrow> (int \<times> ('w, 'z) lstate_scheme) option" where
  "openLazyUploadBufferedFile OS path accmode = withLazyPath path (\<lambda>iRODSPath s. do {
     let bufferPath = do_getBufferPath iRODSPath s;
     s \<leftarrow> lockLazyUpload s;
     opened \<leftarrow> fl_lookupFromHashTable (LazyOpenedTable s) iRODSPath;
     if opened \<noteq> None then do { s \<leftarrow> unlockLazyUpload s; Some (- EMFILE, s) }
     else do {
       created \<leftarrow> fl_lookupFromHashTable (LazyCreatedTable s) iRODSPath;
       (case created of
          None \<Rightarrow> do { s \<leftarrow> unlockLazyUpload s; Some (- EBADF, s) }
        | Some a \<Rightarrow> do {
            info \<leftarrow> lazyHeap s a;
            if luLocalHandle info > 0 then do { s \<leftarrow> unlockLazyUpload s; Some (- EMFILE, s) }
            else do {
              (desc, s) \<leftarrow> sys (os_open OS bufferPath (O_RDWR OR O_CREAT OR O_TRUNC) 0x1ED) s;
              s \<leftarrow> (if desc > 0 then moveToOpened a iRODSPath (setInfo a (info\<lparr>luAccmode := accmode, luLocalHandle := desc\<rparr>) s)
                    else Some s);
              s \<leftarrow> unlockLazyUpload s;
              Some (desc, s)
            }
          })
     }
   })"

text \<open>A write before the start of the buffer: the buffer is committed and the data written to the server.
  When seeking fails, or there is nothing to write, the function returns with \<open>LazyUploadLock\<close> held.\<close>

definition writeBehind ::
  "'w os \<Rightarrow> 'w irods \<Rightarrow> string \<Rightarrow> string \<Rightarrow> int \<Rightarrow> nat \<Rightarrow> nat \<Rightarrow> ('w, 'z) lstate_scheme \<Rightarrow> (int \<times> ('w, 'z) lstate_scheme) option" where
  "writeBehind OS API path buf offset fi a s = do {
     (status, s) \<leftarrow> do_commitLocalBuffer OS API path fi a s;
     if status < 0 then do { s \<leftarrow> unlockLazyUpload s; Some (status, s) }
     else do {
       descInx \<leftarrow> GET_IFUSE_DESC_INDEX fi s;
       if checkFuseDesc descInx s < 0 then do { s \<leftarrow> unlockLazyUpload s; Some (- EBADF, s) }
       else do {
         (_, s) \<leftarrow> lockDesc descInx s;
         (status, s) \<leftarrow> ifuseLseek OS API path descInx offset s;
         if status < 0 then do { (_, s) \<leftarrow> unlockDesc descInx s; Some (negErrno status, s) }
         else if length buf = 0 then do { (_, s) \<leftarrow> unlockDesc descInx s; Some (0, s) }
         else do {
           (status, s) \<leftarrow> ifuseWrite OS API path descInx buf s;
           (_, s) \<leftarrow> unlockDesc descInx s;
           s \<leftarrow> unlockLazyUpload s;
           Some (status, s)
         }
       }
     }
   }"

text \<open>Writing to the buffer file: the result of a seek that went wrong, or of the write with the record updated.\<close>

definition writeLocal ::
  "'w os \<Rightarrow> string \<Rightarrow> int \<Rightarrow> nat \<Rightarrow> ('w, 'z) lstate_scheme \<Rightarrow> ((int + int) \<times> ('w, 'z) lstate_scheme) option" where
  "writeLocal OS buf offset a s = do {
     info \<leftarrow> lazyHeap s a;
     let pos = offset - luCurLocalOffsetStart info;
     (seek_status, s) \<leftarrow> sys (os_lseek OS (luLocalHandle info) pos) s;
     if seek_status \<noteq> pos then Some (Inl (toInt32 seek_status), s)
     else do {
       (status, s) \<leftarrow> sys (os_write OS (luLocalHandle info) buf) s;
       Some (Inr status, if status \<ge> 0 then setInfo a (info\<lparr>luCurOffset := luCurOffset info + status\<rparr>) s else s)
     }
   }"

definition writeLazyUploadBufferedFile ::
  "'w os \<Rightarrow> 'w irods \<Rightarrow> string \<Rightarrow> string \<Rightarrow> int \<Rightarrow> nat \<Rightarrow> ('w, 'z) lstate_scheme \<Rightarrow> (int \<times> ('w, 'z) lstate_scheme) option" where
  "writeLazyUploadBufferedFile OS API path buf offset fi = withLazyPath path (\<lambda>iRODSPath s. do {
     s \<leftarrow> lockLazyUpload s;
     opened \<leftarrow> fl_lookupFromHashTable (LazyOpenedTable s) iRODSPath;
     (case opened of
        None \<Rightarrow> do { s \<leftarrow> unlockLazyUpload s; Some (- EBADF, s) }
      | Some a \<Rightarrow> do {
          info \<leftarrow> lazyHeap s a;
          if luLocalHandle info < 0 then do { s \<leftarrow> unlockLazyUpload s; Some (- EBADF, s) }
          else if offset - luCurLocalOffsetStart info < 0 then writeBehind OS API path buf offset fi a s
          else do {
            (r, s) \<leftarrow> writeLocal OS buf offset a s;
            (case r of
               Inl ret \<Rightarrow> do { s \<leftarrow> unlockLazyUpload s; Some (ret, s) }
             | Inr status \<Rightarrow> do {
                 (e, s) \<leftarrow> (if status < 0 then sys (os_errno OS) s else Some (0, s));
                 if status < 0 \<and> e = ENOSPC then do {
                   (status, s) \<leftarrow> do_commitLocalBuffer OS API path fi a s;
                   if status < 0 then do { s \<leftarrow> unlockLazyUpload s; Some (status, s) }
                   else do {
                     (r, s) \<leftarrow> writeLocal OS buf offset a s;
                     s \<leftarrow> unlockLazyUpload s;
                     Some (case r of Inl ret \<Rightarrow> ret | Inr status \<Rightarrow> status, s)
                   }
                 } else do { s \<leftarrow> unlockLazyUpload s; Some (status, s) }
               })
          }
        })
   })"

definition syncLazyUploadBufferedFile ::
  "'w os \<Rightarrow> 'w irods \<Rightarrow> string \<Rightarrow> nat \<Rightarrow> ('w, 'z) lstate_scheme \<Rightarrow> (int \<times> ('w, 'z) lstate_scheme) option" where
  "syncLazyUploadBufferedFile OS API path fi s = do {
     (status, iRODSPath) \<leftarrow> lazy_getiRODSPath path s;
     if status < 0 then Some (status, s)
     else do {
       s \<leftarrow> lockLazyUpload s;
       opened \<leftarrow> fl_lookupFromHashTable (LazyOpenedTable s) iRODSPath;
       (status, s) \<leftarrow> (case opened of None \<Rightarrow> Some (status, s) | Some a \<Rightarrow> do_commitLocalBuffer OS API path fi a s);
       s \<leftarrow> unlockLazyUpload s;
       Some (status, s)
     }
   }"

definition closeLazyUploadBufferedFile :: "'w os \<Rightarrow> string \<Rightarrow> ('w, 'z) lstate_scheme \<Rightarrow> (int \<times> ('w, 'z) lstate_scheme) option" where
  "closeLazyUploadBufferedFile OS path s = do {
     (status, iRODSPath) \<leftarrow> lazy_getiRODSPath path s;
     if status < 0 then Some (status, s)
     else do {
       let bufferPath = do_getBufferPath iRODSPath s;
       s \<leftarrow> lockLazyUpload s;
       (_, s) \<leftarrow> sys (os_unlink OS bufferPath) s;
       opened \<leftarrow> fl_lookupFromHashTable (LazyOpenedTable s) iRODSPath;
       s \<leftarrow> (case opened of
          None \<Rightarrow> Some s
        | Some a \<Rightarrow> do {
            info \<leftarrow> lazyHeap s a;
            s \<leftarrow> (if luLocalHandle info > 0 then do {
                     (_, s) \<leftarrow> sys (os_close OS (luLocalHandle info)) s;
                     Some (setInfo a (info\<lparr>luLocalHandle := -1\<rparr>) s)
                   } else Some s);
            l \<leftarrow> fl_listRemove2 (LazyOpenedList s) a;
            (_, t) \<leftarrow> fl_deleteFromHashTable (LazyOpenedTable s) iRODSPath;
            Some (s\<lparr>LazyOpenedList := l, LazyOpenedTable := t, lazyHeap := (lazyHeap s)(a := None)\<rparr>)
          });
       s \<leftarrow> unlockLazyUpload s;
       Some (0, s)
     }
   }"

section \<open>The registries\<close>

text \<open>The created and the opened files share the heap; every record is in exactly one of the registries.\<close>

definition lazyPaths :: "('w, 'z) lstate_scheme \<Rightarrow> nat \<rightharpoonup> string" where
  "lazyPaths s = (\<lambda>a. map_option luPath (lazyHeap s a))"

definition lazy_reg :: "nat set \<Rightarrow> nat set \<Rightarrow> ('w, 'z) lstate_scheme \<Rightarrow> bool" where
  "lazy_reg C P s \<longleftrightarrow> C \<inter> P = {} \<and> dom (lazyHeap s) = C \<union> P \<and> (\<forall>a \<in> C \<union> P. a < lazyFresh s) \<and>
     freg.reg (LazyCreatedTable s) (LazyCreatedList s) (lazyPaths s |` C) \<and>
     freg.reg (LazyOpenedTable s) (LazyOpenedList s) (lazyPaths s |` P)"

definition lazyCreated :: "('w, 'z) lstate_scheme \<Rightarrow> string \<Rightarrow> bool" where
  "lazyCreated s k \<longleftrightarrow> (\<exists>a. fl_lookupFromHashTable (LazyCreatedTable s) k = Some (Some a))"

definition lazyOpened :: "('w, 'z) lstate_scheme \<Rightarrow> string \<Rightarrow> bool" where
  "lazyOpened s k \<longleftrightarrow> (\<exists>a. fl_lookupFromHashTable (LazyOpenedTable s) k = Some (Some a))"

lemma lazy_reg_upd [simp]:
  "lazy_reg C P (s\<lparr>world := w\<rparr>) = lazy_reg C P s" "lazy_reg C P (s\<lparr>locks := k\<rparr>) = lazy_reg C P s"
  by (simp_all add: lazy_reg_def lazyPaths_def)

definition lazy_ok :: "('w, 'z) lstate_scheme \<Rightarrow> bool" where
  "lazy_ok s \<longleftrightarrow> (\<exists>C P. lazy_reg C P s)"

lemma lazy_okI: "lazy_reg C P s \<Longrightarrow> lazy_ok s"
  by (auto simp: lazy_ok_def)

lemma lazy_ok_upd [simp]: "lazy_ok (s\<lparr>world := w\<rparr>) = lazy_ok s" "lazy_ok (s\<lparr>locks := k\<rparr>) = lazy_ok s"
  by (simp_all add: lazy_ok_def)

text \<open>Changing a record under its path.\<close>

lemma lazy_reg_setInfo:
  assumes "lazy_reg C P s" "lazyHeap s a = Some i" "luPath i' = luPath i"
  shows "lazy_reg C P (setInfo a i' s)"
proof -
  have "lazyPaths (setInfo a i' s) = lazyPaths s" using assms(2,3) by (auto simp: lazyPaths_def setInfo_def fun_eq_iff)
  moreover have "dom (lazyHeap (setInfo a i' s)) = dom (lazyHeap s)" using assms(2) by (auto simp: setInfo_def)
  ultimately show ?thesis using assms(1) unfolding lazy_reg_def by (simp add: setInfo_def)
qed

lemma restrict_iff: "(lazyPaths s |` A) a = Some k \<longleftrightarrow> a \<in> A \<and> (\<exists>i. lazyHeap s a = Some i \<and> luPath i = k)"
  by (auto simp: restrict_map_def lazyPaths_def)

lemma created_lookup:
  assumes "lazy_reg C P s"
  shows "\<exists>r. fl_lookupFromHashTable (LazyCreatedTable s) k = Some r \<and> (\<forall>a. r = Some a \<longleftrightarrow> a \<in> C \<and> (\<exists>i. lazyHeap s a = Some i \<and> luPath i = k))"
proof -
  have "freg.reg (LazyCreatedTable s) (LazyCreatedList s) (lazyPaths s |` C)" using assms by (simp add: lazy_reg_def)
  from freg.reg_lookup [OF this, of k] show ?thesis unfolding restrict_iff by blast
qed

lemma opened_lookup:
  assumes "lazy_reg C P s"
  shows "\<exists>r. fl_lookupFromHashTable (LazyOpenedTable s) k = Some r \<and> (\<forall>a. r = Some a \<longleftrightarrow> a \<in> P \<and> (\<exists>i. lazyHeap s a = Some i \<and> luPath i = k))"
proof -
  have "freg.reg (LazyOpenedTable s) (LazyOpenedList s) (lazyPaths s |` P)" using assms by (simp add: lazy_reg_def)
  from freg.reg_lookup [OF this, of k] show ?thesis unfolding restrict_iff by blast
qed

lemma opened_SomeD:
  "lazy_reg C P s \<Longrightarrow> fl_lookupFromHashTable (LazyOpenedTable s) k = Some (Some b) \<Longrightarrow> b \<in> P \<and> (\<exists>j. lazyHeap s b = Some j \<and> luPath j = k)"
  using opened_lookup [of C P s k] by fastforce

lemma restrict_paths:
  "a \<notin> A \<Longrightarrow> h a = Some k \<Longrightarrow> (h |` A)(a \<mapsto> k) = h |` insert a A"
  "(h |` A)(a := None) = h |` (A - {a})"
  by (auto simp: restrict_map_def fun_eq_iff)

lemma moveToOpened_wp:
  assumes "lazy_reg C P s" "a \<in> C" "lazyHeap s a = Some i" "luPath i = k" "\<not> lazyOpened s k"
  shows "wpo (moveToOpened a k s) (\<lambda>s'. lazy_reg (C - {a}) (insert a P) s' \<and> lazyHeap s' = lazyHeap s \<and>
     lazyOpened s' k \<and> \<not> lazyCreated s' k \<and> world s' = world s \<and> locks s' = locks s \<and> LazyUploadRodsEnv s' = LazyUploadRodsEnv s)"
proof -
  have r: "freg.reg (LazyCreatedTable s) (LazyCreatedList s) (lazyPaths s |` C)"
    "freg.reg (LazyOpenedTable s) (LazyOpenedList s) (lazyPaths s |` P)" and ap: "a \<notin> P" using assms(1,2) by (auto simp: lazy_reg_def)
  have k: "lazyPaths s a = Some k" using assms(3,4) by (simp add: lazyPaths_def)
  from freg.reg_delete [OF r(1), of a k] k assms(2) obtain l q t where
    c: "fl_listRemove2 (LazyCreatedList s) a = Some l" "fl_deleteFromHashTable (LazyCreatedTable s) k = Some (q, t)"
      "freg.reg t l (lazyPaths s |` (C - {a}))" unfolding restrict_paths by (auto simp: wpo_def)
  have no: "k \<notin> ran (lazyPaths s |` P)"
    using assms(5) opened_lookup [OF assms(1), of k] by (auto simp: lazyOpened_def ran_def restrict_map_def lazyPaths_def split: if_splits)
  from freg.reg_insert [OF r(2) no, of a] ap obtain l' q' t' where
    o: "fl_listAppend (LazyOpenedList s) a = Some l'" "fl_insertIntoHashTable True (LazyOpenedTable s) k a = Some (q', t')"
      "freg.reg t' l' (lazyPaths s |` insert a P)" using restrict_paths(1) [of a P "lazyPaths s" k] k by (auto simp: wpo_def)
  let ?s = "s\<lparr>LazyCreatedList := l, LazyCreatedTable := t, LazyOpenedList := l', LazyOpenedTable := t'\<rparr>"
  have inv: "lazy_reg (C - {a}) (insert a P) ?s"
    using assms(1,2) c(3) o(3) unfolding lazy_reg_def by (auto simp: lazyPaths_def)
  have "lazyOpened ?s k" using opened_lookup [OF inv, of k] assms(3,4) unfolding lazyOpened_def by fastforce
  moreover have "b = a" if "b \<in> C" "lazyHeap s b = Some j" "luPath j = k" for b j
    using r(1) that assms(2-4) unfolding freg.reg_def by (auto simp: restrict_map_def lazyPaths_def)
  then have "\<not> lazyCreated ?s k" using created_lookup [OF inv, of k] by (auto simp: lazyCreated_def) blast
  ultimately show ?thesis using c o inv by (simp add: moveToOpened_def)
qed

text \<open>\<open>makeDirs\<close> returns wherever the root is a directory: the parent is shorter than the path.\<close>

definition root_os :: "'w os \<Rightarrow> bool" where
  "root_os OS \<longleftrightarrow> (\<forall>w. fst (fst (os_stat OS ''/'' w)) = 0 \<and> S_ISDIR (st_mode (snd (fst (os_stat OS ''/'' w)))))"

lemma splitPath_shorter:
  assumes "splitPathByKey p [] [] slash = (r, d, f)" "d \<noteq> []"
  shows "length d < length p \<or> d = ''/''"
proof -
  obtain j where "splitPathByKey_loop p slash (length p - 1) = Some j \<longrightarrow> 0 < j \<and> j \<le> length p - 1"
    using splitPathByKey_loop_Some by blast
  with assms show ?thesis
    by (cases "splitPathByKey_loop p slash (length p - 1)"; cases p)
      (auto simp: splitPathByKey_def Let_def split: if_splits dest!: splitPathByKey_loop_Some)
qed

lemma makeDirs_returns:
  fixes s :: "('w, 'z) base_scheme"
  assumes "root_os OS"
  shows "wpo (makeDirs OS p s) (\<lambda>(r, s'). sameButWorld s s')"
proof -
  have "wpo (makeDirs OS p s) (\<lambda>_. True)"
  proof (induction p arbitrary: s rule: measure_induct_rule [of length])
    case (less p)
    obtain r d f where sp: "splitPathByKey p [] [] slash = (r, d, f)" by (metis surj_pair)
    obtain r0 sb w where os: "os_stat OS d (world s) = ((r0, sb), w)" by (metis surj_pair)
    define st where "st = (if r0 = 0 \<and> S_ISDIR (st_mode sb) then 0 else -1 :: int)"
    have st: "isDirectory OS d s = Some (st, s\<lparr>world := w\<rparr>)" by (simp add: isDirectory_def sys_def os st_def)
    have root: "st = 0" if "d = ''/''"
      using assms os that unfolding root_os_def st_def by (metis fst_conv snd_conv)
    have rec: "wpo (makeDirs OS d t) (\<lambda>_. True)" if "length d < length p" for t :: "('w, 'z) base_scheme" using less that by blast
    show ?case
      using splitPath_shorter [OF sp] root rec
      by (subst makeDirs.simps) (auto simp: sp st st_def [symmetric] sys_def intro!: wpo_mono [OF rec] split: prod.splits)
  qed
  then show ?thesis
    using makeDirs_world [of s s OS p] by (auto simp: wpo_def worldOnly_def)
qed

lemma makeParentDirs_returns: "root_os OS \<Longrightarrow> \<exists>r w. makeParentDirs OS p s = Some (r, s\<lparr>world := w\<rparr>)"
  using makeDirs_returns [of OS] by (fastforce simp: makeParentDirs_def wpo_def sameButWorld_def split: prod.splits)

text \<open>The life of a buffered file.\<close>

lemmas lazy_lock_defs = lockLazyUpload_def unlockLazyUpload_def rec_lock_def rec_unlock_def

lemma mknodLazy_wp:
  assumes "lazy_reg C P s" "root_os OS" "lazy_getiRODSPath path s = Some (sc, k)" "0 \<le> sc" "\<not> lazyCreated s k"
  shows "wpo (mknodLazyUploadBufferedFile OS path s) (\<lambda>(r, s'). r = 0 \<and> lazy_reg (insert (lazyFresh s) C) P s' \<and> lazyCreated s' k \<and>
     LazyOpenedTable s' = LazyOpenedTable s \<and> lazyHeap s' = (lazyHeap s)(lazyFresh s \<mapsto> \<lparr>luPath = k, luAccmode = 0, luLocalHandle = -1,
        luCommitCount = 0, luCurLocalOffsetStart = 0, luCurOffset = 0\<rparr>) \<and> locks s' = locks s \<and> LazyUploadRodsEnv s' = LazyUploadRodsEnv s)"
proof -
  let ?a = "lazyFresh s" and ?i = "\<lparr>luPath = k, luAccmode = 0, luLocalHandle = -1, luCommitCount = 0, luCurLocalOffsetStart = 0, luCurOffset = 0\<rparr>"
  have fresh: "?a \<notin> C" "?a \<notin> P" "lazyHeap s ?a = None" using assms(1) by (auto simp: lazy_reg_def)
  have reg: "freg.reg (LazyCreatedTable s) (LazyCreatedList s) (lazyPaths s |` C)" using assms(1) by (simp add: lazy_reg_def)
  have no: "k \<notin> ran (lazyPaths s |` C)"
  proof
    assume "k \<in> ran (lazyPaths s |` C)"
    then obtain a where "(lazyPaths s |` C) a = Some k" by (auto simp: ran_def)
    with created_lookup [OF assms(1), of k] assms(5) show False unfolding restrict_iff lazyCreated_def by auto
  qed
  from freg.reg_insert [OF reg no, of ?a] fresh(1) obtain l q t where
    lt: "fl_listAppend (LazyCreatedList s) ?a = Some l" "fl_insertIntoHashTable True (LazyCreatedTable s) k ?a = Some (q, t)"
      "freg.reg t l ((lazyPaths s |` C)(?a \<mapsto> k))" by (auto simp: wpo_def)
  let ?h = "(lazyHeap s)(?a \<mapsto> ?i)"
  let ?s = "s\<lparr>lazyHeap := ?h, lazyFresh := Suc ?a, LazyCreatedList := l, LazyCreatedTable := t\<rparr>"
  have "(lazyPaths s |` C)(?a \<mapsto> k) = lazyPaths ?s |` insert ?a C" "lazyPaths s |` P = lazyPaths ?s |` P"
    using fresh by (auto simp: lazyPaths_def restrict_map_def fun_eq_iff)
  then have inv: "lazy_reg (insert ?a C) P ?s"
    using assms(1) lt(3) fresh unfolding lazy_reg_def by (auto simp: less_Suc_eq)
  have "lazyCreated ?s k" using created_lookup [OF inv, of k] unfolding lazyCreated_def by fastforce
  moreover obtain r0 w where "makeParentDirs OS (do_getBufferPath k s) (s\<lparr>locks := (locks s)(LazyUploadLock := Suc (locks s LazyUploadLock))\<rparr>) =
      Some (r0, s\<lparr>locks := (locks s)(LazyUploadLock := Suc (locks s LazyUploadLock)), world := w\<rparr>)"
    using makeParentDirs_returns [OF assms(2)] by blast
  ultimately show ?thesis
    using assms(3,4) lt(1,2) inv
    by (simp add: mknodLazyUploadBufferedFile_def lazy_lock_defs sys_def Let_def split: prod.splits) (auto simp: lazy_reg_def lazyPaths_def lazyCreated_def)
qed

lemma openLazy_wp:
  assumes "lazy_reg C P s" "lazy_getiRODSPath path s = Some (sc, k)" "0 \<le> sc"
  shows "wpo (openLazyUploadBufferedFile OS path m s) (\<lambda>(r, s'). lazy_ok s' \<and> locks s' = locks s \<and>
     LazyUploadRodsEnv s' = LazyUploadRodsEnv s \<and>
     (if lazyOpened s k then r = - EMFILE \<and> s' = s
      else if \<not> lazyCreated s k then r = - EBADF \<and> s' = s
      else r > 0 \<longrightarrow> lazyOpened s' k \<and> \<not> lazyCreated s' k))"
proof -
  obtain ro where ro: "fl_lookupFromHashTable (LazyOpenedTable s) k = Some ro" using opened_lookup [OF assms(1), of k] by blast
  obtain rc where rc: "fl_lookupFromHashTable (LazyCreatedTable s) k = Some rc"
    and rca: "\<And>a. rc = Some a \<longleftrightarrow> a \<in> C \<and> (\<exists>i. lazyHeap s a = Some i \<and> luPath i = k)" using created_lookup [OF assms(1), of k] by blast
  have path: "withLazyPath path b s = b k s" for b using assms(2,3) by (simp add: withLazyPath_def)
  let ?s = "s\<lparr>locks := (locks s)(LazyUploadLock := Suc (locks s LazyUploadLock))\<rparr>"
  show ?thesis
  proof (cases "ro = None \<and> rc \<noteq> None")
    case False
    then show ?thesis using lazy_okI [OF assms(1)] ro rc
      by (auto simp: openLazyUploadBufferedFile_def path lazy_lock_defs lazyOpened_def lazyCreated_def)
  next
    case True
    then obtain a i where a: "rc = Some a" "a \<in> C" "lazyHeap s a = Some i" "luPath i = k" using rca by blast
    obtain d w where os: "os_open OS (do_getBufferPath k s) (O_RDWR OR O_CREAT OR O_TRUNC) 0x1ED (world s) = (d, w)" by (metis surj_pair)
    let ?i = "i\<lparr>luAccmode := m, luLocalHandle := d\<rparr>" and ?s' = "?s\<lparr>world := w\<rparr>"
    have reg: "lazy_reg C P (setInfo a ?i ?s')" using lazy_reg_setInfo [of C P ?s' a i ?i] assms(1) a by simp
    have mv: "wpo (moveToOpened a k (setInfo a ?i ?s')) (\<lambda>t. lazy_reg (C - {a}) (insert a P) t \<and> lazyHeap t = lazyHeap (setInfo a ?i ?s') \<and>
       lazyOpened t k \<and> \<not> lazyCreated t k \<and> world t = world (setInfo a ?i ?s') \<and> locks t = locks (setInfo a ?i ?s') \<and>
       LazyUploadRodsEnv t = LazyUploadRodsEnv (setInfo a ?i ?s'))"
      by (rule moveToOpened_wp [OF reg a(2), of ?i]) (use a True ro in \<open>auto simp: setInfo_def lazyOpened_def\<close>)
    have run: "openLazyUploadBufferedFile OS path m s = (if 0 < luLocalHandle i then Some (- EMFILE, s)
       else (if 0 < d then moveToOpened a k (setInfo a ?i ?s') else Some ?s') \<bind> (\<lambda>t. unlockLazyUpload t \<bind> (\<lambda>t. Some (d, t))))"
      using True ro rc a os by (simp add: openLazyUploadBufferedFile_def path lazy_lock_defs sys_def do_getBufferPath_def)
    show ?thesis
      using mv lazy_okI [OF assms(1)] True ro rc a(1) unfolding run
      by (auto dest: lazy_okI simp: lazy_lock_defs setInfo_def lazyOpened_def lazyCreated_def wpo_def) 
  qed
qed

lemma closeLazy_wp:
  assumes "lazy_reg C P s" "lazy_getiRODSPath path s = Some (sc, k)" "0 \<le> sc"
  shows "wpo (closeLazyUploadBufferedFile OS path s) (\<lambda>(r, s'). r = 0 \<and> lazy_ok s' \<and> \<not> lazyOpened s' k \<and>
     LazyCreatedTable s' = LazyCreatedTable s \<and> locks s' = locks s \<and> LazyUploadRodsEnv s' = LazyUploadRodsEnv s)"
proof -
  obtain ro where ro: "fl_lookupFromHashTable (LazyOpenedTable s) k = Some ro"
    and roa: "\<And>a. ro = Some a \<longleftrightarrow> a \<in> P \<and> (\<exists>i. lazyHeap s a = Some i \<and> luPath i = k)" using opened_lookup [OF assms(1), of k] by blast
  obtain d w where os: "os_unlink OS (do_getBufferPath k s) (world s) = (d, w)" by (metis surj_pair)
  show ?thesis
  proof (cases ro)
    case None
    then show ?thesis using lazy_okI [OF assms(1)] assms(2,3) ro os
      by (auto simp: closeLazyUploadBufferedFile_def lazy_lock_defs sys_def lazyOpened_def do_getBufferPath_def)
  next
    case (Some a)
    then obtain i where a: "a \<in> P" "lazyHeap s a = Some i" "luPath i = k" using roa by blast
    have r: "freg.reg (LazyOpenedTable s) (LazyOpenedList s) (lazyPaths s |` P)" using assms(1) by (auto simp: lazy_reg_def)
    from freg.reg_delete [OF r, of a k] a obtain l q t where
      c: "fl_listRemove2 (LazyOpenedList s) a = Some l" "fl_deleteFromHashTable (LazyOpenedTable s) k = Some (q, t)"
        "freg.reg t l (lazyPaths s |` (P - {a}))" unfolding restrict_paths by (auto simp: wpo_def lazyPaths_def)
    let ?h = "(lazyHeap s)(a := None)"
    let ?s = "s\<lparr>LazyOpenedList := l, LazyOpenedTable := t, lazyHeap := ?h\<rparr>"
    have eq: "lazyPaths ?s |` (P - {a}) = lazyPaths s |` (P - {a})" by (auto simp: lazyPaths_def restrict_map_def fun_eq_iff)
    have "a \<notin> C" using assms(1) a(1) by (auto simp: lazy_reg_def)
    then have eq': "lazyPaths ?s |` C = lazyPaths s |` C" by (auto simp: lazyPaths_def restrict_map_def fun_eq_iff)
    have inv: "lazy_reg C (P - {a}) ?s"
      using assms(1) c(3) a(1) eq eq' unfolding lazy_reg_def by auto
    have uniq: "b = a" if "b \<in> P" "lazyHeap s b = Some j" "luPath j = k" for b j
      using r that a unfolding freg.reg_def by (auto simp: restrict_map_def lazyPaths_def)
    have no: "\<not> lazyOpened ?s k"
    proof
      assume "lazyOpened ?s k"
      then obtain b where "fl_lookupFromHashTable (LazyOpenedTable ?s) k = Some (Some b)" unfolding lazyOpened_def by blast
      from opened_SomeD [OF inv this] obtain j where "b \<in> P - {a}" "lazyHeap ?s b = Some j" "luPath j = k" by blast
      with uniq [of b j] show False by simp
    qed
    have run: "\<exists>w'. closeLazyUploadBufferedFile OS path s = Some (0, ?s\<lparr>world := w'\<rparr>)"
    proof (cases "0 < luLocalHandle i")
      case True
      obtain e v where "os_close OS (luLocalHandle i) w = (e, v)" by (metis surj_pair)
      then show ?thesis using True Some ro c(1,2) assms(2,3) os a(2)
        by (simp add: closeLazyUploadBufferedFile_def lazy_lock_defs sys_def do_getBufferPath_def setInfo_def)
          (rule exI [of _ v], simp)
    next
      case False
      then show ?thesis using Some ro c(1,2) assms(2,3) os a(2)
        by (simp add: closeLazyUploadBufferedFile_def lazy_lock_defs sys_def do_getBufferPath_def) (rule exI [of _ w], simp)
    qed
    then show ?thesis using lazy_okI [OF inv] no by (auto simp: lazyOpened_def)
  qed
qed

section \<open>The registries over any sequence of calls\<close>

text \<open>A call of the file system on a path that resolves. FUSE calls \<open>mknod\<close> only on a path that does
  not exist, so not on one registered as created; \<open>LWrite\<close> is the write to the buffer of an opened file.\<close>

datatype lazyCall = LMknod string | LOpen string int | LWrite string string int | LClose string

inductive lazy_step :: "'w os \<Rightarrow> 'w lstate \<Rightarrow> lazyCall \<Rightarrow> 'w lstate \<Rightarrow> bool" for OS where
  mknod: "lazy_getiRODSPath p s = Some (sc, k) \<Longrightarrow> 0 \<le> sc \<Longrightarrow> \<not> lazyCreated s k \<Longrightarrow>
    mknodLazyUploadBufferedFile OS p s = Some (r, s') \<Longrightarrow> lazy_step OS s (LMknod p) s'"
| open_: "lazy_getiRODSPath p s = Some (sc, k) \<Longrightarrow> 0 \<le> sc \<Longrightarrow>
    openLazyUploadBufferedFile OS p m s = Some (r, s') \<Longrightarrow> lazy_step OS s (LOpen p m) s'"
| local_write: "lazy_getiRODSPath p s = Some (sc, k) \<Longrightarrow> 0 \<le> sc \<Longrightarrow>
    fl_lookupFromHashTable (LazyOpenedTable s) k = Some (Some a) \<Longrightarrow>
    writeLocal OS buf off a s = Some (r, s') \<Longrightarrow> lazy_step OS s (LWrite p buf off) s'"
| close: "lazy_getiRODSPath p s = Some (sc, k) \<Longrightarrow> 0 \<le> sc \<Longrightarrow>
    closeLazyUploadBufferedFile OS p s = Some (r, s') \<Longrightarrow> lazy_step OS s (LClose p) s'"

inductive lazy_reach :: "'w os \<Rightarrow> 'w lstate \<Rightarrow> bool" for OS where
  init: "lazyHeap s = Map.empty \<Longrightarrow> initLazyUpload OS cfg env s = Some (r, s') \<Longrightarrow> lazy_reach OS s'"
| step: "lazy_reach OS s \<Longrightarrow> lazy_step OS s c s' \<Longrightarrow> lazy_reach OS s'"

inductive_cases lazy_stepE: "lazy_step OS s c s'"

lemma writeLocal_wp:
  assumes "lazy_reg C P s" "fl_lookupFromHashTable (LazyOpenedTable s) k = Some (Some a)"
  shows "wpo (writeLocal OS buf off a s) (\<lambda>(r, s'). lazy_reg C P s' \<and> locks s' = locks s)"
proof -
  obtain j where j: "lazyHeap s a = Some j" using opened_SomeD [OF assms] by blast
  have "lazy_reg C P (setInfo a (j\<lparr>luCurOffset := n\<rparr>) (s\<lparr>world := w\<rparr>))" for n w
    using lazy_reg_setInfo [of C P "s\<lparr>world := w\<rparr>" a j "j\<lparr>luCurOffset := n\<rparr>"] assms(1) j by simp
  then show ?thesis using assms(1) j by (auto simp: writeLocal_def sys_def Let_def setInfo_def split: prod.splits)
qed

lemma lazy_step_ok:
  assumes "lazy_step OS s c s'" "lazy_ok s" "root_os OS"
  shows "lazy_ok s' \<and> locks s' LazyUploadLock = locks s LazyUploadLock"
proof -
  obtain C P where reg: "lazy_reg C P s" using assms(2) by (auto simp: lazy_ok_def)
  show ?thesis
    using assms(1)
  proof cases
    case (mknod p sc k r)
    from wpo_post [OF mknodLazy_wp [OF reg assms(3) mknod(2-4)] mknod(5)] show ?thesis by (auto intro: lazy_okI)
  next
    case (open_ p sc k m r)
    from wpo_post [OF openLazy_wp [OF reg open_(2,3)] open_(4)] show ?thesis by auto
  next
    case (local_write p sc k a buf off r)
    from wpo_post [OF writeLocal_wp [OF reg local_write(4)] local_write(5)] show ?thesis by (auto intro: lazy_okI)
  next
    case (close p sc k r)
    from wpo_post [OF closeLazy_wp [OF reg close(2,3)] close(4)] show ?thesis by auto
  qed
qed

lemma initLazy_ok:
  fixes s :: "('w, 'z) lstate_scheme"
  assumes "initLazyUpload OS cfg env s = Some (r, s')" "lazyHeap s = Map.empty"
  shows "lazy_ok s' \<and> locks s' LazyUploadLock = 0"
proof -
  from assms(1) obtain t1 t2 w r2 s2 r3 s3 where
    t: "fl_newHashTable True 201 = Some t1" "fl_newHashTable True 201 = Some t2" and
    run: "makeDirs OS (luBufferPath cfg) (s\<lparr>world := w, LazyUploadConfig := cfg, LazyUploadRodsEnv := env, LazyCreatedTable := t1,
       LazyOpenedTable := t2, LazyCreatedList := fl_newList, LazyOpenedList := fl_newList, locks := (locks s)(LazyUploadLock := 0)\<rparr>) = Some (r2, s2)"
      "emptyDir OS (luBufferPath (LazyUploadConfig s2)) s2 = Some (r3, s')"
    unfolding initLazyUpload_def getEmptySpace_def sys_def do_prepareBufferDir_def do_removeAllBufferedFiles_def
    by (auto simp: bind_eq_Some_conv Let_def split: prod.splits)
  have new: "fl_table t" "fl_vals t = (\<lambda>_. [])" if "fl_newHashTable True 201 = Some t" for t :: "nat fl_Hashtable"
    using wpo_post [OF fl_new_inv [of 201] that] by (simp_all add: fl_table_def)
  define s1 where "s1 = s\<lparr>world := w, LazyUploadConfig := cfg, LazyUploadRodsEnv := env, LazyCreatedTable := t1,
       LazyOpenedTable := t2, LazyCreatedList := fl_newList, LazyOpenedList := fl_newList, locks := (locks s)(LazyUploadLock := 0)\<rparr>"
  have "lazy_reg {} {} s1"
    unfolding s1_def using assms(2) new t fl_newList_rep by (auto simp: lazy_reg_def intro!: freg.reg_new)
  then have "lazy_ok s1" "locks s1 LazyUploadLock = 0" by (auto simp: s1_def intro: lazy_okI)
  moreover from worldOnly_dest [OF run(1) makeDirs_world [OF sameButWorld_refl]] obtain w2 where "s2 = s1\<lparr>world := w2\<rparr>"
    by (auto simp: sameButWorld_def s1_def)
  moreover from worldOnly_dest [OF run(2) fs_helpers_world(2) [OF sameButWorld_refl]] obtain w3 where "s' = s2\<lparr>world := w3\<rparr>"
    by (auto simp: sameButWorld_def)
  ultimately show ?thesis by simp
qed


text \<open>C23. The life of a buffered file. On a well-formed state, \<open>mknod\<close> of a path that is neither created
  nor opened returns 0 and registers it as created; opening it then, when the buffer file can be
  opened, makes it opened and no longer created; a second open is refused with \<open>EMFILE\<close>; closing
  returns 0 and leaves the path unregistered, so that a later open is refused with \<open>EBADF\<close>.\<close>

theorem lazy_lifecycle:
  fixes s :: "('w, 'z) lstate_scheme"
  assumes "lazy_ok s" "root_os OS" "lazy_getiRODSPath path s = Some (sc, k)" "0 \<le> sc" "\<not> lazyCreated s k" "\<not> lazyOpened s k"
  shows "wpo (mknodLazyUploadBufferedFile OS path s) (\<lambda>(r1, s1). r1 = 0 \<and> lazyCreated s1 k \<and> \<not> lazyOpened s1 k \<and>
     wpo (openLazyUploadBufferedFile OS path m s1) (\<lambda>(d, s2). 0 < d \<longrightarrow> lazyOpened s2 k \<and> \<not> lazyCreated s2 k \<and>
       openLazyUploadBufferedFile OS path m s2 = Some (- EMFILE, s2) \<and>
       wpo (closeLazyUploadBufferedFile OS path s2) (\<lambda>(r3, s3). r3 = 0 \<and> lazy_ok s3 \<and> locks s3 = locks s \<and>
         openLazyUploadBufferedFile OS path m s3 = Some (- EBADF, s3))))"
proof -
  have same: "lazy_getiRODSPath path t = Some (sc, k)" if "LazyUploadRodsEnv t = LazyUploadRodsEnv s" for t :: "('w, 'z) lstate_scheme"
    using assms(3) that by (simp add: lazy_getiRODSPath_def)
  have opn: "openLazyUploadBufferedFile OS path m t = Some (if lazyOpened t k then - EMFILE else - EBADF, t)"
    if t: "lazy_ok t" "LazyUploadRodsEnv t = LazyUploadRodsEnv s" "lazyOpened t k \<or> \<not> lazyCreated t k" for t :: "('w, 'z) lstate_scheme"
  proof -
    obtain C P where reg: "lazy_reg C P t" using t(1) by (auto simp: lazy_ok_def)
    show ?thesis using openLazy_wp [OF reg same [OF t(2)] assms(4), of OS m] t(3) by (auto simp: wpo_def split: if_splits)
  qed
  obtain C P where reg: "lazy_reg C P s" using assms(1) by (auto simp: lazy_ok_def)
  show ?thesis
  proof (rule wpo_mono [OF mknodLazy_wp [OF reg assms(2-5)]], clarify)
    fix s1 :: "('w, 'z) lstate_scheme"
    assume 1: "lazy_reg (insert (lazyFresh s) C) P s1" "lazyCreated s1 k" "LazyOpenedTable s1 = LazyOpenedTable s"
      "locks s1 = locks s" "LazyUploadRodsEnv s1 = LazyUploadRodsEnv s"
    have no: "\<not> lazyOpened s1 k" using assms(6) 1(3) by (simp add: lazyOpened_def)
    have two: "wpo (closeLazyUploadBufferedFile OS path s2) (\<lambda>(r3, s3). r3 = 0 \<and> lazy_ok s3 \<and> locks s3 = locks s \<and>
         openLazyUploadBufferedFile OS path m s3 = Some (- EBADF, s3))"
      if 2: "lazy_ok s2" "locks s2 = locks s1" "LazyUploadRodsEnv s2 = LazyUploadRodsEnv s1" "\<not> lazyCreated s2 k" for s2 :: "('w, 'z) lstate_scheme"
    proof -
      obtain C2 P2 where reg2: "lazy_reg C2 P2 s2" using 2(1) by (auto simp: lazy_ok_def)
      show ?thesis
      proof (rule wpo_mono [OF closeLazy_wp [OF reg2 same assms(4)]], use 2 1(5) in simp, clarify)
        fix s3 :: "('w, 'z) lstate_scheme"
        assume 3: "lazy_ok s3" "\<not> lazyOpened s3 k" "LazyCreatedTable s3 = LazyCreatedTable s2" "locks s3 = locks s2"
          "LazyUploadRodsEnv s3 = LazyUploadRodsEnv s2"
        have "\<not> lazyCreated s3 k" using 2(4) 3(3) by (simp add: lazyCreated_def)
        then show "0 = 0 \<and> lazy_ok s3 \<and> locks s3 = locks s \<and> openLazyUploadBufferedFile OS path m s3 = Some (- EBADF, s3)"
          using opn [of s3] 3 2 1 by simp
      qed
    qed
    show "0 = 0 \<and> lazyCreated s1 k \<and> \<not> lazyOpened s1 k \<and> wpo (openLazyUploadBufferedFile OS path m s1) (\<lambda>(d, s2). 0 < d \<longrightarrow>
       lazyOpened s2 k \<and> \<not> lazyCreated s2 k \<and> openLazyUploadBufferedFile OS path m s2 = Some (- EMFILE, s2) \<and>
       wpo (closeLazyUploadBufferedFile OS path s2) (\<lambda>(r3, s3). r3 = 0 \<and> lazy_ok s3 \<and> locks s3 = locks s \<and>
         openLazyUploadBufferedFile OS path m s3 = Some (- EBADF, s3)))"
      by (intro conjI wpo_mono [OF openLazy_wp [OF 1(1) same [OF 1(5)] assms(4)]]) (use 1 no opn two in auto)
  qed
qed

section \<open>Writing before the start of the buffer\<close>

lemma lseek_fails:
  assumes "\<And>c fd w. fst (rcDataObjLseek API c fd off w) < 0" "fdLocCacheState (IFuseDesc s i) = NO_FILE_CACHE" "fdOffset (IFuseDesc s i) \<noteq> off"
  shows "wlpo (ifuseLseek OS API path i off s) (\<lambda>(r, _). r < 0)"
proof -
  have "wlpo (withDescConn OS i (\<lambda>conn. sys (rcDataObjLseek API conn fd off)) (- ENOENT) s) (\<lambda>(r, _). r < 0)" for fd
    unfolding withDescConn_def using assms(1) by (auto simp: wlpo_def bind_eq_Some_conv sys_def case_prod_beta split: option.splits)
  then show ?thesis
    using assms(2,3) by (fastforce simp: ifuseLseek_def getDesc_def wlpo_def bind_eq_Some_conv split: if_splits)
qed

lemma ifuse_ok_locks:
  assumes "\<And>a. l (IFuseConnLock a) = locks s (IFuseConnLock a)" "l PathCacheLock = locks s PathCacheLock"
    "l DescLock = locks s DescLock" "l ConnLock = locks s ConnLock"
  shows "ifuse_ok H (s\<lparr>locks := l\<rparr>) = ifuse_ok H s"
  using assms by (simp add: ifuse_ok_def fs_inv_def conn_inv_def pool_live_def live_def)

text \<open>C24. A write before the start of the buffer whose seek fails, or that writes no bytes, returns with
  \<open>LazyUploadLock\<close> still held (lines 341-354 return without the unlock of the other branches): the lock is
  recursive, so every other thread waits for ever while the thread that leaked it goes on.\<close>

theorem write_behind_holds_lock:
  fixes s :: "('w, 'z) lstate_scheme"
  assumes "ifuse_ok {} s" "fhCells s fi = Some i" "inuse s i" "checkFuseDesc i s \<ge> 0" "locks s (IFuseDescLock i) = 0"
    and "lazy_getiRODSPath path s = Some (sc, k)" "0 \<le> sc" "fl_lookupFromHashTable (LazyOpenedTable s) k = Some (Some a)"
    and "lazyHeap s a = Some info" "0 \<le> luLocalHandle info" "luCurOffset info = 0" "off < luCurLocalOffsetStart info"
    and "buf = [] \<or> (\<forall>c fd w. fst (rcDataObjLseek API c fd off w) < 0) \<and>
       fdLocCacheState (IFuseDesc s i) = NO_FILE_CACHE \<and> fdOffset (IFuseDesc s i) \<noteq> off"
  shows "wpo (writeLazyUploadBufferedFile OS API path buf off fi s) (\<lambda>(_, s'). locks s' LazyUploadLock = Suc (locks s LazyUploadLock))"
proof -
  let ?s = "s\<lparr>locks := (locks s)(LazyUploadLock := Suc (locks s LazyUploadLock), IFuseDescLock i := 1)\<rparr>"
  have range: "\<not> (i < 3 \<or> i \<ge> MAX_IFUSE_DESC)" using assms(4) by (auto simp: checkFuseDesc_def split: if_splits)
  have ok: "st {} ?s ?s" using assms(1) by (simp add: st_def ifuse_ok_locks)
  have use: "inuse ?s i" using assms(3) by (simp add: inuse_def)
  have seek: "wpo (ifuseLseek OS API path i off ?s) (\<lambda>(r, s'). st {} ?s s' \<and> (buf = [] \<or> r < 0))"
  proof -
    have "wpo (ifuseLseek OS API path i off ?s) (\<lambda>(r, s'). st {} ?s s')" by (rule ifuseLseek_wp [OF ok use]) simp
    moreover have "wlpo (ifuseLseek OS API path i off ?s) (\<lambda>(r, s'). buf = [] \<or> r < 0)"
      using lseek_fails [of API off ?s i] assms(13) by (auto simp: wlpo_def)
    ultimately show ?thesis by (auto simp: wpo_def wlpo_def)
  qed
  have commit: "do_commitLocalBuffer OS API path fi a (s\<lparr>locks := l\<rparr>) = Some (0, s\<lparr>locks := l\<rparr>)" for l
    using assms(6,7,9-11) by (simp add: do_commitLocalBuffer_def withLazyPath_def lazy_getiRODSPath_def)
  have lck: "locks s' LazyUploadLock = Suc (locks s LazyUploadLock)" if "st {} ?s s'" for s' :: "('w, 'z) lstate_scheme"
    using that by (simp add: st_def io_keeps_def)
  have run: "writeLazyUploadBufferedFile OS API path buf off fi s = ifuseLseek OS API path i off ?s \<bind> (\<lambda>(status, s).
     if status < 0 then unlockDesc i s \<bind> (\<lambda>(_, s). Some (negErrno status, s))
     else if length buf = 0 then unlockDesc i s \<bind> (\<lambda>(_, s). Some (0, s))
     else ifuseWrite OS API path i buf s \<bind> (\<lambda>(status, s). unlockDesc i s \<bind> (\<lambda>(_, s). unlockLazyUpload s \<bind> (\<lambda>s. Some (status, s)))))"
    using assms(2,4-12) range
    by (simp add: writeLazyUploadBufferedFile_def withLazyPath_def lockLazyUpload_def rec_lock_def writeBehind_def commit GET_IFUSE_DESC_INDEX_def
        lockDesc_def mutex_lock_def)
  show ?thesis
    unfolding run wpo_bind
    by (rule wpo_mono [OF seek]) (use range in \<open>auto simp: unlockDesc_def mutex_unlock_def dest!: lck [unfolded One_nat_def]\<close>)
qed

section \<open>Committing more than the buffer holds\<close>

text \<open>\<open>curOffset\<close> counts the bytes written, not the size of the buffer file: a byte written twice is counted
  twice. The loop of a commit ends only when as many bytes have been read.\<close>

lemma append_loop_stuck:
  assumes "\<And>n. os_read OS (aj_localDesc J) n (world s) = ((0, []), world s)" "g < aj_curOffset J" "toInt32 g = g" "0 \<le> q"
  shows "append_loop OS API J (g, q) s = None"
proof -
  have block: "readBlock OS (aj_localDesc J) (0, [], q) s = Some ((0, [], q), s)"
    using assms(1) by (simp add: readBlock.simps sys_def)
  have False if run: "append_loop OS API J (g, q) s = Some y" for y
  proof -
    from run have "\<not> (OS = OS \<and> J = J \<and> (g, q) = (g, q) \<and> s = s)"
    proof (rule append_loop.raw_induct [where P = "\<lambda>O' A' J' x t y. \<not> (O' = OS \<and> J' = J \<and> x = (g, q) \<and> t = s)"
        and xa = "((((OS, API), J), (g, q)), s)", unfolded prod.case, rotated], goal_cases)
      case (1 f O' A' J' x t y)
      show ?case
      proof
        assume "O' = OS \<and> J' = J \<and> x = (g, q) \<and> t = s"
        with 1(2) block assms(2-4) have "f OS A' J (g, q) s = Some y" by (simp add: writeBlock.simps)
        from 1(1) [OF this] show False by simp
      qed
    qed
    then show False by simp
  qed
  then show ?thesis by (cases "append_loop OS API J (g, q) s") auto
qed


section \<open>Concrete runs\<close>

text \<open>A file system in which every path is a directory, and the state of a client with three open
  descriptors and one opened buffered file, whose buffer starts at offset 5.\<close>

definition allDirsOS :: "'w os" where
  "allDirsOS = idleOS\<lparr>os_stat := (\<lambda>_ w. ((0, dirStat), w))\<rparr>"

lemma root_allDirsOS: "root_os allDirsOS"
  by (simp add: root_os_def allDirsOS_def dirStat_def S_ISDIR_def zero_stat_def)

definition lz_info :: lazyUploadFileInfo_t where
  "lz_info = \<lparr>luPath = ''/z/home/u/b'', luAccmode = 1, luLocalHandle = 3, luCommitCount = 1, luCurLocalOffsetStart = 5, luCurOffset = 0\<rparr>"

definition lz_state :: "(nat \<rightharpoonup> lazyUploadFileInfo_t) \<Rightarrow> nat fl_Hashtable \<Rightarrow> int lstate" where
  "lz_state h t = pstate.extend (nstate.extend (three_open 0)
     (pstate.fields (cacheAt []) envU fl_newList fl_newList emptyTable emptyTable Map.empty Map.empty 0 []))
     (lstate.fields \<lparr>luLazyUpload = 1, luBufferPath = []\<rparr> envU fl_newList fl_newList emptyTable t h 1 [0 \<mapsto> 4] 1)"

lemma lz_state_simps [simp]:
  "LazyUploadRodsEnv (lz_state h t) = envU" "LazyUploadConfig (lz_state h t) = \<lparr>luLazyUpload = 1, luBufferPath = []\<rparr>"
  "LazyCreatedTable (lz_state h t) = emptyTable" "LazyOpenedTable (lz_state h t) = t" "lazyHeap (lz_state h t) = h" "lazyFresh (lz_state h t) = 1"
  "LazyCreatedList (lz_state h t) = fl_newList" "LazyOpenedList (lz_state h t) = fl_newList" "fhCells (lz_state h t) = [0 \<mapsto> 4]"
  "locks (lz_state h t) = locks (three_open 0)" "locks (three_open 0) = (\<lambda>_. 0)" "IFuseDesc (lz_state h t) = IFuseDesc (three_open 0)" "world (lz_state h t) = 0"
  "connHeap (lz_state h t) = connHeap (three_open 0)" "ConnHead (lz_state h t) = ConnHead (three_open 0)"
  "connFresh (lz_state h t) = connFresh (three_open 0)" "pcHeap (lz_state h t) = pcHeap (three_open 0)"
  "pcFresh (lz_state h t) = pcFresh (three_open 0)" "pcQue (lz_state h t) = pcQue (three_open 0)"
  "IFuseDescInuseCnt (lz_state h t) = IFuseDescInuseCnt (three_open 0)"
  by (simp_all add: lz_state_def pstate.extend_def nstate.extend_def pstate.fields_def lstate.fields_def three_open_def ns_start_def)

lemma emptyTable_ok: "fl_table emptyTable" "fl_vals emptyTable = (\<lambda>_. [])"
proof -
  have "fl_newHashTable True 201 = Some emptyTable" by (simp add: fl_newHashTable_def emptyTable_def)
  from wpo_post [OF fl_new_inv [of 201] this] show "fl_table emptyTable" "fl_vals emptyTable = (\<lambda>_. [])"
    by (simp_all add: fl_table_def)
qed

lemma lz_start_reg: "lazy_reg {} {} (lz_state Map.empty emptyTable)"
  using emptyTable_ok fl_newList_rep by (auto simp: lazy_reg_def intro!: freg.reg_new)

lemma lz_path_b: "LazyUploadRodsEnv s = envU \<Longrightarrow> lazy_getiRODSPath ''/b'' s = Some (0, ''/z/home/u/b'')"
  using path_b [of "ps_start [] (0 :: int)"] by (simp add: preload_getiRODSPath_def lazy_getiRODSPath_def)

lemma emptyTable_lookup: "fl_lookupFromHashTable emptyTable k = Some None"
  using freg.reg_lookup [OF freg.reg_new [OF emptyTable_ok fl_newList_rep], of k] by auto

theorem lazy_lifecycle_witness:
  "wpo (mknodLazyUploadBufferedFile allDirsOS ''/b'' (lz_state Map.empty emptyTable)) (\<lambda>(r1, s1). r1 = 0 \<and> lazyCreated s1 ''/z/home/u/b'' \<and>
     wpo (openLazyUploadBufferedFile allDirsOS ''/b'' 1 s1) (\<lambda>(d, s2). 0 < d \<longrightarrow> lazyOpened s2 ''/z/home/u/b''))"
  by (rule wpo_mono [OF lazy_lifecycle [OF lazy_okI [OF lz_start_reg] root_allDirsOS lz_path_b, where m = 1]])
    (auto simp: lazyCreated_def lazyOpened_def emptyTable_lookup elim!: wpo_mono)



text \<open>The buffered file is opened and its buffer empty; a server that refuses to seek.\<close>

definition noSeekAPI :: "int irods" where
  "noSeekAPI = upAPI\<lparr>rcDataObjLseek := (\<lambda>_ _ _ w. (-1, w))\<rparr>"

lemma lz_opened: "\<exists>t. fl_lookupFromHashTable t ''/z/home/u/b'' = Some (Some (0 :: nat))"
proof -
  from freg.reg_insert [OF freg.reg_new [OF emptyTable_ok fl_newList_rep], of "''/z/home/u/b''" 0] obtain l t where
    "freg.reg t l [0 \<mapsto> ''/z/home/u/b'']" by (auto simp: wpo_def)
  with freg.reg_lookup [OF this, of "''/z/home/u/b''"] have "fl_lookupFromHashTable t ''/z/home/u/b'' = Some (Some 0)" by fastforce
  then show ?thesis by blast
qed

lemma lz_state_ok: "ifuse_ok {} (lz_state h t)"
  using three_open_ok(1) [of 0]
  by (auto simp: opst_def ifuse_ok_def fs_inv_def pool_live_def live_def pc_inv_def pc_sim_def pc_rep_def)

theorem write_behind_holds_lock_witness:
  "\<exists>t. fl_lookupFromHashTable t ''/z/home/u/b'' = Some (Some 0) \<and>
     wpo (writeLazyUploadBufferedFile allDirsOS noSeekAPI ''/b'' ''xy'' 2 0 (lz_state [0 \<mapsto> lz_info] t)) (\<lambda>(_, s'). locks s' LazyUploadLock = 1)"
proof -
  obtain t where t: "fl_lookupFromHashTable t ''/z/home/u/b'' = Some (Some (0 :: nat))" using lz_opened by blast
  have "wpo (writeLazyUploadBufferedFile allDirsOS noSeekAPI ''/b'' ''xy'' 2 0 (lz_state [0 \<mapsto> lz_info] t))
     (\<lambda>(_, s'). locks s' LazyUploadLock = Suc (locks (lz_state [0 \<mapsto> lz_info] t) LazyUploadLock))"
    by (rule write_behind_holds_lock [OF lz_state_ok _ _ _ _ lz_path_b, where i = 4 and a = 0])
      (use t in \<open>auto simp: lz_info_def noSeekAPI_def inuse_def checkFuseDesc_def three_open_def ns_start_def desc_open_def zeroDesc_def\<close>)
  then show ?thesis using t by auto
qed

end
