(* ===== verification/Fuse_Oper.thy ===== *)
theory Fuse_Oper
  imports Lazy_Upload
begin

text \<open>
  The handlers of \<open>clients/fuse/src/iFuseOper.c\<close>, called by FUSE, and the routines of \<open>iFuseLib.c\<close>
  only they use (local copies for reading and for new files). The client is built with both caches
  and with preloading and lazy uploading, as its Makefile does. A handler that needs a connection gets
  one, sends its request and, when the reply shows a broken connection, reconnects and sends it again;
  the path caches are updated only when the first request succeeds. A handle of FUSE (\<open>fi->fh\<close>) is the
  address of a cell with the index of the descriptor.
\<close>

section \<open>Requests\<close>

text \<open>A request and, after a broken connection, its repetition: the first status and the final one.\<close>

definition requestOnce ::
  "nat option \<Rightarrow> (rcComm option \<Rightarrow> 'w \<Rightarrow> int \<times> 'w) \<Rightarrow> ('w, 'z) fstate_scheme \<Rightarrow> (int \<times> ('w, 'z) fstate_scheme) option" where
  "requestOnce iFuseConn req s = do { conn \<leftarrow> connField iFuseConn s; sys (req conn) s }"

definition retryRequest ::
  "'w irods \<Rightarrow> nat option \<Rightarrow> (rcComm option \<Rightarrow> 'w \<Rightarrow> int \<times> 'w) \<Rightarrow> int \<Rightarrow> ('w, 'z) fstate_scheme \<Rightarrow> (int \<times> ('w, 'z) fstate_scheme) option" where
  "retryRequest API iFuseConn req status s =
     (if status < 0 \<and> isReadMsgError status \<noteq> 0 then do {
        (_, s) \<leftarrow> ifuseReconnect API iFuseConn s;
        requestOnce iFuseConn req s
      } else Some (status, s))"

text \<open>The guards of the optional caches: the file is being uploaded or fetched.\<close>

definition lazyBusy :: "string \<Rightarrow> ('w, 'z) lstate_scheme \<Rightarrow> (bool \<times> ('w, 'z) lstate_scheme) option" where
  "lazyBusy path s =
     (if isLazyUploadEnabled s = 0 then do { (status, s) \<leftarrow> isFileLazyUploading path s; Some (status \<ge> 0, s) }
      else Some (False, s))"

definition preloadBusy :: "string \<Rightarrow> ('w, 'z) pstate_scheme \<Rightarrow> (bool \<times> ('w, 'z) pstate_scheme) option" where
  "preloadBusy path s =
     (if isPreloadEnabled s = 0 then do { (status, s) \<leftarrow> isFilePreloading path s; Some (status \<ge> 0, s) }
      else Some (False, s))"

definition busy :: "string \<Rightarrow> ('w, 'z) lstate_scheme \<Rightarrow> (bool \<times> ('w, 'z) lstate_scheme) option" where
  "busy path s = do {
     (b, s) \<leftarrow> lazyBusy path s;
     if b then Some (True, s) else preloadBusy path s
   }"

text \<open>The hooks of the preload cache: what is done when a copy of the path exists.\<close>

definition whenPreloaded ::
  "'w os \<Rightarrow> string \<Rightarrow> (('w, 'z) pstate_scheme \<Rightarrow> (int \<times> ('w, 'z) pstate_scheme) option) \<Rightarrow> int \<Rightarrow>
   ('w, 'z) pstate_scheme \<Rightarrow> (int \<times> ('w, 'z) pstate_scheme) option" where
  "whenPreloaded OS path action status s =
     (if isPreloadEnabled s = 0 then do {
        (r, s) \<leftarrow> isPreloadedFile OS path s;
        if r \<ge> 0 then action s else Some (status, s)
      } else Some (status, s))"

section \<open>Attributes\<close>

text \<open>The entry of the positive path cache, its size brought up to date from the local copy.\<close>

definition cachedAttr ::
  "'w os \<Rightarrow> string \<Rightarrow> ('w, 'z) pcstate_scheme \<Rightarrow> ((nat \<times> stat) option \<times> ('w, 'z) pcstate_scheme) option" where
  "cachedAttr OS path s = do {
     ((m, node), s) \<leftarrow> matchPathInPathCache OS path PathArray s;
     if m = 1 then do {
       a \<leftarrow> node;
       (status, s) \<leftarrow> updatePathCacheStat OS a s;
       if status < 0 then do { (_, s) \<leftarrow> rmPathFromCache OS path PathArray s; Some (None, s) }
       else do { n \<leftarrow> pcHeap s a; Some (Some (a, pcStbuf n), s) }
     } else Some (None, s)
   }"

definition askStat ::
  "'w irods \<Rightarrow> nat option \<Rightarrow> string \<Rightarrow> ('w, 'z) fstate_scheme \<Rightarrow> ((int \<times> rodsObjStat option) \<times> ('w, 'z) fstate_scheme) option" where
  "askStat API iFuseConn objPath s = do {
     conn \<leftarrow> connField iFuseConn s;
     ((status, out), s) \<leftarrow> sys (rcObjStat API conn objPath) s;
     if status < 0 \<and> isReadMsgError status \<noteq> 0 then do {
       (_, s) \<leftarrow> ifuseReconnect API iFuseConn s;
       conn \<leftarrow> connField iFuseConn s;
       sys (rcObjStat API conn objPath) s
     } else Some ((status, out), s)
   }"

definition fillFromReply ::
  "'w os \<Rightarrow> string \<Rightarrow> rodsObjStat \<Rightarrow> ('w, 'z) pcstate_scheme \<Rightarrow> ((int \<times> stat \<times> nat option) \<times> ('w, 'z) pcstate_scheme) option" where
  "fillFromReply OS path out s = (let ctime = toUint32 (atoi (ros_createTime out)); mtime = toUint32 (atoi (ros_modifyTime out)) in
     if ros_objType out = RODS_UNKNOWN then do {
       (_, s) \<leftarrow> addPathToCache OS path NonExistPathArray (Some zero_stat) s;
       Some ((- ENOENT, zero_stat, None), s)
     } else do {
       (stbuf, s) \<leftarrow> (if ros_objType out = RODS_COLL_OBJ then fillDirStat OS zero_stat ctime mtime mtime s
                      else fillFileStat OS zero_stat (ros_dataMode out) (ros_objSize out) ctime mtime mtime s);
       ((_, node), s) \<leftarrow> addPathToCache OS path PathArray (Some stbuf) s;
       Some ((0, stbuf, Some node), s)
     })"

text \<open>The result: status, the attributes stored for the caller, and the cache entry for \<open>outPathCache\<close>.\<close>

definition do_irodsGetattr ::
  "'w os \<Rightarrow> 'w irods \<Rightarrow> nat option \<Rightarrow> string \<Rightarrow> stat \<Rightarrow> ('w, 'z) fstate_scheme \<Rightarrow>
   ((int \<times> stat \<times> nat option) \<times> ('w, 'z) fstate_scheme) option" where
  "do_irodsGetattr OS API iFuseConn path stbuf s = do {
     ((m, _), s) \<leftarrow> matchPathInPathCache OS path NonExistPathArray s;
     if m = 1 then Some ((- ENOENT, stbuf, None), s)
     else do {
       (hit, s) \<leftarrow> cachedAttr OS path s;
       (case hit of
          Some (a, sb) \<Rightarrow> Some ((0, sb, Some a), s)
        | None \<Rightarrow> do {
            ((status, objPath), s) \<leftarrow> parseFusePath OS path [] s;
            if status < 0 then Some ((- ENOTDIR, zero_stat, None), s)
            else do {
              ((status, out), s) \<leftarrow> askStat API iFuseConn objPath s;
              if status < 0 then do {
                (_, s) \<leftarrow> addPathToCache OS path NonExistPathArray (Some zero_stat) s;
                Some ((- ENOENT, zero_stat, None), s)
              } else do {
                out \<leftarrow> out;
                fillFromReply OS path out s
              }
            }
          })
     }
   }"

definition irodsGetattr ::
  "'w os \<Rightarrow> 'w irods \<Rightarrow> string \<Rightarrow> stat \<Rightarrow> ('w, 'z) fstate_scheme \<Rightarrow> ((int \<times> stat) \<times> ('w, 'z) fstate_scheme) option" where
  "irodsGetattr OS API path stbuf s = do {
     ((_, iFuseConn), s) \<leftarrow> getIFuseConn OS API s;
     ((status, stbuf, _), s) \<leftarrow> do_irodsGetattr OS API iFuseConn path stbuf s;
     (_, s) \<leftarrow> relIFuseConn OS iFuseConn s;
     Some ((status, stbuf), s)
   }"

definition irodsReadlink :: "string \<Rightarrow> int \<Rightarrow> ('w, 'z) base_scheme \<Rightarrow> (int \<times> ('w, 'z) base_scheme) option" where
  "irodsReadlink path sz s = Some (0, s)"

section \<open>Directories\<close>

definition childOf :: "string \<Rightarrow> string \<Rightarrow> string" where
  "childOf path name = (if path = ''/'' then snprintf MAX_NAME_LEN (''/'' @ name) else snprintf MAX_NAME_LEN (path @ ''/'' @ name))"

definition cacheChild ::
  "'w os \<Rightarrow> string \<Rightarrow> (('w, 'z) pcstate_scheme \<Rightarrow> (stat \<times> ('w, 'z) pcstate_scheme) option) \<Rightarrow> ('w, 'z) pcstate_scheme \<Rightarrow>
   ('w, 'z) pcstate_scheme option" where
  "cacheChild OS child fill s = do {
     ((m, _), s) \<leftarrow> matchPathInPathCache OS child PathArray s;
     if m \<noteq> 1 then do {
       (stbuf, s) \<leftarrow> fill s;
       (_, s) \<leftarrow> addPathToCache OS child PathArray (Some stbuf) s;
       Some s
     } else Some s
   }"

definition readdirEntry :: "'w os \<Rightarrow> string \<Rightarrow> collEnt \<Rightarrow> ('w, 'z) pcstate_scheme \<Rightarrow> ('w, 'z) pcstate_scheme option" where
  "readdirEntry OS path e s = (let ctime = toUint32 (atoi (ce_createTime e)); mtime = toUint32 (atoi (ce_modifyTime e)) in
     case ce_objType e of
       RODS_DATA_OBJ \<Rightarrow> do {
         (_, s) \<leftarrow> sys (os_filler OS (ce_dataName e)) s;
         cacheChild OS (childOf path (ce_dataName e)) (fillFileStat OS zero_stat (ce_dataMode e) (ce_dataSize e) ctime mtime mtime) s
       }
     | RODS_COLL_OBJ \<Rightarrow> (case splitPathByKey (ce_collName e) [] [] slash of (_, _, mySubDir) \<Rightarrow> do {
         (_, s) \<leftarrow> sys (os_filler OS mySubDir) s;
         cacheChild OS (childOf path mySubDir) (fillDirStat OS zero_stat ctime mtime mtime) s
       })
     | RODS_UNKNOWN \<Rightarrow> Some s)"

partial_function (option) readdir_loop ::
  "'w os \<Rightarrow> 'w irods \<Rightarrow> nat option \<Rightarrow> string \<Rightarrow> int \<Rightarrow> ('w, 'z) fstate_scheme \<Rightarrow> ('w, 'z) fstate_scheme option" where
  "readdir_loop OS API iFuseConn path collHandle s = do {
     conn \<leftarrow> connField iFuseConn s;
     ((status, e), s) \<leftarrow> sys (rclReadCollection API conn collHandle) s;
     if status \<ge> 0 then do {
       s \<leftarrow> readdirEntry OS path e s;
       readdir_loop OS API iFuseConn path collHandle s
     } else Some s
   }"

definition openColl ::
  "'w irods \<Rightarrow> nat option \<Rightarrow> string \<Rightarrow> ('w, 'z) fstate_scheme \<Rightarrow> ((int \<times> int) \<times> ('w, 'z) fstate_scheme) option" where
  "openColl API iFuseConn collPath s = do {
     conn \<leftarrow> connField iFuseConn s;
     ((status, collHandle), s) \<leftarrow> sys (rclOpenCollection API conn collPath) s;
     if status < 0 \<and> isReadMsgError status \<noteq> 0 then do {
       (_, s) \<leftarrow> ifuseReconnect API iFuseConn s;
       conn \<leftarrow> connField iFuseConn s;
       sys (rclOpenCollection API conn collPath) s
     } else Some ((status, collHandle), s)
   }"

definition irodsReaddir :: "'w os \<Rightarrow> 'w irods \<Rightarrow> string \<Rightarrow> ('w, 'z) fstate_scheme \<Rightarrow> (int \<times> ('w, 'z) fstate_scheme) option" where
  "irodsReaddir OS API path s = do {
     (_, s) \<leftarrow> sys (os_filler OS ''.'') s;
     (_, s) \<leftarrow> sys (os_filler OS ''..'') s;
     ((status, collPath), s) \<leftarrow> parseFusePath OS path [] s;
     if status < 0 then Some (- ENOTDIR, s)
     else do {
       ((_, iFuseConn), s) \<leftarrow> getIFuseConn OS API s;
       ((status, collHandle), s) \<leftarrow> openColl API iFuseConn collPath s;
       if status < 0 then do {
         (_, s) \<leftarrow> relIFuseConn OS iFuseConn s;
         Some (- ENOENT, s)
       } else do {
         s \<leftarrow> readdir_loop OS API iFuseConn path collHandle s;
         (_, s) \<leftarrow> sys (rclCloseCollection API collHandle) s;
         (_, s) \<leftarrow> relIFuseConn OS iFuseConn s;
         Some (0, s)
       }
     }
   }"

section \<open>Local copies\<close>

text \<open>A name under \<open>FuseCacheDir\<close> that does not exist yet, by random numbers.\<close>

partial_function (option) fileCachePath_loop :: "'w os \<Rightarrow> string \<Rightarrow> ('w, 'z) nstate_scheme \<Rightarrow> (string \<times> ('w, 'z) nstate_scheme) option" where
  "fileCachePath_loop OS myFile s = do {
     (r, s) \<leftarrow> sys (os_random OS) s;
     let cachePath = snprintf MAX_NAME_LEN (FuseCacheDir s @ ''/'' @ myFile @ ''.'' @ showInt (toInt32 r));
     ((status, _), s) \<leftarrow> sys (os_stat OS cachePath) s;
     if status < 0 then Some (cachePath, s) else fileCachePath_loop OS myFile s
   }"

definition getFileCachePath :: "'w os \<Rightarrow> string \<Rightarrow> ('w, 'z) nstate_scheme \<Rightarrow> ((int \<times> string) \<times> ('w, 'z) nstate_scheme) option" where
  "getFileCachePath OS inPath s = (case splitPathByKey inPath [] [] slash of (_, _, myFile) \<Rightarrow> do {
     (cachePath, s) \<leftarrow> fileCachePath_loop OS myFile s;
     Some ((0, cachePath), s)
   })"

definition irodsMknodWithCache ::
  "'w os \<Rightarrow> string \<Rightarrow> 32 word \<Rightarrow> ('w, 'z) nstate_scheme \<Rightarrow> ((int \<times> string) \<times> ('w, 'z) nstate_scheme) option" where
  "irodsMknodWithCache OS path mode s = do {
     ((status, cachePath), s) \<leftarrow> getFileCachePath OS path s;
     if status < 0 then Some ((status, cachePath), s)
     else do {
       (fd, s) \<leftarrow> sys (os_open OS cachePath (O_CREAT OR O_EXCL OR O_RDWR) (uint mode)) s;
       if fd < 0 then do { (e, s) \<leftarrow> errnoStatus OS s; Some ((e, cachePath), s) }
       else Some ((fd, cachePath), s)
     }
   }"

text \<open>The copy of the object for reading: it is fetched once and kept in the cache entry. The object path
  given to the descriptor is a local variable that only the fetch sets.\<close>

definition fetchCopy ::
  "'w os \<Rightarrow> 'w irods \<Rightarrow> nat option \<Rightarrow> string \<Rightarrow> int \<Rightarrow> stat \<Rightarrow> nat \<Rightarrow> ('w, 'z) nstate_scheme \<Rightarrow>
   ((int \<times> string) \<times> ('w, 'z) nstate_scheme) option" where
  "fetchCopy OS API iFuseConn path flags stbuf a s = do {
     ((status, cachePath), s) \<leftarrow> getFileCachePath OS path s;
     if status < 0 then Some ((status, []), s)
     else do {
       ((status, objPath), s) \<leftarrow> parseFusePath OS path [] s;
       if status < 0 then Some ((- ENOTDIR, objPath), s)
       else do {
         conn \<leftarrow> connField iFuseConn s;
         (status, s) \<leftarrow> sys (rcDataObjGet API conn
            (zero_dataObjInp\<lparr>di_objPath := objPath, di_openFlags := flags, di_dataSize := st_size stbuf\<rparr>) cachePath) s;
         if status < 0 then Some ((status, objPath), s)
         else do {
           n \<leftarrow> pcHeap s a;
           Some ((0, objPath), setNode a (Some (n\<lparr>locCachePath := Some cachePath, pcLocCacheState := HAVE_READ_CACHE\<rparr>)) s)
         }
       }
     }
   }"

definition openCopy ::
  "'w os \<Rightarrow> nat option \<Rightarrow> string \<Rightarrow> int \<Rightarrow> string \<Rightarrow> string \<Rightarrow> ('w, 'z) nstate_scheme \<Rightarrow> (int \<times> ('w, 'z) nstate_scheme) option" where
  "openCopy OS iFuseConn path flags loc objPath s = do {
     (fd, s) \<leftarrow> sys (os_open OS loc flags 0) s;
     if fd < 0 then errnoStatus OS s
     else do {
       (descInx, s) \<leftarrow> allocIFuseDesc s;
       if descInx < 0 then do { (_, s) \<leftarrow> sys (os_close OS fd) s; Some (- ENOENT, s) }
       else do {
         (_, s) \<leftarrow> fillIFuseDesc descInx iFuseConn fd (Some objPath) (Some path) s;
         d \<leftarrow> getDesc descInx s;
         Some (descInx, setDesc descInx (d\<lparr>fdLocCacheState := HAVE_READ_CACHE\<rparr>) s)
       }
     }
   }"

definition irodsOpenWithReadCache ::
  "'w os \<Rightarrow> 'w irods \<Rightarrow> nat option \<Rightarrow> string \<Rightarrow> int \<Rightarrow> ('w, 'z) nstate_scheme \<Rightarrow> (int \<times> ('w, 'z) nstate_scheme) option" where
  "irodsOpenWithReadCache OS API iFuseConn path flags s =
     (if flags AND (O_WRONLY OR O_RDWR) \<noteq> 0 then Some (-1, s)
      else do {
        ((status, stbuf, node), s) \<leftarrow> do_irodsGetattr OS API iFuseConn path zero_stat s;
        (case node of
           None \<Rightarrow> Some (-1, s)
         | Some a \<Rightarrow>
             if status < 0 \<or> st_size stbuf > MAX_READ_CACHE_SIZE then Some (-1, s)
             else do {
               n \<leftarrow> pcHeap s a;
               ((status, objPath), s) \<leftarrow>
                 (if locCachePath n = None then fetchCopy OS API iFuseConn path flags stbuf a s
                  else do { (mem, s) \<leftarrow> sys (os_malloc OS (int MAX_NAME_LEN)) s; Some ((0, mem), s) });
               if status < 0 then Some (status, s)
               else do {
                 n \<leftarrow> pcHeap s a;
                 loc \<leftarrow> locCachePath n;
                 openCopy OS iFuseConn path flags loc objPath s
               }
             })
      })"

section \<open>Creating and removing\<close>

text \<open>A new file: an empty local copy or, when that fails, an object on the server.\<close>

definition createObject ::
  "'w os \<Rightarrow> 'w irods \<Rightarrow> nat option \<Rightarrow> string \<Rightarrow> 32 word \<Rightarrow> ('w, 'z) fstate_scheme \<Rightarrow> ((int \<times> string) \<times> ('w, 'z) fstate_scheme) option" where
  "createObject OS API iFuseConn path mode s = do {
     conn \<leftarrow> connField iFuseConn s;
     ((status, irodsPath), s) \<leftarrow> dataObjCreateByFusePath OS API conn path (sint mode) [] s;
     if status < 0 \<and> isReadMsgError status \<noteq> 0 then do {
       (_, s) \<leftarrow> ifuseReconnect API iFuseConn s;
       conn \<leftarrow> connField iFuseConn s;
       dataObjCreateByFusePath OS API conn path (sint mode) irodsPath s
     } else Some ((status, irodsPath), s)
   }"

text \<open>The descriptor of a new file and its slot; both are marked as having a local copy.\<close>

definition markNewlyCreated ::
  "int \<Rightarrow> nat \<Rightarrow> string \<Rightarrow> 32 word \<Rightarrow> ('w, 'z) fstate_scheme \<Rightarrow> ('w, 'z) fstate_scheme option" where
  "markNewlyCreated descInx node cachePath mode s = do {
     n \<leftarrow> pcHeap s node;
     let s = setNode node (Some (n\<lparr>locCachePath := Some cachePath, pcLocCacheState := HAVE_NEWLY_CREATED_CACHE\<rparr>)) s;
     d \<leftarrow> getDesc descInx s;
     Some (setDesc descInx (d\<lparr>fdLocCacheState := HAVE_NEWLY_CREATED_CACHE, fdCreateMode := sint mode\<rparr>) s)
   }"

definition registerNew ::
  "'w os \<Rightarrow> 'w irods \<Rightarrow> nat option \<Rightarrow> string \<Rightarrow> 32 word \<Rightarrow> int \<Rightarrow> string \<Rightarrow> string \<Rightarrow> ('w, 'z) nstate_scheme \<Rightarrow>
   (bool \<times> ('w, 'z) nstate_scheme) option" where
  "registerNew OS API iFuseConn path mode fd irodsPath cachePath s = do {
     (_, s) \<leftarrow> rmPathFromCache OS path NonExistPathArray s;
     (descInx, s) \<leftarrow> allocIFuseDesc s;
     if descInx < 0 then do {
       conn \<leftarrow> connField iFuseConn s;
       (_, s) \<leftarrow> closeIrodsFd API conn fd s;
       (_, s) \<leftarrow> relIFuseConn OS iFuseConn s;
       Some (False, s)
     } else do {
       (_, s) \<leftarrow> fillIFuseDesc descInx iFuseConn fd (Some irodsPath) (Some path) s;
       (_, s) \<leftarrow> relIFuseConn OS iFuseConn s;
       ((_, node), s) \<leftarrow> addNewlyCreatedToCache OS API path descInx mode s;
       s \<leftarrow> markNewlyCreated descInx node cachePath mode s;
       Some (True, s)
     }
   }"

definition mknodHooks :: "'w os \<Rightarrow> string \<Rightarrow> ('w, 'z) lstate_scheme \<Rightarrow> ('w, 'z) lstate_scheme option" where
  "mknodHooks OS path s = do {
     (_, s) \<leftarrow> whenPreloaded OS path (invalidatePreloadedFile OS path) 0 s;
     (_, s) \<leftarrow> (if isLazyUploadEnabled s = 0 then mknodLazyUploadBufferedFile OS path s else Some (0, s));
     Some s
   }"

definition createFile ::
  "'w os \<Rightarrow> 'w irods \<Rightarrow> string \<Rightarrow> 32 word \<Rightarrow> ('w, 'z) lstate_scheme \<Rightarrow> (int \<times> ('w, 'z) lstate_scheme) option" where
  "createFile OS API path mode s = do {
     ((status, cachePath), s) \<leftarrow> irodsMknodWithCache OS path mode s;
     ((_, iFuseConn), s) \<leftarrow> getIFuseConn OS API s;
     ((status, irodsPath), s) \<leftarrow> (if status < 0 then createObject OS API iFuseConn path mode s else Some ((status, []), s));
     if status < 0 then do { (_, s) \<leftarrow> relIFuseConn OS iFuseConn s; Some (- ENOENT, s) }
     else do {
       (registered, s) \<leftarrow> registerNew OS API iFuseConn path mode status irodsPath cachePath s;
       s \<leftarrow> (if registered then mknodHooks OS path s else Some s);
       Some (0, s)
     }
   }"

definition irodsMknod ::
  "'w os \<Rightarrow> 'w irods \<Rightarrow> string \<Rightarrow> 32 word \<Rightarrow> ('w, 'z) lstate_scheme \<Rightarrow> (int \<times> ('w, 'z) lstate_scheme) option" where
  "irodsMknod OS API path mode s = do {
     (b, s) \<leftarrow> busy path s;
     if b then Some (- EBUSY, s)
     else do {
       ((status, _), s) \<leftarrow> irodsGetattr OS API path zero_stat s;
       if status \<ge> 0 then Some (- EEXIST, s) else createFile OS API path mode s
     }
   }"

definition irodsMkdir :: "'w os \<Rightarrow> 'w irods \<Rightarrow> string \<Rightarrow> 32 word \<Rightarrow> ('w, 'z) fstate_scheme \<Rightarrow> (int \<times> ('w, 'z) fstate_scheme) option" where
  "irodsMkdir OS API path mode s = do {
     ((status, collName), s) \<leftarrow> parseFusePath OS path [] s;
     if status < 0 then Some (- ENOTDIR, s)
     else do {
       ((_, iFuseConn), s) \<leftarrow> getIFuseConn OS API s;
       (status, s) \<leftarrow> requestOnce iFuseConn (\<lambda>conn. rcCollCreate API conn collName) s;
       if status < 0 then do {
         (status, s) \<leftarrow> retryRequest API iFuseConn (\<lambda>conn. rcCollCreate API conn collName) status s;
         (_, s) \<leftarrow> relIFuseConn OS iFuseConn s;
         Some (if status < 0 then - ENOENT else 0, s)
       } else do {
         (t, s) \<leftarrow> sys (os_time OS) s;
         let mytime = toUint32 t;
         (stbuf, s) \<leftarrow> fillDirStat OS zero_stat mytime mytime mytime s;
         (_, s) \<leftarrow> addPathToCache OS path PathArray (Some stbuf) s;
         (_, s) \<leftarrow> rmPathFromCache OS path NonExistPathArray s;
         (_, s) \<leftarrow> relIFuseConn OS iFuseConn s;
         Some (0, s)
       }
     }
   }"

text \<open>What unlink, rmdir, rename, chmod and truncate share: the cache is updated after a first request
  that succeeded; otherwise the request is repeated at most once.\<close>

definition finishRequest ::
  "'w irods \<Rightarrow> nat option \<Rightarrow> (rcComm option \<Rightarrow> 'w \<Rightarrow> int \<times> 'w) \<Rightarrow>
   (('w, 'z) fstate_scheme \<Rightarrow> ('w, 'z) fstate_scheme option) \<Rightarrow> int \<Rightarrow> ('w, 'z) fstate_scheme \<Rightarrow> (int \<times> ('w, 'z) fstate_scheme) option" where
  "finishRequest API iFuseConn req update status s =
     (if status \<ge> 0 then do { s \<leftarrow> update s; Some (0, s) }
      else do {
        (status, s) \<leftarrow> retryRequest API iFuseConn req status s;
        Some (if status < 0 then - ENOENT else status, s)
      })"

definition irodsUnlink :: "'w os \<Rightarrow> 'w irods \<Rightarrow> string \<Rightarrow> ('w, 'z) lstate_scheme \<Rightarrow> (int \<times> ('w, 'z) lstate_scheme) option" where
  "irodsUnlink OS API path s = do {
     (b, s) \<leftarrow> busy path s;
     if b then Some (- EBUSY, s)
     else do {
       ((status, objPath), s) \<leftarrow> parseFusePath OS path [] s;
       if status < 0 then Some (- ENOTDIR, s)
       else do {
         (_, kv) \<leftarrow> addKeyVal emptyKeyVal FORCE_FLAG_KW [];
         let req = (\<lambda>conn. rcDataObjUnlink API conn (zero_dataObjInp\<lparr>di_objPath := objPath, di_condInput := kv\<rparr>));
         ((_, iFuseConn), s) \<leftarrow> getIFuseConn OS API s;
         (status, s) \<leftarrow> requestOnce iFuseConn req s;
         (status, s) \<leftarrow> finishRequest API iFuseConn req (\<lambda>s. map_option snd (rmPathFromCache OS path PathArray s)) status s;
         (_, s) \<leftarrow> relIFuseConn OS iFuseConn s;
         (_, s) \<leftarrow> whenPreloaded OS path (invalidatePreloadedFile OS path) 0 s;
         Some (status, s)
       }
     }
   }"

definition irodsRmdir :: "'w os \<Rightarrow> 'w irods \<Rightarrow> string \<Rightarrow> ('w, 'z) lstate_scheme \<Rightarrow> (int \<times> ('w, 'z) lstate_scheme) option" where
  "irodsRmdir OS API path s = do {
     ((status, collName), s) \<leftarrow> parseFusePath OS path [] s;
     if status < 0 then Some (- ENOTDIR, s)
     else do {
       (_, kv) \<leftarrow> addKeyVal emptyKeyVal FORCE_FLAG_KW [];
       let req = (\<lambda>conn. rcRmColl API conn collName kv);
       ((_, iFuseConn), s) \<leftarrow> getIFuseConn OS API s;
       (status, s) \<leftarrow> requestOnce iFuseConn req s;
       (status, s) \<leftarrow> finishRequest API iFuseConn req (\<lambda>s. map_option snd (rmPathFromCache OS path PathArray s)) status s;
       (_, s) \<leftarrow> relIFuseConn OS iFuseConn s;
       (_, s) \<leftarrow> whenPreloaded OS path (invalidatePreloadedFile OS path) 0 s;
       Some (status, s)
     }
   }"

definition irodsSymlink :: "string \<Rightarrow> string \<Rightarrow> ('w, 'z) base_scheme \<Rightarrow> (int \<times> ('w, 'z) base_scheme) option" where
  "irodsSymlink from to s = Some (0, s)"

section \<open>Renaming\<close>

text \<open>A newly created file is renamed in the descriptor and the cache only; the result says whether.\<close>

definition renameNewlyCreated ::
  "'w os \<Rightarrow> string \<Rightarrow> string \<Rightarrow> ('w, 'z) fstate_scheme \<Rightarrow> (bool \<times> ('w, 'z) fstate_scheme) option" where
  "renameNewlyCreated OS from to s = do {
     ((m, node), s) \<leftarrow> matchPathInPathCache OS from PathArray s;
     if m = 1 then do {
       a \<leftarrow> node;
       n \<leftarrow> pcHeap s a;
       if pcLocCacheState n = HAVE_NEWLY_CREATED_CACHE \<and> locCachePath n \<noteq> None then do {
         (status, s) \<leftarrow> renmeOpenedIFuseDesc OS a to s;
         if status \<ge> 0 then do { (_, s) \<leftarrow> rmPathFromCache OS from PathArray s; Some (True, s) }
         else Some (False, s)
       } else Some (False, s)
     } else Some (False, s)
   }"

definition renameInCache :: "'w os \<Rightarrow> string \<Rightarrow> string \<Rightarrow> ('w, 'z) pcstate_scheme \<Rightarrow> ('w, 'z) pcstate_scheme option" where
  "renameInCache OS from to s = do {
     (_, s) \<leftarrow> rmPathFromCache OS to PathArray s;
     ((m, node), s) \<leftarrow> matchPathInPathCache OS from PathArray s;
     s \<leftarrow> (if m = 1 then do {
        a \<leftarrow> node;
        n \<leftarrow> pcHeap s a;
        (_, s) \<leftarrow> addPathToCache OS to PathArray (Some (pcStbuf n)) s;
        (_, s) \<leftarrow> rmPathFromCache OS from PathArray s;
        Some s
      } else Some s);
     (_, s) \<leftarrow> rmPathFromCache OS to NonExistPathArray s;
     Some s
   }"

abbreviation (input) RENAME_UNKNOWN_TYPE :: int where "RENAME_UNKNOWN_TYPE \<equiv> 22"

definition renameObject ::
  "'w os \<Rightarrow> 'w irods \<Rightarrow> string \<Rightarrow> string \<Rightarrow> ('w, 'z) fstate_scheme \<Rightarrow> ((bool \<times> int) \<times> ('w, 'z) fstate_scheme) option" where
  "renameObject OS API from to s = do {
     ((status, src), s) \<leftarrow> parseFusePath OS from [] s;
     if status < 0 then Some ((False, - ENOTDIR), s)
     else do {
       ((status, dst), s) \<leftarrow> parseFusePath OS to [] s;
       if status < 0 then Some ((False, - ENOTDIR), s)
       else do {
         (_, kv) \<leftarrow> addKeyVal emptyKeyVal FORCE_FLAG_KW [];
         let destInp = zero_dataObjInp\<lparr>di_objPath := dst, di_oprType := RENAME_UNKNOWN_TYPE, di_condInput := kv\<rparr>;
         let req = (\<lambda>conn. rcDataObjRename API conn (zero_dataObjInp\<lparr>di_objPath := src, di_oprType := RENAME_UNKNOWN_TYPE\<rparr>) destInp);
         ((_, iFuseConn), s) \<leftarrow> getIFuseConn OS API s;
         (status, s) \<leftarrow> requestOnce iFuseConn req s;
         (status, s) \<leftarrow>
           (if status = CAT_NAME_EXISTS_AS_DATAOBJ \<or> status = SYS_DEST_SPEC_COLL_SUB_EXIST then do {
              (_, s) \<leftarrow> requestOnce iFuseConn (\<lambda>conn. rcDataObjUnlink API conn destInp) s;
              requestOnce iFuseConn req s
            } else Some (status, s));
         (status, s) \<leftarrow> finishRequest API iFuseConn req (renameInCache OS from to) status s;
         (_, s) \<leftarrow> relIFuseConn OS iFuseConn s;
         Some ((True, status), s)
       }
     }
   }"

definition irodsRename ::
  "'w os \<Rightarrow> 'w irods \<Rightarrow> string \<Rightarrow> string \<Rightarrow> ('w, 'z) lstate_scheme \<Rightarrow> (int \<times> ('w, 'z) lstate_scheme) option" where
  "irodsRename OS API from to s = do {
     (b1, s) \<leftarrow> lazyBusy from s;
     (b2, s) \<leftarrow> (if b1 then Some (True, s) else lazyBusy to s);
     (b3, s) \<leftarrow> (if b2 then Some (True, s) else preloadBusy from s);
     (b4, s) \<leftarrow> (if b3 then Some (True, s) else preloadBusy to s);
     if b4 then Some (- EBUSY, s)
     else do {
       (renamed, s) \<leftarrow> renameNewlyCreated OS from to s;
       if renamed then do {
         (_, s) \<leftarrow> whenPreloaded OS from (renamePreloadedFile OS from to) 0 s;
         Some (0, s)
       } else do {
         ((sent, status), s) \<leftarrow> renameObject OS API from to s;
         if \<not> sent then Some (status, s)
         else whenPreloaded OS from (renamePreloadedFile OS from to) status s
       }
     }
   }"

definition irodsLink :: "string \<Rightarrow> string \<Rightarrow> ('w, 'z) base_scheme \<Rightarrow> (int \<times> ('w, 'z) base_scheme) option" where
  "irodsLink from to s = Some (0, s)"

section \<open>Attributes of files\<close>

abbreviation (input) SHORT_STR_LEN :: nat where "SHORT_STR_LEN \<equiv> 32"
abbreviation (input) DATA_MODE_KW :: string where "DATA_MODE_KW \<equiv> ''dataMode''"
abbreviation (input) ALL_KW :: string where "ALL_KW \<equiv> ''all''"
abbreviation (input) O_ACCMODE :: int where "O_ACCMODE \<equiv> 3"

text \<open>Changing the attributes of the cache entry of a path, if there is one.\<close>

definition updCached ::
  "'w os \<Rightarrow> string \<Rightarrow> (stat \<Rightarrow> stat) \<Rightarrow> ('w, 'z) pcstate_scheme \<Rightarrow> ('w, 'z) pcstate_scheme option" where
  "updCached OS path f s = do {
     ((m, node), s) \<leftarrow> matchPathInPathCache OS path PathArray s;
     if m = 1 then do {
       a \<leftarrow> node;
       n \<leftarrow> pcHeap s a;
       Some (setNode a (Some (n\<lparr>pcStbuf := f (pcStbuf n)\<rparr>)) s)
     } else Some s
   }"

definition chmodObject ::
  "'w os \<Rightarrow> 'w irods \<Rightarrow> string \<Rightarrow> 32 word \<Rightarrow> ('w, 'z) fstate_scheme \<Rightarrow> (int \<times> ('w, 'z) fstate_scheme) option" where
  "chmodObject OS API path mode s = do {
     (_, kv) \<leftarrow> addKeyVal emptyKeyVal DATA_MODE_KW (snprintf SHORT_STR_LEN (showInt (sint mode)));
     (_, kv) \<leftarrow> addKeyVal kv ALL_KW [];
     ((status, objPath), s) \<leftarrow> parseFusePath OS path [] s;
     if status < 0 then Some (- ENOTDIR, s)
     else do {
       let req = (\<lambda>conn. rcModDataObjMeta API conn objPath kv);
       ((_, iFuseConn), s) \<leftarrow> getIFuseConn OS API s;
       (status, s) \<leftarrow> requestOnce iFuseConn req s;
       (status, s) \<leftarrow> finishRequest API iFuseConn req
          (updCached OS path (\<lambda>b. b\<lparr>st_mode := (st_mode b AND 0xFFFFFE00) OR (mode AND 0x1FF)\<rparr>)) status s;
       (_, s) \<leftarrow> relIFuseConn OS iFuseConn s;
       Some (status, s)
     }
   }"

definition irodsChmod :: "'w os \<Rightarrow> 'w irods \<Rightarrow> string \<Rightarrow> 32 word \<Rightarrow> ('w, 'z) lstate_scheme \<Rightarrow> (int \<times> ('w, 'z) lstate_scheme) option" where
  "irodsChmod OS API path mode s = do {
     (b, s) \<leftarrow> busy path s;
     if b then Some (- EBUSY, s)
     else do {
       (descInx, s) \<leftarrow> getNewlyCreatedDescByPath path s;
       if descInx \<ge> 3 then do {
         d \<leftarrow> getDesc descInx s;
         Some (0, setDesc descInx (d\<lparr>fdCreateMode := sint mode\<rparr>) s)
       } else chmodObject OS API path mode s
     }
   }"

definition irodsChown :: "string \<Rightarrow> int \<Rightarrow> int \<Rightarrow> ('w, 'z) base_scheme \<Rightarrow> (int \<times> ('w, 'z) base_scheme) option" where
  "irodsChown path uid gid s = Some (0, s)"

text \<open>Truncating the local copy of a new file; the result says whether that was done.\<close>

definition truncateNewlyCreated ::
  "'w os \<Rightarrow> string \<Rightarrow> int \<Rightarrow> ('w, 'z) pcstate_scheme \<Rightarrow> (bool \<times> ('w, 'z) pcstate_scheme) option" where
  "truncateNewlyCreated OS path sz s = do {
     ((m, node), s) \<leftarrow> matchPathInPathCache OS path PathArray s;
     if m = 1 then do {
       a \<leftarrow> node;
       n \<leftarrow> pcHeap s a;
       (case locCachePath n of
          Some p \<Rightarrow>
            if pcLocCacheState n = HAVE_NEWLY_CREATED_CACHE then do {
              (status, s) \<leftarrow> sys (os_truncate OS p sz) s;
              if status \<ge> 0 then do { (_, s) \<leftarrow> updatePathCacheStat OS a s; Some (True, s) }
              else Some (False, s)
            } else Some (False, s)
        | None \<Rightarrow> Some (False, s))
     } else Some (False, s)
   }"

definition truncateObject ::
  "'w os \<Rightarrow> 'w irods \<Rightarrow> string \<Rightarrow> int \<Rightarrow> ('w, 'z) fstate_scheme \<Rightarrow> ((bool \<times> int) \<times> ('w, 'z) fstate_scheme) option" where
  "truncateObject OS API path sz s = do {
     ((status, objPath), s) \<leftarrow> parseFusePath OS path [] s;
     if status < 0 then Some ((False, - ENOTDIR), s)
     else do {
       let req = (\<lambda>conn. rcDataObjTruncate API conn (zero_dataObjInp\<lparr>di_objPath := objPath, di_dataSize := sz\<rparr>));
       ((_, iFuseConn), s) \<leftarrow> getIFuseConn OS API s;
       (status, s) \<leftarrow> requestOnce iFuseConn req s;
       (status, s) \<leftarrow> finishRequest API iFuseConn req (updCached OS path (\<lambda>b. b\<lparr>st_size := sz\<rparr>)) status s;
       (_, s) \<leftarrow> relIFuseConn OS iFuseConn s;
       Some ((True, status), s)
     }
   }"

definition irodsTruncate :: "'w os \<Rightarrow> 'w irods \<Rightarrow> string \<Rightarrow> int \<Rightarrow> ('w, 'z) lstate_scheme \<Rightarrow> (int \<times> ('w, 'z) lstate_scheme) option" where
  "irodsTruncate OS API path sz s = do {
     (b, s) \<leftarrow> busy path s;
     if b then Some (- EBUSY, s)
     else do {
       (truncated, s) \<leftarrow> truncateNewlyCreated OS path sz s;
       if truncated then do {
         (_, s) \<leftarrow> whenPreloaded OS path (truncatePreloadedFile OS path sz) 0 s;
         Some (0, s)
       } else do {
         ((sent, status), s) \<leftarrow> truncateObject OS API path sz s;
         if \<not> sent then Some (status, s)
         else whenPreloaded OS path (truncatePreloadedFile OS path sz) status s
       }
     }
   }"

definition syncHook :: "'w os \<Rightarrow> 'w irods \<Rightarrow> string \<Rightarrow> nat \<Rightarrow> ('w, 'z) lstate_scheme \<Rightarrow> ('w, 'z) lstate_scheme option" where
  "syncHook OS API path fi s = do {
     (b, s) \<leftarrow> lazyBusy path s;
     if b then map_option snd (syncLazyUploadBufferedFile OS API path fi s) else Some s
   }"

definition irodsFlush :: "'w os \<Rightarrow> 'w irods \<Rightarrow> string \<Rightarrow> nat \<Rightarrow> ('w, 'z) lstate_scheme \<Rightarrow> (int \<times> ('w, 'z) lstate_scheme) option" where
  "irodsFlush OS API path fi s = do { s \<leftarrow> syncHook OS API path fi s; Some (0, s) }"

definition irodsUtimens :: "string \<Rightarrow> int \<Rightarrow> int \<Rightarrow> ('w, 'z) base_scheme \<Rightarrow> (int \<times> ('w, 'z) base_scheme) option" where
  "irodsUtimens path at mt s = Some (0, s)"

section \<open>Opening, reading, writing, closing\<close>

definition ALLOC_IFUSE_DESC_INDEX :: "('w, 'z) lstate_scheme \<Rightarrow> nat \<times> ('w, 'z) lstate_scheme" where
  "ALLOC_IFUSE_DESC_INDEX s = (fhFresh s, s\<lparr>fhCells := (fhCells s)(fhFresh s \<mapsto> 0), fhFresh := Suc (fhFresh s)\<rparr>)"

text \<open>The macro stores a 0 in the cell it has just freed; the model lets the store go nowhere.\<close>

definition FREE_IFUSE_DESC_INDEX :: "nat \<Rightarrow> ('w, 'z) lstate_scheme \<Rightarrow> ('w, 'z) lstate_scheme option" where
  "FREE_IFUSE_DESC_INDEX fi s = do { _ \<leftarrow> fhCells s fi; Some (s\<lparr>fhCells := (fhCells s)(fi := None)\<rparr>) }"

definition newHandle :: "int \<Rightarrow> ('w, 'z) lstate_scheme \<Rightarrow> (nat \<times> ('w, 'z) lstate_scheme) option" where
  "newHandle descInx s = (case ALLOC_IFUSE_DESC_INDEX s of (fi, s) \<Rightarrow> do { s \<leftarrow> SET_IFUSE_DESC_INDEX fi descInx s; Some (fi, s) })"

text \<open>What follows the opening of a local file: a copy that will be overwritten is dropped and the file
  goes to the upload buffer, or it is fetched in the background.\<close>

definition openHooks ::
  "'w os \<Rightarrow> string \<Rightarrow> int \<Rightarrow> bool \<Rightarrow> stat \<Rightarrow> ('w, 'z) lstate_scheme \<Rightarrow> ('w, 'z) lstate_scheme option" where
  "openHooks OS path flags large stbuf s =
     (if flags AND O_ACCMODE = O_WRONLY \<or> flags AND O_ACCMODE = O_RDWR then do {
        (_, s) \<leftarrow> whenPreloaded OS path (invalidatePreloadedFile OS path) 0 s;
        (_, s) \<leftarrow> (if flags AND O_ACCMODE = O_WRONLY \<and> isLazyUploadEnabled s = 0 then openLazyUploadBufferedFile OS path flags s
                  else Some (0, s));
        Some s
      } else if flags AND O_ACCMODE = O_RDONLY \<and> large \<and> isPreloadEnabled s = 0 then map_option snd (preloadFile OS path stbuf s)
      else Some s)"

text \<open>The object is opened on the server. After a broken connection it is released before the second
  attempt is looked at, and again at the end.\<close>

definition openObject ::
  "'w os \<Rightarrow> 'w irods \<Rightarrow> nat option \<Rightarrow> string \<Rightarrow> int \<Rightarrow> ('w, 'z) lstate_scheme \<Rightarrow> ((int \<times> nat option) \<times> ('w, 'z) lstate_scheme) option" where
  "openObject OS API iFuseConn path flags s = do {
     ((status, objPath), s) \<leftarrow> parseFusePath OS path [] s;
     if status < 0 then do { (_, s) \<leftarrow> relIFuseConn OS iFuseConn s; Some ((- ENOTDIR, None), s) }
     else do {
       let req = (\<lambda>conn. rcDataObjOpen API conn (zero_dataObjInp\<lparr>di_objPath := objPath, di_openFlags := flags\<rparr>));
       (fd, s) \<leftarrow> requestOnce iFuseConn req s;
       (fd, s) \<leftarrow> (if fd < 0 then do {
          (fd, s) \<leftarrow> retryRequest API iFuseConn req fd s;
          (_, s) \<leftarrow> relIFuseConn OS iFuseConn s;
          Some (fd, s)
        } else Some (fd, s));
       if fd < 0 then Some ((- ENOENT, None), s)
       else do {
         (_, s) \<leftarrow> rmPathFromCache OS path NonExistPathArray s;
         (descInx, s) \<leftarrow> allocIFuseDesc s;
         if descInx < 0 then do { (_, s) \<leftarrow> relIFuseConn OS iFuseConn s; Some ((- ENOENT, None), s) }
         else do {
           (_, s) \<leftarrow> fillIFuseDesc descInx iFuseConn fd (Some objPath) (Some path) s;
           (_, s) \<leftarrow> relIFuseConn OS iFuseConn s;
           (fi, s) \<leftarrow> newHandle descInx s;
           Some ((0, Some fi), s)
         }
       }
     }
   }"

definition openGuards :: "string \<Rightarrow> int \<Rightarrow> ('w, 'z) lstate_scheme \<Rightarrow> (bool \<times> ('w, 'z) lstate_scheme) option" where
  "openGuards path flags s = do {
     (b, s) \<leftarrow> lazyBusy path s;
     if b then Some (True, s)
     else if flags AND O_ACCMODE = O_WRONLY \<or> flags AND O_ACCMODE = O_RDWR then preloadBusy path s
     else Some (False, s)
   }"

text \<open>The result carries the handle stored in \<open>fi->fh\<close> when the file was opened.\<close>

definition irodsOpen ::
  "'w os \<Rightarrow> 'w irods \<Rightarrow> string \<Rightarrow> int \<Rightarrow> ('w, 'z) lstate_scheme \<Rightarrow> ((int \<times> nat option) \<times> ('w, 'z) lstate_scheme) option" where
  "irodsOpen OS API path flags s = do {
     (b, s) \<leftarrow> openGuards path flags s;
     if b then Some ((- EBUSY, None), s)
     else do {
       ((status, stbuf), s) \<leftarrow> irodsGetattr OS API path zero_stat s;
       if status < 0 then Some ((- ENOENT, None), s)
       else do {
         (descInx, s) \<leftarrow> getDescInxInNewlyCreatedCache OS API path flags s;
         if descInx > 0 then do {
           (fi, s) \<leftarrow> newHandle descInx s;
           s \<leftarrow> openHooks OS path flags True stbuf s;
           Some ((0, Some fi), s)
         } else do {
           ((_, iFuseConn), s) \<leftarrow> getIFuseConnByPath OS API path s;
           (descInx, s) \<leftarrow> irodsOpenWithReadCache OS API iFuseConn path flags s;
           if descInx > 0 then do {
             (fi, s) \<leftarrow> newHandle descInx s;
             (_, s) \<leftarrow> relIFuseConn OS iFuseConn s;
             s \<leftarrow> openHooks OS path flags (st_size stbuf > MAX_READ_CACHE_SIZE) stbuf s;
             Some ((0, Some fi), s)
           } else openObject OS API iFuseConn path flags s
         }
       }
     }
   }"

text \<open>A request on the descriptor of a handle, under its lock, after seeking to the offset.\<close>

definition withDescAt ::
  "'w os \<Rightarrow> 'w irods \<Rightarrow> string \<Rightarrow> nat \<Rightarrow> int \<Rightarrow> bool \<Rightarrow> 'a \<Rightarrow>
   (int \<Rightarrow> ('w, 'z) lstate_scheme \<Rightarrow> ((int \<times> 'a) \<times> ('w, 'z) lstate_scheme) option) \<Rightarrow> ('w, 'z) lstate_scheme \<Rightarrow>
   ((int \<times> 'a) \<times> ('w, 'z) lstate_scheme) option" where
  "withDescAt OS API path fi offset nothing dflt body s = do {
     descInx \<leftarrow> GET_IFUSE_DESC_INDEX fi s;
     if checkFuseDesc descInx s < 0 then Some ((- EBADF, dflt), s)
     else do {
       (_, s) \<leftarrow> lockDesc descInx s;
       (status, s) \<leftarrow> ifuseLseek OS API path descInx offset s;
       if status < 0 then do { (_, s) \<leftarrow> unlockDesc descInx s; Some ((negErrno status, dflt), s) }
       else if nothing then do { (_, s) \<leftarrow> unlockDesc descInx s; Some ((0, dflt), s) }
       else do {
         (r, s) \<leftarrow> body descInx s;
         (_, s) \<leftarrow> unlockDesc descInx s;
         Some (r, s)
       }
     }
   }"

definition irodsRead ::
  "'w os \<Rightarrow> 'w irods \<Rightarrow> string \<Rightarrow> int \<Rightarrow> int \<Rightarrow> nat \<Rightarrow> ('w, 'z) lstate_scheme \<Rightarrow> ((int \<times> string) \<times> ('w, 'z) lstate_scheme) option" where
  "irodsRead OS API path sz offset fi s = do {
     (descInx, s) \<leftarrow> (if isPreloadEnabled s = 0 then openPreloadedFile OS path s else Some (-1, s));
     if descInx > 0 then readPreloadedFile OS descInx sz offset s
     else withDescAt OS API path fi offset (sz \<le> 0) [] (\<lambda>descInx. ifuseRead OS API path descInx sz) s
   }"

definition irodsWrite ::
  "'w os \<Rightarrow> 'w irods \<Rightarrow> string \<Rightarrow> string \<Rightarrow> int \<Rightarrow> nat \<Rightarrow> ('w, 'z) lstate_scheme \<Rightarrow> (int \<times> ('w, 'z) lstate_scheme) option" where
  "irodsWrite OS API path buf offset fi s = do {
     (b, s) \<leftarrow> lazyBusy path s;
     if b then writeLazyUploadBufferedFile OS API path buf offset fi s
     else do {
       ((status, _), s) \<leftarrow> withDescAt OS API path fi offset (buf = []) ()
          (\<lambda>descInx s. do { (r, s) \<leftarrow> ifuseWrite OS API path descInx buf s; Some ((r, ()), s) }) s;
       Some (status, s)
     }
   }"

text \<open>The handler asks for the figures of the root file system (\<open>rootfs\<close>, the effect of that call on the
  caller's structure) and then replaces most of them by made-up numbers.\<close>

record statvfs =
  f_bsize :: int
  f_frsize :: int
  f_blocks :: int
  f_bfree :: int
  f_bavail :: int
  f_files :: int
  f_ffree :: int
  f_favail :: int
  f_fsid :: int
  f_flag :: int
  f_namemax :: int

definition irodsStatfs ::
  "(statvfs \<Rightarrow> statvfs) \<Rightarrow> string \<Rightarrow> statvfs option \<Rightarrow> ('w, 'z) base_scheme \<Rightarrow> ((int \<times> statvfs option) \<times> ('w, 'z) base_scheme) option" where
  "irodsStatfs rootfs path stbuf s = Some ((0, map_option (\<lambda>b. (rootfs b)\<lparr>f_bsize := FILE_BLOCK_SZ, f_blocks := 2000000000,
     f_bfree := 1000000000, f_bavail := 1000000000, f_files := 200000000, f_ffree := 100000000, f_favail := 100000000, f_fsid := 777,
     f_namemax := int MAX_NAME_LEN\<rparr>) stbuf), s)"

definition irodsRelease :: "'w os \<Rightarrow> 'w irods \<Rightarrow> string \<Rightarrow> nat \<Rightarrow> ('w, 'z) lstate_scheme \<Rightarrow> (int \<times> ('w, 'z) lstate_scheme) option" where
  "irodsRelease OS API path fi s = do {
     (_, s) \<leftarrow> whenPreloaded OS path (closePreloadedFile OS path) 0 s;
     (b, s) \<leftarrow> lazyBusy path s;
     (_, s) \<leftarrow> (if b then closeLazyUploadBufferedFile OS path s else Some (0, s));
     descInx \<leftarrow> GET_IFUSE_DESC_INDEX fi s;
     if checkFuseDesc descInx s < 0 then Some (- EBADF, s)
     else do {
       (status, s) \<leftarrow> ifuseClose OS API path descInx s;
       (_, s) \<leftarrow> freeIFuseDesc OS descInx s;
       s \<leftarrow> FREE_IFUSE_DESC_INDEX fi s;
       Some (if status < 0 then negErrno status else 0, s)
     }
   }"

definition irodsFsync :: "'w os \<Rightarrow> 'w irods \<Rightarrow> string \<Rightarrow> int \<Rightarrow> nat \<Rightarrow> ('w, 'z) lstate_scheme \<Rightarrow> (int \<times> ('w, 'z) lstate_scheme) option" where
  "irodsFsync OS API path isdatasync fi s = do { s \<leftarrow> syncHook OS API path fi s; Some (0, s) }"

end
