(* ===== verification/Fuse_Handlers.thy ===== *)
theory Fuse_Handlers
  imports Fuse_Oper
begin

text \<open>
  The handlers keep the invariant of the client. \<open>hinv\<close> puts together the invariants of the descriptors, the
  pool, the slots and the path caches with that of the handles (\<open>handles_ok\<close>: each handle has an open descriptor
  of its own, in no slot). Each handler has a weakest-precondition rule: those that keep the descriptors are
  shown to keep \<open>st\<close>, those that create, open and close files are shown to keep \<open>hinv\<close>. \<open>called\<close> is the state
  machine of any sequence of calls, interleaved with rounds of the connection manager. What is assumed of
  server and system is named: \<open>server_ok\<close>, \<open>open_steady\<close>, \<open>os_ok\<close>, \<open>listing_ok\<close>.
\<close>

section \<open>Handlers that keep the descriptors\<close>

text \<open>A server that is up and sends attributes with every positive reply about an object.\<close>

definition server_ok :: "'w irods \<Rightarrow> bool" where
  "server_ok API \<longleftrightarrow> server_up API \<and> (\<forall>c p w. fst (fst (rcObjStat API c p w)) \<ge> 0 \<longrightarrow> snd (fst (rcObjStat API c p w)) \<noteq> None)"

lemma server_okD: "server_ok API \<Longrightarrow> server_up API"
  by (simp add: server_ok_def)

lemma connField_wp [io_wp]: "st {a} s0 s \<Longrightarrow> (\<And>h. Q h) \<Longrightarrow> wpo (connField (Some a) s) Q"
  by (auto simp: connField_def intro!: held_wp)

lemma requestOnce_wp [io_wp]:
  assumes "st {a} s0 s" "\<And>r s'. st {a} s0 s' \<Longrightarrow> Q (r, s')"
  shows "wpo (requestOnce (Some a) req s) Q"
  unfolding requestOnce_def using assms(1) by (auto simp: io_simps intro!: io_wp assms(2))

lemma retryRequest_wp [io_wp]:
  assumes "server_up API" "st {a} s0 s" "\<And>r s'. st {a} s0 s' \<Longrightarrow> Q (r, s')"
  shows "wpo (retryRequest API (Some a) req r0 s) Q"
  unfolding retryRequest_def using assms(1,2) by (auto simp: io_simps intro!: io_wp assms(3))

lemma finishRequest_wp [io_wp]:
  assumes "server_up API" "st {a} s0 s" "\<And>s. st {a} s0 s \<Longrightarrow> wpo (upd s) (st {a} s0)"
    and "\<And>r s'. st {a} s0 s' \<Longrightarrow> Q (r, s')"
  shows "wpo (finishRequest API (Some a) req upd r0 s) Q"
  unfolding finishRequest_def using assms(1,2)
  by (auto simp: io_simps intro!: retryRequest_wp assms(4) wpo_mono [OF assms(3)])

lemma cachedAttr_wp:
  assumes "st H s0 s" "asciiPath p" "\<And>s'. st H s0 s' \<Longrightarrow> Q (None, s')"
    and "\<And>a sb s'. st H s0 s' \<Longrightarrow> pcPath s' a = Some p \<Longrightarrow> Q (Some (a, sb), s')"
  shows "wpo (cachedAttr OS p s) Q"
proof -
  have upd: "wpo (updatePathCacheStat OS a t \<bind> (\<lambda>(status, s). if status < 0 then
       rmPathFromCache OS p PathArray s \<bind> (\<lambda>(_, s). Some (None, s)) else pcHeap s a \<bind> (\<lambda>n. Some (Some (a, pcStbuf n), s)))) Q"
    if t: "st H s0 t" "pcPath t a = Some p" for a t
  proof -
    obtain n where n: "pcHeap t a = Some n" "filePath n = p" using t(2) by (auto simp: pcPath_def)
    show ?thesis
      using assms(2) n(2) by (auto simp: io_simps pcPath_def intro!: updateStat_wp [OF t(1) n(1)] rm_wp assms(3,4))
  qed
  show ?thesis
    unfolding cachedAttr_def wpo_bind [of "matchPathInPathCache w x y z" for w x y z]
    by (rule match_wp [OF assms(1,2)]) (auto split: option.splits intro: assms(3) upd simp del: wpo_bind)
qed

lemma askStat_wp:
  assumes "server_ok API" "st {a} s0 s" "\<And>r out s'. st {a} s0 s' \<Longrightarrow> (r \<ge> 0 \<longrightarrow> out \<noteq> None) \<Longrightarrow> Q ((r, out), s')"
  shows "wpo (askStat API (Some a) p s) Q"
proof -
  have out: "r \<ge> 0 \<longrightarrow> q \<noteq> None" if "rcObjStat API c p w = ((r, q), w')" for c w r q w'
    using assms(1) that unfolding server_ok_def by (metis fst_conv snd_conv)
  show ?thesis
    unfolding askStat_def using assms(2) server_okD [OF assms(1)]
    by (auto simp: wp_simps Let_def sys_def split: prod.splits intro!: io_wp assms(3) dest: out)
qed

lemma fillFromReply_wp:
  assumes "st H s0 s" "asciiPath p" "\<And>r sb node s'. st H s0 s' \<Longrightarrow> (\<forall>a. node = Some a \<longrightarrow> pcPath s' a = Some p) \<Longrightarrow> Q ((r, sb, node), s')"
  shows "wpo (fillFromReply OS p out s) Q"
  unfolding fillFromReply_def using assms(1,2) by (auto simp: io_simps intro!: io_wp assms(3))

lemma getattr_wp [io_wp]:
  assumes "server_ok API" "st {a} s0 s" "rodsPathOk (MyRodsEnv s0) p"
    and "\<And>r sb node s'. st {a} s0 s' \<Longrightarrow> (\<forall>n. node = Some n \<longrightarrow> pcPath s' n = Some p) \<Longrightarrow> Q ((r, sb, node), s')"
  shows "wpo (do_irodsGetattr OS API (Some a) p sb0 s) Q"
proof -
  have p: "asciiPath p" using assms(3) by (rule rodsPathOk_ascii)
  show ?thesis
    unfolding do_irodsGetattr_def using assms(2,3) p
    by (auto simp: io_simps intro!: match_wp cachedAttr_wp askStat_wp [OF assms(1)] fillFromReply_wp parse_wp add_wp assms(4))
qed

lemma irodsGetattr_wp [io_wp]:
  assumes "server_ok API" "st {} s0 s" "rodsPathOk (MyRodsEnv s0) p" "\<And>r s'. st {} s0 s' \<Longrightarrow> Q (r, s')"
  shows "wpo (irodsGetattr OS API p sb0 s) Q"
  unfolding irodsGetattr_def using assms(1-3) server_okD [OF assms(1)]
  by (auto simp: io_simps intro!: getConn_wp getattr_wp relConn_wp assms(4))

text \<open>A client started without preloading and lazy uploading: the hooks do nothing.\<close>

definition plain :: "('w, 'z) lstate_scheme \<Rightarrow> bool" where
  "plain s \<longleftrightarrow> pcPreload (PreloadConfig s) = 0 \<and> luLazyUpload (LazyUploadConfig s) = 0"

lemma more_lz:
  fixes s s' :: "('w, 'z) lstate_scheme"
  assumes "nstate.more s' = nstate.more s"
  shows "fhCells s' = fhCells s" "fhFresh s' = fhFresh s" "plain s' = plain s"
  using assms by (cases s; cases s'; simp add: plain_def)+

lemma plain_st: "st H s s' \<Longrightarrow> plain s' = plain s" for s s' :: "('w, 'z) lstate_scheme"
  by (rule more_lz(3), rule more_nc(3)) (simp add: st_def io_keeps_def)

lemma plain_hooks:
  assumes "plain s"
  shows "busy p s = Some (False, s)" "lazyBusy p s = Some (False, s)" "preloadBusy p s = Some (False, s)"
    "whenPreloaded OS p f r s = Some (r, s)" "isLazyUploadEnabled s = -1" "isPreloadEnabled s = -1"
  using assms by (simp_all add: plain_def busy_def lazyBusy_def preloadBusy_def whenPreloaded_def isLazyUploadEnabled_def isPreloadEnabled_def)

lemma whenPreloaded_wp:
  "plain s0 \<Longrightarrow> st H s0 s \<Longrightarrow> Q (r, s) \<Longrightarrow> wpo (whenPreloaded OS p f r s) Q" for s s0 :: "('w, 'z) lstate_scheme"
  using plain_hooks(4) [of s] plain_st [of H s0 s] by simp

lemma kv_empty [simp]: "kv_inv emptyKeyVal"
  by (rule kv_inv_empty)

lemma updCached_wp:
  assumes "st H s0 s" "asciiPath p" "\<And>s'. st H s0 s' \<Longrightarrow> Q s'"
  shows "wpo (updCached OS p f s) Q"
proof -
  have set: "wpo (pcHeap t a \<bind> (\<lambda>n. Some (setNode a (Some (n\<lparr>pcStbuf := f (pcStbuf n)\<rparr>)) t))) Q"
    if "st H s0 t" "pcPath t a = Some p" for a t
    using that by (auto simp: pcPath_def intro!: assms(3) setNode_wp)
  show ?thesis
    unfolding updCached_def wpo_bind [of "matchPathInPathCache w x y z" for w x y z]
    by (rule match_wp [OF assms(1,2)]) (auto split: option.splits intro: assms(3) set simp del: wpo_bind)
qed

lemma mkdir_wp:
  assumes "server_ok API" "st {} s s" "rodsPathOk (MyRodsEnv s) p"
  shows "wpo (irodsMkdir OS API p m s) (\<lambda>(r, s'). st {} s s')"
  unfolding irodsMkdir_def using assms server_okD [OF assms(1)] rodsPathOk_ascii [OF assms(3)]
  by (auto simp: io_simps intro!: parse_wp getConn_wp requestOnce_wp retryRequest_wp relConn_wp fillDirStat_wp add_wp rm_wp)

lemma unlink_wp:
  fixes s :: "('w, 'z) lstate_scheme"
  assumes "server_ok API" "plain s" "st {} s s" "rodsPathOk (MyRodsEnv s) p"
  shows "wpo (irodsUnlink OS API p s) (\<lambda>(r, s'). st {} s s')"
  unfolding irodsUnlink_def using assms server_okD [OF assms(1)] rodsPathOk_ascii [OF assms(4)]
  by (auto simp: io_simps plain_hooks(1) intro!: parse_wp addKeyVal_wp getConn_wp requestOnce_wp finishRequest_wp relConn_wp rm_wp
      whenPreloaded_wp)

lemma rmdir_wp:
  fixes s :: "('w, 'z) lstate_scheme"
  assumes "server_ok API" "plain s" "st {} s s" "rodsPathOk (MyRodsEnv s) p"
  shows "wpo (irodsRmdir OS API p s) (\<lambda>(r, s'). st {} s s')"
  unfolding irodsRmdir_def using assms server_okD [OF assms(1)] rodsPathOk_ascii [OF assms(4)]
  by (auto simp: io_simps plain_hooks(1) intro!: parse_wp addKeyVal_wp getConn_wp requestOnce_wp finishRequest_wp relConn_wp rm_wp
      whenPreloaded_wp)

lemma chmodObject_wp:
  assumes "server_ok API" "st {} s0 s" "rodsPathOk (MyRodsEnv s0) p" "\<And>r s'. st {} s0 s' \<Longrightarrow> Q (r, s')"
  shows "wpo (chmodObject OS API p m s) Q"
  unfolding chmodObject_def using assms(1-3) server_okD [OF assms(1)] rodsPathOk_ascii [OF assms(3)]
  by (auto simp: io_simps intro!: parse_wp addKeyVal_wp getConn_wp requestOnce_wp finishRequest_wp relConn_wp updCached_wp assms(4))

lemma chmod_wp:
  fixes s :: "('w, 'z) lstate_scheme"
  assumes "server_ok API" "plain s" "opst {} 0 E s" "rodsPathOk E p"
  shows "wpo (irodsChmod OS API p m s) (\<lambda>(r, s'). st {} s s')"
proof -
  have s: "st {} s s" "MyRodsEnv s = E" using opst_self [OF assms(3)] opst_env [OF assms(3)] by simp_all
  have upd: "st {} s (setDesc i ((IFuseDesc s i)\<lparr>fdCreateMode := c\<rparr>) s)" if "inuse s i" for i c
    using st_desc_upd [OF s(1), of i] that by auto
  show ?thesis
    unfolding irodsChmod_def using assms s upd
    by (auto simp: io_simps plain_hooks(1) intro!: getNewlyByPath_wp [OF assms(3)] getDesc_wp chmodObject_wp)
qed

lemma truncateNewly_wp:
  assumes "st H s0 s" "asciiPath p" "\<And>b s'. st H s0 s' \<Longrightarrow> Q (b, s')"
  shows "wpo (truncateNewlyCreated OS p sz s) Q"
proof -
  have node: "wpo (pcHeap t a \<bind> (\<lambda>n. case locCachePath n of
          Some p \<Rightarrow> if pcLocCacheState n = HAVE_NEWLY_CREATED_CACHE then sys (os_truncate OS p sz) t \<bind> (\<lambda>(status, s).
              if status \<ge> 0 then updatePathCacheStat OS a s \<bind> (\<lambda>(_, s). Some (True, s)) else Some (False, s)) else Some (False, t)
        | None \<Rightarrow> Some (False, t))) Q" if t: "st H s0 t" "pcPath t a = Some p" for a t
  proof -
    obtain n where n: "pcHeap t a = Some n" using t(2) by (auto simp: pcPath_def)
    have w: "pcHeap (t\<lparr>world := w\<rparr>) a = Some n" for w using n by simp
    show ?thesis using n t(1) by (auto simp: io_simps split: option.splits intro!: assms(3) updateStat_wp [OF _ w])
  qed
  show ?thesis
    unfolding truncateNewlyCreated_def wpo_bind [of "matchPathInPathCache w x y z" for w x y z]
    by (rule match_wp [OF assms(1,2)]) (auto split: option.splits intro: assms(3) node simp del: wpo_bind)
qed

lemma truncateObject_wp:
  assumes "server_ok API" "st {} s0 s" "rodsPathOk (MyRodsEnv s0) p" "\<And>r s'. st {} s0 s' \<Longrightarrow> Q (r, s')"
  shows "wpo (truncateObject OS API p sz s) Q"
  unfolding truncateObject_def using assms(1-3) server_okD [OF assms(1)] rodsPathOk_ascii [OF assms(3)]
  by (auto simp: io_simps intro!: parse_wp getConn_wp requestOnce_wp finishRequest_wp relConn_wp updCached_wp assms(4))

lemma truncate_wp:
  fixes s :: "('w, 'z) lstate_scheme"
  assumes "server_ok API" "plain s" "st {} s s" "rodsPathOk (MyRodsEnv s) p"
  shows "wpo (irodsTruncate OS API p sz s) (\<lambda>(r, s'). st {} s s')"
  unfolding irodsTruncate_def using assms rodsPathOk_ascii [OF assms(4)]
  by (auto simp: io_simps plain_hooks(1) intro!: truncateNewly_wp truncateObject_wp whenPreloaded_wp)

section \<open>Renaming\<close>

lemma renameNewly_wp:
  fixes s :: "('w, 'z) nstate_scheme"
  assumes "opst {} 0 E s" "fusePath E from" "fusePath E to" "from \<noteq> to"
    and "\<And>b s'. opst {} 0 E s' \<Longrightarrow> slotFrame s s' \<Longrightarrow> Q (b, s')"
  shows "wpo (renameNewlyCreated OS from to s) Q"
proof -
  have fr: "asciiPath from" using assms(2) by auto
  have ren: "wpo (renmeOpenedIFuseDesc OS a to t \<bind> (\<lambda>(status, s). if status \<ge> 0 then
       rmPathFromCache OS from PathArray s \<bind> (\<lambda>(_, s). Some (True, s)) else Some (False, s))) Q"
    if t: "st {} s t" "pcPath t a = Some from" for a t
  proof -
    have "wpo (rmPathFromCache OS from PathArray u) (\<lambda>x. Q (True, snd x))" if u: "opst {} 0 E u" "slotFrame t u" for u
    proof (rule rm_wp [OF opst_self [OF u(1)] fr], simp)
      fix v assume v: "st {} u v"
      have "slotFrame s v" using slotFrame_trans [OF slotFrame_st [OF t(1)] slotFrame_trans [OF u(2) slotFrame_st [OF v]]] .
      then show "Q (True, v)" using assms(5) opst_st [OF u(1) v] by blast
    qed
    then show ?thesis
      using slotFrame_trans [OF slotFrame_st [OF t(1)]]
      by (auto simp: io_simps intro!: renme_wp [OF opst_st [OF assms(1) t(1)] t(2) assms(4,3)] assms(5))
  qed
  have none: "Q (False, t)" if "st {} s t" for t using assms(5) opst_st [OF assms(1) that] slotFrame_st [OF that] by blast
  have node: "wpo (pcHeap t a \<bind> (\<lambda>n. if pcLocCacheState n = HAVE_NEWLY_CREATED_CACHE \<and> locCachePath n \<noteq> None then
       renmeOpenedIFuseDesc OS a to t \<bind> (\<lambda>(status, s). if status \<ge> 0 then
       rmPathFromCache OS from PathArray s \<bind> (\<lambda>(_, s). Some (True, s)) else Some (False, s)) else Some (False, t))) Q"
    if t: "st {} s t" "pcPath t a = Some from" for a t
    using ren [OF t] none [OF t(1)] t(2) by (auto simp: pcPath_def)
  show ?thesis
    unfolding renameNewlyCreated_def wpo_bind [of "matchPathInPathCache w x y z" for w x y z]
    by (rule match_wp [OF opst_self [OF assms(1)] fr]) (auto split: option.splits intro: none node simp del: wpo_bind not_None_eq)
qed

lemma renameInCache_wp:
  assumes "st H s0 s" "asciiPath from" "asciiPath to"
  shows "wpo (renameInCache OS from to s) (st H s0)"
proof -
  have node: "wpo (pcHeap t a) (\<lambda>n. wpo (addPathToCache OS to PathArray (Some (pcStbuf n)) t \<bind>
       (\<lambda>(_, s). rmPathFromCache OS from PathArray s \<bind> (\<lambda>(_, s). Some s))) (\<lambda>s. wpo (rmPathFromCache OS to NonExistPathArray s) (\<lambda>x. st H s0 (snd x))))"
    if "st H s0 t" "pcPath t a = Some from" for a t
    using that assms(2,3) by (auto simp: io_simps pcPath_def intro!: add_wp rm_wp)
  show ?thesis
    unfolding renameInCache_def using assms node
    by (auto simp: io_simps intro!: rm_wp match_wp split: option.splits)
qed

lemma renameObject_wp:
  assumes "server_ok API" "st {} s0 s" "rodsPathOk (MyRodsEnv s0) from" "rodsPathOk (MyRodsEnv s0) to" "\<And>r s'. st {} s0 s' \<Longrightarrow> Q (r, s')"
  shows "wpo (renameObject OS API from to s) Q"
  unfolding renameObject_def using assms(1-4) server_okD [OF assms(1)] rodsPathOk_ascii [OF assms(3)] rodsPathOk_ascii [OF assms(4)]
  by (auto simp: io_simps intro!: parse_wp addKeyVal_wp getConn_wp requestOnce_wp finishRequest_wp relConn_wp renameInCache_wp assms(5))

lemma rename_wp:
  fixes s :: "('w, 'z) lstate_scheme"
  assumes "server_ok API" "plain s" "opst {} 0 E s" "fusePath E from" "fusePath E to" "from \<noteq> to"
  shows "wpo (irodsRename OS API from to s) (\<lambda>(r, s'). opst {} 0 E s' \<and> slotFrame s s')"
proof -
  have hook: "wpo (whenPreloaded OS from f r t) (\<lambda>(r, s'). opst {} 0 E s' \<and> slotFrame s s')" if "opst {} 0 E t" "slotFrame s t" for f r t
    using that assms(2) plain_hooks(4) [of t] more_lz(3) [of t s] by (simp add: slotFrame_def)
  have obj: "wpo (renameObject OS API from to t) (\<lambda>((sent, status), u). opst {} 0 E u \<and> slotFrame s u)"
    if "opst {} 0 E t" "slotFrame s t" for t
    by (rule renameObject_wp [OF assms(1) opst_self [OF that(1)]])
      (use that assms(4,5) opst_env [OF that(1)] in \<open>auto intro: opst_st slotFrame_trans slotFrame_st\<close>)
  show ?thesis
    unfolding irodsRename_def using plain_hooks [OF assms(2)] hook
    by (auto simp: io_simps intro!: renameNewly_wp [OF assms(3-6)] wpo_mono [OF hook] wpo_mono [OF obj])
qed

section \<open>Reading and writing through a handle\<close>

text \<open>Under the lock of one descriptor the state is as good as without it.\<close>

lemma opst_lockDesc:
  assumes "opst {} 0 E s"
  shows "st {} (s\<lparr>locks := (locks s)(IFuseDescLock i := Suc 0)\<rparr>) (s\<lparr>locks := (locks s)(IFuseDescLock i := Suc 0)\<rparr>)"
  using assms by (simp add: opst_def st_def ifuse_ok_locks)

lemma st_unlockDesc:
  fixes s :: "('w, 'z) nstate_scheme"
  assumes "opst {} 0 E s" "st {} (s\<lparr>locks := (locks s)(IFuseDescLock i := Suc 0)\<rparr>) t"
  shows "st {} s (t\<lparr>locks := (locks t)(IFuseDescLock i := 0)\<rparr>)"
proof -
  have "locks s (IFuseDescLock i) = 0" using assms(1) by (simp add: opst_def)
  moreover have "ifuse_ok {} (t\<lparr>locks := (locks t)(IFuseDescLock i := 0)\<rparr>)" using assms(2) by (simp add: st_def ifuse_ok_locks)
  ultimately show ?thesis using assms(2) by (auto simp: st_def io_keeps_def)
qed

lemma withDescAt_wp:
  fixes s :: "('w, 'z) lstate_scheme"
  assumes "opst {} 0 E s" "fhCells s fi = Some i"
    and body: "\<And>s0 t :: ('w, 'z) lstate_scheme. st {} s0 t \<Longrightarrow> inuse s0 i \<Longrightarrow> MyRodsEnv s0 = E \<Longrightarrow> wpo (body i t) (\<lambda>x. st {} s0 (snd x))"
    and Q: "\<And>r s'. st {} s s' \<Longrightarrow> Q (r, s')"
  shows "wpo (withDescAt OS API path fi off nothing dflt body s) Q"
proof (cases "checkFuseDesc i s < 0")
  case True
  then show ?thesis using assms(2) Q [OF opst_self [OF assms(1)]] by (simp add: withDescAt_def GET_IFUSE_DESC_INDEX_def)
next
  case False
  then have i: "inuse s i" by (simp add: checkFuseDesc_inuse)
  then have range: "\<not> (i < 3 \<or> i \<ge> 512)" by (auto simp: inuse_def)
  have l: "locks s (IFuseDescLock i) = 0" using assms(1) by (simp add: opst_def)
  let ?s = "s\<lparr>locks := (locks s)(IFuseDescLock i := Suc 0)\<rparr>"
  have s: "st {} ?s ?s" "inuse ?s i" "MyRodsEnv ?s = E" using opst_lockDesc [OF assms(1)] i opst_env [OF assms(1)] by (simp_all add: inuse_def)
  have fin: "Q (r, t\<lparr>locks := (locks t)(IFuseDescLock i := 0)\<rparr>)" if "st {} ?s t" for r t
    by (rule Q [OF st_unlockDesc [OF assms(1) that]])
  show ?thesis
    unfolding withDescAt_def GET_IFUSE_DESC_INDEX_def lockDesc_def unlockDesc_def
    using False assms(2) range l s fin
    by (auto simp: io_simps mutex_lock_def mutex_unlock_def intro!: ifuseLseek_wp [OF s(1,2)] wpo_mono [OF body [OF _ s(2,3)]])
qed

lemma irodsRead_wp:
  fixes s :: "('w, 'z) lstate_scheme"
  assumes "plain s" "opst {} 0 E s" "fhCells s fi = Some i"
  shows "wpo (irodsRead OS API path sz off fi s) (\<lambda>(r, s'). st {} s s')"
  unfolding irodsRead_def using assms plain_hooks [OF assms(1)]
  by (auto intro!: withDescAt_wp [OF assms(2,3)] ifuseRead_wp)

lemma irodsWrite_wp:
  fixes s :: "('w, 'z) lstate_scheme"
  assumes "plain s" "opst {} 0 E s" "fhCells s fi = Some i" "rodsPathOk E path"
  shows "wpo (irodsWrite OS API path buf off fi s) (\<lambda>(r, s'). st {} s s')"
  unfolding irodsWrite_def using assms plain_hooks [OF assms(1)]
  by (auto simp: case_prod_beta intro!: withDescAt_wp [OF assms(2,3)] ifuseWrite_wp)

section \<open>New and released descriptors\<close>

lemma st_cacheState:
  assumes "st H s0 s" "inuse s i"
  shows "st H s0 (setDesc i ((IFuseDesc s i)\<lparr>fdLocCacheState := x\<rparr>) s)"
    "st H s0 (setDesc i ((IFuseDesc s i)\<lparr>fdLocCacheState := x, fdCreateMode := y\<rparr>) s)"
  using assms by (auto intro!: st_setDesc simp: inuse_def)

lemma opst_cong:
  assumes "opst H L E s" "ifuse_ok H' s'" "MyRodsEnv s' = E" "NewlyCreatedFile s' = NewlyCreatedFile s"
    "\<And>j. inuse s' j \<Longrightarrow> fdConn (IFuseDesc s' j) \<noteq> None" "\<And>j. in_slot s j \<Longrightarrow> inuse s' j"
    "\<forall>j. locks s' (IFuseDescLock j) = 0" "locks s' NewlyCreatedOprLock = L"
  shows "opst H' L E s'"
proof -
  have "nc_inv s" "MyRodsEnv s = E" using assms(1) by (simp_all add: opst_def)
  then have "nc_inv s'" using assms(3,4,6) unfolding nc_inv_def in_slot_def by auto
  then show ?thesis using assms by (simp add: opst_def)
qed

lemma free_open_wp:
  fixes s :: "('w, 'z) nstate_scheme"
  assumes "opst {} L E s" "inuse s i" "\<not> in_slot s i"
    and "\<And>s'. opst {} L E s' \<Longrightarrow> nstate.more s' = nstate.more s \<Longrightarrow> in_slot s' = in_slot s \<Longrightarrow> (\<forall>j. inuse s' j \<longleftrightarrow> inuse s j \<and> j \<noteq> i) \<Longrightarrow> Q (0, s')"
  shows "wpo (freeIFuseDesc OS i s) Q"
proof (rule opst_free_wp [OF assms(1,2)])
  fix s' :: "('w, 'z) nstate_scheme"
  assume s': "ifuse_ok {} s'" "IFuseDesc s' = (IFuseDesc s)(i := zeroDesc)" "MyRodsEnv s' = E" "NewlyCreatedFile s' = NewlyCreatedFile s"
    "nstate.more s' = nstate.more s" "\<forall>j. locks s' (IFuseDescLock j) = 0" "locks s' NewlyCreatedOprLock = L"
  have inu: "inuse s' j \<longleftrightarrow> inuse s j \<and> j \<noteq> i" for j using s'(2) by (auto simp: inuse_def zeroDesc_def)
  have slot: "inuse s j" if "in_slot s j" for j using assms(1) that by (auto simp: opst_def nc_inv_def in_slot_def)
  have "opst {} L E s'"
  proof (rule opst_cong [OF assms(1) s'(1,3,4)])
    show "fdConn (IFuseDesc s' j) \<noteq> None" if "inuse s' j" for j using that inu s'(2) assms(1) by (auto simp: opst_def)
    show "inuse s' j" if "in_slot s j" for j using that inu slot assms(3) by auto
  qed (rule s'(6,7))+
  moreover have "in_slot s' = in_slot s" using s'(4) by (simp add: in_slot_def fun_eq_iff)
  ultimately show "Q (0, s')" using assms(4) s'(5) inu by blast
next
  show "k \<in> {}" if "k < 5" "ncFilePath (NewlyCreatedFile s k) \<noteq> []" "ncDescInx (NewlyCreatedFile s k) = i" for k
    using that assms(3) by (auto simp: in_slot_def)
qed

text \<open>The frame of an open: one more descriptor, in no slot. It may have been in a slot before.\<close>

definition newFrame :: "int \<Rightarrow> ('w, 'z) nstate_scheme \<Rightarrow> ('w, 'z) nstate_scheme \<Rightarrow> bool" where
  "newFrame d s s' \<longleftrightarrow> nstate.more s' = nstate.more s \<and> (\<not> inuse s d \<or> in_slot s d) \<and> inuse s' d \<and> \<not> in_slot s' d \<and>
     (\<forall>j. in_slot s' j \<longrightarrow> in_slot s j) \<and> (\<forall>j. j \<noteq> d \<longrightarrow> \<not> in_slot s j \<longrightarrow> inuse s' j = inuse s j)"

lemma newFrame_slot: "slotFrame s t \<Longrightarrow> newFrame d t u \<Longrightarrow> newFrame d s u"
  by (auto simp: slotFrame_def newFrame_def)

lemma newFrame_st: "newFrame d s t \<Longrightarrow> st H t u \<Longrightarrow> newFrame d s u" for s t u :: "('w, 'z) nstate_scheme"
  using slotFrame_st [of H t u] by (auto simp: newFrame_def slotFrame_def in_slot_st st_inuse)

lemma alloc_fill_wp:
  fixes s :: "('w, 'z) nstate_scheme"
  assumes "opst {a} L E s"
    and "Q' s" "\<And>d s'. 3 \<le> d \<Longrightarrow> opst {a} L E s' \<Longrightarrow> newFrame d s s' \<Longrightarrow> \<not> inuse s d \<Longrightarrow> pcHeap s' = pcHeap s \<Longrightarrow> 
       IFuseDesc s' d = zeroDesc\<lparr>fdInuseFlag := IRODS_INUSE, fdConn := Some a, fdIFd := fd, fdObjPath := Some obj, fdLocalPath := Some p\<rparr> \<Longrightarrow> Q d s'"
  shows "wpo (allocIFuseDesc s) (\<lambda>x. (fst x < 0 \<longrightarrow> Q' (snd x)) \<and>
     (\<not> fst x < 0 \<longrightarrow> wpo (fillIFuseDesc (fst x) (Some a) fd (Some obj) (Some p) (snd x)) (\<lambda>y. Q (fst x) (snd y))))"
proof -
  have inv: "fs_inv {a} s" "pool_live s" using assms(1) by (simp_all add: opst_def ifuse_ok_def)
  have ao: "opst {a} L E s2" "newFrame d s s2" 
    if d: "3 \<le> d" "d < 512" "\<not> inuse s d" "fs_inv {a} s2"
      and s2: "s2 = s\<lparr>locks := (locks s)(IFuseDescLock d := 0), IFuseDesc := (IFuseDesc s)(d := D), IFuseDescInuseCnt := n\<rparr>"
      and D: "fdInuseFlag D = 1" "fdConn D = Some a" for d s2 D n
  proof -
    have slot: "inuse s j" if "in_slot s j" for j using assms(1) that by (auto simp: opst_def nc_inv_def in_slot_def)
    have inu: "inuse s2 j \<longleftrightarrow> inuse s j \<or> j = d" for j using d D s2 by (auto simp: inuse_def)
    have ok: "ifuse_ok {a} s2" using d(4) inv(2) s2 by (simp add: ifuse_ok_def pool_live_def live_def)
    show "opst {a} L E s2"
      by (rule opst_cong [OF assms(1) ok]) (use assms(1) s2 inu slot D in \<open>auto simp: opst_def\<close>)
    have "in_slot s2 = in_slot s" using s2 by (simp add: in_slot_def fun_eq_iff)
    then show "newFrame d s s2" using d(3) inu slot s2 by (auto simp: newFrame_def)
  qed
  have held: "a \<in> set (ConnHead s) \<and> (\<exists>c. connHeap s a = Some c \<and> fcStatus c = 1)"
    using inv(1) fs_inv_held [OF inv(1), of a] by (auto simp: fs_inv_def conn_inv_def)
  show ?thesis
  proof (rule wpo_mono [OF allocIFuseDesc_ok [OF inv(1)]], clarify)
    fix d and s1 :: "('w, 'z) nstate_scheme"
    assume al: "if d < 0 then s1 = s \<and> d = SYS_OUT_OF_FILE_DESC \<and> (\<forall>i. 3 \<le> i \<and> i < MAX_IFUSE_DESC \<longrightarrow> inuse s i)
     else fs_inv {a} s1 \<and> 3 \<le> d \<and> d < MAX_IFUSE_DESC \<and> \<not> inuse s d \<and> inuse s1 d \<and>
       s1 = s\<lparr>locks := (locks s)(IFuseDescLock d := 0),
              IFuseDesc := (IFuseDesc s)(d := zeroDesc\<lparr>fdInuseFlag := IRODS_INUSE\<rparr>),
              IFuseDescInuseCnt := IFuseDescInuseCnt s + 1\<rparr>"
    show "(fst (d, s1) < 0 \<longrightarrow> Q' (snd (d, s1))) \<and>
      (\<not> fst (d, s1) < 0 \<longrightarrow> wpo (fillIFuseDesc (fst (d, s1)) (Some a) fd (Some obj) (Some p) (snd (d, s1))) (\<lambda>y. Q (fst (d, s1)) (snd y)))"
    proof (cases "d < 0")
      case True
      then show ?thesis using al assms(2) by simp
    next
      case False
      then have s1: "fs_inv {a} s1" "3 \<le> d" "d < 512" "\<not> inuse s d" "inuse s1 d"
        "s1 = s\<lparr>locks := (locks s)(IFuseDescLock d := 0), IFuseDesc := (IFuseDesc s)(d := zeroDesc\<lparr>fdInuseFlag := IRODS_INUSE\<rparr>),
              IFuseDescInuseCnt := IFuseDescInuseCnt s + 1\<rparr>" using al by auto
      have "wpo (fillIFuseDesc d (Some a) fd (Some obj) (Some p) s1) (\<lambda>(r, s'). fs_inv {a} s')"
        by (rule wpo_mono [OF fillIFuseDesc_ok [OF s1(1,5)]]) (use held s1(6) in auto)
      moreover let ?s2 = "s\<lparr>locks := (locks s)(IFuseDescLock d := 0), IFuseDesc := (IFuseDesc s)(d :=
          zeroDesc\<lparr>fdInuseFlag := IRODS_INUSE, fdConn := Some a, fdIFd := fd, fdObjPath := Some obj, fdLocalPath := Some p\<rparr>), IFuseDescInuseCnt := IFuseDescInuseCnt s + 1\<rparr>"
      have fill: "fillIFuseDesc d (Some a) fd (Some obj) (Some p) s1 = Some (0, ?s2)"
        using s1(2,3,6) by (simp add: fillIFuseDesc_def getDesc_def setDesc_def zeroDesc_def)
      ultimately have "fs_inv {a} ?s2" by simp
      from ao [OF s1(2-4) this refl] fill assms(3) [OF s1(2), of ?s2] s1(4) False show ?thesis by simp
    qed
  qed
qed

section \<open>Local copies\<close>

text \<open>Among the random names tried under a directory, one is free at some point.\<close>

fun nameFound :: "'w os \<Rightarrow> string \<Rightarrow> string \<Rightarrow> nat \<Rightarrow> 'w \<Rightarrow> bool" where
  "nameFound OS dir f 0 w = False"
| "nameFound OS dir f (Suc n) w = (case os_random OS w of (r, w1) \<Rightarrow>
     case os_stat OS (snprintf MAX_NAME_LEN (dir @ ''/'' @ f @ ''.'' @ showInt (toInt32 r))) w1 of ((status, _), w2) \<Rightarrow>
       status < 0 \<or> nameFound OS dir f n w2)"

text \<open>What the handlers rely on: such names, and an \<open>errno\<close> that is not negative.\<close>

definition os_ok :: "'w os \<Rightarrow> bool" where
  "os_ok OS \<longleftrightarrow> (\<forall>dir f w. \<exists>n. nameFound OS dir f n w) \<and> (\<forall>w. 0 \<le> fst (os_errno OS w))"

lemma fileCachePath_loop_wp:
  assumes "nameFound OS (FuseCacheDir s) f n (world s)" "\<And>p w. Q (p, s\<lparr>world := w\<rparr>)"
  shows "wpo (fileCachePath_loop OS f s) Q"
  using assms
proof (induction n arbitrary: s)
  case (Suc n)
  have again: "wpo (fileCachePath_loop OS f (s\<lparr>world := w\<rparr>)) Q" if "nameFound OS (FuseCacheDir s) f n w" for w
    by (rule Suc.IH) (use that Suc.prems(2) in auto)
  show ?case
    using Suc.prems again by (subst fileCachePath_loop.simps) (auto simp: sys_def Let_def split: prod.splits if_splits)
qed simp

lemma getFileCachePath_wp:
  assumes "os_ok OS" "\<And>p w. Q ((0, p), s\<lparr>world := w\<rparr>)"
  shows "wpo (getFileCachePath OS p s) Q"
proof -
  obtain n where "nameFound OS (FuseCacheDir s) (snd (snd (splitPathByKey p [] [] slash))) n (world s)"
    using assms(1) unfolding os_ok_def by blast
  then show ?thesis
    unfolding getFileCachePath_def by (auto simp: case_prod_beta intro!: fileCachePath_loop_wp assms(2))
qed

lemma mknodWithCache_wp:
  assumes "os_ok OS" "\<And>r p w. Q ((r, p), s\<lparr>world := w\<rparr>)"
  shows "wpo (irodsMknodWithCache OS p m s) Q"
  unfolding irodsMknodWithCache_def using assms by (auto simp: io_simps intro!: getFileCachePath_wp errno_wp)

lemma fetchCopy_wp:
  fixes s :: "('w, 'z) nstate_scheme"
  assumes "os_ok OS" "st {a} s0 s" "rodsPathOk (MyRodsEnv s0) p" "pcPath s n = Some q"
    and "\<And>r x s'. st {a} s0 s' \<Longrightarrow> (r \<ge> 0 \<longrightarrow> (\<exists>node. pcHeap s' n = Some node \<and> locCachePath node \<noteq> None)) \<Longrightarrow> Q ((r, x), s')"
  shows "wpo (fetchCopy OS API (Some a) p flags sb n s) Q"
proof -
  obtain nd where n: "pcHeap s n = Some nd" using assms(4) by (auto simp: pcPath_def)
  have set: "st {a} s0 (setNode n (Some (nd\<lparr>locCachePath := x, pcLocCacheState := y\<rparr>)) (s\<lparr>world := w\<rparr>))" for x y w
    by (rule setNode_wp) (use n assms(2) in auto)
  show ?thesis
    unfolding fetchCopy_def using assms(2,3) n set
    by (auto simp: io_simps setNode_def intro!: getFileCachePath_wp [OF assms(1)] parse_wp connField_wp assms(5))
qed

lemma openCopy_wp:
  fixes s :: "('w, 'z) nstate_scheme"
  assumes "os_ok OS" "opst {a} L E s" "\<And>r s'. r \<le> 0 \<Longrightarrow> opst {a} L E s' \<Longrightarrow> slotFrame s s' \<Longrightarrow> Q (r, s')"
    and "\<And>d s'. 3 \<le> d \<Longrightarrow> opst {a} L E s' \<Longrightarrow> newFrame d s s' \<Longrightarrow> Q (d, s')"
  shows "wpo (openCopy OS (Some a) p flags loc obj s) Q"
proof -
  have al: "wpo (allocIFuseDesc t) (\<lambda>x. (fst x < 0 \<longrightarrow> wpo (sys (os_close OS fd) (snd x)) (\<lambda>x. Q (- ENOENT, snd x))) \<and>
     (\<not> fst x < 0 \<longrightarrow> wpo (fillIFuseDesc (fst x) (Some a) fd (Some obj) (Some p) (snd x)) (\<lambda>y. wpo (getDesc (fst x) (snd y)) (\<lambda>c.
       Q (fst x, setDesc (fst x) (c\<lparr>fdLocCacheState := HAVE_READ_CACHE\<rparr>) (snd y))))))"
    if t: "t = s\<lparr>world := w\<rparr>" for t w fd
  proof (rule alloc_fill_wp [of a L E t, where Q' = "\<lambda>t. wpo (sys (os_close OS fd) t) (\<lambda>x. Q (- ENOENT, snd x))"
      and Q = "\<lambda>d u. wpo (getDesc d u) (\<lambda>c. Q (d, setDesc d (c\<lparr>fdLocCacheState := HAVE_READ_CACHE\<rparr>) u))"])
    show "opst {a} L E t" using assms(2) t by simp
    show "wpo (sys (os_close OS fd) t) (\<lambda>x. Q (- ENOENT, snd x))" using assms(2,3) t by (auto simp: sys_def split: prod.splits)
    fix d u assume d: "3 \<le> d" "opst {a} L E u" "newFrame d t u"
    have i: "inuse u d" using d(3) by (simp add: newFrame_def)
    have s: "st {a} u (setDesc d ((IFuseDesc u d)\<lparr>fdLocCacheState := HAVE_READ_CACHE\<rparr>) u)"
      by (rule st_cacheState [OF opst_self [OF d(2)] i])
    have "newFrame d s u" by (rule newFrame_slot [OF _ d(3)]) (simp add: t)
    then show "wpo (getDesc d u) (\<lambda>c. Q (d, setDesc d (c\<lparr>fdLocCacheState := HAVE_READ_CACHE\<rparr>) u))"
      using assms(4) [OF d(1) opst_st [OF d(2) s] newFrame_st [OF _ s]] i by simp
  qed
  have none: "Q (r, s\<lparr>world := w\<rparr>)" if "r \<le> 0" for r w using assms(2,3) that by simp
  obtain fd w where os: "os_open OS loc flags 0 (world s) = (fd, w)" by (metis surj_pair)
  show ?thesis
  proof (cases "fd < 0")
    case True
    have "wpo (errnoStatus OS (s\<lparr>world := w\<rparr>)) Q"
      using assms(1) by (auto simp: errnoStatus_def sys_def case_prod_beta os_ok_def intro!: none)
    then show ?thesis using True os by (simp add: openCopy_def sys_def)
  next
    case False
    then show ?thesis using al [OF refl, of w fd] os by (simp add: openCopy_def sys_def case_prod_beta wp_simps)
  qed
qed

lemma readCache_wp:
  fixes s :: "('w, 'z) nstate_scheme"
  assumes "server_ok API" "os_ok OS" "opst {a} L E s" "fusePath E p"
    and Q: "\<And>r s'. r \<le> 0 \<Longrightarrow> opst {a} L E s' \<Longrightarrow> slotFrame s s' \<Longrightarrow> Q (r, s')"
    and Q': "\<And>d s'. 3 \<le> d \<Longrightarrow> opst {a} L E s' \<Longrightarrow> newFrame d s s' \<Longrightarrow> Q (d, s')"
  shows "wpo (irodsOpenWithReadCache OS API (Some a) p flags s) Q"
proof -
  have s: "st {a} s s" "rodsPathOk (MyRodsEnv s) p" using opst_self [OF assms(3)] opst_env [OF assms(3)] assms(4) by auto
  have fail: "Q (r, t)" if "st {a} s t" "r \<le> 0" for r t using Q [OF that(2) opst_st [OF assms(3) that(1)] slotFrame_st [OF that(1)]] .
  have opn: "wpo (openCopy OS (Some a) p flags loc obj t) Q" if t: "st {a} s t" for loc obj t
  proof (rule openCopy_wp [OF assms(2) opst_st [OF assms(3) t]])
    fix r :: int and s' assume "r \<le> 0" "opst {a} L E s'" "slotFrame t s'"
    then show "Q (r, s')" using Q slotFrame_trans [OF slotFrame_st [OF t]] by blast
  next
    fix d s' assume "3 \<le> d" "opst {a} L E s'" "newFrame d t s'"
    then show "Q (d, s')" using Q' newFrame_slot [OF slotFrame_st [OF t]] by blast
  qed
  have copy: "wpo ((if locCachePath nd = None then fetchCopy OS API (Some a) p flags sb n t
        else sys (os_malloc OS (int MAX_NAME_LEN)) t \<bind> (\<lambda>(mem, s). Some ((0, mem), s))) \<bind> (\<lambda>((status, objPath), s).
          if status < 0 then Some (status, s) else pcHeap s n \<bind> (\<lambda>nd. locCachePath nd \<bind> (\<lambda>loc. openCopy OS (Some a) p flags loc objPath s)))) Q"
    if t: "st {a} s t" "pcHeap t n = Some nd" for t n nd sb
  proof (cases "locCachePath nd")
    case None
    have path: "pcPath t n = Some (filePath nd)" using t(2) by (simp add: pcPath_def)
    show ?thesis
      using None by (auto simp: io_simps intro!: fetchCopy_wp [OF assms(2) t(1) s(2) path] fail opn)
  next
    case (Some loc)
    then show ?thesis using t by (auto simp: io_simps sys_def intro!: opn)
  qed
  have node: "wpo (pcHeap t n \<bind> (\<lambda>nd.
        (if locCachePath nd = None then fetchCopy OS API (Some a) p flags sb n t
        else sys (os_malloc OS (int MAX_NAME_LEN)) t \<bind> (\<lambda>(mem, s). Some ((0, mem), s))) \<bind> (\<lambda>((status, objPath), s).
          if status < 0 then Some (status, s) else pcHeap s n \<bind> (\<lambda>nd. locCachePath nd \<bind> (\<lambda>loc. openCopy OS (Some a) p flags loc objPath s))))) Q"
    if t: "st {a} s t" "pcPath t n = Some p" for t n sb
  proof -
    obtain nd where nd: "pcHeap t n = Some nd" using t(2) by (auto simp: pcPath_def)
    show ?thesis using copy [OF t(1) nd] nd by simp
  qed
  show ?thesis
    unfolding irodsOpenWithReadCache_def using fail [OF s(1)]
    by (auto simp del: wpo_bind simp: wpo_bind [of "do_irodsGetattr u v w x y z" for u v w x y z] split: option.splits
        intro!: getattr_wp [OF assms(1) s] fail node)
qed

section \<open>Handles\<close>

text \<open>Every handle holds an open descriptor of its own, which is in no slot.\<close>

definition handles_ok :: "('w, 'z) lstate_scheme \<Rightarrow> bool" where
  "handles_ok s \<longleftrightarrow> (\<forall>fi d. fhCells s fi = Some d \<longrightarrow> inuse s d \<and> \<not> in_slot s d \<and> fi < fhFresh s) \<and>
     (\<forall>fi fj d. fhCells s fi = Some d \<longrightarrow> fhCells s fj = Some d \<longrightarrow> fi = fj)"

lemma handles_slotFrame: "handles_ok s \<Longrightarrow> slotFrame s s' \<Longrightarrow> handles_ok s'" for s s' :: "('w, 'z) lstate_scheme"
  unfolding handles_ok_def slotFrame_def using more_lz(1,2) [of s' s] by metis

lemma handles_addFrame:
  fixes s s' :: "('w, 'z) lstate_scheme"
  assumes "handles_ok s" "addFrame d s s'" "\<not> inuse s d"
  shows "handles_ok s'"
  using assms more_lz(1,2) [of s' s] unfolding handles_ok_def addFrame_def by metis

definition hinv :: "rodsEnv \<Rightarrow> ('w, 'z) lstate_scheme \<Rightarrow> bool" where
  "hinv E s \<longleftrightarrow> opst {} 0 E s \<and> plain s \<and> handles_ok s"

lemma hinv_slotFrame: "hinv E s \<Longrightarrow> opst {} 0 E s' \<Longrightarrow> slotFrame s s' \<Longrightarrow> hinv E s'" for s s' :: "('w, 'z) lstate_scheme"
  using handles_slotFrame [of s s'] more_lz(3) [of s' s] by (auto simp: hinv_def slotFrame_def)

lemma hinv_st: "hinv E s \<Longrightarrow> st {} s s' \<Longrightarrow> hinv E s'" for s s' :: "('w, 'z) lstate_scheme"
  using hinv_slotFrame [of E s s'] opst_st [of "{}" 0 E s "{}" s'] slotFrame_st [of "{}" s s'] by (auto simp: hinv_def)

text \<open>A new handle for a descriptor that none has.\<close>

lemma newHandle_wp:
  fixes s t :: "('w, 'z) lstate_scheme"
  assumes "handles_ok s" "plain s" "newFrame d s t" "opst H 0 E t"
    and "\<And>fi t'. plain t' \<Longrightarrow> handles_ok t' \<Longrightarrow> opst H 0 E t' \<Longrightarrow> fhCells t' fi = Some d \<Longrightarrow> Q (fi, t')"
  shows "wpo (newHandle d t) Q"
proof -
  let ?t = "t\<lparr>fhFresh := Suc (fhFresh t), fhCells := (fhCells t)(fhFresh t \<mapsto> d)\<rparr>"
  have m: "fhCells t = fhCells s" "fhFresh t = fhFresh s" "plain t" using more_lz [of t s] assms(2,3) by (auto simp: newFrame_def)
  have same: "inuse ?t = inuse t" "in_slot ?t = in_slot t" "NewlyCreatedFile ?t = NewlyCreatedFile t"
    by (simp_all add: inuse_def in_slot_def fun_eq_iff)
  have o1: "opst H 0 E ?t"
    using assms(4) by (auto simp: opst_def nc_inv_def same ifuse_ok_def fs_inv_def pool_live_def live_def pc_inv_def pc_sim_def pc_rep_def)
  have free: "fhCells s fi \<noteq> Some d" for fi using assms(1,3) by (auto simp: handles_ok_def newFrame_def)
  have "handles_ok ?t"
    unfolding handles_ok_def same
  proof (intro conjI allI impI)
    fix fi e assume e: "fhCells ?t fi = Some e"
    then show "inuse t e" "\<not> in_slot t e" "fi < fhFresh ?t"
      using assms(1,3) m free [of fi] unfolding handles_ok_def newFrame_def by (auto split: if_splits) (metis less_SucI)+
  next
    fix fi fj e assume "fhCells ?t fi = Some e" "fhCells ?t fj = Some e"
    then show "fi = fj" using assms(1) m free unfolding handles_ok_def by (auto split: if_splits)
  qed
  then have "Q (fhFresh t, ?t)" using m(3) o1 by (intro assms(5)) (auto simp: plain_def)
  then show ?thesis by (simp add: newHandle_def ALLOC_IFUSE_DESC_INDEX_def SET_IFUSE_DESC_INDEX_def)
qed

section \<open>Creating, opening, closing\<close>

text \<open>The connection does not break while an object is being opened.\<close>

definition open_steady :: "'w irods \<Rightarrow> bool" where
  "open_steady API \<longleftrightarrow> (\<forall>c i w. fst (rcDataObjOpen API c i w) < 0 \<longrightarrow> isReadMsgError (fst (rcDataObjOpen API c i w)) = 0)"

lemma createObject_wp:
  assumes "server_ok API" "st {a} s0 s" "rodsPathOk (MyRodsEnv s0) p" "\<And>r s'. st {a} s0 s' \<Longrightarrow> Q (r, s')"
  shows "wpo (createObject OS API (Some a) p m s) Q"
  unfolding createObject_def using assms(1-3) server_okD [OF assms(1)]
  by (auto simp: io_simps intro!: connField_wp create_wp reconnect_wp assms(4))

lemma markNewlyCreated_wp:
  fixes s :: "('w, 'z) nstate_scheme"
  assumes "st H s0 s" "inuse s i" "pcPath s n = Some p" "\<And>s'. st H s0 s' \<Longrightarrow> Q s'"
  shows "wpo (markNewlyCreated i n c m s) Q"
proof -
  obtain nd where n: "pcHeap s n = Some nd" using assms(3) by (auto simp: pcPath_def)
  let ?s = "setNode n (Some (nd\<lparr>locCachePath := Some c, pcLocCacheState := HAVE_NEWLY_CREATED_CACHE\<rparr>)) s"
  have 1: "st H s0 ?s" by (rule setNode_wp [OF assms(1) n]) auto
  have 2: "inuse ?s i" using assms(2) by (simp add: setNode_def inuse_def)
  show ?thesis using n 2 assms(4) [OF st_cacheState(2) [OF 1 2]] by (simp add: markNewlyCreated_def Let_def)
qed

lemma addFrame_slot: "slotFrame s t \<Longrightarrow> addFrame d t u \<Longrightarrow> \<not> inuse t d \<Longrightarrow> handles_ok s \<Longrightarrow> handles_ok u" for s t u :: "('w, 'z) lstate_scheme"
  using handles_addFrame handles_slotFrame by blast

lemma registerNew_wp:
  fixes s :: "('w, 'z) lstate_scheme"
  assumes "opst {a} 0 E s" "fusePath E p" "plain s" "handles_ok s" "\<And>b s'. hinv E s' \<Longrightarrow> Q (b, s')"
  shows "wpo (registerNew OS API (Some a) p m fd irodsPath cachePath s) Q"
proof -
  have p: "asciiPath p" using assms(2) by auto
  have fail: "Q (b, t)" if "st {} s t" for b t
    using assms(5) [of t b] opst_st [OF assms(1) that] handles_slotFrame [OF assms(4) slotFrame_st [OF that]] plain_st [OF that] assms(3)
    by (simp add: hinv_def)
  have add: "wpo (relIFuseConn OS (Some a) u) (\<lambda>x. wpo (addNewlyCreatedToCache OS API p d m (snd x)) (\<lambda>x.
       wpo (markNewlyCreated d (snd (fst x)) cachePath m (snd x)) (\<lambda>s. Q (True, s))))"
    if t: "st {a} s t" and u: "opst {a} 0 E u" "newFrame d t u" "\<not> inuse t d" for d t u
  proof -
    have slot: "\<not> in_slot u d" "inuse u d" using u(2) by (auto simp: newFrame_def)
    have one: "Q (True, v)" if v: "opst {} 0 E v" "addFrame d u' v" "st {} u u'" for u' v
    proof -
      have "addFrame d t v"
        using v(2) u(2) slotFrame_st [OF v(3)] in_slot_st [OF v(3)] st_inuse [OF v(3)] unfolding addFrame_def newFrame_def slotFrame_def
        by (metis (no_types, lifting))
      then have h: "handles_ok v" using addFrame_slot [OF slotFrame_st [OF t]] u(3) assms(4) by blast
      have "plain v" using \<open>addFrame d t v\<close> plain_st [OF t] assms(3) more_lz(3) [of v t] by (simp add: addFrame_def)
      then show ?thesis using assms(5) v(1) h by (simp add: hinv_def)
    qed
    have mark: "wpo (markNewlyCreated d n cachePath m v) (\<lambda>s. Q (True, s))"
      if v: "opst {} 0 E v" "inuse v d" "pcPath v n = Some p" "addFrame d u' v" "st {} u u'" for u' v n
    proof (rule markNewlyCreated_wp [OF opst_self [OF v(1)] v(2,3)])
      fix s' assume s': "st {} v s'"
      have "addFrame d u' s'"
        using v(4) in_slot_st [OF s'] st_inuse [OF s'] slotFrame_st [OF s'] by (auto simp: addFrame_def slotFrame_def)
      then show "Q (True, s')" using one [OF opst_st [OF v(1) s'] _ v(5)] by blast
    qed
    show ?thesis
    proof (rule relConn_wp [OF opst_self [OF u(1)]], simp)
      fix u' assume u': "st {} u u'"
      show "wpo (addNewlyCreatedToCache OS API p d m u') (\<lambda>x. wpo (markNewlyCreated d (snd (fst x)) cachePath m (snd x)) (\<lambda>s. Q (True, s)))"
        by (rule addNewlyCreated_wp [OF opst_st [OF u(1) u']])
          (use slot in_slot_st [OF u'] st_inuse [OF u'] assms(2) mark [OF _ _ _ _ u'] in auto)
    qed
  qed
  have al: "wpo (allocIFuseDesc t) (\<lambda>x. (fst x < 0 \<longrightarrow> wpo (connField (Some a) (snd x)) (\<lambda>c. wpo (closeIrodsFd API c fd (snd x)) (\<lambda>x.
         wpo (relIFuseConn OS (Some a) (snd x)) (\<lambda>x. Q (False, snd x))))) \<and>
     (\<not> fst x < 0 \<longrightarrow> wpo (fillIFuseDesc (fst x) (Some a) fd (Some irodsPath) (Some p) (snd x)) (\<lambda>y. wpo (relIFuseConn OS (Some a) (snd y)) (\<lambda>z.
        wpo (addNewlyCreatedToCache OS API p (fst x) m (snd z)) (\<lambda>z. wpo (markNewlyCreated (fst x) (snd (fst z)) cachePath m (snd z)) (\<lambda>s. Q (True, s)))))))"
    if t: "st {a} s t" for t
    by (rule alloc_fill_wp [OF opst_st [OF assms(1) t]]) 
      (use t add [OF t] in \<open>auto simp: closeIrodsFd_def io_simps intro!: connField_wp relConn_wp fail\<close>)
  show ?thesis
    unfolding registerNew_def using al
    by (auto simp: io_simps intro!: rm_wp [OF opst_self [OF assms(1)] p])
qed

lemma createFile_wp:
  fixes s :: "('w, 'z) lstate_scheme"
  assumes "server_ok API" "os_ok OS" "hinv E s" "fusePath E p" "\<And>r s'. hinv E s' \<Longrightarrow> Q (r, s')"
  shows "wpo (createFile OS API p m s) Q"
proof -
  have s: "opst {} 0 E s" "plain s" "handles_ok s" "st {} s s" "rodsPathOk (MyRodsEnv s) p"
    using assms(3,4) opst_self [of "{}" 0 E s] opst_env [of "{}" 0 E s] by (auto simp: hinv_def)
  have reg: "wpo (registerNew OS API (Some a) p m fd ip cp t) (\<lambda>x. (fst x \<longrightarrow> wpo (mknodHooks OS p (snd x)) (\<lambda>s. Q (0, s))) \<and>
       (\<not> fst x \<longrightarrow> Q (0, snd x)))"
    if t: "st {a} s t" for a fd ip cp t
  proof (rule registerNew_wp [OF opst_st [OF s(1) t] assms(4)])
    show "plain t" "handles_ok t" using s(2,3) plain_st [OF t] handles_slotFrame [OF _ slotFrame_st [OF t]] by auto
    fix b and s' :: "('w, 'z) lstate_scheme" assume h: "hinv E s'"
    then have "mknodHooks OS p s' = Some s'" using plain_hooks [of s'] by (simp add: hinv_def mknodHooks_def)
    then show "(fst (b, s') \<longrightarrow> wpo (mknodHooks OS p (snd (b, s'))) (\<lambda>s. Q (0, s))) \<and> (\<not> fst (b, s') \<longrightarrow> Q (0, snd (b, s')))" using assms(5) [OF h] by simp
  qed
  show ?thesis
    unfolding createFile_def using assms(1) server_okD [OF assms(1)] s(4,5) reg
    by (auto simp: io_simps
        intro!: mknodWithCache_wp [OF assms(2)] getConn_wp createObject_wp relConn_wp assms(5) hinv_st [OF assms(3)])
qed

lemma mknod_wp:
  fixes s :: "('w, 'z) lstate_scheme"
  assumes "server_ok API" "os_ok OS" "hinv E s" "fusePath E p"
  shows "wpo (irodsMknod OS API p m s) (\<lambda>(r, s'). hinv E s')"
proof -
  have s: "plain s" "st {} s s" "rodsPathOk (MyRodsEnv s) p"
    using assms(3,4) opst_self [of "{}" 0 E s] opst_env [of "{}" 0 E s] by (auto simp: hinv_def)
  show ?thesis
    unfolding irodsMknod_def using plain_hooks(1) [OF s(1)]
    by (auto simp: io_simps intro!: irodsGetattr_wp [OF assms(1) s(2,3)] createFile_wp [OF assms(1,2) _ assms(4)] hinv_st [OF assms(3)])
qed

lemma openHooks_plain: "plain s \<Longrightarrow> openHooks OS p flags b sb s = Some s"
  using plain_hooks [of s] by (simp add: openHooks_def)

lemma openObject_wp:
  fixes s t :: "('w, 'z) lstate_scheme"
  assumes "open_steady API" "plain s" "handles_ok s" "opst {a} 0 E t" "slotFrame s t" "fusePath E p" "\<And>r s'. hinv E s' \<Longrightarrow> Q (r, s')"
  shows "wpo (openObject OS API (Some a) p flags t) Q"
proof -
  have p: "asciiPath p" "rodsPathOk (MyRodsEnv t) p" "st {a} t t" using assms(6) opst_env [OF assms(4)] opst_self [OF assms(4)] by auto
  have fail: "Q (r, u)" if "st {} t u" for r u
    using assms(2,3,5,7) opst_st [OF assms(4) that] handles_slotFrame [of s u] slotFrame_trans [OF assms(5) slotFrame_st [OF that]] more_lz(3) [of u s]
    by (auto simp: hinv_def slotFrame_def)
  have opened: "wpo (relIFuseConn OS (Some a) v) (\<lambda>x. wpo (newHandle d (snd x)) (\<lambda>x. Q ((0, Some (fst x)), snd x)))"
    if u: "st {a} t u" and v: "opst {a} 0 E v" "newFrame d u v" for d u v
  proof (rule relConn_wp [OF opst_self [OF v(1)]], simp)
    fix v' assume v': "st {} v v'"
    have "newFrame d s v'" using newFrame_slot [OF assms(5) newFrame_slot [OF slotFrame_st [OF u] newFrame_st [OF v(2) v']]] .
    then show "wpo (newHandle d v') (\<lambda>x. Q ((0, Some (fst x)), snd x))"
      by (rule newHandle_wp [OF assms(3,2) _ opst_st [OF v(1) v']]) (auto simp: hinv_def intro!: assms(7))
  qed
  have al: "wpo (allocIFuseDesc u) (\<lambda>x. (fst x < 0 \<longrightarrow> wpo (relIFuseConn OS (Some a) (snd x)) (\<lambda>x. Q ((- ENOENT, None), snd x))) \<and>
     (\<not> fst x < 0 \<longrightarrow> wpo (fillIFuseDesc (fst x) (Some a) fd (Some obj) (Some p) (snd x)) (\<lambda>y. wpo (relIFuseConn OS (Some a) (snd y)) (\<lambda>z.
        wpo (newHandle (fst x) (snd z)) (\<lambda>x. Q ((0, Some (fst x)), snd x))))))" if u: "st {a} t u" for u fd obj
    by (rule alloc_fill_wp [OF opst_st [OF assms(4) u]]) (use u opened [OF u] in \<open>auto intro!: relConn_wp fail\<close>)
  have steady: "wpo (requestOnce (Some a) (\<lambda>conn. rcDataObjOpen API conn i) u) (\<lambda>x. st {a} t (snd x) \<and> (fst x < 0 \<longrightarrow> isReadMsgError (fst x) = 0))"
    if "st {a} t u" for i u
    unfolding requestOnce_def using that assms(1)
    by (auto simp: io_simps sys_def open_steady_def intro!: connField_wp)
  show ?thesis
    unfolding openObject_def using p al
    by (auto simp: io_simps retryRequest_def intro!: parse_wp wpo_mono [OF steady] relConn_wp rm_wp fail)
qed

lemma open_wp:
  fixes s :: "('w, 'z) lstate_scheme"
  assumes "server_ok API" "open_steady API" "os_ok OS" "hinv E s" "fusePath E p"
  shows "wpo (irodsOpen OS API p flags s) (\<lambda>x. hinv E (snd x))"
proof -
  have s: "plain s" "handles_ok s" "opst {} 0 E s" "st {} s s" "rodsPathOk (MyRodsEnv s) p" "p \<noteq> []"
    using assms(4,5) opst_self [of "{}" 0 E s] opst_env [of "{}" 0 E s] by (auto simp: hinv_def fusePath_def rodsPathOk_def)
  have guard: "openGuards p flags s = Some (False, s)" using plain_hooks [OF s(1)] by (simp add: openGuards_def)
  have hooks: "wpo (openHooks OS p flags b sb t) (\<lambda>t'. hinv E t')" if "hinv E t" for b sb t
    using that openHooks_plain [of t] by (simp add: hinv_def)
  have first: "wpo (newHandle d t) (\<lambda>x. wpo (openHooks OS p flags True sb (snd x)) (\<lambda>t'. hinv E t'))"
    if t: "opst {} 0 E t" "newFrame d s t" for d t sb
    by (rule newHandle_wp [OF s(2,1) t(2,1)]) (auto simp: hinv_def intro!: wpo_mono [OF hooks])
  have cached: "wpo (newHandle d t) (\<lambda>x. wpo (relIFuseConn OS (Some a) (snd x)) (\<lambda>x. wpo (openHooks OS p flags b sb (snd x)) (\<lambda>t'. hinv E t')))"
    if t: "opst {a} 0 E t" "newFrame d s t" for a d t b sb
  proof (rule newHandle_wp [OF s(2,1) t(2,1)], simp)
    fix t' :: "('w, 'z) lstate_scheme" assume t': "plain t'" "handles_ok t'" "opst {a} 0 E t'"
    have "hinv E u" if u: "st {} t' u" for u
      using t'(1) opst_st [OF t'(3) u] handles_slotFrame [OF t'(2) slotFrame_st [OF u]] plain_st [OF u] by (simp add: hinv_def)
    then show "wpo (relIFuseConn OS (Some a) t') (\<lambda>x. wpo (openHooks OS p flags b sb (snd x)) (\<lambda>t'. hinv E t'))"
      by (auto intro!: relConn_wp [OF opst_self [OF t'(3)]] wpo_mono [OF hooks])
  qed
  have last: "wpo (getIFuseConnByPath OS API p t) (\<lambda>x. wpo (irodsOpenWithReadCache OS API (snd (fst x)) p flags (snd x)) (\<lambda>y.
      (0 < fst y \<longrightarrow> wpo (newHandle (fst y) (snd y)) (\<lambda>z. wpo (relIFuseConn OS (snd (fst x)) (snd z)) (\<lambda>z. wpo (openHooks OS p flags (st_size sb > MAX_READ_CACHE_SIZE) sb (snd z)) (\<lambda>t'. hinv E t')))) \<and>
      (\<not> 0 < fst y \<longrightarrow> wpo (openObject OS API (snd (fst x)) p flags (snd y)) (\<lambda>x. hinv E (snd x)))))"
    if t: "opst {} 0 E t" "slotFrame s t" for t sb
  proof (rule getConnByPath_wp [OF server_okD [OF assms(1)] opst_self [OF t(1)]], simp)
    fix a t' assume t': "st {a} t t'"
    have o1: "opst {a} 0 E t'" "slotFrame s t'" using opst_st [OF t(1) t'] slotFrame_trans [OF t(2) slotFrame_st [OF t']] by auto
    show "wpo (irodsOpenWithReadCache OS API (Some a) p flags t') (\<lambda>y.
      (0 < fst y \<longrightarrow> wpo (newHandle (fst y) (snd y)) (\<lambda>z. wpo (relIFuseConn OS (Some a) (snd z)) (\<lambda>z. wpo (openHooks OS p flags (st_size sb > MAX_READ_CACHE_SIZE) sb (snd z)) (\<lambda>t'. hinv E t')))) \<and>
      (\<not> 0 < fst y \<longrightarrow> wpo (openObject OS API (Some a) p flags (snd y)) (\<lambda>x. hinv E (snd x))))"
      by (rule readCache_wp [OF assms(1,3) o1(1) assms(5)])
        (use cached newFrame_slot [OF o1(2)] slotFrame_trans [OF o1(2)] in \<open>auto intro!: openObject_wp [OF assms(2) s(1,2) _ _ assms(5)]\<close>)
  qed
  have take: "wpo (getDescInxInNewlyCreatedCache OS API p flags t) (\<lambda>x.
     (0 < fst x \<longrightarrow> wpo (newHandle (fst x) (snd x)) (\<lambda>x. wpo (openHooks OS p flags True sb (snd x)) (\<lambda>t'. hinv E t'))) \<and>
     (\<not> 0 < fst x \<longrightarrow> wpo (getIFuseConnByPath OS API p (snd x)) (\<lambda>x. wpo (irodsOpenWithReadCache OS API (snd (fst x)) p flags (snd x)) (\<lambda>y.
      (0 < fst y \<longrightarrow> wpo (newHandle (fst y) (snd y)) (\<lambda>z. wpo (relIFuseConn OS (snd (fst x)) (snd z)) (\<lambda>z. wpo (openHooks OS p flags (st_size sb > MAX_READ_CACHE_SIZE) sb (snd z)) (\<lambda>t'. hinv E t')))) \<and>
      (\<not> 0 < fst y \<longrightarrow> wpo (openObject OS API (snd (fst x)) p flags (snd y)) (\<lambda>x. hinv E (snd x)))))))"
    if t: "st {} s t" for t sb
  proof (rule getDescInx_wp [OF opst_st [OF s(3) t] s(6)], simp only: fst_conv snd_conv, intro conjI impI)
    fix i t' assume g: "opst {} 0 E t'" "0 \<le> i \<longrightarrow> inuse t' i \<and> \<not> in_slot t' i" "slotFrame t t'" "0 \<le> i \<longrightarrow> in_slot t i"
    have f: "slotFrame s t'" using slotFrame_trans [OF slotFrame_st [OF t] g(3)] .
    show "wpo (newHandle i t') (\<lambda>x. wpo (openHooks OS p flags True sb (snd x)) (\<lambda>t'. hinv E t'))" if "0 < i"
    proof (rule first [OF g(1)])
      show "newFrame i s t'" using f g(2,4) that in_slot_st [OF t] by (auto simp: newFrame_def slotFrame_def)
    qed
    show "wpo (getIFuseConnByPath OS API p t') (\<lambda>x. wpo (irodsOpenWithReadCache OS API (snd (fst x)) p flags (snd x)) (\<lambda>y.
      (0 < fst y \<longrightarrow> wpo (newHandle (fst y) (snd y)) (\<lambda>z. wpo (relIFuseConn OS (snd (fst x)) (snd z)) (\<lambda>z. wpo (openHooks OS p flags (st_size sb > MAX_READ_CACHE_SIZE) sb (snd z)) (\<lambda>t'. hinv E t')))) \<and>
      (\<not> 0 < fst y \<longrightarrow> wpo (openObject OS API (snd (fst x)) p flags (snd y)) (\<lambda>x. hinv E (snd x)))))"
      by (rule last [OF g(1) f])
  qed
  show ?thesis
    unfolding irodsOpen_def using guard take hinv_st [OF assms(4)]
    by (auto simp: io_simps intro!: irodsGetattr_wp [OF assms(1) s(4,5)])
qed

lemma release_wp:
  fixes s :: "('w, 'z) lstate_scheme"
  assumes "hinv E s" "fhCells s fi = Some d" "fusePath E p"
  shows "wpo (irodsRelease OS API p fi s) (\<lambda>(r, s'). hinv E s')"
proof -
  have s: "plain s" "handles_ok s" "opst {} 0 E s" "st {} s s" "rodsPathOk (MyRodsEnv s) p"
    using assms(1,3) opst_self [of "{}" 0 E s] opst_env [of "{}" 0 E s] by (auto simp: hinv_def)
  have d: "inuse s d" "\<not> in_slot s d" using s(2) assms(2) by (auto simp: handles_ok_def)
  obtain a where a: "fdConn (IFuseDesc s d) = Some a" using s(3) d(1) by (auto simp: opst_def)
  have free: "wpo (freeIFuseDesc OS d t) (\<lambda>x. wpo (FREE_IFUSE_DESC_INDEX fi (snd x)) (hinv E))" if t: "st {} s t" for t
  proof (rule free_open_wp [OF opst_st [OF s(3) t]], simp_all add: d st_inuse [OF t] in_slot_st [OF t])
    fix s' :: "('w, 'z) lstate_scheme"
    assume s': "opst {} 0 E s'" "nstate.more s' = nstate.more t" "in_slot s' = in_slot t" "\<forall>j. inuse s' j \<longleftrightarrow> inuse s j \<and> j \<noteq> d"
    have m: "fhCells s' = fhCells s" "fhFresh s' = fhFresh s" "plain s'"
      using more_lz [of s' s] s'(2) slotFrame_st [OF t] s(1) by (auto simp: slotFrame_def)
    let ?u = "s'\<lparr>fhCells := (fhCells s')(fi := None)\<rparr>"
    have same: "inuse ?u = inuse s'" "in_slot ?u = in_slot s'" by (simp_all add: inuse_def in_slot_def fun_eq_iff)
    have "opst {} 0 E ?u"
      using s'(1) by (auto simp: opst_def nc_inv_def same ifuse_ok_def fs_inv_def pool_live_def live_def pc_inv_def pc_sim_def pc_rep_def)
    moreover have "handles_ok ?u"
      using s(2) assms(2) s'(3,4) m in_slot_st [OF t] unfolding handles_ok_def same by (auto split: if_splits; metis)
    ultimately have "hinv E ?u" using m(3) by (simp add: hinv_def plain_def)
    then show "wpo (FREE_IFUSE_DESC_INDEX fi s') (hinv E)" using assms(2) m(1) by (simp add: FREE_IFUSE_DESC_INDEX_def)
  qed
  show ?thesis
    unfolding irodsRelease_def GET_IFUSE_DESC_INDEX_def using assms(1,2) plain_hooks [OF s(1)] free
    by (auto simp: io_simps intro!: ifuseClose_wp [OF s(4) d(1) a s(5)])
qed

section \<open>Listing a directory\<close>

text \<open>What the listing relies on: the names are of plain ASCII characters, every entry read leaves fewer
  to read, and the local calls between two reads do not add any.\<close>

definition readsDown :: "'w irods \<Rightarrow> ('w \<Rightarrow> nat) \<Rightarrow> bool" where
  "readsDown API left \<longleftrightarrow> (\<forall>c h w. fst (fst (rclReadCollection API c h w)) \<ge> 0 \<longrightarrow> left (snd (rclReadCollection API c h w)) < left w)"

definition localKeeps :: "'w os \<Rightarrow> ('w \<Rightarrow> nat) \<Rightarrow> bool" where
  "localKeeps OS left \<longleftrightarrow> (\<forall>w. left (snd (os_time OS w)) \<le> left w \<and> left (snd (os_random OS w)) \<le> left w \<and>
     left (snd (os_getuid OS w)) \<le> left w \<and> left (snd (os_getgid OS w)) \<le> left w) \<and>
   (\<forall>p w. left (snd (os_unlink OS p w)) \<le> left w)"

definition fillerKeeps :: "'w os \<Rightarrow> ('w \<Rightarrow> nat) \<Rightarrow> bool" where
  "fillerKeeps OS left \<longleftrightarrow> (\<forall>p w. left (snd (os_filler OS p w)) \<le> left w)"

definition asciiName :: "string \<Rightarrow> bool" where
  "asciiName p \<longleftrightarrow> (\<forall>c \<in> set p. of_char c < (128 :: nat))"

definition listing_ok :: "'w os \<Rightarrow> 'w irods \<Rightarrow> bool" where
  "listing_ok OS API \<longleftrightarrow> (\<exists>left. readsDown API left \<and> localKeeps OS left \<and> fillerKeeps OS left) \<and>
     (\<forall>c h w. let e = snd (fst (rclReadCollection API c h w)) in asciiName (ce_dataName e) \<and> asciiName (ce_collName e))"

lemma childOf_ascii: "asciiPath path \<Longrightarrow> asciiName name \<Longrightarrow> asciiPath (childOf path name)"
  by (auto simp: childOf_def asciiPath_def asciiName_def snprintf_def dest!: in_set_takeD)

lemma mySubDir_ascii: "asciiName p \<Longrightarrow> asciiName (snd (snd (splitPathByKey p [] [] k)))"
  by (auto simp: splitPathByKey_def asciiName_def Let_def rstrcpy_def split: option.splits if_splits dest!: in_set_dropD in_set_takeD)

text \<open>The cache calls the system for the time and to remove copies only.\<close>

lemma freePathCache_left:
  assumes "localKeeps OS left" "freePathCache OS x s = Some (r, s')"
  shows "left (world s') \<le> left (world s)"
  using assms by (auto simp: freePathCache_def freeFileCache_def localKeeps_def sys_def setNode_def
      split: option.splits bind_splits if_splits prod.splits) (metis snd_conv)+


lemma chkCacheExpire_loop_left:
  assumes "localKeeps OS left" "chkCacheExpire_loop OS arr k t x s = Some (r, s')"
  shows "left (world s') \<le> left (world s)"
proof -
  have "localKeeps OS left \<longrightarrow> left (world (snd (r, s'))) \<le> left (world s)"
    using assms(2)
  proof (rule chkCacheExpire_loop.raw_induct [where P = "\<lambda>OS _ _ _ _ s y. localKeeps OS left \<longrightarrow> left (world (snd y)) \<le> left (world s)", rotated], goal_cases)
    case (1 f OS arr k t x s y)
    show ?case
    proof
      assume l: "localKeeps OS left"
      have rec: "left (world (snd q)) \<le> left (world u)" if "f OS arr k t b u = Some q" for b u q using 1(1) [OF that] l by simp
      have fr: "left (world u) \<le> left (world s)" if "freePathCache OS z (setQue arr k q s) = Some (b, u)" for z q b u
        using freePathCache_left [OF l that] by (simp add: setQue_def)
      show "left (world (snd y)) \<le> left (world s)"
        using 1(2) by (auto split: option.splits bind_splits if_splits simp: Let_def setNode_def setQue_def [of _ _ "_\<lparr>qBottom := _\<rparr>"]
            dest!: fr rec)
    qed
  qed
  with assms(1) show ?thesis by simp
qed

lemma match_left:
  assumes "localKeeps OS left" "matchPathInPathCache OS p arr s = Some (r, s')"
  shows "left (world s') \<le> left (world s)"
proof -
  have t: "left (snd (os_time OS w)) \<le> left w" for w using assms(1) by (simp add: localKeeps_def)
  show ?thesis
    using assms(2) t [of "world s"]
    by (auto simp: matchPathInPathCache_def do_matchPathInPathCache_def chkCacheExpire_def sys_def mutex_lock_def mutex_unlock_def
        split: bind_splits if_splits prod.splits dest!: chkCacheExpire_loop_left [OF assms(1)])
qed

lemma add_left:
  assumes "localKeeps OS left" "addPathToCache OS p arr sb s = Some (r, s')"
  shows "left (world s') \<le> left (world s)"
proof -
  have t: "left (snd (os_time OS w)) \<le> left w" for w using assms(1) by (simp add: localKeeps_def)
  show ?thesis
    using assms(2) t [of "world s"]
    by (auto simp: addPathToCache_def do_addPathToCache_def addToCacheSlot_def sys_def mutex_lock_def mutex_unlock_def Let_def setQue_def setNode_def
        split: bind_splits if_splits prod.splits option.splits)
qed


lemma match_left_wp:
  assumes "localKeeps OS left" "st H s0 s" "asciiPath p"
    and "\<And>r out s'. st H s0 s' \<Longrightarrow> left (world s') \<le> left (world s) \<Longrightarrow> Q ((r, out), s')"
  shows "wpo (matchPathInPathCache OS p arr s) Q"
proof -
  obtain r out s' where m: "matchPathInPathCache OS p arr s = Some ((r, out), s')" "st H s0 s'"
    using match_wp [OF assms(2,3), of "\<lambda>((r, out), s'). st H s0 s'" OS arr] by (auto simp: wpo_def split: option.splits)
  then show ?thesis using assms(4) match_left [OF assms(1) m(1)] by simp
qed

lemma add_left_wp:
  assumes "localKeeps OS left" "st H s0 s" "asciiPath p" "\<And>x s'. st H s0 s' \<Longrightarrow> left (world s') \<le> left (world s) \<Longrightarrow> Q (x, s')"
  shows "wpo (addPathToCache OS p arr sb s) Q"
proof -
  obtain x s' where m: "addPathToCache OS p arr sb s = Some (x, s')" "st H s0 s'"
    using add_wp [OF assms(2,3), of "\<lambda>(x, s'). st H s0 s'" OS arr sb] by (auto simp: wpo_def split: option.splits)
  then show ?thesis using assms(4) add_left [OF assms(1) m(1)] by simp
qed

lemma cacheChild_wp:
  assumes "localKeeps OS left" "st H s0 s" "asciiPath child"
    and fill: "\<And>s. wpo (fill s) (\<lambda>(b, s'). \<exists>w. s' = s\<lparr>world := w\<rparr> \<and> left w \<le> left (world s))"
    and "\<And>s'. st H s0 s' \<Longrightarrow> left (world s') \<le> left (world s) \<Longrightarrow> Q s'"
  shows "wpo (cacheChild OS child fill s) Q"
  unfolding cacheChild_def using assms(2,3)
  by (auto simp: io_simps intro!: match_left_wp [OF assms(1)] wpo_mono [OF fill] add_left_wp [OF assms(1)] assms(5))

lemma fill_left:
  assumes "localKeeps OS left"
  shows "wpo (fillFileStat OS sb m sz ct mt at s) (\<lambda>(b, s'). \<exists>w. s' = s\<lparr>world := w\<rparr> \<and> left w \<le> left (world s))"
    "wpo (fillDirStat OS sb ct mt at s) (\<lambda>(b, s'). \<exists>w. s' = s\<lparr>world := w\<rparr> \<and> left w \<le> left (world s))"
proof -
  have t: "left (snd (os_random OS w)) \<le> left w" "left (snd (os_getuid OS w)) \<le> left w" "left (snd (os_getgid OS w)) \<le> left w" for w
    using assms by (auto simp: localKeeps_def)
  note chain = order_trans [OF t(3) order_trans [OF t(2) t(1)]]
  show "wpo (fillFileStat OS sb m sz ct mt at s) (\<lambda>(b, s'). \<exists>w. s' = s\<lparr>world := w\<rparr> \<and> left w \<le> left (world s))"
    "wpo (fillDirStat OS sb ct mt at s) (\<lambda>(b, s'). \<exists>w. s' = s\<lparr>world := w\<rparr> \<and> left w \<le> left (world s))"
    by (auto simp: fillFileStat_def fillDirStat_def op_simps sys_def case_prod_beta intro!: exI chain)
qed

lemma readdirEntry_wp:
  assumes "localKeeps OS left" "fillerKeeps OS left" "st H s0 s" "asciiPath path" "asciiName (ce_dataName e)" "asciiName (ce_collName e)"
    and "\<And>s'. st H s0 s' \<Longrightarrow> left (world s') \<le> left (world s) \<Longrightarrow> Q s'"
  shows "wpo (readdirEntry OS path e s) Q"
proof -
  have fl: "left (snd (os_filler OS p (world s))) \<le> left (world s)" for p using assms(2) by (simp add: fillerKeeps_def)
  have keep: "st H s0 (s\<lparr>world := w\<rparr>)" for w using assms(3) by (auto intro!: io_wp)
  have entry: "wpo (cacheChild OS child fill (s\<lparr>world := snd (os_filler OS name (world s))\<rparr>)) Q"
    if "asciiPath child" "\<And>s. wpo (fill s) (\<lambda>(b, s'). \<exists>w. s' = s\<lparr>world := w\<rparr> \<and> left w \<le> left (world s))" for name child fill
    using that fl [of name] keep by (auto intro!: cacheChild_wp [OF assms(1)] assms(7) intro: order_trans)
  show ?thesis
    using assms(3-7)
    by (auto simp: readdirEntry_def Let_def io_simps sys_def case_prod_beta split: rodsObjType.splits
        intro!: entry fill_left [OF assms(1)] childOf_ascii mySubDir_ascii)
qed

lemma readdir_loop_wp:
  assumes "readsDown API left" "localKeeps OS left" "fillerKeeps OS left" "asciiPath path"
    and ascii: "\<And>c h w r e w'. rclReadCollection API c h w = ((r, e), w') \<Longrightarrow> asciiName (ce_dataName e) \<and> asciiName (ce_collName e)"
    and "st {a} s0 s" "\<And>s'. st {a} s0 s' \<Longrightarrow> Q s'"
  shows "wpo (readdir_loop OS API (Some a) path h s) Q"
  using assms(6)
proof (induction "left (world s)" arbitrary: s rule: less_induct)
  case less
  have next_entry: "wpo (readdirEntry OS path e (s\<lparr>world := w\<rparr>)) (\<lambda>t. wpo (readdir_loop OS API (Some a) path h t) Q)"
    if r: "rclReadCollection API c h (world s) = ((r, e), w)" "r \<ge> 0" for c r e w
  proof (rule readdirEntry_wp [OF assms(2,3) _ assms(4)])
    show "st {a} s0 (s\<lparr>world := w\<rparr>)" using less(2) by (auto intro!: io_wp)
    show "asciiName (ce_dataName e)" "asciiName (ce_collName e)" using ascii [OF r(1)] by auto
    have "left w < left (world s)" using assms(1) r unfolding readsDown_def by (metis fst_conv snd_conv)
    then show "wpo (readdir_loop OS API (Some a) path h t) Q" if "st {a} s0 t" "left (world t) \<le> left (world (s\<lparr>world := w\<rparr>))" for t
      using less(1) that by simp
  qed
  have stop: "Q (s\<lparr>world := w\<rparr>)" for w using less(2) by (auto intro!: io_wp assms(7))
  show ?case
    by (subst readdir_loop.simps) (auto simp: io_simps sys_def case_prod_beta intro!: connField_wp [OF less(2)] next_entry stop prod_eqI)
qed

lemma readdir_wp:
  assumes "server_ok API" "listing_ok OS API" "st {} s s" "rodsPathOk (MyRodsEnv s) p"
  shows "wpo (irodsReaddir OS API p s) (\<lambda>(r, s'). st {} s s')"
proof -
  obtain left where l: "readsDown API left" "localKeeps OS left" "fillerKeeps OS left" using assms(2) by (auto simp: listing_ok_def)
  have ascii: "asciiName (ce_dataName e) \<and> asciiName (ce_collName e)" if "rclReadCollection API c h w = ((r, e), w')" for c h w r e w'
    using assms(2) that unfolding listing_ok_def Let_def by (metis fst_conv snd_conv)
  show ?thesis
    unfolding irodsReaddir_def openColl_def using assms(3,4) server_okD [OF assms(1)] rodsPathOk_ascii [OF assms(4)]
    by (auto simp: io_simps intro!: parse_wp getConn_wp connField_wp reconnect_wp relConn_wp readdir_loop_wp [OF l _ ascii])
qed

section \<open>Any sequence of calls\<close>

text \<open>The calls FUSE makes, and the rounds of the connection manager between them.\<close>

datatype fuseCall =
    Getattr string | Readlink string int | Readdir string | Mknod string "32 word" | Mkdir string "32 word"
  | Unlink string | Rmdir string | Symlink string string | Rename string string | Link string string
  | Chmod string "32 word" | Chown string int int | Truncate string int | Flush string nat | Utimens string int int
  | Open string int | Read string int int nat | Write string string int nat | Release string nat | Fsync string int nat
  | Manager int

fun runCall :: "'w os \<Rightarrow> 'w irods \<Rightarrow> fuseCall \<Rightarrow> ('w, 'z) lstate_scheme \<Rightarrow> (int \<times> ('w, 'z) lstate_scheme) option" where
  "runCall OS API (Getattr p) s = map_option (apfst fst) (irodsGetattr OS API p zero_stat s)"
| "runCall OS API (Readlink p n) s = irodsReadlink p n s"
| "runCall OS API (Readdir p) s = irodsReaddir OS API p s"
| "runCall OS API (Mknod p m) s = irodsMknod OS API p m s"
| "runCall OS API (Mkdir p m) s = irodsMkdir OS API p m s"
| "runCall OS API (Unlink p) s = irodsUnlink OS API p s"
| "runCall OS API (Rmdir p) s = irodsRmdir OS API p s"
| "runCall OS API (Symlink f t) s = irodsSymlink f t s"
| "runCall OS API (Rename f t) s = irodsRename OS API f t s"
| "runCall OS API (Link f t) s = irodsLink f t s"
| "runCall OS API (Chmod p m) s = irodsChmod OS API p m s"
| "runCall OS API (Chown p u g) s = irodsChown p u g s"
| "runCall OS API (Truncate p n) s = irodsTruncate OS API p n s"
| "runCall OS API (Flush p fi) s = irodsFlush OS API p fi s"
| "runCall OS API (Utimens p a m) s = irodsUtimens p a m s"
| "runCall OS API (Open p flags) s = map_option (apfst fst) (irodsOpen OS API p flags s)"
| "runCall OS API (Read p n off fi) s = map_option (apfst fst) (irodsRead OS API p n off fi s)"
| "runCall OS API (Write p buf off fi) s = irodsWrite OS API p buf off fi s"
| "runCall OS API (Release p fi) s = irodsRelease OS API p fi s"
| "runCall OS API (Fsync p d fi) s = irodsFsync OS API p d fi s"
| "runCall OS API (Manager n) s = connManager_round OS API n s"

text \<open>What FUSE promises of a call: absolute paths of ASCII characters that fit the buffers, handles that were
  opened and not released yet, and no renaming of a file to itself.\<close>

fun callOk :: "rodsEnv \<Rightarrow> (nat \<rightharpoonup> int) \<Rightarrow> fuseCall \<Rightarrow> bool" where
  "callOk E F (Getattr p) = fusePath E p"
| "callOk E F (Readdir p) = fusePath E p"
| "callOk E F (Mknod p m) = fusePath E p"
| "callOk E F (Mkdir p m) = fusePath E p"
| "callOk E F (Unlink p) = fusePath E p"
| "callOk E F (Rmdir p) = fusePath E p"
| "callOk E F (Rename f t) = (fusePath E f \<and> fusePath E t \<and> f \<noteq> t)"
| "callOk E F (Chmod p m) = fusePath E p"
| "callOk E F (Truncate p n) = fusePath E p"
| "callOk E F (Open p flags) = fusePath E p"
| "callOk E F (Read p n off fi) = (fi \<in> dom F)"
| "callOk E F (Write p buf off fi) = (fusePath E p \<and> fi \<in> dom F)"
| "callOk E F (Release p fi) = (fusePath E p \<and> fi \<in> dom F)"
| "callOk E F c = True"

inductive called :: "'w os \<Rightarrow> 'w irods \<Rightarrow> rodsEnv \<Rightarrow> ('w, 'z) lstate_scheme \<Rightarrow> ('w, 'z) lstate_scheme \<Rightarrow> bool"
  for OS API E s0 where
  start: "called OS API E s0 s0"
| call: "called OS API E s0 s \<Longrightarrow> callOk E (fhCells s) c \<Longrightarrow> runCall OS API c s = Some (r, s') \<Longrightarrow> called OS API E s0 s'"

text \<open>What the calls rely on of the server and the system.\<close>

definition env_ok :: "'w os \<Rightarrow> 'w irods \<Rightarrow> bool" where
  "env_ok OS API \<longleftrightarrow> server_ok API \<and> open_steady API \<and> os_ok OS \<and> listing_ok OS API"

lemma manager_wp:
  assumes "st {} s s"
  shows "wpo (connManager_round OS API n s) (\<lambda>(n', s'). st {} s s')"
proof -
  have "fs_inv {} s" "pool_live s" using assms by (simp_all add: st_def ifuse_ok_def)
  then show ?thesis
    by (intro wpo_mono [OF connManager_round_ok [OF \<open>fs_inv {} s\<close>]])
      (fastforce simp: st_def ifuse_ok_def managed_def io_keeps_def pool_live_def live_def)
qed

lemma hinv_callD:
  fixes s :: "('w, 'z) lstate_scheme"
  assumes "hinv E s"
  shows "plain s" "opst {} 0 E s" "st {} s s" "fusePath E p \<Longrightarrow> rodsPathOk (MyRodsEnv s) p" "fusePath E p \<Longrightarrow> rodsPathOk E p"
  using assms opst_self [of "{}" 0 E s] opst_env [of "{}" 0 E s] by (auto simp: hinv_def)

lemma runCall_wp:
  fixes s :: "('w, 'z) lstate_scheme"
  assumes env: "env_ok OS API" and inv: "hinv E s" and ok: "callOk E (fhCells s) c"
  shows "wpo (runCall OS API c s) (\<lambda>(r, s'). hinv E s')"
proof -
  have e: "server_ok API" "open_steady API" "os_ok OS" "listing_ok OS API" using env by (simp_all add: env_ok_def)
  note s = hinv_callD [OF inv] and keep = hinv_st [OF inv]
  have quiet: "wpo m (\<lambda>(r, s'). st {} s s') \<Longrightarrow> wpo m (\<lambda>(r, s'). hinv E s')" for m :: "('a \<times> ('w, 'z) lstate_scheme) option"
    by (erule wpo_mono) (auto intro: keep)
  have sync: "syncHook OS API p fi s = Some s" for p fi using plain_hooks(2) [OF s(1)] by (simp add: syncHook_def)
  show ?thesis
  proof (cases c)
    case (Rename f t)
    then show ?thesis using ok s(1,2) e(1)
      by (auto intro!: wpo_mono [OF rename_wp] intro: hinv_slotFrame [OF inv])
  next
    case (Mknod p m)
    then show ?thesis using ok mknod_wp [OF e(1,3) inv] by simp
  next
    case (Open p flags)
    then show ?thesis using ok by (auto simp: apfst_def intro!: wpo_mono [OF open_wp [OF e(1-3) inv]])
  next
    case (Release p fi)
    then show ?thesis using ok by (auto intro!: release_wp [OF inv])
  qed (use ok s e inv in \<open>auto simp: irodsReadlink_def irodsSymlink_def irodsLink_def irodsChown_def irodsUtimens_def
      irodsFlush_def irodsFsync_def sync wpo_map_option apfst_def
      intro!: quiet mkdir_wp unlink_wp rmdir_wp chmod_wp truncate_wp irodsWrite_wp readdir_wp manager_wp
        wpo_mono [OF irodsRead_wp] irodsGetattr_wp keep\<close>)
qed


lemma called_inv:
  assumes "called OS API E s0 s" "env_ok OS API" "hinv E s0"
  shows "hinv E s"
  using assms(1)
proof (induction rule: called.induct)
  case start
  then show ?case by (rule assms(3))
next
  case (call s c r s')
  then show ?case using wpo_post [OF runCall_wp [OF assms(2) call.IH call.hyps(2)] call.hyps(3)] by simp
qed

text \<open>A client with no open file and one connection.\<close>

definition fuse_start :: "int lstate" where
  "fuse_start = pstate.extend (nstate.extend (ns_start (\<lambda>_. zeroDesc) 0 (\<lambda>_. zeroNC) 0)
     (pstate.fields (cacheAt []\<lparr>pcPreload := 0\<rparr>) envU fl_newList fl_newList emptyTable emptyTable Map.empty Map.empty 0 []))
     (lstate.fields \<lparr>luLazyUpload = 0, luBufferPath = []\<rparr> envU fl_newList fl_newList emptyTable emptyTable Map.empty 0 Map.empty 0)"

lemma fuse_start_sel [simp]:
  "nstate.truncate fuse_start = ns_start (\<lambda>_. zeroDesc) 0 (\<lambda>_. zeroNC) 0" "fhCells fuse_start = Map.empty" "plain fuse_start"
  by (simp_all add: fuse_start_def plain_def pstate.extend_def nstate.extend_def pstate.fields_def lstate.fields_def ns_start_def nstate.truncate_def)

lemma fuse_start_ok: "hinv envU fuse_start"
proof -
  have "opst {} 0 envU (ns_start (\<lambda>_. zeroDesc) 0 (\<lambda>_. zeroNC) (0 :: int))"
    by (rule ns_start_ok) (auto simp: desc_inv_def zeroDesc_def nc_inv_def ns_start_def zeroNC_def)
  then have "opst {} 0 envU fuse_start"
    by (auto simp: opst_def nc_inv_def inuse_def in_slot_def ifuse_ok_def fs_inv_def pool_live_def live_def pc_inv_def pc_sim_def pc_rep_def
        fuse_start_def pstate.extend_def nstate.extend_def pstate.fields_def lstate.fields_def ns_start_def)
  then show ?thesis by (simp add: hinv_def handles_ok_def)
qed

text \<open>A system in which no file exists locally.\<close>

definition emptyOS :: "int os" where
  "emptyOS = clockOS\<lparr>os_stat := \<lambda>_ w. ((-1, zero_stat), w)\<rparr>"

lemma empty_env_ok: "env_ok emptyOS upAPI"
proof -
  have "nameFound emptyOS dir f (Suc 0) w" for dir f w by (simp add: emptyOS_def clockOS_def)
  then have "os_ok emptyOS" by (auto simp: os_ok_def simp del: nameFound.simps intro!: exI) (simp add: emptyOS_def clockOS_def)
  then show ?thesis
    by (auto simp: env_ok_def server_ok_def open_steady_def listing_ok_def readsDown_def localKeeps_def fillerKeeps_def asciiName_def
        emptyOS_def clockOS_def upAPI_def server_up_def intro!: exI [of _ "\<lambda>_. 0"])
qed



end
