(* ===== verification/Fuse_Effects.thy ===== *)
theory Fuse_Effects
  imports Fuse_Handlers
begin

text \<open>
  What single handlers do: a directory is visible after it was made, unless the request had to be repeated;
  a file opened by a repeated request is left on a connection marked free; a listing shows the entries of the
  collection.
\<close>

section \<open>Attributes after a directory was made\<close>

text \<open>The pool does not touch the path caches: \<open>cst\<close> also says what their queues are.\<close>

definition cst :: "nat set \<Rightarrow> (pathArray \<Rightarrow> nat \<Rightarrow> pathCache list) \<Rightarrow> ('w, 'z) fstate_scheme \<Rightarrow> ('w, 'z) fstate_scheme \<Rightarrow> bool" where
  "cst H Q s0 s \<longleftrightarrow> st H s0 s \<and> pc_sim Q s"

lemma pc_sim_conn: "conn_frame s s' \<Longrightarrow> pc_sim Q s' = pc_sim Q s"
  using conn_frame_sel(3-5) [of s s'] by (simp add: pc_sim_def pc_rep_def)

lemma pc_sim_world [simp]: "pc_sim Q (s\<lparr>world := w\<rparr>) = pc_sim Q s"
  by (simp add: pc_sim_def pc_rep_def)

lemma cst_world [simp]: "cst H Q s0 (s\<lparr>world := w\<rparr>) = cst H Q s0 s"
  by (simp add: cst_def)

lemma cst_st: "cst H Q s0 s \<Longrightarrow> st H s0 s"
  by (simp add: cst_def)

lemma getConn_cst:
  assumes "server_up API" "cst {} Q s0 s" "\<And>a s'. cst {a} Q s0 s' \<Longrightarrow> R ((0, Some a), s')"
  shows "wpo (getIFuseConn OS API s) R"
proof -
  have ok: "fs_inv {} s" "pool_live s" using assms(2) by (simp_all add: cst_def st_def ifuse_ok_def)
  have "wpo (getIFuseConn OS API s) (\<lambda>x. get_post API s x \<and> (\<exists>a s'. x = ((0, Some a), s') \<and> st {a} s0 s'))"
    by (rule wpo_conj [OF getIFuseConn_ok [OF ok(1) fs_inv_avail [OF ok] server_up_login [OF assms(1)]] getConn_wp [OF assms(1) cst_st [OF assms(2)]]]) auto
  then show ?thesis by (rule wpo_mono) (use assms(2,3) in \<open>auto simp: get_post_def cst_def pc_sim_conn\<close>)
qed

lemma relConn_cst:
  assumes "cst {a} Q s0 s" "\<And>s'. cst {} Q s0 s' \<Longrightarrow> R (0, s')"
  shows "wpo (relIFuseConn OS (Some a) s) R"
proof -
  have ok: "fs_inv {a} s" using assms(1) by (simp add: cst_def st_def ifuse_ok_def)
  obtain c where c: "connHeap s a = Some c" using fs_inv_held [OF ok] by auto
  have "wpo (relIFuseConn OS (Some a) s) (\<lambda>x. (case x of (r, s') \<Rightarrow> conn_frame s s') \<and> (\<exists>s'. x = (0, s') \<and> st {} s0 s'))"
    by (rule wpo_conj [OF wpo_mono [OF relIFuseConn_ok [OF ok c]] relConn_wp [OF cst_st [OF assms(1)]]]) auto
  then show ?thesis by (rule wpo_mono) (use assms in \<open>auto simp: cst_def pc_sim_conn\<close>)
qed

text \<open>A new connection has the handle the server gave.\<close>

lemma reconnect_cst:
  assumes "server_up API" "cst {a} Q s0 s" "\<And>w. fst (fst (rcConnect API w)) = Some h"
    and "\<And>r c s'. cst {a} Q s0 s' \<Longrightarrow> connHeap s' a = Some c \<Longrightarrow> fcConn c = Some h \<Longrightarrow> R (r, s')"
  shows "wpo (ifuseReconnect API (Some a) s) R"
proof -
  have ok: "ifuse_ok {a} s" "fs_inv {a} s" using assms(2) by (simp_all add: cst_def st_def ifuse_ok_def)
  obtain c where c: "connHeap s a = Some c" "fcConn c \<noteq> None"
    using ifuse_ok_live [OF ok(1)] by (auto simp: live_def)
  have new: "wpo (ifuseReconnect API (Some a) s) (\<lambda>(r, s'). \<exists>c. connHeap s' a = Some c \<and> fcConn c = Some h)"
  proof -
    obtain h0 where "fcConn c = Some h0" using c(2) by auto
    moreover have "fst (clientLogin API h w) = 0" for w using assms(1) by (simp add: server_up_def)
    ultimately show ?thesis using c(1) by (simp add: ifuseReconnect_def ifuseConnect_def sys_def setConn_def case_prod_beta assms(3))
  qed
  have "wpo (ifuseReconnect API (Some a) s) (\<lambda>x. (case x of (r, s') \<Rightarrow> conn_frame s s') \<and> (case x of (r, s') \<Rightarrow> st {a} s0 s') \<and>
      (case x of (r, s') \<Rightarrow> \<exists>c. connHeap s' a = Some c \<and> fcConn c = Some h))"
    by (intro wpo_conj wpo_mono [OF ifuseReconnect_ok [OF ok(2) c(1)]] reconnect_wp [OF assms(1) cst_st [OF assms(2)]] new) auto
  then show ?thesis by (rule wpo_mono) (use assms(2,4) in \<open>auto simp: cst_def pc_sim_conn\<close>)
qed

text \<open>No entry of the queues expires while the handlers run.\<close>

definition unexpired :: "'w os \<Rightarrow> (pathArray \<Rightarrow> nat \<Rightarrow> pathCache list) \<Rightarrow> nat \<Rightarrow> bool" where
  "unexpired OS Q k \<longleftrightarrow> (\<forall>w arr. \<forall>e \<in> set (Q arr k). \<not> expired (word_of_int (fst (os_time OS w))) e)"

lemma match_cst:
  assumes "cst H Q s0 s" "queSlot p = Some k" "unexpired OS Q k"
    and "findPath p (Q arr k) = None \<Longrightarrow> (\<And>s'. cst H Q s0 s' \<Longrightarrow> R ((0, None), s'))"
    and "\<And>e a n s'. findPath p (Q arr k) = Some e \<Longrightarrow> cst H Q s0 s' \<Longrightarrow> pcHeap s' a = Some n \<Longrightarrow> ent n = e \<Longrightarrow> R ((1, Some a), s')"
  shows "wpo (matchPathInPathCache OS p arr s) R"
proof -
  obtain t w where t: "os_time OS (world s) = (t, w)" by fastforce
  have l: "locks s PathCacheLock = 0" using assms(1) by (simp add: cst_def st_def ifuse_ok_def fs_inv_def)
  have none: "\<forall>e \<in> set (Q arr k). \<not> expired (word_of_int t) e" using assms(3) t unfolding unexpired_def by (metis fst_conv)
  have q: "dropWhile (expired (word_of_int t)) (Q arr k) = Q arr k"
    using none by (cases "Q arr k") auto
  have "pc_sim Q s" using assms(1) by (simp add: cst_def)
  note m = matchPathInPathCache_sim [OF this assms(2) t l, of arr, unfolded q]
  show ?thesis
  proof (rule wpo_mono [OF m], clarify)
    fix r :: int and out s' assume s': "pc_frame s s'" "pc_sim (updA Q arr k (Q arr k)) s'"
      and f: "case findPath p (Q arr k) of None \<Rightarrow> r = 0 \<and> out = None | Some e \<Rightarrow> r = 1 \<and> (\<exists>a n. out = Some a \<and> pcHeap s' a = Some n \<and> ent n = e)"
    have "cst H Q s0 s'" using st_pc [OF cst_st [OF assms(1)] s'(1) pc_ok_frame [OF s'(2,1) l]] s'(2) by (simp add: cst_def)
    with f show "R ((r, out), s')" using assms(4,5) by (auto split: option.splits)
  qed
qed


lemma getattr_negative:
  assumes "server_up API" "cst {} Q s0 s" "queSlot p = Some k" "unexpired OS Q k" "findPath p (Q NonExistPathArray k) = Some e"
  shows "wpo (irodsGetattr OS API p sb s) (\<lambda>((r, _), s'). r = - ENOENT)"
  unfolding irodsGetattr_def do_irodsGetattr_def
  by (auto simp: io_simps assms(5) intro!: getConn_cst [OF assms(1,2)] match_cst [OF _ assms(3,4)] relConn_cst)

text \<open>C4. A directory made at the second attempt stays invisible: when the connection of the first request
  is broken and the request repeated on a new one succeeds, \<open>irodsMkdir\<close> returns 0 but does not drop the entry
  that says the path does not exist, so \<open>irodsGetattr\<close> answers \<open>ENOENT\<close> without asking the server until the
  entry expires.\<close>

theorem mkdir_retry_stays_invisible:
  assumes "server_up API" "ifuse_ok {} s" "pc_sim Q s" "queSlot p = Some k" "unexpired OS Q k"
    and "findPath p (Q NonExistPathArray k) = Some e"
    and "parseFusePath OS p [] s = Some ((0, coll), s1)" "getIFuseConn OS API s1 = Some ((0, Some a), s2)" "connHeap s2 a = Some c"
    and "\<And>w. fst (rcCollCreate API (fcConn c) coll w) < 0 \<and> isReadMsgError (fst (rcCollCreate API (fcConn c) coll w)) \<noteq> 0"
    and "\<And>w. fst (fst (rcConnect API w)) = Some h" "\<And>w. 0 \<le> fst (rcCollCreate API (Some h) coll w)"
  shows "wpo (irodsMkdir OS API p m s \<bind> (\<lambda>(r, s). irodsGetattr OS API p sb s \<bind> (\<lambda>((r', _), s). Some (r, r'))))
           (\<lambda>(r, r'). r = 0 \<and> r' = - ENOENT)"
proof -
  have s1: "cst {} Q s s1" using assms(2,3,7) by (auto simp: cst_def st_def parseFusePath_def sys_def split: list.splits bind_splits prod.splits)
  have s2: "cst {a} Q s s2" using getConn_cst [OF assms(1) s1, of "\<lambda>((r, x), s'). \<forall>a. x = Some a \<longrightarrow> cst {a} Q s s'" OS] assms(8) by simp
  let ?w = "rcCollCreate API (fcConn c) coll (world s2)"
  have first: "requestOnce (Some a) (\<lambda>conn. rcCollCreate API conn coll) s2 = Some (fst ?w, s2\<lparr>world := snd ?w\<rparr>)"
    using assms(9) by (simp add: requestOnce_def connField_def sys_def case_prod_beta)
  have again: "wpo (requestOnce (Some a) (\<lambda>conn. rcCollCreate API conn coll) t) R"
    if "connHeap t a = Some d" "fcConn d = Some h" "\<And>r w. 0 \<le> r \<Longrightarrow> R (r, t\<lparr>world := w\<rparr>)" for R t d
    using that assms(12) by (simp add: requestOnce_def connField_def sys_def case_prod_beta)
  have "cst {a} Q s (s2\<lparr>world := w\<rparr>)" for w using s2 by simp
  then have "wpo (irodsMkdir OS API p m s) (\<lambda>(r, s'). r = 0 \<and> cst {} Q s s')"
    unfolding irodsMkdir_def retryRequest_def using assms(7,8,10) first
    by (auto simp: io_simps intro!: reconnect_cst [OF assms(1) _ assms(11)] again relConn_cst)
  then show ?thesis
    by (auto elim!: wpo_mono intro!: wpo_mono [OF getattr_negative [OF assms(1) _ assms(4,5,6)]])
qed


text \<open>A client with one free connection, whose handle 7 is broken; new connections get handle 8. The
  path \<open>/a\<close> was asked for at time 0 and did not exist.\<close>

definition pool7 :: "int fstate" where
  "pool7 = (fs_start 0)\<lparr>connHeap := [0 \<mapsto> zeroConn\<lparr>fcConn := Some 7\<rparr>], connFresh := 1, ConnHead := [0]\<rparr>"

lemma pool7_ok: "ifuse_ok {} pool7"
proof -
  have "fs_inv {} (fs_start (0 :: int))" by simp
  then have "pc_inv pool7" by (simp add: fs_inv_def pool7_def)
  then show ?thesis
    by (simp add: ifuse_ok_def fs_inv_def pool_live_def live_def conn_inv_def desc_inv_def pool7_def fs_start_def zeroDesc_def zeroConn_def)
qed

lemma slot_a: "queSlot ''/a'' = Some 144"
  by (simp add: queSlot_def pathSum_def getHashSlot_def schar_def)

definition asked_a :: "int fstate" where
  "asked_a = snd (the (addPathToCache clockOS ''/a'' NonExistPathArray (Some zero_stat) pool7))"

abbreviation entry_a :: pathCache where
  "entry_a \<equiv> newEntry ''/a'' (NonExistPathArray, 144) (Some zero_stat) 0"

abbreviation (input) queues_a :: "pathArray \<Rightarrow> nat \<Rightarrow> pathCache list" where
  "queues_a \<equiv> updA (\<lambda>_ _. []) NonExistPathArray 144 [entry_a]"

lemma asked_a_ok: "ifuse_ok {} asked_a" "pc_sim queues_a asked_a" "asked_a = pool7\<lparr>pcHeap := pcHeap asked_a, pcFresh := pcFresh asked_a, pcQue := pcQue asked_a\<rparr>"
proof -
  have s: "pc_sim (\<lambda>_ _. []) pool7" using pc_sim_init [of pool7] by (simp add: initPathCache_arrays_def pool7_def fs_start_def)
  have t: "os_time clockOS (world pool7) = (0, 0)" "locks pool7 PathCacheLock = 0" by (simp_all add: clockOS_def pool7_def fs_start_def)
  obtain x where x: "addPathToCache clockOS ''/a'' NonExistPathArray (Some zero_stat) pool7 = Some (x, asked_a)"
      and a: "pc_frame pool7 asked_a" "world asked_a = 0" "pc_sim queues_a asked_a"
    using addPathToCache_sim [OF s slot_a t, of NonExistPathArray "Some zero_stat"]
    by (auto simp: wpo_def asked_a_def split: option.splits)
  show "pc_sim queues_a asked_a" by (rule a(3))
  show "ifuse_ok {} asked_a" by (rule ifuse_ok_pc [OF pool7_ok a(1)]) (use pc_ok_frame [OF a(3,1) t(2)] in simp)
  have "world pool7 = 0" by (simp add: pool7_def fs_start_def)
  then show "asked_a = pool7\<lparr>pcHeap := pcHeap asked_a, pcFresh := pcFresh asked_a, pcQue := pcQue asked_a\<rparr>"
    using pc_frame_eq [OF a(1)] a(2) by (metis (no_types, lifting) fstate.surjective base.update_convs(1))
qed

definition halfAPI :: "int irods" where
  "halfAPI = upAPI\<lparr>rcConnect := \<lambda>w. ((Some 8, 0), w), rcCollCreate := \<lambda>c _ w. (if c = Some 7 then SYS_HEADER_READ_LEN_ERR else 0, w)\<rparr>"

definition frozenOS :: "int os" where
  "frozenOS = clockOS\<lparr>os_time := \<lambda>w. (0, w)\<rparr>"

lemma asked_a_fresh: "unexpired frozenOS queues_a 144"
  by (auto simp: unexpired_def frozenOS_def newEntry_def expired_def split: if_splits)

theorem mkdir_retry_stays_invisible_witness:
  "wpo (irodsMkdir frozenOS halfAPI ''/a'' 0x1F8 asked_a \<bind>
     (\<lambda>(r, s). irodsGetattr frozenOS halfAPI ''/a'' zero_stat s \<bind> (\<lambda>((r', _), s). Some (r, r'))))
     (\<lambda>(r, r'). r = 0 \<and> r' = - ENOENT)"
proof -
  have p: "parseFusePath frozenOS ''/a'' [] asked_a = Some ((0, ''/z/home/u/a''), asked_a)"
    using parseRodsPathStr_resolves [of envU "''a''" "[''z'', ''home'', ''u'', ''a'']" "[''z'', ''home'', ''u'', ''a'']" zero_rodsPath "[]"]
    by (subst asked_a_ok(3), subst (2) asked_a_ok(3)) (simp add: parseFusePath_def sys_def frozenOS_def clockOS_def pool7_def fs_start_def pathLenStatus_def)
  have g: "\<exists>s2. getIFuseConn frozenOS halfAPI asked_a = Some ((0, Some 0), s2) \<and> connHeap s2 0 = Some (zeroConn\<lparr>fcConn := Some 7, fcStatus := 1, fcInuseCnt := 1\<rparr>)"
    by (subst asked_a_ok(3)) (simp add: getIFuseConn_def useFreeIFuseConn_def do_useIFuseConn_def mutex_lock_def mutex_unlock_def
        sys_def setConn_def frozenOS_def clockOS_def pool7_def fs_start_def zeroConn_def)
  then obtain s2 where g: "getIFuseConn frozenOS halfAPI asked_a = Some ((0, Some 0), s2)" "connHeap s2 0 = Some (zeroConn\<lparr>fcConn := Some 7, fcStatus := 1, fcInuseCnt := 1\<rparr>)" by blast
  show ?thesis
  proof (rule mkdir_retry_stays_invisible [OF _ asked_a_ok(1,2) slot_a _ _ p g, where h = 8 and e = entry_a])
    show "unexpired frozenOS queues_a 144" by (rule asked_a_fresh)
    show "findPath ''/a'' (queues_a NonExistPathArray 144) = Some entry_a" by (simp add: findPath_def newEntry_def)
  qed (simp_all add: server_up_def halfAPI_def upAPI_def isReadMsgError_def getIrodsErrno_def)
qed

lemma cst_pcI:
  assumes "cst H Q s0 s" "pc_frame s s'" "pc_sim Q' s'"
  shows "cst H Q' s0 s'"
proof -
  have "locks s PathCacheLock = 0" using assms(1) by (simp add: cst_def st_def ifuse_ok_def fs_inv_def)
  then show ?thesis using st_pc [OF cst_st [OF assms(1)] assms(2) pc_ok_frame [OF assms(3,2)]] assms(3) by (simp add: cst_def)
qed

lemma cst_lock: "cst H Q s0 s \<Longrightarrow> locks s PathCacheLock = 0" "cst H Q s0 s \<Longrightarrow> pc_sim Q s"
  by (simp_all add: cst_def st_def ifuse_ok_def fs_inv_def)

lemma add_cst:
  assumes "cst H Q s0 s" "queSlot p = Some k"
    and "\<And>w a s'. cst H (updA Q arr k (Q arr k @ [newEntry p (arr, k) sb (fst (os_time OS w))])) s0 s' \<Longrightarrow> R ((0, a), s')"
  shows "wpo (addPathToCache OS p arr sb s) R"
proof -
  obtain t w where t: "os_time OS (world s) = (t, w)" by fastforce
  show ?thesis
    by (rule wpo_mono [OF addPathToCache_sim [OF cst_lock(2) [OF assms(1)] assms(2) t cst_lock(1) [OF assms(1)]]])
      (use assms(3) [of "world s"] t in \<open>auto intro: cst_pcI [OF assms(1)]\<close>)
qed

lemma rm_cst:
  assumes "cst H Q s0 s" "queSlot p = Some k" "\<And>r s'. cst H (updA Q arr k (dropPath p (Q arr k))) s0 s' \<Longrightarrow> R (r, s')"
  shows "wpo (rmPathFromCache OS p arr s) R"
  by (rule wpo_mono [OF rmPathFromCache_sim [OF cst_lock(2) [OF assms(1)] assms(2) cst_lock(1) [OF assms(1)]]])
    (auto intro!: assms(3) cst_pcI [OF assms(1)])

lemma parse_cst:
  assumes "cst H Q s0 s" "rodsPathOk (MyRodsEnv s0) path" "\<And>r out s'. cst H Q s0 s' \<Longrightarrow> R ((r, out), s')"
  shows "wpo (parseFusePath OS path out s) R"
  by (rule parse_wp [OF cst_st [OF assms(1)] assms(2)]) (use assms(1,3) in simp)

lemma request_cst:
  assumes "cst {a} Q s0 s" "\<And>c w. P (fst (req c w))" "\<And>r s'. P r \<Longrightarrow> cst {a} Q s0 s' \<Longrightarrow> R (r, s')"
  shows "wpo (requestOnce (Some a) req s) R"
proof -
  obtain c where c: "connHeap s a = Some c" using st_held [OF cst_st [OF assms(1)]] by auto
  have "R (fst (req (fcConn c) (world s)), s\<lparr>world := snd (req (fcConn c) (world s))\<rparr>)" by (rule assms(3)) (use assms(1,2) in auto)
  then show ?thesis using c by (simp add: requestOnce_def connField_def sys_def case_prod_beta)
qed

lemma fillDirStat_cst:
  assumes "cst H Q s0 s" "\<And>b s'. cst H Q s0 s' \<Longrightarrow> st_mode b = S_IFDIR OR DEF_DIR_MODE \<Longrightarrow> st_size b = DIR_SZ \<Longrightarrow> st_mtime b = mt \<Longrightarrow> R (b, s')"
  shows "wpo (fillDirStat OS sb ct mt at s) R"
  using assms(1) by (auto simp: fillDirStat_def op_simps intro!: assms(2))

text \<open>A positive entry with no local copy answers for the path.\<close>

lemma cachedAttr_cst:
  assumes "cst H Q s0 s" "queSlot p = Some k" "unexpired OS Q k" "findPath p (Q PathArray k) = Some e" "locCachePath e = None"
    and "\<And>a s'. cst H Q s0 s' \<Longrightarrow> R (Some (a, pcStbuf e), s')"
  shows "wpo (cachedAttr OS p s) R"
proof -
  have hit: "wpo (updatePathCacheStat OS a t \<bind> (\<lambda>(status, s). if status < 0 then
       rmPathFromCache OS p PathArray s \<bind> (\<lambda>(_, s). Some (None, s)) else pcHeap s a \<bind> (\<lambda>n. Some (Some (a, pcStbuf n), s)))) R"
    if t: "cst H Q s0 t" "pcHeap t a = Some n" "ent n = e" for t a n
  proof -
    have n: "locCachePath n = None" "pcStbuf n = pcStbuf e" using assms(5) unfolding t(3) [symmetric] by simp_all
    then have "updatePathCacheStat OS a t = Some (0, t)" using t(2) by (simp add: updatePathCacheStat_def)
    then show ?thesis using t(2) n(2) assms(6) [OF t(1)] by simp
  qed
  show ?thesis
    unfolding cachedAttr_def wpo_bind [of "matchPathInPathCache w x y z" for w x y z]
    by (rule match_cst [OF assms(1-3)]) (use assms(4) hit in \<open>simp_all del: wpo_bind\<close>)
qed

lemma getattr_positive:
  assumes "server_up API" "cst {} Q s0 s" "queSlot p = Some k" "unexpired OS Q k"
    and "findPath p (Q NonExistPathArray k) = None" "findPath p (Q PathArray k) = Some e" "locCachePath e = None"
  shows "wpo (irodsGetattr OS API p sb s) (\<lambda>((r, b), s'). r = 0 \<and> b = pcStbuf e)"
  unfolding irodsGetattr_def do_irodsGetattr_def
  by (auto simp: io_simps assms(5) intro!: getConn_cst [OF assms(1,2)] match_cst [OF _ assms(3,4)] cachedAttr_cst [OF _ assms(3,4,6,7)] relConn_cst)

lemma mkdir_cst:
  assumes "server_up API" "ifuse_ok {} s" "rodsPathOk (MyRodsEnv s) p" "pc_sim Q s" "queSlot p = Some k" "\<And>c q w. 0 \<le> fst (rcCollCreate API c q w)"
    and "\<And>s'. cst {} Q s s' \<Longrightarrow> R (- ENOTDIR, s')"
    and "\<And>w b s'. cst {} (updA (updA Q PathArray k (Q PathArray k @ [newEntry p (PathArray, k) (Some b) (fst (os_time OS w))]))
            NonExistPathArray k (dropPath p (Q NonExistPathArray k))) s s' \<Longrightarrow>
          st_mode b = S_IFDIR OR DEF_DIR_MODE \<Longrightarrow> st_size b = DIR_SZ \<Longrightarrow> R (0, s')"
  shows "wpo (irodsMkdir OS API p m s) R"
proof -
  have s: "cst {} Q s s" using assms(2,4) by (simp add: cst_def st_def)
  have rest: "wpo (fillDirStat OS zero_stat x x x (t\<lparr>world := w\<rparr>))
     (\<lambda>x. wpo (addPathToCache OS p PathArray (Some (fst x)) (snd x)) (\<lambda>x. wpo (rmPathFromCache OS p NonExistPathArray (snd x))
     (\<lambda>x. wpo (relIFuseConn OS (Some a) (snd x)) (\<lambda>x. R (0, snd x)))))" if t: "cst {a} Q s t" for a t x w
    using t by (auto simp: wp_simps intro!: fillDirStat_cst add_cst [OF _ assms(5)] rm_cst [OF _ assms(5)] relConn_cst assms(8))
  show ?thesis
    unfolding irodsMkdir_def
    by (auto simp: io_simps intro!: parse_cst [OF s assms(3)] getConn_cst [OF assms(1)] request_cst [where P = "\<lambda>r. 0 \<le> r"] assms(6,7) rest)
qed


lemma findPath_snoc: "findPath p q = None \<Longrightarrow> filePath e = p \<Longrightarrow> findPath p (q @ [e]) = Some e"
  by (induction q) (auto simp: findPath_def split: if_splits)

lemma dropPath_subset: "set (dropPath p q) \<subseteq> set q"
  by (induction q) auto

lemma not_expired_within:
  assumes "0 \<le> t" "0 \<le> t'" "t' < t + 600" "t + 600 < 2 ^ 32"
  shows "\<not> expired (word_of_int t') (newEntry p q sb t)"
proof -
  have "uint (word_of_int (t + 600) :: 32 word) = t + 600" "uint (word_of_int t' :: 32 word) = t'"
    using assms by (simp_all add: unsigned_of_int take_bit_int_eq_self del: of_int_add)
  then show ?thesis using assms(3) by (simp add: expired_def newEntry_def not_le word_less_def)
qed

text \<open>C3. A directory made at the first attempt is visible at once: unless its path cannot be translated,
  \<open>irodsMkdir\<close> returns 0, and \<open>irodsGetattr\<close> then finds a directory, from the cache (whatever the server
  would say), when the path had no entry before other than one that says it does not exist, and ten minutes
  have not passed.\<close>

theorem mkdir_then_getattr:
  assumes "server_ok API" "ifuse_ok {} s" "rodsPathOk (MyRodsEnv s) p" "pc_sim Q s" "queSlot p = Some k" "unexpired OS Q k"
    and "\<And>c q w. 0 \<le> fst (rcCollCreate API c q w)"
    and "\<And>w. t0 \<le> fst (os_time OS w) \<and> fst (os_time OS w) < t0 + 600" "0 \<le> t0" "t0 + 1200 < 2 ^ 32"
    and "findPath p (Q PathArray k) = None" "findPath p (dropPath p (Q NonExistPathArray k)) = None"
  shows "wpo (irodsMkdir OS API p m s \<bind> (\<lambda>(r, s). irodsGetattr OS API p sb s \<bind> (\<lambda>((r', b), s). Some (r, r', b))))
           (\<lambda>(r, r', b). r = - ENOTDIR \<or> r = 0 \<and> r' = 0 \<and> st_mode b = S_IFDIR OR DEF_DIR_MODE \<and> st_size b = DIR_SZ)"
proof -
  let ?Q = "\<lambda>b t. updA (updA Q PathArray k (Q PathArray k @ [newEntry p (PathArray, k) (Some b) t])) NonExistPathArray k (dropPath p (Q NonExistPathArray k))"
  have fresh: "unexpired OS (?Q b (fst (os_time OS w))) k" for b w
  proof -
    have "\<not> expired (word_of_int (fst (os_time OS v))) (newEntry p (PathArray, k) (Some b) (fst (os_time OS w)))" for v
      by (rule not_expired_within) (use assms(8) [of v] assms(8) [of w] assms(9,10) in auto)
    then show ?thesis using assms(6) dropPath_subset [of p "Q NonExistPathArray k"] by (auto simp: unexpired_def)
  qed
  have found: "wpo (irodsGetattr OS API p sb s') (\<lambda>x. fst (fst x) = 0 \<and> st_mode (snd (fst x)) = S_IFDIR OR DEF_DIR_MODE \<and> st_size (snd (fst x)) = DIR_SZ)"
    if s': "cst {} (?Q b (fst (os_time OS w))) s s'" "st_mode b = S_IFDIR OR DEF_DIR_MODE" "st_size b = DIR_SZ" for w b s'
  proof -
    let ?e = "newEntry p (PathArray, k) (Some b) (fst (os_time OS w))"
    have e: "filePath ?e = p" "locCachePath ?e = None" "pcStbuf ?e = b" by (simp_all add: newEntry_def)
    show ?thesis
      by (rule wpo_mono [OF getattr_positive [OF server_okD [OF assms(1)] s'(1) assms(5) fresh, where e = ?e]])
        (use assms(11,12) findPath_snoc [OF assms(11) e(1)] e s'(2,3) in auto)
  qed
  have other: "wpo (irodsGetattr OS API p sb s') (\<lambda>_. True)" if "cst {} Q s s'" for s'
    by (rule irodsGetattr_wp [OF assms(1) cst_st [OF that] assms(3)]) simp
  show ?thesis
    unfolding wpo_bind
    by (rule mkdir_cst [OF server_okD [OF assms(1)] assms(2,3,4,5,7)])
      (simp add: case_prod_beta wpo_mono [OF other], use found in \<open>simp add: case_prod_beta\<close>)
qed


theorem mkdir_then_getattr_witness:
  "wpo (irodsMkdir frozenOS upAPI ''/a'' 0x1F8 asked_a \<bind>
     (\<lambda>(r, s). irodsGetattr frozenOS upAPI ''/a'' zero_stat s \<bind> (\<lambda>((r', b), s). Some (r, r', b))))
     (\<lambda>(r, r', b). r = - ENOTDIR \<or> r = 0 \<and> r' = 0 \<and> st_mode b = S_IFDIR OR DEF_DIR_MODE \<and> st_size b = DIR_SZ)"
proof (rule mkdir_then_getattr [OF _ asked_a_ok(1) _ asked_a_ok(2) slot_a asked_a_fresh, where ?t0.0 = 0])
  have "MyRodsEnv asked_a = MyRodsEnv (fs_start (0 :: int))" by (subst asked_a_ok(3)) (simp add: pool7_def)
  then show "rodsPathOk (MyRodsEnv asked_a) ''/a''" using rodsPathOk_a by simp
qed (simp_all add: server_ok_def server_up_def upAPI_def frozenOS_def findPath_def newEntry_def)

section \<open>Opening after a broken connection\<close>

text \<open>What releasing a connection does: the counter goes down by one, and a connection no descriptor
  refers to is marked free.\<close>

lemma relConn_effect:
  assumes "cnt_ok s" "locks s DescLock = 0" "locks s ConnLock = 0" "connHeap s a = Some c" "fcConn c \<noteq> None" "fcPendingCnt c = 0" "fcInuseCnt c \<le> 1"
    and R: "\<And>w t. R (0, s\<lparr>world := w, connHeap := (connHeap s)(a \<mapsto> c\<lparr>fcInuseCnt := fcInuseCnt c - 1, fcActTime := t,
       fcStatus := if \<exists>j. inuse s j \<and> fdConn (IFuseDesc s j) = Some a then fcStatus c else IRODS_FREE\<rparr>),
       locks := (locks s)(IFuseConnLock a := 0)\<rparr>)"
  shows "wpo (relIFuseConn OS (Some a) s) R"
proof -
  obtain t1 w1 where t1: "os_time OS (world s) = (t1, w1)" by fastforce
  obtain t2 w2 where t2: "os_time OS w1 = (t2, w2)" by fastforce
  obtain h where h: "fcConn c = Some h" using assms(5) by auto
  define ref where "ref \<longleftrightarrow> (\<exists>j. inuse s j \<and> fdConn (IFuseDesc s j) = Some a)"
  let ?c = "c\<lparr>fcInuseCnt := fcInuseCnt c - 1, fcActTime := t2\<rparr>"
  let ?lk = "(locks s)(IFuseConnLock a := 0)"
  let ?u = "s\<lparr>world := w2, connHeap := (connHeap s)(a \<mapsto> ?c), locks := ?lk\<rparr>"
  have lk: "(locks s)(ConnLock := 0, IFuseConnLock a := 0) = ?lk" "?lk(ConnLock := 0) = ?lk" using assms(3) by auto
  have u: "cnt_ok ?u" "locks ?u DescLock = 0" "inuse ?u = inuse s" "IFuseDesc ?u = IFuseDesc s"
    using assms(1,2) by (simp_all add: cnt_ok_def inuse_def fun_eq_iff)
  have use: "iFuseConnInuse (Some a) ?u = Some (if ref then 1 else 0, ?u)"
    using iFuseConnInuse_eq [OF u(1,2), of a, unfolded u(3,4) ref_def [symmetric]] by (auto simp: wpo_def split: option.splits)
  have sig: "signalConnManager (s\<lparr>world := w2, connHeap := H, locks := ?lk\<rparr>) = Some (0, s\<lparr>world := w2, connHeap := H, locks := ?lk\<rparr>)" for H
    by (rule signalConnManager_eq) (use assms(3) in simp)
  have id: "?c\<lparr>fcStatus := fcStatus c\<rparr> = ?c" by simp
  have "relIFuseConn OS (Some a) s = Some (0, s\<lparr>world := w2,
      connHeap := (connHeap s)(a \<mapsto> ?c\<lparr>fcStatus := if ref then fcStatus c else IRODS_FREE\<rparr>), locks := ?lk\<rparr>)"
    using assms(3,4,6,7) t1 t2 lk use h sig
    by (cases ref) (simp_all add: relIFuseConn_def unuseIFuseConn_def do_relIFuseConn_def freeIfUnreferenced_def mutex_lock_def mutex_unlock_def sys_def setConn_def Let_def)
  then show ?thesis using R by (simp add: ref_def)
qed


text \<open>A released connection: free, unless it still serves a descriptor.\<close>

definition released :: "nat \<Rightarrow> ('w, 'z) fstate_scheme \<Rightarrow> bool" where
  "released a s \<longleftrightarrow> (\<exists>c. connHeap s a = Some c \<and> fcStatus c = IRODS_FREE \<and> fcConn c \<noteq> None \<and> fcPendingCnt c = 0 \<and> fcInuseCnt c \<le> 0)"

lemma relConn_released:
  assumes "st {a} s0 s" "\<And>j. inuse s0 j \<Longrightarrow> fdConn (IFuseDesc s0 j) \<noteq> Some a" "\<And>s'. st {} s0 s' \<Longrightarrow> released a s' \<Longrightarrow> R (0, s')"
  shows "wpo (relIFuseConn OS (Some a) s) R"
proof -
  have inv: "fs_inv {a} s" "ifuse_ok {a} s" using assms(1) by (simp_all add: st_def ifuse_ok_def)
  obtain c where c: "connHeap s a = Some c" "fcConn c \<noteq> None" using ifuse_ok_live [OF inv(2)] by (auto simp: live_def)
  have cnt: "fcPendingCnt c = 0" "fcInuseCnt c = 1" using inv(1) c by (auto simp: fs_inv_def conn_inv_def)
  have l: "locks s DescLock = 0" "locks s ConnLock = 0" "cnt_ok s" using inv(1) cnt_ok_fs [OF inv(1), of "locks s"] by (auto simp: fs_inv_def)
  have ref: "\<not> (\<exists>j. inuse s j \<and> fdConn (IFuseDesc s j) = Some a)" using assms(2) st_inuse [OF assms(1)] st_fdConn [OF assms(1)] by auto
  have "wpo (relIFuseConn OS (Some a) s) (\<lambda>x. fst x = 0 \<and> released a (snd x))"
    by (rule relConn_effect [OF l(3,1,2) c cnt(1)]) (use cnt c(2) ref in \<open>auto simp: released_def\<close>)
  from wpo_conj [OF this relConn_wp [OF assms(1), of "\<lambda>(r, s'). st {} s0 s'" OS]] show ?thesis
    by (auto elim!: wpo_mono intro!: assms(3))
qed

lemma rm_released:
  assumes "st {} s0 s" "released a s" "asciiPath p" "\<And>r s'. st {} s0 s' \<Longrightarrow> released a s' \<Longrightarrow> R (r, s')"
  shows "wpo (rmPathFromCache OS p arr s) R"
proof (rule wpo_mono [OF pc.remove_law [OF st_pc_ok [OF assms(1)] assms(3)]], clarify)
  fix r s' assume f: "pc_frame s s'" "pc_ok s'"
  have "connHeap s' = connHeap s" using arg_cong [OF pc_frame_eq [OF f(1)], of connHeap] by simp
  then show "R (r, s')" using assms(2) by (intro assms(4) st_pc [OF assms(1) f]) (simp add: released_def)
qed

text \<open>A descriptor opened on a connection that was released already, and the second release.\<close>

lemma reopen_released:
  fixes s :: "('w, 'z) lstate_scheme"
  assumes "st {} s0 s" "released a s" "3 \<le> i" "i < MAX_IFUSE_DESC" "\<not> inuse s i"
    and R: "\<And>d fi s' c. fhCells s' fi = Some d \<Longrightarrow> fdConn (IFuseDesc s' d) = Some a \<Longrightarrow> inuse s' d \<Longrightarrow> connHeap s' a = Some c \<Longrightarrow>
       fcStatus c = IRODS_FREE \<Longrightarrow> fcInuseCnt c < 0 \<Longrightarrow> R d (fi, s')"
  shows "wpo (allocIFuseDesc s) (\<lambda>x. \<not> fst x < 0 \<and> wpo (fillIFuseDesc (fst x) (Some a) fd (Some obj) (Some p) (snd x))
     (\<lambda>y. wpo (relIFuseConn OS (Some a) (snd y)) (\<lambda>z. wpo (newHandle (fst x) (snd z)) (R (fst x)))))"
proof -
  have inv: "fs_inv {} s" using assms(1) by (simp add: st_def ifuse_ok_def)
  obtain c where c: "connHeap s a = Some c" "fcStatus c = 0" "fcConn c \<noteq> None" "fcPendingCnt c = 0" "fcInuseCnt c \<le> 0"
    using assms(2) by (auto simp: released_def)
  show ?thesis
  proof (rule wpo_mono [OF allocIFuseDesc_ok [OF inv]], clarify)
    fix d and s1 :: "('w, 'z) lstate_scheme"
    assume al: "if d < 0 then s1 = s \<and> d = SYS_OUT_OF_FILE_DESC \<and> (\<forall>i. 3 \<le> i \<and> i < MAX_IFUSE_DESC \<longrightarrow> inuse s i)
     else fs_inv {} s1 \<and> 3 \<le> d \<and> d < MAX_IFUSE_DESC \<and> \<not> inuse s d \<and> inuse s1 d \<and>
       s1 = s\<lparr>locks := (locks s)(IFuseDescLock d := 0),
              IFuseDesc := (IFuseDesc s)(d := zeroDesc\<lparr>fdInuseFlag := IRODS_INUSE\<rparr>),
              IFuseDescInuseCnt := IFuseDescInuseCnt s + 1\<rparr>"
    have s1: "\<not> d < 0" "fs_inv {} s1" "inuse s1 d" "connHeap s1 a = Some c" using al assms(3-5) c(1) by (auto split: if_splits)
    let ?D = "(IFuseDesc s1 d)\<lparr>fdConn := Some a, fdIFd := fd, fdObjPath := Some obj, fdLocalPath := Some p\<rparr>"
    let ?s = "setDesc d ?D s1"
    have fill: "fillIFuseDesc d (Some a) fd (Some obj) (Some p) s1 = Some (0, ?s)"
      using s1(3) by (simp add: fillIFuseDesc_def inuse_def getDesc_def)
    have inu: "inuse ?s = inuse s1" using s1(3) by (auto simp: inuse_def setDesc_def fun_eq_iff)
    have ok: "cnt_ok ?s" "locks ?s DescLock = 0" "locks ?s ConnLock = 0" "connHeap ?s a = Some c"
      using cnt_ok_fs [OF s1(2), of "locks s1"] s1(2,4) unfolding cnt_ok_def inu by (auto simp: fs_inv_def setDesc_def)
    have ref: "\<exists>j. inuse ?s j \<and> fdConn (IFuseDesc ?s j) = Some a" using s1(3) unfolding inu by (auto simp: setDesc_def)
    have "wpo (relIFuseConn OS (Some a) ?s) (\<lambda>z. wpo (newHandle d (snd z)) (R d))"
    proof (rule relConn_effect [OF ok c(3,4)])
      fix w :: 'w and t :: int
      let ?v = "?s\<lparr>world := w, connHeap := (connHeap ?s)(a \<mapsto> c\<lparr>fcInuseCnt := fcInuseCnt c - 1, fcActTime := t,
         fcStatus := if \<exists>j. inuse ?s j \<and> fdConn (IFuseDesc ?s j) = Some a then fcStatus c else IRODS_FREE\<rparr>),
         locks := (locks ?s)(IFuseConnLock a := 0)\<rparr>"
      have "inuse ?v d" using s1(3) inu by (simp add: inuse_def fun_eq_iff)
      then show "wpo (newHandle d (snd (0, ?v))) (R d)"
        using ref c(2,5) by (auto simp: newHandle_def ALLOC_IFUSE_DESC_INDEX_def SET_IFUSE_DESC_INDEX_def inuse_def setDesc_def intro!: R)
    qed (use c(5) in simp)
    then show "\<not> fst (d, s1) < 0 \<and> wpo (fillIFuseDesc (fst (d, s1)) (Some a) fd (Some obj) (Some p) (snd (d, s1)))
       (\<lambda>y. wpo (relIFuseConn OS (Some a) (snd y)) (\<lambda>z. wpo (newHandle (fst (d, s1)) (snd z)) (R (fst (d, s1)))))"
      using s1(1) fill by simp
  qed
qed


text \<open>C5. A file opened at the second attempt is left on a connection that is marked free: when the first
  request of \<open>irodsOpen\<close> finds its connection broken and the request repeated on a new one succeeds, the
  connection is released before the descriptor is set up and once more afterwards. Unless the path cannot be
  translated, the call returns 0 with a handle whose descriptor uses the connection, while the connection is
  free for others and for the manager to delete, and its use count is negative.\<close>

theorem open_retry_frees_connection:
  fixes s :: "('w, 'z) lstate_scheme"
  assumes "server_up API" "opst {a} 0 E s" "fusePath E p" "\<And>j. inuse s j \<Longrightarrow> fdConn (IFuseDesc s j) \<noteq> Some a"
    and "connHeap s a = Some c"
    and "\<And>i w. fst (rcDataObjOpen API (fcConn c) i w) < 0 \<and> isReadMsgError (fst (rcDataObjOpen API (fcConn c) i w)) \<noteq> 0"
    and "\<And>w. fst (fst (rcConnect API w)) = Some h" "\<And>i w. 0 \<le> fst (rcDataObjOpen API (Some h) i w)"
    and "3 \<le> i" "i < MAX_IFUSE_DESC" "\<not> inuse s i"
  shows "wpo (openObject OS API (Some a) p flags s) (\<lambda>((r, fh), s'). r = - ENOTDIR \<or>
     r = 0 \<and> (\<exists>fi d c. fh = Some fi \<and> fhCells s' fi = Some d \<and> inuse s' d \<and> fdConn (IFuseDesc s' d) = Some a \<and>
       connHeap s' a = Some c \<and> fcStatus c = IRODS_FREE \<and> fcInuseCnt c < 0))"
proof -
  let ?P = "\<lambda>x. fst (fst x) = - ENOTDIR \<or> fst (fst x) = 0 \<and> (\<exists>fi d c. snd (fst x) = Some fi \<and> fhCells (snd x) fi = Some d \<and>
     inuse (snd x) d \<and> fdConn (IFuseDesc (snd x) d) = Some a \<and> connHeap (snd x) a = Some c \<and> fcStatus c = IRODS_FREE \<and> fcInuseCnt c < 0)"
  have s: "st {a} s s" "rodsPathOk (MyRodsEnv s) p" "asciiPath p" using assms(3) opst_env [OF assms(2)] opst_self [OF assms(2)] by auto
  obtain Q where "pc_sim Q s" using assms(2) by (auto simp: opst_def ifuse_ok_def fs_inv_def pc_inv_def)
  then have cst: "cst {a} Q s (s\<lparr>world := w\<rparr>)" for w using s(1) by (simp add: cst_def)
  have first: "requestOnce (Some a) (\<lambda>conn. rcDataObjOpen API conn q) (s\<lparr>world := w\<rparr>) =
      Some (fst (rcDataObjOpen API (fcConn c) q w), s\<lparr>world := snd (rcDataObjOpen API (fcConn c) q w)\<rparr>)" for q w
    using assms(5) by (simp add: requestOnce_def connField_def sys_def case_prod_beta)
  have again: "wpo (requestOnce (Some a) (\<lambda>conn. rcDataObjOpen API conn q) t) R"
    if "connHeap t a = Some d" "fcConn d = Some h" "\<And>r w. 0 \<le> r \<Longrightarrow> R (r, t\<lparr>world := w\<rparr>)" for R t d q
    using that assms(8) by (simp add: requestOnce_def connField_def sys_def case_prod_beta)
  have fresh: "\<not> inuse t i" if "st {} s t" for t using st_inuse [OF that] assms(11) by simp
  have last: "wpo (allocIFuseDesc t) (\<lambda>x. (fst x < 0 \<longrightarrow> wpo (relIFuseConn OS (Some a) (snd x)) (\<lambda>x. ?P ((- ENOENT, None), snd x))) \<and>
     (\<not> fst x < 0 \<longrightarrow> wpo (fillIFuseDesc (fst x) (Some a) fd (Some obj) (Some p) (snd x)) (\<lambda>y. wpo (relIFuseConn OS (Some a) (snd y))
        (\<lambda>z. wpo (newHandle (fst x) (snd z)) (\<lambda>x. ?P ((0, Some (fst x)), snd x))))))" if "st {} s t" "released a t" for t fd obj
    by (rule wpo_mono [OF reopen_released [OF that assms(9,10) fresh [OF that(1)], where R = "\<lambda>d x. ?P ((0, Some (fst x)), snd x)"]]) auto
  have "wpo (openObject OS API (Some a) p flags s) ?P"
    unfolding openObject_def using first assms(6) last
    by (auto simp: io_simps retryRequest_def intro!: parse_wp [OF s(1,2)] reconnect_cst [OF assms(1) cst assms(7)] relConn_wp [OF cst_st [OF cst]]
       rm_released [OF _ _ s(3)])
      (rule again, assumption, assumption, auto intro!: relConn_released [OF _ assms(4)] rm_released [OF _ _ s(3)] dest: cst_st)
  then show ?thesis by (auto elim!: wpo_mono)
qed


text \<open>The connection held by a handler, broken.\<close>

definition held_start :: "int lstate" where
  "held_start = fuse_start\<lparr>locks := (locks fuse_start)(IFuseConnLock 0 := 1),
     connHeap := [0 \<mapsto> zeroConn\<lparr>fcConn := Some 7, fcStatus := IRODS_INUSE, fcInuseCnt := 1\<rparr>]\<rparr>"

lemma fuse_start_fields:
  "IFuseDesc fuse_start = (\<lambda>_. zeroDesc)" "ConnHead fuse_start = [0]" "connFresh fuse_start = 1" "locks fuse_start = (\<lambda>_. 0)" "IFuseDescInuseCnt fuse_start = 0"
  by (simp_all add: fuse_start_def pstate.extend_def nstate.extend_def pstate.fields_def lstate.fields_def ns_start_def)

lemma held_start_ok: "opst {0} 0 envU held_start"
proof -
  have o: "opst {} 0 envU fuse_start" using fuse_start_ok by (simp add: hinv_def)
  then have "pc_inv held_start" "nc_inv held_start" "MyRodsEnv held_start = envU" "\<not> inuse held_start i" for i
    by (auto simp: opst_def ifuse_ok_def fs_inv_def held_start_def pc_inv_def pc_sim_def pc_rep_def nc_inv_def inuse_def fuse_start_fields zeroDesc_def)
  then show ?thesis
    by (simp add: opst_def ifuse_ok_def fs_inv_def conn_inv_def desc_inv_def pool_live_def live_def)
      (simp add: held_start_def fuse_start_fields zeroConn_def zeroDesc_def)
qed

definition brokenAPI :: "int irods" where
  "brokenAPI = upAPI\<lparr>rcConnect := \<lambda>w. ((Some 8, 0), w), rcDataObjOpen := \<lambda>c _ w. (if c = Some 7 then SYS_HEADER_READ_LEN_ERR else 5, w)\<rparr>"

theorem open_retry_frees_connection_witness:
  "wpo (openObject clockOS brokenAPI (Some 0) ''/a'' 1 held_start) (\<lambda>((r, fh), s'). r = - ENOTDIR \<or>
     r = 0 \<and> (\<exists>fi d c. fh = Some fi \<and> fhCells s' fi = Some d \<and> inuse s' d \<and> fdConn (IFuseDesc s' d) = Some 0 \<and>
       connHeap s' 0 = Some c \<and> fcStatus c = IRODS_FREE \<and> fcInuseCnt c < 0))"
  by (rule open_retry_frees_connection [OF _ held_start_ok, where h = 8 and i = 3 and c = "zeroConn\<lparr>fcConn := Some 7, fcStatus := IRODS_INUSE, fcInuseCnt := 1\<rparr>"])
    (use fusePath_abc [of "CHR ''a''"] in \<open>simp_all add: server_up_def brokenAPI_def upAPI_def isReadMsgError_def getIrodsErrno_def
       held_start_def fuse_start_fields inuse_def zeroDesc_def\<close>)

section \<open>What a listing shows\<close>

text \<open>The calls of the connection pool leave a part \<open>f\<close> of the world alone, and so do the local calls.\<close>

definition connKeeps :: "'w os \<Rightarrow> 'w irods \<Rightarrow> ('w \<Rightarrow> 'a) \<Rightarrow> bool" where
  "connKeeps OS API f \<longleftrightarrow> (\<forall>w. f (snd (os_time OS w)) = f w \<and> f (snd (rcConnect API w)) = f w) \<and>
     (\<forall>h w. f (snd (clientLogin API h w)) = f w \<and> f (snd (rcDisconnect API h w)) = f w)"

definition localSame :: "'w os \<Rightarrow> ('w \<Rightarrow> 'a) \<Rightarrow> bool" where
  "localSame OS f \<longleftrightarrow> (\<forall>w. f (snd (os_time OS w)) = f w \<and> f (snd (os_random OS w)) = f w \<and>
     f (snd (os_getuid OS w)) = f w \<and> f (snd (os_getgid OS w)) = f w \<and> f (snd (os_stackPath OS w)) = f w) \<and>
   (\<forall>p w. f (snd (os_unlink OS p w)) = f w)"

lemma keeps_sys: "sys g s = Some (r, s') \<Longrightarrow> (\<And>w. f (snd (g w)) = f w) \<Longrightarrow> f (world s') = f (world s)"
  by (auto simp: sys_def case_prod_beta)

lemma useConn_keeps:
  assumes "connKeeps OS API f"
  shows "do_useIFuseConn OS x s = Some (r, s') \<Longrightarrow> f (world s') = f (world s)"
    "useIFuseConn OS x s = Some (r, s') \<Longrightarrow> f (world s') = f (world s)"
    "useFreeIFuseConn OS a s = Some (r, s') \<Longrightarrow> f (world s') = f (world s)"
proof -
  have t: "sys (os_time OS) u = Some (q, u') \<Longrightarrow> f (world u') = f (world u)" for u u' :: "('a, 'c) fstate_scheme" and q
    using keeps_sys [of "os_time OS" u q u' f] assms by (simp add: connKeeps_def)
  show do_use: "do_useIFuseConn OS x s = Some (r, s') \<Longrightarrow> f (world s') = f (world s)" for s x
    by (auto simp: do_useIFuseConn_def mutex_lock_def mutex_unlock_def setConn_def Let_def split: option.splits bind_splits if_splits dest!: t)
  show "useIFuseConn OS x s = Some (r, s') \<Longrightarrow> f (world s') = f (world s)"
    by (auto simp: useIFuseConn_def mutex_lock_def split: option.splits bind_splits if_splits dest!: do_use)
  show "useFreeIFuseConn OS a s = Some (r, s') \<Longrightarrow> f (world s') = f (world s)"
    by (auto simp: useFreeIFuseConn_def mutex_lock_def mutex_unlock_def setConn_def Let_def split: option.splits bind_splits if_splits dest!: t)
qed

lemma connect_keeps:
  assumes "connKeeps OS API f" "ifuseConnect API a s = Some (r, s')"
  shows "f (world s') = f (world s)"
proof -
  have k: "f (snd (rcConnect API w)) = f w" "f (snd (clientLogin API h w)) = f w" "f (snd (rcDisconnect API h w)) = f w" for h w
    using assms(1) by (simp_all add: connKeeps_def)
  show ?thesis using assms(2)
    by (auto simp: ifuseConnect_def sys_def setConn_def case_prod_beta k split: option.splits bind_splits if_splits)
qed

lemma getConn_keeps:
  assumes "connKeeps OS API f" "getIFuseConn OS API s = Some (r, s')"
  shows "f (world s') = f (world s)"
proof -
  have new: "f (world u') = f (world u)" if "newIFuseConn OS API u = Some (q, u')" for u u' :: "('a, 'c) fstate_scheme" and q
    using that by (auto simp: newIFuseConn_def startConnManager_def mutex_lock_def mutex_unlock_def Let_def split: bind_splits if_splits
        dest!: connect_keeps [OF assms(1)] useConn_keeps(2) [OF assms(1)])
  show ?thesis using assms(2)
    by (auto simp: getIFuseConn_def mutex_lock_def mutex_unlock_def split: option.splits bind_splits if_splits
        dest!: new useConn_keeps(1,3) [OF assms(1)])
qed

lemma relConn_keeps:
  assumes "connKeeps OS API f" "relIFuseConn OS x s = Some (r, s')"
  shows "f (world s') = f (world s)"
proof -
  have t: "sys (os_time OS) u = Some (q, u') \<Longrightarrow> f (world u') = f (world u)" for u u' :: "('a, 'c) fstate_scheme" and q
    using keeps_sys [of "os_time OS" u q u' f] assms(1) by (simp add: connKeeps_def)
  have u: "f (world u') = f (world u)" if "unuseIFuseConn OS x u = Some (q, u')" for u u' :: "('a, 'c) fstate_scheme" and q
    using that by (auto simp: unuseIFuseConn_def mutex_lock_def mutex_unlock_def setConn_def Let_def split: option.splits bind_splits if_splits dest!: t)
  have i: "world u' = world u" if "freeIfUnreferenced a u = Some u'" for u u' :: "('a, 'c) fstate_scheme" and a
    using that by (auto simp: freeIfUnreferenced_def iFuseConnInuse_def mutex_lock_def mutex_unlock_def setConn_def Let_def split: bind_splits if_splits)
  have "f (world u') = f (world u)" if "do_relIFuseConn OS x u = Some (q, u')" for u u' :: "('a, 'c) fstate_scheme" and q
    using that by (auto simp: do_relIFuseConn_def signalConnManager_def mutex_lock_def mutex_unlock_def setConn_def Let_def
        split: option.splits bind_splits if_splits dest!: t i)
  then show ?thesis using assms(2) by (auto simp: relIFuseConn_def split: bind_splits if_splits dest!: u)
qed


text \<open>A world with a directory being listed: \<open>pending\<close> are the entries the server has still to send and
  \<open>shown\<close> the names given to FUSE.\<close>

definition entNames :: "collEnt \<Rightarrow> string list" where
  "entNames e = (case ce_objType e of RODS_DATA_OBJ \<Rightarrow> [ce_dataName e]
     | RODS_COLL_OBJ \<Rightarrow> [snd (snd (splitPathByKey (ce_collName e) [] [] slash))] | RODS_UNKNOWN \<Rightarrow> [])"

definition lists :: "'w os \<Rightarrow> 'w irods \<Rightarrow> ('w \<Rightarrow> collEnt list) \<Rightarrow> ('w \<Rightarrow> string list) \<Rightarrow> bool" where
  "lists OS API pending shown \<longleftrightarrow>
     connKeeps OS API shown \<and> localSame OS (\<lambda>w. (pending w, shown w)) \<and>
     (\<forall>p w. pending (snd (os_filler OS p w)) = pending w \<and> shown (snd (os_filler OS p w)) = shown w @ [p]) \<and>
     (\<forall>c h w. shown (snd (rclReadCollection API c h w)) = shown w \<and> (case pending w of
         [] \<Rightarrow> fst (fst (rclReadCollection API c h w)) < 0
       | e # es \<Rightarrow> fst (fst (rclReadCollection API c h w)) \<ge> 0 \<and> snd (fst (rclReadCollection API c h w)) = e \<and> pending (snd (rclReadCollection API c h w)) = es)) \<and>
     (\<forall>h w. shown (snd (rclCloseCollection API h w)) = shown w)"

lemma same_left: "localSame OS f \<Longrightarrow> localKeeps OS (\<lambda>w. if f w = x then 0 else 1)"
  by (simp add: localSame_def localKeeps_def)

lemma match_same_wp:
  assumes "localSame OS f" "st H s0 s" "asciiPath p" "\<And>r out s'. st H s0 s' \<Longrightarrow> f (world s') = f (world s) \<Longrightarrow> Q ((r, out), s')"
  shows "wpo (matchPathInPathCache OS p arr s) Q"
  by (rule match_left_wp [OF same_left [OF assms(1), of "f (world s)"] assms(2,3)]) (use assms(4) in \<open>auto split: if_splits\<close>)

lemma add_same_wp:
  assumes "localSame OS f" "st H s0 s" "asciiPath p" "\<And>x s'. st H s0 s' \<Longrightarrow> f (world s') = f (world s) \<Longrightarrow> Q (x, s')"
  shows "wpo (addPathToCache OS p arr sb s) Q"
  by (rule add_left_wp [OF same_left [OF assms(1), of "f (world s)"] assms(2,3)]) (use assms(4) in \<open>auto split: if_splits\<close>)

lemma cacheChild_same_wp:
  assumes "localSame OS f" "st H s0 s" "asciiPath child"
    and fill: "\<And>s. wpo (fill s) (\<lambda>(b, s'). \<exists>w. s' = s\<lparr>world := w\<rparr> \<and> f w = f (world s))"
    and "\<And>s'. st H s0 s' \<Longrightarrow> f (world s') = f (world s) \<Longrightarrow> Q s'"
  shows "wpo (cacheChild OS child fill s) Q"
  unfolding cacheChild_def using assms(2,3)
  by (auto simp: io_simps intro!: match_same_wp [OF assms(1)] wpo_mono [OF fill] add_same_wp [OF assms(1)] assms(5))

lemma fill_same:
  assumes "localSame OS f"
  shows "wpo (fillFileStat OS sb m sz ct mt at s) (\<lambda>(b, s'). \<exists>w. s' = s\<lparr>world := w\<rparr> \<and> f w = f (world s))"
    "wpo (fillDirStat OS sb ct mt at s) (\<lambda>(b, s'). \<exists>w. s' = s\<lparr>world := w\<rparr> \<and> f w = f (world s))"
  using assms by (auto simp: fillFileStat_def fillDirStat_def op_simps sys_def case_prod_beta localSame_def intro!: exI)

lemma readdirEntry_shows:
  assumes "lists OS API pending shown" "st H s0 s" "asciiPath path" "asciiName (ce_dataName e)" "asciiName (ce_collName e)"
    and "\<And>s'. st H s0 s' \<Longrightarrow> pending (world s') = pending (world s) \<Longrightarrow> shown (world s') = shown (world s) @ entNames e \<Longrightarrow> Q s'"
  shows "wpo (readdirEntry OS path e s) Q"
proof -
  let ?f = "\<lambda>w. (pending w, shown w)"
  have same: "localSame OS ?f" using assms(1) by (simp add: lists_def)
  have fl: "pending (snd (os_filler OS p w)) = pending w" "shown (snd (os_filler OS p w)) = shown w @ [p]" for p w
    using assms(1) by (simp_all add: lists_def)
  have keep: "st H s0 (s\<lparr>world := w\<rparr>)" for w using assms(2) by (auto intro!: io_wp)
  show ?thesis
    using assms(2-6) keep fl
    by (auto simp: readdirEntry_def entNames_def Let_def io_simps sys_def case_prod_beta split: rodsObjType.splits
        intro!: cacheChild_same_wp [OF same] fill_same [OF same] childOf_ascii mySubDir_ascii)
qed

lemma lists_read:
  "lists OS API pending shown \<Longrightarrow> shown (snd (rclReadCollection API c h w)) = shown w \<and> (case pending w of
     [] \<Rightarrow> fst (fst (rclReadCollection API c h w)) < 0
   | e # es \<Rightarrow> fst (fst (rclReadCollection API c h w)) \<ge> 0 \<and> snd (fst (rclReadCollection API c h w)) = e \<and> pending (snd (rclReadCollection API c h w)) = es)"
  unfolding lists_def by blast

lemma readdir_loop_shows:
  assumes "lists OS API pending shown" "asciiPath path" "\<forall>e \<in> set (pending (world s)). asciiName (ce_dataName e) \<and> asciiName (ce_collName e)"
    and "st {a} s0 s" "\<And>s'. st {a} s0 s' \<Longrightarrow> shown (world s') = shown (world s) @ concat (map entNames (pending (world s))) \<Longrightarrow> Q s'"
  shows "wpo (readdir_loop OS API (Some a) path h s) Q"
  using assms(3-5)
proof (induction "pending (world s)" arbitrary: s)
  case Nil
  have rd: "shown (snd (rclReadCollection API c h (world s))) = shown (world s)" "fst (fst (rclReadCollection API c h (world s))) < 0" for c
    using lists_read [OF assms(1), of c h "world s"] Nil(1) [symmetric] by auto
  have "Q (s\<lparr>world := snd (rclReadCollection API c h (world s))\<rparr>)" for c
    by (rule Nil(4)) (use Nil(1,3) rd in \<open>auto intro!: io_wp\<close>)
  then show ?case
    using rd by (subst readdir_loop.simps) (auto simp: io_simps sys_def case_prod_beta not_le [symmetric] intro!: connField_wp [OF Nil(3)])
next
  case (Cons e es)
  have rd: "shown (snd (rclReadCollection API c h (world s))) = shown (world s)" "0 \<le> fst (fst (rclReadCollection API c h (world s)))"
      "snd (fst (rclReadCollection API c h (world s))) = e" "pending (snd (rclReadCollection API c h (world s))) = es" for c
    using lists_read [OF assms(1), of c h "world s"] Cons(2) [symmetric] by auto
  have ascii: "asciiName (ce_dataName e)" "asciiName (ce_collName e)" "\<forall>e \<in> set es. asciiName (ce_dataName e) \<and> asciiName (ce_collName e)"
    using Cons(3) Cons(2) [symmetric] by auto
  have step: "wpo (readdirEntry OS path e (s\<lparr>world := snd (rclReadCollection API c h (world s))\<rparr>)) (\<lambda>t. wpo (readdir_loop OS API (Some a) path h t) Q)" for c
  proof (rule readdirEntry_shows [OF assms(1) _ assms(2) ascii(1,2)])
    show "st {a} s0 (s\<lparr>world := snd (rclReadCollection API c h (world s))\<rparr>)" using Cons(4) by (auto intro!: io_wp)
    fix t assume t: "st {a} s0 t" "pending (world t) = pending (world (s\<lparr>world := snd (rclReadCollection API c h (world s))\<rparr>))"
      "shown (world t) = shown (world (s\<lparr>world := snd (rclReadCollection API c h (world s))\<rparr>)) @ entNames e"
    show "wpo (readdir_loop OS API (Some a) path h t) Q"
    proof (rule Cons(1))
      show "es = pending (world t)" using t(2) rd by simp
      then show "\<forall>e \<in> set (pending (world t)). asciiName (ce_dataName e) \<and> asciiName (ce_collName e)" using ascii(3) by simp
      show "st {a} s0 t" by (rule t(1))
      show "Q u" if "st {a} s0 u" "shown (world u) = shown (world t) @ concat (map entNames (pending (world t)))" for u
        by (rule Cons(5) [OF that(1)]) (use that(2) t(2,3) rd Cons(2) [symmetric] in simp)
    qed
  qed
  show ?case
    using rd by (subst readdir_loop.simps) (auto simp: io_simps sys_def case_prod_beta intro!: connField_wp [OF Cons(4)] step)
qed


lemma getConn_shows:
  assumes "connKeeps OS API f" "server_up API" "st {} s0 s" "\<And>a s'. st {a} s0 s' \<Longrightarrow> f (world s') = f (world s) \<Longrightarrow> Q ((0, Some a), s')"
  shows "wpo (getIFuseConn OS API s) Q"
proof -
  have "wpo (getIFuseConn OS API s) (\<lambda>x. \<exists>a s'. x = ((0, Some a), s') \<and> st {a} s0 s')" by (rule getConn_wp [OF assms(2,3)]) auto
  then show ?thesis by (rule wpo_both) (use assms(4) getConn_keeps [OF assms(1)] in blast)
qed

lemma relConn_shows:
  assumes "connKeeps OS API f" "st {a} s0 s" "\<And>s'. st {} s0 s' \<Longrightarrow> f (world s') = f (world s) \<Longrightarrow> Q (0, s')"
  shows "wpo (relIFuseConn OS (Some a) s) Q"
proof -
  have "wpo (relIFuseConn OS (Some a) s) (\<lambda>x. \<exists>s'. x = (0, s') \<and> st {} s0 s')" by (rule relConn_wp [OF assms(2)]) auto
  then show ?thesis by (rule wpo_both) (use assms(3) relConn_keeps [OF assms(1)] in blast)
qed

lemma parse_shows:
  assumes "localSame OS f" "st H s0 s" "rodsPathOk (MyRodsEnv s0) p"
    and "\<And>stk r coll s'. parseRodsPathStr stk (tl p) (Some (MyRodsEnv s0)) [] = Some (r, coll) \<Longrightarrow> st H s0 s' \<Longrightarrow> f (world s') = f (world s) \<Longrightarrow> Q ((r, coll), s')"
  shows "wpo (parseFusePath OS p [] s) Q"
proof -
  have "wpo (parseFusePath OS p [] s) (\<lambda>x. st H s0 (snd x))" by (rule parse_wp [OF assms(2,3)]) (use assms(2) in simp)
  then show ?thesis
  proof (rule wpo_both)
    fix x assume x: "parseFusePath OS p [] s = Some x" "st H s0 (snd x)"
    obtain r coll s' where xs: "x = ((r, coll), s')" by (metis surj_pair)
    have k: "f (snd (os_stackPath OS w)) = f w" for w using assms(1) by (simp add: localSame_def)
    have "\<exists>stk. parseRodsPathStr stk (tl p) (Some (MyRodsEnv s)) [] = Some (r, coll)" "f (world s') = f (world s)"
      using x(1) xs k by (auto simp: parseFusePath_def sys_def case_prod_beta split: list.splits bind_splits)
    then show "Q x" using assms(4) x(2) xs st_env [OF assms(2)] by auto
  qed
qed

text \<open>C2. A listing gives FUSE the two dot entries and then the names of the entries of the collection, all
  of them, once each and in the order of the server, whatever is in the path cache; a path that cannot be
  translated gives the dot entries and \<open>ENOTDIR\<close>.\<close>

theorem readdir_shows_collection:
  fixes s :: "('w, 'z) fstate_scheme"
  assumes "server_up API" "lists OS API pending shown" "ifuse_ok {} s" "rodsPathOk (MyRodsEnv s) p"
    and "\<And>c q w. fst (fst (rclOpenCollection API c q w)) \<ge> 0 \<and> pending (snd (rclOpenCollection API c q w)) = entries q \<and>
      shown (snd (rclOpenCollection API c q w)) = shown w"
    and "\<And>q e. e \<in> set (entries q) \<Longrightarrow> asciiName (ce_dataName e) \<and> asciiName (ce_collName e)"
  shows "\<exists>r s' stk status coll. irodsReaddir OS API p s = Some (r, s') \<and>
     parseRodsPathStr stk (tl p) (Some (MyRodsEnv s)) [] = Some (status, coll) \<and>
     (if status < 0 then r = - ENOTDIR \<and> shown (world s') = shown (world s) @ [''.'', ''..'']
      else r = 0 \<and> shown (world s') = shown (world s) @ [''.'', ''..''] @ concat (map entNames (entries coll)))"
proof -
  define P where "P = (\<lambda>(r :: int, s' :: ('w, 'z) fstate_scheme). \<exists>stk status coll. parseRodsPathStr stk (tl p) (Some (MyRodsEnv s)) [] = Some (status, coll) \<and>
     (if status < 0 then r = - ENOTDIR \<and> shown (world s') = shown (world s) @ [''.'', ''..'']
      else r = 0 \<and> shown (world s') = shown (world s) @ [''.'', ''..''] @ concat (map entNames (entries coll))))"
  have PI: "P (- ENOTDIR, s')" if "parseRodsPathStr stk (tl p) (Some (MyRodsEnv s)) [] = Some (status, coll)" "status < 0"
      "shown (world s') = shown (world s) @ [''.'', ''..'']" for s' stk status coll
    using that unfolding P_def by auto
  have s: "st {} s (s\<lparr>world := w\<rparr>)" "asciiPath p" for w using assms(3,4) by (simp_all add: st_def)
  have k: "connKeeps OS API shown" "localSame OS (\<lambda>w. (pending w, shown w))" using assms(2) by (simp_all add: lists_def)
  then have l: "localSame OS shown" by (simp add: localSame_def)
  have fl: "shown (snd (os_filler OS q w)) = shown w @ [q]" and cl: "shown (snd (rclCloseCollection API h w)) = shown w" for q h w
    using assms(2) by (simp_all add: lists_def)
  have loop: "wpo (readdir_loop OS API (Some a) p h t) (\<lambda>u. wpo (relIFuseConn OS (Some a) (u\<lparr>world := snd (rclCloseCollection API h (world u))\<rparr>)) (\<lambda>x. P (0, snd x)))"
    if t: "st {a} s t" "pending (world t) = entries coll" "shown (world t) = shown (world s) @ [''.'', ''..'']"
      and q: "parseRodsPathStr stk (tl p) (Some (MyRodsEnv s)) [] = Some (status, coll)" "\<not> status < 0" for a h t stk status coll
  proof (rule readdir_loop_shows [OF assms(2) s(2) _ t(1)])
    show "\<forall>e \<in> set (pending (world t)). asciiName (ce_dataName e) \<and> asciiName (ce_collName e)" using t(2) assms(6) by simp
    fix u assume u: "st {a} s u" "shown (world u) = shown (world t) @ concat (map entNames (pending (world t)))"
    show "wpo (relIFuseConn OS (Some a) (u\<lparr>world := snd (rclCloseCollection API h (world u))\<rparr>)) (\<lambda>x. P (0, snd x))"
      by (rule relConn_shows [OF k(1)]) (use u t q cl in \<open>auto simp: P_def intro!: exI\<close>)
  qed
  have opn: "wpo (openColl API (Some a) coll t) R"
    if held: "st {a} s t" and R: "\<And>r h w. 0 \<le> r \<Longrightarrow> pending w = entries coll \<Longrightarrow> shown w = shown (world t) \<Longrightarrow> R ((r, h), t\<lparr>world := w\<rparr>)" for a coll t R
  proof -
    obtain c where "connHeap t a = Some c" using st_held [OF held] by auto
    moreover have "R (fst (rclOpenCollection API (fcConn c) coll (world t)), t\<lparr>world := snd (rclOpenCollection API (fcConn c) coll (world t))\<rparr>)"
      using R [of "fst (fst (rclOpenCollection API (fcConn c) coll (world t)))"] assms(5) by (metis prod.collapse)
    ultimately show ?thesis using assms(5) [of "fcConn c" coll "world t"]
      by (simp add: openColl_def connField_def sys_def case_prod_beta not_less [symmetric])
  qed
  have rest: "wpo (getIFuseConn OS API t) (\<lambda>x. wpo (openColl API (snd (fst x)) coll (snd x)) (\<lambda>y.
      (fst (fst y) < 0 \<longrightarrow> wpo (relIFuseConn OS (snd (fst x)) (snd y)) (\<lambda>x. P (- ENOENT, snd x))) \<and>
      (\<not> fst (fst y) < 0 \<longrightarrow> wpo (readdir_loop OS API (snd (fst x)) p (snd (fst y)) (snd y)) (\<lambda>u.
         wpo (relIFuseConn OS (snd (fst x)) (u\<lparr>world := snd (rclCloseCollection API (snd (fst y)) (world u))\<rparr>)) (\<lambda>x. P (0, snd x))))))"
    if t: "st {} s t" "shown (world t) = shown (world s) @ [''.'', ''..'']"
      and q: "parseRodsPathStr stk (tl p) (Some (MyRodsEnv s)) [] = Some (status, coll)" "\<not> status < 0" for t stk status coll
    by (rule getConn_shows [OF k(1) assms(1) t(1)], simp only: fst_conv snd_conv, rule opn)
      (use t(2) loop [OF _ _ _ q] in auto)
  have "wpo (irodsReaddir OS API p s) P"
    unfolding irodsReaddir_def
    by (simp add: io_simps sys_def case_prod_beta, rule parse_shows [OF l s(1) assms(4)]) (use rest fl PI in auto)
  then obtain r s' where "irodsReaddir OS API p s = Some (r, s')" "P (r, s')" by (auto simp: wpo_def split: option.splits)
  then show ?thesis unfolding P_def by blast
qed


text \<open>A server with one collection of a file and a subcollection, and a system that records the names.\<close>

definition dirOS :: "('e list \<times> string list) os" where
  "dirOS = stillOS\<lparr>os_filler := \<lambda>n (es, ns). (0, (es, ns @ [n]))\<rparr>"

definition noEnt :: collEnt where
  "noEnt = \<lparr>ce_objType = RODS_UNKNOWN, ce_collName = [], ce_dataName = [], ce_dataMode = 0, ce_dataSize = 0, ce_createTime = [], ce_modifyTime = []\<rparr>"

definition dirEntries :: "collEnt list" where
  "dirEntries = [noEnt\<lparr>ce_objType := RODS_DATA_OBJ, ce_dataName := ''f''\<rparr>, noEnt\<lparr>ce_objType := RODS_COLL_OBJ, ce_collName := ''/z/home/u/a/d''\<rparr>]"

definition dirAPI :: "(collEnt list \<times> string list) irods" where
  "dirAPI = upAPI\<lparr>rclOpenCollection := \<lambda>_ _ (_, ns). ((0, 1), (dirEntries, ns)),
     rclReadCollection := \<lambda>_ _ (es, ns). (case es of [] \<Rightarrow> ((-1, noEnt), (es, ns)) | e # es \<Rightarrow> ((0, e), (es, ns)))\<rparr>"

theorem readdir_shows_collection_witness:
  "\<exists>r s' stk status coll. irodsReaddir dirOS dirAPI ''/a'' (fs_start ([], [])) = Some (r, s') \<and>
     parseRodsPathStr stk ''a'' (Some envU) [] = Some (status, coll) \<and>
     (if status < 0 then r = - ENOTDIR \<and> snd (world s') = [''.'', ''..'']
      else r = 0 \<and> snd (world s') = [''.'', ''..'', ''f'', ''d''])"
proof -
  have l: "lists dirOS dirAPI fst snd"
    by (auto simp: lists_def connKeeps_def localSame_def dirOS_def stillOS_def dirAPI_def upAPI_def split: list.splits)
  have names: "concat (map entNames dirEntries) = [''f'', ''d'']"
    by (simp add: dirEntries_def entNames_def noEnt_def splitPathByKey_def numeral_nat)
  let ?s0 = "fs_start ([], []) :: (collEnt list \<times> string list) fstate"
  have up: "server_up dirAPI" by (simp add: server_up_def dirAPI_def upAPI_def)
  have st0: "ifuse_ok {} (?s0)" "MyRodsEnv (?s0) = envU" "world (?s0) = ([], [])"
    by (simp_all add: ifuse_ok_def) (simp_all add: fs_start_def)
  have "\<exists>r s' stk status coll. irodsReaddir dirOS dirAPI ''/a'' (?s0) = Some (r, s') \<and>
     parseRodsPathStr stk (tl ''/a'') (Some (MyRodsEnv (?s0))) [] = Some (status, coll) \<and>
     (if status < 0 then r = - ENOTDIR \<and> snd (world s') = snd (world (?s0)) @ [''.'', ''..'']
      else r = 0 \<and> snd (world s') = snd (world (?s0)) @ [''.'', ''..''] @ concat (map entNames dirEntries))"
    by (rule readdir_shows_collection [OF up l st0(1) rodsPathOk_a, where entries = "\<lambda>_. dirEntries"])
      (auto simp: dirAPI_def dirEntries_def noEnt_def asciiName_def)
  then show ?thesis unfolding names st0 list.sel snd_conv append.simps by blast
qed

end
