(* ===== verification/Base64.thy ===== *)
theory Base64
  imports Fuse_Prelude
begin

text \<open>
  The base64 coder of \<open>lib/core/src/base64.c\<close>, with which binary fields are packed in the XML protocol.
  Buffers are lists of bytes of the size that is allocated; a read or a store outside them is \<open>None\<close>.
  Lengths and the accumulator of the decoder are \<open>unsigned long\<close>, 64 bits. The theory shows that decoding what was
  encoded gives back the bytes, for every size of input, and how far the stores of the decoder reach.
\<close>

unbundle bit_operations_syntax

section \<open>Operations\<close>

abbreviation (input) BASE64_BUFFER_OVERFLOW :: int where "BASE64_BUFFER_OVERFLOW \<equiv> -324000"
abbreviation (input) BASE64_INVALID_PACKET :: int where "BASE64_INVALID_PACKET \<equiv> -325000"

definition codes :: "8 word list" where
  "codes = map of_char ''ABCDEFGHIJKLMNOPQRSTUVWXYZabcdefghijklmnopqrstuvwxyz0123456789+/''"

definition mymap :: "8 word list" where
  "mymap = [
255, 255, 255, 255, 255, 255, 255, 255, 255, 255, 255, 255,
255, 255, 255, 255, 255, 255, 255, 255, 255, 255, 255, 255,
255, 255, 255, 255, 255, 255, 255, 255, 255, 255, 255, 255,
255, 255, 255, 255, 255, 255, 255,  62, 255, 255, 255,  63,
 52,  53,  54,  55,  56,  57,  58,  59,  60,  61, 255, 255,
255, 254, 255, 255, 255,   0,   1,   2,   3,   4,   5,   6,
  7,   8,   9,  10,  11,  12,  13,  14,  15,  16,  17,  18,
 19,  20,  21,  22,  23,  24,  25, 255, 255, 255, 255, 255,
255,  26,  27,  28,  29,  30,  31,  32,  33,  34,  35,  36,
 37,  38,  39,  40,  41,  42,  43,  44,  45,  46,  47,  48,
 49,  50,  51, 255, 255, 255, 255, 255, 255, 255, 255, 255,
255, 255, 255, 255, 255, 255, 255, 255, 255, 255, 255, 255,
255, 255, 255, 255, 255, 255, 255, 255, 255, 255, 255, 255,
255, 255, 255, 255, 255, 255, 255, 255, 255, 255, 255, 255,
255, 255, 255, 255, 255, 255, 255, 255, 255, 255, 255, 255,
255, 255, 255, 255, 255, 255, 255, 255, 255, 255, 255, 255,
255, 255, 255, 255, 255, 255, 255, 255, 255, 255, 255, 255,
255, 255, 255, 255, 255, 255, 255, 255, 255, 255, 255, 255,
255, 255, 255, 255, 255, 255, 255, 255, 255, 255, 255, 255,
255, 255, 255, 255, 255, 255, 255, 255, 255, 255, 255, 255,
255, 255, 255, 255, 255, 255, 255, 255, 255, 255, 255, 255,
255, 255, 255, 255 ]"

definition pad :: "8 word" where
  "pad = of_char CHR ''=''"

text \<open>A byte in an expression is promoted to \<open>int\<close>; the code of a number is taken modulo 64.\<close>

abbreviation (input) promote :: "8 word \<Rightarrow> 32 word" where "promote \<equiv> ucast"

definition code_of :: "32 word \<Rightarrow> 8 word" where
  "code_of k = codes ! unat (k AND 0x3F)"

text \<open>The loop over whole groups of three bytes; \<open>src\<close> is the content of the input buffer, \<open>inp\<close> and \<open>p\<close>
  are the positions of the pointers \<open>in\<close> and \<open>p\<close>.\<close>

partial_function (option) encode_loop ::
  "8 word list \<Rightarrow> 64 word \<Rightarrow> 64 word \<Rightarrow> nat \<Rightarrow> nat \<Rightarrow> 8 word list \<Rightarrow> (64 word \<times> nat \<times> nat \<times> 8 word list) option" where
  "encode_loop src leven i inp p out =
     (if i < leven then do {
        in0 \<leftarrow> load src inp;
        in1 \<leftarrow> load src (inp + 1);
        in2 \<leftarrow> load src (inp + 2);
        out \<leftarrow> store p (code_of (drop_bit 2 (promote in0))) out;
        out \<leftarrow> store (p + 1) (code_of (push_bit 4 (promote in0 AND 3) + drop_bit 4 (promote in1))) out;
        out \<leftarrow> store (p + 2) (code_of (push_bit 2 (promote in1 AND 0xf) + drop_bit 6 (promote in2))) out;
        out \<leftarrow> store (p + 3) (code_of (promote in2)) out;
        encode_loop src leven (i + 3) (inp + 3) (p + 4) out
      }
      else Some (i, inp, p, out))"

text \<open>Padding of the last one or two bytes.\<close>

definition encode_rest ::
  "8 word list \<Rightarrow> 64 word \<Rightarrow> 64 word \<Rightarrow> nat \<Rightarrow> nat \<Rightarrow> 8 word list \<Rightarrow> (nat \<times> 8 word list) option" where
  "encode_rest src inlen i inp p out =
     (if i < inlen then do {
        in0 \<leftarrow> load src inp;
        in1 \<leftarrow> (if i + 1 < inlen then load src (inp + 1) else Some 0);
        out \<leftarrow> store p (code_of (drop_bit 2 (promote in0))) out;
        out \<leftarrow> store (p + 1) (code_of (push_bit 4 (promote in0 AND 3) + drop_bit 4 (promote in1))) out;
        out \<leftarrow> store (p + 2) (if i + 1 < inlen then code_of (push_bit 2 (promote in1 AND 0xf)) else pad) out;
        out \<leftarrow> store (p + 3) pad out;
        Some (p + 4, out)
      }
      else Some (p, out))"

text \<open>Status, content of the output buffer and \<open>*outlen\<close> afterwards.\<close>

definition base64_encode ::
  "8 word list \<Rightarrow> 64 word \<Rightarrow> 8 word list \<Rightarrow> 64 word \<Rightarrow> (int \<times> 8 word list \<times> 64 word) option" where
  "base64_encode src inlen out outlen =
     (let len2 = 4 * ((inlen + 2) div 3) in
      if outlen < len2 + 1 then Some (BASE64_BUFFER_OVERFLOW, out, outlen)
      else do {
        let leven = 3 * (inlen div 3);
        (i, inp, p, out) \<leftarrow> encode_loop src leven 0 0 0 out;
        (p, out) \<leftarrow> encode_rest src inlen i inp p out;
        out \<leftarrow> store p 0 out;
        Some (0, out, of_nat p)
      })"

record decoder =
  dec_t :: "64 word"
  dec_y :: "64 word"
  dec_z :: "64 word"
  dec_g :: int
  dec_out :: "8 word list"

text \<open>The stores of a complete group of four characters.\<close>

definition decode_group :: "64 word \<Rightarrow> decoder \<Rightarrow> (int option \<times> decoder) option" where
  "decode_group outlen d =
     (if dec_z d + of_int (dec_g d) > outlen then Some (Some BASE64_BUFFER_OVERFLOW, d)
      else do {
        let t = dec_t d;
        let g = dec_g d;
        let z = dec_z d;
        out \<leftarrow> store (unat z) (ucast (drop_bit 16 t AND 255)) (dec_out d);
        let z = z + 1;
        (z, out) \<leftarrow> (if g > 1 then do { out \<leftarrow> store (unat z) (ucast (drop_bit 8 t AND 255)) out; Some (z + 1, out) }
                     else Some (z, out));
        (z, out) \<leftarrow> (if g > 2 then do { out \<leftarrow> store (unat z) (ucast (t AND 255)) out; Some (z + 1, out) }
                     else Some (z, out));
        Some (None, d\<lparr>dec_t := 0, dec_y := 0, dec_z := z, dec_out := out\<rparr>)
      })"

text \<open>One character with its number \<open>c\<close>; the first component is the status when the function returns.\<close>

definition decode_char :: "64 word \<Rightarrow> 8 word \<Rightarrow> decoder \<Rightarrow> (int option \<times> decoder) option" where
  "decode_char outlen c d =
     (if c = 255 then Some (None, d)
      else
        let g = (if c = 254 then dec_g d - 1 else dec_g d) in
        if c = 254 \<and> g < 0 then Some (Some BASE64_INVALID_PACKET, d\<lparr>dec_g := g\<rparr>)
        else if c \<noteq> 254 \<and> g \<noteq> 3 then Some (Some BASE64_INVALID_PACKET, d)
        else
          let v = (if c = 254 then 0 else c);
              d = d\<lparr>dec_g := g, dec_t := push_bit 6 (dec_t d) OR ucast v, dec_y := dec_y d + 1\<rparr> in
          if dec_y d = 4 then decode_group outlen d else Some (None, d))"

lemma word_step:
  fixes x :: "64 word"
  assumes "x < b"
  shows "unat (x + 1) = Suc (unat x)"
proof -
  have "1 + x \<noteq> 0"
    using assms word_n1_ge [of b] by (auto simp: add_eq_0_iff)
  then show ?thesis
    by (simp add: unatSuc add.commute)
qed

lemma word_step_measure:
  fixes x :: "64 word"
  shows "x < b \<Longrightarrow> unat b - unat (x + 1) < unat b - unat x"
  by (auto simp: word_step word_less_nat_alt)

function decode_loop ::
  "8 word list \<Rightarrow> 64 word \<Rightarrow> 64 word \<Rightarrow> 64 word \<Rightarrow> decoder \<Rightarrow> (int option \<times> decoder) option" where
  "decode_loop src inlen outlen x d =
     (if x < inlen then do {
        b \<leftarrow> load src (unat x);
        (r, d) \<leftarrow> decode_char outlen (mymap ! unat (b AND 0xFF)) d;
        case r of Some status \<Rightarrow> Some (Some status, d)
        | None \<Rightarrow> decode_loop src inlen outlen (x + 1) d
      }
      else Some (None, d))"
  by pat_completeness auto
termination
  by (relation "measure (\<lambda>(src, inlen, outlen, x, d). unat inlen - unat x)")
    (auto intro: word_step_measure)

declare decode_loop.simps [simp del]

definition base64_decode ::
  "8 word list \<Rightarrow> 64 word \<Rightarrow> 8 word list \<Rightarrow> 64 word \<Rightarrow> (int \<times> 8 word list \<times> 64 word) option" where
  "base64_decode src inlen out outlen = do {
     (r, d) \<leftarrow> decode_loop src inlen outlen 0 \<lparr>dec_t = 0, dec_y = 0, dec_z = 0, dec_g = 3, dec_out = out\<rparr>;
     case r of Some status \<Rightarrow> Some (status, dec_out d, outlen)
     | None \<Rightarrow>
       if dec_y d \<noteq> 0 then Some (BASE64_INVALID_PACKET, dec_out d, outlen)
       else Some (0, dec_out d, dec_z d)
   }"

section \<open>The tables and the bits of a group\<close>

lemma codes_mymap: "k < 64 \<Longrightarrow> mymap ! unat (codes ! k) = of_nat k"
proof -
  have "list_all (\<lambda>k. mymap ! unat (codes ! k) = of_nat k) [0..<64]" by code_simp
  then show "k < 64 \<Longrightarrow> mymap ! unat (codes ! k) = of_nat k" by (simp add: list_all_iff)
qed

lemma and_masks:
  "x AND 3 = take_bit 2 (x :: 32 word)" "x AND 0xf = take_bit 4 (x :: 32 word)"
  "x AND 0x3F = take_bit 6 (x :: 32 word)" "(y :: 64 word) AND 255 = take_bit 8 y"
  by (simp_all add: take_bit_eq_mask mask_numeral)

lemma unat_sextet: "unat (k AND 0x3F :: 32 word) < 64"
proof -
  have "unat (take_bit 6 k) < 2 ^ 6"
    by (simp add: unsigned_take_bit_eq take_bit_nat_less_exp [of 6 "unat k", simplified])
  then show ?thesis by (simp add: and_masks)
qed

lemma mymap_code_of: "mymap ! unat (code_of k) = ucast (k AND 0x3F)"
  using codes_mymap [OF unat_sextet [of k]] by (simp add: code_of_def)

lemma sextet_add:
  fixes a b :: "8 word"
  shows "push_bit 4 (take_bit 2 (promote a)) + drop_bit 4 (promote b) = push_bit 4 (take_bit 2 (promote a)) OR drop_bit 4 (promote b)"
    "push_bit 2 (take_bit 4 (promote a)) + drop_bit 6 (promote b) = push_bit 2 (take_bit 4 (promote a)) OR drop_bit 6 (promote b)"
  by (rule disjunctive_add; auto simp: bit_simps dest: bit_imp_le_length)+

lemma byte_eqI:
  assumes "bit a 0 = bit b 0" "bit a 1 = bit b 1" "bit a 2 = bit b 2" "bit a 3 = bit b 3"
    "bit a 4 = bit b 4" "bit a 5 = bit b 5" "bit a 6 = bit b 6" "bit a 7 = bit b 7"
  shows "a = (b :: 8 word)"
proof (rule bit_word_eqI)
  fix n assume "n < LENGTH(8)"
  then consider "n = 0" | "n = 1" | "n = 2" | "n = 3" | "n = 4" | "n = 5" | "n = 6" | "n = 7" by fastforce
  then show "bit a n = bit b n" by cases (simp_all only: assms)
qed

lemma byte_high: "8 \<le> n \<Longrightarrow> \<not> bit (a :: 8 word) n"
  using bit_imp_le_length [of a n] by auto

definition shift6 :: "64 word \<Rightarrow> 64 word \<Rightarrow> 64 word" where
  "shift6 t v = push_bit 6 t OR v"

definition group4 :: "64 word \<Rightarrow> 64 word \<Rightarrow> 64 word \<Rightarrow> 64 word \<Rightarrow> 64 word" where
  "group4 p q r s = shift6 (shift6 (shift6 (shift6 0 p) q) r) s"

lemma group4_bytes:
  fixes a b c :: "8 word"
  defines "t \<equiv> group4 (ucast (ucast (drop_bit 2 (promote a) AND 0x3F) :: 8 word))
     (ucast (ucast ((push_bit 4 (promote a AND 3) + drop_bit 4 (promote b)) AND 0x3F) :: 8 word))
     (ucast (ucast ((push_bit 2 (promote b AND 0xf) + drop_bit 6 (promote c)) AND 0x3F) :: 8 word))
     (ucast (ucast (promote c AND 0x3F) :: 8 word))"
  shows "ucast (drop_bit 16 t AND 255) = a" "ucast (drop_bit 8 t AND 255) = b" "ucast (t AND 255) = c"
  unfolding t_def sextet_add and_masks group4_def shift6_def
  by (rule byte_eqI; simp add: bit_simps sextet_add byte_high)+

section \<open>Encoding\<close>

text \<open>The encoding as a function on lists (RFC 4648).\<close>

fun b64 :: "8 word list \<Rightarrow> 8 word list" where
  "b64 [] = []"
| "b64 [a] = [code_of (drop_bit 2 (promote a)), code_of (push_bit 4 (promote a AND 3) + drop_bit 4 (promote 0)), pad, pad]"
| "b64 [a, b] = [code_of (drop_bit 2 (promote a)), code_of (push_bit 4 (promote a AND 3) + drop_bit 4 (promote b)),
     code_of (push_bit 2 (promote b AND 0xf)), pad]"
| "b64 (a # b # c # xs) = code_of (drop_bit 2 (promote a)) # code_of (push_bit 4 (promote a AND 3) + drop_bit 4 (promote b)) #
     code_of (push_bit 2 (promote b AND 0xf) + drop_bit 6 (promote c)) # code_of (promote c) # b64 xs"

lemma length_b64: "length (b64 xs) = 4 * ((length xs + 2) div 3)"
proof (induction xs rule: b64.induct)
  case (4 a b c xs)
  have "(5 + length xs) div 3 = Suc ((2 + length xs) div 3)" by presburger
  with 4 show ?case by simp
qed auto

lemma b64_append: "length xs mod 3 = 0 \<Longrightarrow> b64 (xs @ ys) = b64 xs @ b64 ys"
  by (induction xs rule: b64.induct) auto

lemma nat_plus: "n + 2 = Suc (Suc n)" "n + 3 = Suc (Suc (Suc n))" "n + 4 = Suc (Suc (Suc (Suc n)))"
  by simp_all

lemma load_at3:
  "load (xs @ a # ys) (length xs) = Some a"
  "load (xs @ a # b # ys) (Suc (length xs)) = Some b"
  "load (xs @ a # b # c # ys) (Suc (Suc (length xs))) = Some c"
  using load_at [of "xs @ [a]" _ b] load_at [of "xs @ [a, b]" _ c] by (simp_all add: load_at)

lemma store_at4:
  "store (length xs) v (xs @ a # ys) = Some (xs @ v # ys)"
  "store (Suc (length xs)) v (xs @ a # b # ys) = Some (xs @ a # v # ys)"
  "store (Suc (Suc (length xs))) v (xs @ a # b # c # ys) = Some (xs @ a # b # v # ys)"
  "store (Suc (Suc (Suc (length xs)))) v (xs @ a # b # c # d # ys) = Some (xs @ a # b # c # v # ys)"
  using store_at [of "xs @ [a]" _ v b] store_at [of "xs @ [a, b]" _ v c] store_at [of "xs @ [a, b, c]" _ v d]
  by (simp_all add: store_at)

lemma unat_of_nat64 [simp]: "n < 2 ^ 64 \<Longrightarrow> unat (of_nat n :: 64 word) = n"
  by (simp add: unsigned_of_nat take_bit_nat_eq_self)

lemma unat_less64 [simp]: "unat (w :: 64 word) < 2 ^ 64"
  using unsigned_less [of w] by simp

lemma of_nat_less64: "m < 2 ^ 64 \<Longrightarrow> n < 2 ^ 64 \<Longrightarrow> (of_nat m :: 64 word) < of_nat n \<longleftrightarrow> m < n"
  by (simp add: word_less_nat_alt)

lemma encode_loop_step:
  assumes "i < leven"
  shows "encode_loop (pre @ a # b # c # ys) leven i (length pre) (length opre) (opre @ e0 # e1 # e2 # e3 # os) =
    encode_loop (pre @ a # b # c # ys) leven (3 + i) (Suc (Suc (Suc (length pre)))) (Suc (Suc (Suc (Suc (length opre)))))
      (opre @ take 4 (b64 [a, b, c]) @ os)"
  by (subst encode_loop.simps) (simp add: assms load_at3 store_at4 nat_plus add.commute [of 3 i])

lemma encode_loop_b64:
  assumes "length xs mod 3 = 0" "length pre + length xs < 2 ^ 64" "length mid = length (b64 xs)"
  shows "encode_loop (pre @ xs @ rest) (of_nat (length pre + length xs)) (of_nat (length pre)) (length pre) (length opre)
      (opre @ mid @ osuf) =
    Some (of_nat (length pre + length xs), length pre + length xs, length opre + length (b64 xs), opre @ b64 xs @ osuf)"
  using assms
proof (induction xs arbitrary: pre opre mid rule: b64.induct)
  case 1
  then show ?case by (subst encode_loop.simps) simp
next
  case (4 a b c xs)
  from 4(4) obtain e0 e1 e2 e3 mid' where mid: "mid = e0 # e1 # e2 # e3 # mid'" "length mid' = length (b64 xs)"
    by (auto simp: length_Suc_conv)
  have less: "(of_nat (length pre) :: 64 word) < of_nat (length pre + length (a # b # c # xs))"
    using 4(3) by (subst of_nat_less64) auto
  let ?p = "pre @ [a, b, c]" and ?o = "opre @ take 4 (b64 [a, b, c])"
  have "encode_loop (?p @ xs @ rest) (of_nat (length ?p + length xs)) (of_nat (length ?p)) (length ?p) (length ?o)
      (?o @ mid' @ osuf) =
    Some (of_nat (length ?p + length xs), length ?p + length xs, length ?o + length (b64 xs), ?o @ b64 xs @ osuf)"
    using 4(2,3) mid by (intro 4(1)) auto
  then show ?case
    using less encode_loop_step [of "of_nat (length pre)" _ pre a b c "xs @ rest" opre e0 e1 e2 e3 "mid' @ osuf"] mid by simp
qed simp_all

lemma encode_rest_b64:
  assumes "length xs < 3" "length pre + length xs < 2 ^ 64" "length mid = length (b64 xs)"
  shows "encode_rest (pre @ xs @ rest) (of_nat (length pre + length xs)) (of_nat (length pre)) (length pre) (length opre)
      (opre @ mid @ osuf) = Some (length opre + length (b64 xs), opre @ b64 xs @ osuf)"
proof -
  have less: "(of_nat (length pre) :: 64 word) < of_nat (length pre + n) \<longleftrightarrow> 0 < n" if "n \<le> length xs" for n
    using that assms(2) by (subst of_nat_less64) auto
  have less1: "(of_nat (Suc (length pre)) :: 64 word) < of_nat (length pre + n) \<longleftrightarrow> 1 < n" if "0 < n" "n \<le> length xs" for n
    using that assms(2) by (subst of_nat_less64) auto
  from assms(1) consider "xs = []" | a where "xs = [a]" | a b where "xs = [a, b]"
    by (cases xs rule: b64.cases) auto
  then show ?thesis
  proof cases
    case 1
    with less [of 0] assms(3) show ?thesis by (simp add: encode_rest_def)
  next
    case (2 a)
    with assms(3) obtain e0 e1 e2 e3 where "mid = [e0, e1, e2, e3]"
      by (auto simp: length_Suc_conv)
    with 2 less [of 1] less1 [of 1] show ?thesis by (simp add: encode_rest_def load_at3 store_at4 nat_plus add.commute)
  next
    case (3 a b)
    with assms(3) obtain e0 e1 e2 e3 where "mid = [e0, e1, e2, e3]"
      by (auto simp: length_Suc_conv)
    with 3 less [of 2] less1 [of 2] show ?thesis by (simp add: encode_rest_def load_at3 store_at4 nat_plus add.commute)
  qed
qed

lemma base64_encode_b64:
  assumes "length (b64 src) < unat outlen" "unat outlen \<le> length out"
  shows "base64_encode (src @ rest) (of_nat (length src)) out outlen =
    Some (0, b64 src @ 0 # drop (Suc (length (b64 src))) out, of_nat (length (b64 src)))"
proof -
  define n where "n = length src"
  define k where "k = 3 * (n div 3)"
  define L where "L = length (b64 src)"
  have L: "L = 4 * ((n + 2) div 3)"
    by (simp add: L_def n_def length_b64)
  have lt: "L < 2 ^ 64" "n + 2 < 2 ^ 64"
    using assms(1) L unat_less64 [of outlen] by (simp_all add: L_def)
  have len2: "4 * (((of_nat n :: 64 word) + 2) div 3) = of_nat L"
    by (subst word_unat_eq_iff) (use lt L in \<open>simp add: unat_word_ariths unat_div_distrib\<close>)
  have leven: "3 * ((of_nat n :: 64 word) div 3) = of_nat k"
    by (subst word_unat_eq_iff) (use lt L k_def in \<open>simp add: unat_word_ariths unat_div_distrib\<close>)
  define A B where "A = take k src" and "B = drop k src"
  have AB: "src = A @ B" "length A = k" "length B < 3" "length A mod 3 = 0" "k + length B = n"
    by (auto simp: A_def B_def k_def n_def)
  have b64: "b64 src = b64 A @ b64 B"
    using AB by (simp add: b64_append)
  define m where "m = length (b64 A)"
  have src: "A @ B @ rest = src @ rest"
    by (simp add: AB(1))
  have "encode_loop (src @ rest) (of_nat k) 0 0 0 out = Some (of_nat k, k, m, b64 A @ drop m out)"
    using encode_loop_b64 [of A "[]" "take m out" "B @ rest" "[]" "drop m out"] AB(2-5) src lt assms b64
    by (simp add: m_def)
  moreover have split: "take (L - m) (drop m out) @ drop L out = drop m out"
    using b64 append_take_drop_id [of "L - m" "drop m out"] by (simp add: L_def m_def add.commute)
  have lens: "length (take (L - m) (drop m out)) = length (b64 B)" "m + length (b64 B) = L"
    using assms b64 by (simp_all add: L_def m_def)
  have "encode_rest (A @ B @ rest) (of_nat (length A + length B)) (of_nat (length A)) (length A) (length (b64 A))
      (b64 A @ take (L - m) (drop m out) @ drop L out) = Some (length (b64 A) + length (b64 B), b64 A @ b64 B @ drop L out)"
    by (rule encode_rest_b64) (use AB lt lens(1) in auto)
  then have "encode_rest (src @ rest) (of_nat n) (of_nat k) k m (b64 A @ drop m out) = Some (L, b64 src @ drop L out)"
    by (simp only: src split AB(2,5) lens(2) b64 append_assoc flip: m_def)
  moreover have "store L 0 (b64 src @ drop L out) = Some (b64 src @ 0 # drop (Suc L) out)"
    using assms store_at [of "b64 src" L 0 "out ! L" "drop (Suc L) out"] by (simp add: L_def Cons_nth_drop_Suc)
  moreover have "\<not> outlen < of_nat L + 1"
    using assms(1) unat_less64 [of outlen] unat_of_nat64 [of "Suc L"] by (simp add: word_less_nat_alt L_def add.commute)
  ultimately show ?thesis
    by (simp add: base64_encode_def len2 leven flip: n_def L_def)
qed

section \<open>Decoding\<close>

lemma sextet_small: "(ucast (k AND 0x3F :: 32 word) :: 8 word) \<noteq> 255" "(ucast (k AND 0x3F :: 32 word) :: 8 word) \<noteq> 254"
proof -
  have "unat (ucast (k AND 0x3F) :: 8 word) < 64"
    using unat_sextet [of k] by (simp add: unsigned_ucast_eq take_bit_nat_eq_self)
  then show "(ucast (k AND 0x3F) :: 8 word) \<noteq> 255" "(ucast (k AND 0x3F) :: 8 word) \<noteq> 254" by auto
qed

lemma mymap_pad: "mymap ! unat pad = 254"
  by code_simp

lemma decode_loop_at:
  assumes "length pre < unat inlen"
  shows "decode_loop (pre @ b # ys) inlen outlen (of_nat (length pre)) d =
    do { (r, d) \<leftarrow> decode_char outlen (mymap ! unat b) d;
         case r of Some status \<Rightarrow> Some (Some status, d)
         | None \<Rightarrow> decode_loop (pre @ b # ys) inlen outlen (of_nat (length (pre @ [b]))) d }"
proof -
  have "length pre < 2 ^ 64"
    using assms unat_less64 [of inlen] by simp
  moreover from this have "of_nat (length pre) < inlen"
    using assms by (simp add: word_less_nat_alt)
  moreover have "b AND 0xFF = b"
    by (rule byte_eqI; simp add: bit_simps)
  moreover have eq: "(of_nat (length (pre @ [b])) :: 64 word) = of_nat (length pre) + 1"
    by simp
  ultimately show ?thesis
    unfolding eq by (subst decode_loop.simps) (simp add: load_at)
qed

lemma decode_char_code:
  assumes "dec_g d = 3"
  shows "decode_char outlen (ucast (k AND 0x3F :: 32 word)) d =
    (let d = d\<lparr>dec_t := push_bit 6 (dec_t d) OR ucast (ucast (k AND 0x3F) :: 8 word), dec_y := dec_y d + 1\<rparr> in
     if dec_y d = 4 then decode_group outlen d else Some (None, d))"
  using assms sextet_small [of k] by (cases d) (simp add: decode_char_def)

lemma decode_char_pad:
  assumes "0 < dec_g d"
  shows "decode_char outlen 254 d =
    (let d = d\<lparr>dec_g := dec_g d - 1, dec_t := push_bit 6 (dec_t d), dec_y := dec_y d + 1\<rparr> in
     if dec_y d = 4 then decode_group outlen d else Some (None, d))"
  using assms by (cases d) (simp add: decode_char_def)

lemma decode_four:
  assumes "length pre + 4 \<le> unat inlen"
    and "decode_char outlen (mymap ! unat b0) d0 = Some (None, d1)" "decode_char outlen (mymap ! unat b1) d1 = Some (None, d2)"
    and "decode_char outlen (mymap ! unat b2) d2 = Some (None, d3)" "decode_char outlen (mymap ! unat b3) d3 = Some (None, d4)"
  shows "decode_loop (pre @ b0 # b1 # b2 # b3 # ys) inlen outlen (of_nat (length pre)) d0 =
    decode_loop (pre @ b0 # b1 # b2 # b3 # ys) inlen outlen (of_nat (length (pre @ [b0, b1, b2, b3]))) d4"
  using assms decode_loop_at [of pre inlen b0] decode_loop_at [of "pre @ [b0]" inlen b1]
    decode_loop_at [of "pre @ [b0, b1]" inlen b2] decode_loop_at [of "pre @ [b0, b1, b2]" inlen b3]
  by simp

text \<open>The stores of a group: as many bytes as the padding leaves.\<close>

lemma decode_group_stores:
  assumes "length dpre + nat g \<le> unat outlen" "0 < g" "g \<le> 3" "length mid = nat g"
  shows "decode_group outlen \<lparr>dec_t = t, dec_y = y, dec_z = of_nat (length dpre), dec_g = g, dec_out = dpre @ mid @ ds\<rparr> =
    Some (None, \<lparr>dec_t = 0, dec_y = 0, dec_z = of_nat (length dpre + nat g), dec_g = g,
      dec_out = dpre @ take (nat g) [ucast (drop_bit 16 t AND 255), ucast (drop_bit 8 t AND 255), ucast (t AND 255)] @ ds\<rparr>)"
proof -
  have lt: "length dpre + nat g < 2 ^ 64"
    using assms(1) unat_less64 [of outlen] by linarith
  have z: "(of_nat (length dpre) + of_int g :: 64 word) = of_nat (length dpre + nat g)"
    using assms(2) by simp
  have nover: "\<not> outlen < of_nat (length dpre + nat g)"
    using assms(1) lt by (simp only: word_less_nat_alt unat_of_nat64 not_less)
  have un0: "unat (of_nat (length dpre) :: 64 word) = length dpre"
    using lt by simp
  have un: "unat (of_nat (length dpre) + 1 :: 64 word) = Suc (length dpre)" if "1 < g"
    using lt that unat_of_nat64 [of "Suc (length dpre)"] by (simp add: add.commute)
  have un2: "unat (of_nat (length dpre) + 2 :: 64 word) = Suc (Suc (length dpre))" if "2 < g"
    using lt that unat_of_nat64 [of "Suc (Suc (length dpre))"] by (simp add: add.commute)
  from assms(2,3) consider "g = 1" | "g = 2" | "g = 3" by linarith
  then show ?thesis
  proof cases
    case 1
    with assms(4) obtain m0 where "mid = [m0]" by (auto simp: length_Suc_conv)
    with 1 nover z un0 show ?thesis by (simp add: decode_group_def store_at4 add.commute)
  next
    case 2
    with assms(4) obtain m0 m1 where "mid = [m0, m1]" by (auto simp: length_Suc_conv numeral_2_eq_2)
    with 2 nover z un0 un show ?thesis by (simp add: decode_group_def store_at4 add.commute)
  next
    case 3
    with assms(4) obtain m0 m1 m2 where "mid = [m0, m1, m2]" by (auto simp: length_Suc_conv numeral_3_eq_3)
    with 3 nover z un0 un un2 show ?thesis by (simp add: decode_group_def store_at4 add.commute)
  qed
qed

abbreviation (input) sextet :: "32 word \<Rightarrow> 64 word" where "sextet k \<equiv> ucast (ucast (k AND 0x3F) :: 8 word)"

lemma decode_loop_end: "unat inlen \<le> n \<Longrightarrow> n < 2 ^ 64 \<Longrightarrow> decode_loop src inlen outlen (of_nat n) d = Some (None, d)"
  by (subst decode_loop.simps) (simp add: word_less_nat_alt)

lemma decode_code_char:
  "decode_char outlen (mymap ! unat (code_of k)) \<lparr>dec_t = t, dec_y = y, dec_z = z, dec_g = 3, dec_out = buf\<rparr> =
    (if y + 1 = 4 then decode_group outlen \<lparr>dec_t = shift6 t (sextet k), dec_y = 4, dec_z = z, dec_g = 3, dec_out = buf\<rparr>
     else Some (None, \<lparr>dec_t = shift6 t (sextet k), dec_y = y + 1, dec_z = z, dec_g = 3, dec_out = buf\<rparr>))"
  by (simp add: mymap_code_of decode_char_code Let_def shift6_def)

lemma decode_pad_char:
  "0 < g \<Longrightarrow> decode_char outlen (mymap ! unat pad) \<lparr>dec_t = t, dec_y = y, dec_z = z, dec_g = g, dec_out = buf\<rparr> =
    (if y + 1 = 4 then decode_group outlen \<lparr>dec_t = shift6 t (0), dec_y = 4, dec_z = z, dec_g = g - 1, dec_out = buf\<rparr>
     else Some (None, \<lparr>dec_t = shift6 t (0), dec_y = y + 1, dec_z = z, dec_g = g - 1, dec_out = buf\<rparr>))"
  unfolding mymap_pad by (simp add: decode_char_pad Let_def shift6_def)

text \<open>Decoding four characters with no, one or two characters of padding.\<close>

lemma decode_quads:
  fixes z :: "64 word" and buf :: "8 word list"
  assumes "length pre + 4 \<le> unat inlen"
  defines "D \<equiv> \<lambda>t y g. \<lparr>dec_t = t, dec_y = y, dec_z = z, dec_g = g, dec_out = buf\<rparr>"
  shows "decode_group outlen (D (group4 (sextet k0) (sextet k1) (sextet k2) (sextet k3)) 4 3) = Some (None, d4) \<Longrightarrow>
      decode_loop (pre @ code_of k0 # code_of k1 # code_of k2 # code_of k3 # ys) inlen outlen (of_nat (length pre)) (D 0 0 3) =
      decode_loop (pre @ code_of k0 # code_of k1 # code_of k2 # code_of k3 # ys) inlen outlen (4 + of_nat (length pre)) d4"
    and "decode_group outlen (D (group4 (sextet k0) (sextet k1) (sextet k2) 0) 4 2) = Some (None, d4) \<Longrightarrow>
      decode_loop (pre @ code_of k0 # code_of k1 # code_of k2 # pad # ys) inlen outlen (of_nat (length pre)) (D 0 0 3) =
      decode_loop (pre @ code_of k0 # code_of k1 # code_of k2 # pad # ys) inlen outlen (4 + of_nat (length pre)) d4"
    and "decode_group outlen (D (group4 (sextet k0) (sextet k1) 0 0) 4 1) = Some (None, d4) \<Longrightarrow>
      decode_loop (pre @ code_of k0 # code_of k1 # pad # pad # ys) inlen outlen (of_nat (length pre)) (D 0 0 3) =
      decode_loop (pre @ code_of k0 # code_of k1 # pad # pad # ys) inlen outlen (4 + of_nat (length pre)) d4"
proof -
  have c0: "decode_char outlen (mymap ! unat (code_of k0)) (D 0 0 3) = Some (None, D (shift6 0 (sextet k0)) 1 3)"
    unfolding D_def by (simp add: decode_code_char)
  have c1: "decode_char outlen (mymap ! unat (code_of k1)) (D t 1 3) = Some (None, D (shift6 t (sextet k1)) 2 3)" for t
    unfolding D_def by (simp add: decode_code_char)
  have c2: "decode_char outlen (mymap ! unat (code_of k2)) (D t 2 3) = Some (None, D (shift6 t (sextet k2)) 3 3)" for t
    unfolding D_def by (simp add: decode_code_char)
  have c3: "decode_char outlen (mymap ! unat (code_of k3)) (D t 3 3) = decode_group outlen (D (shift6 t (sextet k3)) 4 3)" for t
    unfolding D_def by (simp add: decode_code_char)
  have p2: "decode_char outlen (mymap ! unat pad) (D t 2 3) = Some (None, D (shift6 t (0)) 3 2)" for t
    unfolding D_def by (simp add: decode_pad_char)
  have p3: "decode_char outlen (mymap ! unat pad) (D t 3 g) = decode_group outlen (D (shift6 t (0)) 4 (g - 1))" if "0 < g" for t g
    using that unfolding D_def by (simp add: decode_pad_char)
  note quad = decode_four [OF assms(1) c0 c1]
  { assume "decode_group outlen (D (group4 (sextet k0) (sextet k1) (sextet k2) (sextet k3)) 4 3) = Some (None, d4)"
    then show "decode_loop (pre @ code_of k0 # code_of k1 # code_of k2 # code_of k3 # ys) inlen outlen (of_nat (length pre)) (D 0 0 3) =
      decode_loop (pre @ code_of k0 # code_of k1 # code_of k2 # code_of k3 # ys) inlen outlen (4 + of_nat (length pre)) d4"
      using quad [OF c2, of "code_of k3" d4 ys] by (simp add: c3 group4_def) }
  { assume "decode_group outlen (D (group4 (sextet k0) (sextet k1) (sextet k2) 0) 4 2) = Some (None, d4)"
    then show "decode_loop (pre @ code_of k0 # code_of k1 # code_of k2 # pad # ys) inlen outlen (of_nat (length pre)) (D 0 0 3) =
      decode_loop (pre @ code_of k0 # code_of k1 # code_of k2 # pad # ys) inlen outlen (4 + of_nat (length pre)) d4"
      using quad [OF c2, of pad d4 ys] by (simp add: p3 group4_def) }
  { assume "decode_group outlen (D (group4 (sextet k0) (sextet k1) 0 0) 4 1) = Some (None, d4)"
    then show "decode_loop (pre @ code_of k0 # code_of k1 # pad # pad # ys) inlen outlen (of_nat (length pre)) (D 0 0 3) =
      decode_loop (pre @ code_of k0 # code_of k1 # pad # pad # ys) inlen outlen (4 + of_nat (length pre)) d4"
      using quad [OF p2, of pad d4 ys] by (simp add: p3 group4_def) }
qed

lemma group4_two: "ucast (drop_bit 16 (group4 (sextet (drop_bit 2 (promote a)))
    (sextet (push_bit 4 (promote a AND 3) + drop_bit 4 (promote b))) (sextet (push_bit 2 (promote b AND 0xf))) 0) AND 255) = a"
  "ucast (drop_bit 8 (group4 (sextet (drop_bit 2 (promote a)))
    (sextet (push_bit 4 (promote a AND 3) + drop_bit 4 (promote b))) (sextet (push_bit 2 (promote b AND 0xf))) 0) AND 255) = b"
  using group4_bytes(1,2) [of a b 0] by simp_all

lemma group4_one: "ucast (drop_bit 16 (group4 (sextet (drop_bit 2 (promote a)))
    (sextet (push_bit 4 (promote a AND 3) + drop_bit 4 (promote 0))) 0 0) AND 255) = a"
  using group4_bytes(1) [of a 0 0] by simp

lemma decode_loop_b64:
  assumes "length epre + length (b64 xs) = unat inlen" "length dpre + length xs \<le> unat outlen" "length mid = length xs"
  shows "\<exists>g. decode_loop (epre @ b64 xs @ rest) inlen outlen (of_nat (length epre))
      \<lparr>dec_t = 0, dec_y = 0, dec_z = of_nat (length dpre), dec_g = 3, dec_out = dpre @ mid @ ds\<rparr> =
    Some (None, \<lparr>dec_t = 0, dec_y = 0, dec_z = of_nat (length dpre + length xs), dec_g = g, dec_out = dpre @ xs @ ds\<rparr>)"
  using assms
proof (induction xs arbitrary: epre dpre mid rule: b64.induct)
  case 1
  then show ?case by (simp add: decode_loop.simps [of _ inlen _ inlen])
next
  case (2 a)
  let ?n = "length (epre @ b64 [a])"
  have "decode_loop (epre @ b64 [a] @ rest) inlen outlen (of_nat ?n) d = Some (None, d)" for d
    using 2(1) unat_less64 [of inlen] by (intro decode_loop_end) auto
  moreover have "length epre + 4 \<le> unat inlen" "decode_group outlen \<lparr>dec_t = t, dec_y = 4, dec_z = of_nat (length dpre), dec_g = 1, dec_out = dpre @ mid @ ds\<rparr> =
      Some (None, \<lparr>dec_t = 0, dec_y = 0, dec_z = of_nat (length dpre + 1), dec_g = 1, dec_out = dpre @ [ucast (drop_bit 16 t AND 255)] @ ds\<rparr>)" for t
    using 2 decode_group_stores [of dpre 1 outlen mid t 4 ds] by simp_all
  ultimately show ?case
    using decode_quads(3) [where pre = epre and inlen = inlen and outlen = outlen and z = "of_nat (length dpre)" and buf = "dpre @ mid @ ds"] group4_one [of a] by simp
next
  case (3 a b)
  let ?n = "length (epre @ b64 [a, b])"
  have "decode_loop (epre @ b64 [a, b] @ rest) inlen outlen (of_nat ?n) d = Some (None, d)" for d
    using 3(1) unat_less64 [of inlen] by (intro decode_loop_end) auto
  moreover have "length epre + 4 \<le> unat inlen" "decode_group outlen \<lparr>dec_t = t, dec_y = 4, dec_z = of_nat (length dpre), dec_g = 2, dec_out = dpre @ mid @ ds\<rparr> =
      Some (None, \<lparr>dec_t = 0, dec_y = 0, dec_z = of_nat (length dpre + 2), dec_g = 2, dec_out = dpre @ [ucast (drop_bit 16 t AND 255), ucast (drop_bit 8 t AND 255)] @ ds\<rparr>)" for t
    using 3 decode_group_stores [of dpre 2 outlen mid t 4 ds] by simp_all
  ultimately show ?case
    using decode_quads(2) [where pre = epre and inlen = inlen and outlen = outlen and z = "of_nat (length dpre)" and buf = "dpre @ mid @ ds"] group4_two [of a b] by simp
next
  case (4 a b c xs)
  then obtain m0 m1 m2 mid' where mid: "mid = [m0, m1, m2] @ mid'" "length mid' = length xs"
    by (auto simp: length_Suc_conv)
  let ?e = "epre @ take 4 (b64 [a, b, c])" and ?d = "dpre @ [a, b, c]"
  have "\<exists>g. decode_loop (?e @ b64 xs @ rest) inlen outlen (of_nat (length ?e))
      \<lparr>dec_t = 0, dec_y = 0, dec_z = of_nat (length ?d), dec_g = 3, dec_out = ?d @ mid' @ ds\<rparr> =
    Some (None, \<lparr>dec_t = 0, dec_y = 0, dec_z = of_nat (length ?d + length xs), dec_g = g, dec_out = ?d @ xs @ ds\<rparr>)"
    using 4(2,3) mid by (intro 4(1)) auto
  moreover have "length epre + 4 \<le> unat inlen" "decode_group outlen \<lparr>dec_t = t, dec_y = 4, dec_z = of_nat (length dpre), dec_g = 3, dec_out = dpre @ mid @ ds\<rparr> =
      Some (None, \<lparr>dec_t = 0, dec_y = 0, dec_z = 3 + of_nat (length dpre), dec_g = 3, dec_out = dpre @ [ucast (drop_bit 16 t AND 255), ucast (drop_bit 8 t AND 255), ucast (t AND 255)] @ mid' @ ds\<rparr>)" for t
    using 4(2-4) mid decode_group_stores [of dpre 3 outlen "[m0, m1, m2]" t 4 "mid' @ ds"] by (simp_all add: add.commute)
  ultimately show ?case
    using decode_quads(1) [where pre = epre and inlen = inlen and outlen = outlen and z = "of_nat (length dpre)" and buf = "dpre @ mid @ ds"] group4_bytes [of a b c]
    by (simp add: add.left_commute)
qed

section \<open>How far the decoder stores\<close>

text \<open>What the decoder keeps: the padding count, the size of the buffer and its content past one byte after
  the given length.\<close>

definition dec_frame :: "8 word list \<Rightarrow> 64 word \<Rightarrow> decoder \<Rightarrow> bool" where
  "dec_frame dst outlen d \<longleftrightarrow> length (dec_out d) = length dst \<and>
     drop (Suc (unat outlen)) (dec_out d) = drop (Suc (unat outlen)) dst"

definition dec_inv :: "8 word list \<Rightarrow> 64 word \<Rightarrow> decoder \<Rightarrow> bool" where
  "dec_inv dst outlen d \<longleftrightarrow> dec_frame dst outlen d \<and> 0 \<le> dec_g d \<and> dec_g d \<le> 3 \<and> unat (dec_z d) \<le> Suc (unat outlen) \<and>
     (0 < dec_g d \<or> dec_y d \<noteq> 0 \<longrightarrow> unat (dec_z d) \<le> unat outlen)"

definition dec_post :: "8 word list \<Rightarrow> 64 word \<Rightarrow> int option \<times> decoder \<Rightarrow> bool" where
  "dec_post dst outlen = (\<lambda>(r, d). dec_frame dst outlen d \<and> (r = None \<longrightarrow> dec_inv dst outlen d))"

lemma dec_post_simps [simp]:
  "dec_post dst outlen (Some status, d) = dec_frame dst outlen d"
  "dec_post dst outlen (None, d) = dec_inv dst outlen d"
  by (auto simp: dec_post_def dec_inv_def)

lemma decode_group_bounds:
  assumes "dec_frame dst outlen d" "unat (dec_z d) \<le> unat outlen" "0 \<le> dec_g d" "dec_g d \<le> 3"
    and "unat outlen < length dst" "unat outlen + 3 < 2 ^ 64"
  shows "wpo (decode_group outlen d) (dec_post dst outlen)"
proof -
  define z where "z = unat (dec_z d)"
  have z: "dec_z d = of_nat z" "z \<le> unat outlen"
    using assms(2) by (simp_all add: z_def)
  have un: "unat (of_nat (z + k) :: 64 word) = z + k" if "k \<le> 3" for k
    using z(2) assms(6) that by (intro unat_of_nat64) linarith
  have over: "outlen < of_nat (z + k) \<longleftrightarrow> unat outlen < z + k" if "k \<le> 3" for k
    using un [OF that] by (simp only: word_less_nat_alt)
  from assms(3,4) consider "dec_g d = 0" | "dec_g d = 1" | "dec_g d = 2" | "dec_g d = 3" by linarith
  then show ?thesis
    using assms(1,5) z(2) un [of 0] un [of 1] un [of 2] un [of 3] over [of 0] over [of 1] over [of 2] over [of 3]
    by cases (auto simp: decode_group_def z(1) store_def dec_inv_def dec_frame_def Let_def add.commute)
qed

lemma decode_char_bounds:
  assumes "dec_inv dst outlen d" "unat outlen < length dst" "unat outlen + 3 < 2 ^ 64"
  shows "wpo (decode_char outlen c d) (dec_post dst outlen)"
proof -
  have grp: "dec_frame dst outlen d' \<Longrightarrow> unat (dec_z d') \<le> unat outlen \<Longrightarrow> 0 \<le> dec_g d' \<Longrightarrow> dec_g d' \<le> 3 \<Longrightarrow>
      wpo (decode_group outlen d') (dec_post dst outlen)" for d'
    using decode_group_bounds assms(2,3) by blast
  show ?thesis
    using assms(1) by (auto simp: decode_char_def Let_def wpo_if dec_inv_def dec_frame_def intro!: grp)
qed

lemma decode_loop_bounds:
  assumes "dec_inv dst outlen d" "unat outlen < length dst" "unat outlen + 3 < 2 ^ 64" "unat inlen \<le> length src"
  shows "wpo (decode_loop src inlen outlen x d) (dec_post dst outlen)"
  using assms
proof (induction src inlen outlen x d rule: decode_loop.induct)
  case (1 src inlen outlen x d)
  show ?case
  proof (cases "x < inlen")
    case True
    then have ld: "load src (unat x) = Some (src ! unat x)"
      using 1(5) by (simp add: load_def word_less_nat_alt)
    obtain r d' where c: "decode_char outlen (mymap ! unat (src ! unat x AND 0xFF)) d = Some (r, d')" "dec_post dst outlen (r, d')"
      using decode_char_bounds [OF 1(2-4)] unfolding wpo_def by (metis surj_pair)
    show ?thesis
    proof (cases r)
      case None
      with c 1(1) [OF True ld c(1) refl None] 1(3-5) show ?thesis
        by (subst decode_loop.simps) (simp add: True ld)
    next
      case (Some status)
      with c show ?thesis by (subst decode_loop.simps) (simp add: True ld)
    qed
  next
    case False
    with 1(2) show ?thesis by (subst decode_loop.simps) simp
  qed
qed

section \<open>Properties\<close>

text \<open>C28. Encoding a buffer of any length and decoding the result gives back the bytes: the encoder returns with
  four characters for every three bytes begun and a terminating zero, the decoder returns with the length of the
  input, its output starts with the input, and what follows it in the output buffer is not touched. Both need only
  the space they document.\<close>

theorem base64_roundtrip:
  assumes "length src \<le> unat dstlen" "unat dstlen \<le> length dst"
    and "4 * ((length src + 2) div 3) < unat outlen" "unat outlen \<le> length out"
  shows "\<exists>enc n dst'. base64_encode src (of_nat (length src)) out outlen = Some (0, enc, n) \<and>
    unat n = 4 * ((length src + 2) div 3) \<and> enc ! unat n = 0 \<and>
    base64_decode enc n dst dstlen = Some (0, dst', of_nat (length src)) \<and>
    dst' = src @ drop (length src) dst"
proof -
  let ?L = "length (b64 src)"
  have L: "?L < unat outlen"
    using assms(3) by (simp add: length_b64)
  have n: "unat (of_nat ?L :: 64 word) = ?L"
    using L unat_less64 [of outlen] by simp
  obtain g where "decode_loop (b64 src @ 0 # drop (Suc ?L) out) (of_nat ?L) dstlen 0
      \<lparr>dec_t = 0, dec_y = 0, dec_z = 0, dec_g = 3, dec_out = dst\<rparr> =
    Some (None, \<lparr>dec_t = 0, dec_y = 0, dec_z = of_nat (length src), dec_g = g, dec_out = src @ drop (length src) dst\<rparr>)"
    using decode_loop_b64 [of "[]" src "of_nat ?L" "[]" dstlen "take (length src) dst" "0 # drop (Suc ?L) out" "drop (length src) dst"] assms(1,2) n
    by auto
  then show ?thesis
    using base64_encode_b64 [OF L assms(4), of "[]"] n
    by (simp add: base64_decode_def length_b64 nth_append)
qed

theorem base64_roundtrip_witness:
  "\<exists>enc n dst'. base64_encode [72, 105] (of_nat (length [72 :: 8 word, 105])) (replicate 6 0) 6 = Some (0, enc, n) \<and>
    unat n = 4 * ((length [72 :: 8 word, 105] + 2) div 3) \<and> enc ! unat n = 0 \<and>
    base64_decode enc n [1, 2, 3] 2 = Some (0, dst', of_nat (length [72 :: 8 word, 105])) \<and>
    dst' = [72, 105] @ drop (length [72 :: 8 word, 105]) [1, 2, 3]"
  by (rule base64_roundtrip) simp_all

text \<open>C29. The decoder always returns and, given the size \<open>outlen\<close>, never stores beyond the byte after it; but it
  can store that byte: four characters of which three are padding pass the test \<open>z + g > *outlen\<close> with \<open>g = 0\<close> and
  still store one byte, so an output buffer of the size given to the decoder overflows.\<close>

theorem base64_decode_overrun:
  assumes "unat inlen \<le> length src" "unat outlen < length dst" "unat outlen + 3 < 2 ^ 64"
  shows "(\<exists>r dst' n. base64_decode src inlen dst outlen = Some (r, dst', n) \<and> length dst' = length dst \<and>
      drop (Suc (unat outlen)) dst' = drop (Suc (unat outlen)) dst \<and> unat n \<le> Suc (unat outlen)) \<and>
    base64_decode (map of_char ''AAAAA==='') 8 [0, 0, 0] 3 = None"
proof
  let ?d = "\<lparr>dec_t = 0, dec_y = 0, dec_z = 0, dec_g = 3, dec_out = dst\<rparr>"
  have "wpo (decode_loop src inlen outlen 0 ?d) (dec_post dst outlen)"
    using assms by (intro decode_loop_bounds) (auto simp: dec_inv_def dec_frame_def)
  then obtain r d where "decode_loop src inlen outlen 0 ?d = Some (r, d)" "dec_post dst outlen (r, d)"
    by (auto simp: wpo_def)
  then show "\<exists>r dst' n. base64_decode src inlen dst outlen = Some (r, dst', n) \<and> length dst' = length dst \<and>
      drop (Suc (unat outlen)) dst' = drop (Suc (unat outlen)) dst \<and> unat n \<le> Suc (unat outlen)"
    by (cases r) (auto simp: base64_decode_def dec_inv_def dec_frame_def)
next
  show "base64_decode (map of_char ''AAAAA==='') 8 [0, 0, 0] 3 = None"
    by code_simp
qed

theorem base64_decode_overrun_witness:
  "(\<exists>r dst' n. base64_decode (map of_char ''AAAAA==='') 8 [0, 0, 0, 9] 3 = Some (r, dst', n) \<and> length dst' = length [0 :: 8 word, 0, 0, 9] \<and>
      drop (Suc (unat (3 :: 64 word))) dst' = drop (Suc (unat (3 :: 64 word))) [0, 0, 0, 9] \<and> unat n \<le> Suc (unat (3 :: 64 word))) \<and>
    base64_decode (map of_char ''AAAAA==='') 8 [0, 0, 0] 3 = None"
  by (rule base64_decode_overrun) simp_all

end
