(* ===== verification/Md5.thy ===== *)
theory Md5
  imports Key_Val
begin

text \<open>
  The message digest of \<open>lib/md5/src/md5c.c\<close> and the checksum of local files of \<open>lib/md5/src/md5Checksum.c\<close>, which puts
  it into the options of a request. The digest is computed piece by piece: a context holds the state after the
  complete blocks, the number of bits and the bytes of the last incomplete block. The theory shows that however a
  message is cut into pieces, the digest is that of the whole message, with the padding of RFC 1321.
\<close>

unbundle bit_operations_syntax

section \<open>Operations\<close>

abbreviation (input) S11 :: nat where "S11 \<equiv> 7"
abbreviation (input) S12 :: nat where "S12 \<equiv> 12"
abbreviation (input) S13 :: nat where "S13 \<equiv> 17"
abbreviation (input) S14 :: nat where "S14 \<equiv> 22"
abbreviation (input) S21 :: nat where "S21 \<equiv> 5"
abbreviation (input) S22 :: nat where "S22 \<equiv> 9"
abbreviation (input) S23 :: nat where "S23 \<equiv> 14"
abbreviation (input) S24 :: nat where "S24 \<equiv> 20"
abbreviation (input) S31 :: nat where "S31 \<equiv> 4"
abbreviation (input) S32 :: nat where "S32 \<equiv> 11"
abbreviation (input) S33 :: nat where "S33 \<equiv> 16"
abbreviation (input) S34 :: nat where "S34 \<equiv> 23"
abbreviation (input) S41 :: nat where "S41 \<equiv> 6"
abbreviation (input) S42 :: nat where "S42 \<equiv> 10"
abbreviation (input) S43 :: nat where "S43 \<equiv> 15"
abbreviation (input) S44 :: nat where "S44 \<equiv> 21"

type_synonym md5state = "32 word \<times> 32 word \<times> 32 word \<times> 32 word"

record MD5_CTX =
  md_state :: md5state
  md_count :: "32 word \<times> 32 word"
  md_buffer :: "8 word list"

definition PADDING :: "8 word list" where
  "PADDING = 0x80 # replicate 63 0"

definition F :: "32 word \<Rightarrow> 32 word \<Rightarrow> 32 word \<Rightarrow> 32 word" where
  "F x y z = (x AND y) OR (NOT x AND z)"

definition G :: "32 word \<Rightarrow> 32 word \<Rightarrow> 32 word \<Rightarrow> 32 word" where
  "G x y z = (x AND z) OR (y AND NOT z)"

definition H :: "32 word \<Rightarrow> 32 word \<Rightarrow> 32 word \<Rightarrow> 32 word" where
  "H x y z = x XOR y XOR z"

definition I :: "32 word \<Rightarrow> 32 word \<Rightarrow> 32 word \<Rightarrow> 32 word" where
  "I x y z = y XOR (x OR NOT z)"

definition ROTATE_LEFT :: "32 word \<Rightarrow> nat \<Rightarrow> 32 word" where
  "ROTATE_LEFT x n = push_bit n x OR drop_bit (32 - n) x"

text \<open>The macros assign to their first argument; here they return its new value.\<close>

definition FF where "FF a b c d x s ac = ROTATE_LEFT (a + (F b c d + x + ac)) s + b"
definition GG where "GG a b c d x s ac = ROTATE_LEFT (a + (G b c d + x + ac)) s + b"
definition HH where "HH a b c d x s ac = ROTATE_LEFT (a + (H b c d + x + ac)) s + b"
definition II where "II a b c d x s ac = ROTATE_LEFT (a + (I b c d + x + ac)) s + b"

text \<open>Words to bytes and back, low byte first. The lengths are those of the lists.\<close>

fun Encode :: "32 word list \<Rightarrow> 8 word list" where
  "Encode [] = []"
| "Encode (w # ws) = ucast (w AND 0xff) # ucast (drop_bit 8 w AND 0xff) # ucast (drop_bit 16 w AND 0xff) #
     ucast (drop_bit 24 w AND 0xff) # Encode ws"

fun Decode :: "8 word list \<Rightarrow> 32 word list" where
  "Decode (a # b # c # d # bs) =
     (ucast a OR push_bit 8 (ucast b) OR push_bit 16 (ucast c) OR push_bit 24 (ucast d)) # Decode bs"
| "Decode _ = []"

definition MD5Transform :: "md5state \<Rightarrow> 8 word list \<Rightarrow> md5state" where
  "MD5Transform st block =
     (case st of (s0, s1, s2, s3) \<Rightarrow>
      let a = s0; b = s1; c = s2; d = s3;
          x = Decode block;
          a = FF a b c d (x ! 0) S11 0xd76aa478;
          d = FF d a b c (x ! 1) S12 0xe8c7b756;
          c = FF c d a b (x ! 2) S13 0x242070db;
          b = FF b c d a (x ! 3) S14 0xc1bdceee;
          a = FF a b c d (x ! 4) S11 0xf57c0faf;
          d = FF d a b c (x ! 5) S12 0x4787c62a;
          c = FF c d a b (x ! 6) S13 0xa8304613;
          b = FF b c d a (x ! 7) S14 0xfd469501;
          a = FF a b c d (x ! 8) S11 0x698098d8;
          d = FF d a b c (x ! 9) S12 0x8b44f7af;
          c = FF c d a b (x ! 10) S13 0xffff5bb1;
          b = FF b c d a (x ! 11) S14 0x895cd7be;
          a = FF a b c d (x ! 12) S11 0x6b901122;
          d = FF d a b c (x ! 13) S12 0xfd987193;
          c = FF c d a b (x ! 14) S13 0xa679438e;
          b = FF b c d a (x ! 15) S14 0x49b40821;
          a = GG a b c d (x ! 1) S21 0xf61e2562;
          d = GG d a b c (x ! 6) S22 0xc040b340;
          c = GG c d a b (x ! 11) S23 0x265e5a51;
          b = GG b c d a (x ! 0) S24 0xe9b6c7aa;
          a = GG a b c d (x ! 5) S21 0xd62f105d;
          d = GG d a b c (x ! 10) S22 0x2441453;
          c = GG c d a b (x ! 15) S23 0xd8a1e681;
          b = GG b c d a (x ! 4) S24 0xe7d3fbc8;
          a = GG a b c d (x ! 9) S21 0x21e1cde6;
          d = GG d a b c (x ! 14) S22 0xc33707d6;
          c = GG c d a b (x ! 3) S23 0xf4d50d87;
          b = GG b c d a (x ! 8) S24 0x455a14ed;
          a = GG a b c d (x ! 13) S21 0xa9e3e905;
          d = GG d a b c (x ! 2) S22 0xfcefa3f8;
          c = GG c d a b (x ! 7) S23 0x676f02d9;
          b = GG b c d a (x ! 12) S24 0x8d2a4c8a;
          a = HH a b c d (x ! 5) S31 0xfffa3942;
          d = HH d a b c (x ! 8) S32 0x8771f681;
          c = HH c d a b (x ! 11) S33 0x6d9d6122;
          b = HH b c d a (x ! 14) S34 0xfde5380c;
          a = HH a b c d (x ! 1) S31 0xa4beea44;
          d = HH d a b c (x ! 4) S32 0x4bdecfa9;
          c = HH c d a b (x ! 7) S33 0xf6bb4b60;
          b = HH b c d a (x ! 10) S34 0xbebfbc70;
          a = HH a b c d (x ! 13) S31 0x289b7ec6;
          d = HH d a b c (x ! 0) S32 0xeaa127fa;
          c = HH c d a b (x ! 3) S33 0xd4ef3085;
          b = HH b c d a (x ! 6) S34 0x4881d05;
          a = HH a b c d (x ! 9) S31 0xd9d4d039;
          d = HH d a b c (x ! 12) S32 0xe6db99e5;
          c = HH c d a b (x ! 15) S33 0x1fa27cf8;
          b = HH b c d a (x ! 2) S34 0xc4ac5665;
          a = II a b c d (x ! 0) S41 0xf4292244;
          d = II d a b c (x ! 7) S42 0x432aff97;
          c = II c d a b (x ! 14) S43 0xab9423a7;
          b = II b c d a (x ! 5) S44 0xfc93a039;
          a = II a b c d (x ! 12) S41 0x655b59c3;
          d = II d a b c (x ! 3) S42 0x8f0ccc92;
          c = II c d a b (x ! 10) S43 0xffeff47d;
          b = II b c d a (x ! 1) S44 0x85845dd1;
          a = II a b c d (x ! 8) S41 0x6fa87e4f;
          d = II d a b c (x ! 15) S42 0xfe2ce6e0;
          c = II c d a b (x ! 6) S43 0xa3014314;
          b = II b c d a (x ! 13) S44 0x4e0811a1;
          a = II a b c d (x ! 4) S41 0xf7537e82;
          d = II d a b c (x ! 11) S42 0xbd3af235;
          c = II c d a b (x ! 2) S43 0x2ad7d2bb;
          b = II b c d a (x ! 9) S44 0xeb86d391
      in (s0 + a, s1 + b, s2 + c, s3 + d))"

primrec MD5_memcpy :: "nat \<Rightarrow> 8 word list \<Rightarrow> nat \<Rightarrow> 8 word list \<Rightarrow> nat \<Rightarrow> 8 word list option" where
  "MD5_memcpy 0 out p inp q = Some out"
| "MD5_memcpy (Suc n) out p inp q = do {
     v \<leftarrow> load inp q;
     out \<leftarrow> store p v out;
     MD5_memcpy n out (Suc p) inp (Suc q) }"

text \<open>The 64 bytes at position \<open>i\<close> of the input, read by \<open>MD5Transform\<close> through a pointer.\<close>

definition blockAt :: "8 word list \<Rightarrow> nat \<Rightarrow> 8 word list option" where
  "blockAt inp i = (if i + 64 \<le> length inp then Some (take 64 (drop i inp)) else None)"

definition MD5Init :: "8 word list \<Rightarrow> MD5_CTX" where
  "MD5Init buf = \<lparr>md_state = (0x67452301, 0xefcdab89, 0x98badcfe, 0x10325476), md_count = (0, 0), md_buffer = buf\<rparr>"

partial_function (option) update_loop ::
  "8 word list \<Rightarrow> 32 word \<Rightarrow> 32 word \<Rightarrow> md5state \<Rightarrow> (32 word \<times> md5state) option" where
  "update_loop inp inputLen i st =
     (if i + 63 < inputLen then do {
        block \<leftarrow> blockAt inp (unat i);
        update_loop inp inputLen (i + 64) (MD5Transform st block)
      }
      else Some (i, st))"

text \<open>The number of bits in two words, with the carry.\<close>

definition addCount :: "32 word \<times> 32 word \<Rightarrow> 32 word \<Rightarrow> 32 word \<times> 32 word" where
  "addCount cnt inputLen =
     (let c0 = fst cnt + push_bit 3 inputLen;
          c1 = (if c0 < push_bit 3 inputLen then snd cnt + 1 else snd cnt)
      in (c0, c1 + drop_bit 29 inputLen))"

definition MD5Update :: "MD5_CTX \<Rightarrow> 8 word list \<Rightarrow> 32 word \<Rightarrow> MD5_CTX option" where
  "MD5Update context inp inputLen = do {
     let index = drop_bit 3 (fst (md_count context)) AND 0x3F;
     let cnt = addCount (md_count context) inputLen;
     let partLen = 64 - index;
     (index, i, st, buf) \<leftarrow>
       (if inputLen \<ge> partLen then do {
          buf \<leftarrow> MD5_memcpy (unat partLen) (md_buffer context) (unat index) inp 0;
          let st = MD5Transform (md_state context) buf;
          (i, st) \<leftarrow> update_loop inp inputLen partLen st;
          Some (0, i, st, buf)
        }
        else Some (index, 0, md_state context, md_buffer context));
     buf \<leftarrow> MD5_memcpy (unat (inputLen - i)) buf (unat index) inp (unat i);
     Some \<lparr>md_state = st, md_count = cnt, md_buffer = buf\<rparr>
   }"

text \<open>The digest; the context is set to zero afterwards.\<close>

definition MD5Final :: "MD5_CTX \<Rightarrow> (8 word list \<times> MD5_CTX) option" where
  "MD5Final context = do {
     let bits = Encode [fst (md_count context), snd (md_count context)];
     let index = drop_bit 3 (fst (md_count context)) AND 0x3f;
     let padLen = (if index < 56 then 56 - index else 120 - index);
     context \<leftarrow> MD5Update context PADDING padLen;
     context \<leftarrow> MD5Update context bits 8;
     let digest = (case md_state context of (a, b, c, d) \<Rightarrow> Encode [a, b, c, d]);
     Some (digest, \<lparr>md_state = (0, 0, 0, 0), md_count = (0, 0), md_buffer = replicate 64 0\<rparr>)
   }"

section \<open>The checksum of a local file\<close>

text \<open>What is used of \<open>stdio\<close>: \<open>fopen\<close> gives \<open>errno\<close> or a stream, \<open>fread\<close> the bytes it read.\<close>

record 'w stdio =
  fopen :: "string \<Rightarrow> 'w \<Rightarrow> (int + nat) \<times> 'w"
  fread :: "nat \<Rightarrow> nat \<Rightarrow> 'w \<Rightarrow> 8 word list \<times> 'w"
  fclose :: "nat \<Rightarrow> 'w \<Rightarrow> 'w"

abbreviation (input) MD5_BUF_SZ :: nat where "MD5_BUF_SZ \<equiv> 4096"
abbreviation (input) UNIX_FILE_OPEN_ERR :: int where "UNIX_FILE_OPEN_ERR \<equiv> -510000"
abbreviation (input) USER_BAD_KEYWORD_ERR :: int where "USER_BAD_KEYWORD_ERR \<equiv> -315000"
abbreviation (input) VERIFY_CHKSUM_KW :: string where "VERIFY_CHKSUM_KW \<equiv> ''verifyChksum''"
abbreviation (input) REG_CHKSUM_KW :: string where "REG_CHKSUM_KW \<equiv> ''regChksum''"
abbreviation (input) RSYNC_CHKSUM_KW :: string where "RSYNC_CHKSUM_KW \<equiv> ''rsyncChksum''"

text \<open>\<open>%02x\<close>.\<close>

definition hex02 :: "8 word \<Rightarrow> string" where
  "hex02 b = [''0123456789abcdef'' ! unat (drop_bit 4 b), ''0123456789abcdef'' ! unat (b AND 15)]"

definition md5ToStr :: "8 word list \<Rightarrow> string" where
  "md5ToStr digest = concat (map hex02 digest)"

partial_function (option) chksum_loop :: "'w stdio \<Rightarrow> nat \<Rightarrow> MD5_CTX \<Rightarrow> 'w \<Rightarrow> (MD5_CTX \<times> 'w) option" where
  "chksum_loop IO h context w =
     (case fread IO h MD5_BUF_SZ w of (bytes, w) \<Rightarrow>
      if length bytes > 0 then do {
        context \<leftarrow> MD5Update context bytes (of_nat (length bytes));
        chksum_loop IO h context w
      }
      else Some (context, w))"

text \<open>\<open>junk\<close> is what the buffer of the context holds before it is used; the second result is \<open>chksumStr\<close>.\<close>

definition chksumLocFile ::
  "'w stdio \<Rightarrow> 8 word list \<Rightarrow> string \<Rightarrow> string \<Rightarrow> 'w \<Rightarrow> (int \<times> string \<times> 'w) option" where
  "chksumLocFile IO junk fileName chksumStr w =
     (case fopen IO fileName w of
        (Inl errno, w) \<Rightarrow> Some (UNIX_FILE_OPEN_ERR - errno, chksumStr, w)
      | (Inr h, w) \<Rightarrow> do {
          (context, w) \<leftarrow> chksum_loop IO h (MD5Init junk) w;
          (digest, _) \<leftarrow> MD5Final context;
          let w = fclose IO h w;
          Some (0, md5ToStr digest, w)
        })"

definition rcChksumLocFile ::
  "'w stdio \<Rightarrow> 8 word list \<Rightarrow> string option \<Rightarrow> string option \<Rightarrow> keyValPair option \<Rightarrow> 'w \<Rightarrow>
    (int \<times> keyValPair option \<times> 'w) option" where
  "rcChksumLocFile IO junk fileName chksumFlag condInput w =
     (case (condInput, chksumFlag, fileName) of
        (Some kvs, Some flag, Some name) \<Rightarrow>
          if flag \<noteq> VERIFY_CHKSUM_KW \<and> flag \<noteq> REG_CHKSUM_KW \<and> flag \<noteq> RSYNC_CHKSUM_KW
          then Some (USER_BAD_KEYWORD_ERR, condInput, w)
          else do {
            (status, chksumStr, w) \<leftarrow> chksumLocFile IO junk name [] w;
            if status < 0 then Some (status, condInput, w)
            else do {
              (_, kvs) \<leftarrow> addKeyVal kvs flag chksumStr;
              Some (0, Some kvs, w)
            }
          }
      | _ \<Rightarrow> Some (USER_NULL_INPUT_ERR, condInput, w))"

section \<open>The digest of a whole message\<close>

text \<open>The state after the complete blocks of a message, and the padded message of RFC 1321.\<close>

function md5_blocks :: "md5state \<Rightarrow> 8 word list \<Rightarrow> md5state" where
  "md5_blocks st m = (if length m < 64 then st else md5_blocks (MD5Transform st (take 64 m)) (drop 64 m))"
  by pat_completeness auto
termination
  by (relation "measure (\<lambda>(st, m). length m)") auto

declare md5_blocks.simps [simp del]

definition md5_pad :: "8 word list \<Rightarrow> 8 word list" where
  "md5_pad m = (let n = 8 * length m in
     m @ 0x80 # replicate ((119 - length m mod 64) mod 64) 0 @ Encode [of_nat n, of_nat (n div 2 ^ 32)])"

abbreviation (input) md5_start :: md5state where
  "md5_start \<equiv> (0x67452301, 0xefcdab89, 0x98badcfe, 0x10325476)"

definition md5 :: "8 word list \<Rightarrow> 8 word list" where
  "md5 m = (case md5_blocks md5_start (md5_pad m) of (a, b, c, d) \<Rightarrow> Encode [a, b, c, d])"

lemma md5_blocks_short: "length m < 64 \<Longrightarrow> md5_blocks st m = st"
  by (simp add: md5_blocks.simps)

lemma md5_blocks_one: "length b = 64 \<Longrightarrow> md5_blocks st (b @ m) = md5_blocks (MD5Transform st b) m"
  by (subst md5_blocks.simps) simp

lemma md5_blocks_append:
  assumes "length a = 64 * k"
  shows "md5_blocks st (a @ m) = md5_blocks (md5_blocks st a) m"
  using assms
proof (induction k arbitrary: st a)
  case 0
  then show ?case by (simp add: md5_blocks_short)
next
  case (Suc k)
  have "a = take 64 a @ drop 64 a" "length (take 64 a) = 64" "length (drop 64 a) = 64 * k"
    using Suc.prems by auto
  then show ?case
    using Suc.IH [of "drop 64 a"] md5_blocks_one [of "take 64 a"] by (metis append_assoc)
qed

section \<open>Pieces\<close>

lemma memcpy_append:
  "length mid = length xs \<Longrightarrow> length op = p \<Longrightarrow> length ip = q \<Longrightarrow> n = length xs \<Longrightarrow>
    MD5_memcpy n (op @ mid @ os) p (ip @ xs @ is) q = Some (op @ xs @ os)"
proof (induction xs arbitrary: n op mid ip p q)
  case (Cons x xs)
  then obtain y mid' where mid: "mid = y # mid'" "length mid' = length xs"
    by (cases mid) auto
  with Cons.prems Cons.IH [of mid' "op @ [x]" "Suc p" "ip @ [x]" "Suc q" "length xs"] show ?case
    by (simp add: load_at store_at)
qed simp

lemma unat_of_nat32 [simp]: "n < 2 ^ 32 \<Longrightarrow> unat (of_nat n :: 32 word) = n"
  by (simp add: unsigned_of_nat take_bit_nat_eq_self)

lemma update_loop_blocks:
  assumes "length b = 64 * k" "length r < 64" "length ip + length b + length r + 63 < 2 ^ 32"
  shows "update_loop (ip @ b @ r @ is) (of_nat (length ip + length b + length r)) (of_nat (length ip)) st =
    Some (of_nat (length ip + length b), md5_blocks st b)"
  using assms
proof (induction k arbitrary: ip b st)
  case 0
  have "\<not> (of_nat (length ip) + 63 :: 32 word) < of_nat (length ip + length r)"
    using 0 unat_of_nat32 [of "length ip + 63"] unat_of_nat32 [of "length ip + length r"] by (simp add: word_less_nat_alt)
  with 0 show ?case by (subst update_loop.simps) (simp add: md5_blocks_short)
next
  case (Suc k)
  define c d where "c = take 64 b" and "d = drop 64 b"
  have cd: "b = c @ d" "length c = 64" "length d = 64 * k"
    using Suc.prems by (auto simp: c_def d_def)
  have "(of_nat (length ip) + 63 :: 32 word) < of_nat (length ip + length b + length r)"
    using Suc.prems cd unat_of_nat32 [of "length ip + 63"] unat_of_nat32 [of "length ip + length b + length r"]
    by (simp add: word_less_nat_alt)
  moreover have "blockAt (ip @ b @ r @ is) (length ip) = Some c"
    using cd by (simp add: blockAt_def)
  moreover have "update_loop ((ip @ c) @ d @ r @ is) (of_nat (length (ip @ c) + length d + length r)) (of_nat (length (ip @ c)))
      (MD5Transform st c) = Some (of_nat (length (ip @ c) + length d), md5_blocks (MD5Transform st c) d)"
    using Suc.prems cd by (intro Suc.IH) auto
  ultimately show ?case
    using Suc.prems cd by (subst update_loop.simps) (simp add: md5_blocks_one add.assoc add.commute add.left_commute)
qed

text \<open>The two words of the bit count.\<close>

definition md5_count :: "nat \<Rightarrow> 32 word \<times> 32 word" where
  "md5_count n = (of_nat (8 * n), of_nat (8 * n div 2 ^ 32))"

lemma push3_of_nat: "push_bit 3 (of_nat n :: 32 word) = of_nat (8 * n)"
  by (simp add: push_bit_eq_mult)

lemma unat_push3: "unat (of_nat (8 * n) :: 32 word) = 8 * n mod 2 ^ 32"
  by (simp only: unsigned_of_nat take_bit_eq_mod) simp

lemma count_index: "unat (drop_bit 3 (fst (md5_count n)) AND 0x3F) = n mod 64"
proof -
  have "(drop_bit 3 (of_nat (8 * n) :: 32 word)) AND 0x3F = take_bit 6 (drop_bit 3 (of_nat (8 * n)))"
    by (simp add: take_bit_eq_mask mask_numeral)
  moreover have "unat (take_bit 6 (drop_bit 3 (of_nat (8 * n) :: 32 word))) = (8 * n mod 2 ^ 32) div 8 mod 64"
    by (simp only: unsigned_take_bit_eq unsigned_drop_bit_eq unat_push3) (simp add: take_bit_eq_mod drop_bit_eq_div)
  moreover have "(8 * n mod 2 ^ 32) div 8 mod 64 = n mod 64"
  proof -
    have "8 * n mod 2 ^ 32 = 8 * (n mod 2 ^ 29)"
      using mult_mod_right [of 8 n "2 ^ 29"] by simp
    then have "(8 * n mod 2 ^ 32) div 8 = n mod 2 ^ 29"
      by simp
    then show ?thesis
      by (simp only:) (rule mod_mod_cancel, simp)
  qed
  ultimately show ?thesis by (simp add: md5_count_def)
qed

lemma div_add_carry:
  fixes p q M :: nat
  assumes "0 < M"
  shows "(p + q) div M = (if (p + q) mod M < q mod M then p div M + 1 else p div M) + q div M"
proof -
  define a b where "a = p mod M" and "b = q mod M"
  have "a < M" "b < M"
    using assms by (simp_all add: a_def b_def)
  then have "(a + b) div M = (if (a + b) mod M < b then 1 else 0)"
    using le_mod_geq [of M "a + b"] le_div_geq [of M "a + b"] by (cases "a + b < M") simp_all
  then show ?thesis
    by (simp add: div_add1_eq [of p q M] mod_add_eq a_def b_def)
qed

lemma count_add:
  assumes "n < 2 ^ 32"
  shows "addCount (md5_count m) (of_nat n) = md5_count (m + n)"
proof -
  define c0 :: "32 word" where "c0 = of_nat (8 * (m + n))"
  have c0: "fst (md5_count m) + push_bit 3 (of_nat n) = c0"
    by (simp add: c0_def md5_count_def push3_of_nat)
  have c1: "drop_bit 29 (of_nat n :: 32 word) = of_nat (8 * n div 2 ^ 32)"
    using assms(1) by (subst word_unat_eq_iff) (simp add: unsigned_drop_bit_eq drop_bit_eq_div unat_div_distrib)
  have less: "c0 < push_bit 3 (of_nat n) \<longleftrightarrow> 8 * (m + n) mod 2 ^ 32 < 8 * n mod 2 ^ 32"
    unfolding c0_def push3_of_nat word_less_nat_alt unat_push3 ..
  have "8 * (m + n) div 2 ^ 32 = (if 8 * (m + n) mod 2 ^ 32 < 8 * n mod 2 ^ 32 then 8 * m div 2 ^ 32 + 1 else 8 * m div 2 ^ 32) + 8 * n div 2 ^ 32"
    using div_add_carry [of "2 ^ 32" "8 * m" "8 * n"] by (simp only: distrib_left) simp
  then show ?thesis
    unfolding addCount_def Let_def c0 less c1 unfolding c0_def md5_count_def
    by (simp only: fst_conv snd_conv prod.inject refl of_nat_add of_nat_1 if_distrib simp_thms) (simp split: if_splits)
qed

text \<open>A context stands for the message it has been given so far.\<close>

definition md5_split :: "MD5_CTX \<Rightarrow> 8 word list \<Rightarrow> nat \<Rightarrow> 8 word list \<Rightarrow> 8 word list \<Rightarrow> bool" where
  "md5_split ctx a k r z \<longleftrightarrow> length a = 64 * k \<and> length r < 64 \<and>
     md_state ctx = md5_blocks md5_start a \<and> md_count ctx = md5_count (length (a @ r)) \<and>
     md_buffer ctx = r @ z \<and> length z = 64 - length r"

definition md5_rep :: "MD5_CTX \<Rightarrow> 8 word list \<Rightarrow> bool" where
  "md5_rep ctx m \<longleftrightarrow> (\<exists>a k r z. m = a @ r \<and> md5_split ctx a k r z)"

lemma md5_rep_init: "length buf = 64 \<Longrightarrow> md5_rep (MD5Init buf) []"
  by (auto simp: md5_rep_def md5_split_def MD5Init_def md5_count_def md5_blocks_short)

lemma part_length: "r < 64 \<Longrightarrow> unat (64 - w :: 32 word) = 64 - r" if "unat w = r"
  using that by (simp add: unat_sub word_le_nat_alt)

lemma split_blocks:
  obtains b k r where "m = b @ r" "length b = 64 * k" "length r < 64"
  using that [of "take (64 * (length m div 64)) m" "drop (64 * (length m div 64)) m" "length m div 64"] by simp

text \<open>The index of a context is the length of its incomplete block.\<close>

lemma md5_split_index:
  assumes "md5_split ctx a k r z"
  defines "index \<equiv> drop_bit 3 (fst (md_count ctx)) AND 0x3F"
  shows "unat index = length r" "unat (64 - index) = 64 - length r"
proof -
  show *: "unat index = length r"
    using assms by (simp add: md5_split_def count_index)
  show "unat (64 - index) = 64 - length r"
    using part_length [OF *] assms(1) by (simp add: md5_split_def)
qed

lemma md5_split_count:
  assumes "md5_split ctx a k r z" "length xs + 63 < 2 ^ 32"
  shows "addCount (md_count ctx) (of_nat (length xs)) = md5_count (length (a @ r @ xs))"
  using assms count_add [of "length xs" "length (a @ r)"] by (simp add: md5_split_def add.assoc)

lemma md5_split_ge:
  assumes "md5_split ctx a k r z" "length xs + 63 < 2 ^ 32"
  shows "64 - (drop_bit 3 (fst (md_count ctx)) AND 0x3F) \<le> of_nat (length xs) \<longleftrightarrow> 64 \<le> length r + length xs"
  using assms(2) md5_split_index(2) [OF assms(1)] by (auto simp: word_le_nat_alt)

text \<open>A piece that does not complete the block, and one that does.\<close>

lemma update_short:
  assumes m: "md5_split ctx a k r z" and xs: "length xs + 63 < 2 ^ 32" and short: "length r + length xs < 64"
  shows "wpo (MD5Update ctx (xs @ ys) (of_nat (length xs))) (\<lambda>ctx. md5_rep ctx (a @ r @ xs))"
proof -
  define z1 z2 where "z1 = take (length xs) z" and "z2 = drop (length xs) z"
  have z: "z = z1 @ z2" "length z1 = length xs" "length z2 = 64 - length (r @ xs)"
    using short m by (auto simp: z1_def z2_def md5_split_def)
  have "MD5_memcpy (length xs) (r @ z1 @ z2) (length r) ([] @ xs @ ys) 0 = Some (r @ xs @ z2)"
    using z by (intro memcpy_append) auto
  moreover have "md5_split \<lparr>md_state = md_state ctx, md_count = md5_count (length (a @ r @ xs)), md_buffer = r @ xs @ z2\<rparr>
      a k (r @ xs) z2"
    using m z short by (simp add: md5_split_def)
  then have "md5_rep \<lparr>md_state = md_state ctx, md_count = md5_count (length (a @ r @ xs)), md_buffer = r @ xs @ z2\<rparr> (a @ r @ xs)"
    unfolding md5_rep_def by blast
  moreover have "md_buffer ctx = r @ z1 @ z2"
    using m z(1) by (simp add: md5_split_def)
  ultimately show ?thesis
    using short md5_split_ge [OF m xs] md5_split_count [OF m xs] md5_split_index(1) [OF m] xs
    by (simp add: MD5Update_def Let_def)
qed

lemma update_long:
  assumes m: "md5_split ctx a k r z" and xs: "length xs + 63 < 2 ^ 32" and long: "64 \<le> length r + length xs"
  shows "wpo (MD5Update ctx (xs @ ys) (of_nat (length xs))) (\<lambda>ctx. md5_rep ctx (a @ r @ xs))"
proof -
  have r: "length a = 64 * k" "length r < 64" "md_buffer ctx = r @ z" "length z = 64 - length r"
    using m by (simp_all add: md5_split_def)
  define index where "index = drop_bit 3 (fst (md_count ctx)) AND 0x3F"
  note ix = md5_split_index [OF m, folded index_def]
  define x1 x2 where "x1 = take (64 - length r) xs" and "x2 = drop (64 - length r) xs"
  obtain b k' r' where b: "x2 = b @ r'" "length b = 64 * k'" "length r' < 64"
    by (rule split_blocks)
  have x: "xs = x1 @ b @ r'" "length x1 = 64 - length r"
    using long b by (auto simp: x1_def x2_def simp flip: b(1))
  define p B where "p = length x1 + length b" and "B = r @ x1"
  obtain v1 v2 where v: "B = v1 @ v2" "length v1 = length r'" "length v2 = 64 - length r'"
  proof
    show "B = take (length r') B @ drop (length r') B" by (rule append_take_drop_id [symmetric])
  qed (use x b r in \<open>auto simp: B_def\<close>)
  have plen: "p + length r' = length xs"
    using x(1) by (simp add: p_def)
  have p: "unat (of_nat p :: 32 word) = p" "unat (of_nat (length xs) - of_nat p :: 32 word) = length r'"
    using unat_of_nat32 [of p] unat_of_nat32 [of "length r'"] xs unfolding plen [symmetric] by simp_all
  have "MD5_memcpy (64 - length r) (r @ z @ []) (length r) ([] @ x1 @ b @ r' @ ys) 0 = Some (r @ x1 @ [])"
    using x(2) r by (intro memcpy_append) auto
  then have first: "MD5_memcpy (64 - length r) (md_buffer ctx) (length r) (xs @ ys) 0 = Some B"
    unfolding x(1) r(3) B_def by simp
  have "(64 - index :: 32 word) = of_nat (length x1)"
    using ix(2) x(2) by (subst word_unat_eq_iff) simp
  then have loop: "update_loop (xs @ ys) (of_nat (length xs)) (64 - index) st = Some (of_nat p, md5_blocks st b)" for st
    using update_loop_blocks [of b k' r' x1 ys st] b xs unfolding x(1) p_def by (simp add: add.assoc)
  have rest: "MD5_memcpy (length r') B 0 (xs @ ys) p = Some (r' @ v2)"
    using memcpy_append [of v1 r' "[]" 0 "x1 @ b" p "length r'" v2 ys] v unfolding x(1) p_def by simp
  have "md5_blocks md5_start (a @ r @ x1 @ b) = md5_blocks (MD5Transform (md_state ctx) B) b"
    using md5_blocks_append [OF r(1), of _ "B @ b"] md5_blocks_one [of B] x(2) m by (simp add: B_def md5_split_def)
  then have "md5_split \<lparr>md_state = md5_blocks (MD5Transform (md_state ctx) B) b, md_count = md5_count (length (a @ r @ xs)),
      md_buffer = r' @ v2\<rparr> (a @ r @ x1 @ b) (k + 1 + k') r' v2"
    using r x b v(3) by (simp add: md5_split_def)
  then have "md5_rep \<lparr>md_state = md5_blocks (MD5Transform (md_state ctx) B) b, md_count = md5_count (length (a @ r @ xs)),
      md_buffer = r' @ v2\<rparr> (a @ r @ xs)"
    unfolding md5_rep_def using x(1) by (metis append_assoc)
  then show ?thesis
    using long md5_split_ge [OF m xs]
    by (simp add: MD5Update_def Let_def md5_split_count [OF m xs] ix p first loop rest flip: index_def)
qed

lemma md5_update_rep [wp]:
  assumes "md5_rep ctx m" "length xs + 63 < 2 ^ 32" "n = of_nat (length xs)"
  shows "wpo (MD5Update ctx (xs @ ys) n) (\<lambda>ctx. md5_rep ctx (m @ xs))"
proof -
  obtain a k r z where "m = a @ r" "md5_split ctx a k r z"
    using assms(1) by (auto simp: md5_rep_def)
  then show ?thesis
    using update_short [of ctx a k r z xs ys] update_long [of ctx a k r z xs ys] assms(2,3) by fastforce
qed

lemma md5_rep_blocks:
  assumes "md5_rep ctx m" "length m mod 64 = 0"
  shows "md_state ctx = md5_blocks md5_start m"
proof -
  obtain a k r z where "m = a @ r" "md5_split ctx a k r z"
    using assms(1) by (auto simp: md5_rep_def)
  with assms(2) show ?thesis by (auto simp: md5_split_def)
qed

lemma md5_final_rep:
  assumes "md5_rep ctx m"
  shows "wpo (MD5Final ctx) (\<lambda>(digest, ctx). digest = md5 m)"
proof -
  obtain a k r z where m: "m = a @ r" "md5_split ctx a k r z"
    using assms(1) by (auto simp: md5_rep_def)
  define index where "index = drop_bit 3 (fst (md_count ctx)) AND 0x3F"
  have index: "unat index = length m mod 64"
    using md5_split_index(1) [OF m(2)] m by (simp add: index_def md5_split_def)
  define pl where "pl = (if length m mod 64 < 56 then 56 - length m mod 64 else 120 - length m mod 64)"
  have padLen: "(if index < 56 then 56 - index else 120 - index) = of_nat pl"
    using index by (subst word_unat_eq_iff) (auto simp: pl_def word_less_nat_alt unat_sub word_le_nat_alt)
  define q where "q = take pl PADDING"
  have pl: "pl = Suc ((119 - length m mod 64) mod 64)" "pl \<le> 64"
  proof -
    have "length m mod 64 < 64" by simp
    then show "pl = Suc ((119 - length m mod 64) mod 64)" "pl \<le> 64"
      using le_mod_geq [of 64 "119 - length m mod 64"] by (auto simp: pl_def)
  qed
  have q: "PADDING = q @ drop pl PADDING" "length q = pl" "q = 0x80 # replicate ((119 - length m mod 64) mod 64) 0"
    using pl append_take_drop_id [of pl PADDING] by (simp_all add: q_def PADDING_def min_def)
  let ?bits = "Encode [fst (md_count ctx), snd (md_count ctx)]"
  have pad: "m @ q @ ?bits = md5_pad m"
    using m by (simp add: md5_pad_def q(3) Let_def md5_split_def md5_count_def)
  have "wpo (MD5Update ctx PADDING (of_nat pl)) (\<lambda>ctx. md5_rep ctx (m @ q))"
    using q(2) pl(2) by (subst q(1), intro md5_update_rep assms) simp_all
  then obtain c1 where c1: "MD5Update ctx PADDING (of_nat pl) = Some c1" "md5_rep c1 (m @ q)"
    by (auto simp: wpo_def)
  then obtain c2 where c2: "MD5Update c1 ?bits 8 = Some c2" "md5_rep c2 (md5_pad m)"
    using md5_update_rep [OF c1(2), of ?bits 8 "[]"] pad by (auto simp: wpo_def)
  have len: "length (md5_pad m) mod 64 = 0"
  proof -
    have "length m mod 64 < 64" by simp
    then consider "length m mod 64 + (pl + 8) = 64" | "length m mod 64 + (pl + 8) = 128"
      by (cases "length m mod 64 < 56") (auto simp: pl_def)
    then have "(length m mod 64 + (pl + 8)) mod 64 = 0"
      by cases (simp_all only: mod_self, simp)
    moreover have "length (md5_pad m) = length m + (pl + 8)"
      unfolding pad [symmetric] using q(2) by simp
    ultimately show ?thesis by (simp only: mod_add_left_eq)
  qed
  show ?thesis
    unfolding MD5Final_def Let_def padLen [unfolded index_def] c1(1)
    by (simp add: md5_rep_blocks [OF c2(2) len] c2(1) md5_def del: Encode.simps)
qed

text \<open>The contract of a digest computed piece by piece; \<open>fits\<close> says that a piece has the given length.\<close>

locale message_digest =
  fixes rep :: "'ctx \<Rightarrow> 'b list \<Rightarrow> bool"
    and update :: "'ctx \<Rightarrow> 'b list \<Rightarrow> 'n \<Rightarrow> 'ctx option"
    and final :: "'ctx \<Rightarrow> ('b list \<times> 'ctx) option"
    and digest :: "'b list \<Rightarrow> 'b list"
    and fits :: "'b list \<Rightarrow> 'n \<Rightarrow> bool"
  assumes update_law: "rep c m \<Longrightarrow> fits xs n \<Longrightarrow> wpo (update c (xs @ ys) n) (\<lambda>c. rep c (m @ xs))"
    and final_law: "rep c m \<Longrightarrow> wpo (final c) (\<lambda>(d, _). d = digest m)"
begin

lemma one_piece:
  assumes "rep c []" "fits xs n"
  shows "wpo (update c (xs @ ys) n) (\<lambda>c. wpo (final c) (\<lambda>(d, _). d = digest xs))"
  using update_law [OF assms] by (rule wpo_mono) (simp add: final_law)

text \<open>The pieces of a message do not matter.\<close>

lemma pieces:
  assumes "rep c m" "\<forall>(xs, n) \<in> set ps. fits xs n"
  shows "wpo (fold (\<lambda>(xs, n) c. c \<bind> (\<lambda>c. update c xs n)) ps (Some c)) (\<lambda>c. rep c (m @ concat (map fst ps)))"
  using assms
proof (induction ps arbitrary: c m)
  case (Cons p ps)
  obtain xs n where p: "p = (xs, n)" by (cases p)
  then obtain c' where "update c xs n = Some c'" "rep c' (m @ xs)"
    using update_law [OF Cons.prems(1), of xs n "[]"] Cons.prems(2) by (auto simp: wpo_def)
  with Cons.IH [of c' "m @ xs"] Cons.prems(2) p show ?case by simp
qed simp

end

interpretation md: message_digest md5_rep MD5Update MD5Final md5 "\<lambda>xs n. length xs + 63 < 2 ^ 32 \<and> n = of_nat (length xs)"
  by unfold_locales (auto intro: md5_update_rep md5_final_rep)

text \<open>A stream delivers a content when its reads give the content in pieces and then nothing.\<close>

inductive delivers :: "'w stdio \<Rightarrow> nat \<Rightarrow> 'w \<Rightarrow> 8 word list \<Rightarrow> 'w \<Rightarrow> bool" for IO h where
  deliver_end: "fread IO h MD5_BUF_SZ w = ([], w') \<Longrightarrow> delivers IO h w [] w'"
| deliver_piece: "fread IO h MD5_BUF_SZ w = (p, w1) \<Longrightarrow> p \<noteq> [] \<Longrightarrow> length p \<le> MD5_BUF_SZ \<Longrightarrow>
    delivers IO h w1 bs w' \<Longrightarrow> delivers IO h w (p @ bs) w'"

lemma chksum_loop_digest:
  assumes "delivers IO h w bs w'" "md5_rep c m"
  shows "wpo (chksum_loop IO h c w) (\<lambda>(c, w2). md5_rep c (m @ bs) \<and> w2 = w')"
  using assms
proof (induction arbitrary: c m rule: delivers.induct)
  case (deliver_end w w')
  then show ?case by (subst chksum_loop.simps) simp
next
  case (deliver_piece w p w1 bs w')
  obtain c' where "MD5Update c p (of_nat (length p)) = Some c'" "md5_rep c' (m @ p)"
    using md.update_law [OF deliver_piece.prems, of p "of_nat (length p)" "[]"] deliver_piece(3) by (auto simp: wpo_def)
  with deliver_piece.IH [of c' "m @ p"] deliver_piece(1,2) show ?case
    by (subst chksum_loop.simps) simp
qed

section \<open>Properties\<close>

text \<open>C30. For a stream that delivers the file in whatever pieces, \<open>rcChksumLocFile\<close> returns 0 and registers under
  the given keyword the digest of the whole content, in hexadecimal; the other options of the request are kept
  and the file is closed. The digest is that of RFC 1321: the blocks of the padded message folded from the start
  state.\<close>

theorem file_checksum_registered:
  assumes "flag \<in> {''verifyChksum'', ''regChksum'', ''rsyncChksum''}" "kv_inv kvs" "length junk = 64"
    and "fopen IO name w = (Inr h, w1)" "delivers IO h w1 content w2"
  shows "\<exists>kvs'. rcChksumLocFile IO junk (Some name) (Some flag) (Some kvs) w = Some (0, Some kvs', fclose IO h w2) \<and>
    kv_inv kvs' \<and> getValByKey kvs' = (getValByKey kvs)(flag \<mapsto> md5ToStr (md5 content))"
proof -
  obtain c where c: "chksum_loop IO h (MD5Init junk) w1 = Some (c, w2)" "md5_rep c content"
    using chksum_loop_digest [OF assms(5) md5_rep_init [OF assms(3)]] by (auto simp: wpo_def)
  then obtain z where "MD5Final c = Some (md5 content, z)"
    using md.final_law [OF c(2)] by (auto simp: wpo_def)
  with c assms(4) have "chksumLocFile IO junk name [] w = Some (0, md5ToStr (md5 content), fclose IO h w2)"
    by (simp add: chksumLocFile_def Let_def)
  moreover obtain kvs' where "addKeyVal kvs flag (md5ToStr (md5 content)) = Some (0, kvs')" "kv_inv kvs'"
      "getValByKey kvs' = (getValByKey kvs)(flag \<mapsto> md5ToStr (md5 content))"
    using kv.kput_law [OF assms(2), of flag] assms(1) by (fastforce simp: wpo_def)
  ultimately show ?thesis
    using assms(1) by (auto simp: rcChksumLocFile_def)
qed

text \<open>A file kept in memory.\<close>

definition mem_stdio :: "8 word list stdio" where
  "mem_stdio = \<lparr>fopen = \<lambda>_ w. (Inr 3, w), fread = \<lambda>_ n w. (take n w, drop n w), fclose = \<lambda>_ w. w\<rparr>"

theorem file_checksum_registered_witness:
  "\<exists>kvs'. rcChksumLocFile mem_stdio (replicate 64 7) (Some ''f'') (Some ''regChksum'') (Some emptyKeyVal) [97, 98, 99] =
      Some (0, Some kvs', fclose mem_stdio 3 []) \<and>
    kv_inv kvs' \<and> getValByKey kvs' = (getValByKey emptyKeyVal)(''regChksum'' \<mapsto> md5ToStr (md5 [97, 98, 99]))"
proof (rule file_checksum_registered)
  have "delivers mem_stdio 3 [] [] []"
    by (rule deliver_end) (simp add: mem_stdio_def)
  then show "delivers mem_stdio 3 [97, 98, 99] [97, 98, 99] []"
    using deliver_piece [of mem_stdio 3 "[97, 98, 99]" "[97, 98, 99]" "[]" "[]" "[]"] by (simp add: mem_stdio_def)
qed (simp_all add: mem_stdio_def kv.kempty_law)

end
