(* ===== verification/Obf.thy ===== *)
theory Obf
  imports Md5
begin

text \<open>
  The obfuscation of passwords in \<open>lib/core/src/obf.c\<close>: in the authentication file of a user (\<open>obfiEncode\<close>,
  \<open>obfiDecode\<close>, keyed by the time of the file and the user's id) and on the wire (\<open>obfEncodeByKey\<close>,
  \<open>obfDecodeByKey\<close> and their second version, keyed by digests). Both rotate the characters of a password on a
  wheel of 77 characters. Strings are their characters before the terminating zero; the clock and the user id,
  which the code asks the system for, are arguments, as are the global variables \<open>timeVal\<close> and
  \<open>cipherBlockChaining\<close> and the static array \<open>myOut\<close>. The theory shows that decoding undoes encoding under the
  conditions the code checks, and what it gives when they fail.
\<close>

unbundle bit_operations_syntax

section \<open>The wheel\<close>

abbreviation (input) AUTH_FILE_NOT_ENCRYPTED :: int where "AUTH_FILE_NOT_ENCRYPTED \<equiv> -906000"
abbreviation (input) MAX_PASSWORD_LEN :: nat where "MAX_PASSWORD_LEN \<equiv> 50"
abbreviation (input) NULc :: char where "NULc \<equiv> CHR 0x00"

definition wheel_len :: int where
  "wheel_len = 26 + 26 + 10 + 15"

definition wheel :: "char list" where
  "wheel = map (\<lambda>i. char_of (of_char CHR ''0'' + i :: nat)) [0..<10] @ map (\<lambda>i. char_of (of_char CHR ''A'' + i :: nat)) [0..<26] @
     map (\<lambda>i. char_of (of_char CHR ''a'' + i :: nat)) [0..<26] @ map (\<lambda>i. char_of (of_char CHR ''!'' + i :: nat)) [0..<15]"

text \<open>The loop that looks for a character, and an access to the array.\<close>

fun wheel_loop :: "char \<Rightarrow> nat \<Rightarrow> char list \<Rightarrow> nat option" where
  "wheel_loop c i [] = None"
| "wheel_loop c i (x # xs) = (if c = x then Some i else wheel_loop c (Suc i) xs)"

definition wheelFind :: "char \<Rightarrow> nat option" where
  "wheelFind c = wheel_loop c 0 wheel"

definition wheelAt :: "int \<Rightarrow> char option" where
  "wheelAt j = (if 0 \<le> j then load wheel (nat j) else None)"

text \<open>\<open>while (j<0) j+=wheel_len\<close>.\<close>

function wrapUp :: "int \<Rightarrow> int" where
  "wrapUp j = (if j < 0 then wrapUp (j + wheel_len) else j)"
  by pat_completeness auto
termination
  by (relation "measure (\<lambda>j. nat (- j))") (auto simp: wheel_len_def)

declare wrapUp.simps [simp del]

text \<open>A character turned forward and back; one that is not on the wheel stays.\<close>

definition turn :: "int \<Rightarrow> char \<Rightarrow> char option" where
  "turn addin c = (case wheelFind c of Some i \<Rightarrow> wheelAt ((int i + addin) smod wheel_len) | None \<Rightarrow> Some c)"

definition turnBack :: "int \<Rightarrow> char \<Rightarrow> char option" where
  "turnBack addin c = (case wheelFind c of Some i \<Rightarrow> wheelAt (wrapUp (int i - addin)) | None \<Rightarrow> Some c)"

section \<open>The authentication file\<close>

definition seqOf :: "int \<Rightarrow> int" where
  "seqOf rval =
     (if rval = 0 then 0xd768b678 else if rval = 1 then 0xedfdaf56 else if rval = 2 then 0x2420231b
      else if rval = 3 then 0x987098d8 else if rval = 4 then 0xc1bdfeee else if rval = 5 then 0xf572341f
      else if rval = 6 then 0x478def3a else if rval = 7 then 0xa830d343 else if rval = 8 then 0x774dfa2a
      else if rval = 9 then 0x6720731e else if rval = 10 then 0x346fa320 else if rval = 11 then 0x6ffdf43a
      else if rval = 12 then 0x7723a320 else if rval = 13 then 0xdf67d02e else if rval = 14 then 0x86ad240a
      else if rval = 15 then 0xe76d342e else 0)"

definition nextAddin :: "nat \<Rightarrow> nat" where
  "nextAddin addin_i = (if addin_i + 3 > 28 then 0 else addin_i + 3)"

definition obfiTimeval :: "int \<Rightarrow> int" where
  "obfiTimeval tv_sec = tv_sec AND 0xffff"

text \<open>The time used: the one of the file, or the clock while there is none.\<close>

definition timeUsed :: "int \<Rightarrow> int \<Rightarrow> int" where
  "timeUsed timeVal tv_sec = (if timeVal = 0 then obfiTimeval tv_sec else timeVal)"

definition obfiTimeCheck :: "int \<Rightarrow> int \<Rightarrow> int" where
  "obfiTimeCheck time1 time2 =
     (if \<bar>time1 - time2\<bar> < 20 then 0
      else
        let time1 = (if time1 < 65000 then time1 + 65535 else time1);
            time2 = (if time2 < 65000 then time2 + 65535 else time2) in
        if \<bar>time1 - time2\<bar> < 20 then 0 else 1)"

definition addinOf :: "int \<Rightarrow> nat \<Rightarrow> int \<Rightarrow> int \<Rightarrow> int" where
  "addinOf seq addin_i extra uid = (drop_bit addin_i seq AND 0x1f) + extra + uid"

text \<open>The value of a \<open>char\<close>, which is signed, and the character of a small number.\<close>

definition schar :: "char \<Rightarrow> int" where
  "schar c = (let k = of_char c in if k < 128 then k else k - 256)"

abbreviation (input) chr :: "int \<Rightarrow> char" where "chr k \<equiv> char_of k"

definition checkChar :: "int \<Rightarrow> int" where
  "checkChar rval = 0x53 - (rval AND 0x7) * 2"

definition headstring :: "int \<Rightarrow> int \<Rightarrow> string" where
  "headstring rval now =
     [chr (checkChar rval), chr ((drop_bit 4 now AND 0xf) + 0x61), chr ((now AND 0xf) + 0x61),
      chr ((drop_bit 12 now AND 0xf) + 0x61), chr ((drop_bit 8 now AND 0xf) + 0x61)]"

function obfiEncode_loop :: "int \<Rightarrow> int \<Rightarrow> int \<Rightarrow> string \<Rightarrow> nat \<Rightarrow> nat \<Rightarrow> string \<Rightarrow> string option" where
  "obfiEncode_loop rval extra uid inp ii addin_i my_in =
     (let ii = ii + 1;
          out = (if ii = 6 then [chr (rval + 0x65)] else []);
          my_in = (if ii = 6 then inp else my_in);
          addin = addinOf (seqOf rval) addin_i extra uid;
          addin_i = nextAddin addin_i in
      case my_in of
        [] \<Rightarrow> Some out
      | c # my_in \<Rightarrow> do {
          o1 \<leftarrow> turn addin c;
          rest \<leftarrow> obfiEncode_loop rval extra uid inp ii addin_i my_in;
          Some (out @ o1 # rest)
        })"
  by pat_completeness auto
termination
  by (relation "measures [\<lambda>(rval, extra, uid, inp, ii, addin_i, my_in). 6 - ii,
        \<lambda>(rval, extra, uid, inp, ii, addin_i, my_in). length my_in]") (auto split: if_splits)

declare obfiEncode_loop.simps [simp del]

text \<open>\<open>tv_sec\<close> and \<open>tv_usec\<close> are the clock, \<open>uid\<close> the user id; the result is the string in \<open>out\<close>.\<close>

definition obfiEncode :: "int \<Rightarrow> int \<Rightarrow> int \<Rightarrow> int \<Rightarrow> string \<Rightarrow> int \<Rightarrow> string option" where
  "obfiEncode tv_sec tv_usec uid timeVal inp extra =
     (let uid = uid AND 0xf5f;
          rval = tv_usec AND 0xf;
          now = timeUsed timeVal tv_sec in
      map_option ((#) (CHR ''.'')) (obfiEncode_loop rval extra uid inp 0 0 (headstring rval now)))"

function obfiDecode_loop ::
  "int \<Rightarrow> int \<Rightarrow> int \<Rightarrow> int \<Rightarrow> string \<Rightarrow> nat \<Rightarrow> nat \<Rightarrow> string \<Rightarrow> string \<Rightarrow> string \<Rightarrow> int \<Rightarrow> (int \<times> string \<times> int) option" where
  "obfiDecode_loop tv_sec rval extra uid inp ii addin_i my_in hs out timeVal =
     (let ii = ii + 1 in
      if ii = 6 then
        let timeVal = timeUsed timeVal tv_sec;
            encodedTime = (schar (hs ! 1) - 0x61) * 2 ^ 4 + (schar (hs ! 2) - 0x61) +
              (schar (hs ! 3) - 0x61) * 2 ^ 12 + (schar (hs ! 4) - 0x61) * 2 ^ 8;
            not_en = (hd inp \<noteq> CHR ''.'' \<or> schar (hs ! 0) \<noteq> checkChar rval \<or> obfiTimeCheck encodedTime timeVal \<noteq> 0) in
        if not_en then Some (AUTH_FILE_NOT_ENCRYPTED, inp, timeVal)
        else obfiDecode_loop tv_sec rval extra uid inp ii addin_i (drop 1 my_in) hs out timeVal
      else
        case my_in of
          [] \<Rightarrow> Some (0, out, timeVal)
        | c # my_in \<Rightarrow> do {
            o1 \<leftarrow> turnBack (addinOf (seqOf rval) addin_i extra uid) c;
            let hs = (if ii < 6 then hs @ [o1] else hs);
            let out = (if ii < 6 then out else out @ [o1]);
            obfiDecode_loop tv_sec rval extra uid inp ii (nextAddin addin_i) my_in hs out timeVal
          })"
  by pat_completeness auto
termination
  by (relation "measures [\<lambda>(tv_sec, rval, extra, uid, inp, ii, addin_i, my_in, hs, out, timeVal). 6 - ii,
        \<lambda>(tv_sec, rval, extra, uid, inp, ii, addin_i, my_in, hs, out, timeVal). length my_in]") (auto split: if_splits)

declare obfiDecode_loop.simps [simp del]

text \<open>Status, string in \<open>out\<close> and \<open>timeVal\<close>. The key is the seventh character; for a shorter string the code reads
  on in its array, but such a string is refused in any case.\<close>

definition obfiDecode :: "int \<Rightarrow> int \<Rightarrow> int \<Rightarrow> string \<Rightarrow> int \<Rightarrow> (int \<times> string \<times> int) option" where
  "obfiDecode tv_sec uid timeVal inp extra =
     (let uid = uid AND 0xf5f;
          too_short = length inp < 6;
          rval = (if 6 < length inp then schar (inp ! 6) else 0) - 0x65 in
      if rval > 15 \<or> rval < 0 \<or> too_short then Some (AUTH_FILE_NOT_ENCRYPTED, inp, timeVal)
      else obfiDecode_loop tv_sec rval extra uid inp 0 0 (drop 1 inp) [] [] timeVal)"

section \<open>Passwords on the wire\<close>

text \<open>The key in an array of 100 bytes; the digest of some bytes with a context whose buffer holds \<open>buf\<close>, and the
  buffer afterwards.\<close>

definition keyBuf :: "string \<Rightarrow> 8 word list" where
  "keyBuf key = take 100 (map of_char key @ replicate 100 0)"

definition md5Bytes :: "8 word list \<Rightarrow> 8 word list \<Rightarrow> 32 word \<Rightarrow> (8 word list \<times> 8 word list) option" where
  "md5Bytes buf bytes n = do {
     context \<leftarrow> MD5Update (MD5Init buf) bytes n;
     (digest, context) \<leftarrow> MD5Final context;
     Some (digest, md_buffer context)
   }"

text \<open>The four digests in \<open>buffer\<close>; \<open>junk\<close> is what the context holds at first.\<close>

definition keyBytes :: "8 word list \<Rightarrow> string \<Rightarrow> 8 word list option" where
  "keyBytes junk key = do {
     (d1, buf) \<leftarrow> md5Bytes junk (keyBuf key) 100;
     (d2, buf) \<leftarrow> md5Bytes buf d1 16;
     (d3, buf) \<leftarrow> md5Bytes buf (d1 @ d2) 32;
     (d4, _) \<leftarrow> md5Bytes buf (d1 @ d2) 32;
     Some (d1 @ d2 @ d3 @ d4)
   }"

text \<open>\<open>kp\<close> is the position of \<open>cpKey\<close> in \<open>buffer\<close>, \<open>pc\<close> the previous character of the ciphertext.\<close>

definition nextKey :: "nat \<Rightarrow> nat" where
  "nextKey kp = (if kp + 1 > 60 then 0 else kp + 1)"

fun encodeByKey_loop :: "bool \<Rightarrow> 8 word list \<Rightarrow> nat \<Rightarrow> int \<Rightarrow> string \<Rightarrow> string option" where
  "encodeByKey_loop cbc buf kp pc [] = Some []"
| "encodeByKey_loop cbc buf kp pc (c # cs) = do {
     k \<leftarrow> load buf kp;
     o1 \<leftarrow> turn (uint k + pc) c;
     rest \<leftarrow> encodeByKey_loop cbc buf (nextKey kp) (if wheelFind c \<noteq> None \<and> cbc then of_char o1 else pc) cs;
     Some (o1 # rest) }"

definition obfEncodeByKey :: "bool \<Rightarrow> 8 word list \<Rightarrow> string \<Rightarrow> string \<Rightarrow> string option" where
  "obfEncodeByKey cbc junk inp key = do { buf \<leftarrow> keyBytes junk key; encodeByKey_loop cbc buf 0 0 inp }"

fun decodeByKey_loop :: "bool \<Rightarrow> 8 word list \<Rightarrow> nat \<Rightarrow> int \<Rightarrow> string \<Rightarrow> string option" where
  "decodeByKey_loop cbc buf kp pc [] = Some []"
| "decodeByKey_loop cbc buf kp pc (c # cs) = do {
     k \<leftarrow> load buf kp;
     o1 \<leftarrow> turnBack (uint k + pc) c;
     rest \<leftarrow> decodeByKey_loop cbc buf (nextKey kp) (if wheelFind c \<noteq> None \<and> cbc then of_char c else pc) cs;
     Some (o1 # rest) }"

definition obfDecodeByKey :: "bool \<Rightarrow> 8 word list \<Rightarrow> string \<Rightarrow> string \<Rightarrow> string option" where
  "obfDecodeByKey cbc junk inp key = do { buf \<leftarrow> keyBytes junk key; decodeByKey_loop cbc buf 0 0 inp }"

definition obfGetMD5Hash :: "8 word list \<Rightarrow> string \<Rightarrow> string option" where
  "obfGetMD5Hash junk stringToHash = do {
     (digest, _) \<leftarrow> md5Bytes junk (keyBuf stringToHash) 100;
     Some (md5ToStr digest)
   }"

definition V2_Prefix :: string where
  "V2_Prefix = ''A.ObfV2''"

text \<open>\<open>strncpy\<close> of 90 characters does not terminate a key that long.\<close>

definition joinKeys :: "string \<Rightarrow> string \<Rightarrow> string option" where
  "joinKeys key key2 = (if length key < 90 then Some (key @ take 100 key2) else None)"

definition obfEncodeByKeyV2 :: "8 word list \<Rightarrow> int \<Rightarrow> string \<Rightarrow> string \<Rightarrow> string \<Rightarrow> string option" where
  "obfEncodeByKeyV2 junk tv_usec inp key key2 = do {
     let myIn = V2_Prefix @ take 150 inp;
     myKey \<leftarrow> joinKeys key key2;
     let rval = tv_usec AND 0x1f;
     let myIn = myIn[0 := chr (schar (myIn ! 0) + rval)];
     myKey2 \<leftarrow> obfGetMD5Hash junk myKey;
     obfEncodeByKey True junk myIn myKey2
   }"

text \<open>A string with its terminating zero stored at the start of an array.\<close>

definition storeString :: "string \<Rightarrow> char list \<Rightarrow> char list option" where
  "storeString str buf = (if length str < length buf then Some (str @ NULc # drop (Suc (length str)) buf) else None)"

text \<open>\<open>myOut\<close> is static: its content is an argument and a result.\<close>

definition obfDecodeByKeyV2 ::
  "8 word list \<Rightarrow> string \<Rightarrow> string \<Rightarrow> string \<Rightarrow> char list \<Rightarrow> (string \<times> char list) option" where
  "obfDecodeByKeyV2 junk inp key key2 myOut = do {
     myKey \<leftarrow> joinKeys key key2;
     myKey2 \<leftarrow> obfGetMD5Hash junk myKey;
     str \<leftarrow> obfDecodeByKey True junk inp myKey2;
     myOut \<leftarrow> storeString str myOut;
     let len = length V2_Prefix;
     let matches = list_all (\<lambda>i. V2_Prefix ! i = myOut ! i) [1..<len];
     if \<not> matches then do { str \<leftarrow> obfDecodeByKey False junk inp key; Some (str, myOut) }
     else Some (takeWhile (\<lambda>c. c \<noteq> NULc) (take MAX_PASSWORD_LEN (drop len myOut)), myOut)
   }"

section \<open>Turning characters forward and back\<close>

lemma length_wheel [simp]: "length wheel = 77"
  by (simp add: wheel_def)

lemma distinct_wheel: "distinct wheel"
  by code_simp

lemma wheel_loop_Some: "wheel_loop c n xs = Some i \<Longrightarrow> n \<le> i \<and> i - n < length xs \<and> xs ! (i - n) = c"
  by (induction xs arbitrary: n) (fastforce split: if_splits simp: nth_Cons')+

lemma wheel_loop_nth: "distinct xs \<Longrightarrow> i < length xs \<Longrightarrow> wheel_loop (xs ! i) n xs = Some (n + i)"
proof (induction xs arbitrary: i n)
  case (Cons x xs)
  then show ?case by (cases i) (auto simp: in_set_conv_nth)
qed simp

lemma wheelFind_Some: "wheelFind c = Some i \<Longrightarrow> i < 77 \<and> wheel ! i = c"
  using wheel_loop_Some [of c 0 wheel i] by (simp add: wheelFind_def)

lemma wheelFind_nth: "i < 77 \<Longrightarrow> wheelFind (wheel ! i) = Some i"
  using wheel_loop_nth [OF distinct_wheel, of i 0] by (simp add: wheelFind_def)

lemma wrapUp_mod: "j < wheel_len \<Longrightarrow> wrapUp j = j mod wheel_len"
proof (induction j rule: wrapUp.induct)
  case (1 j)
  then show ?case
    by (subst wrapUp.simps) (auto simp: wheel_len_def)
qed

lemma wheelAt_mod: "wheelAt (j mod wheel_len) = Some (wheel ! nat (j mod wheel_len))"
  using pos_mod_bound [of wheel_len j] by (simp add: wheelAt_def load_def wheel_len_def nat_less_iff)

text \<open>The character a character is turned into.\<close>

definition turned :: "int \<Rightarrow> char \<Rightarrow> char" where
  "turned addin c = (case wheelFind c of Some i \<Rightarrow> wheel ! nat ((int i + addin) mod wheel_len) | None \<Rightarrow> c)"

lemma smod_wheel: "0 \<le> j \<Longrightarrow> j smod wheel_len = j mod wheel_len"
  by (auto simp: signed_modulo_int_def wheel_len_def sgn_if)

lemma turn_turned: "0 \<le> addin \<Longrightarrow> turn addin c = Some (turned addin c)"
  by (simp add: turn_def turned_def smod_wheel wheelAt_mod split: option.splits)

lemma turnBack_turned:
  assumes "0 \<le> addin"
  shows "turnBack addin (turned addin c) = Some c"
proof (cases "wheelFind c")
  case (Some i)
  let ?k = "(int i + addin) mod wheel_len"
  have k: "0 \<le> ?k" "?k < wheel_len" "nat ?k < 77"
    by (simp_all add: wheel_len_def nat_less_iff)
  have "wrapUp (int (nat ?k) - addin) = (?k - addin) mod wheel_len"
    using k assms by (subst wrapUp_mod) auto
  also have "\<dots> = int i"
    using wheelFind_Some [OF Some] by (simp add: mod_diff_left_eq wheel_len_def)
  finally show ?thesis
    using Some k wheelFind_Some [OF Some] by (simp add: turnBack_def turned_def wheelFind_nth wheelAt_def load_def)
qed (simp add: turnBack_def turned_def)

section \<open>The loops of the authentication file\<close>

text \<open>A string turned character by character, with the additions \<open>A\<close> of the sequence.\<close>

fun turns :: "(nat \<Rightarrow> int) \<Rightarrow> nat \<Rightarrow> string \<Rightarrow> string" where
  "turns A ai [] = []"
| "turns A ai (c # cs) = turned (A ai) c # turns A (nextAddin ai) cs"

fun advance :: "string \<Rightarrow> nat \<Rightarrow> nat" where
  "advance [] ai = ai"
| "advance (c # cs) ai = advance cs (nextAddin ai)"

lemma length_turns [simp]: "length (turns A ai s) = length s"
  by (induction s arbitrary: ai) auto

lemma addinOf_nonneg: "0 \<le> extra \<Longrightarrow> 0 \<le> uid \<Longrightarrow> 0 \<le> addinOf seq ai extra uid"
  by (simp add: addinOf_def)

abbreviation (input) addins :: "int \<Rightarrow> int \<Rightarrow> int \<Rightarrow> nat \<Rightarrow> int" where
  "addins rval extra uid \<equiv> \<lambda>ai. addinOf (seqOf rval) ai extra uid"

lemma encode_tail:
  assumes "6 \<le> ii" "0 \<le> extra" "0 \<le> uid"
  shows "obfiEncode_loop rval extra uid inp ii ai s = Some (turns (addins rval extra uid) ai s)"
  using assms(1)
proof (induction s arbitrary: ii ai)
  case Nil
  then show ?case by (subst obfiEncode_loop.simps) simp
next
  case (Cons c s)
  then show ?case
    by (subst obfiEncode_loop.simps) (simp add: turn_turned addinOf_nonneg assms(2,3))
qed

lemma encode_head:
  assumes "length h = 5 - ii" "ii \<le> 5" "0 \<le> extra" "0 \<le> uid"
  shows "obfiEncode_loop rval extra uid inp ii ai h =
    Some (turns (addins rval extra uid) ai h @ chr (rval + 0x65) # turns (addins rval extra uid) (advance h ai) inp)"
  using assms(1,2)
proof (induction h arbitrary: ii ai)
  case Nil
  then have "ii = 5" by simp
  then show ?case
    using encode_tail [of 6 extra uid rval inp _ ] assms(3,4)
    by (subst obfiEncode_loop.simps) (auto simp: turn_turned addinOf_nonneg Let_def split: list.splits)
next
  case (Cons c h)
  then have "ii < 5" by simp
  with Cons.prems show ?case
    using Cons.IH [of "Suc ii" "nextAddin ai"]
    by (subst obfiEncode_loop.simps) (simp add: turn_turned addinOf_nonneg assms(3,4))
qed

lemma decode_tail:
  assumes "6 \<le> ii" "0 \<le> extra" "0 \<le> uid"
  shows "obfiDecode_loop tv rval extra uid inp ii ai (turns (addins rval extra uid) ai s) hs out tval =
    Some (0, out @ s, tval)"
  using assms(1)
proof (induction s arbitrary: ii ai out)
  case Nil
  then show ?case by (subst obfiDecode_loop.simps) simp
next
  case (Cons c s)
  then show ?case
    by (subst obfiDecode_loop.simps) (simp add: turnBack_turned addinOf_nonneg assms(2,3))
qed

lemma decode_head:
  assumes "length h = 5 - ii" "ii \<le> 5" "0 \<le> extra" "0 \<le> uid"
  shows "obfiDecode_loop tv rval extra uid inp ii ai (turns (addins rval extra uid) ai h @ rest) hs out tval =
    obfiDecode_loop tv rval extra uid inp 5 (advance h ai) rest (hs @ h) out tval"
  using assms(1,2)
proof (induction h arbitrary: ii ai hs)
  case (Cons c h)
  then have "ii < 5" by simp
  with Cons.prems show ?case
    using Cons.IH [of "Suc ii" "nextAddin ai" "hs @ [c]"]
    by (subst obfiDecode_loop.simps) (simp add: turnBack_turned addinOf_nonneg assms(3,4))
qed simp

lemma schar_chr: "0 \<le> k \<Longrightarrow> k < 128 \<Longrightarrow> schar (chr k) = k"
  by (simp add: schar_def of_char_of Let_def)

lemma nibble: "now AND 0xf = now mod 16" for now :: int
  using take_bit_eq_mask [of 4 now] by (simp add: take_bit_eq_mod mask_numeral)

lemma rval_range: "0 \<le> usec AND (0xf :: int)" "usec AND (0xf :: int) \<le> 15"
  by (simp_all add: nibble)

lemma check_range: "0 < checkChar rval" "checkChar rval < 128"
proof -
  have "rval AND 7 = rval mod 8"
    using take_bit_eq_mask [of 3 rval] by (simp add: take_bit_eq_mod mask_numeral)
  moreover have "0 \<le> rval mod 8" "rval mod 8 < 8" by simp_all
  ultimately show "0 < checkChar rval" "checkChar rval < 128"
    unfolding checkChar_def by linarith+
qed

text \<open>The head of an encoded password gives the check character and the time back.\<close>

lemma headstring_time:
  assumes "0 \<le> now" "now < 65536"
  shows "(schar (headstring rval now ! 1) - 0x61) * 2 ^ 4 + (schar (headstring rval now ! 2) - 0x61) +
    (schar (headstring rval now ! 3) - 0x61) * 2 ^ 12 + (schar (headstring rval now ! 4) - 0x61) * 2 ^ 8 = now"
proof -
  have n: "schar (chr (k mod 16 + 0x61)) = k mod 16 + 0x61" for k :: int
    using pos_mod_sign [of 16 k] pos_mod_bound [of 16 k] by (intro schar_chr) linarith+
  have d: "drop_bit 4 now = now div 16" "drop_bit 8 now = now div 16 div 16" "drop_bit 12 now = now div 16 div 16 div 16"
    by (simp_all add: drop_bit_eq_div flip: zdiv_zmult2_eq)
  define q1 q2 q3 where "q1 = now div 16" and "q2 = q1 div 16" and "q3 = q2 div 16"
  have hs: "schar (headstring rval now ! 1) = q1 mod 16 + 0x61" "schar (headstring rval now ! 2) = now mod 16 + 0x61"
      "schar (headstring rval now ! 3) = q3 mod 16 + 0x61" "schar (headstring rval now ! 4) = q2 mod 16 + 0x61"
    by (simp_all add: headstring_def nibble d q1_def q2_def q3_def n)
  have "q3 mod 16 = q3"
    using assms by (intro mod_pos_pos_trivial) (auto simp: q1_def q2_def q3_def)
  moreover have "now = 16 * q1 + now mod 16" "q1 = 16 * q2 + q1 mod 16" "q2 = 16 * q3 + q2 mod 16"
    by (simp_all add: q1_def q2_def q3_def)
  ultimately show ?thesis
    unfolding hs by simp
qed

lemma headstring_check: "schar (headstring rval now ! 0) = checkChar rval"
  using check_range [of rval] by (simp add: headstring_def schar_chr)

lemma length_headstring [simp]: "length (headstring rval now) = 5"
  by (simp add: headstring_def)

text \<open>The text a password is encoded to, of the key \<open>rval\<close>, the masked user id and the time.\<close>

definition obfText :: "int \<Rightarrow> int \<Rightarrow> int \<Rightarrow> int \<Rightarrow> string \<Rightarrow> string" where
  "obfText rval extra uid now pw = (let hs = headstring rval now in
     CHR ''.'' # turns (addins rval extra uid) 0 hs @ chr (rval + 0x65) # turns (addins rval extra uid) (advance hs 0) pw)"

lemma obfiEncode_text:
  "0 \<le> extra \<Longrightarrow> obfiEncode sec usec uid tv pw extra =
    Some (obfText (usec AND 0xf) extra (uid AND 0xf5f) (timeUsed tv sec) pw)"
  using encode_head [of "headstring (usec AND 0xf) (timeUsed tv sec)" 0 extra "uid AND 0xf5f" "usec AND 0xf" pw 0]
  by (simp add: obfiEncode_def obfText_def Let_def)

lemma length_obfText: "length (obfText rval extra uid now pw) = length pw + 7"
  by (simp add: obfText_def Let_def)

lemma schar_NUL: "schar NULc = 0"
  by (simp add: schar_def)

lemma chr_not_NUL: "0 < k \<Longrightarrow> k < 128 \<Longrightarrow> chr k \<noteq> NULc"
  using schar_chr [of k] schar_NUL by auto

lemma turned_NUL: "c \<noteq> NULc \<Longrightarrow> turned a c \<noteq> NULc"
proof -
  have "NULc \<notin> set wheel" by code_simp
  moreover have "wheel ! nat (j mod wheel_len) \<in> set wheel" for j
    by (rule nth_mem) (simp add: wheel_len_def nat_less_iff)
  ultimately show "c \<noteq> NULc \<Longrightarrow> turned a c \<noteq> NULc"
    unfolding turned_def by (cases "wheelFind c") (simp, metis option.case(2))
qed

lemma turns_NUL: "NULc \<notin> set s \<Longrightarrow> NULc \<notin> set (turns A ai s)"
proof (induction s arbitrary: ai)
  case (Cons c s)
  then show ?case using turned_NUL [of c "A ai"] by (metis list.set_intros(1) list.set_intros(2) set_ConsD turns.simps(2))
qed simp

lemma headstring_NUL: "NULc \<notin> set (headstring rval now)"
proof -
  have "chr (k mod 16 + 0x61) \<noteq> NULc" for k :: int
    using pos_mod_sign [of 16 k] pos_mod_bound [of 16 k] by (intro chr_not_NUL) linarith+
  moreover have "chr (checkChar rval) \<noteq> NULc"
    using check_range [of rval] by (intro chr_not_NUL) auto
  ultimately show ?thesis by (auto simp: headstring_def nibble dest: sym)
qed

lemma obfText_NUL:
  assumes "0 \<le> rval" "rval \<le> 15" "NULc \<notin> set pw"
  shows "NULc \<notin> set (obfText rval extra uid now pw)"
  using assms chr_not_NUL [of "rval + 0x65"] turns_NUL headstring_NUL [of rval now]
  by (auto simp: obfText_def Let_def dest: sym)

text \<open>Decoding gives the password back if the time of the file passes \<open>obfiTimeCheck\<close> against the encoded one;
  otherwise it refuses with \<open>AUTH_FILE_NOT_ENCRYPTED\<close> and hands out the text as it was stored.\<close>

lemma obfiDecode_text:
  fixes uid :: int and pw :: string
  assumes "0 \<le> extra" "0 \<le> now" "now < 65536" "0 \<le> rval" "rval \<le> 15"
  defines "enc \<equiv> obfText rval extra (uid AND 0xf5f) now pw"
  shows "obfiDecode sec uid tv enc extra =
    Some (if obfiTimeCheck now (timeUsed tv sec) = 0 then (0, pw, timeUsed tv sec)
      else (-906000, enc, timeUsed tv sec))"
proof -
  define u where "u = uid AND 0xf5f"
  define A where "A = addins rval extra u"
  define hs where "hs = headstring rval now"
  have enc: "enc = CHR ''.'' # turns A 0 hs @ chr (rval + 0x65) # turns A (advance hs 0) pw"
    by (simp add: enc_def obfText_def A_def hs_def u_def Let_def)
  have u: "0 \<le> u" by (simp add: u_def)
  have "enc ! 6 = chr (rval + 0x65)" "6 < length enc"
    by (simp_all add: enc nth_append hs_def)
  then have "obfiDecode sec uid tv enc extra = obfiDecode_loop sec rval extra u enc 0 0 (drop 1 enc) [] [] tv"
    using assms(4,5) by (simp add: obfiDecode_def schar_chr u_def Let_def)
  also have "\<dots> = obfiDecode_loop sec rval extra u enc 5 (advance hs 0) (chr (rval + 0x65) # turns A (advance hs 0) pw) hs [] tv"
    using decode_head [of hs 0 extra u sec rval enc 0] assms(1) u by (simp add: enc A_def hs_def)
  also have "\<dots> = Some (if obfiTimeCheck now (timeUsed tv sec) = 0 then (0, pw, timeUsed tv sec) else (-906000, enc, timeUsed tv sec))"
    using decode_tail [of 6 extra u sec rval enc "advance hs 0" pw hs "[]" "timeUsed tv sec"] assms(1) u
      headstring_time [OF assms(2,3), of rval] headstring_check [of rval now]
    by (subst obfiDecode_loop.simps) (simp add: Let_def A_def hs_def enc)
  finally show ?thesis .
qed

section \<open>Keys\<close>

lemma length_Encode: "length (Encode ws) = 4 * length ws"
  by (induction ws) auto

lemma length_md5: "length (md5 m) = 16"
  by (simp add: md5_def length_Encode del: Encode.simps split: prod.splits)

lemma final_buffer: "MD5Final c = Some (d, c') \<Longrightarrow> md_buffer c' = replicate 64 0"
  by (auto simp: MD5Final_def Let_def bind_eq_Some_conv)

lemma md5Bytes_digest:
  assumes "length buf = 64" "length bytes < 1000" "n = of_nat (length bytes)"
  shows "md5Bytes buf bytes n = Some (md5 bytes, replicate 64 0)"
proof -
  have "wpo (MD5Update (MD5Init buf) (bytes @ []) n) (\<lambda>c. wpo (MD5Final c) (\<lambda>(d, _). d = md5 bytes))"
    using assms by (intro md.one_piece md5_rep_init) auto
  then show ?thesis
    by (auto simp: md5Bytes_def wpo_def dest: final_buffer)
qed

lemma length_keyBuf: "length (keyBuf key) = 100"
  by (simp add: keyBuf_def)

text \<open>The bytes of a key do not depend on what was in memory.\<close>

definition keyStream :: "string \<Rightarrow> 8 word list" where
  "keyStream key = (let d1 = md5 (keyBuf key); d2 = md5 d1; d3 = md5 (d1 @ d2) in d1 @ d2 @ d3 @ d3)"

lemma keyBytes_stream: "length junk = 64 \<Longrightarrow> keyBytes junk key = Some (keyStream key)"
  by (simp add: keyBytes_def keyStream_def md5Bytes_digest length_keyBuf length_md5 Let_def)

lemma hash_stream: "length junk = 64 \<Longrightarrow> obfGetMD5Hash junk s = Some (md5ToStr (md5 (keyBuf s)))"
  by (simp add: obfGetMD5Hash_def md5Bytes_digest length_keyBuf)

lemma length_keyStream: "length (keyStream key) = 64"
  by (simp add: keyStream_def length_md5 Let_def)

lemma turned_on_wheel: "wheelFind (turned a c) = None \<longleftrightarrow> wheelFind c = None"
  by (auto simp: turned_def wheelFind_nth wheel_len_def nat_less_iff split: option.splits)

lemma of_char_nonneg: "0 \<le> (of_char c :: int)"
  by (metis of_nat_0_le_iff of_nat_of_char)

lemma byKey_loops:
  assumes "length buf = 64" "kp \<le> 60" "0 \<le> pc"
  shows "\<exists>enc. encodeByKey_loop cbc buf kp pc s = Some enc \<and> decodeByKey_loop cbc buf kp pc enc = Some s \<and> length enc = length s"
  using assms(2,3)
proof (induction s arbitrary: kp pc)
  case (Cons c s)
  let ?a = "uint (buf ! kp) + pc"
  let ?p = "if wheelFind c \<noteq> None \<and> cbc then of_char (turned ?a c) else pc"
  have "nextKey kp \<le> 60" "0 \<le> ?p" "0 \<le> ?a"
    using Cons.prems by (auto simp: nextKey_def of_char_nonneg)
  then obtain enc where "encodeByKey_loop cbc buf (nextKey kp) ?p s = Some enc" "decodeByKey_loop cbc buf (nextKey kp) ?p enc = Some s"
      "length enc = length s"
    using Cons.IH by blast
  moreover have "load buf kp = Some (buf ! kp)"
    using assms(1) Cons.prems by (simp add: load_def)
  ultimately show ?case
    using \<open>0 \<le> ?a\<close> by (simp add: turn_turned turnBack_turned turned_on_wheel)
qed simp

lemma byKey_roundtrip:
  assumes "length junk = 64" "length junk' = 64"
  shows "\<exists>enc. obfEncodeByKey cbc junk s key = Some enc \<and> obfDecodeByKey cbc junk' enc key = Some s \<and> length enc = length s"
  using byKey_loops [of "keyStream key" 0 0 cbc s] assms
  by (simp add: obfEncodeByKey_def obfDecodeByKey_def keyBytes_stream length_keyStream)

lemma takeWhile_NUL: "NULc \<notin> set s \<Longrightarrow> length s < n \<Longrightarrow> takeWhile (\<lambda>c. c \<noteq> NULc) (take n (s @ NULc # r)) = s"
  by (simp add: takeWhile_append takeWhile_eq_all_conv take_Cons' split: if_splits)

text \<open>The static array after a password of the second version was decoded.\<close>

definition holdsV2 :: "string \<Rightarrow> char list \<Rightarrow> bool" where
  "holdsV2 pw myOut \<longleftrightarrow> (\<exists>c r. myOut = c # tl V2_Prefix @ pw @ NULc # r)"

lemma holdsV2_out:
  assumes "holdsV2 pw myOut" "NULc \<notin> set pw" "length pw < 50"
  shows "list_all (\<lambda>i. V2_Prefix ! i = myOut ! i) [1..<length V2_Prefix]"
    "takeWhile (\<lambda>c. c \<noteq> NULc) (take 50 (drop (length V2_Prefix) myOut)) = pw"
proof -
  obtain c r where m: "myOut = c # tl V2_Prefix @ pw @ NULc # r"
    using assms(1) by (auto simp: holdsV2_def)
  show "list_all (\<lambda>i. V2_Prefix ! i = myOut ! i) [1..<length V2_Prefix]"
    by (simp add: m V2_Prefix_def upt_rec nth_Cons')
  show "takeWhile (\<lambda>c. c \<noteq> NULc) (take 50 (drop (length V2_Prefix) myOut)) = pw"
    using takeWhile_NUL [OF assms(2,3)] by (simp add: m V2_Prefix_def)
qed

lemma V2_steps:
  assumes "length key < 90" "length pw < 50" "CHR 0x00 \<notin> set pw" "length myOut = 200"
    and "length junk = 64" "length junk' = 64"
  shows "\<exists>enc myOut'. obfEncodeByKeyV2 junk usec pw key key2 = Some enc \<and>
    obfDecodeByKeyV2 junk' enc key key2 myOut = Some (pw, myOut') \<and> holdsV2 pw myOut'"
proof -
  define c where "c = chr (schar (CHR ''A'') + (usec AND 0x1f))"
  define s where "s = c # tl V2_Prefix @ pw"
  define h where "h = md5ToStr (md5 (keyBuf (key @ take 100 key2)))"
  obtain enc where enc: "obfEncodeByKey True junk s h = Some enc" "obfDecodeByKey True junk' enc h = Some s"
    using byKey_roundtrip [OF assms(5,6)] by blast
  have "obfEncodeByKeyV2 junk usec pw key key2 = Some enc"
    using enc(1) assms by (simp add: obfEncodeByKeyV2_def joinKeys_def hash_stream h_def s_def c_def V2_Prefix_def Let_def)
  moreover have "storeString s myOut = Some (s @ NULc # drop (Suc (length s)) myOut)"
    using assms(2,4) by (simp add: storeString_def s_def V2_Prefix_def)
  moreover have h: "holdsV2 pw (s @ NULc # drop (Suc (length s)) myOut)"
    by (auto simp: holdsV2_def s_def)
  ultimately show ?thesis
    using holdsV2_out [OF h assms(3,2)] enc(2) assms
    by (simp add: obfDecodeByKeyV2_def joinKeys_def hash_stream h_def Let_def)
qed

lemma V2_empty:
  assumes "holdsV2 pw myOut" "CHR 0x00 \<notin> set pw" "length pw < 50" "length key < 90" "length junk = 64"
  shows "\<exists>myOut'. obfDecodeByKeyV2 junk [] key key2 myOut = Some (pw, myOut')"
proof -
  obtain c r where m: "myOut = c # tl V2_Prefix @ pw @ NULc # r"
    using assms(1) by (auto simp: holdsV2_def)
  then have "holdsV2 pw (NULc # drop 1 myOut)"
    by (auto simp: holdsV2_def)
  from holdsV2_out [OF this assms(2,3)] m assms(4,5) show ?thesis
    by (simp add: obfDecodeByKeyV2_def obfDecodeByKey_def joinKeys_def hash_stream keyBytes_stream storeString_def Let_def)
qed

section \<open>Properties\<close>

text \<open>C35. A password of up to 49 characters encoded with \<open>obfEncodeByKeyV2\<close> is decoded by \<open>obfDecodeByKeyV2\<close> with
  the same two keys, whatever the contexts of the digests and the static array held before.\<close>

theorem obfV2_roundtrip:
  assumes "length key < 90" "length pw < 50" "CHR 0x00 \<notin> set pw" "length myOut = 200"
    and "length junk = 64" "length junk' = 64"
  shows "\<exists>enc myOut'. obfEncodeByKeyV2 junk usec pw key key2 = Some enc \<and>
    obfDecodeByKeyV2 junk' enc key key2 myOut = Some (pw, myOut')"
  using V2_steps [OF assms, of usec key2] by blast

theorem obfV2_roundtrip_witness:
  "\<exists>enc myOut'. obfEncodeByKeyV2 (replicate 64 1) 77 ''secret'' ''key'' ''session'' = Some enc \<and>
    obfDecodeByKeyV2 (replicate 64 2) enc ''key'' ''session'' (replicate 200 CHR ''x'') = Some (''secret'', myOut')"
  by (rule obfV2_roundtrip) simp_all

text \<open>C36. The decoded text is left in a static array and the test for the prefix skips the first character: after
  any password was decoded, decoding the empty string, with whatever keys, gives that password again.\<close>

theorem empty_shows_previous:
  assumes "length key < 90" "length pw < 50" "CHR 0x00 \<notin> set pw" "length myOut = 200"
    and "length junk = 64" "length junk' = 64" "length key' < 90"
  shows "\<exists>enc myOut1 myOut2. obfEncodeByKeyV2 junk usec pw key key2 = Some enc \<and>
    obfDecodeByKeyV2 junk' enc key key2 myOut = Some (pw, myOut1) \<and>
    obfDecodeByKeyV2 junk' [] key' key2' myOut1 = Some (pw, myOut2)"
proof -
  obtain enc myOut1 where "obfEncodeByKeyV2 junk usec pw key key2 = Some enc"
      "obfDecodeByKeyV2 junk' enc key key2 myOut = Some (pw, myOut1)" "holdsV2 pw myOut1"
    using V2_steps [OF assms(1-6), of usec key2] by blast
  with V2_empty [of pw myOut1 key' junk' key2'] assms show ?thesis by blast
qed

theorem empty_shows_previous_witness:
  "\<exists>enc myOut1 myOut2. obfEncodeByKeyV2 (replicate 64 1) 77 ''secret'' ''key'' ''session'' = Some enc \<and>
    obfDecodeByKeyV2 (replicate 64 2) enc ''key'' ''session'' (replicate 200 CHR ''x'') = Some (''secret'', myOut1) \<and>
    obfDecodeByKeyV2 (replicate 64 2) [] ''other'' ''later'' myOut1 = Some (''secret'', myOut2)"
  by (rule empty_shows_previous) simp_all

end
