(* ===== verification/Auth_File.thy ===== *)
theory Auth_File
  imports Obf Fuse_World
begin

text \<open>
  The authentication file of a user (\<open>obfSavePw\<close>, \<open>obfGetPw\<close>, \<open>obfRmPw\<close> and \<open>obfTempOps\<close> of
  \<open>lib/core/src/obf.c\<close>), in which a login finds the password. The global variables are the state; the file, the
  clock, the user id and the answers of the user are calls into the world. The questions and messages printed are
  left out. A string that overflows its array, or is read from memory that was never written (as after a question at the end of the
  input), is \<open>None\<close>.
\<close>

unbundle bit_operations_syntax

section \<open>Operations\<close>

abbreviation (input) FILE_OPEN_ERR :: int where "FILE_OPEN_ERR \<equiv> -900000"
abbreviation (input) FILE_READ_ERR :: int where "FILE_READ_ERR \<equiv> -901000"
abbreviation (input) FILE_WRITE_ERR :: int where "FILE_WRITE_ERR \<equiv> -902000"
abbreviation (input) PASSWORD_EXCEEDS_MAX_SIZE :: int where "PASSWORD_EXCEEDS_MAX_SIZE \<equiv> -903000"
abbreviation (input) ENVIRONMENT_VAR_HOME_NOT_DEFINED :: int where "ENVIRONMENT_VAR_HOME_NOT_DEFINED \<equiv> -904000"
abbreviation (input) UNABLE_TO_STAT_FILE :: int where "UNABLE_TO_STAT_FILE \<equiv> -905000"
abbreviation (input) AUTH_FILE_DOES_NOT_EXIST :: int where "AUTH_FILE_DOES_NOT_EXIST \<equiv> -907000"
abbreviation (input) UNLINK_FAILED :: int where "UNLINK_FAILED \<equiv> -908000"
abbreviation (input) NO_PASSWORD_ENTERED :: int where "NO_PASSWORD_ENTERED \<equiv> -909000"

definition TMP_FLAG :: string where
  "TMP_FLAG = ''%TEMPORARY_PW%''"

definition AUTH_FILENAME_DEFAULT :: string where
  "AUTH_FILENAME_DEFAULT = ''.irods/.irodsA''"

text \<open>\<open>authFileName\<close> is the static variable of \<open>getRodsEnv.c\<close> that \<open>getRodsEnvAuthFileName\<close> returns.\<close>

record 'w obfstate = "'w base" +
  obfDebug :: int
  timeVal :: int
  isTemp :: int
  doTemp :: int
  authFileName :: string

text \<open>The microseconds of the clock, the variable \<open>HOME\<close>, and what \<open>fgets\<close> stores in a buffer of a given size from
  the standard input, with the newline if it fits; at the end of the input it stores nothing.\<close>

record 'w authos = "'w os" +
  au_usec :: "'w \<Rightarrow> int \<times> 'w"
  au_home :: "'w \<Rightarrow> string option \<times> 'w"
  au_fgets :: "int \<Rightarrow> 'w \<Rightarrow> string option \<times> 'w"

definition obfSetDebug :: "int \<Rightarrow> ('w, 'z) obfstate_scheme \<Rightarrow> (int \<times> ('w, 'z) obfstate_scheme) option" where
  "obfSetDebug opt s = Some (0, s\<lparr>obfDebug := opt\<rparr>)"

definition obfiGetFilename :: "'w authos \<Rightarrow> ('w, 'z) obfstate_scheme \<Rightarrow> ((int \<times> string) \<times> ('w, 'z) obfstate_scheme) option" where
  "obfiGetFilename OS s =
     (if authFileName s \<noteq> [] then Some ((0, authFileName s), s)
      else do {
        (envVar, s) \<leftarrow> sys (au_home OS) s;
        case envVar of
          None \<Rightarrow> Some ((ENVIRONMENT_VAR_HOME_NOT_DEFINED, []), s)
        | Some home \<Rightarrow>
            if length home < MAX_NAME_LEN \<and> length home + 1 + length AUTH_FILENAME_DEFAULT < MAX_NAME_LEN + 10
            then Some ((0, home @ ''/'' @ AUTH_FILENAME_DEFAULT), s)
            else None
      })"

definition obfiGetTv :: "'w authos \<Rightarrow> string \<Rightarrow> ('w, 'z) obfstate_scheme \<Rightarrow> (int \<times> ('w, 'z) obfstate_scheme) option" where
  "obfiGetTv OS fileName s = do {
     ((fval, statBuf), s) \<leftarrow> sys (os_stat OS fileName) s;
     if fval < 0 then Some (UNABLE_TO_STAT_FILE, s\<lparr>timeVal := 0\<rparr>)
     else Some (0, s\<lparr>timeVal := st_mtime statBuf AND 0xffff\<rparr>)
   }"

text \<open>The string in a buffer that was filled with some bytes; past them it is not initialised.\<close>

definition stringIn :: "string \<Rightarrow> string option" where
  "stringIn bytes = (if NULc \<in> set bytes then Some (takeWhile (\<lambda>c. c \<noteq> NULc) bytes) else None)"

definition obfiGetPw :: "'w authos \<Rightarrow> string \<Rightarrow> ('w, 'z) obfstate_scheme \<Rightarrow> ((int \<times> string) \<times> ('w, 'z) obfstate_scheme) option" where
  "obfiGetPw OS fileName s = do {
     (fd_in, s) \<leftarrow> sys (os_open OS fileName O_RDONLY 0) s;
     if fd_in < 0 then Some ((FILE_OPEN_ERR, []), s)
     else do {
       ((rval, buf1), s) \<leftarrow> sys (os_read OS fd_in 500) s;
       (_, s) \<leftarrow> sys (os_close OS fd_in) s;
       if rval < 0 then Some ((FILE_READ_ERR, []), s)
       else do {
         str \<leftarrow> stringIn buf1;
         if length str < MAX_PASSWORD_LEN then Some ((0, str), s)
         else Some ((PASSWORD_EXCEEDS_MAX_SIZE, []), s)
       }
     }
   }"

text \<open>\<open>obfiDecode\<close> and \<open>obfiEncode\<close> with the user id, the clock and \<open>timeVal\<close>; the clock's seconds are read when
  there is no time of a file.\<close>

definition clockSec :: "'w authos \<Rightarrow> ('w, 'z) obfstate_scheme \<Rightarrow> (int \<times> ('w, 'z) obfstate_scheme) option" where
  "clockSec OS s = (if timeVal s = 0 then sys (os_time OS) s else Some (0, s))"

definition runDecode :: "'w authos \<Rightarrow> string \<Rightarrow> int \<Rightarrow> ('w, 'z) obfstate_scheme \<Rightarrow> ((int \<times> string) \<times> ('w, 'z) obfstate_scheme) option" where
  "runDecode OS inp extra s = do {
     (uid, s) \<leftarrow> sys (os_getuid OS) s;
     (sec, s) \<leftarrow> clockSec OS s;
     (status, out, tv) \<leftarrow> obfiDecode sec uid (timeVal s) inp extra;
     Some ((status, out), s\<lparr>timeVal := tv\<rparr>)
   }"

definition runEncode :: "'w authos \<Rightarrow> string \<Rightarrow> int \<Rightarrow> ('w, 'z) obfstate_scheme \<Rightarrow> (string \<times> ('w, 'z) obfstate_scheme) option" where
  "runEncode OS inp extra s = do {
     (uid, s) \<leftarrow> sys (os_getuid OS) s;
     (usec, s) \<leftarrow> sys (au_usec OS) s;
     (sec, s) \<leftarrow> clockSec OS s;
     out \<leftarrow> obfiEncode sec usec uid (timeVal s) inp extra;
     Some (out, s)
   }"

definition obfiGetEnvKey :: int where
  "obfiGetEnvKey = 0"

definition obfGetPw :: "'w authos \<Rightarrow> ('w, 'z) obfstate_scheme \<Rightarrow> ((int \<times> string) \<times> ('w, 'z) obfstate_scheme) option" where
  "obfGetPw OS s = do {
     let envVal = obfiGetEnvKey;
     ((i, fileName), s) \<leftarrow> obfiGetFilename OS s;
     if i < 0 then Some ((i, []), s)
     else do {
       (i, s) \<leftarrow> obfiGetTv OS fileName s;
       if i < 0 then Some ((i, []), s)
       else do {
         ((i, myPw), s) \<leftarrow> obfiGetPw OS fileName s;
         if i < 0 then Some ((i, []), s)
         else do {
           ((i, myPwD), s) \<leftarrow> runDecode OS myPw envVal s;
           if i < 0 then Some ((i, []), s)
           else
             case strstr myPwD TMP_FLAG of
               Some cp \<Rightarrow> Some ((0, take cp myPwD), s\<lparr>isTemp := 1\<rparr>)
             | None \<Rightarrow> Some ((0, myPwD), s\<lparr>isTemp := 0\<rparr>)
         }
       }
     }
   }"

definition obfiSetTimeFromFile :: "'w authos \<Rightarrow> int \<Rightarrow> ('w, 'z) obfstate_scheme \<Rightarrow> (int \<times> ('w, 'z) obfstate_scheme) option" where
  "obfiSetTimeFromFile OS fd s = do {
     (wval, s) \<leftarrow> sys (os_write OS fd '' '') s;
     if wval \<noteq> 1 then Some (FILE_WRITE_ERR, s)
     else do {
       ((fval, statBuf), s) \<leftarrow> sys (os_fstat OS fd) s;
       if fval < 0 then Some (UNABLE_TO_STAT_FILE, s\<lparr>timeVal := 0\<rparr>)
       else do {
         (lval, s) \<leftarrow> sys (os_lseek OS fd 0) s;
         if lval < 0 then Some (UNABLE_TO_STAT_FILE, s)
         else Some (0, s\<lparr>timeVal := st_mtime statBuf AND 0xffff\<rparr>)
       }
     }
   }"

definition reopenOutFile :: "'w authos \<Rightarrow> string \<Rightarrow> ('w, 'z) obfstate_scheme \<Rightarrow> (int \<times> ('w, 'z) obfstate_scheme) option" where
  "reopenOutFile OS fileName s = do {
     (fd_out, s) \<leftarrow> sys (os_open OS fileName (O_CREAT OR O_WRONLY OR O_TRUNC) 384) s;
     if fd_out < 0 then Some (FILE_OPEN_ERR, s) else Some (fd_out, s)
   }"

definition obfiOpenOutFile :: "'w authos \<Rightarrow> string \<Rightarrow> int \<Rightarrow> ('w, 'z) obfstate_scheme \<Rightarrow> (int \<times> ('w, 'z) obfstate_scheme) option" where
  "obfiOpenOutFile OS fileName fileOpt s = do {
     (fd_out, s) \<leftarrow> sys (os_open OS fileName (O_CREAT OR O_WRONLY OR O_EXCL) 384) s;
     if fd_out < 0 then do {
       (errno, s) \<leftarrow> sys (os_errno OS) s;
       if errno \<noteq> EEXIST then Some (FILE_OPEN_ERR, s)
       else if fileOpt > 0 then do {
         (line, s) \<leftarrow> sys (au_fgets OS (int MAX_NAME_LEN)) s;
         inbuf \<leftarrow> line;
         if length inbuf < 2 then Some (0, s)
         else if inbuf ! 0 = CHR ''y'' then reopenOutFile OS fileName s
         else Some (0, s)
       }
       else reopenOutFile OS fileName s
     }
     else Some (fd_out, s)
   }"

definition obfiWritePw :: "'w authos \<Rightarrow> int \<Rightarrow> string \<Rightarrow> ('w, 'z) obfstate_scheme \<Rightarrow> (int \<times> ('w, 'z) obfstate_scheme) option" where
  "obfiWritePw OS fd pw s = do {
     (wval, s) \<leftarrow> sys (os_write OS fd (pw @ [NULc])) s;
     if wval \<noteq> int (length pw) + 1 then Some (FILE_WRITE_ERR, s)
     else do { (_, s) \<leftarrow> sys (os_close OS fd) s; Some (0, s) }
   }"

text \<open>The password asked for, or the argument; \<open>strncpy\<close> does not terminate an argument of 50 characters.\<close>

definition newPassword :: "'w authos \<Rightarrow> string \<Rightarrow> ('w, 'z) obfstate_scheme \<Rightarrow> (string \<times> ('w, 'z) obfstate_scheme) option" where
  "newPassword OS pwArg s =
     (if length pwArg = 0 then do { (line, s) \<leftarrow> sys (au_fgets OS (int MAX_PASSWORD_LEN + 50)) s; inbuf \<leftarrow> line; Some (inbuf, s) }
      else if length pwArg < MAX_PASSWORD_LEN then Some (pwArg, s) else None)"

definition obfSavePw :: "'w authos \<Rightarrow> int \<Rightarrow> string \<Rightarrow> ('w, 'z) obfstate_scheme \<Rightarrow> (int \<times> ('w, 'z) obfstate_scheme) option" where
  "obfSavePw OS fileOpt pwArg s = do {
     ((i, fileName), s) \<leftarrow> obfiGetFilename OS s;
     if i \<noteq> 0 then Some (i, s)
     else do {
       let envVal = obfiGetEnvKey;
       (inbuf, s) \<leftarrow> newPassword OS pwArg s;
       if length inbuf < 1 then Some (NO_PASSWORD_ENTERED, s)
       else if length inbuf > MAX_PASSWORD_LEN - 2 then Some (PASSWORD_EXCEEDS_MAX_SIZE, s)
       else do {
         let inbuf = (if last inbuf = CHR 0x0A then butlast inbuf else inbuf);
         let inbuf = (if doTemp s \<noteq> 0 then inbuf @ TMP_FLAG else inbuf);
         (fd, s) \<leftarrow> obfiOpenOutFile OS fileName fileOpt s;
         if fd < 0 then Some (FILE_OPEN_ERR, s)
         else if fd = 0 then Some (0, s)
         else do {
           (i, s) \<leftarrow> obfiSetTimeFromFile OS fd s;
           if i < 0 then Some (i, s)
           else do {
             (myPw, s) \<leftarrow> runEncode OS inbuf envVal s;
             if length myPw < MAX_PASSWORD_LEN + 10 then do {
               (i, s) \<leftarrow> obfiWritePw OS fd myPw s;
               if i < 0 then Some (i, s) else Some (0, s)
             }
             else None
           }
         }
       }
     }
   }"

definition obfRmPw :: "'w authos \<Rightarrow> int \<Rightarrow> ('w, 'z) obfstate_scheme \<Rightarrow> (int \<times> ('w, 'z) obfstate_scheme) option" where
  "obfRmPw OS opt s = do {
     ((i, fileName), s) \<leftarrow> obfiGetFilename OS s;
     if i \<noteq> 0 then Some (i, s)
     else do {
       (fd, s) \<leftarrow> sys (os_open OS fileName O_RDONLY 0) s;
       if fd < 0 then Some (AUTH_FILE_DOES_NOT_EXIST, s)
       else do {
         (_, s) \<leftarrow> sys (os_close OS fd) s;
         if opt = 0 then do {
           (line, s) \<leftarrow> sys (au_fgets OS (int MAX_NAME_LEN)) s;
           inbuf \<leftarrow> line;
           if length inbuf < 2 then Some (0, s)
           else do {
             (i, s) \<leftarrow> (if inbuf ! 0 = CHR ''y'' then sys (os_unlink OS fileName) s else Some (int (length inbuf), s));
             Some (if i = 0 then 0 else UNLINK_FAILED, s)
           }
         }
         else do {
           (i, s) \<leftarrow> sys (os_unlink OS fileName) s;
           Some (if i = 0 then 0 else UNLINK_FAILED, s)
         }
       }
     }
   }"

definition obfTempOps :: "'w authos \<Rightarrow> int \<Rightarrow> ('w, 'z) obfstate_scheme \<Rightarrow> (int \<times> ('w, 'z) obfstate_scheme) option" where
  "obfTempOps OS tmpOpt s = do {
     let s = (if tmpOpt = 1 then s\<lparr>doTemp := 1\<rparr> else s);
     if tmpOpt = 2 then do {
       ((i, _), s) \<leftarrow> obfGetPw OS s;
       if i \<noteq> 0 then Some (i, s)
       else if isTemp s \<noteq> 0 then do {
         ((i, fileName), s) \<leftarrow> obfiGetFilename OS s;
         if i \<noteq> 0 then Some (i, s)
         else do { (_, s) \<leftarrow> sys (os_unlink OS fileName) s; Some (0, s) }
       }
       else Some (0, s)
     }
     else Some (0, s)
   }"

section \<open>A system that keeps files\<close>

text \<open>\<open>disk\<close> gives the content and the modification time of a file, \<open>fds\<close> the file and the position of a
  descriptor. \<open>S\<close> holds the times at which files are written, \<open>U\<close> is the user.\<close>

definition overwrite :: "nat \<Rightarrow> string \<Rightarrow> string \<Rightarrow> string" where
  "overwrite p b c = take p c @ b @ drop (p + length b) c"

definition quiet :: "('w \<Rightarrow> 'd) \<Rightarrow> ('w \<Rightarrow> 'f) \<Rightarrow> ('w \<Rightarrow> 'a \<times> 'w) \<Rightarrow> bool" where
  "quiet disk fds f \<longleftrightarrow> (\<forall>w. disk (snd (f w)) = disk w \<and> fds (snd (f w)) = fds w)"

definition creates :: "('w \<Rightarrow> string \<Rightarrow> (string \<times> int) option) \<Rightarrow> ('w \<Rightarrow> int \<Rightarrow> (string \<times> nat) option) \<Rightarrow>
    string \<Rightarrow> 'w \<Rightarrow> int \<times> 'w \<Rightarrow> bool" where
  "creates disk fds n w r \<longleftrightarrow> 0 < fst r \<and> (\<exists>t. disk (snd r) = (disk w)(n \<mapsto> ([], t))) \<and> fds (snd r) = (fds w)(fst r \<mapsto> (n, 0))"

definition refuses :: "('w \<Rightarrow> string \<Rightarrow> (string \<times> int) option) \<Rightarrow> ('w \<Rightarrow> int \<Rightarrow> (string \<times> nat) option) \<Rightarrow>
    'w authos \<Rightarrow> 'w \<Rightarrow> int \<times> 'w \<Rightarrow> bool" where
  "refuses disk fds OS w r \<longleftrightarrow> fst r < 0 \<and> disk (snd r) = disk w \<and> fds (snd r) = fds w \<and> fst (os_errno OS (snd r)) = EEXIST"

definition opens :: "('w \<Rightarrow> string \<Rightarrow> (string \<times> int) option) \<Rightarrow> ('w \<Rightarrow> int \<Rightarrow> (string \<times> nat) option) \<Rightarrow>
    string \<Rightarrow> 'w \<Rightarrow> int \<times> 'w \<Rightarrow> bool" where
  "opens disk fds n w r \<longleftrightarrow> 0 \<le> fst r \<and> disk (snd r) = disk w \<and> fds (snd r) = (fds w)(fst r \<mapsto> (n, 0))"

definition auth_disk :: "'w authos \<Rightarrow> ('w \<Rightarrow> string \<Rightarrow> (string \<times> int) option) \<Rightarrow> ('w \<Rightarrow> int \<Rightarrow> (string \<times> nat) option) \<Rightarrow>
    int set \<Rightarrow> int \<Rightarrow> bool" where
  "auth_disk OS disk fds S U \<longleftrightarrow>
     quiet disk fds (os_time OS) \<and> quiet disk fds (au_usec OS) \<and> quiet disk fds (os_getuid OS) \<and> quiet disk fds (os_errno OS) \<and>
     (\<forall>n. quiet disk fds (os_stat OS n)) \<and> (\<forall>fd. quiet disk fds (os_fstat OS fd)) \<and>
     (\<forall>w. fst (os_getuid OS w) = U) \<and>
     (\<forall>n w. disk w n = None \<longrightarrow> creates disk fds n w (os_open OS n (O_CREAT OR O_WRONLY OR O_EXCL) 384 w)) \<and>
     (\<forall>n w. disk w n \<noteq> None \<longrightarrow> refuses disk fds OS w (os_open OS n (O_CREAT OR O_WRONLY OR O_EXCL) 384 w)) \<and>
     (\<forall>n w. disk w n \<noteq> None \<longrightarrow> creates disk fds n w (os_open OS n (O_CREAT OR O_WRONLY OR O_TRUNC) 384 w)) \<and>
     (\<forall>n w. disk w n \<noteq> None \<longrightarrow> opens disk fds n w (os_open OS n O_RDONLY 0 w)) \<and>
     (\<forall>fd n p c t b w. fds w fd = Some (n, p) \<longrightarrow> disk w n = Some (c, t) \<longrightarrow>
        fst (os_write OS fd b w) = int (length b) \<and> fds (snd (os_write OS fd b w)) fd = Some (n, p + length b) \<and>
        (\<exists>t' \<in> S. disk (snd (os_write OS fd b w)) n = Some (overwrite p b c, t'))) \<and>
     (\<forall>fd n p w. fds w fd = Some (n, p) \<longrightarrow> fst (os_lseek OS fd 0 w) = 0 \<and>
        disk (snd (os_lseek OS fd 0 w)) = disk w \<and> fds (snd (os_lseek OS fd 0 w)) fd = Some (n, 0)) \<and>
     (\<forall>fd n p c t w. fds w fd = Some (n, p) \<longrightarrow> disk w n = Some (c, t) \<longrightarrow>
        fst (fst (os_fstat OS fd w)) = 0 \<and> st_mtime (snd (fst (os_fstat OS fd w))) = t) \<and>
     (\<forall>n c t w. disk w n = Some (c, t) \<longrightarrow> fst (fst (os_stat OS n w)) = 0 \<and> st_mtime (snd (fst (os_stat OS n w))) = t) \<and>
     (\<forall>fd n c t w. fds w fd = Some (n, 0) \<longrightarrow> disk w n = Some (c, t) \<longrightarrow>
        0 \<le> fst (fst (os_read OS fd 500 w)) \<and> snd (fst (os_read OS fd 500 w)) = take 500 c \<and>
        disk (snd (os_read OS fd 500 w)) = disk w) \<and>
     (\<forall>fd w. disk (snd (os_close OS fd w)) = disk w)"

lemma auth_diskD:
  assumes "auth_disk OS disk fds S U"
  shows "disk (snd (os_time OS w)) = disk w" "fds (snd (os_time OS w)) = fds w"
    "disk (snd (au_usec OS w)) = disk w" "fds (snd (au_usec OS w)) = fds w"
    "disk (snd (os_getuid OS w)) = disk w" "fds (snd (os_getuid OS w)) = fds w" "fst (os_getuid OS w) = U"
    "disk (snd (os_errno OS w)) = disk w" "disk (snd (os_stat OS n w)) = disk w"
    "disk (snd (os_fstat OS fd w)) = disk w" "fds (snd (os_fstat OS fd w)) = fds w" "disk (snd (os_close OS fd w)) = disk w"
  using assms by (simp_all add: auth_disk_def quiet_def)

lemma auth_disk_open:
  assumes "auth_disk OS disk fds S U"
  shows "disk w n = None \<Longrightarrow> creates disk fds n w (os_open OS n (O_CREAT OR O_WRONLY OR O_EXCL) 384 w)"
    "disk w n \<noteq> None \<Longrightarrow> refuses disk fds OS w (os_open OS n (O_CREAT OR O_WRONLY OR O_EXCL) 384 w)"
    "disk w n \<noteq> None \<Longrightarrow> creates disk fds n w (os_open OS n (O_CREAT OR O_WRONLY OR O_TRUNC) 384 w)"
    "disk w n \<noteq> None \<Longrightarrow> opens disk fds n w (os_open OS n O_RDONLY 0 w)"
  using assms by (simp_all add: auth_disk_def)

lemma auth_disk_fd:
  assumes "auth_disk OS disk fds S U" "fds w fd = Some (n, p)"
  shows "disk w n = Some (c, t) \<Longrightarrow> fst (os_write OS fd b w) = int (length b) \<and>
      fds (snd (os_write OS fd b w)) fd = Some (n, p + length b) \<and>
      (\<exists>t' \<in> S. disk (snd (os_write OS fd b w)) n = Some (overwrite p b c, t'))"
    "fst (os_lseek OS fd 0 w) = 0 \<and> disk (snd (os_lseek OS fd 0 w)) = disk w \<and> fds (snd (os_lseek OS fd 0 w)) fd = Some (n, 0)"
    "disk w n = Some (c, t) \<Longrightarrow> fst (fst (os_fstat OS fd w)) = 0 \<and> st_mtime (snd (fst (os_fstat OS fd w))) = t"
    "p = 0 \<Longrightarrow> disk w n = Some (c, t) \<Longrightarrow> 0 \<le> fst (fst (os_read OS fd 500 w)) \<and>
      snd (fst (os_read OS fd 500 w)) = take 500 c \<and> disk (snd (os_read OS fd 500 w)) = disk w"
  using assms by (simp_all add: auth_disk_def)

lemma auth_disk_stat:
  "auth_disk OS disk fds S U \<Longrightarrow> disk w n = Some (c, t) \<Longrightarrow>
    fst (fst (os_stat OS n w)) = 0 \<and> st_mtime (snd (fst (os_stat OS n w))) = t"
  unfolding auth_disk_def by blast

lemma sys_wpo: "wpo (sys f s) Q = Q (fst (f (world s)), s\<lparr>world := snd (f (world s))\<rparr>)"
  by (simp add: sys_def split: prod.split)

text \<open>Opening the file for writing: it is there, empty, and the descriptor stands at its start.\<close>

lemma open_out:
  assumes "auth_disk OS disk fds S U"
  shows "wpo (obfiOpenOutFile OS n 0 s) (\<lambda>(fd, s'). 0 < fd \<and>
    (\<exists>w t. s' = s\<lparr>world := w\<rparr> \<and> disk w n = Some ([], t) \<and> fds w fd = Some (n, 0)))"
proof -
  define r where "r = os_open OS n (O_CREAT OR O_WRONLY OR O_EXCL) 384 (world s)"
  show ?thesis
  proof (cases "disk (world s) n = None")
    case True
    have "creates disk fds n (world s) r"
      unfolding r_def by (rule auth_disk_open [OF assms]) (rule True)
    then show ?thesis unfolding obfiOpenOutFile_def wpo_bind sys_wpo r_def [symmetric]
      by (auto simp: creates_def)
  next
    case False
    have r: "refuses disk fds OS (world s) r"
      unfolding r_def by (rule auth_disk_open [OF assms]) (rule False)
    define w1 where "w1 = snd (os_errno OS (snd r))"
    have "disk w1 n \<noteq> None"
      using False r auth_diskD(8) [OF assms] by (simp add: refuses_def w1_def)
    then have "creates disk fds n w1 (os_open OS n (O_CREAT OR O_WRONLY OR O_TRUNC) 384 w1)"
      by (rule auth_disk_open [OF assms])
    with r show ?thesis unfolding obfiOpenOutFile_def wpo_bind sys_wpo r_def [symmetric]
      by (auto simp: reopenOutFile_def refuses_def creates_def sys_wpo simp flip: w1_def)
  qed
qed

text \<open>The time is that of the file, and the descriptor is back at its start.\<close>

lemma set_time:
  assumes "auth_disk OS disk fds S U" "disk (world s) n = Some ([], t)" "fds (world s) fd = Some (n, 0)"
  shows "wpo (obfiSetTimeFromFile OS fd s) (\<lambda>(i, s'). i = 0 \<and>
    (\<exists>w. \<exists>t' \<in> S. s' = s\<lparr>world := w, timeVal := t' AND 0xffff\<rparr> \<and> disk w n = Some ('' '', t') \<and> fds w fd = Some (n, 0)))"
proof -
  define w1 where "w1 = snd (os_write OS fd '' '' (world s))"
  obtain t' where w1: "fst (os_write OS fd '' '' (world s)) = 1" "fds w1 fd = Some (n, 1)" "t' \<in> S" "disk w1 n = Some ('' '', t')"
    using auth_disk_fd(1) [OF assms(1,3,2), of "'' ''"] by (auto simp: w1_def overwrite_def)
  define w2 where "w2 = snd (os_fstat OS fd w1)"
  have w2: "fst (fst (os_fstat OS fd w1)) = 0" "st_mtime (snd (fst (os_fstat OS fd w1))) = t'" "disk w2 n = Some ('' '', t')"
      "fds w2 fd = Some (n, 1)"
    using auth_disk_fd(3) [OF assms(1) w1(2,4)] auth_diskD [OF assms(1)] w1 by (simp_all add: w2_def)
  define w3 where "w3 = snd (os_lseek OS fd 0 w2)"
  have w3: "fst (os_lseek OS fd 0 w2) = 0" "disk w3 n = Some ('' '', t')" "fds w3 fd = Some (n, 0)"
    using auth_disk_fd(2) [OF assms(1) w2(4)] w2(3) by (simp_all add: w3_def)
  have "wpo (obfiSetTimeFromFile OS fd s) (\<lambda>r. r = (0, s\<lparr>world := w3, timeVal := t' AND 0xffff\<rparr>))"
    using w1(1) w2(1,2) w3(1) by (simp add: obfiSetTimeFromFile_def sys_wpo case_prod_beta flip: w1_def w2_def w3_def)
  then show ?thesis
    by (rule wpo_mono) (use w1(3) w3(2,3) in blast)
qed

text \<open>Encoding, with the file's time.\<close>

lemma run_encode:
  assumes "auth_disk OS disk fds S U" "timeVal s \<noteq> 0"
  shows "wpo (runEncode OS pw 0 s) (\<lambda>(out, s'). \<exists>w rval. s' = s\<lparr>world := w\<rparr> \<and> 0 \<le> rval \<and> rval \<le> 15 \<and>
    out = obfText rval 0 (U AND 0xf5f) (timeVal s) pw \<and> disk w = disk (world s) \<and> fds w = fds (world s))"
proof -
  let ?w1 = "snd (os_getuid OS (world s))"
  let ?u = "fst (au_usec OS ?w1)" and ?w2 = "snd (au_usec OS ?w1)"
  have "disk ?w2 = disk (world s)" "fds ?w2 = fds (world s)"
    by (simp_all add: auth_diskD [OF assms(1)])
  moreover have "wpo (runEncode OS pw 0 s) (\<lambda>r. r = (obfText (?u AND 0xf) 0 (U AND 0xf5f) (timeVal s) pw, s\<lparr>world := ?w2\<rparr>))"
    using assms(2) auth_diskD(7) [OF assms(1)]
    by (simp add: runEncode_def clockSec_def sys_wpo obfiEncode_text timeUsed_def)
  ultimately show ?thesis
    using rval_range [of ?u] by (elim wpo_mono) blast
qed

text \<open>What the file holds after a password was saved at the times \<open>S\<close>.\<close>

definition holdsPw :: "('w \<Rightarrow> string \<Rightarrow> (string \<times> int) option) \<Rightarrow> int set \<Rightarrow> int \<Rightarrow> string \<Rightarrow> string \<Rightarrow> 'w \<Rightarrow> bool" where
  "holdsPw disk S U n pw w \<longleftrightarrow> (\<exists>rval t1 t2. 0 \<le> rval \<and> rval \<le> 15 \<and> t1 \<in> S \<and> t2 \<in> S \<and>
     disk w n = Some (obfText rval 0 (U AND 0xf5f) (t1 AND 0xffff) pw @ [NULc], t2))"

lemma write_pw:
  assumes "auth_disk OS disk fds S U" "disk (world s) n = Some ('' '', t)" "fds (world s) fd = Some (n, 0)"
  shows "wpo (obfiWritePw OS fd enc s) (\<lambda>(i, s'). i = 0 \<and> (\<exists>w. s' = s\<lparr>world := w\<rparr> \<and> (\<exists>t2 \<in> S. disk w n = Some (enc @ [NULc], t2))))"
proof -
  define w1 where "w1 = snd (os_write OS fd (enc @ [NULc]) (world s))"
  obtain t2 where w1: "fst (os_write OS fd (enc @ [NULc]) (world s)) = int (length enc) + 1" "t2 \<in> S" "disk w1 n = Some (enc @ [NULc], t2)"
    using auth_disk_fd(1) [OF assms(1,3,2), of "enc @ [NULc]"] by (auto simp: w1_def overwrite_def)
  have "wpo (obfiWritePw OS fd enc s) (\<lambda>r. r = (0, s\<lparr>world := snd (os_close OS fd w1)\<rparr>))"
    using w1(1) by (simp add: obfiWritePw_def sys_wpo flip: w1_def)
  then show ?thesis
    using auth_diskD(12) [OF assms(1), of fd w1] w1(2,3) by (elim wpo_mono) auto
qed

text \<open>Saving and reading a password.\<close>

lemma save_ok:
  assumes A: "auth_disk OS disk fds S U" and name: "authFileName s = name" "name \<noteq> []" and tmp: "doTemp s = 0"
    and pw: "pw \<noteq> []" "length pw \<le> 48" "last pw \<noteq> CHR 0x0A" and S: "\<forall>t \<in> S. t AND 0xffff \<noteq> 0"
  shows "\<exists>s1. obfSavePw OS 0 pw s = Some (0, s1) \<and> authFileName s1 = name \<and> holdsPw disk S U name pw (world s1)"
proof -
  obtain fd w0 t0 where w0: "obfiOpenOutFile OS name 0 s = Some (fd, s\<lparr>world := w0\<rparr>)" "0 < fd" "disk w0 name = Some ([], t0)" "fds w0 fd = Some (name, 0)"
    using open_out [OF A, of name s] by (auto simp: wpo_def)
  obtain w1 t1 where w1: "obfiSetTimeFromFile OS fd (s\<lparr>world := w0\<rparr>) = Some (0, s\<lparr>world := w1, timeVal := t1 AND 0xffff\<rparr>)"
      "t1 \<in> S" "disk w1 name = Some ('' '', t1)" "fds w1 fd = Some (name, 0)"
    using set_time [OF A, of "s\<lparr>world := w0\<rparr>" name t0 fd] w0(3,4) by (auto simp: wpo_def)
  define s1 where "s1 = s\<lparr>world := w1, timeVal := t1 AND 0xffff\<rparr>"
  have "timeVal s1 \<noteq> 0" using S w1(2) by (simp add: s1_def)
  then obtain w2 rval where w2: "runEncode OS pw 0 s1 = Some (obfText rval 0 (U AND 0xf5f) (t1 AND 0xffff) pw, s1\<lparr>world := w2\<rparr>)"
      "0 \<le> rval" "rval \<le> 15" "disk w2 = disk w1" "fds w2 = fds w1"
    using run_encode [OF A, of s1 pw] by (auto simp: wpo_def s1_def)
  let ?e = "obfText rval 0 (U AND 0xf5f) (t1 AND 0xffff) pw"
  obtain w3 t2 where w3: "obfiWritePw OS fd ?e (s1\<lparr>world := w2\<rparr>) = Some (0, s1\<lparr>world := w3\<rparr>)" "t2 \<in> S" "disk w3 name = Some (?e @ [NULc], t2)"
    using write_pw [OF A, of "s1\<lparr>world := w2\<rparr>" name t1 fd ?e] w1(3,4) w2(4,5) by (auto simp: wpo_def)
  have "obfSavePw OS 0 pw s = Some (0, s1\<lparr>world := w3\<rparr>)"
    using name tmp pw w0(1,2) w1(1) w2(1) w3(1)
    by (simp add: obfSavePw_def obfiGetFilename_def newPassword_def obfiGetEnvKey_def length_obfText flip: s1_def)
  moreover have "holdsPw disk S U name pw w3"
    unfolding holdsPw_def using w1(2) w2(2,3) w3(2,3) by blast
  moreover have "authFileName (s1\<lparr>world := w3\<rparr>) = name"
    using name(1) by (simp add: s1_def)
  ultimately show ?thesis by auto
qed

lemma bounded: "0 \<le> t AND (0xffff::int)" "t AND (0xffff::int) < 65536"
proof -
  have "t AND 0xffff = take_bit 16 t" by (simp add: take_bit_eq_mask mask_eq_exp_minus_1)
  then show "0 \<le> t AND (0xffff::int)" "t AND (0xffff::int) < 65536" by (simp_all add: take_bit_eq_mod)
qed

lemma get_ok:
  assumes A: "auth_disk OS disk fds S U" and name: "authFileName s = name" "name \<noteq> []"
    and holds: "holdsPw disk S U name pw (world s)" and pw: "NULc \<notin> set pw" "length pw \<le> 48" "strstr pw TMP_FLAG = None"
    and S: "\<forall>t \<in> S. t AND 0xffff \<noteq> 0" "\<forall>t1 \<in> S. \<forall>t2 \<in> S. obfiTimeCheck (t1 AND 0xffff) (t2 AND 0xffff) = 0"
  shows "\<exists>s1. obfGetPw OS s = Some (if length pw \<le> 42 then (0, pw) else (PASSWORD_EXCEEDS_MAX_SIZE, []), s1)"
proof -
  define w where "w = world s"
  obtain rval t1 t2 where h: "0 \<le> rval" "rval \<le> 15" "t1 \<in> S" "t2 \<in> S"
      "disk w name = Some (obfText rval 0 (U AND 0xf5f) (t1 AND 0xffff) pw @ [NULc], t2)"
    using holds by (auto simp: holdsPw_def w_def)
  define e where "e = obfText rval 0 (U AND 0xf5f) (t1 AND 0xffff) pw"
  have e: "NULc \<notin> set e" "length e = length pw + 7" "disk w name = Some (e @ [NULc], t2)"
    using h pw(1) by (simp_all add: e_def obfText_NUL length_obfText)
  define w1 where "w1 = snd (os_stat OS name w)"
  have w1: "fst (fst (os_stat OS name w)) = 0" "st_mtime (snd (fst (os_stat OS name w))) = t2" "disk w1 name = Some (e @ [NULc], t2)"
    using auth_disk_stat [OF A e(3)] e(3) auth_diskD [OF A] by (simp_all add: w1_def)
  define r where "r = os_open OS name O_RDONLY 0 w1"
  have r: "0 \<le> fst r" "disk (snd r) name = Some (e @ [NULc], t2)" "fds (snd r) (fst r) = Some (name, 0)"
    using auth_disk_open(4) [OF A, of w1 name] w1(3) by (simp_all add: r_def opens_def)
  define q where "q = os_read OS (fst r) 500 (snd r)"
  have q: "0 \<le> fst (fst q)" "snd (fst q) = e @ [NULc]"
    using auth_disk_fd(4) [OF A r(3) refl r(2)] e(2) pw(2) by (simp_all add: q_def)
  have str: "stringIn (e @ [NULc]) = Some e"
    using e(1) by (auto simp: stringIn_def takeWhile_append dest: sym)
  define s1 where "s1 = s\<lparr>world := w1, timeVal := t2 AND 0xffff\<rparr>"
  define s2 where "s2 = s1\<lparr>world := snd (os_close OS (fst r) (snd q))\<rparr>"
  have tv: "obfiGetTv OS name s = Some (0, s1)"
    using w1(1,2) by (auto simp: obfiGetTv_def sys_def s1_def w1_def w_def split: prod.splits)
  have get: "obfiGetPw OS name s1 = Some (if length pw \<le> 42 then (0, e) else (PASSWORD_EXCEEDS_MAX_SIZE, []), s2)"
    using r(1) q str e(2) by (auto simp: obfiGetPw_def sys_def s2_def s1_def r_def q_def split: prod.splits)
  have "timeVal s2 \<noteq> 0" "timeVal s2 = t2 AND 0xffff"
    using S(1) h(4) by (simp_all add: s2_def s1_def)
  moreover have "obfiDecode 0 U (t2 AND 0xffff) e 0 = Some (0, pw, t2 AND 0xffff)"
  proof -
    have "obfiTimeCheck (t1 AND 0xffff) (t2 AND 0xffff) = 0" "timeUsed (t2 AND 0xffff) 0 = t2 AND 0xffff"
      using S h(3,4) by (auto simp: timeUsed_def)
    then show ?thesis
      unfolding e_def obfiDecode_text [OF order_refl bounded h(1,2)] by (simp only: simp_thms if_True)
  qed
  moreover obtain w3 where "os_getuid OS (world s2) = (U, w3)"
    using auth_diskD(7) [OF A, of "world s2"] by (cases "os_getuid OS (world s2)") auto
  ultimately have "\<exists>s3. runDecode OS e 0 s2 = Some ((0, pw), s3)"
    by (simp add: runDecode_def clockSec_def sys_def)
  then show ?thesis
    using tv get name pw(3) by (auto simp: obfGetPw_def obfiGetFilename_def obfiGetEnvKey_def)
qed

section \<open>Properties\<close>

text \<open>A disk in memory: descriptor 3 is the only one, and the clock stands at 1000.\<close>

type_synonym ram = "(string \<Rightarrow> (string \<times> int) option) \<times> (string \<times> nat) option"

definition ramOpen :: "string \<Rightarrow> int \<Rightarrow> int \<Rightarrow> ram \<Rightarrow> int \<times> ram" where
  "ramOpen n flags mode w = (case w of (d, f) \<Rightarrow>
     if flags = 0 then (if d n = None then (-1, w) else (3, d, Some (n, 0)))
     else if flags = 193 \<and> d n \<noteq> None then (-1, w)
     else (3, d(n \<mapsto> ([], 1000)), Some (n, 0)))"

definition ramWrite :: "int \<Rightarrow> string \<Rightarrow> ram \<Rightarrow> int \<times> ram" where
  "ramWrite fd b w = (case w of (d, f) \<Rightarrow>
     case f of None \<Rightarrow> (-1, w) | Some (n, p) \<Rightarrow>
       (int (length b), d(n \<mapsto> (overwrite p b (case d n of None \<Rightarrow> [] | Some (c, t) \<Rightarrow> c), 1000)), Some (n, p + length b)))"

definition ramTime :: "string \<Rightarrow> ram \<Rightarrow> stat" where
  "ramTime n w = zero_stat\<lparr>st_mtime := (case fst w n of None \<Rightarrow> 0 | Some (c, t) \<Rightarrow> t)\<rparr>"

definition ramOS :: "ram authos" where
  "ramOS = \<lparr>os_time = (\<lambda>w. (1000, w)), os_errno = (\<lambda>w. (EEXIST, w)), os_random = (\<lambda>w. (0, w)),
     os_getuid = (\<lambda>w. (500, w)), os_getgid = (\<lambda>w. (0, w)), os_open = ramOpen,
     os_close = (\<lambda>_ w. (0, w)),
     os_read = (\<lambda>_ k w. case snd w of None \<Rightarrow> ((-1, []), w)
       | Some (n, p) \<Rightarrow> let b = take (nat k) (drop p (case fst w n of None \<Rightarrow> [] | Some (c, t) \<Rightarrow> c)) in ((int (length b), b), w)),
     os_write = ramWrite,
     os_lseek = (\<lambda>_ o' w. (o', fst w, map_option (\<lambda>(n, p). (n, nat o')) (snd w))),
     os_stat = (\<lambda>n w. ((0, ramTime n w), w)),
     os_fstat = (\<lambda>_ w. ((0, case snd w of None \<Rightarrow> zero_stat | Some (n, p) \<Rightarrow> ramTime n w), w)),
     os_fsync = (\<lambda>_ w. (0, w)), os_unlink = (\<lambda>n w. (0, (fst w)(n := None), snd w)),
     os_rename = (\<lambda>_ _ w. (0, w)), os_truncate = (\<lambda>_ _ w. (0, w)), os_mkdir = (\<lambda>_ _ w. (0, w)),
     os_rmdir = (\<lambda>_ w. (0, w)), os_filler = (\<lambda>_ w. (0, w)), os_stackPath = (\<lambda>w. (zero_rodsPath, w)),
     os_malloc = (\<lambda>n w. (replicate (nat n) (CHR 0x00), w)),
     os_opendir = (\<lambda>_ w. (None, w)), os_readdir = (\<lambda>_ w. (None, w)), os_closedir = (\<lambda>_ w. (0, w)),
     os_statfs = (\<lambda>_ w. ((0, 4096, 0), w)), os_utime = (\<lambda>_ _ _ w. (0, w)), os_pthread_create = (\<lambda>w. (0, w)),
     au_usec = (\<lambda>w. (77, w)), au_home = (\<lambda>w. (Some ''/home/a'', w)), au_fgets = (\<lambda>_ w. (Some [CHR ''y'', CHR 0x0A], w))\<rparr>"

abbreviation ramFds :: "ram \<Rightarrow> int \<Rightarrow> (string \<times> nat) option" where
  "ramFds \<equiv> \<lambda>w fd. if fd = 3 then snd w else None"

lemma or_flags: "O_CREAT OR O_WRONLY OR O_EXCL = 193" "O_CREAT OR O_WRONLY OR O_TRUNC = 577"
  by simp_all

lemma ram_disk: "auth_disk ramOS fst ramFds {1000} 500"
  unfolding auth_disk_def quiet_def creates_def refuses_def opens_def or_flags
  by (auto simp: ramOS_def ramOpen_def ramWrite_def ramTime_def Let_def fun_eq_iff split: option.splits if_splits)

definition ramStart :: "ram obfstate" where
  "ramStart = \<lparr>world = (Map.empty, None), locks = (\<lambda>_. 0), obfDebug = 0, timeVal = 0, isTemp = 0, doTemp = 0, authFileName = ''/a''\<rparr>"

text \<open>C31. The authentication file. On a disk that keeps what is written, a password of at most 48 characters is
  saved, and every later login that finds the file as it was left gets that password back; but only one of at most
  42 characters: the encoded text is seven characters longer, and a password of 43 to 48 characters, accepted when
  it is saved, is refused with \<open>PASSWORD_EXCEEDS_MAX_SIZE\<close> when it is read. The file's times must be close
  enough for \<open>obfiTimeCheck\<close>, and not be 0 modulo 65536, the value that stands for no time.\<close>

theorem saved_password_read_back:
  assumes "auth_disk OS disk fds S U" "authFileName s = name" "name \<noteq> []" "doTemp s = 0"
    and "pw \<noteq> []" "length pw \<le> 48" "last pw \<noteq> CHR 0x0A" "NULc \<notin> set pw" "strstr pw TMP_FLAG = None"
    and "\<forall>t \<in> S. t AND 0xffff \<noteq> 0" "\<forall>t1 \<in> S. \<forall>t2 \<in> S. obfiTimeCheck (t1 AND 0xffff) (t2 AND 0xffff) = 0"
  shows "\<exists>s1. obfSavePw OS 0 pw s = Some (0, s1) \<and> authFileName s1 = name \<and>
    (\<forall>s'. authFileName s' = name \<and> disk (world s') name = disk (world s1) name \<longrightarrow>
      (\<exists>s2. obfGetPw OS s' = Some (if length pw \<le> 42 then (0, pw) else (PASSWORD_EXCEEDS_MAX_SIZE, []), s2)))"
proof -
  obtain s1 where s1: "obfSavePw OS 0 pw s = Some (0, s1)" "authFileName s1 = name" "holdsPw disk S U name pw (world s1)"
    using save_ok [OF assms(1-7,10)] by blast
  then have "holdsPw disk S U name pw (world s')" if "disk (world s') name = disk (world s1) name" for s' :: "('a, 'd) obfstate_scheme"
    using that by (simp add: holdsPw_def)
  then show ?thesis
    using s1(1,2) get_ok [OF assms(1) _ assms(3) _ assms(8,6,9,10,11)] by blast
qed

theorem saved_password_read_back_witness:
  "\<exists>s1 s2. obfSavePw ramOS 0 ''secret'' ramStart = Some (0, s1) \<and> obfGetPw ramOS s1 = Some ((0, ''secret''), s2)"
proof -
  have s: "authFileName ramStart = ''/a''" "doTemp ramStart = 0" by (simp_all add: ramStart_def)
  have pw: "''secret'' \<noteq> ''''" "length ''secret'' \<le> 48" "last ''secret'' \<noteq> CHR 0x0A" "NULc \<notin> set ''secret''"
    by simp_all
  have tmp: "strstr ''secret'' TMP_FLAG = None" by code_simp
  from saved_password_read_back [OF ram_disk s(1) _ s(2) pw tmp] show ?thesis
    by (auto simp: obfiTimeCheck_def)
qed

end
