(* ===== verification/Challenge.thy ===== *)
theory Challenge
  imports Auth_File
begin

text \<open>
  What the two sides of a login share: the buffers of challenge and password, the digest that answers a challenge, and
  the random bytes of a challenge (\<open>get64RandomBytes\<close> of \<open>lib/core/src/rcMisc.c\<close>). Buffers are lists of bytes; a
  store outside of one is \<open>None\<close>. Memory that the code leaves uninitialised is an argument (\<open>junk\<close>).
\<close>

unbundle bit_operations_syntax

section \<open>Buffers\<close>

abbreviation (input) CHALLENGE_LEN :: nat where "CHALLENGE_LEN \<equiv> 64"
abbreviation (input) RESPONSE_LEN :: nat where "RESPONSE_LEN \<equiv> 16"
abbreviation (input) NAME_LEN :: nat where "NAME_LEN \<equiv> 64"

abbreviation bytesOf :: "string \<Rightarrow> 8 word list" where
  "bytesOf \<equiv> map of_char"

text \<open>The bytes \<open>strncpy\<close> stores: those before the first zero, at most \<open>n\<close>, filled up with zeros.\<close>

definition strncpy :: "8 word list \<Rightarrow> nat \<Rightarrow> 8 word list option" where
  "strncpy src n =
     (if n \<le> length src \<or> 0 \<in> set src
      then let str = takeWhile (\<lambda>b. b \<noteq> 0) (take n src) in Some (str @ replicate (n - length str) 0)
      else None)"

definition storeBytes :: "nat \<Rightarrow> 8 word list \<Rightarrow> 8 word list \<Rightarrow> 8 word list option" where
  "storeBytes pos bytes buf =
     (if pos + length bytes \<le> length buf then Some (take pos buf @ bytes @ drop (pos + length bytes) buf) else None)"

text \<open>\<open>md5Buf\<close>, cleared, with the challenge at its start.\<close>

definition challengeBuf :: "8 word list \<Rightarrow> 8 word list option" where
  "challengeBuf challenge = do {
     c \<leftarrow> strncpy challenge CHALLENGE_LEN;
     storeBytes 0 c (replicate (CHALLENGE_LEN + MAX_PASSWORD_LEN + 2) 0)
   }"

text \<open>The first sixteen bytes in hexadecimal, by which a session is recognised.\<close>

definition signature :: "8 word list \<Rightarrow> string" where
  "signature md5Buf = concat (map hex02 (take 16 md5Buf))"

definition noZero :: "8 word \<Rightarrow> 8 word" where
  "noZero b = (if b = 0 then b + 1 else b)"

text \<open>The digest of challenge and password, without zeros; also the buffer the context is left with.\<close>

definition answer :: "8 word list \<Rightarrow> 8 word list \<Rightarrow> (8 word list \<times> 8 word list) option" where
  "answer junk md5Buf = do {
     (digest, junk) \<leftarrow> md5Bytes junk md5Buf (of_nat (CHALLENGE_LEN + MAX_PASSWORD_LEN));
     Some (map noZero digest, junk)
   }"

section \<open>Random bytes\<close>

record 'w srvos = "'w authos" +
  sv_getpid :: "'w \<Rightarrow> int \<times> 'w"
  sv_getenv :: "string \<Rightarrow> 'w \<Rightarrow> string option \<times> 'w"

record 'w rndstate = "'w base" +
  rndCount :: int

definition urandomBytes :: "'w srvos \<Rightarrow> ('w, 'z) rndstate_scheme \<Rightarrow> (8 word list option \<times> ('w, 'z) rndstate_scheme) option" where
  "urandomBytes OS s = do {
     (uran_fd, s) \<leftarrow> sys (os_open OS ''/dev/urandom'' O_RDONLY 0) s;
     if uran_fd > 0 then do {
       ((rval, bytes), s) \<leftarrow> sys (os_read OS uran_fd 64) s;
       (_, s) \<leftarrow> sys (os_close OS uran_fd) s;
       if rval \<noteq> 64 then Some (None, s)
       else if length bytes = 64 then Some (Some (bytesOf bytes), s) else None
     }
     else Some (None, s)
   }"

text \<open>Without \<open>/dev/urandom\<close>: \<open>ints\<close> is an array of which only some elements are set. \<open>Encode\<close> gives the bytes of
  its elements on a little-endian machine.\<close>

definition clockBytes :: "'w srvos \<Rightarrow> 8 word list \<Rightarrow> 32 word list \<Rightarrow> ('w, 'z) rndstate_scheme \<Rightarrow>
    (8 word list \<times> ('w, 'z) rndstate_scheme) option" where
  "clockBytes OS junk ints s = do {
     (tv_usec, s) \<leftarrow> sys (au_usec OS) s;
     (tv_sec, s) \<leftarrow> sys (os_time OS) s;
     (pid, s) \<leftarrow> sys (sv_getpid OS) s;
     let s = s\<lparr>rndCount := toInt32 (rndCount s + 1)\<rparr>;
     let ints = ints[0 := 12349994, 1 := of_int (rndCount s), 2 := of_int tv_usec, 5 := of_int tv_sec];
     (d0, junk) \<leftarrow> md5Bytes junk (Encode ints) 100;
     let ints = ints[0 := of_int pid, 4 := scast (d0 ! 10)];
     (d1, junk) \<leftarrow> md5Bytes junk (Encode ints) 100;
     (d2, junk) \<leftarrow> md5Bytes junk (Encode ints) 100;
     (d3, junk) \<leftarrow> md5Bytes junk (d0 @ d1 @ d2) 40;
     Some (d0 @ d1 @ d2 @ d3, s)
   }"

definition get64RandomBytes :: "'w srvos \<Rightarrow> 8 word list \<Rightarrow> 32 word list \<Rightarrow> ('w, 'z) rndstate_scheme \<Rightarrow>
    ((int \<times> 8 word list) \<times> ('w, 'z) rndstate_scheme) option" where
  "get64RandomBytes OS junk ints s = do {
     (uran, s) \<leftarrow> urandomBytes OS s;
     (buffer, s) \<leftarrow> (case uran of Some bytes \<Rightarrow> Some (bytes, s) | None \<Rightarrow> clockBytes OS junk ints s);
     Some ((0, map noZero buffer @ [0]), s)
   }"

section \<open>Lemmas\<close>

text \<open>A challenge is 64 bytes without a zero.\<close>

definition challenge_ok :: "8 word list \<Rightarrow> bool" where
  "challenge_ok c \<longleftrightarrow> length c = 64 \<and> 0 \<notin> set c"

lemma noZero_nonzero: "noZero b \<noteq> 0"
  by (simp add: noZero_def)

lemma md5Bytes_take:
  assumes "length junk = 64" "n \<le> length bytes" "n < 1000"
  shows "md5Bytes junk bytes (of_nat n) = Some (md5 (take n bytes), replicate 64 0)"
proof -
  have "wpo (MD5Update (MD5Init junk) (take n bytes @ drop n bytes) (of_nat n)) (\<lambda>c. wpo (MD5Final c) (\<lambda>(d, _). d = md5 (take n bytes)))"
    using assms by (intro md.one_piece md5_rep_init) auto
  then show ?thesis
    by (auto simp: md5Bytes_def wpo_def dest: final_buffer)
qed

lemmas md5Bytes_100 = md5Bytes_take [of _ 100, simplified] and md5Bytes_40 = md5Bytes_take [of _ 40, simplified]
  and md5Bytes_114 = md5Bytes_take [of _ 114, simplified]

text \<open>The random bytes make a challenge, whatever the system offers.\<close>

definition reads_ok :: "'w srvos \<Rightarrow> bool" where
  "reads_ok OS \<longleftrightarrow> (\<forall>fd w. fst (fst (os_read OS fd 64 w)) = 64 \<longrightarrow> length (snd (fst (os_read OS fd 64 w))) = 64)"

lemma clock_bytes:
  assumes "length junk = 64" "length ints = 30"
  shows "wpo (clockBytes OS junk ints s) (\<lambda>(b, s'). length b = 64 \<and> (\<exists>w n. s' = s\<lparr>world := w, rndCount := n\<rparr>))"
  using assms by (auto simp: clockBytes_def sys_def Let_def md5Bytes_100 md5Bytes_40 length_Encode length_md5 split: prod.splits)

lemma urandom_bytes:
  assumes "reads_ok OS"
  shows "wpo (urandomBytes OS s) (\<lambda>(b, s'). (\<forall>c. b = Some c \<longrightarrow> length c = 64) \<and> (\<exists>w. s' = s\<lparr>world := w\<rparr>))"
  using assms by (auto simp: urandomBytes_def sys_wpo reads_ok_def case_prod_beta)

lemma random_bytes:
  assumes "reads_ok OS" "length junk = 64" "length ints = 30"
  shows "wpo (get64RandomBytes OS junk ints s) (\<lambda>((i, b), s'). i = 0 \<and> (\<exists>c w n. b = c @ [0] \<and> challenge_ok c \<and>
    s' = s\<lparr>world := w, rndCount := n\<rparr>))"
proof -
  have ok: "challenge_ok (map noZero b)" if "length b = 64" for b
    using that noZero_nonzero by (auto simp: challenge_ok_def dest: sym)
  obtain u w1 where u: "urandomBytes OS s = Some (u, s\<lparr>world := w1\<rparr>)" "\<forall>c. u = Some c \<longrightarrow> length c = 64"
    using urandom_bytes [OF assms(1), of s] by (auto simp: wpo_def)
  show ?thesis
  proof (cases u)
    case None
    obtain b w n where "clockBytes OS junk ints (s\<lparr>world := w1\<rparr>) = Some (b, s\<lparr>world := w, rndCount := n\<rparr>)" "length b = 64"
      using clock_bytes [OF assms(2,3), of OS "s\<lparr>world := w1\<rparr>"] by (auto simp: wpo_def)
    with ok [of b] u None show ?thesis by (auto simp: get64RandomBytes_def)
  next
    case (Some b)
    have "\<exists>w n. s\<lparr>world := w1\<rparr> = s\<lparr>world := w, rndCount := n\<rparr>"
      by (intro exI [of _ w1] exI [of _ "rndCount s"]) simp
    with ok [of b] u Some show ?thesis by (auto simp: get64RandomBytes_def)
  qed
qed

text \<open>The answer to a challenge: the digest of the challenge and of the password filled up with zeros.\<close>

definition padded :: "string \<Rightarrow> 8 word list" where
  "padded pw = take 50 (takeWhile (\<lambda>b. b \<noteq> 0) (bytesOf pw) @ replicate 50 0)"

definition loginResponse :: "8 word list \<Rightarrow> string \<Rightarrow> 8 word list" where
  "loginResponse challenge pw = map noZero (md5 (challenge @ padded pw))"

lemma length_padded: "length (padded pw) = 50"
  by (simp add: padded_def)

lemma length_loginResponse: "length (loginResponse c pw) = 16"
  by (simp add: loginResponse_def length_md5)

lemma takeWhile_nonzero: "(0 :: 8 word) \<notin> set c \<Longrightarrow> takeWhile (\<lambda>b. b \<noteq> 0) c = c"
  by (rule takeWhile_eq_all_conv [THEN iffD2]) auto

lemma strncpy_all: "challenge_ok c \<Longrightarrow> strncpy (c @ r) 64 = Some c"
  by (simp add: strncpy_def challenge_ok_def Let_def takeWhile_nonzero)

lemma challenge_buf: "challenge_ok c \<Longrightarrow> challengeBuf (c @ r) = Some (c @ replicate 52 0)"
  by (simp add: challengeBuf_def strncpy_all storeBytes_def challenge_ok_def)

lemma bytes_nonzero: "NULc \<notin> set pw \<Longrightarrow> 0 \<notin> set (bytesOf pw)"
proof -
  have "c = NULc" if "(of_char c :: 8 word) = 0" for c
  proof -
    have "(of_nat (of_char c) :: 8 word) = 0" using that by (simp only: of_nat_of_char)
    then have "256 dvd (of_char c :: nat)" by (simp add: word_of_nat_eq_0_iff)
    then have "of_char c = (0 :: nat)" by (metis dvd_imp_le nat_of_char_less_256 not_gr0 not_le)
    then have "of_char c = (of_char NULc :: nat)" by simp
    then show ?thesis by (simp only: of_char_eq_iff)
  qed
  then show "NULc \<notin> set pw \<Longrightarrow> 0 \<notin> set (bytesOf pw)" by auto
qed

lemma strncpy_padded: "strncpy (bytesOf pw @ [0]) 50 = Some (padded pw)"
proof -
  have *: "takeWhile P (take n xs) = take n (takeWhile P xs)" for P n and xs :: "8 word list"
    by (induction xs arbitrary: n) (auto simp: take_Cons')
  have "takeWhile (\<lambda>b. b \<noteq> 0) (bytesOf pw @ [0]) = takeWhile (\<lambda>b. b \<noteq> 0) (bytesOf pw)"
    by (rule takeWhile_tail) simp
  then have "takeWhile (\<lambda>b. b \<noteq> 0) (take 50 (bytesOf pw @ [0])) = take 50 (takeWhile (\<lambda>b. b \<noteq> 0) (bytesOf pw))"
    by (simp only: *)
  then show ?thesis
    by (simp add: strncpy_def padded_def Let_def min_def del: take_append) simp
qed

lemma answer_padded:
  assumes "challenge_ok c" "length junk = 64" "take 50 rest = padded pw" "50 \<le> length rest"
  shows "answer junk (c @ rest) = Some (loginResponse c pw, replicate 64 0)"
  using assms by (simp add: answer_def md5Bytes_114 loginResponse_def challenge_ok_def)

lemma answer_response:
  assumes "challenge_ok c" "length pw \<le> 51" "NULc \<notin> set pw" "length junk = 64"
  shows "answer junk (c @ bytesOf pw @ replicate (52 - length pw) 0) = Some (loginResponse c pw, replicate 64 0)"
  using assms bytes_nonzero [OF assms(3)]
  by (intro answer_padded) (auto simp: padded_def takeWhile_nonzero min_def)

lemma store_padded: "challenge_ok c \<Longrightarrow> storeBytes 64 (padded pw) (c @ replicate 52 0) = Some (c @ padded pw @ replicate 2 0)"
  by (simp add: storeBytes_def challenge_ok_def length_padded)

end
