(* ===== verification/Client_Login.thy ===== *)
theory Client_Login
  imports Challenge
begin

text \<open>
  The client's side of a login (\<open>lib/core/src/clientLogin.c\<close>), built without the optional schemes GSI, Kerberos, PAM and
  OS. The server sends a challenge; the client answers with a digest of the challenge and the password, which it finds in
  the authentication file (\<open>Auth_File\<close>), is asked for, or is given. The two requests are parameters (\<open>'w loginapi\<close>). The
  connection is part of the state; error messages and the echo of the terminal are left out.
\<close>

section \<open>Operations\<close>

text \<open>\<open>rcAuthRequest\<close> gives a status and the challenge, \<open>rcAuthResponse\<close> sends the answer and the user's name.\<close>

record 'w loginapi =
  rcAuthRequest :: "'w \<Rightarrow> (int \<times> 8 word list) \<times> 'w"
  rcAuthResponse :: "8 word list \<Rightarrow> string \<Rightarrow> 'w \<Rightarrow> int \<times> 'w"

record 'w lgstate = "'w obfstate" +
  prevChallengeSignitureClient :: string
  loggedIn :: int
  proxyUserName :: string
  proxyRodsZone :: string

definition getSessionSignitureClientside :: "('w, 'z) lgstate_scheme \<Rightarrow> string" where
  "getSessionSignitureClientside s = prevChallengeSignitureClient s"

definition ANONYMOUS_USER :: string where
  "ANONYMOUS_USER = ''anonymous''"

text \<open>The first zero of a buffer is the end of the string in it.\<close>

definition strlenBuf :: "8 word list \<Rightarrow> nat option" where
  "strlenBuf buf = (if 0 \<in> set buf then Some (length (takeWhile (\<lambda>b. b \<noteq> 0) buf)) else None)"

text \<open>A password from the terminal; the last character of the buffer's string is removed, which is meant to be the
  newline. At the end of the input the buffer stays as it is.\<close>

definition askPassword :: "'w authos \<Rightarrow> 8 word list \<Rightarrow> ('w, 'z) lgstate_scheme \<Rightarrow> (8 word list \<times> ('w, 'z) lgstate_scheme) option" where
  "askPassword OS md5Buf s = do {
     (line, s) \<leftarrow> sys (au_fgets OS (int MAX_PASSWORD_LEN)) s;
     md5Buf \<leftarrow> (case line of None \<Rightarrow> Some md5Buf | Some str \<Rightarrow> storeBytes CHALLENGE_LEN (bytesOf str @ [0]) md5Buf);
     len \<leftarrow> strlenBuf md5Buf;
     if len = 0 then None
     else do { md5Buf \<leftarrow> store (len - 1) 0 md5Buf; Some (md5Buf, s) }
   }"

text \<open>The name that is authenticated; both parts are arrays of \<open>NAME_LEN\<close>.\<close>

definition userNameAndZone :: "('w, 'z) lgstate_scheme \<Rightarrow> string option" where
  "userNameAndZone s =
     (if length (proxyUserName s) < NAME_LEN \<and> length (proxyUserName s) + 1 + length (proxyRodsZone s) < 2 * NAME_LEN
      then Some (proxyUserName s @ ''#'' @ proxyRodsZone s) else None)"

definition sendResponse :: "'w loginapi \<Rightarrow> 8 word list \<Rightarrow> 8 word list \<Rightarrow> ('w, 'z) lgstate_scheme \<Rightarrow> (int \<times> ('w, 'z) lgstate_scheme) option" where
  "sendResponse API junk md5Buf s = do {
     (digest, _) \<leftarrow> answer junk md5Buf;
     username \<leftarrow> userNameAndZone s;
     (status, s) \<leftarrow> sys (rcAuthResponse API digest username) s;
     if status \<noteq> 0 then Some (status, s) else Some (0, s\<lparr>loggedIn := 1\<rparr>)
   }"

definition clientLogin :: "'w authos \<Rightarrow> 'w loginapi \<Rightarrow> 8 word list \<Rightarrow> ('w, 'z) lgstate_scheme \<Rightarrow> (int \<times> ('w, 'z) lgstate_scheme) option" where
  "clientLogin OS API junk s =
     (if loggedIn s = 1 then Some (0, s)
      else do {
        ((status, challenge), s) \<leftarrow> sys (rcAuthRequest API) s;
        if status \<noteq> 0 then Some (status, s)
        else do {
          md5Buf \<leftarrow> challengeBuf challenge;
          let s = s\<lparr>prevChallengeSignitureClient := signature md5Buf\<rparr>;
          ((i, md5Buf), s) \<leftarrow>
            (if take NAME_LEN ANONYMOUS_USER = take NAME_LEN (proxyUserName s) then do {
               md5Buf \<leftarrow> store (CHALLENGE_LEN + 1) 0 md5Buf;
               Some ((0, md5Buf), s)
             }
             else do {
               ((i, pw), s) \<leftarrow> obfGetPw OS s;
               md5Buf \<leftarrow> storeBytes CHALLENGE_LEN (bytesOf pw @ [0]) md5Buf;
               Some ((i, md5Buf), s)
             });
          (md5Buf, s) \<leftarrow> (if i \<noteq> 0 then askPassword OS md5Buf s else Some (md5Buf, s));
          sendResponse API junk md5Buf s
        }
      })"

definition clientLoginWithPassword :: "'w loginapi \<Rightarrow> 8 word list \<Rightarrow> string \<Rightarrow> ('w, 'z) lgstate_scheme \<Rightarrow>
    (int \<times> ('w, 'z) lgstate_scheme) option" where
  "clientLoginWithPassword API junk password s =
     (if loggedIn s = 1 then Some (0, s)
      else do {
        ((status, challenge), s) \<leftarrow> sys (rcAuthRequest API) s;
        if status \<noteq> 0 then Some (status, s)
        else do {
          md5Buf \<leftarrow> challengeBuf challenge;
          let len = length password;
          md5Buf \<leftarrow> storeBytes CHALLENGE_LEN (bytesOf password @ [0]) md5Buf;
          md5Buf \<leftarrow> store (CHALLENGE_LEN + len) 0 md5Buf;
          sendResponse API junk md5Buf s
        }
      })"

section \<open>Lemmas\<close>

lemma store_password:
  "challenge_ok c \<Longrightarrow> length pw \<le> 51 \<Longrightarrow>
    storeBytes 64 (bytesOf pw @ [0]) (c @ replicate 52 0) = Some (c @ bytesOf pw @ replicate (52 - length pw) 0)"
  by (auto simp: storeBytes_def challenge_ok_def simp flip: replicate_Suc)

text \<open>An established connection sends its answer and is logged in when the server accepts it.\<close>

definition answered :: "'w loginapi \<Rightarrow> 8 word list \<Rightarrow> string \<Rightarrow> ('w, 'z) lgstate_scheme \<Rightarrow> int \<times> ('w, 'z) lgstate_scheme" where
  "answered API digest name s = (let (status, w) = rcAuthResponse API digest name (world s) in
     (status, if status = 0 then s\<lparr>world := w, loggedIn := 1\<rparr> else s\<lparr>world := w\<rparr>))"

lemma send_response:
  assumes "challenge_ok c" "length pw \<le> 51" "NULc \<notin> set pw" "length junk = 64" "length (proxyUserName s) < 64" "length (proxyRodsZone s) < 64"
  shows "sendResponse API junk (c @ bytesOf pw @ replicate (52 - length pw) 0) s =
    Some (answered API (loginResponse c pw) (proxyUserName s @ ''#'' @ proxyRodsZone s) s)"
  using assms by (auto simp: sendResponse_def answer_response userNameAndZone_def answered_def sys_def split: prod.split)

section \<open>The client answers with the password of its file\<close>

definition userOf :: "('w, 'z) lgstate_scheme \<Rightarrow> string \<times> string" where
  "userOf s = (proxyUserName s, proxyRodsZone s)"

lemma userOf_update [simp]: "userOf (s\<lparr>world := w\<rparr>) = userOf s" "userOf (s\<lparr>timeVal := n\<rparr>) = userOf s"
    "userOf (s\<lparr>isTemp := n\<rparr>) = userOf s" "userOf (s\<lparr>prevChallengeSignitureClient := x\<rparr>) = userOf s"
  by (simp_all add: userOf_def)

lemma user_sys: "sys f s = Some (r, s') \<Longrightarrow> userOf s' = userOf (s :: ('w, 'z) lgstate_scheme)"
  by (auto simp: sys_def split: prod.splits)

lemma user_filename: "obfiGetFilename OS s = Some (r, s') \<Longrightarrow> userOf s' = userOf s"
  by (auto simp: obfiGetFilename_def bind_eq_Some_conv dest!: user_sys split: if_splits option.splits)

lemma user_tv: "obfiGetTv OS n s = Some (r, s') \<Longrightarrow> userOf s' = userOf s"
  by (auto simp: obfiGetTv_def bind_eq_Some_conv dest!: user_sys split: if_splits)

lemma user_pw: "obfiGetPw OS n s = Some (r, s') \<Longrightarrow> userOf s' = userOf s"
  by (auto simp: obfiGetPw_def bind_eq_Some_conv dest!: user_sys split: if_splits)

lemma user_decode: "runDecode OS p e s = Some (r, s') \<Longrightarrow> userOf s' = userOf s"
  by (auto simp: runDecode_def clockSec_def bind_eq_Some_conv dest!: user_sys split: if_splits)

lemma user_bind:
  assumes "\<And>r s1. m = Some (r, s1) \<Longrightarrow> userOf s1 = u" "\<And>r s1. userOf s1 = u \<Longrightarrow> wlpo (f (r, s1)) Q"
  shows "wlpo (m \<bind> f) Q"
  using assms by (fastforce simp: wlpo_def bind_eq_Some_conv)

lemma user_getPw:
  assumes "obfGetPw OS s = Some (r, s')"
  shows "userOf s' = userOf s"
proof -
  let ?dec = "\<lambda>p s. runDecode OS p obfiGetEnvKey s \<bind> (\<lambda>((i, myPwD), s). if i < 0 then Some ((i, []), s)
      else case strstr myPwD TMP_FLAG of Some cp \<Rightarrow> Some ((0, take cp myPwD), s\<lparr>isTemp := 1\<rparr>) | None \<Rightarrow> Some ((0, myPwD), s\<lparr>isTemp := 0\<rparr>))"
  let ?pw = "\<lambda>n s. obfiGetPw OS n s \<bind> (\<lambda>((i, p), s). if i < 0 then Some ((i, []), s) else ?dec p s)"
  let ?tv = "\<lambda>n s. obfiGetTv OS n s \<bind> (\<lambda>(i, s). if i < 0 then Some ((i, []), s) else ?pw n s)"
  have si: "wlpo (Some x) Q = Q x" "wlpo (if b then m else n) Q = (if b then wlpo m Q else wlpo n Q)" for x b m n and Q :: "'c \<Rightarrow> bool"
    by (simp_all add: wlpo_def)
  have dec: "wlpo (?dec p s1) (\<lambda>(r, s'). userOf s' = u)" if "userOf s1 = u" for p s1 u
    using that by (intro user_bind [where u = u]) (auto dest: user_decode simp: wlpo_def split: if_splits option.splits)
  have pw: "wlpo (?pw n s1) (\<lambda>(r, s'). userOf s' = u)" if "userOf s1 = u" for n s1 u
    using that by (intro user_bind [where u = u]) (auto dest: user_pw simp: si intro: dec)
  have tv: "wlpo (?tv n s1) (\<lambda>(r, s'). userOf s' = u)" if "userOf s1 = u" for n s1 u
    using that by (intro user_bind [where u = u]) (auto dest: user_tv simp: si intro: pw)
  have "wlpo (obfGetPw OS s) (\<lambda>(r, s'). userOf s' = userOf s)"
    unfolding obfGetPw_def Let_def by (intro user_bind [where u = "userOf s"]) (auto dest: user_filename simp: si intro: tv)
  then show ?thesis using assms by (auto dest: wlpo_post)
qed

text \<open>A client whose authentication file holds the password of its user.\<close>

definition prepared :: "'w authos \<Rightarrow> ('w \<Rightarrow> string \<Rightarrow> (string \<times> int) option) \<Rightarrow> string \<Rightarrow> string \<Rightarrow> string \<Rightarrow> ('w, 'z) lgstate_scheme \<Rightarrow> bool" where
  "prepared OS disk u z pw s \<longleftrightarrow> loggedIn s \<noteq> 1 \<and> proxyUserName s = u \<and> proxyRodsZone s = z \<and> u \<noteq> ''anonymous'' \<and>
     length u < 64 \<and> length z < 64 \<and> length pw \<le> 42 \<and> NULc \<notin> set pw \<and> strstr pw TMP_FLAG = None \<and> authFileName s \<noteq> [] \<and>
     (\<exists>fds S U. auth_disk OS disk fds S U \<and> holdsPw disk S U (authFileName s) pw (world s) \<and>
        (\<forall>t \<in> S. t AND 0xffff \<noteq> 0) \<and> (\<forall>t1 \<in> S. \<forall>t2 \<in> S. obfiTimeCheck (t1 AND 0xffff) (t2 AND 0xffff) = 0))"

lemma client_answers:
  assumes "prepared OS disk u z pw s" "fst (rcAuthRequest API (world s)) = (0, c)" "challenge_ok c"
    and "disk (snd (rcAuthRequest API (world s))) = disk (world s)" "length junk = 64"
  shows "\<exists>s1. clientLogin OS API junk s = Some (answered API (loginResponse c pw) (u @ ''#'' @ z) s1)"
proof -
  note P = assms(1) [unfolded prepared_def]
  define s0 where "s0 = s\<lparr>world := snd (rcAuthRequest API (world s)), prevChallengeSignitureClient := signature (c @ replicate 52 0)\<rparr>"
  obtain fds S U where d: "auth_disk OS disk fds S U" "holdsPw disk S U (authFileName s) pw (world s)"
      "\<forall>t \<in> S. t AND 0xffff \<noteq> 0" "\<forall>t1 \<in> S. \<forall>t2 \<in> S. obfiTimeCheck (t1 AND 0xffff) (t2 AND 0xffff) = 0"
    using P by blast
  have "holdsPw disk S U (authFileName s) pw (world s0)"
    using d(2) assms(4) by (simp add: holdsPw_def s0_def)
  then obtain s1 where s1: "obfGetPw OS s0 = Some ((0, pw), s1)"
    using get_ok [OF d(1) _ _ _ _ _ _ d(3,4), of s0 "authFileName s" pw] P by (auto simp: s0_def)
  have u: "proxyUserName s1 = u" "proxyRodsZone s1 = z"
    using user_getPw [OF s1] P by (simp_all add: userOf_def s0_def)
  have anon: "take 64 ANONYMOUS_USER \<noteq> take 64 u"
    using P by (auto simp: ANONYMOUS_USER_def)
  have req: "sys (rcAuthRequest API) s = Some ((0, c), s\<lparr>world := snd (rcAuthRequest API (world s))\<rparr>)"
    using assms(2) by (auto simp: sys_def split: prod.split)
  have "clientLogin OS API junk s = sendResponse API junk (c @ bytesOf pw @ replicate (52 - length pw) 0) s1"
    using P req anon s1 challenge_buf [OF assms(3), of "[]"] store_password [OF assms(3), of pw]
    by (simp add: clientLogin_def s0_def Let_def)
  also have "\<dots> = Some (answered API (loginResponse c pw) (u @ ''#'' @ z) s1)"
    using send_response [OF assms(3) _ _ assms(5), of pw s1 API] P u by simp
  finally show ?thesis by blast
qed

end
