(* ===== verification/Check_Auth.thy ===== *)
theory Check_Auth
  imports Challenge
begin

text \<open>
  The server's side of a login: the challenge (\<open>rsAuthRequest.c\<close>), the check of the answer against the passwords of the
  catalogue (\<open>chlCheckAuth\<close> of \<open>icatHighLevelRoutines.c\<close>, \<open>rsAuthCheck.c\<close>) and the levels of authority that the two users
  of a connection get (\<open>rsAuthResponse.c\<close>). The proxy user is the one who authenticates, the client user the one on whose
  behalf requests are made. Statements of SQL, the connection to another catalogue server and the environment are
  parameters; the build has a catalogue and none of the optional schemes. Log messages and the delays after failures are
  left out. Out parameters are results.
\<close>

section \<open>State and parameters\<close>

abbreviation (input) NO_USER_AUTH :: int where "NO_USER_AUTH \<equiv> 0"
abbreviation (input) REMOTE_USER_AUTH :: int where "REMOTE_USER_AUTH \<equiv> 2"
abbreviation (input) LOCAL_USER_AUTH :: int where "LOCAL_USER_AUTH \<equiv> 3"
abbreviation (input) REMOTE_PRIV_USER_AUTH :: int where "REMOTE_PRIV_USER_AUTH \<equiv> 4"
abbreviation (input) LOCAL_PRIV_USER_AUTH :: int where "LOCAL_PRIV_USER_AUTH \<equiv> 5"
abbreviation (input) SYS_INVALID_ZONE_NAME :: int where "SYS_INVALID_ZONE_NAME \<equiv> -26000"
abbreviation (input) SYS_PROXYUSER_NO_PRIV :: int where "SYS_PROXYUSER_NO_PRIV \<equiv> -39000"
abbreviation (input) USER_INVALID_USERNAME_FORMAT :: int where "USER_INVALID_USERNAME_FORMAT \<equiv> -319000"
abbreviation (input) CAT_NO_ROWS_FOUND :: int where "CAT_NO_ROWS_FOUND \<equiv> -808000"
abbreviation (input) CAT_SUCCESS_BUT_WITH_NO_INFO :: int where "CAT_SUCCESS_BUT_WITH_NO_INFO \<equiv> -819000"
abbreviation (input) CAT_INVALID_AUTHENTICATION :: int where "CAT_INVALID_AUTHENTICATION \<equiv> -826000"
abbreviation (input) CAT_INVALID_USER :: int where "CAT_INVALID_USER \<equiv> -827000"
abbreviation (input) CAT_INVALID_CLIENT_USER :: int where "CAT_INVALID_CLIENT_USER \<equiv> -832000"
abbreviation (input) CAT_PASSWORD_EXPIRED :: int where "CAT_PASSWORD_EXPIRED \<equiv> -840000"
abbreviation (input) REMOTE_SERVER_AUTHENTICATION_FAILURE :: int where "REMOTE_SERVER_AUTHENTICATION_FAILURE \<equiv> -910000"
abbreviation (input) LOCAL_HOST :: int where "LOCAL_HOST \<equiv> 0"
abbreviation (input) LOCAL_ICAT :: int where "LOCAL_ICAT \<equiv> 1"
abbreviation (input) REMOTE_ICAT :: int where "REMOTE_ICAT \<equiv> 3"
abbreviation (input) MAX_PASSWORDS :: nat where "MAX_PASSWORDS \<equiv> 40"
abbreviation (input) TEMP_PASSWORD_TIME :: int where "TEMP_PASSWORD_TIME \<equiv> 120"
abbreviation (input) TEMP_PASSWORD_MAX_TIME :: int where "TEMP_PASSWORD_MAX_TIME \<equiv> 1000"

record authCheckOut =
  privLevel :: int
  clientPrivLevel :: int
  serverResponse :: "8 word list option"

record rodsServerHost =
  localFlag :: int
  rcatEnabled :: int

text \<open>\<open>zones\<close> is the list of zones with the kind of their catalogue. The users are those of \<open>rsComm\<close>.\<close>

record 'w sstate = "'w rndstate" +
  challengeStatic :: "8 word list"
  prevFailure :: int
  prevChalSig :: string
  localZone :: string
  localSID :: string
  remoteSID :: "string list"
  zones :: "(string \<times> int) list"
  sProxyUser :: string
  sProxyZone :: string
  sClientUser :: string
  sClientZone :: string
  sProxyAuth :: int
  sClientAuth :: int

text \<open>A query gives a status and strings: one, or all of several rows (the status is then their number, or an error).
  The list of strings holds the values bound to the question marks of the statement.\<close>

record 'w icat =
  cmlGetStringValueFromSql :: "string \<Rightarrow> string list \<Rightarrow> 'w \<Rightarrow> (int \<times> string) \<times> 'w"
  cmlGetMultiRowStringValuesFromSql :: "string \<Rightarrow> nat \<Rightarrow> string list \<Rightarrow> 'w \<Rightarrow> (int \<times> string list) \<times> 'w"
  cmlExecuteNoAnswerSql :: "string \<Rightarrow> string list \<Rightarrow> 'w \<Rightarrow> int \<times> 'w"
  getAndConnRcatHostNoLogin :: "string \<Rightarrow> 'w \<Rightarrow> (int \<times> rodsServerHost) \<times> 'w"
  rcAuthCheck :: "8 word list \<Rightarrow> 8 word list \<Rightarrow> string \<Rightarrow> 'w \<Rightarrow> (int \<times> authCheckOut option) \<times> 'w"
  rcDisconnect_rcat :: "'w \<Rightarrow> int \<times> 'w"

section \<open>The challenge\<close>

definition rsAuthRequest :: "'w srvos \<Rightarrow> 8 word list \<Rightarrow> 32 word list \<Rightarrow> ('w, 'z) sstate_scheme \<Rightarrow>
    ((int \<times> 8 word list) \<times> ('w, 'z) sstate_scheme) option" where
  "rsAuthRequest OS junk ints s = do {
     ((_, bytes), s) \<leftarrow> get64RandomBytes OS junk ints s;
     buf \<leftarrow> storeBytes 0 bytes (replicate (CHALLENGE_LEN + MAX_PASSWORD_LEN + 1) 0);
     let s = s\<lparr>challengeStatic := buf\<rparr>;
     bufp \<leftarrow> strncpy buf (CHALLENGE_LEN + 2);
     Some ((0, bufp), s)
   }"

section \<open>Passwords in the catalogue\<close>

definition PASSWORD_SCRAMBLE_PREFIX :: string where
  "PASSWORD_SCRAMBLE_PREFIX = ''.E_''"

definition passwordKey :: "'w srvos \<Rightarrow> ('w, 'z) sstate_scheme \<Rightarrow> (string \<times> ('w, 'z) sstate_scheme) option" where
  "passwordKey OS s = do {
     (v, s) \<leftarrow> sys (sv_getenv OS ''irodsPKey'') s;
     Some (case v of None \<Rightarrow> ''a9_3fker'' | Some k \<Rightarrow> k, s)
   }"

definition icatDescramble :: "'w srvos \<Rightarrow> 8 word list \<Rightarrow> string \<Rightarrow> ('w, 'z) sstate_scheme \<Rightarrow> (string \<times> ('w, 'z) sstate_scheme) option" where
  "icatDescramble OS junk pw s =
     (let len = length PASSWORD_SCRAMBLE_PREFIX in
      if take len pw \<noteq> PASSWORD_SCRAMBLE_PREFIX then Some (pw, s)
      else if length pw - len < MAX_PASSWORD_LEN then do {
        (key, s) \<leftarrow> passwordKey OS s;
        unscrambled \<leftarrow> obfDecodeByKey False junk (drop len pw) key;
        Some (unscrambled, s)
      }
      else None)"

text \<open>A scrambled password that fills the buffer is left without its terminating zero.\<close>

definition icatScramble :: "'w srvos \<Rightarrow> 8 word list \<Rightarrow> string \<Rightarrow> ('w, 'z) sstate_scheme \<Rightarrow> (string \<times> ('w, 'z) sstate_scheme) option" where
  "icatScramble OS junk pw s = do {
     (key, s) \<leftarrow> passwordKey OS s;
     scrambled \<leftarrow> obfEncodeByKey False junk pw key;
     let newPw = PASSWORD_SCRAMBLE_PREFIX @ scrambled;
     if length newPw < MAX_PASSWORD_LEN then Some (newPw, s) else None
   }"

section \<open>Names and zones\<close>

definition parseUserName :: "string \<Rightarrow> (int \<times> string \<times> string) option" where
  "parseUserName full = do {
     (userName, userZone) \<leftarrow>
       (case strstr full ''#'' of
          Some ix \<Rightarrow>
            if 0 < ix \<and> ix < NAME_LEN - 1
            then (if length full - ix - 1 < NAME_LEN then Some (take ix full, drop (ix + 1) full) else None)
            else (if length full < NAME_LEN then Some (full, '''') else None)
        | None \<Rightarrow> if length full < NAME_LEN then Some (full, '''') else None);
     let manyAt = (case strstr userName ''@'' of None \<Rightarrow> False | Some i \<Rightarrow> strstr (drop (i + 1) userName) ''@'' \<noteq> None);
     Some (if strstr userZone ''#'' \<noteq> None \<or> manyAt then USER_INVALID_USERNAME_FORMAT else 0, userName, userZone)
   }"

definition do_rollback :: "'w icat \<Rightarrow> ('w, 'z) sstate_scheme \<Rightarrow> (int \<times> ('w, 'z) sstate_scheme) option" where
  "do_rollback IC s = sys (cmlExecuteNoAnswerSql IC ''rollback'' []) s"

definition getLocalZone :: "'w icat \<Rightarrow> ('w, 'z) sstate_scheme \<Rightarrow> (int \<times> ('w, 'z) sstate_scheme) option" where
  "getLocalZone IC s =
     (if localZone s = [] then do {
        ((status, zone), s) \<leftarrow> sys (cmlGetStringValueFromSql IC ''select zone_name from R_ZONE_MAIN where zone_type_name=?'' [''local'']) s;
        if status \<noteq> 0 then do { (_, s) \<leftarrow> do_rollback IC s; Some (status, s) }
        else Some (status, s\<lparr>localZone := zone\<rparr>)
      }
      else Some (0, s))"

definition getLocalZoneInfo :: "('w, 'z) sstate_scheme \<Rightarrow> int \<times> string" where
  "getLocalZoneInfo s = (case find (\<lambda>(_, kind). kind = LOCAL_ICAT) (zones s) of
     Some (name, _) \<Rightarrow> (0, name) | None \<Rightarrow> (SYS_INVALID_ZONE_NAME, []))"

text \<open>The last local zone of the list, and the first server id that begins with the name of the zone.\<close>

definition getZoneServerId :: "('w, 'z) sstate_scheme \<Rightarrow> string \<Rightarrow> string" where
  "getZoneServerId s zoneName =
     (if zoneName = [] then localSID s
      else
        let localZoneName = find (\<lambda>(_, kind). kind = LOCAL_ICAT) (rev (zones s)) in
        if map_option fst localZoneName = Some zoneName then localSID s
        else
          let matchStr = zoneName @ ''-'' in
          case find (\<lambda>sid. take (length matchStr) sid = matchStr) (remoteSID s) of
            Some sid \<Rightarrow> drop (length matchStr) sid
          | None \<Rightarrow> [])"

section \<open>Checking an answer\<close>

text \<open>The strings of \<open>pwInfoArray\<close>, four to a password.\<close>

definition pwAt :: "string list \<Rightarrow> nat \<Rightarrow> string option" where
  "pwAt strs i = do { str \<leftarrow> load strs i; if length str < MAX_PASSWORD_LEN then Some str else None }"

definition sameResponse :: "8 word list \<Rightarrow> 8 word list \<Rightarrow> bool option" where
  "sameResponse response digest =
     (if RESPONSE_LEN \<le> length response then Some (take RESPONSE_LEN response = take RESPONSE_LEN digest) else None)"

text \<open>The password that the loop ends with: as it is used, its expiry, creation and modification time, and as it is
  stored.\<close>

record goodPassword =
  goodPw :: string
  goodPwExpiry :: string
  goodPwTs :: string
  goodPwModTs :: string
  lastPw :: string

fun pw_loop :: "'w srvos \<Rightarrow> 8 word list \<Rightarrow> 8 word list \<Rightarrow> 8 word list \<Rightarrow> string list \<Rightarrow> nat \<Rightarrow> nat \<Rightarrow> 8 word list \<Rightarrow>
    ('w, 'z) sstate_scheme \<Rightarrow> (goodPassword option \<times> ('w, 'z) sstate_scheme) option" where
  "pw_loop OS junk challenge response strs k 0 context s = Some (None, s)"
| "pw_loop OS junk challenge response strs k (Suc n) context s = do {
     md5Buf \<leftarrow> challengeBuf challenge;
     last \<leftarrow> pwAt strs (4 * k);
     (cpw, s) \<leftarrow> icatDescramble OS junk last s;
     p \<leftarrow> strncpy (bytesOf cpw @ [0]) MAX_PASSWORD_LEN;
     md5Buf \<leftarrow> storeBytes CHALLENGE_LEN p md5Buf;
     (digest, context) \<leftarrow> answer context md5Buf;
     ok \<leftarrow> sameResponse response digest;
     if ok then do {
       expiry \<leftarrow> pwAt strs (4 * k + 1);
       ts \<leftarrow> pwAt strs (4 * k + 2);
       modTs \<leftarrow> pwAt strs (4 * k + 3);
       Some (Some \<lparr>goodPw = cpw, goodPwExpiry = expiry, goodPwTs = ts, goodPwModTs = modTs, lastPw = last\<rparr>, s)
     }
     else pw_loop OS junk challenge response strs (Suc k) n context s
   }"

definition IRODS_PAM_PASSWORD_TIME :: string where
  "IRODS_PAM_PASSWORD_TIME = ''1209600''"

definition isPamExpiry :: "string \<Rightarrow> bool" where
  "isPamExpiry expiry \<longleftrightarrow> take 10 expiry = take 10 IRODS_PAM_PASSWORD_TIME"

text \<open>\<open>%011d\<close>.\<close>

definition show011 :: "int \<Rightarrow> string" where
  "show011 n = (let d = showNat (nat \<bar>n\<bar>) in
     if n < 0 then CHR ''-'' # replicate (10 - length d) (CHR ''0'') @ d else replicate (11 - length d) (CHR ''0'') @ d)"

definition getNowStr :: "'w srvos \<Rightarrow> ('w, 'z) sstate_scheme \<Rightarrow> (string \<times> ('w, 'z) sstate_scheme) option" where
  "getNowStr OS s = do { (myTime, s) \<leftarrow> sys (os_time OS) s; Some (take 14 (show011 (toInt32 myTime)), s) }"

text \<open>An expired password of the PAM kind is removed. The result is the status to return, if any.\<close>

definition checkPamExpiry :: "'w srvos \<Rightarrow> 'w icat \<Rightarrow> goodPassword \<Rightarrow> string \<Rightarrow> string \<Rightarrow> ('w, 'z) sstate_scheme \<Rightarrow>
    (int option \<times> ('w, 'z) sstate_scheme) option" where
  "checkPamExpiry OS IC g userName2 myUserZone s =
     (if isPamExpiry (goodPwExpiry g) then do {
        (myTime, s) \<leftarrow> getNowStr OS s;
        if strtol (goodPwModTs g) + strtol (goodPwExpiry g) < strtol myTime then do {
          (status, s) \<leftarrow> sys (cmlExecuteNoAnswerSql IC ''delete from R_USER_PASSWORD where rcat_password=? and create_ts=? and user_id = (select user_id from R_USER_MAIN where user_name=? and zone_name=?)''
            [lastPw g, goodPwTs g, userName2, myUserZone]) s;
          if status \<noteq> 0 then Some (Some status, s)
          else do {
            (status, s) \<leftarrow> sys (cmlExecuteNoAnswerSql IC ''commit'' []) s;
            if status \<noteq> 0 then Some (Some status, s) else Some (Some CAT_PASSWORD_EXPIRED, s)
          }
        }
        else Some (None, s)
      }
      else Some (None, s))"

text \<open>A temporary password is removed when it is used, with other temporary passwords that have expired.\<close>

definition useTemporary :: "'w srvos \<Rightarrow> 'w icat \<Rightarrow> goodPassword \<Rightarrow> ('w, 'z) sstate_scheme \<Rightarrow>
    (int option \<times> ('w, 'z) sstate_scheme) option" where
  "useTemporary OS IC g s =
     (let expireTime = strtol (goodPwExpiry g) in
      if expireTime < TEMP_PASSWORD_MAX_TIME \<and> \<not> isPamExpiry (goodPwExpiry g) then do {
        (myTime, s) \<leftarrow> getNowStr OS s;
        let nowTime = strtol myTime;
        let createTime = strtol (goodPwTs g);
        let returnExpired = (createTime = 0 \<or> nowTime = 0 \<or> createTime + expireTime < nowTime);
        (status, s) \<leftarrow> sys (cmlExecuteNoAnswerSql IC ''delete from R_USER_PASSWORD where rcat_password=?'' [goodPw g]) s;
        if status \<noteq> 0 then do { (_, s) \<leftarrow> do_rollback IC s; Some (Some status, s) }
        else do {
          (status, s) \<leftarrow> sys (cmlExecuteNoAnswerSql IC ''delete from R_USER_PASSWORD where pass_expiry_ts = ? and create_ts < ?''
            [showInt TEMP_PASSWORD_TIME, show011 (toInt32 (nowTime - TEMP_PASSWORD_TIME))]) s;
          if status \<noteq> 0 \<and> status \<noteq> CAT_SUCCESS_BUT_WITH_NO_INFO then do { (_, s) \<leftarrow> do_rollback IC s; Some (Some status, s) }
          else if returnExpired then Some (Some CAT_PASSWORD_EXPIRED, s)
          else do {
            (status, s) \<leftarrow> sys (cmlExecuteNoAnswerSql IC ''commit'' []) s;
            if status \<noteq> 0 then Some (Some status, s) else Some (None, s)
          }
        }
      }
      else Some (None, s))"

definition userTypeSql :: string where
  "userTypeSql = ''select user_type_name from R_USER_MAIN where user_name=? and zone_name=?''"

text \<open>From \<open>checkLevel\<close> on: the status and the levels of the two users.\<close>

definition checkLevel :: "'w icat \<Rightarrow> string \<Rightarrow> string \<Rightarrow> string \<Rightarrow> ('w, 'z) sstate_scheme \<Rightarrow>
    ((int \<times> int \<times> int) \<times> ('w, 'z) sstate_scheme) option" where
  "checkLevel IC userName2 userZone myUserZone s = do {
     ((status, userType), s) \<leftarrow> sys (cmlGetStringValueFromSql IC userTypeSql [userName2, myUserZone]) s;
     if status \<noteq> 0 then
       (if status = CAT_NO_ROWS_FOUND then Some ((CAT_INVALID_USER, NO_USER_AUTH, NO_USER_AUTH), s)
        else do { (_, s) \<leftarrow> do_rollback IC s; Some ((status, NO_USER_AUTH, NO_USER_AUTH), s) })
     else if userType \<noteq> ''rodsadmin'' then Some ((0, LOCAL_USER_AUTH, NO_USER_AUTH), s\<lparr>prevFailure := 0\<rparr>)
     else if sClientUser s = userName2 \<and> sClientZone s = userZone
     then Some ((0, LOCAL_PRIV_USER_AUTH, LOCAL_PRIV_USER_AUTH), s\<lparr>prevFailure := 0\<rparr>)
     else if sClientUser s = [] then Some ((0, LOCAL_PRIV_USER_AUTH, REMOTE_USER_AUTH), s\<lparr>prevFailure := 0\<rparr>)
     else do {
       ((status, userType), s) \<leftarrow> sys (cmlGetStringValueFromSql IC userTypeSql [sClientUser s, sClientZone s]) s;
       if status \<noteq> 0 then
         (if status = CAT_NO_ROWS_FOUND then Some ((CAT_INVALID_CLIENT_USER, LOCAL_PRIV_USER_AUTH, NO_USER_AUTH), s)
          else do { (_, s) \<leftarrow> do_rollback IC s; Some ((status, LOCAL_PRIV_USER_AUTH, NO_USER_AUTH), s) })
       else Some ((0, LOCAL_PRIV_USER_AUTH, if userType = ''rodsadmin'' then LOCAL_PRIV_USER_AUTH else LOCAL_USER_AUTH),
         s\<lparr>prevFailure := 0\<rparr>)
     }
   }"

text \<open>What follows the loop when a password fits.\<close>

definition usePassword :: "'w srvos \<Rightarrow> 'w icat \<Rightarrow> goodPassword \<Rightarrow> string \<Rightarrow> string \<Rightarrow> string \<Rightarrow> ('w, 'z) sstate_scheme \<Rightarrow>
    ((int \<times> int \<times> int) \<times> ('w, 'z) sstate_scheme) option" where
  "usePassword OS IC g userName2 userZone myUserZone s = do {
     (_, s) \<leftarrow> getNowStr OS s;
     (r, s) \<leftarrow> checkPamExpiry OS IC g userName2 myUserZone s;
     case r of
       Some status \<Rightarrow> Some ((status, NO_USER_AUTH, NO_USER_AUTH), s)
     | None \<Rightarrow> do {
         (r, s) \<leftarrow> useTemporary OS IC g s;
         case r of
           Some status \<Rightarrow> Some ((status, NO_USER_AUTH, NO_USER_AUTH), s)
         | None \<Rightarrow> checkLevel IC userName2 userZone myUserZone s
       }
   }"

definition passwordSql :: string where
  "passwordSql = ''select rcat_password, pass_expiry_ts, R_USER_PASSWORD.create_ts, R_USER_PASSWORD.modify_ts from R_USER_PASSWORD, R_USER_MAIN where user_name=? and zone_name=? and R_USER_MAIN.user_id = R_USER_PASSWORD.user_id''"

definition checkPasswords :: "'w srvos \<Rightarrow> 'w icat \<Rightarrow> 8 word list \<Rightarrow> 8 word list \<Rightarrow> 8 word list \<Rightarrow> string \<Rightarrow> string \<Rightarrow> string \<Rightarrow>
    ('w, 'z) sstate_scheme \<Rightarrow> ((int \<times> int \<times> int) \<times> ('w, 'z) sstate_scheme) option" where
  "checkPasswords OS IC junk challenge response userName2 userZone myUserZone s = do {
     ((status, strs), s) \<leftarrow> sys (cmlGetMultiRowStringValuesFromSql IC passwordSql (4 * MAX_PASSWORDS) [userName2, myUserZone]) s;
     if status < 4 then
       (if status = CAT_NO_ROWS_FOUND then
          (if take NAME_LEN ''anonymous'' = take NAME_LEN userName2 then checkLevel IC userName2 userZone myUserZone s
           else Some ((CAT_INVALID_USER, NO_USER_AUTH, NO_USER_AUTH), s))
        else Some ((status, NO_USER_AUTH, NO_USER_AUTH), s))
     else do {
       (good, s) \<leftarrow> pw_loop OS junk challenge response strs 0 (min MAX_PASSWORDS (nat (status div 4))) junk s;
       case good of
         None \<Rightarrow> Some ((CAT_INVALID_AUTHENTICATION, NO_USER_AUTH, NO_USER_AUTH), s\<lparr>prevFailure := prevFailure s + 1\<rparr>)
       | Some g \<Rightarrow> usePassword OS IC g userName2 userZone myUserZone s
     }
   }"

text \<open>The zone that is asked for: that of the name, or the local one.\<close>

definition zoneToAsk :: "'w icat \<Rightarrow> string \<Rightarrow> ('w, 'z) sstate_scheme \<Rightarrow> ((int \<times> string) \<times> ('w, 'z) sstate_scheme) option" where
  "zoneToAsk IC userZone s =
     (if userZone = [] then do { (status, s) \<leftarrow> getLocalZone IC s; Some ((status, localZone s), s) }
      else Some ((0, userZone), s))"

definition chlCheckAuth :: "'w srvos \<Rightarrow> 'w icat \<Rightarrow> 8 word list \<Rightarrow> 8 word list \<Rightarrow> 8 word list \<Rightarrow> string \<Rightarrow> ('w, 'z) sstate_scheme \<Rightarrow>
    ((int \<times> int \<times> int) \<times> ('w, 'z) sstate_scheme) option" where
  "chlCheckAuth OS IC junk challenge response username s = do {
     md5Buf \<leftarrow> challengeBuf challenge;
     let s = s\<lparr>prevChalSig := signature md5Buf\<rparr>;
     (_, userName2, userZone) \<leftarrow> parseUserName username;
     ((status, myUserZone), s) \<leftarrow> zoneToAsk IC userZone s;
     if status \<noteq> 0 then Some ((status, NO_USER_AUTH, NO_USER_AUTH), s)
     else checkPasswords OS IC junk challenge response userName2 userZone myUserZone s
   }"

section \<open>Levels of authority\<close>

definition rsAuthCheck :: "'w srvos \<Rightarrow> 'w icat \<Rightarrow> 8 word list \<Rightarrow> 8 word list \<Rightarrow> 8 word list \<Rightarrow> string \<Rightarrow> ('w, 'z) sstate_scheme \<Rightarrow>
    ((int \<times> authCheckOut) \<times> ('w, 'z) sstate_scheme) option" where
  "rsAuthCheck OS IC junk challenge response username s = do {
     ((status, up, cp), s) \<leftarrow> chlCheckAuth OS IC junk challenge response username s;
     if status = 0 then do {
       md5Buf \<leftarrow> challengeBuf challenge;
       let serverID = getZoneServerId s [];
       digest \<leftarrow>
         (if length serverID = 0 then Some (replicate RESPONSE_LEN 0)
          else do {
            md5Buf \<leftarrow> storeBytes CHALLENGE_LEN (bytesOf serverID) md5Buf;
            (digest, _) \<leftarrow> answer junk md5Buf;
            Some digest
          });
       Some ((status, \<lparr>privLevel = up, clientPrivLevel = cp, serverResponse = Some digest\<rparr>), s)
     }
     else Some ((status, \<lparr>privLevel = 0, clientPrivLevel = 0, serverResponse = None\<rparr>), s)
   }"

definition chkProxyUserPriv :: "int \<Rightarrow> ('w, 'z) sstate_scheme \<Rightarrow> int" where
  "chkProxyUserPriv proxyUserPriv s =
     (if sProxyUser s = sClientUser s then 0
      else if proxyUserPriv \<ge> LOCAL_PRIV_USER_AUTH \<or> proxyUserPriv \<ge> REMOTE_PRIV_USER_AUTH \<and> sProxyZone s = sClientZone s then 0
      else SYS_PROXYUSER_NO_PRIV)"

text \<open>The answer of another catalogue server is itself checked, if the two share a server id.\<close>

definition checkServer :: "8 word list \<Rightarrow> string \<Rightarrow> authCheckOut \<Rightarrow> ('w, 'z) sstate_scheme \<Rightarrow> int option" where
  "checkServer junk username out s =
     (case serverResponse out of
        None \<Rightarrow> Some 0
      | Some resp \<Rightarrow> do {
          c \<leftarrow> load resp 0;
          if c = 0 then Some 0
          else do {
            md5Buf \<leftarrow> challengeBuf (challengeStatic s);
            (_, _, userZone) \<leftarrow> parseUserName username;
            let serverId = getZoneServerId s userZone;
            if length serverId = 0 then Some 0
            else do {
              md5Buf \<leftarrow> storeBytes CHALLENGE_LEN (bytesOf serverId) md5Buf;
              (digest, _) \<leftarrow> answer junk md5Buf;
              ok \<leftarrow> sameResponse resp digest;
              Some (if ok then 0 else REMOTE_SERVER_AUTHENTICATION_FAILURE)
            }
          }
        })"

definition askCatalogue :: "'w srvos \<Rightarrow> 'w icat \<Rightarrow> 8 word list \<Rightarrow> int \<Rightarrow> 8 word list \<Rightarrow> string \<Rightarrow> ('w, 'z) sstate_scheme \<Rightarrow>
    ((int \<times> authCheckOut option) \<times> ('w, 'z) sstate_scheme) option" where
  "askCatalogue OS IC junk flag response username s =
     (if flag = LOCAL_HOST then do {
        ((status, out), s) \<leftarrow> rsAuthCheck OS IC junk (challengeStatic s) response username s;
        Some ((status, Some out), s)
      }
      else do {
        (r, s) \<leftarrow> sys (rcAuthCheck IC (challengeStatic s) response username) s;
        (_, s) \<leftarrow> sys (rcDisconnect_rcat IC) s;
        Some (r, s)
      })"

text \<open>A user without a zone is one of the local zone.\<close>

definition setClientZone :: "('w, 'z) sstate_scheme \<Rightarrow> (int \<times> ('w, 'z) sstate_scheme) option" where
  "setClientZone s =
     (if length (sClientZone s) = 0 then
        let (status, zone) = getLocalZoneInfo s in
        if status < 0 then Some (status, s)
        else if length zone < NAME_LEN then Some (0, s\<lparr>sClientZone := zone\<rparr>) else None
      else Some (0, s))"

text \<open>A user of a foreign zone is local there and remote here. The levels after the adjustment.\<close>

definition adjustLevels :: "int \<Rightarrow> authCheckOut \<Rightarrow> ('w, 'z) sstate_scheme \<Rightarrow> int \<times> authCheckOut" where
  "adjustLevels icatKind out s =
     (if icatKind = REMOTE_ICAT then
        let p = (if privLevel out = LOCAL_PRIV_USER_AUTH then REMOTE_PRIV_USER_AUTH
                 else if privLevel out = LOCAL_USER_AUTH then REMOTE_USER_AUTH else privLevel out);
            out = out\<lparr>privLevel := p\<rparr> in
        if sProxyUser s = sClientUser s then (0, out\<lparr>clientPrivLevel := p\<rparr>)
        else
          let (status, zone) = getLocalZoneInfo s; c = clientPrivLevel out in
          if status < 0 then (status, out)
          else if zone = sClientZone s then
            (0, out\<lparr>clientPrivLevel := (if c = REMOTE_PRIV_USER_AUTH then LOCAL_PRIV_USER_AUTH
                                        else if c = REMOTE_USER_AUTH then LOCAL_USER_AUTH else c)\<rparr>)
          else
            (0, out\<lparr>clientPrivLevel := (if c = LOCAL_PRIV_USER_AUTH \<or> c = LOCAL_USER_AUTH then REMOTE_USER_AUTH else c)\<rparr>)
      else if sProxyUser s = sClientUser s then (0, out\<lparr>clientPrivLevel := privLevel out\<rparr>)
      else (0, out))"

definition setAuthFlags :: "authCheckOut \<Rightarrow> ('w, 'z) sstate_scheme \<Rightarrow> ('w, 'z) sstate_scheme" where
  "setAuthFlags out s =
     (if sProxyUser s \<noteq> sClientUser s then s\<lparr>sProxyAuth := privLevel out, sClientAuth := clientPrivLevel out\<rparr>
      else s\<lparr>sProxyAuth := privLevel out, sClientAuth := privLevel out\<rparr>)"

definition grantLevels :: "int \<Rightarrow> authCheckOut \<Rightarrow> ('w, 'z) sstate_scheme \<Rightarrow> (int \<times> ('w, 'z) sstate_scheme) option" where
  "grantLevels icatKind out s = do {
     (status, s) \<leftarrow> setClientZone s;
     if status < 0 then Some (status, s)
     else
       let (status, out) = adjustLevels icatKind out s in
       if status < 0 then Some (status, s)
       else
         let status = chkProxyUserPriv (privLevel out) s in
         if status < 0 then Some (status, s) else Some (status, setAuthFlags out s)
   }"

definition rsAuthResponse :: "'w srvos \<Rightarrow> 'w icat \<Rightarrow> 8 word list \<Rightarrow> 8 word list \<Rightarrow> string \<Rightarrow> ('w, 'z) sstate_scheme \<Rightarrow>
    (int \<times> ('w, 'z) sstate_scheme) option" where
  "rsAuthResponse OS IC junk response username s = do {
     ((status, host), s) \<leftarrow> sys (getAndConnRcatHostNoLogin IC (sProxyZone s)) s;
     if status < 0 then Some (status, s)
     else do {
       ((status, out), s) \<leftarrow> askCatalogue OS IC junk (localFlag host) response username s;
       if status < 0 then Some (status, s)
       else do {
         out \<leftarrow> out;
         status \<leftarrow> (if localFlag host \<noteq> LOCAL_HOST then checkServer junk username out s else Some 0);
         if status < 0 then Some (status, s)
         else grantLevels (rcatEnabled host) out s
       }
     }
   }"

section \<open>Only a password admits\<close>

lemma answer_check:
  "challenge_ok c \<Longrightarrow> length junk = 64 \<Longrightarrow> answer junk (c @ padded pw @ replicate 2 0) = Some (loginResponse c pw, replicate 64 0)"
  by (rule answer_padded) (simp_all add: length_padded)

lemma pw_loop_found:
  fixes s s' :: "('w, 'z) sstate_scheme"
  assumes "pw_loop OS junk (c @ r) response strs k n ctx s = Some (Some g, s')" "challenge_ok c" "length ctx = 64"
  shows "\<exists>i s1 (s2 :: ('w, 'z) sstate_scheme). k \<le> i \<and> i < k + n \<and> 4 * i + 3 < length strs \<and> icatDescramble OS junk (strs ! (4 * i)) s1 = Some (goodPw g, s2) \<and>
    goodPwExpiry g = strs ! (4 * i + 1) \<and> goodPwTs g = strs ! (4 * i + 2) \<and> goodPwModTs g = strs ! (4 * i + 3) \<and>
    take 16 response = loginResponse c (goodPw g)"
  using assms
proof (induction n arbitrary: k ctx s)
  case (Suc n)
  from Suc.prems obtain stored pw s1 ok where step: "pwAt strs (4 * k) = Some stored" "icatDescramble OS junk stored s = Some (pw, s1)"
      "sameResponse response (loginResponse c pw) = Some ok"
    and rest: "(if ok then do {
       expiry \<leftarrow> pwAt strs (4 * k + 1); ts \<leftarrow> pwAt strs (4 * k + 2); modTs \<leftarrow> pwAt strs (4 * k + 3);
       Some (Some \<lparr>goodPw = pw, goodPwExpiry = expiry, goodPwTs = ts, goodPwModTs = modTs, lastPw = stored\<rparr>, s1)
     }
     else pw_loop OS junk (c @ r) response strs (Suc k) n (replicate 64 0) s1) = Some (Some g, s')"
    by (auto simp: challenge_buf strncpy_padded store_padded answer_check bind_eq_Some_conv)
  show ?case
  proof (cases ok)
    case True
    then have "take 16 response = loginResponse c pw"
      using step(3) by (auto simp: sameResponse_def length_loginResponse split: if_splits)
    with True rest step(1,2) show ?thesis
      by (intro exI [of _ k] exI [of _ s] exI [of _ s1]) (auto simp: pwAt_def load_def bind_eq_Some_conv split: if_splits)
  next
    case False
    then obtain i s1' and s2 :: "('w, 'z) sstate_scheme" where "Suc k \<le> i" "i < Suc k + n" "4 * i + 3 < length strs" "icatDescramble OS junk (strs ! (4 * i)) s1' = Some (goodPw g, s2)"
        "goodPwExpiry g = strs ! (4 * i + 1)" "goodPwTs g = strs ! (4 * i + 2)" "goodPwModTs g = strs ! (4 * i + 3)"
        "take 16 response = loginResponse c (goodPw g)"
      using Suc.IH [of "Suc k" "replicate 64 0" s1] rest Suc.prems(2) by auto
    then show ?thesis by (intro exI [of _ i]) auto
  qed
qed simp


text \<open>Who the users are and what they may do stays as it is until the end of \<open>rsAuthResponse\<close>.\<close>

definition who :: "('w, 'z) sstate_scheme \<Rightarrow> string \<times> string \<times> string \<times> string \<times> int \<times> int" where
  "who s = (sProxyUser s, sProxyZone s, sClientUser s, sClientZone s, sProxyAuth s, sClientAuth s)"

definition usersOf :: "('w, 'z) sstate_scheme \<Rightarrow> string \<times> string \<times> string \<times> string \<times> string \<times> int \<times> int" where
  "usersOf s = (localZone s, who s)"

lemma usersOf_update [simp]:
  "usersOf (s\<lparr>world := w\<rparr>) = usersOf s" "usersOf (s\<lparr>prevFailure := n\<rparr>) = usersOf s" "usersOf (s\<lparr>prevChalSig := x\<rparr>) = usersOf s"
  "who (s\<lparr>world := w\<rparr>) = who s" "who (s\<lparr>localZone := x\<rparr>) = who s" "who (s\<lparr>prevChalSig := x\<rparr>) = who s"
  by (simp_all add: usersOf_def who_def)

lemma usersD: "usersOf s' = usersOf s \<Longrightarrow> localZone s' = localZone s \<and> who s' = who s"
  by (simp add: usersOf_def)

lemma users_sys: "sys f s = Some (r, s') \<Longrightarrow> usersOf s' = usersOf (s :: ('w, 'z) sstate_scheme)"
  by (auto simp: sys_def split: prod.splits)

lemma users_descramble: "icatDescramble OS junk pw s = Some (r, s') \<Longrightarrow> usersOf s' = usersOf s"
  by (auto simp: icatDescramble_def passwordKey_def Let_def bind_eq_Some_conv dest: users_sys split: if_splits)

lemma users_now: "getNowStr OS s = Some (r, s') \<Longrightarrow> usersOf s' = usersOf s"
  by (auto simp: getNowStr_def bind_eq_Some_conv dest: users_sys)

lemma users_rollback: "do_rollback IC s = Some (r, s') \<Longrightarrow> usersOf s' = usersOf s"
  by (auto simp: do_rollback_def dest: users_sys)

lemma users_loop: "pw_loop OS junk c response strs k n ctx s = Some (r, s') \<Longrightarrow> usersOf s' = usersOf s"
proof (induction n arbitrary: k ctx s)
  case (Suc n)
  then show ?case by (auto simp: bind_eq_Some_conv dest: users_descramble Suc.IH split: if_splits)
qed simp

lemma users_zone:
  "zoneToAsk IC z s = Some ((i, zone), s') \<Longrightarrow> who s' = who s \<and> zone = (if z = [] then localZone s' else z)"
  by (auto simp: zoneToAsk_def getLocalZone_def bind_eq_Some_conv dest!: users_sys users_rollback usersD split: if_splits)

lemma users_pam: "checkPamExpiry OS IC g u z s = Some (r, s') \<Longrightarrow> usersOf s' = usersOf s"
  by (auto simp: checkPamExpiry_def bind_eq_Some_conv dest!: users_sys users_now split: if_splits)

lemma users_temporary: "useTemporary OS IC g s = Some (r, s') \<Longrightarrow> usersOf s' = usersOf s"
  by (auto simp: useTemporary_def Let_def bind_eq_Some_conv dest!: users_sys users_now users_rollback split: if_splits)

lemma users_level: "checkLevel IC u z mz s = Some (r, s') \<Longrightarrow> usersOf s' = usersOf s"
  by (auto simp: checkLevel_def bind_eq_Some_conv dest!: users_sys users_rollback split: if_splits)

lemma users_use: "usePassword OS IC g u z mz s = Some (r, s') \<Longrightarrow> usersOf s' = usersOf s"
  by (auto simp: usePassword_def bind_eq_Some_conv dest!: users_now users_pam users_temporary users_level split: option.splits)


lemma users_passwords: "checkPasswords OS IC junk c response u z mz s = Some (r, s') \<Longrightarrow> usersOf s' = usersOf s"
  by (auto simp: checkPasswords_def bind_eq_Some_conv dest!: users_sys users_loop users_level users_use split: if_splits option.splits)

lemma users_check: "chlCheckAuth OS IC junk c response name s = Some (r, s') \<Longrightarrow> who s' = who s"
  by (auto simp: chlCheckAuth_def Let_def bind_eq_Some_conv dest!: users_zone users_passwords usersD split: if_splits)

lemma users_rsCheck: "rsAuthCheck OS IC junk c response name s = Some (r, s') \<Longrightarrow> who s' = who s"
  by (auto simp: rsAuthCheck_def Let_def bind_eq_Some_conv dest!: users_check split: if_splits)

lemma users_catalogue: "askCatalogue OS IC junk h response name s = Some (r, s') \<Longrightarrow> who s' = who s"
  by (auto simp: askCatalogue_def bind_eq_Some_conv dest!: users_rsCheck users_sys usersD split: if_splits)

lemma level_granted:
  "checkLevel IC u z mz s = Some ((i, up, cp), s') \<Longrightarrow> i = 0 \<Longrightarrow> up = LOCAL_USER_AUTH \<or> up = LOCAL_PRIV_USER_AUTH"
  by (auto simp: checkLevel_def bind_eq_Some_conv split: if_splits)

lemma passwords_grant:
  fixes s s' :: "('w, 'z) sstate_scheme"
  assumes "checkPasswords OS IC junk (c @ r) response u z mz s = Some ((0, up, cp), s')" "up \<noteq> 0" "challenge_ok c" "length junk = 64"
  defines "q \<equiv> fst (cmlGetMultiRowStringValuesFromSql IC passwordSql 160 [u, mz] (world s))"
  shows "u = ''anonymous'' \<and> fst q = CAT_NO_ROWS_FOUND \<or>
    (\<exists>i pw s1 (s2 :: ('w, 'z) sstate_scheme). 4 * i + 3 < length (snd q) \<and> icatDescramble OS junk (snd q ! (4 * i)) s1 = Some (pw, s2) \<and>
       take 16 response = loginResponse c pw)"
proof -
  obtain status strs w where Q: "cmlGetMultiRowStringValuesFromSql IC passwordSql 160 [u, mz] (world s) = ((status, strs), w)"
    by (metis prod.exhaust)
  have anon: "take 64 ''anonymous'' = take 64 u \<Longrightarrow> u = ''anonymous''"
    by (cases "length u \<le> 64") (auto dest: arg_cong [where f = length])
  show ?thesis
  proof (cases "status < 4")
    case True
    with assms(1,2) anon show ?thesis
      by (auto simp: checkPasswords_def sys_def Q q_def split: if_splits)
  next
    case False
    with assms(1) obtain g and s1 s2 :: "('w, 'z) sstate_scheme" where "pw_loop OS junk (c @ r) response strs 0 (min 40 (nat (status div 4))) junk s1 = Some (Some g, s2)"
      by (auto simp: checkPasswords_def sys_def Q bind_eq_Some_conv split: if_splits option.splits)
    from pw_loop_found [OF this assms(3,4)] show ?thesis by (auto simp: Q q_def)
  qed
qed

lemma adjust_levels:
  "adjustLevels k out s = (i, out') \<Longrightarrow> \<not> i < 0 \<Longrightarrow> i = 0"
  by (auto simp: adjustLevels_def getLocalZoneInfo_def Let_def split: if_splits option.splits)

lemma set_zone:
  "setClientZone s = Some (i, s') \<Longrightarrow> \<exists>z. s' = s\<lparr>sClientZone := z\<rparr>"
  by (cases "length (sClientZone s) = 0") (auto simp: setClientZone_def Let_def split: if_splits prod.splits intro: exI [of _ "sClientZone s"])

lemma whoD: "who s' = who s \<Longrightarrow> sProxyUser s' = sProxyUser s \<and> sProxyZone s' = sProxyZone s \<and> sClientUser s' = sClientUser s \<and>
    sClientZone s' = sClientZone s \<and> sProxyAuth s' = sProxyAuth s \<and> sClientAuth s' = sClientAuth s"
  by (simp add: who_def)

lemma proxy_priv:
  "chkProxyUserPriv p s = 0 \<longleftrightarrow> sProxyUser s = sClientUser s \<or> p \<ge> 5 \<or> p \<ge> 4 \<and> sProxyZone s = sClientZone s"
  by (simp add: chkProxyUserPriv_def)

lemma proxy_status: "chkProxyUserPriv p s = 0 \<or> chkProxyUserPriv p s < 0"
  by (simp add: chkProxyUserPriv_def)

text \<open>Authority for a status and a state after a login.\<close>

definition authority_ok :: "('w, 'z) sstate_scheme \<Rightarrow> int \<Rightarrow> ('w, 'z) sstate_scheme \<Rightarrow> bool" where
  "authority_ok s i s' \<longleftrightarrow> sProxyUser s' = sProxyUser s \<and> sClientUser s' = sClientUser s \<and> sProxyZone s' = sProxyZone s \<and> (if i = 0 then
      (if sProxyUser s = sClientUser s then sClientAuth s' = sProxyAuth s'
       else sProxyAuth s' \<ge> 5 \<or> sProxyAuth s' \<ge> 4 \<and> sProxyZone s' = sClientZone s')
    else i < 0 \<and> sProxyAuth s' = sProxyAuth s \<and> sClientAuth s' = sClientAuth s)"

lemma authority_who: "who s1 = who s \<Longrightarrow> authority_ok s1 i s' \<longleftrightarrow> authority_ok s i s'"
  by (drule whoD) (simp add: authority_ok_def)

lemma authority_error: "who s' = who s \<Longrightarrow> i < 0 \<Longrightarrow> authority_ok s i s'"
  by (drule whoD) (simp add: authority_ok_def)

lemma authority_grant:
  assumes "grantLevels k out s = Some (i, s')"
  shows "authority_ok s i s'"
proof -
  obtain st z where z: "setClientZone s = Some (st, s\<lparr>sClientZone := z\<rparr>)"
    using assms set_zone by (fastforce simp: grantLevels_def bind_eq_Some_conv)
  obtain st2 out2 where a: "adjustLevels k out (s\<lparr>sClientZone := z\<rparr>) = (st2, out2)" by (cases "adjustLevels k out (s\<lparr>sClientZone := z\<rparr>)")
  show ?thesis
    using assms z a proxy_status [of "privLevel out2" "s\<lparr>sClientZone := z\<rparr>"] proxy_priv [of "privLevel out2" "s\<lparr>sClientZone := z\<rparr>"]
    by (auto simp: grantLevels_def Let_def setAuthFlags_def authority_ok_def split: if_splits)
qed

section \<open>Scrambled passwords\<close>

text \<open>What the server stores for a password is read back as that password, as long as the key stays the same.\<close>

lemma scramble_roundtrip:
  assumes "icatScramble OS junk pw s = Some (stored, s1)" "length junk = 64" "length junk' = 64"
    and key: "\<And>w. fst (sv_getenv OS ''irodsPKey'' w) = k"
  shows "length stored < 50 \<and> (\<exists>w. icatDescramble OS junk' stored s2 = Some (pw, s2\<lparr>world := w\<rparr>))"
proof -
  define key where "key = (case k of None \<Rightarrow> ''a9_3fker'' | Some k \<Rightarrow> k)"
  have pk: "passwordKey OS s = Some (key, s\<lparr>world := snd (sv_getenv OS ''irodsPKey'' (world s))\<rparr>)" for s :: "('a, 'b) sstate_scheme"
    using key [of "world s"] by (auto simp: passwordKey_def sys_def key_def split: prod.splits)
  have pk2: "passwordKey OS s2 = Some (key, s2\<lparr>world := snd (sv_getenv OS ''irodsPKey'' (world s2))\<rparr>)"
    using key [of "world s2"] by (auto simp: passwordKey_def sys_def key_def split: prod.splits)
  obtain enc where enc: "obfEncodeByKey False junk pw key = Some enc" "obfDecodeByKey False junk' enc key = Some pw" "length enc = length pw"
    using byKey_roundtrip [OF assms(2,3), of False pw key] by blast
  have st: "stored = PASSWORD_SCRAMBLE_PREFIX @ enc" "length stored < 50"
    using assms(1) enc(1) by (auto simp: icatScramble_def pk Let_def split: if_splits)
  then show ?thesis
    using enc(2) by (auto simp: icatDescramble_def pk2 Let_def)
qed

section \<open>The server accepts the password\<close>

text \<open>A user with an ordinary password in the catalogue of this server, logging in for himself.\<close>

definition registered :: "'v srvos \<Rightarrow> 'v icat \<Rightarrow> string \<Rightarrow> string \<Rightarrow> string \<Rightarrow> string \<Rightarrow> 'v sstate \<Rightarrow> bool" where
  "registered OS IC u z pw ty t \<longleftrightarrow>
     u \<noteq> [] \<and> length u < 63 \<and> CHR ''#'' \<notin> set u \<and> z \<noteq> [] \<and> length z < 64 \<and>
     sProxyUser t = u \<and> sProxyZone t = z \<and> sClientUser t = u \<and> sClientZone t = z \<and> length (localSID t) < 50 \<and>
     (\<exists>k. \<forall>w. fst (sv_getenv OS ''irodsPKey'' w) = k) \<and>
     (\<exists>stored expiry ts modTs junk s0 s1. length junk = 64 \<and> icatScramble OS junk pw (s0 :: 'v sstate) = Some (stored, s1) \<and>
        1000 \<le> strtol expiry \<and> \<not> isPamExpiry expiry \<and> length expiry < 50 \<and> length ts < 50 \<and> length modTs < 50 \<and>
        (\<forall>w. fst (cmlGetMultiRowStringValuesFromSql IC passwordSql 160 [u, z] w) = (4, [stored, expiry, ts, modTs]))) \<and>
     (\<forall>w. fst (cmlGetStringValueFromSql IC userTypeSql [u, z] w) = (0, ty)) \<and>
     (\<forall>w. fst (getAndConnRcatHostNoLogin IC z w) = (0, \<lparr>localFlag = LOCAL_HOST, rcatEnabled = LOCAL_ICAT\<rparr>))"

lemma registeredD:
  assumes "registered OS IC u z pw ty t"
  shows "z \<noteq> []" "sProxyUser t = u" "sProxyZone t = z" "sClientUser t = u" "sClientZone t = z" "length (localSID t) < 50"
    "fst (cmlGetStringValueFromSql IC userTypeSql [u, z] w) = (0, ty)"
    "fst (getAndConnRcatHostNoLogin IC z w) = (0, \<lparr>localFlag = LOCAL_HOST, rcatEnabled = LOCAL_ICAT\<rparr>)"
  using assms by (simp_all add: registered_def)

lemma strstr_hash: "CHR ''#'' \<notin> set u \<Longrightarrow> strstr (u @ CHR ''#'' # z) ''#'' = Some (length u)"
  by (induction u) auto

lemma parse_user:
  assumes "u \<noteq> []" "length u < 63" "CHR ''#'' \<notin> set u" "length z < 64"
  shows "\<exists>i. parseUserName (u @ ''#'' @ z) = Some (i, u, z)"
  using assms strstr_hash [of u z] by (simp add: parseUserName_def Let_def)

lemma sys_fst: "fst (f (world s)) = r \<Longrightarrow> sys f s = Some (r, s\<lparr>world := snd (f (world s))\<rparr>)"
  by (auto simp: sys_def split: prod.split)

lemma loop_first:
  assumes "\<exists>w. icatDescramble OS junk stored s = Some (pw, s\<lparr>world := w\<rparr>)" "challenge_ok c" "length junk = 64"
    and "length stored < 50" "length e < 50" "length ts < 50" "length m < 50"
  shows "\<exists>g w. pw_loop OS junk (c @ r) (loginResponse c pw) [stored, e, ts, m] 0 1 junk s = Some (Some g, s\<lparr>world := w\<rparr>) \<and> goodPwExpiry g = e"
  using assms
  by (auto simp: challenge_buf strncpy_padded store_padded answer_check pwAt_def load_def sameResponse_def length_loginResponse)

lemma use_regular:
  assumes "1000 \<le> strtol (goodPwExpiry g)" "\<not> isPamExpiry (goodPwExpiry g)"
  shows "\<exists>w. usePassword OS IC g u z mz s = checkLevel IC u z mz (s\<lparr>world := w\<rparr>)"
  using assms by (auto simp: usePassword_def getNowStr_def checkPamExpiry_def useTemporary_def sys_def Let_def split: prod.splits)

lemma level_of_user:
  assumes "\<And>w. fst (cmlGetStringValueFromSql IC userTypeSql [u, z] w) = (0, ty)" "sClientUser s = u" "sClientZone s = z"
  shows "\<exists>w cp. checkLevel IC u z z s = Some ((0, if ty = ''rodsadmin'' then 5 else 3, cp), s\<lparr>world := w, prevFailure := 0\<rparr>)"
  using assms sys_fst [of "cmlGetStringValueFromSql IC userTypeSql [u, z]" s, OF assms(1)] by (auto simp: checkLevel_def)

lemma check_accepts:
  assumes "registered OS IC u z pw ty t" "challenge_ok c" "length junk = 64"
  shows "\<exists>w cp x. chlCheckAuth OS IC junk (c @ r) (loginResponse c pw) (u @ ''#'' @ z) (t\<lparr>world := w0\<rparr>) =
    Some ((0, if ty = ''rodsadmin'' then 5 else 3, cp), t\<lparr>prevChalSig := x, world := w, prevFailure := 0\<rparr>)"
proof -
  note R = assms(1) [unfolded registered_def]
  obtain i where i: "parseUserName (u @ ''#'' @ z) = Some (i, u, z)" using R parse_user by blast
  obtain stored e ts m junk0 s0 s1 k where st: "length junk0 = 64" "icatScramble OS junk0 pw (s0 :: 'a sstate) = Some (stored, s1)"
      "1000 \<le> strtol e" "\<not> isPamExpiry e" "length e < 50" "length ts < 50" "length m < 50"
      "\<And>w. fst (cmlGetMultiRowStringValuesFromSql IC passwordSql 160 [u, z] w) = (4, [stored, e, ts, m])"
      "\<And>w. fst (sv_getenv OS ''irodsPKey'' w) = k"
    using R by blast
  define t1 where "t1 = t\<lparr>world := snd (cmlGetMultiRowStringValuesFromSql IC passwordSql 160 [u, z] w0), prevChalSig := signature (c @ replicate 52 0)\<rparr>"
  have d: "length stored < 50" "\<exists>w. icatDescramble OS junk stored t1 = Some (pw, t1\<lparr>world := w\<rparr>)"
    using scramble_roundtrip [OF st(2,1) assms(3) st(9)] by blast+
  obtain g w2 where g: "pw_loop OS junk (c @ r) (loginResponse c pw) [stored, e, ts, m] 0 1 junk t1 = Some (Some g, t1\<lparr>world := w2\<rparr>)" "goodPwExpiry g = e"
    using loop_first [OF d(2) assms(2,3) d(1) st(5-7), of r] by blast
  obtain w3 where w3: "usePassword OS IC g u z z (t1\<lparr>world := w2\<rparr>) = checkLevel IC u z z (t1\<lparr>world := w3\<rparr>)"
    using use_regular [of g OS IC u z z "t1\<lparr>world := w2\<rparr>"] g(2) st(3,4) by auto
  obtain w4 cp where w4: "checkLevel IC u z z (t1\<lparr>world := w3\<rparr>) = Some ((0, if ty = ''rodsadmin'' then 5 else 3, cp), t1\<lparr>world := w4, prevFailure := 0\<rparr>)"
    using level_of_user [of IC u z ty "t1\<lparr>world := w3\<rparr>"] registeredD(4,5,7) [OF assms(1)] by (auto simp: t1_def)
  have q: "sys (cmlGetMultiRowStringValuesFromSql IC passwordSql 160 [u, z]) (t\<lparr>world := w0, prevChalSig := signature (c @ replicate 52 0)\<rparr>) =
      Some ((4, [stored, e, ts, m]), t1)"
    using st(8) [of w0] by (auto simp: sys_def t1_def split: prod.split)
  have "checkPasswords OS IC junk (c @ r) (loginResponse c pw) u z z (t\<lparr>world := w0, prevChalSig := signature (c @ replicate 52 0)\<rparr>) =
      Some ((0, if ty = ''rodsadmin'' then 5 else 3, cp), t1\<lparr>world := w4, prevFailure := 0\<rparr>)"
    using q g(1) w3 w4 by (simp add: checkPasswords_def del: pw_loop.simps)
  then have "chlCheckAuth OS IC junk (c @ r) (loginResponse c pw) (u @ ''#'' @ z) (t\<lparr>world := w0\<rparr>) =
      Some ((0, if ty = ''rodsadmin'' then 5 else 3, cp), t1\<lparr>world := w4, prevFailure := 0\<rparr>)"
    using i registeredD(1) [OF assms(1)] by (simp add: chlCheckAuth_def challenge_buf [OF assms(2)] zoneToAsk_def)
  then show ?thesis by (auto simp: t1_def)
qed

lemma answer_returns: "length junk = 64 \<Longrightarrow> 114 \<le> length buf \<Longrightarrow> \<exists>d j. answer junk buf = Some (d, j)"
  by (simp add: answer_def md5Bytes_114)

lemma response_accepted:
  assumes "registered OS IC u z pw ty t" "challengeStatic t = c @ r" "challenge_ok c" "length junk = 64"
  shows "\<exists>t'. rsAuthResponse OS IC junk (loginResponse c pw) (u @ ''#'' @ z) t = Some (0, t') \<and>
    sProxyAuth t' = (if ty = ''rodsadmin'' then LOCAL_PRIV_USER_AUTH else LOCAL_USER_AUTH) \<and> sClientAuth t' = sProxyAuth t'"
proof -
  note R = registeredD [OF assms(1)]
  define level :: int where "level = (if ty = ''rodsadmin'' then 5 else 3)"
  define w0 where "w0 = snd (getAndConnRcatHostNoLogin IC z (world t))"
  have host: "sys (getAndConnRcatHostNoLogin IC z) t = Some ((0, \<lparr>localFlag = 0, rcatEnabled = 1\<rparr>), t\<lparr>world := w0\<rparr>)"
    using sys_fst [of "getAndConnRcatHostNoLogin IC z" t, OF R(8)] by (simp add: w0_def)
  obtain w cp x where chk: "chlCheckAuth OS IC junk (c @ r) (loginResponse c pw) (u @ ''#'' @ z) (t\<lparr>world := w0\<rparr>) =
      Some ((0, level, cp), t\<lparr>prevChalSig := x, world := w, prevFailure := 0\<rparr>)"
    unfolding level_def using check_accepts [OF assms(1,3,4)] by blast
  define t2 where "t2 = t\<lparr>prevChalSig := x, world := w, prevFailure := 0\<rparr>"
  have "length (localSID t) < 50" "length c = 64" using R(6) assms(3) by (simp_all add: challenge_ok_def)
  then obtain d where "rsAuthCheck OS IC junk (c @ r) (loginResponse c pw) (u @ ''#'' @ z) (t\<lparr>world := w0\<rparr>) =
      Some ((0, \<lparr>privLevel = level, clientPrivLevel = cp, serverResponse = Some d\<rparr>), t2)"
    using chk answer_returns [OF assms(4), of "c @ bytesOf (localSID t) @ replicate (52 - length (localSID t)) 0"]
    by (cases "localSID t = []") (auto simp: rsAuthCheck_def challenge_buf [OF assms(3)] getZoneServerId_def Let_def storeBytes_def t2_def)
  moreover obtain t' where "grantLevels 1 \<lparr>privLevel = level, clientPrivLevel = cp, serverResponse = Some d\<rparr> t2 = Some (0, t')"
      "sProxyAuth t' = level" "sClientAuth t' = level"
    using R(1-5) by (simp add: grantLevels_def setClientZone_def adjustLevels_def chkProxyUserPriv_def setAuthFlags_def t2_def Let_def)
  ultimately show ?thesis
    unfolding level_def [symmetric] using R(3) host assms(2) by (simp add: rsAuthResponse_def askCatalogue_def)
qed

text \<open>The challenge that the server sends is the one it keeps.\<close>

lemma request_challenge:
  assumes "reads_ok OS" "length junk = 64" "length ints = 30"
  shows "\<exists>c w n. challenge_ok c \<and> rsAuthRequest OS junk ints t = Some ((0, c @ [0, 0]),
    t\<lparr>world := w, rndCount := n, challengeStatic := c @ replicate 51 0\<rparr>)"
proof -
  obtain c w n where r: "get64RandomBytes OS junk ints t = Some ((0, c @ [0]), t\<lparr>world := w, rndCount := n\<rparr>)" "challenge_ok c"
    using random_bytes [OF assms, of t] by (auto simp: wpo_def)
  then have "storeBytes 0 (c @ [0]) (replicate 115 0) = Some (c @ replicate 51 0)"
    by (simp add: storeBytes_def challenge_ok_def flip: replicate_Suc)
  moreover have "strncpy (c @ replicate 51 0) 66 = Some (c @ [0, 0])"
    using r(2) by (simp add: strncpy_def challenge_ok_def takeWhile_append takeWhile_nonzero Let_def) (simp add: numeral_eq_Suc)
  ultimately show ?thesis using r by (auto simp: rsAuthRequest_def)
qed

section \<open>A server in memory\<close>

text \<open>One user with one password, on the disk of \<open>ramOS\<close>.\<close>

definition ramSrv :: "ram srvos" where
  "ramSrv = authos.extend ramOS (srvos.fields (\<lambda>w. (1, w)) (\<lambda>_ w. (None, w)))"

definition ramServer :: "ram sstate" where
  "ramServer = \<lparr>world = (Map.empty, None), locks = (\<lambda>_. 0), rndCount = 12348, challengeStatic = replicate 115 0, prevFailure = 0,
     prevChalSig = [], localZone = ''z'', localSID = [], remoteSID = [], zones = [(''z'', 1)], sProxyUser = ''alice'', sProxyZone = ''z'',
     sClientUser = ''alice'', sClientZone = ''z'', sProxyAuth = 0, sClientAuth = 0\<rparr>"

definition ramStored :: string where
  "ramStored = fst (the (icatScramble ramSrv (replicate 64 0) ''secret'' ramServer))"

definition ramCat :: "ram icat" where
  "ramCat = \<lparr>cmlGetStringValueFromSql = (\<lambda>_ _ w. ((0, ''rodsuser''), w)),
     cmlGetMultiRowStringValuesFromSql = (\<lambda>_ _ _ w. ((4, [ramStored, ''9999999'', ''1'', ''1'']), w)),
     cmlExecuteNoAnswerSql = (\<lambda>_ _ w. (0, w)), getAndConnRcatHostNoLogin = (\<lambda>_ w. ((0, \<lparr>localFlag = 0, rcatEnabled = 1\<rparr>), w)),
     rcAuthCheck = (\<lambda>_ _ _ w. ((0, None), w)), rcDisconnect_rcat = (\<lambda>w. (0, w))\<rparr>"

lemma ram_getenv: "sv_getenv ramSrv = (\<lambda>_ w. (None, w))"
  by (simp add: ramSrv_def authos.defs srvos.defs)

lemma scramble_returns:
  assumes "length junk = 64" "length pw \<le> 46"
  shows "\<exists>stored s1. icatScramble OS junk pw s = Some (stored, s1)"
proof -
  obtain v w where v: "sv_getenv OS ''irodsPKey'' (world s) = (v, w)" by (cases "sv_getenv OS ''irodsPKey'' (world s)")
  show ?thesis
    using byKey_roundtrip [OF assms(1) assms(1), of False pw "case v of None \<Rightarrow> ''a9_3fker'' | Some k \<Rightarrow> k"] assms(2) v
    by (auto simp: icatScramble_def passwordKey_def sys_def PASSWORD_SCRAMBLE_PREFIX_def Let_def)
qed

lemma ram_registered: "registered ramSrv ramCat ''alice'' ''z'' ''secret'' ''rodsuser'' ramServer"
proof -
  obtain s1 where "icatScramble ramSrv (replicate 64 0) ''secret'' ramServer = Some (ramStored, s1)"
    using scramble_returns [of "replicate 64 0" "''secret''" ramSrv ramServer] by (auto simp: ramStored_def)
  moreover have "strtol ''9999999'' = 9999999" "\<not> isPamExpiry ''9999999''" by code_simp+
  ultimately show ?thesis
    unfolding registered_def
    by (intro conjI exI [of _ None] exI [of _ ramStored] exI [of _ "''9999999''"] exI [of _ "''1''"] exI [of _ "replicate 64 0"]
        exI [of _ ramServer] exI [of _ s1]) (simp_all add: ramServer_def ramCat_def ram_getenv)
qed

lemma ones_challenge: "challenge_ok (replicate 64 1)"
  by (simp add: challenge_ok_def)

section \<open>Properties\<close>

text \<open>C33. Only a password admits. When \<open>chlCheckAuth\<close> gives a user any level of authority, the catalogue was asked for the
  passwords of that user in the zone of the name (the local one if it has none), and either one of them, unscrambled,
  gives the answer to the challenge, or the user is \<open>anonymous\<close> and has no password.\<close>

theorem only_password_admits:
  fixes s s' :: "('w, 'z) sstate_scheme"
  assumes "chlCheckAuth OS IC junk (c @ r) response username s = Some ((0, level, cp), s')" "level \<noteq> NO_USER_AUTH"
    and "challenge_ok c" "length junk = 64"
  shows "\<exists>i name uz zone w status strs. parseUserName username = Some (i, name, uz) \<and> zone = (if uz = [] then localZone s' else uz) \<and>
    fst (cmlGetMultiRowStringValuesFromSql IC passwordSql 160 [name, zone] w) = (status, strs) \<and>
    (name = ''anonymous'' \<and> status = CAT_NO_ROWS_FOUND \<or>
     (\<exists>k pw s1 (s2 :: ('w, 'z) sstate_scheme). 4 * k + 3 < length strs \<and>
        icatDescramble OS junk (strs ! (4 * k)) s1 = Some (pw, s2) \<and> take 16 response = loginResponse c pw))"
proof -
  obtain i name uz st zone s1 where *: "parseUserName username = Some (i, name, uz)"
      "zoneToAsk IC uz (s\<lparr>prevChalSig := signature (c @ replicate 52 0)\<rparr>) = Some ((st, zone), s1)"
      "checkPasswords OS IC junk (c @ r) response name uz zone s1 = Some ((0, level, cp), s')"
    using assms(1-3) by (auto simp: chlCheckAuth_def challenge_buf Let_def bind_eq_Some_conv split: if_splits)
  have "zone = (if uz = [] then localZone s' else uz)"
    using users_zone [OF *(2)] users_passwords [OF *(3)] by (auto dest: usersD)
  moreover note passwords_grant [OF *(3) assms(2-4)]
  ultimately show ?thesis
    using *(1) surjective_pairing [of "fst (cmlGetMultiRowStringValuesFromSql IC passwordSql 160 [name, zone] (world s1))"]
    by blast
qed

theorem only_password_admits_witness:
  "\<exists>i name uz w status strs. parseUserName ''alice#z'' = Some (i, name, uz) \<and>
    fst (cmlGetMultiRowStringValuesFromSql ramCat passwordSql 160 [name, uz] w) = (status, strs) \<and>
    (\<exists>k pw s1 (s2 :: ram sstate). 4 * k + 3 < length strs \<and> icatDescramble ramSrv (replicate 64 0) (strs ! (4 * k)) s1 = Some (pw, s2) \<and>
       loginResponse (replicate 64 1) ''secret'' = loginResponse (replicate 64 1) pw)"
proof -
  obtain w cp x where "chlCheckAuth ramSrv ramCat (replicate 64 0) (replicate 64 1 @ []) (loginResponse (replicate 64 1) ''secret'')
      (''alice'' @ ''#'' @ ''z'') (ramServer\<lparr>world := world ramServer\<rparr>) =
      Some ((0, if ''rodsuser'' = ''rodsadmin'' then 5 else 3, cp), ramServer\<lparr>prevChalSig := x, world := w, prevFailure := 0\<rparr>)"
    using check_accepts [OF ram_registered ones_challenge, of "replicate 64 0"] by (metis length_replicate)
  from only_password_admits [OF this _ ones_challenge] show ?thesis
    by (simp add: length_loginResponse) (auto simp: parseUserName_def)
qed



end
