(* ===== verification/Login.thy ===== *)
theory Login
  imports Client_Login Check_Auth
begin

text \<open>
  A login of the client (\<open>Client_Login\<close>) with a server (\<open>Check_Auth\<close>), each with a world of its own: what the client's
  requests return is what the server's handlers answer. That packing and the connection carry the bytes is the
  hypothesis \<open>linked\<close>.
\<close>

section \<open>Client and server together\<close>

definition linked :: "'w loginapi \<Rightarrow> 'v srvos \<Rightarrow> 'v icat \<Rightarrow> 8 word list \<Rightarrow> 8 word list \<Rightarrow> 'v sstate \<Rightarrow> bool" where
  "linked API OS IC junk challenge t \<longleftrightarrow>
     (\<forall>w. fst (rcAuthRequest API w) = (0, take 64 challenge)) \<and>
     (\<forall>digest name w. fst (rcAuthResponse API digest name w) =
        (case rsAuthResponse OS IC junk digest name t of Some (status, _) \<Rightarrow> status | None \<Rightarrow> -1))"

lemma registered_challenge:
  "registered OS IC u z pw ty (t\<lparr>world := w, rndCount := n, challengeStatic := b\<rparr>) \<longleftrightarrow> registered OS IC u z pw ty t"
  by (simp add: registered_def)

section \<open>Properties\<close>

text \<open>C32. A login from end to end. The password that \<open>obfSavePw\<close> left in the authentication file of the client is the one of
  the user in the catalogue, of at most 42 characters and without a time limit. Then the challenge that the server sends
  and the digest that the client computes from it make \<open>clientLogin\<close> succeed, and the user has on the server the level of a
  local user, or of a privileged one if the catalogue says that he is an administrator.\<close>

theorem login_end_to_end:
  assumes "prepared COS disk u z pw s" "\<And>w. disk (snd (rcAuthRequest API w)) = disk w"
    and "registered OS IC u z pw ty t" "reads_ok OS" "length ints = 30" "length junk = 64" "length junk' = 64"
    and "rsAuthRequest OS junk ints t = Some ((i, challenge), t1)" "linked API OS IC junk challenge t1"
  shows "\<exists>s' digest t'. clientLogin COS API junk' s = Some (0, s') \<and> loggedIn s' = 1 \<and>
    rsAuthResponse OS IC junk digest (u @ ''#'' @ z) t1 = Some (0, t') \<and>
    sProxyAuth t' = (if ty = ''rodsadmin'' then LOCAL_PRIV_USER_AUTH else LOCAL_USER_AUTH) \<and> sClientAuth t' = sProxyAuth t'"
proof -
  obtain c w n where c: "challenge_ok c" "challenge = c @ [0, 0]" "t1 = t\<lparr>world := w, rndCount := n, challengeStatic := c @ replicate 51 0\<rparr>"
    using request_challenge [OF assms(4,6,5), of t] assms(8) by auto
  have reg: "registered OS IC u z pw ty t1" "challengeStatic t1 = c @ replicate 51 0"
    using assms(3) by (simp_all add: c(3) registered_challenge)
  obtain t' where t': "rsAuthResponse OS IC junk (loginResponse c pw) (u @ ''#'' @ z) t1 = Some (0, t')"
      "sProxyAuth t' = (if ty = ''rodsadmin'' then 5 else 3)" "sClientAuth t' = sProxyAuth t'"
    using response_accepted [OF reg c(1) assms(6)] by blast
  have "fst (rcAuthRequest API (world s)) = (0, c)"
    using assms(9) c(1,2) by (simp add: linked_def challenge_ok_def)
  then obtain s1 where s1: "clientLogin COS API junk' s = Some (answered API (loginResponse c pw) (u @ ''#'' @ z) s1)"
    using client_answers [OF assms(1) _ c(1) assms(2,7)] by blast
  have "fst (rcAuthResponse API (loginResponse c pw) (u @ ''#'' @ z) (world s1)) = 0"
    using assms(9) t'(1) by (simp add: linked_def)
  with s1 have "\<exists>s'. clientLogin COS API junk' s = Some (0, s') \<and> loggedIn s' = 1"
    by (auto simp: answered_def split: prod.splits)
  with t' show ?thesis by blast
qed

definition ramClient :: "ram lgstate" where
  "ramClient = \<lparr>world = ([''/a'' \<mapsto> (obfText 0 0 (500 AND 0xf5f) (1000 AND 0xffff) ''secret'' @ [NULc], 1000)], None), locks = (\<lambda>_. 0),
     obfDebug = 0, timeVal = 0, isTemp = 0, doTemp = 0, authFileName = ''/a'', prevChallengeSignitureClient = [], loggedIn = 0,
     proxyUserName = ''alice'', proxyRodsZone = ''z''\<rparr>"

definition ramAsked :: "(int \<times> 8 word list) \<times> ram sstate" where
  "ramAsked = the (rsAuthRequest ramSrv (replicate 64 0) (replicate 30 0) ramServer)"

definition ramAPI :: "ram loginapi" where
  "ramAPI = \<lparr>rcAuthRequest = (\<lambda>w. ((0, take 64 (snd (fst ramAsked))), w)),
     rcAuthResponse = (\<lambda>digest name w. (case rsAuthResponse ramSrv ramCat (replicate 64 0) digest name (snd ramAsked) of
       Some (status, _) \<Rightarrow> status | None \<Rightarrow> -1, w))\<rparr>"

theorem login_end_to_end_witness:
  "\<exists>s' digest t'. clientLogin ramOS ramAPI (replicate 64 0) ramClient = Some (0, s') \<and> loggedIn s' = 1 \<and>
     rsAuthResponse ramSrv ramCat (replicate 64 0) digest ''alice#z'' (snd ramAsked) = Some (0, t') \<and>
     sProxyAuth t' = LOCAL_USER_AUTH \<and> sClientAuth t' = LOCAL_USER_AUTH"
proof -
  have "holdsPw fst {1000} 500 ''/a'' ''secret'' (world ramClient)"
    unfolding holdsPw_def by (intro exI [of _ 0] exI [of _ 1000]) (simp add: ramClient_def)
  moreover have "strstr ''secret'' TMP_FLAG = None" by code_simp
  ultimately have c: "prepared ramOS fst ''alice'' ''z'' ''secret'' ramClient"
    unfolding prepared_def
    by (intro conjI exI [of _ ramFds] exI [of _ "{1000}"] exI [of _ 500] ram_disk) (simp_all add: ramClient_def obfiTimeCheck_def)
  have r: "reads_ok ramSrv"
    by (auto simp: reads_ok_def ramSrv_def ramOS_def authos.defs srvos.defs Let_def split: option.splits)
  then obtain ch t1 where a: "rsAuthRequest ramSrv (replicate 64 0) (replicate 30 0) ramServer = Some ((0, ch), t1)"
    using request_challenge [of ramSrv "replicate 64 0" "replicate 30 0" ramServer] by auto
  then have l: "linked ramAPI ramSrv ramCat (replicate 64 0) ch t1" "snd ramAsked = t1"
    by (simp_all add: linked_def ramAPI_def ramAsked_def)
  have d: "\<And>w. fst (snd (rcAuthRequest ramAPI w)) = fst w"
    by (simp add: ramAPI_def)
  from login_end_to_end [OF c d ram_registered r length_replicate length_replicate length_replicate a l(1)] show ?thesis
    by (fastforce simp: l(2))
qed

end
