(* ===== verification/Spec2Isabelle.thy ===== *)
theory Spec2Isabelle
  imports Fuse_Effects Base64 Login
begin

text \<open>
  A verification development for the iRODS FUSE client (\<open>src/clients/fuse\<close>), the routines of the
  iRODS client library (\<open>src/lib/core\<close>) it is built on, and the login to a server.

  \<^bold>\<open>The program.\<close> The client makes an iRODS collection look like a directory. FUSE calls the handlers
  of \<open>iFuseOper.c\<close>. A handler turns the path it is given into an iRODS path, asks the path caches, takes a
  connection from a pool, sends a request to the server, repeats it over a new connection when the first
  one turns out to be broken, brings the caches up to date and releases the connection. Around that the client
  keeps five kinds of state, each with its own lock:

  \<^item> two \<^emph>\<open>path caches\<close>, of paths known to exist (with attributes) and known not to exist;
  \<^item> a table of 512 \<^emph>\<open>descriptors\<close> and a \<^emph>\<open>pool of connections\<close>, which a manager thread shrinks;
  \<^item> five slots of \<^emph>\<open>newly created files\<close>, which carry a descriptor from \<open>mknod\<close> to \<open>open\<close>;
  \<^item> the \<^emph>\<open>preload cache\<close>, local copies of whole objects fetched by threads;
  \<^item> the \<^emph>\<open>upload buffer\<close>, local files of what is written and not yet sent.

  The modelled build has the path, read and write caches and the two options of the client's Makefile,
  \<open>ENABLE_PRELOAD\<close> and \<open>ENABLE_LAZY_UPLOAD\<close>.

  \<^bold>\<open>How the code is read.\<close> A C function on global state is a function \<open>s \<Rightarrow> (result \<times> s) option\<close>.
  \<open>None\<close> is an execution that gives its caller no result: an access outside an array, through a null
  pointer or to freed memory, a mutex locked again by its holder, a wait nobody answers, a loop that does
  not end. So \<open>wpo m Q\<close> (it returns, and \<open>Q\<close> holds of the result) is total correctness, and most theorems
  about operations say it. The state is a record extended component by component: \<open>base\<close> (world and
  locks), \<open>pcstate\<close> (path caches), \<open>fstate\<close> (descriptors and connections), \<open>nstate\<close> (slots), \<open>pstate\<close>
  (preload), \<open>lstate\<close> (upload). Linked structures are heaps of nodes, and freeing removes the node. The
  operating system and the server are records of functions (\<open>os\<close>, \<open>irods\<close>) on a world of arbitrary type;
  errors are the C status codes. Memory allocation succeeds, log messages are left out, and a C name
  that begins with an underscore, \<open>_x\<close>, is \<open>do_x\<close>. Loops whose end depends on the state or the world are
  \<open>partial_function (option)\<close>; there is no fuel. That they return is part of the theorems
  about them: by the length of the queue for the path caches, of the list for \<open>Fl_List\<close>, by
  the depth of the path or tree for \<open>FS_Utils\<close>, by the number of copies for the eviction of \<open>Preload\<close>,
  and by the length of the listing for \<open>irodsReaddir\<close>.

  \<^bold>\<open>The theories.\<close>

  \<^descr> \<^verbatim>\<open>Fuse_Prelude\<close>: the reading of C above, weakest preconditions, locks, shared lemmas.
  \<^descr> \<^verbatim>\<open>Fl_Hashtable\<close> (\<open>iFuseLib.Hashtable.c\<close>): the chained hash table. Its contract is the locale
    \<open>fl_multimap\<close>, interpreted as \<open>fl\<close>; the table refines a map from keys to lists of values.
  \<^descr> \<^verbatim>\<open>Fl_List\<close> (\<open>iFuseLib.List.c\<close>): the linked list with its pointers. Contract \<open>fl_sequence\<close>, interpreted
    as \<open>fll\<close>; the operations refine those of HOL lists.
  \<^descr> \<^verbatim>\<open>Fl_Registry\<close>: table and list used together, the locale \<open>fl_registry\<close> over the two contracts,
    interpreted as \<open>freg\<close>.
  \<^descr> \<^verbatim>\<open>Rods_Path\<close> (\<open>stringOpr.c\<close>, \<open>rodsPath.c\<close>, \<open>getiRODSPath\<close> of \<open>iFuseLib.FSUtils.c\<close>): bounded
    copies, splitting, and the two path normalisers, both equal to a resolution of path components.
  \<^descr> \<^verbatim>\<open>Base64\<close> (\<open>base64.c\<close>): encoding and decoding of buffers, the round trip and the bounds of the decoder's
    stores.
  \<^descr> \<^verbatim>\<open>Md5\<close> (\<open>lib/md5\<close>): the digest, computed in pieces through a context of 64 bytes. Its contract is the
    locale \<open>message_digest\<close>, interpreted as \<open>md\<close>: the result depends only on the bytes and not on how they are
    cut. The checksum that \<open>rcChksumLocFile\<close> registers is the digest of the file.
  \<^descr> \<^verbatim>\<open>Obf\<close> and \<^verbatim>\<open>Auth_File\<close> (\<open>obf.c\<close>): the obfuscation of passwords for the authentication file and for
    the wire, and the file itself, which is saved, read back at a login and removed; the state is \<open>obfstate\<close>.
  \<^descr> \<^verbatim>\<open>Challenge\<close>, \<^verbatim>\<open>Client_Login\<close> (\<open>clientLogin.c\<close>), \<^verbatim>\<open>Check_Auth\<close> (\<open>rsAuthRequest.c\<close>, \<open>rsAuthCheck.c\<close>,
    \<open>rsAuthResponse.c\<close>, \<open>chlCheckAuth\<close> of \<open>icatHighLevelRoutines.c\<close>) and \<^verbatim>\<open>Login\<close>: the login by which a connection becomes
    usable, on the client (state \<open>lgstate\<close>) and on the server (state \<open>sstate\<close>, the catalogue being the parameter
    \<open>icat\<close>). Only a password of the catalogue admits, authority is given only on success, and a login with
    the right password succeeds from end to end.
  \<^descr> \<^verbatim>\<open>Key_Val\<close> (\<open>keyValPair_t\<close> of \<open>rcMisc.c\<close>): the option lists of requests, a finite map (locale
    \<open>keyval_map\<close>, interpreted as \<open>kv\<close>).
  \<^descr> \<^verbatim>\<open>Fuse_World\<close>: the calls into system and server, \<open>struct stat\<close>, and the error helpers.
  \<^descr> \<^verbatim>\<open>FS_Utils\<close> (\<open>iFuseLib.FSUtils.c\<close>): directories made, removed, emptied and measured.
  \<^descr> \<^verbatim>\<open>Path_Cache\<close> (\<open>iFuseLib.c\<close>): the doubly linked queues of the path caches, pointer by pointer; they
    refine lists per hash slot, and the locale \<open>path_cache\<close> (interpreted as \<open>pc\<close>) says what lookups return.
  \<^descr> \<^verbatim>\<open>Desc_Conn\<close> and \<^verbatim>\<open>Conn_Pool\<close> (\<open>iFuseLib.c\<close>): descriptors, connections, the manager. The handlers' view
    of the pool is the locale \<open>conn_pool\<close>, interpreted for \<open>getIFuseConn\<close> (\<open>cp\<close>) and \<open>getIFuseConnByPath\<close>
    (\<open>cpp\<close>). \<open>pool_step\<close> interleaves handlers with rounds of the manager: no descriptor is left
    with a freed connection.
  \<^descr> \<^verbatim>\<open>Fuse_IO\<close> (\<open>iFuseLib.c\<close>): reading, writing, seeking and closing through a descriptor.
  \<^descr> \<^verbatim>\<open>Newly_Created\<close> (\<open>iFuseLib.c\<close>): the five slots.
  \<^descr> \<^verbatim>\<open>Preload\<close> (\<open>iFuseLib.Preload.c\<close>) and \<^verbatim>\<open>Lazy_Upload\<close> (\<open>iFuseLib.LazyUpload.c\<close>): the two local caches, with
    their registries; \<open>pre_step\<close>, \<open>lazy_step\<close> are their state machines.
  \<^descr> \<^verbatim>\<open>Fuse_Oper\<close> (\<open>iFuseOper.c\<close> and the local-copy routines of \<open>iFuseLib.c\<close>): all handlers.
  \<^descr> \<^verbatim>\<open>Fuse_Handlers\<close>: every handler keeps the invariant of the client (\<open>hinv\<close>) and returns, for any
    sequence of calls interleaved with the manager (\<open>called\<close>).
  \<^descr> \<^verbatim>\<open>Fuse_Effects\<close>: what a listing shows, what is visible after a directory is made, and what a repeated
    request leaves behind.

  \<^bold>\<open>Hypotheses about the world\<close>, each named and shown to hold for a concrete system or server by a
  witness: \<open>server_up\<close> (a connection can be made), \<open>server_ok\<close> (a positive reply about an object has attributes),
  \<open>open_steady\<close> (an object that opens once opens again), \<open>os_ok\<close> (what the local files are asked is
  answered), \<open>listing_ok\<close> (a listing ends), \<open>file_server\<close> (files keep their content and a position),
  \<open>delivers\<close> (a local file is read in pieces up to its end), \<open>auth_disk\<close> (local files keep their content and a
  time), \<open>prepared\<close>, \<open>registered\<close> and \<open>linked\<close> (a client with a password, a user in a catalogue, and a
  connection between the two). Paths are
  ASCII and shorter than \<open>MAX_NAME_LEN\<close> where a theorem says so (\<open>fusePath\<close>, \<open>rodsPathOk\<close>, \<open>asciiPath\<close>).

  \<^bold>\<open>Bounds\<close> are those of the code: \<open>MAX_NAME_LEN\<close> 1088, 512 descriptors of which 3 to 511 are given out, 201
  hash slots with entries that expire after 600 s, 5 slots of new files, 10 connections, 4 MB of a new file
  and 1 MB of a file read through a local copy. Times, hashes and mode bits are words of the code's
  width.

  \<^bold>\<open>Threads.\<close> The model runs one operation at a time. What threads do between operations is the
  interleaving of steps in \<open>pool_step\<close>, \<open>pre_step\<close>, \<open>lazy_step\<close> and \<open>called\<close>; races inside an operation are
  outside the model, and locks are counters that show what is taken twice or left behind.

  \<^bold>\<open>Not modelled.\<close> The messages and prompts of \<open>obf.c\<close>. Of a login, the optional
  schemes GSI, Kerberos, PAM and OS, and the SQL below the catalogue's routines. Start-up and options (\<open>irodsFs.c\<close>): argument parsing and calls
  into \<open>libfuse\<close>. Tracing, logging and the HTTP reader of the client: output, and requests to another
  service. The requests of \<open>lib/api\<close> are parameters, as is the server behind them; packing (\<open>packStruct.c\<close>), the
  iCAT, the rule engine, the command line clients, the modules and the Windows port are programs of their
  own, which the FUSE client reaches only through those requests.
\<close>

end
